(* ===== verification/Prelude.thy ===== *)
theory Prelude
  imports Main "HOL-Library.Word"
begin

unbundle bit_operations_syntax

text \<open>
  Shared vocabulary of the development: the machine integers of the code, its error type
  and results, checked and saturating arithmetic, the two sequencing combinators the models
  are written with, and the generic facts about little-endian bytes and buffer table_rows.

  A Rust function that returns \<open>CoreFsResult<T>\<close> is a value of \<open>'a result\<close>: \<open>Ok\<close>, an
  \<open>Err\<close> with the code's error, or \<open>Panic\<close> where the code would panic (an index out of
  range, an arithmetic overflow).  A build without overflow checks wraps instead of
  panicking; the theorems that conclude \<open>Ok\<close> hold for both kinds of build, because no
  overflow happens on the runs they describe.
\<close>

section \<open>Machine integers\<close>

type_synonym u8 = "8 word"
type_synonym u16 = "16 word"
type_synonym u32 = "32 word"
type_synonym u64 = "64 word"
type_synonym bytes = "u8 list"

section \<open>Errors and results\<close>

text \<open>
  The error enum of \<open>corefs-core/src/error.rs\<close>.  The message is the literal text of the
  source up to its first interpolated value.
\<close>

datatype corefs_error =
    AlreadyExists string
  | InvalidCommand string
  | InvalidInput string
  | NotFound string
  | PolicyViolation string
  | State string

datatype 'a result = Ok 'a | Err corefs_error | Panic

definition is_ok :: "'a result \<Rightarrow> bool" where
  "is_ok r = (case r of Ok _ \<Rightarrow> True | _ \<Rightarrow> False)"

fun map_result :: "('a \<Rightarrow> 'b) \<Rightarrow> 'a result \<Rightarrow> 'b result" where
  "map_result f (Ok x) = Ok (f x)"
| "map_result f (Err e) = Err e"
| "map_result f Panic = Panic"

text \<open>The \<open>?\<close> operator on a pure result.\<close>

fun rbind :: "'a result \<Rightarrow> ('a \<Rightarrow> 'b result) \<Rightarrow> 'b result" where
  "rbind (Ok x) f = f x"
| "rbind (Err e) f = Err e"
| "rbind Panic f = Panic"

definition opt_or :: "'a option \<Rightarrow> corefs_error \<Rightarrow> 'a result" where
  "opt_or o' e = (case o' of Some x \<Rightarrow> Ok x | None \<Rightarrow> Err e)"

named_theorems result_iff \<open>inversion of successful runs\<close>

lemma is_ok_simps [simp]: "is_ok (Ok x)" "\<not> is_ok (Err e)" "\<not> is_ok Panic"
  by (simp_all add: is_ok_def)

lemma is_ok_iff [result_iff]: "is_ok r \<longleftrightarrow> (\<exists>x. r = Ok x)"
  by (cases r) simp_all

lemma rbind_Ok_iff [result_iff]: "rbind m f = Ok y \<longleftrightarrow> (\<exists>x. m = Ok x \<and> f x = Ok y)"
  by (cases m) simp_all

lemma rbind_Panic_iff: "rbind m f = Panic \<longleftrightarrow> m = Panic \<or> (\<exists>x. m = Ok x \<and> f x = Panic)"
  by (cases m) simp_all

lemma rbind_cong [fundef_cong]:
  "m = m' \<Longrightarrow> (\<And>x. m' = Ok x \<Longrightarrow> f x = g x) \<Longrightarrow> rbind m f = rbind m' g"
  by (cases m') simp_all

lemma rbind_assoc: "rbind (rbind m f) g = rbind m (\<lambda>x. rbind (f x) g)"
  by (cases m) simp_all

lemma map_result_Ok_iff [result_iff]: "map_result f m = Ok y \<longleftrightarrow> (\<exists>x. m = Ok x \<and> f x = y)"
  by (cases m) simp_all

lemma opt_or_Ok_iff [result_iff]: "opt_or o' e = Ok x \<longleftrightarrow> o' = Some x"
  by (cases o') (simp_all add: opt_or_def)

lemma opt_or_simps [simp]: "opt_or (Some x) e = Ok x" "opt_or None e = Err e"
  by (simp_all add: opt_or_def)

text \<open>A loop over an accumulator whose body may fail.\<close>

fun rfor :: "('i \<Rightarrow> 's \<Rightarrow> 's result) \<Rightarrow> 'i list \<Rightarrow> 's \<Rightarrow> 's result" where
  "rfor body [] acc = Ok acc"
| "rfor body (i # is) acc = rbind (body i acc) (rfor body is)"

lemma rfor_append: "rfor body (is @ js) acc = rbind (rfor body is acc) (rfor body js)"
proof (induction "is" arbitrary: acc)
  case (Cons i "is")
  then show ?case by (cases "body i acc") simp_all
qed simp

lemma rfor_fold:
  assumes "\<And>i acc. i \<in> set is \<Longrightarrow> body i acc = Ok (step i acc)"
  shows "rfor body is acc = Ok (fold step is acc)"
  using assms by (induction "is" arbitrary: acc) simp_all

lemma rfor_invariant:
  assumes "rfor body is acc = Ok acc'" "P [] acc"
    and "\<And>js i a a'. P js a \<Longrightarrow> i \<in> set is \<Longrightarrow> body i a = Ok a' \<Longrightarrow> P (js @ [i]) a'"
  shows "P is acc'"
proof -
  have "P (js @ is) acc'" if "rfor body is acc = Ok acc'" "P js acc"
    "\<And>js i a a'. P js a \<Longrightarrow> i \<in> set is \<Longrightarrow> body i a = Ok a' \<Longrightarrow> P (js @ [i]) a'" for js
    using that
  proof (induction "is" arbitrary: acc js)
    case (Cons i "is")
    then obtain a where "body i acc = Ok a" "rfor body is a = Ok acc'"
      by (auto simp: result_iff)
    moreover from this have "P (js @ [i]) a"
      using Cons.prems by simp
    ultimately have "P ((js @ [i]) @ is) acc'"
      by (intro Cons.IH [of a "js @ [i]"]) (auto intro: Cons.prems(3))
    then show ?case by simp
  qed simp
  from this [of "[]"] show ?thesis
    using assms by simp
qed

section \<open>Commands: results that also carry a mutable state\<close>

text \<open>
  A method with \<open>&mut self\<close> is a command: it returns its result together with the state
  it leaves, also when it fails, because Rust keeps the mutations made before the \<open>?\<close>.
\<close>

type_synonym ('s, 'a) cmd = "'s \<Rightarrow> 'a result \<times> 's"

definition cret :: "'a \<Rightarrow> ('s, 'a) cmd" where
  "cret x = (\<lambda>s. (Ok x, s))"

definition cfail :: "corefs_error \<Rightarrow> ('s, 'a) cmd" where
  "cfail e = (\<lambda>s. (Err e, s))"

definition clift :: "'a result \<Rightarrow> ('s, 'a) cmd" where
  "clift r = (\<lambda>s. (r, s))"

definition cread :: "('s \<Rightarrow> 'a result) \<Rightarrow> ('s, 'a) cmd" where
  "cread f = (\<lambda>s. (f s, s))"

definition cmod :: "('s \<Rightarrow> 's) \<Rightarrow> ('s, unit) cmd" where
  "cmod f = (\<lambda>s. (Ok (), f s))"

definition cbind :: "('s, 'a) cmd \<Rightarrow> ('a \<Rightarrow> ('s, 'b) cmd) \<Rightarrow> ('s, 'b) cmd" where
  "cbind m f = (\<lambda>s. case m s of (Ok x, t) \<Rightarrow> f x t | (Err e, t) \<Rightarrow> (Err e, t) | (Panic, t) \<Rightarrow> (Panic, t))"

definition cthen :: "('s, unit) cmd \<Rightarrow> ('s, 'b) cmd \<Rightarrow> ('s, 'b) cmd" where
  "cthen m k = cbind m (\<lambda>_. k)"

text \<open>A call whose value is not used (\<open>m?;\<close>).\<close>

definition cdrop :: "('s, 'a) cmd \<Rightarrow> ('s, unit) cmd" where
  "cdrop m = cbind m (\<lambda>_. cret ())"

text \<open>A call whose result, even an error, is thrown away (\<open>let _ = ...\<close>).\<close>

definition cignore :: "('s, 'a) cmd \<Rightarrow> ('s, unit) cmd" where
  "cignore m = (\<lambda>s. case m s of (Ok _, t) \<Rightarrow> (Ok (), t) | (Err _, t) \<Rightarrow> (Ok (), t) | (Panic, t) \<Rightarrow> (Panic, t))"

text \<open>\<open>Result::unwrap_or\<close>.\<close>

definition unwrap_or :: "'a result \<Rightarrow> 'a \<Rightarrow> 'a result" where
  "unwrap_or r x = (case r of Ok y \<Rightarrow> Ok y | Err e \<Rightarrow> Ok x | Panic \<Rightarrow> Panic)"

text \<open>Run a command of a component on the field that holds the component.\<close>

definition czoom :: "('s \<Rightarrow> 't) \<Rightarrow> ('t \<Rightarrow> 's \<Rightarrow> 's) \<Rightarrow> ('t, 'a) cmd \<Rightarrow> ('s, 'a) cmd" where
  "czoom get put' m = (\<lambda>s. case m (get s) of (r, t) \<Rightarrow> (r, put' t s))"

text \<open>A \<open>for\<close> loop whose body uses \<open>?\<close>.\<close>

fun cfor :: "('i \<Rightarrow> ('s, unit) cmd) \<Rightarrow> 'i list \<Rightarrow> ('s, unit) cmd" where
  "cfor body [] = cret ()"
| "cfor body (i # is) = cthen (body i) (cfor body is)"

lemma cret_simp [simp]: "cret x s = (Ok x, s)"
  by (simp add: cret_def)

lemma cfail_simp [simp]: "cfail e s = (Err e, s)"
  by (simp add: cfail_def)

lemma clift_simp [simp]: "clift r s = (r, s)"
  by (simp add: clift_def)

lemma cread_simp [simp]: "cread f s = (f s, s)"
  by (simp add: cread_def)

lemma cmod_simp [simp]: "cmod f s = (Ok (), f s)"
  by (simp add: cmod_def)

lemma czoom_simp: "czoom get put' m s = (fst (m (get s)), put' (snd (m (get s))) s)"
  by (simp add: czoom_def split: prod.split)

lemma cbind_Ok_iff [result_iff]:
  "cbind m f s = (Ok y, u) \<longleftrightarrow> (\<exists>x t. m s = (Ok x, t) \<and> f x t = (Ok y, u))"
  by (auto simp: cbind_def split: prod.splits result.splits)

lemma cthen_Ok_iff [result_iff]:
  "cthen m k s = (Ok y, u) \<longleftrightarrow> (\<exists>t. m s = (Ok (), t) \<and> k t = (Ok y, u))"
  by (simp add: cthen_def result_iff)

lemma cbind_run:
  "m s = (Ok x, t) \<Longrightarrow> cbind m f s = f x t"
  "m s = (Err e, t) \<Longrightarrow> cbind m f s = (Err e, t)"
  "m s = (Panic, t) \<Longrightarrow> cbind m f s = (Panic, t)"
  by (simp_all add: cbind_def)

lemma cdrop_run:
  "m s = (Ok x, t) \<Longrightarrow> cdrop m s = (Ok (), t)"
  "m s = (Err e, t) \<Longrightarrow> cdrop m s = (Err e, t)"
  "m s = (Panic, t) \<Longrightarrow> cdrop m s = (Panic, t)"
  by (simp_all add: cdrop_def cbind_def)

lemma cthen_run:
  "m s = (Ok (), t) \<Longrightarrow> cthen m k s = k t"
  "m s = (Err e, t) \<Longrightarrow> cthen m k s = (Err e, t)"
  "m s = (Panic, t) \<Longrightarrow> cthen m k s = (Panic, t)"
  by (simp_all add: cthen_def cbind_def)

lemma cfor_append: "cfor body (is @ js) = cthen (cfor body is) (cfor body js)"
proof (induction "is")
  case Nil
  show ?case by (simp add: cthen_def cbind_def fun_eq_iff)
next
  case (Cons i "is")
  then show ?case
    by (auto simp: cthen_def cbind_def fun_eq_iff split: prod.splits result.splits)
qed

lemma cfor_map: "cfor body (map f xs) = cfor (\<lambda>x. body (f x)) xs"
  by (induction xs) simp_all

text \<open>Two bodies that agree on the states the loop passes through.\<close>

lemma cfor_same:
  assumes "\<And>i s. i \<in> set is \<Longrightarrow> P s \<Longrightarrow> body i s = body' i s"
    and "\<And>i s t. i \<in> set is \<Longrightarrow> P s \<Longrightarrow> body' i s = (Ok (), t) \<Longrightarrow> P t"
    and "P s"
  shows "cfor body is s = cfor body' is s"
  using assms
proof (induction "is" arbitrary: s)
  case (Cons i "is")
  have same: "body i s = body' i s"
    using Cons.prems by simp
  show ?case
  proof (cases "\<exists>t. body' i s = (Ok (), t)")
    case True
    then obtain t where t: "body' i s = (Ok (), t)" ..
    have "P t"
      using Cons.prems(2) [of i s t] Cons.prems(3) t by simp
    then have "cfor body is t = cfor body' is t"
      using Cons.prems(1,2) by (intro Cons.IH) (metis list.set_intros(2))+
    then show ?thesis
      using same t by (simp add: cthen_run(1))
  next
    case False
    then show ?thesis
      using same by (cases "body' i s"; cases "fst (body' i s)") (auto simp: cthen_def cbind_def)
  qed
qed simp

text \<open>A loop invariant for a \<open>for\<close> loop that never fails: the body advances the state.\<close>

lemma cfor_run:
  assumes "\<And>i s. i \<in> set is \<Longrightarrow> P s \<Longrightarrow> body i s = (Ok (), step i s) \<and> P (step i s)"
    and "P s"
  shows "cfor body is s = (Ok (), fold step is s) \<and> P (fold step is s)"
  using assms
proof (induction "is" arbitrary: s)
  case Nil
  then show ?case by simp
next
  case (Cons i "is")
  have b: "body i s = (Ok (), step i s)" "P (step i s)"
    using Cons.prems by auto
  show ?case
    using Cons.IH [of "step i s"] Cons.prems(1) b by (simp add: cthen_run)
qed

section \<open>Checked and saturating arithmetic\<close>

definition uadd :: "'a::len word \<Rightarrow> 'a word \<Rightarrow> 'a word result" where
  "uadd a b = (if unat a + unat b < 2 ^ LENGTH('a) then Ok (a + b) else Panic)"

definition usub :: "'a::len word \<Rightarrow> 'a word \<Rightarrow> 'a word result" where
  "usub a b = (if b \<le> a then Ok (a - b) else Panic)"

definition umul :: "'a::len word \<Rightarrow> 'a word \<Rightarrow> 'a word result" where
  "umul a b = (if unat a * unat b < 2 ^ LENGTH('a) then Ok (a * b) else Panic)"

definition sat_add :: "'a::len word \<Rightarrow> 'a word \<Rightarrow> 'a word" where
  "sat_add a b = (if unat a + unat b < 2 ^ LENGTH('a) then a + b else - 1)"

definition sat_sub :: "'a::len word \<Rightarrow> 'a word \<Rightarrow> 'a word" where
  "sat_sub a b = (if b \<le> a then a - b else 0)"

definition sat_mul :: "'a::len word \<Rightarrow> 'a word \<Rightarrow> 'a word" where
  "sat_mul a b = (if unat a * unat b < 2 ^ LENGTH('a) then a * b else - 1)"

definition udiv :: "'a::len word \<Rightarrow> 'a word \<Rightarrow> 'a word result" where
  "udiv a b = (if b = 0 then Panic else Ok (a div b))"

definition urem :: "'a::len word \<Rightarrow> 'a word \<Rightarrow> 'a word result" where
  "urem a b = (if b = 0 then Panic else Ok (a mod b))"

text \<open>\<open>checked_add\<close> of the standard library.\<close>

definition checked_add :: "'a::len word \<Rightarrow> 'a word \<Rightarrow> 'a word option" where
  "checked_add a b = (if unat a + unat b < 2 ^ LENGTH('a) then Some (a + b) else None)"

text \<open>\<open>u64::div_ceil\<close> of the standard library.\<close>

definition div_ceil :: "'a::len word \<Rightarrow> 'a word \<Rightarrow> 'a word" where
  "div_ceil a b = (let d = a div b; r = a mod b in if r > 0 then d + 1 else d)"

lemma uadd_Ok_iff [result_iff]:
  "uadd a b = Ok (c :: 'a::len word) \<longleftrightarrow> unat a + unat b < 2 ^ LENGTH('a) \<and> c = a + b"
  by (auto simp: uadd_def)

lemma usub_Ok_iff [result_iff]: "usub a b = Ok c \<longleftrightarrow> b \<le> a \<and> c = a - b"
  by (auto simp: usub_def)

lemma umul_Ok_iff [result_iff]:
  "umul a b = Ok (c :: 'a::len word) \<longleftrightarrow> unat a * unat b < 2 ^ LENGTH('a) \<and> c = a * b"
  by (auto simp: umul_def)

lemma udiv_Ok_iff [result_iff]: "udiv a b = Ok c \<longleftrightarrow> b \<noteq> 0 \<and> c = a div b"
  by (auto simp: udiv_def)

lemma urem_Ok_iff [result_iff]: "urem a b = Ok c \<longleftrightarrow> b \<noteq> 0 \<and> c = a mod b"
  by (auto simp: urem_def)

lemma unat_add_ok: "unat a + unat b < 2 ^ LENGTH('a) \<Longrightarrow> unat (a + b :: 'a::len word) = unat a + unat b"
  by (simp add: unat_word_ariths)

lemma unat_sub_ok: "b \<le> a \<Longrightarrow> unat (a - b :: 'a::len word) = unat a - unat b"
  by (simp add: unat_sub_if' word_le_nat_alt)

lemma unat_mul_ok: "unat a * unat b < 2 ^ LENGTH('a) \<Longrightarrow> unat (a * b :: 'a::len word) = unat a * unat b"
  by (simp add: unat_word_ariths)

lemma unat_lt: "unat (a :: 'a::len word) < 2 ^ LENGTH('a)"
  by (rule unsigned_less)

lemma unat_u64_lt: "unat (a :: u64) < 18446744073709551616"
  using unat_lt [of a] by simp

lemma unat_ucast_u32: "unat (ucast (s :: u32) :: u64) = unat s"
  using unat_lt [of s] by (simp add: unsigned_ucast_eq take_bit_nat_eq_self)

lemma unat_of_nat_ok: "n < 2 ^ LENGTH('a) \<Longrightarrow> unat (of_nat n :: 'a::len word) = n"
  by (simp add: unat_of_nat take_bit_nat_eq_self)

lemma ceil_nat:
  assumes "0 < (b::nat)"
  shows "(a + b - 1) div b = (if 0 < a mod b then a div b + 1 else a div b)"
proof -
  define q r where "q = a div b" and "r = a mod b"
  have a: "a = b * q + r" and r: "r < b"
    using assms by (simp_all add: q_def r_def)
  have "(a + b - 1) div b = (if 0 < r then q + 1 else q)"
  proof (cases "0 < r")
    case True
    then have "a + b - 1 = b * (q + 1) + (r - 1)"
      by (simp add: a)
    also have "\<dots> div b = q + 1"
      using r by (subst div_mult_self4) (use assms in auto)
    finally show ?thesis
      using True by simp
  next
    case False
    then have "a + b - 1 = b * q + (b - 1)"
      using assms by (simp add: a)
    also have "\<dots> div b = q"
      by (subst div_mult_self4) (use assms in auto)
    finally show ?thesis
      using False by simp
  qed
  then show ?thesis by (simp add: q_def r_def)
qed

lemma unat_div_ceil:
  assumes "0 < unat b"
  shows "unat (div_ceil a b :: 'a::len word) = (unat a + unat b - 1) div unat b"
proof -
  let ?a = "unat a" and ?b = "unat b"
  have r: "(0 < a mod b) = (0 < ?a mod ?b)"
    by (simp add: word_less_nat_alt unat_mod)
  have "unat (a div b + 1) = ?a div ?b + 1" if "0 < ?a mod ?b"
  proof -
    have "1 < ?b" using that by (cases "?b = 1") (use assms in auto)
    moreover have "0 < ?a" using that by (cases "?a = 0") simp_all
    ultimately have "?a div ?b < ?a" by simp
    then have "?a div ?b + 1 < 2 ^ LENGTH('a)"
      using unat_lt [of a] by linarith
    then show ?thesis by (simp add: unat_word_ariths unat_div)
  qed
  then show ?thesis
    unfolding ceil_nat [OF assms] by (simp add: div_ceil_def Let_def r unat_div)
qed

lemma xor_cancel [simp]:
  "a XOR b = a XOR c \<longleftrightarrow> b = (c :: 'a::len word)"
  "b XOR a = c XOR a \<longleftrightarrow> b = (c :: 'a::len word)"
proof -
  have l: "a XOR b = a XOR c \<longleftrightarrow> b = c" for a b c :: "'a word"
  proof
    assume "a XOR b = a XOR c"
    then have "a XOR (a XOR b) = a XOR (a XOR c)" by simp
    then show "b = c" by (simp only: bit.xor_left_self)
  qed simp
  show "a XOR b = a XOR c \<longleftrightarrow> b = (c :: 'a::len word)" by (rule l)
  show "b XOR a = c XOR a \<longleftrightarrow> b = (c :: 'a::len word)" using l [of a b c] by (simp add: xor.commute)
qed

text \<open>The Rust range \<open>a..b\<close> over \<open>u64\<close>.\<close>

definition range64 :: "u64 \<Rightarrow> u64 \<Rightarrow> u64 list" where
  "range64 a b = map of_nat [unat a..<unat b]"

lemma set_range64: "i \<in> set (range64 a b) \<longleftrightarrow> a \<le> i \<and> i < b"
proof
  assume "i \<in> set (range64 a b)"
  then obtain n where n: "i = of_nat n" "unat a \<le> n" "n < unat b"
    by (auto simp: range64_def)
  then have "unat i = n"
    using unat_u64_lt [of b] by (simp add: unat_of_nat_ok)
  with n show "a \<le> i \<and> i < b"
    by (simp add: word_le_nat_alt word_less_nat_alt)
next
  assume "a \<le> i \<and> i < b"
  then have "unat i \<in> {unat a..<unat b}" "of_nat (unat i) = i"
    by (simp_all add: word_le_nat_alt word_less_nat_alt)
  then show "i \<in> set (range64 a b)"
    unfolding range64_def by (metis image_eqI set_map set_upt)
qed

lemma length_range64 [simp]: "length (range64 a b) = unat b - unat a"
  by (simp add: range64_def)

section \<open>Buffers\<close>

text \<open>
  \<open>put off src buf\<close> is \<open>buf[off..off + src.len()].copy_from_cut(src)\<close> and
  \<open>cut off n buf\<close> is \<open>buf[off..off + n]\<close>; the models use both within range only.
\<close>

definition zeros :: "nat \<Rightarrow> bytes" where
  "zeros n = replicate n 0"

definition cut :: "nat \<Rightarrow> nat \<Rightarrow> 'a list \<Rightarrow> 'a list" where
  "cut off n buf = take n (drop off buf)"

definition put :: "nat \<Rightarrow> 'a list \<Rightarrow> 'a list \<Rightarrow> 'a list" where
  "put off src buf = take off buf @ src @ drop (off + length src) buf"

text \<open>Indexing with the bounds check of Rust.\<close>

definition nth_res :: "'a list \<Rightarrow> nat \<Rightarrow> 'a result" where
  "nth_res xs i = (if i < length xs then Ok (xs ! i) else Panic)"

definition cut_res :: "nat \<Rightarrow> nat \<Rightarrow> 'a list \<Rightarrow> 'a list result" where
  "cut_res off n buf = (if off + n \<le> length buf then Ok (cut off n buf) else Panic)"

lemma length_zeros [simp]: "length (zeros n) = n"
  by (simp add: zeros_def)

lemma length_cut [simp]: "off + n \<le> length buf \<Longrightarrow> length (cut off n buf) = n"
  by (simp add: cut_def)

lemma length_put [simp]: "off + length src \<le> length buf \<Longrightarrow> length (put off src buf) = length buf"
  by (simp add: put_def)

lemma cut_put_same [simp]:
  "n = length src \<Longrightarrow> off + n \<le> length buf \<Longrightarrow> cut off n (put off src buf) = src"
  by (simp add: cut_def put_def)

lemma cut_put_before [simp]: "off + n \<le> a \<Longrightarrow> a + length src \<le> length buf \<Longrightarrow>
  cut off n (put a src buf) = cut off n buf"
  by (simp add: cut_def put_def take_drop)

lemma cut_put_after [simp]: "a + length src \<le> off \<Longrightarrow> a + length src \<le> length buf \<Longrightarrow>
  cut off n (put a src buf) = cut off n buf"
  by (simp add: cut_def put_def)

lemma cut_put_inside:
  "a \<le> off \<Longrightarrow> off + n \<le> a + length src \<Longrightarrow> a + length src \<le> length buf \<Longrightarrow>
   cut off n (put a src buf) = cut (off - a) n src"
  by (simp add: cut_def put_def)

lemma put_put_same [simp]: "length src = length src' \<Longrightarrow> off + length src \<le> length buf \<Longrightarrow>
  put off src (put off src' buf) = put off src buf"
  by (simp add: put_def)

lemma put_cut [simp]: "off + n \<le> length buf \<Longrightarrow> put off (cut off n buf) buf = buf"
  by (simp add: put_def cut_def min_def) (metis append_take_drop_id drop_drop add.commute)

lemma nth_put: "off + length src \<le> length buf \<Longrightarrow> i < length buf \<Longrightarrow>
  put off src buf ! i = (if off \<le> i \<and> i < off + length src then src ! (i - off) else buf ! i)"
  by (auto simp: put_def nth_append)

lemma nth_cut: "off + n \<le> length buf \<Longrightarrow> i < n \<Longrightarrow> cut off n buf ! i = buf ! (off + i)"
  by (simp add: cut_def)

lemma cut_zeros [simp]: "off + n \<le> m \<Longrightarrow> cut off n (zeros m) = zeros n"
  by (simp add: cut_def zeros_def)

lemma cut_full [simp]: "cut 0 (length xs) xs = xs"
  by (simp add: cut_def)

lemma cut_append_skip: "length xs \<le> off \<Longrightarrow> cut off n (xs @ ys) = cut (off - length xs) n ys"
  by (simp add: cut_def)

lemma cut_append_take: "length xs = n \<Longrightarrow> cut 0 n (xs @ ys) = xs"
  by (simp add: cut_def)

lemma cut_cut: "b + m \<le> n \<Longrightarrow> cut b m (cut a n xs) = cut (a + b) m xs"
  by (simp add: cut_def drop_take min_def add.commute)

lemma cut_split: "cut c (m + n) xs = cut c m xs @ cut (c + m) n xs"
  by (simp add: cut_def take_add add.commute)

lemma buf_split: "take off buf @ cut off n buf @ drop (off + n) buf = buf"
proof -
  have "take n (drop off buf) @ drop (off + n) buf = drop off buf"
    using append_take_drop_id [of n "drop off buf"] by (simp only: drop_drop add.commute)
  then show ?thesis
    unfolding cut_def by (simp only: append_take_drop_id)
qed

lemma buf_eqI:
  "length xs = length ys \<Longrightarrow> (\<And>i. i < length xs \<Longrightarrow> xs ! i = ys ! i) \<Longrightarrow> xs = ys"
  by (rule nth_equalityI)

text \<open>Read-modify-write of an aligned window.\<close>

lemma put_in_cut:
  "a \<le> off \<Longrightarrow> off + length src \<le> a + n \<Longrightarrow> a + n \<le> length buf \<Longrightarrow>
   put a (put (off - a) src (cut a n buf)) buf = put off src buf"
  by (rule buf_eqI) (auto simp: nth_put nth_cut)

lemma put_append: "off + length xs + length ys \<le> length buf \<Longrightarrow>
   put off (xs @ ys) buf = put (off + length xs) ys (put off xs buf)"
  by (rule buf_eqI) (auto simp: nth_put nth_append)

lemma put_commute: "a + length xs \<le> b \<Longrightarrow> b + length ys \<le> length buf \<Longrightarrow>
   put a xs (put b ys buf) = put b ys (put a xs buf)"
  by (rule buf_eqI) (auto simp: nth_put)

section \<open>Little-endian bytes\<close>

text \<open>\<open>to_le_bytes\<close> of an \<open>n\<close>-byte integer, and \<open>from_le_bytes\<close>.\<close>

fun le_bytes :: "nat \<Rightarrow> 'a::len word \<Rightarrow> bytes" where
  "le_bytes 0 w = []"
| "le_bytes (Suc n) w = ucast w # le_bytes n (drop_bit 8 w)"

fun from_le :: "bytes \<Rightarrow> 'a::len word" where
  "from_le [] = 0"
| "from_le (b # bs) = ucast b OR push_bit 8 (from_le bs)"

lemma length_le_bytes [simp]: "length (le_bytes n w) = n"
  by (induction n arbitrary: w) simp_all

lemma from_le_le_bytes: "from_le (le_bytes n w) = take_bit (8 * n) w"
proof (induction n arbitrary: w)
  case 0
  then show ?case by simp
next
  case (Suc n)
  show ?case
    by (rule bit_word_eqI) (auto simp: Suc.IH bit_simps)
qed

lemma from_le_le_bytes_u16 [simp]: "from_le (le_bytes 2 w) = (w :: u16)"
  and from_le_le_bytes_u32 [simp]: "from_le (le_bytes 4 v) = (v :: u32)"
  and from_le_le_bytes_u64 [simp]: "from_le (le_bytes 8 u) = (u :: u64)"
  by (simp_all add: from_le_le_bytes take_bit_word_eq_self)

lemma le_bytes_from_le: "8 * length bs \<le> LENGTH('a) \<Longrightarrow> le_bytes (length bs) (from_le bs :: 'a::len word) = bs"
proof (induction bs)
  case Nil
  then show ?case by simp
next
  case (Cons b bs)
  have len: "8 * length bs + 8 \<le> LENGTH('a)"
    using Cons.prems by simp
  have lt: "from_le bs = take_bit (LENGTH('a) - 8) (from_le bs :: 'a word)"
  proof -
    have "from_le bs = from_le (le_bytes (length bs) (from_le bs :: 'a word))"
      using Cons.IH len by simp
    also have "\<dots> = take_bit (8 * length bs) (from_le bs :: 'a word)"
      by (rule from_le_le_bytes)
    finally show ?thesis
      using len by (metis (no_types) add_le_imp_le_diff min.absorb2 take_bit_take_bit)
  qed
  have "drop_bit 8 (from_le (b # bs) :: 'a word) = from_le bs"
    using len by (subst lt, intro bit_word_eqI) (auto simp: bit_simps dest: bit_imp_le_length)
  moreover have "ucast (from_le (b # bs) :: 'a word) = b"
    using len by (intro bit_word_eqI) (auto simp: bit_simps)
  ultimately show ?case
    using Cons.IH len by simp
qed

lemma zeros_le_bytes: "zeros n = le_bytes n (0 :: 'a::len word)"
  by (induction n) (simp_all add: zeros_def)

end
