(* ===== verification/Layout.thy ===== *)
theory Layout
  imports Prelude
begin

text \<open>
  Physical layout of a volume, \<open>corefs-core/src/storage/ondisk/layout.rs\<close>: the constants,
  \<open>LayoutParams\<close>, \<open>LayoutGeometry::plan\<close> and the address computations on a geometry.  The
  lemmas show that an accepted plan tiles the volume, that its bitmaps and table are large
  enough, and where each inode record lies; and that the plan does not keep the tertiary
  superblock out of the metadata regions.
\<close>

section \<open>Constants\<close>

definition BLOCK_SIZE :: u64 where "BLOCK_SIZE = 4096"
definition INODE_SIZE :: u64 where "INODE_SIZE = 256"
definition INODES_PER_BLOCK :: u64 where "INODES_PER_BLOCK = BLOCK_SIZE div INODE_SIZE"
definition BITS_PER_BITMAP_BLOCK :: u64 where "BITS_PER_BITMAP_BLOCK = BLOCK_SIZE * 8"
definition MIN_VOLUME_BLOCKS :: u64 where "MIN_VOLUME_BLOCKS = 64"
definition DEFAULT_INODE_COUNT :: u64 where "DEFAULT_INODE_COUNT = 4096"
definition DEFAULT_JOURNAL_BLOCKS :: u64 where "DEFAULT_JOURNAL_BLOCKS = 64"
definition RESERVED_BLOCK :: u64 where "RESERVED_BLOCK = 0"
definition PRIMARY_SUPERBLOCK_BLOCK :: u64 where "PRIMARY_SUPERBLOCK_BLOCK = 1"

text \<open>\<open>u64::from_le_bytes(*b"COREFSDF")\<close>.\<close>

definition ODF_MAGIC :: u64 where
  "ODF_MAGIC = from_le [0x43, 0x4F, 0x52, 0x45, 0x46, 0x53, 0x44, 0x46]"

definition ODF_VERSION_MAJOR :: u16 where "ODF_VERSION_MAJOR = 1"
definition ODF_VERSION_MINOR :: u16 where "ODF_VERSION_MINOR = 0"
definition FEATURE_INCOMPAT_PAYLOAD_INODE :: u64 where "FEATURE_INCOMPAT_PAYLOAD_INODE = push_bit 0 1"
definition FEATURE_COMPAT_BLOCK_CHECKSUMS :: u64 where "FEATURE_COMPAT_BLOCK_CHECKSUMS = push_bit 0 1"
definition FEATURE_COMPAT_REDUNDANT_SUPERBLOCKS :: u64 where
  "FEATURE_COMPAT_REDUNDANT_SUPERBLOCKS = push_bit 1 1"
definition FEATURE_INCOMPAT_BLOCK_GROUPS :: u64 where "FEATURE_INCOMPAT_BLOCK_GROUPS = push_bit 1 1"
definition FEATURE_INCOMPAT_PHYSICAL_COW :: u64 where "FEATURE_INCOMPAT_PHYSICAL_COW = push_bit 2 1"

definition SUPPORTED_INCOMPAT :: u64 where
  "SUPPORTED_INCOMPAT =
     FEATURE_INCOMPAT_PAYLOAD_INODE OR FEATURE_INCOMPAT_BLOCK_GROUPS OR FEATURE_INCOMPAT_PHYSICAL_COW"

definition SUPPORTED_RO_COMPAT :: u64 where "SUPPORTED_RO_COMPAT = 0"

lemmas layout_consts = BLOCK_SIZE_def INODE_SIZE_def INODES_PER_BLOCK_def BITS_PER_BITMAP_BLOCK_def
  MIN_VOLUME_BLOCKS_def DEFAULT_INODE_COUNT_def DEFAULT_JOURNAL_BLOCKS_def RESERVED_BLOCK_def
  PRIMARY_SUPERBLOCK_BLOCK_def

lemma const_values [simp]:
  "unat BLOCK_SIZE = 4096" "unat INODE_SIZE = 256" "unat INODES_PER_BLOCK = 16"
  "unat BITS_PER_BITMAP_BLOCK = 32768" "unat MIN_VOLUME_BLOCKS = 64"
  "unat PRIMARY_SUPERBLOCK_BLOCK = 1" "unat RESERVED_BLOCK = 0"
  by (simp_all add: layout_consts unat_div)

section \<open>Parameters and geometry\<close>

record layout_params =
  lp_total_blocks :: u64
  lp_inode_count :: u64
  lp_journal_blocks :: u64

definition with_defaults :: "u64 \<Rightarrow> layout_params" where
  "with_defaults total_blocks =
    \<lparr>lp_total_blocks = total_blocks, lp_inode_count = DEFAULT_INODE_COUNT,
     lp_journal_blocks = DEFAULT_JOURNAL_BLOCKS\<rparr>"

record geometry =
  g_total_blocks :: u64
  g_block_bitmap_start :: u64
  g_block_bitmap_blocks :: u64
  g_inode_bitmap_start :: u64
  g_inode_bitmap_blocks :: u64
  g_inode_table_start :: u64
  g_inode_table_blocks :: u64
  g_inode_count :: u64
  g_journal_start :: u64
  g_journal_blocks :: u64
  g_data_start :: u64
  g_data_blocks :: u64
  g_secondary_superblock_block :: u64
  g_tertiary_superblock_block :: u64

definition plan :: "layout_params \<Rightarrow> geometry result" where
  "plan params =
    (if lp_total_blocks params < MIN_VOLUME_BLOCKS then Err (InvalidInput ''volume too small: '')
     else if lp_inode_count params = 0 then Err (InvalidInput ''inode_count must be greater than zero'')
     else
       let total_blocks = lp_total_blocks params;
           block_bitmap_start = PRIMARY_SUPERBLOCK_BLOCK + 1;
           block_bitmap_blocks = div_ceil total_blocks BITS_PER_BITMAP_BLOCK in
       rbind (uadd block_bitmap_start block_bitmap_blocks) (\<lambda>inode_bitmap_start.
       let inode_bitmap_blocks = div_ceil (lp_inode_count params) BITS_PER_BITMAP_BLOCK in
       rbind (uadd inode_bitmap_start inode_bitmap_blocks) (\<lambda>inode_table_start.
       let inode_table_blocks = div_ceil (lp_inode_count params) INODES_PER_BLOCK in
       rbind (uadd inode_table_start inode_table_blocks) (\<lambda>journal_start.
       let journal_blocks = lp_journal_blocks params in
       rbind (uadd journal_start journal_blocks) (\<lambda>data_start.
       rbind (uadd data_start 4) (\<lambda>data_limit.
       if data_limit > total_blocks
       then Err (InvalidInput ''layout does not leave room for data blocks: data_start='')
       else
         Ok \<lparr>g_total_blocks = total_blocks,
             g_block_bitmap_start = block_bitmap_start,
             g_block_bitmap_blocks = block_bitmap_blocks,
             g_inode_bitmap_start = inode_bitmap_start,
             g_inode_bitmap_blocks = inode_bitmap_blocks,
             g_inode_table_start = inode_table_start,
             g_inode_table_blocks = inode_table_blocks,
             g_inode_count = lp_inode_count params,
             g_journal_start = journal_start,
             g_journal_blocks = journal_blocks,
             g_data_start = data_start,
             g_data_blocks = total_blocks - data_start,
             g_secondary_superblock_block = total_blocks - 1,
             g_tertiary_superblock_block = total_blocks div 2\<rparr>))))))"

definition block_offset :: "u64 \<Rightarrow> u64 result" where
  "block_offset block = umul block BLOCK_SIZE"

definition is_data_block :: "geometry \<Rightarrow> u64 \<Rightarrow> bool" where
  "is_data_block g block \<longleftrightarrow> block \<ge> g_data_start g \<and> block < g_total_blocks g"

definition inode_record_location :: "geometry \<Rightarrow> u64 \<Rightarrow> (u64 \<times> u64) result" where
  "inode_record_location g index =
    (if index \<ge> g_inode_count g then Err (InvalidInput ''inode index '')
     else rbind (uadd (g_inode_table_start g) (index div INODES_PER_BLOCK)) (\<lambda>block.
            Ok (block, (index mod INODES_PER_BLOCK) * INODE_SIZE)))"

section \<open>Well-formed geometries\<close>

text \<open>The regions in address order, as (first block, number of blocks).\<close>

definition regions :: "geometry \<Rightarrow> (nat \<times> nat) list" where
  "regions g =
    [(0, 1), (1, 1),
     (unat (g_block_bitmap_start g), unat (g_block_bitmap_blocks g)),
     (unat (g_inode_bitmap_start g), unat (g_inode_bitmap_blocks g)),
     (unat (g_inode_table_start g), unat (g_inode_table_blocks g)),
     (unat (g_journal_start g), unat (g_journal_blocks g)),
     (unat (g_data_start g), unat (g_data_blocks g))]"

fun tiles :: "nat \<Rightarrow> (nat \<times> nat) list \<Rightarrow> nat \<Rightarrow> bool" where
  "tiles a [] b \<longleftrightarrow> a = b"
| "tiles a ((s, n) # rs) b \<longleftrightarrow> s = a \<and> tiles (a + n) rs b"

definition wf_geometry :: "geometry \<Rightarrow> bool" where
  "wf_geometry g \<longleftrightarrow>
     tiles 0 (regions g) (unat (g_total_blocks g)) \<and>
     unat (g_total_blocks g) \<le> unat (g_block_bitmap_blocks g) * 32768 \<and>
     0 < unat (g_inode_count g) \<and>
     unat (g_inode_count g) \<le> unat (g_inode_bitmap_blocks g) * 32768 \<and>
     unat (g_inode_count g) \<le> unat (g_inode_table_blocks g) * 16 \<and>
     4 \<le> unat (g_data_blocks g) \<and>
     unat (g_secondary_superblock_block g) = unat (g_total_blocks g) - 1 \<and>
     unat (g_tertiary_superblock_block g) = unat (g_total_blocks g) div 2"

lemma tiles_disjoint:
  "tiles a rs b \<Longrightarrow> i < j \<Longrightarrow> j < length rs \<Longrightarrow> fst (rs ! i) + snd (rs ! i) \<le> fst (rs ! j)"
proof (induction a rs b arbitrary: i j rule: tiles.induct)
  case (1 a b)
  then show ?case by simp
next
  case (2 a s n rs b)
  have start: "a + n \<le> fst (rs ! k)" if "tiles (a + n) rs b" "k < length rs" for k
    using that
  proof (induction "a + n" rs b arbitrary: a n k rule: tiles.induct)
    case (2 s n' rs b)
    then show ?case by (cases k) (fastforce simp: add.assoc)+
  qed simp
  obtain j' where j: "j = Suc j'"
    using 2 by (cases j) auto
  show ?case
    using 2 start [of j'] by (cases i) (auto simp: j)
qed

lemma ceil_ge: "0 < (b::nat) \<Longrightarrow> a \<le> (a + b - 1) div b * b"
  using div_mult_mod_eq [of "a + b - 1" b] mod_less_divisor [of b "a + b - 1"] by linarith

lemma plan_Ok_nat:
  assumes "plan p = Ok g"
  shows "unat (g_block_bitmap_start g) = 2"
    and "unat (g_inode_bitmap_start g) = 2 + unat (g_block_bitmap_blocks g)"
    and "unat (g_inode_table_start g) = unat (g_inode_bitmap_start g) + unat (g_inode_bitmap_blocks g)"
    and "unat (g_journal_start g) = unat (g_inode_table_start g) + unat (g_inode_table_blocks g)"
    and "unat (g_data_start g) = unat (g_journal_start g) + unat (g_journal_blocks g)"
    and "unat (g_data_start g) + 4 \<le> unat (g_total_blocks g)"
    and "unat (g_data_blocks g) = unat (g_total_blocks g) - unat (g_data_start g)"
    and "64 \<le> unat (g_total_blocks g)"
  using assms
  by (auto simp: plan_def Let_def result_iff unat_add_ok unat_sub_ok word_le_nat_alt word_less_nat_alt
      split: if_splits)

lemma plan_Ok_fields:
  assumes "plan p = Ok g"
  shows "g_total_blocks g = lp_total_blocks p" and "g_inode_count g = lp_inode_count p"
    and "g_journal_blocks g = lp_journal_blocks p"
    and "unat (g_block_bitmap_blocks g) = (unat (lp_total_blocks p) + 32767) div 32768"
    and "unat (g_inode_bitmap_blocks g) = (unat (lp_inode_count p) + 32767) div 32768"
    and "unat (g_inode_table_blocks g) = (unat (lp_inode_count p) + 15) div 16"
    and "g_secondary_superblock_block g = g_total_blocks g - 1"
    and "g_tertiary_superblock_block g = g_total_blocks g div 2"
    and "g_inode_count g \<noteq> 0"
  using assms by (auto simp: plan_def Let_def result_iff unat_div_ceil split: if_splits)

lemma plan_wf:
  assumes "plan p = Ok g"
  shows "wf_geometry g"
proof -
  note n = plan_Ok_nat [OF assms] and f = plan_Ok_fields [OF assms]
  have "tiles 0 (regions g) (unat (g_total_blocks g))"
    using n by (simp add: regions_def)
  moreover have "unat (g_total_blocks g) \<le> unat (g_block_bitmap_blocks g) * 32768"
    and "unat (g_inode_count g) \<le> unat (g_inode_bitmap_blocks g) * 32768"
    and "unat (g_inode_count g) \<le> unat (g_inode_table_blocks g) * 16"
    using ceil_ge [of 32768 "unat (lp_total_blocks p)"] ceil_ge [of 32768 "unat (lp_inode_count p)"]
      ceil_ge [of 16 "unat (lp_inode_count p)"] f by simp_all
  moreover have "0 < unat (g_inode_count g)"
    using f(9) by (simp add: unat_gt_0)
  moreover have "unat (g_secondary_superblock_block g) = unat (g_total_blocks g) - 1"
    using f(7) n(8) unat_sub_ok [of 1 "g_total_blocks g"] by (simp add: word_le_nat_alt)
  moreover have "unat (g_tertiary_superblock_block g) = unat (g_total_blocks g) div 2"
    using f(8) by (simp add: unat_div)
  ultimately show ?thesis
    using n(6,7) by (simp add: wf_geometry_def)
qed

lemma plan_complete:
  assumes "unat (lp_total_blocks p) < 2 ^ 60" "unat (lp_inode_count p) < 2 ^ 60" "unat (lp_journal_blocks p) < 2 ^ 60"
    and "64 \<le> unat (lp_total_blocks p)" "lp_inode_count p \<noteq> 0"
    and "2 + (unat (lp_total_blocks p) + 32767) div 32768 + (unat (lp_inode_count p) + 32767) div 32768
           + (unat (lp_inode_count p) + 15) div 16 + unat (lp_journal_blocks p) + 4 \<le> unat (lp_total_blocks p)"
  shows "is_ok (plan p)"
proof -
  let ?T = "unat (lp_total_blocks p)" and ?I = "unat (lp_inode_count p)" and ?J = "unat (lp_journal_blocks p)"
  note d = unat_div_ceil [of BITS_PER_BITMAP_BLOCK] unat_div_ceil [of INODES_PER_BLOCK]
  have "(?T + 32767) div 32768 \<le> ?T + 32767" "(?I + 32767) div 32768 \<le> ?I + 32767" "(?I + 15) div 16 \<le> ?I + 15"
    by simp_all
  then show ?thesis
    using assms
    by (simp add: plan_def Let_def uadd_def unat_add_ok word_less_nat_alt d PRIMARY_SUPERBLOCK_BLOCK_def is_ok_def)
      (simp add: add.commute [of _ "32767 :: nat"] add.commute [of _ "15 :: nat"])
qed

section \<open>Inode records\<close>

lemma inode_location:
  assumes "plan p = Ok g" and "i < g_inode_count g"
  shows "\<exists>b off. inode_record_location g i = Ok (b, off)
     \<and> unat (g_inode_table_start g) \<le> unat b
     \<and> unat b < unat (g_inode_table_start g) + unat (g_inode_table_blocks g)
     \<and> unat off + 256 \<le> 4096
     \<and> (unat b - unat (g_inode_table_start g)) * 4096 + unat off = unat i * 256"
proof -
  note n = plan_Ok_nat [OF assms(1)]
  have w: "unat (g_inode_count g) \<le> unat (g_inode_table_blocks g) * 16"
    using plan_wf [OF assms(1)] by (simp add: wf_geometry_def)
  let ?b = "g_inode_table_start g + i div INODES_PER_BLOCK" and ?o = "(i mod INODES_PER_BLOCK) * INODE_SIZE"
  have i: "unat i < unat (g_inode_table_blocks g) * 16"
    using assms(2) w by (simp add: word_less_nat_alt)
  then have q: "unat i div 16 < unat (g_inode_table_blocks g)"
    by (simp add: less_mult_imp_div_less)
  then have no: "unat (g_inode_table_start g) + unat i div 16 < 18446744073709551616"
    using n unat_u64_lt [of "g_total_blocks g"] by linarith
  then have b: "unat ?b = unat (g_inode_table_start g) + unat i div 16"
    by (simp add: unat_add_ok unat_div)
  have m: "unat i mod 16 < 16" by simp
  then have "unat i mod 16 * 256 < 18446744073709551616" by linarith
  then have o: "unat ?o = unat i mod 16 * 256"
    by (simp add: unat_mul_ok unat_mod)
  have "inode_record_location g i = Ok (?b, ?o)"
    using assms(2) no by (simp add: inode_record_location_def uadd_def unat_div linorder_not_less)
  moreover have "unat ?o + 256 \<le> 4096"
    using m o by linarith
  moreover have "(unat ?b - unat (g_inode_table_start g)) * 4096 + unat ?o = unat i * 256"
    unfolding b o using div_mult_mod_eq [of "unat i" 16] by linarith
  ultimately show ?thesis
    using b q by (intro exI [of _ ?b] exI [of _ ?o]) auto
qed

section \<open>The tertiary superblock\<close>

text \<open>
  The plan places a superblock copy at \<open>total / 2\<close> without comparing it with \<open>data_start\<close>.
\<close>

lemma plan_tertiary_in_data_iff:
  assumes "plan p = Ok g"
  shows "is_data_block g (g_tertiary_superblock_block g) \<longleftrightarrow>
     unat (g_data_start g) \<le> unat (g_total_blocks g) div 2"
  using plan_wf [OF assms] plan_Ok_nat [OF assms]
  by (auto simp: is_data_block_def wf_geometry_def word_le_nat_alt word_less_nat_alt)

text \<open>
  With the default parameters a 512-block volume (2 MiB) is accepted although its
  tertiary superblock, block 256, lies inside the inode table (blocks 4 to 259): formatting
  and saving write a superblock over sixteen inode records.
\<close>

theorem plan_default_512_tertiary_in_inode_table:
  "\<exists>g. plan (with_defaults 512) = Ok g \<and> \<not> is_data_block g (g_tertiary_superblock_block g)
     \<and> g_inode_table_start g \<le> g_tertiary_superblock_block g
     \<and> g_tertiary_superblock_block g < g_inode_table_start g + g_inode_table_blocks g"
  by (simp add: plan_def with_defaults_def layout_consts div_ceil_def uadd_def is_data_block_def Let_def)

section \<open>Properties\<close>

text \<open>
  An accepted plan is well formed: reserved block, primary superblock, both bitmaps,
  inode table, journal and data region tile the volume without gap or overlap, the bitmaps
  and the table have room for every block and inode, and the redundant superblocks are at
  the middle and the last block.
\<close>

theorem plan_well_formed:
  assumes "plan p = Ok g"
  shows "wf_geometry g"
  using assms by (rule plan_wf)

lemma plan_1024: "plan \<lparr>lp_total_blocks = 1024, lp_inode_count = 64, lp_journal_blocks = 8\<rparr> =
   Ok \<lparr>g_total_blocks = 1024, g_block_bitmap_start = 2, g_block_bitmap_blocks = 1,
       g_inode_bitmap_start = 3, g_inode_bitmap_blocks = 1, g_inode_table_start = 4,
       g_inode_table_blocks = 4, g_inode_count = 64, g_journal_start = 8, g_journal_blocks = 8,
       g_data_start = 16, g_data_blocks = 1008, g_secondary_superblock_block = 1023,
       g_tertiary_superblock_block = 512\<rparr>"
  by (simp add: plan_def layout_consts div_ceil_def uadd_def Let_def)

theorem plan_well_formed_witness:
  "\<exists>g. plan \<lparr>lp_total_blocks = 1024, lp_inode_count = 64, lp_journal_blocks = 8\<rparr> = Ok g \<and> wf_geometry g"
  using plan_1024 plan_well_formed [OF plan_1024] by blast

text \<open>
  On a planned geometry the record of every inode index lies inside the inode table and
  inside one block, the address computation does not overflow, and the records of two
  different indices do not overlap.
\<close>

theorem inode_record_location_in_table:
  assumes "plan p = Ok g" and "i < g_inode_count g"
  shows "\<exists>b off. inode_record_location g i = Ok (b, off)
     \<and> unat (g_inode_table_start g) \<le> unat b
     \<and> unat b < unat (g_inode_table_start g) + unat (g_inode_table_blocks g)
     \<and> unat off + 256 \<le> 4096
     \<and> (unat b - unat (g_inode_table_start g)) * 4096 + unat off = unat i * 256"
  using assms by (rule inode_location)

theorem inode_record_location_in_table_witness:
  "\<exists>g b off. plan \<lparr>lp_total_blocks = 1024, lp_inode_count = 64, lp_journal_blocks = 8\<rparr> = Ok g
     \<and> inode_record_location g 63 = Ok (b, off)"
proof -
  have "\<exists>b off. inode_record_location
      \<lparr>g_total_blocks = 1024, g_block_bitmap_start = 2, g_block_bitmap_blocks = 1,
       g_inode_bitmap_start = 3, g_inode_bitmap_blocks = 1, g_inode_table_start = 4,
       g_inode_table_blocks = 4, g_inode_count = 64, g_journal_start = 8, g_journal_blocks = 8,
       g_data_start = 16, g_data_blocks = 1008, g_secondary_superblock_block = 1023,
       g_tertiary_superblock_block = 512\<rparr> 63 = Ok (b, off)"
    using inode_record_location_in_table [OF plan_1024, of 63] by auto
  then show ?thesis
    using plan_1024 by blast
qed

end
