(* ===== verification/Bitmap.thy ===== *)
theory Bitmap
  imports Layout
begin

text \<open>
  Allocation bitmaps, \<open>corefs-core/src/storage/ondisk/bitmap.rs\<close>.  The abstraction of a
  bitmap is the set of its allocated units; the locale \<open>allocation_map\<close> states the contract
  the allocators and the formatter rely on, and is interpreted on the model at the end.
\<close>

section \<open>The bitmap and its operations\<close>

record bitmap =
  bm_bits :: bytes
  bm_capacity :: u64

definition bitmap_new :: "u64 \<Rightarrow> bitmap" where
  "bitmap_new capacity =
    (let blocks = max (div_ceil capacity BITS_PER_BITMAP_BLOCK) 1;
         bytes = unat (blocks * BLOCK_SIZE) in
     \<lparr>bm_bits = zeros bytes, bm_capacity = capacity\<rparr>)"

definition bitmap_from_bytes :: "bytes \<Rightarrow> u64 \<Rightarrow> bitmap result" where
  "bitmap_from_bytes bs capacity =
    (if length bs mod unat BLOCK_SIZE \<noteq> 0 then Err (InvalidInput ''bitmap buffer length '')
     else if length bs * 8 < unat capacity then Err (InvalidInput ''bitmap buffer too small: '')
     else Ok \<lparr>bm_bits = bs, bm_capacity = capacity\<rparr>)"

definition block_count :: "bitmap \<Rightarrow> nat" where
  "block_count bm = length (bm_bits bm) div unat BLOCK_SIZE"

definition split_index :: "u64 \<Rightarrow> nat \<times> nat" where
  "split_index index = (unat (index div 8), unat (index mod 8))"

definition check_index :: "bitmap \<Rightarrow> u64 \<Rightarrow> unit result" where
  "check_index bm index =
    (if index \<ge> bm_capacity bm then Err (InvalidInput ''bitmap index '') else Ok ())"

definition is_set :: "bitmap \<Rightarrow> u64 \<Rightarrow> bool result" where
  "is_set bm index =
    rbind (check_index bm index) (\<lambda>_.
      let (byte, bit) = split_index index in
      rbind (nth_res (bm_bits bm) byte) (\<lambda>b. Ok (drop_bit bit b AND 1 = 1)))"

definition bm_set :: "u64 \<Rightarrow> (bitmap, bool) cmd" where
  "bm_set index =
    cbind (cread (\<lambda>bm. check_index bm index)) (\<lambda>_.
      let (byte, bit) = split_index index; mask = push_bit bit 1 in
      cbind (cread (\<lambda>bm. nth_res (bm_bits bm) byte)) (\<lambda>b.
        let was_set = (b AND mask \<noteq> 0) in
        cthen (cmod (\<lambda>bm. bm\<lparr>bm_bits := (bm_bits bm)[byte := b OR mask]\<rparr>)) (cret (\<not> was_set))))"

definition bm_clear :: "u64 \<Rightarrow> (bitmap, bool) cmd" where
  "bm_clear index =
    cbind (cread (\<lambda>bm. check_index bm index)) (\<lambda>_.
      let (byte, bit) = split_index index; mask = push_bit bit 1 in
      cbind (cread (\<lambda>bm. nth_res (bm_bits bm) byte)) (\<lambda>b.
        let was_set = (b AND mask \<noteq> 0) in
        cthen (cmod (\<lambda>bm. bm\<lparr>bm_bits := (bm_bits bm)[byte := b AND NOT mask]\<rparr>)) (cret was_set)))"

text \<open>\<open>allocate_first\<close>; the loop variable stays below the limit, so \<open>i += 1\<close> cannot overflow.\<close>

function allocate_first :: "u64 \<Rightarrow> (bitmap, u64 option) cmd" where
  "allocate_first i bm =
    (if i < bm_capacity bm then
       let (byte, bit) = split_index i in
       case nth_res (bm_bits bm) byte of
         Ok b \<Rightarrow>
           (if b = 0xFF \<and> bit = 0 then allocate_first (sat_add i 8) bm
            else if drop_bit bit b AND 1 = 0
            then (Ok (Some i), bm\<lparr>bm_bits := (bm_bits bm)[byte := b OR push_bit bit 1]\<rparr>)
            else allocate_first (i + 1) bm)
       | Err e \<Rightarrow> (Err e, bm)
       | Panic \<Rightarrow> (Panic, bm)
     else (Ok None, bm))"
  by pat_completeness auto

lemma sat_add_gt: "i < (c :: u64) \<Longrightarrow> unat i < unat (sat_add i 8)"
  using unat_u64_lt [of c]
  by (auto simp: sat_add_def unat_add_ok word_less_nat_alt unsigned_minus_1_eq_mask mask_eq_exp_minus_1)

lemma inc_gt: "i < (c :: u64) \<Longrightarrow> unat (i + 1) = unat i + 1"
  using unat_u64_lt [of c] by (simp add: unat_add_ok word_less_nat_alt)

termination allocate_first
  by (relation "measure (\<lambda>(i, bm). unat (bm_capacity bm) - unat i)")
    (auto simp: inc_gt word_less_nat_alt intro!: diff_less_mono2 sat_add_gt)

declare allocate_first.simps [simp del]

definition popcount :: "bitmap \<Rightarrow> u64 result" where
  "popcount bm =
    rfor (\<lambda>i count.
        let (byte, bit) = split_index i in
        rbind (nth_res (bm_bits bm) byte) (\<lambda>b.
          if drop_bit bit b AND 1 = 1 then Ok (count + 1) else Ok count))
      (range64 0 (bm_capacity bm)) 0"

section \<open>Invariant and abstraction\<close>

definition wf_bitmap :: "bitmap \<Rightarrow> bool" where
  "wf_bitmap bm \<longleftrightarrow> 4096 dvd length (bm_bits bm) \<and> unat (bm_capacity bm) \<le> 8 * length (bm_bits bm)"

definition bm_bit :: "bitmap \<Rightarrow> nat \<Rightarrow> bool" where
  "bm_bit bm i = bit (bm_bits bm ! (i div 8)) (i mod 8)"

definition used :: "bitmap \<Rightarrow> nat set" where
  "used bm = {i. i < unat (bm_capacity bm) \<and> bm_bit bm i}"

lemma finite_used [simp]: "finite (used bm)"
  by (simp add: used_def)

lemma split_index_simp [simp]: "split_index i = (unat i div 8, unat i mod 8)"
  by (simp add: split_index_def unat_div unat_mod)

lemma test_bit_u8 [simp]: "drop_bit n (b :: u8) AND 1 = 1 \<longleftrightarrow> bit b n" "drop_bit n (b :: u8) AND 1 = 0 \<longleftrightarrow> \<not> bit b n"
  by (simp_all add: and_one_eq bit_iff_odd_drop_bit odd_iff_mod_2_eq_one even_iff_mod_2_eq_zero)

lemma mask_test [simp]: "n < 8 \<Longrightarrow> (b :: u8) AND 2 ^ n = 0 \<longleftrightarrow> \<not> bit b n"
  by (simp add: and_exp_eq_0_iff_not_bit)

lemma bit_exp_u8 [simp]: "n < 8 \<Longrightarrow> bit (2 ^ n :: u8) m \<longleftrightarrow> m = n"
  by (auto simp: bit_exp_iff)

lemma byte_in_range: "wf_bitmap bm \<Longrightarrow> i < bm_capacity bm \<Longrightarrow> unat i div 8 < length (bm_bits bm)"
  by (simp add: wf_bitmap_def word_less_nat_alt less_mult_imp_div_less mult.commute)

lemma same_byte: "j div 8 = i div 8 \<Longrightarrow> j mod 8 = i mod 8 \<Longrightarrow> j = (i :: nat)"
  by (metis div_mult_mod_eq)

lemma bm_bit_update:
  "byte < length (bm_bits bm) \<Longrightarrow> bm_bit (bm\<lparr>bm_bits := (bm_bits bm)[byte := b]\<rparr>) j =
     (if j div 8 = byte then bit b (j mod 8) else bm_bit bm j)"
  by (simp add: bm_bit_def nth_list_update)

lemma is_set_ok: "wf_bitmap bm \<Longrightarrow> i < bm_capacity bm \<Longrightarrow> is_set bm i = Ok (unat i \<in> used bm)"
  by (simp add: is_set_def check_index_def nth_res_def byte_in_range used_def bm_bit_def
      linorder_not_le word_less_nat_alt)

lemma is_set_err: "\<not> i < bm_capacity bm \<Longrightarrow> is_set bm i = Err (InvalidInput ''bitmap index '')"
  by (simp add: is_set_def check_index_def linorder_not_less)

lemma bm_set_err: "\<not> i < bm_capacity bm \<Longrightarrow> bm_set i bm = (Err (InvalidInput ''bitmap index ''), bm)"
  by (simp add: bm_set_def cbind_def check_index_def linorder_not_less)

lemma bm_clear_err: "\<not> i < bm_capacity bm \<Longrightarrow> bm_clear i bm = (Err (InvalidInput ''bitmap index ''), bm)"
  by (simp add: bm_clear_def cbind_def check_index_def linorder_not_less)

lemma bm_set_ok:
  assumes "wf_bitmap bm" "i < bm_capacity bm"
  obtains bm' where "bm_set i bm = (Ok (unat i \<notin> used bm), bm')" "used bm' = insert (unat i) (used bm)"
    "wf_bitmap bm'" "bm_capacity bm' = bm_capacity bm" "length (bm_bits bm') = length (bm_bits bm)"
proof -
  let ?y = "unat i div 8" and ?b = "bm_bits bm ! (unat i div 8)"
  let ?bm' = "bm\<lparr>bm_bits := (bm_bits bm)[?y := ?b OR push_bit (unat i mod 8) 1]\<rparr>"
  have y: "?y < length (bm_bits bm)"
    by (rule byte_in_range [OF assms])
  have i: "unat i < unat (bm_capacity bm)"
    using assms by (simp add: word_less_nat_alt)
  have "bm_set i bm = (Ok (unat i \<notin> used bm), ?bm')"
    using assms(2) y i
    by (simp add: bm_set_def cbind_def check_index_def nth_res_def cthen_run used_def bm_bit_def linorder_not_le Let_def)
  moreover have "bm_bit ?bm' j \<longleftrightarrow> j = unat i \<or> bm_bit bm j" for j
    using y same_byte [of j "unat i"] by (auto simp: bm_bit_update bit_simps bm_bit_def nth_list_update)
  then have "used ?bm' = insert (unat i) (used bm)"
    using i by (auto simp: used_def)
  ultimately show thesis
    using assms by (intro that [of ?bm']) (auto simp: wf_bitmap_def)
qed

lemma bm_clear_ok:
  assumes "wf_bitmap bm" "i < bm_capacity bm"
  obtains bm' where "bm_clear i bm = (Ok (unat i \<in> used bm), bm')" "used bm' = used bm - {unat i}"
    "wf_bitmap bm'" "bm_capacity bm' = bm_capacity bm" "length (bm_bits bm') = length (bm_bits bm)"
proof -
  let ?y = "unat i div 8" and ?b = "bm_bits bm ! (unat i div 8)"
  let ?bm' = "bm\<lparr>bm_bits := (bm_bits bm)[?y := ?b AND NOT (push_bit (unat i mod 8) 1)]\<rparr>"
  have y: "?y < length (bm_bits bm)"
    by (rule byte_in_range [OF assms])
  have i: "unat i < unat (bm_capacity bm)"
    using assms by (simp add: word_less_nat_alt)
  have "bm_clear i bm = (Ok (unat i \<in> used bm), ?bm')"
    using assms(2) y i
    by (simp add: bm_clear_def cbind_def check_index_def nth_res_def cthen_run used_def bm_bit_def linorder_not_le Let_def)
  moreover have "bm_bit ?bm' j \<longleftrightarrow> j \<noteq> unat i \<and> bm_bit bm j" for j
    using y same_byte [of j "unat i"] by (auto simp: bm_bit_update bit_simps bm_bit_def nth_list_update)
  then have "used ?bm' = used bm - {unat i}"
    by (auto simp: used_def)
  ultimately show thesis
    using assms by (intro that [of ?bm']) (auto simp: wf_bitmap_def)
qed

text \<open>The whole loop of \<open>allocate_first\<close>: the lowest free unit at or after the start is taken.\<close>

lemma same_div8: "(i :: nat) mod 8 = 0 \<Longrightarrow> i \<le> j \<Longrightarrow> j < i + 8 \<Longrightarrow> j div 8 = i div 8"
  using div_mult_mod_eq [of i 8] by (intro div_nat_eqI) auto

lemma full_byte: "b = (0xFF :: u8) \<Longrightarrow> n < 8 \<Longrightarrow> bit b n"
proof -
  have "(0xFF :: u8) = - 1" by simp
  then show "b = (0xFF :: u8) \<Longrightarrow> n < 8 \<Longrightarrow> bit b n" by simp
qed

definition first_free :: "u64 \<Rightarrow> bitmap \<Rightarrow> u64 option result \<Rightarrow> bitmap \<Rightarrow> bool" where
  "first_free i bm r bm' \<longleftrightarrow>
     (r = Ok None \<and> bm' = bm \<and> (\<forall>j. unat i \<le> j \<longrightarrow> j < unat (bm_capacity bm) \<longrightarrow> j \<in> used bm)) \<or>
     (\<exists>k. r = Ok (Some k) \<and> i \<le> k \<and> k < bm_capacity bm \<and> unat k \<notin> used bm
        \<and> (\<forall>j. unat i \<le> j \<longrightarrow> j < unat k \<longrightarrow> j \<in> used bm)
        \<and> bm_set k bm = (Ok True, bm'))"

lemma first_free_extend:
  assumes "first_free i' bm r bm'" "i \<le> i'"
    and "\<And>j. unat i \<le> j \<Longrightarrow> j < unat i' \<Longrightarrow> j < unat (bm_capacity bm) \<Longrightarrow> j \<in> used bm"
  shows "first_free i bm r bm'"
  using assms(1) unfolding first_free_def
proof (elim disjE exE conjE)
  assume r: "r = Ok None" "bm' = bm" and all: "\<forall>j. unat i' \<le> j \<longrightarrow> j < unat (bm_capacity bm) \<longrightarrow> j \<in> used bm"
  have "j \<in> used bm" if "unat i \<le> j" "j < unat (bm_capacity bm)" for j
    using that all assms(3) by (cases "unat i' \<le> j") auto
  then show "(r = Ok None \<and> bm' = bm \<and> (\<forall>j. unat i \<le> j \<longrightarrow> j < unat (bm_capacity bm) \<longrightarrow> j \<in> used bm)) \<or>
     (\<exists>k. r = Ok (Some k) \<and> i \<le> k \<and> k < bm_capacity bm \<and> unat k \<notin> used bm
        \<and> (\<forall>j. unat i \<le> j \<longrightarrow> j < unat k \<longrightarrow> j \<in> used bm)
        \<and> bm_set k bm = (Ok True, bm'))"
    using r by blast
next
  fix k
  assume k: "r = Ok (Some k)" "i' \<le> k" "k < bm_capacity bm" "unat k \<notin> used bm"
      "bm_set k bm = (Ok True, bm')"
    and all: "\<forall>j. unat i' \<le> j \<longrightarrow> j < unat k \<longrightarrow> j \<in> used bm"
  have "j \<in> used bm" if "unat i \<le> j" "j < unat k" for j
    using that all k(3) assms(3) [of j] by (cases "unat i' \<le> j") (auto simp: word_less_nat_alt)
  moreover have "i \<le> k"
    using assms(2) k(2) by (rule order_trans)
  ultimately show "(r = Ok None \<and> bm' = bm \<and> (\<forall>j. unat i \<le> j \<longrightarrow> j < unat (bm_capacity bm) \<longrightarrow> j \<in> used bm)) \<or>
     (\<exists>k. r = Ok (Some k) \<and> i \<le> k \<and> k < bm_capacity bm \<and> unat k \<notin> used bm
        \<and> (\<forall>j. unat i \<le> j \<longrightarrow> j < unat k \<longrightarrow> j \<in> used bm)
        \<and> bm_set k bm = (Ok True, bm'))"
    using k by blast
qed

lemma allocate_first_spec:
  assumes "wf_bitmap bm" and "allocate_first i bm = (r, bm')"
  shows "first_free i bm r bm'"
  using assms
proof (induction i bm rule: allocate_first.induct)
  case (1 i bm)
  show ?case
  proof (cases "i < bm_capacity bm")
    case False
    then show ?thesis
      using "1.prems" by (auto simp: allocate_first.simps [of i bm] word_less_nat_alt first_free_def)
  next
    case True
    let ?b = "bm_bits bm ! (unat i div 8)"
    have y: "unat i div 8 < length (bm_bits bm)"
      by (rule byte_in_range [OF "1.prems"(1) True])
    then have nr: "nth_res (bm_bits bm) (unat i div 8) = Ok ?b"
      by (simp add: nth_res_def)
    have i: "unat i < unat (bm_capacity bm)"
      using True by (simp add: word_less_nat_alt)
    have u: "unat i \<in> used bm \<longleftrightarrow> bit ?b (unat i mod 8)"
      using i by (simp add: used_def bm_bit_def)
    consider (skip) "?b = 0xFF" "unat i mod 8 = 0"
      | (free) "\<not> (?b = 0xFF \<and> unat i mod 8 = 0)" "\<not> bit ?b (unat i mod 8)"
      | (taken) "\<not> (?b = 0xFF \<and> unat i mod 8 = 0)" "bit ?b (unat i mod 8)"
      by argo
    then show ?thesis
    proof cases
      case skip
      have run: "allocate_first (sat_add i 8) bm = (r, bm')"
        using "1.prems"(2) True y skip by (simp add: allocate_first.simps [of i bm] nth_res_def)
      have same: "j div 8 = unat i div 8" if "unat i \<le> j" "j < unat i + 8" for j
        using skip(2) that by (rule same_div8)
      have "j \<in> used bm" if "unat i \<le> j" "j < unat i + 8" "j < unat (bm_capacity bm)" for j
        using that same [of j] full_byte [OF skip(1), of "j mod 8"] by (simp add: used_def bm_bit_def)
      note skipped = this
      have reach: "unat (sat_add i 8) \<le> unat i + 8"
        by (auto simp: sat_add_def unat_add_ok unsigned_minus_1_eq_mask mask_eq_exp_minus_1)
      have le: "i \<le> sat_add i 8"
        using sat_add_gt [OF True] by (simp add: word_le_nat_alt)
      have ih: "first_free (sat_add i 8) bm r bm'"
        using skip by (intro "1.IH"(1) [OF True refl split_index_simp [symmetric] nr _ "1.prems"(1) run]) simp
      show ?thesis
        by (rule first_free_extend [OF ih le skipped]) (use reach in simp_all)
    next
      case free
      have "r = Ok (Some i)" "bm' = bm\<lparr>bm_bits := (bm_bits bm)[unat i div 8 := ?b OR push_bit (unat i mod 8) 1]\<rparr>"
        using "1.prems"(2) True y free by (auto simp: allocate_first.simps [of i bm] nth_res_def)
      moreover have "bm_set i bm = (Ok True, bm')"
        using True y free(2) calculation
        by (simp add: bm_set_def cbind_def check_index_def nth_res_def cthen_run linorder_not_le Let_def)
      ultimately show ?thesis
        using True u free(2) by (auto simp: first_free_def)
    next
      case taken
      have run: "allocate_first (i + 1) bm = (r, bm')"
        using "1.prems"(2) True y taken by (auto simp: allocate_first.simps [of i bm] nth_res_def)
      have n: "unat (i + 1) = unat i + 1"
        by (rule inc_gt [OF True])
      have passed: "j \<in> used bm" if "unat i \<le> j" "j < unat (i + 1)" for j
        using that n u taken by (cases "j = unat i") auto
      have le: "i \<le> i + 1"
        using n by (simp add: word_le_nat_alt)
      have ih: "first_free (i + 1) bm r bm'"
        using taken by (intro "1.IH"(2) [OF True refl split_index_simp [symmetric] nr _ _ "1.prems"(1) run]) auto
      show ?thesis
        by (rule first_free_extend [OF ih le passed])
    qed
  qed
qed

lemma popcount_card:
  assumes "wf_bitmap bm"
  shows "popcount bm = Ok (of_nat (card (used bm)))"
proof -
  let ?step = "\<lambda>(i :: u64) c. if unat i \<in> used bm then c + 1 else (c :: u64)"
  have "popcount bm = Ok (fold ?step (range64 0 (bm_capacity bm)) 0)"
    unfolding popcount_def
    by (rule rfor_fold) (use assms in \<open>auto simp: set_range64 nth_res_def byte_in_range used_def bm_bit_def word_less_nat_alt\<close>)
  moreover have "fold ?step (map of_nat [0..<n]) 0 = of_nat (card (used bm \<inter> {..<n}))"
    if "n \<le> unat (bm_capacity bm)" for n
    using that
  proof (induction n)
    case (Suc n)
    have "unat (of_nat n :: u64) = n"
      using Suc.prems unat_u64_lt [of "bm_capacity bm"] by (simp add: unat_of_nat_ok)
    moreover have "used bm \<inter> {..<Suc n} = (if n \<in> used bm then insert n (used bm \<inter> {..<n}) else used bm \<inter> {..<n})"
      by (auto simp: less_Suc_eq)
    ultimately show ?case
      using Suc by simp
  qed simp
  moreover have "used bm \<inter> {..<unat (bm_capacity bm)} = used bm"
    by (auto simp: used_def)
  ultimately show ?thesis
    by (simp add: range64_def)
qed

section \<open>Constructors\<close>

lemma bitmap_from_bytes_Ok_iff:
  "bitmap_from_bytes bs capacity = Ok bm \<longleftrightarrow>
     4096 dvd length bs \<and> unat capacity \<le> 8 * length bs \<and> bm = \<lparr>bm_bits = bs, bm_capacity = capacity\<rparr>"
  by (auto simp: bitmap_from_bytes_def mult.commute [of _ 8] dvd_eq_mod_eq_0)

lemma bitmap_from_bytes_wf: "bitmap_from_bytes bs capacity = Ok bm \<Longrightarrow> wf_bitmap bm"
  by (auto simp: bitmap_from_bytes_Ok_iff wf_bitmap_def)

lemma bitmap_from_bytes_bm_bits:
  "wf_bitmap bm \<Longrightarrow> bitmap_from_bytes (bm_bits bm) (bm_capacity bm) = Ok bm"
  by (simp add: bitmap_from_bytes_Ok_iff wf_bitmap_def)

text \<open>The number of blocks of a bitmap, as the plan of the layout computes it.\<close>

lemma bitmap_new_ok:
  assumes "unat capacity < 2 ^ 60"
  shows "wf_bitmap (bitmap_new capacity)" and "used (bitmap_new capacity) = {}"
    and "bm_capacity (bitmap_new capacity) = capacity"
    and "block_count (bitmap_new capacity) = max ((unat capacity + 32767) div 32768) 1"
proof -
  let ?n = "max ((unat capacity + 32767) div 32768) 1"
  have n: "unat (max (div_ceil capacity BITS_PER_BITMAP_BLOCK) 1) = ?n"
    by (simp add: unat_div_ceil max_def word_le_nat_alt add.commute [of "unat capacity"])
  have "?n * 4096 < 18446744073709551616"
    using assms by (simp add: max_def) linarith
  then have l: "length (bm_bits (bitmap_new capacity)) = ?n * 4096"
    by (simp add: bitmap_new_def Let_def unat_mul_ok n)
  have "unat capacity \<le> ?n * 32768"
    using ceil_ge [of 32768 "unat capacity"] by (simp add: max_def add.commute [of "unat capacity"])
  moreover show "bm_capacity (bitmap_new capacity) = capacity"
    by (simp add: bitmap_new_def Let_def)
  ultimately show "wf_bitmap (bitmap_new capacity)"
    by (simp add: wf_bitmap_def l)
  show "block_count (bitmap_new capacity) = ?n"
    by (simp add: block_count_def l)
  have "bm_bits (bitmap_new capacity) = zeros (?n * 4096)"
    by (metis (no_types) l bitmap_new_def bitmap.select_convs(1) length_zeros)
  moreover have "i div 8 < ?n * 4096" if "i < unat capacity" for i
    using that \<open>unat capacity \<le> ?n * 32768\<close> by linarith
  ultimately show "used (bitmap_new capacity) = {}"
    using \<open>bm_capacity (bitmap_new capacity) = capacity\<close>
    by (auto simp: used_def bm_bit_def zeros_def)
qed

section \<open>The contract of an allocation map\<close>

text \<open>
  What the formatter and the allocators rely on: marking and clearing one unit, and hence
  the loops that mark or clear a list of units.
\<close>

locale allocation_map =
  fixes mark :: "u64 \<Rightarrow> ('m, bool) cmd"
    and unmark :: "u64 \<Rightarrow> ('m, bool) cmd"
    and test :: "'m \<Rightarrow> u64 \<Rightarrow> bool result"
    and taken :: "'m \<Rightarrow> nat set"
    and limit :: "'m \<Rightarrow> u64"
    and inv :: "'m \<Rightarrow> bool"
  assumes mark_law: "inv m \<Longrightarrow> i < limit m \<Longrightarrow> \<exists>m'. mark i m = (Ok (unat i \<notin> taken m), m') \<and>
      taken m' = insert (unat i) (taken m) \<and> inv m' \<and> limit m' = limit m"
    and unmark_law: "inv m \<Longrightarrow> i < limit m \<Longrightarrow> \<exists>m'. unmark i m = (Ok (unat i \<in> taken m), m') \<and>
      taken m' = taken m - {unat i} \<and> inv m' \<and> limit m' = limit m"
    and test_law: "inv m \<Longrightarrow> i < limit m \<Longrightarrow> test m i = Ok (unat i \<in> taken m)"
begin

lemma mark_all:
  assumes "inv m" "\<And>i. i \<in> set is \<Longrightarrow> i < limit m"
  shows "\<exists>m'. cfor (\<lambda>i. cdrop (mark i)) is m = (Ok (), m')
     \<and> taken m' = taken m \<union> unat ` set is \<and> inv m' \<and> limit m' = limit m"
  using assms
proof (induction "is" arbitrary: m)
  case (Cons i "is")
  obtain m1 where m1: "mark i m = (Ok (unat i \<notin> taken m), m1)" "taken m1 = insert (unat i) (taken m)"
      "inv m1" "limit m1 = limit m"
    using mark_law Cons.prems by (metis list.set_intros(1))
  have "\<exists>m'. cfor (\<lambda>i. cdrop (mark i)) is m1 = (Ok (), m')
     \<and> taken m' = taken m1 \<union> unat ` set is \<and> inv m' \<and> limit m' = limit m1"
    using m1 Cons.prems by (intro Cons.IH) auto
  then show ?case
    using m1 by (auto simp: cthen_run cdrop_run)
qed simp

lemma unmark_all:
  assumes "inv m" "\<And>i. i \<in> set is \<Longrightarrow> i < limit m"
  shows "\<exists>m'. cfor (\<lambda>i. cdrop (unmark i)) is m = (Ok (), m')
     \<and> taken m' = taken m - unat ` set is \<and> inv m' \<and> limit m' = limit m"
  using assms
proof (induction "is" arbitrary: m)
  case (Cons i "is")
  obtain m1 where m1: "unmark i m = (Ok (unat i \<in> taken m), m1)" "taken m1 = taken m - {unat i}"
      "inv m1" "limit m1 = limit m"
    using unmark_law Cons.prems by (metis list.set_intros(1))
  have "\<exists>m'. cfor (\<lambda>i. cdrop (unmark i)) is m1 = (Ok (), m')
     \<and> taken m' = taken m1 - unat ` set is \<and> inv m' \<and> limit m' = limit m1"
    using m1 Cons.prems by (intro Cons.IH) auto
  then show ?case
    using m1 by (auto simp: cthen_run cdrop_run)
qed simp

text \<open>The units of a contiguous span, addressed by a start and an offset.\<close>

lemma span_units:
  assumes "unat s + n \<le> unat (limit m)"
  shows "i \<in> set (map of_nat [0..<n] :: u64 list) \<Longrightarrow> uadd s i = Ok (s + i) \<and> s + i < limit m"
    and "unat ` set (map (\<lambda>i. s + i) (map of_nat [0..<n])) = {unat s..<unat s + n}"
proof -
  have u: "unat (of_nat k :: u64) = k" "unat (s + of_nat k) = unat s + k" "uadd s (of_nat k) = Ok (s + of_nat k)"
    if "k < n" for k
  proof -
    show k: "unat (of_nat k :: u64) = k"
      using that assms unat_u64_lt [of "limit m"] by (intro unat_of_nat_ok) simp
    then show "unat (s + of_nat k) = unat s + k" "uadd s (of_nat k) = Ok (s + of_nat k)"
      using that assms unat_u64_lt [of "limit m"] unat_add_ok [of s "of_nat k"] by (simp_all add: uadd_def)
  qed
  show "i \<in> set (map of_nat [0..<n] :: u64 list) \<Longrightarrow> uadd s i = Ok (s + i) \<and> s + i < limit m"
    using u assms by (auto simp: word_less_nat_alt)
  have "unat ` set (map (\<lambda>i. s + i) (map of_nat [0..<n])) = (\<lambda>k. unat s + k) ` {0..<n}"
    using u(2) by (auto simp: image_image intro!: image_cong)
  then show "unat ` set (map (\<lambda>i. s + i) (map of_nat [0..<n])) = {unat s..<unat s + n}"
    by (simp add: image_add_atLeastLessThan add.commute)
qed

lemma mark_span:
  assumes "inv m" "unat s + n \<le> unat (limit m)"
  shows "\<exists>m'. cfor (\<lambda>i. cbind (clift (uadd s i)) (\<lambda>b. cignore (mark b))) (map of_nat [0..<n]) m = (Ok (), m')
     \<and> taken m' = taken m \<union> {unat s..<unat s + n} \<and> inv m' \<and> limit m' = limit m"
proof -
  let ?is = "map of_nat [0..<n] :: u64 list"
  note units = span_units [OF assms(2)]
  have in_limit: "j < limit m" if "j \<in> set (map (\<lambda>i. s + i) ?is)" for j
    using that units(1) by auto
  have "cfor (\<lambda>i. cbind (clift (uadd s i)) (\<lambda>b. cignore (mark b))) ?is m = cfor (\<lambda>i. cdrop (mark (s + i))) ?is m"
  proof (rule cfor_same [where P = "\<lambda>x. inv x \<and> limit x = limit m"])
    fix i x
    assume i: "i \<in> set ?is" and x: "inv x \<and> limit x = limit m"
    then have lt: "s + i < limit x"
      using units(1) by auto
    then obtain m' where m': "mark (s + i) x = (Ok (unat (s + i) \<notin> taken x), m')" "inv m'" "limit m' = limit x"
      using mark_law [of x "s + i"] x by auto
    then show "cbind (clift (uadd s i)) (\<lambda>b. cignore (mark b)) x = cdrop (mark (s + i)) x"
      using units(1) [OF i] by (simp add: cbind_run(1) [where m = "clift _"] cignore_def cdrop_run)
    fix t
    assume "cdrop (mark (s + i)) x = (Ok (), t)"
    then show "inv t \<and> limit t = limit m"
      using m' x by (simp add: cdrop_run)
  qed (use assms in simp)
  then show ?thesis
    using mark_all [OF assms(1), of "map (\<lambda>i. s + i) ?is", OF in_limit, unfolded cfor_map [where f = "\<lambda>i. s + i"] units(2)]
    by simp
qed

lemma unmark_span:
  assumes "inv m" "unat s + n \<le> unat (limit m)"
  shows "\<exists>m'. cfor (\<lambda>i. cdrop (unmark (s + i))) (map of_nat [0..<n]) m = (Ok (), m')
     \<and> taken m' = taken m - {unat s..<unat s + n} \<and> inv m' \<and> limit m' = limit m"
proof -
  have "j < limit m" if "j \<in> set (map (\<lambda>i. s + i) (map of_nat [0..<n]))" for j
    using that span_units(1) [OF assms(2)] by auto
  from unmark_all [OF assms(1), of "map (\<lambda>i. s + i) (map of_nat [0..<n])", OF this, unfolded cfor_map [where f = "\<lambda>i. s + i"] span_units(2) [OF assms(2)]]
  show ?thesis by simp
qed

end

interpretation bmap: allocation_map bm_set bm_clear is_set used bm_capacity wf_bitmap
proof unfold_locales
  fix m i
  assume w: "wf_bitmap m" "i < bm_capacity m"
  show "\<exists>m'. bm_set i m = (Ok (unat i \<notin> used m), m') \<and> used m' = insert (unat i) (used m)
      \<and> wf_bitmap m' \<and> bm_capacity m' = bm_capacity m"
    using bm_set_ok [OF w] by metis
  show "\<exists>m'. bm_clear i m = (Ok (unat i \<in> used m), m') \<and> used m' = used m - {unat i}
      \<and> wf_bitmap m' \<and> bm_capacity m' = bm_capacity m"
    using bm_clear_ok [OF w] by metis
  show "is_set m i = Ok (unat i \<in> used m)"
    by (rule is_set_ok [OF w])
qed

section \<open>Properties\<close>

text \<open>
  \<open>allocate_first\<close> takes the lowest free unit at or after the start, and reports a full
  map exactly when there is none: the byte-wise skip never jumps over a free unit and the
  loop ends for every start, also at the top of the 64-bit range.
\<close>

theorem allocate_first_lowest_free:
  assumes "wf_bitmap bm" "allocate_first i bm = (r, bm')"
  shows "(r = Ok None \<and> bm' = bm \<and> (\<forall>j. unat i \<le> j \<longrightarrow> j < unat (bm_capacity bm) \<longrightarrow> j \<in> used bm)) \<or>
     (\<exists>k. r = Ok (Some k) \<and> i \<le> k \<and> k < bm_capacity bm \<and> unat k \<notin> used bm
        \<and> (\<forall>j. unat i \<le> j \<longrightarrow> j < unat k \<longrightarrow> j \<in> used bm)
        \<and> used bm' = insert (unat k) (used bm) \<and> wf_bitmap bm')"
proof -
  have ff: "first_free i bm r bm'"
    by (rule allocate_first_spec [OF assms])
  have "used bm' = insert (unat k) (used bm) \<and> wf_bitmap bm'"
    if "bm_set k bm = (Ok True, bm')" "k < bm_capacity bm" for k
    using bm_set_ok [OF assms(1) that(2)] that(1) by (metis prod.inject)
  then show ?thesis
    using ff unfolding first_free_def by metis
qed

theorem allocate_first_lowest_free_witness:
  "\<exists>r bm'. allocate_first 0 (bitmap_new 10) = (r, bm') \<and> r \<noteq> Panic"
proof -
  obtain r bm' where run: "allocate_first 0 (bitmap_new 10) = (r, bm')"
    by (cases "allocate_first 0 (bitmap_new 10)")
  have "wf_bitmap (bitmap_new 10)"
    by (rule bitmap_new_ok) simp
  from allocate_first_lowest_free [OF this run] show ?thesis
    using run by auto
qed

text \<open>
  Within the capacity \<open>set\<close> and \<open>clear\<close> change exactly the addressed unit, report whether
  it changed, and keep the bitmap well formed; \<open>popcount\<close> is the number of allocated units;
  beyond the capacity both refuse and change nothing.
\<close>

theorem bitmap_mark_and_clear:
  assumes "wf_bitmap bm"
  shows "if i < bm_capacity bm
     then \<exists>s c. bm_set i bm = (Ok (unat i \<notin> used bm), s) \<and> used s = insert (unat i) (used bm) \<and> wf_bitmap s
        \<and> bm_clear i bm = (Ok (unat i \<in> used bm), c) \<and> used c = used bm - {unat i} \<and> wf_bitmap c
        \<and> popcount s = Ok (of_nat (card (insert (unat i) (used bm))))
     else bm_set i bm = (Err (InvalidInput ''bitmap index ''), bm)
        \<and> bm_clear i bm = (Err (InvalidInput ''bitmap index ''), bm)"
  using bmap.mark_law [OF assms, of i] bmap.unmark_law [OF assms, of i] bm_set_err [of i bm] bm_clear_err [of i bm]
  by (auto simp: popcount_card)

theorem bitmap_mark_and_clear_witness: "wf_bitmap (bitmap_new 10) \<and> fst (bm_set 3 (bitmap_new 10)) = Ok True"
proof -
  have w: "wf_bitmap (bitmap_new 10)" "bm_capacity (bitmap_new 10) = 10" "used (bitmap_new 10) = {}"
    by (rule bitmap_new_ok; simp)+
  show ?thesis
    using bitmap_mark_and_clear [OF w(1), of 3] w by auto
qed

end
