(* ===== verification/Checksum.thy ===== *)
theory Checksum
  imports Prelude
begin

text \<open>
  CRC32C of \<open>corefs-core/src/storage/ondisk/checksum.rs\<close>: the compile-time slicing-by-8
  tables, \<open>Crc32c::update\<close> (eight bytes per iteration, then the remainder byte by byte)
  and \<open>Crc32c::hash\<close>.  The reference is the bitwise shift register \<open>adv\<close>; the lemmas show
  that the tables hold its values, that \<open>update\<close> computes it, and that it is linear and
  injective, hence that a damaged window of up to four bytes always changes the checksum.
  The last section is the sealing idiom that every on-disk structure repeats.
\<close>

section \<open>The tables and the update loop\<close>

definition CRC32C_POLY :: u32 where
  "CRC32C_POLY = 0x82F63B78"

text \<open>One iteration of the inner \<open>while k < 8\<close> loop.\<close>

definition crc_bit :: "u32 \<Rightarrow> u32" where
  "crc_bit c = (if c AND 1 \<noteq> 0 then drop_bit 1 c XOR CRC32C_POLY else drop_bit 1 c)"

definition table0 :: "u32 list" where
  "table0 = map (\<lambda>i. (crc_bit ^^ 8) (of_nat i)) [0..<256]"

definition next_row :: "u32 list \<Rightarrow> u32 list" where
  "next_row prev_row = map (\<lambda>prev. drop_bit 8 prev XOR table0 ! unat (prev AND 0xFF)) prev_row"

fun table_rows :: "nat \<Rightarrow> u32 list \<Rightarrow> u32 list list" where
  "table_rows 0 row = []"
| "table_rows (Suc n) row = row # table_rows n (next_row row)"

definition TABLES :: "u32 list list" where
  "TABLES = table_rows 8 table0"

definition tab :: "nat \<Rightarrow> u32 \<Rightarrow> u32" where
  "tab k x = TABLES ! k ! unat x"

definition crc_chunk :: "u32 \<Rightarrow> bytes \<Rightarrow> u32" where
  "crc_chunk crc chunk =
    (let lo = crc XOR from_le [chunk ! 0, chunk ! 1, chunk ! 2, chunk ! 3] in
       tab 7 (lo AND 0xFF)
       XOR tab 6 (drop_bit 8 lo AND 0xFF)
       XOR tab 5 (drop_bit 16 lo AND 0xFF)
       XOR tab 4 (drop_bit 24 lo AND 0xFF)
       XOR tab 3 (ucast (chunk ! 4))
       XOR tab 2 (ucast (chunk ! 5))
       XOR tab 1 (ucast (chunk ! 6))
       XOR tab 0 (ucast (chunk ! 7)))"

definition crc_rest :: "u32 \<Rightarrow> u8 \<Rightarrow> u32" where
  "crc_rest crc byte = drop_bit 8 crc XOR tab 0 ((crc XOR ucast byte) AND 0xFF)"

function crc_update :: "u32 \<Rightarrow> bytes \<Rightarrow> u32" where
  "crc_update crc data =
    (if 8 \<le> length data then crc_update (crc_chunk crc (take 8 data)) (drop 8 data)
     else foldl crc_rest crc data)"
  by pat_completeness auto
termination
  by (relation "measure (\<lambda>(crc, data). length data)") auto

declare crc_update.simps [simp del]

definition crc_hash :: "bytes \<Rightarrow> u32" where
  "crc_hash data = NOT (crc_update (- 1) data)"

section \<open>The bitwise reference\<close>

definition adv :: "nat \<Rightarrow> u32 \<Rightarrow> u32" where
  "adv n c = (crc_bit ^^ n) c"

definition crc_byte :: "u32 \<Rightarrow> u8 \<Rightarrow> u32" where
  "crc_byte c b = adv 8 (c XOR ucast b)"

definition crc_ref :: "u32 \<Rightarrow> bytes \<Rightarrow> u32" where
  "crc_ref c data = foldl crc_byte c data"

lemma and_1_odd: "(c :: 'a::len word) AND 1 \<noteq> 0 \<longleftrightarrow> bit c 0"
  by (simp add: and_one_eq bit_0 odd_iff_mod_2_eq_one)

lemma crc_bit_xor: "crc_bit (a XOR b) = crc_bit a XOR crc_bit b"
  by (rule bit_word_eqI) (auto simp: crc_bit_def and_1_odd bit_simps)

lemma bit_poly_31: "bit CRC32C_POLY 31"
  by (simp add: CRC32C_POLY_def)

lemma crc_bit_zero: "crc_bit 0 = 0"
  by (simp add: crc_bit_def)

lemma crc_bit_eq_0: "crc_bit d = 0 \<Longrightarrow> d = 0"
proof -
  assume z: "crc_bit d = 0"
  have "bit (crc_bit d) 31 = bit d 0"
    using bit_poly_31 by (auto simp: crc_bit_def and_1_odd bit_simps dest: bit_imp_le_length)
  with z have even: "\<not> bit d 0" by simp
  with z have "drop_bit 1 d = 0"
    by (simp add: crc_bit_def and_1_odd)
  moreover have "bit d (Suc n) = bit (drop_bit 1 d) n" for n
    by (simp add: bit_drop_bit_eq)
  ultimately have "bit d (Suc n) = False" for n
    by (metis bit_0_eq bot_apply bot_bool_def)
  with even have "bit d n = False" for n
    by (cases n) simp_all
  then show "d = 0"
    by (intro bit_word_eqI) simp
qed

lemma adv_0 [simp]: "adv 0 c = c"
  by (simp add: adv_def)

lemma adv_Suc: "adv (Suc n) c = adv n (crc_bit c)"
  by (simp add: adv_def funpow_Suc_right del: funpow.simps)

lemma adv_add: "adv (m + n) c = adv m (adv n c)"
  by (simp add: adv_def funpow_add)

lemma adv_xor: "adv n (a XOR b) = adv n a XOR adv n b"
  by (induction n arbitrary: a b) (simp_all add: adv_Suc crc_bit_xor)

lemma adv_zero [simp]: "adv n 0 = 0"
  by (induction n) (simp_all add: adv_Suc crc_bit_zero)

lemma adv_eq_0: "adv n d = 0 \<Longrightarrow> d = 0"
  by (induction n arbitrary: d) (auto simp: adv_Suc dest: crc_bit_eq_0)

lemma adv_inject: "adv n a = adv n b \<longleftrightarrow> a = b"
proof
  assume "adv n a = adv n b"
  then have "adv n (a XOR b) = 0" by (simp add: adv_xor)
  then have "a XOR b = 0" by (rule adv_eq_0)
  then show "a = b" by (metis xor.assoc xor.left_neutral xor_self_eq)
qed simp

text \<open>Where the low bits are clear, advancing is shifting.\<close>

lemma adv_shift: "take_bit n c = 0 \<Longrightarrow> adv n c = drop_bit n c"
proof (induction n arbitrary: c)
  case 0
  then show ?case by simp
next
  case (Suc n)
  have low: "\<not> bit c i" if "i < Suc n" for i
    using arg_cong [OF Suc.prems, of "\<lambda>w. bit w i"] that by (simp add: bit_simps)
  then have "crc_bit c = drop_bit 1 c"
    by (simp add: crc_bit_def and_1_odd)
  moreover have "take_bit n (drop_bit 1 c) = 0"
    using low by (intro bit_word_eqI) (auto simp: bit_simps)
  ultimately show ?case
    by (simp add: adv_Suc Suc.IH)
qed

lemma split_low8: "(c :: u32) = take_bit 8 c XOR push_bit 8 (drop_bit 8 c)"
  by (rule bit_word_eqI) (auto simp: bit_simps)

lemma adv_split: "adv (m + 8) c = adv (m + 8) (take_bit 8 c) XOR adv m (drop_bit 8 c)"
proof -
  have "adv 8 (push_bit 8 (drop_bit 8 c)) = drop_bit 8 (push_bit 8 (drop_bit 8 c))"
    by (rule adv_shift) (rule bit_word_eqI, simp add: bit_simps)
  also have "\<dots> = drop_bit 8 c"
    by (rule bit_word_eqI) (auto simp: bit_simps dest: bit_imp_le_length)
  finally have "adv (m + 8) (push_bit 8 (drop_bit 8 c)) = adv m (drop_bit 8 c)"
    by (simp add: adv_add)
  then show ?thesis
    by (metis adv_xor split_low8)
qed


section \<open>The tables hold the reference values\<close>

lemma length_table0 [simp]: "length table0 = 256"
  by (simp add: table0_def)

lemma table0_nth: "i < 256 \<Longrightarrow> table0 ! i = adv 8 (of_nat i)"
  by (simp add: table0_def adv_def)

lemma and_FF: "(c :: u32) AND 0xFF = take_bit 8 c"
  by (simp add: take_bit_eq_mask mask_eq_decr_exp)

lemma unat_take_bit_8: "unat (take_bit 8 (c :: u32)) < 256"
  using take_bit_nat_less_exp [of 8 "unat c"] by (simp only: unsigned_take_bit_eq) simp

lemma table0_take_bit: "table0 ! unat (take_bit 8 c) = adv 8 (take_bit 8 c)"
  using unat_take_bit_8 [of c] by (simp add: table0_nth)

lemma adv8_table: "adv 8 c = drop_bit 8 c XOR table0 ! unat (c AND 0xFF)"
  using adv_split [of 0 c] by (simp add: and_FF table0_take_bit xor.commute)

lemma next_row_adv: "next_row (map (adv m) xs) = map (adv (m + 8)) xs"
  by (simp add: next_row_def adv8_table [symmetric] adv_add add.commute [of m])

lemma table_rows_nth: "k < n \<Longrightarrow> table_rows n (map (adv m) xs) ! k = map (adv (m + 8 * k)) xs"
proof (induction n arbitrary: m k)
  case 0
  then show ?case by simp
next
  case (Suc n)
  then show ?case
    by (cases k) (simp_all add: next_row_adv algebra_simps)
qed

lemma table0_adv: "table0 = map (adv 8) (map of_nat [0..<256])"
  by (simp add: table0_def adv_def)

lemma tab_adv: "k < 8 \<Longrightarrow> unat x < 256 \<Longrightarrow> tab k x = adv (8 * k + 8) x"
  by (simp add: tab_def TABLES_def table0_adv table_rows_nth add.commute del: map_map)

lemma unat_byte: "unat (ucast (b :: u8) :: u32) < 256"
  using le_less_trans [OF take_bit_nat_less_eq_self [of 32 "unat b"], of 256] unat_lt [of b]
  by (simp add: unsigned_ucast_eq)

lemma tab_byte: "k < 8 \<Longrightarrow> tab k (ucast (b :: u8)) = adv (8 * k + 8) (ucast b)"
  by (simp add: tab_adv unat_byte)

lemma tab_low: "k < 8 \<Longrightarrow> tab k (c AND 0xFF) = adv (8 * k + 8) (take_bit 8 c)"
  by (simp add: tab_adv and_FF unat_take_bit_8)

section \<open>The update loop computes the reference\<close>

lemma TABLES_0: "TABLES ! 0 = table0"
  by (simp add: TABLES_def eval_nat_numeral)

lemma crc_rest_eq: "crc_rest crc byte = crc_byte crc byte"
proof -
  have "drop_bit 8 (ucast byte :: u32) = 0"
    by (rule bit_word_eqI) (auto simp: bit_simps dest: bit_imp_le_length)
  then show ?thesis
    by (simp add: crc_rest_def crc_byte_def tab_def TABLES_0 adv8_table drop_bit_xor)
qed

lemma from_le_take: "length bs \<le> 4 \<Longrightarrow> (from_le bs :: u32) = take_bit (8 * length bs) (from_le bs)"
  using le_bytes_from_le [of bs, where 'a = 32] from_le_le_bytes [of "length bs" "from_le bs :: u32"]
  by simp

lemma from_le_small: "length bs \<le> 3 \<Longrightarrow> take_bit 24 (from_le bs) = (from_le bs :: u32)"
  by (subst (1 2) from_le_take) (simp_all add: min_def)

lemma drop_push_8: "drop_bit 8 (push_bit 8 (c :: u32)) = take_bit 24 c"
  by (rule bit_word_eqI) (auto simp: bit_simps dest: bit_imp_le_length)

text \<open>Up to four bytes at once: the register absorbs them as one little-endian word.\<close>

lemma foldl_crc_byte:
  "length bs \<le> 4 \<Longrightarrow> foldl crc_byte c bs = adv (8 * length bs) (c XOR from_le bs)"
proof (induction bs arbitrary: c)
  case Nil
  then show ?case by simp
next
  case (Cons b bs)
  let ?n = "8 * length bs"
  have low: "take_bit 8 (push_bit 8 (from_le bs) :: u32) = 0"
    by (rule bit_word_eqI) (simp add: bit_simps)
  have high: "drop_bit 8 (push_bit 8 (from_le bs) :: u32) = from_le bs"
    using from_le_small [of bs] Cons.prems by (simp add: drop_push_8)
  have disj: "from_le (b # bs) = ucast b XOR (push_bit 8 (from_le bs) :: u32)"
    by (rule bit_word_eqI) (auto simp: bit_simps dest: bit_imp_le_length)
  have "adv (?n + 8) (push_bit 8 (from_le bs)) = adv ?n (from_le bs)"
    using adv_split [of ?n "push_bit 8 (from_le bs)"] low high by simp
  then have A: "adv (?n + 8) (c XOR from_le (b # bs)) = adv ?n (adv 8 (c XOR ucast b) XOR from_le bs)"
    unfolding disj by (simp add: adv_xor adv_add xor.assoc)
  have B: "foldl crc_byte c (b # bs) = adv ?n (crc_byte c b XOR from_le bs)"
    using Cons by simp
  have L: "8 * length (b # bs) = ?n + 8"
    by simp
  show ?case
    unfolding L A B crc_byte_def [of c b] ..
qed

text \<open>Eight bytes through the eight tables are the same eight steps.\<close>

lemma adv_tables:
  "adv 64 lo = tab 7 (lo AND 0xFF) XOR tab 6 (drop_bit 8 lo AND 0xFF)
     XOR tab 5 (drop_bit 16 lo AND 0xFF) XOR tab 4 (drop_bit 24 lo AND 0xFF)"
proof -
  have d: "drop_bit 8 (drop_bit 24 lo) = 0"
    by (rule bit_word_eqI) (auto simp: bit_simps dest: bit_imp_le_length)
  show ?thesis
    using adv_split [of 56 lo] adv_split [of 48 "drop_bit 8 lo"] adv_split [of 40 "drop_bit 16 lo"]
      adv_split [of 32 "drop_bit 24 lo"] d
    by (simp add: tab_low drop_bit_drop_bit xor.assoc)
qed

lemma crc_chunk_eq: "length chunk = 8 \<Longrightarrow> crc_chunk c chunk = foldl crc_byte c chunk"
proof -
  assume "length chunk = 8"
  then obtain b0 b1 b2 b3 b4 b5 b6 b7 where c: "chunk = [b0, b1, b2, b3] @ [b4, b5, b6, b7]"
    by (auto simp: numeral_eq_Suc length_Suc_conv)
  let ?lo = "c XOR from_le [b0, b1, b2, b3]"
  have "foldl crc_byte c chunk = adv 32 (adv 32 ?lo XOR from_le [b4, b5, b6, b7])"
    unfolding c foldl_append by (simp only: foldl_crc_byte list.size) simp
  also have "\<dots> = adv 64 ?lo XOR foldl crc_byte 0 [b4, b5, b6, b7]"
    by (subst foldl_crc_byte) (simp_all only: adv_xor adv_add [symmetric] list.size, simp_all)
  also have "foldl crc_byte 0 [b4, b5, b6, b7]
     = tab 3 (ucast b4) XOR tab 2 (ucast b5) XOR tab 1 (ucast b6) XOR tab 0 (ucast b7)"
    by (simp add: crc_byte_def adv_xor adv_add [symmetric] tab_byte xor.assoc)
  finally show ?thesis
    by (simp add: crc_chunk_def c Let_def adv_tables xor.assoc)
qed

theorem crc_update_ref: "crc_update c data = crc_ref c data"
proof (induction c data rule: crc_update.induct)
  case (1 crc data)
  show ?case
  proof (cases "8 \<le> length data")
    case True
    then have "crc_update crc data = crc_ref (foldl crc_byte crc (take 8 data)) (drop 8 data)"
      using 1 by (simp add: crc_update.simps [of crc data] crc_chunk_eq)
    also have "\<dots> = crc_ref crc (take 8 data @ drop 8 data)"
      unfolding crc_ref_def foldl_append ..
    finally show ?thesis by simp
  next
    case False
    then show ?thesis
      by (simp add: crc_update.simps [of crc data] crc_ref_def crc_rest_eq [abs_def])
  qed
qed


section \<open>Injectivity and damage detection\<close>

lemma crc_byte_inject: "crc_byte c b = crc_byte d b \<longleftrightarrow> c = d"
  by (simp add: crc_byte_def adv_inject)

lemma crc_ref_inject: "crc_ref c data = crc_ref d data \<longleftrightarrow> c = d"
  unfolding crc_ref_def by (induction data arbitrary: c d) (simp_all add: crc_byte_inject)

lemma crc_ref_append: "crc_ref c (xs @ ys) = crc_ref (crc_ref c xs) ys"
  by (simp add: crc_ref_def)

lemma crc_hash_eq_iff: "crc_hash x = crc_hash y \<longleftrightarrow> crc_ref (- 1) x = crc_ref (- 1) y"
  unfolding crc_hash_def crc_update_ref by (rule bit.compl_eq_compl_iff)

lemma from_le_inject:
  assumes "length w = length v" "8 * length v \<le> LENGTH('a)"
    and "(from_le w :: 'a::len word) = from_le v"
  shows "w = v"
  using assms le_bytes_from_le [of w, where 'a = 'a] le_bytes_from_le [of v, where 'a = 'a] by metis

lemma crc_hash_window:
  assumes "length w = length v" "length v \<le> 4" "w \<noteq> v"
  shows "crc_hash (xs @ w @ ys) \<noteq> crc_hash (xs @ v @ ys)"
proof
  assume "crc_hash (xs @ w @ ys) = crc_hash (xs @ v @ ys)"
  then have "crc_ref (crc_ref (- 1) xs) w = crc_ref (crc_ref (- 1) xs) v"
    by (simp add: crc_hash_eq_iff crc_ref_append crc_ref_inject)
  then have "from_le w = (from_le v :: u32)"
    using assms by (simp add: crc_ref_def foldl_crc_byte adv_inject)
  then show False
    using assms from_le_inject [of w v, where 'a = 32] by simp
qed

lemma crc_hash_put:
  assumes "off + length w \<le> length blk" "length w \<le> 4" "cut off (length w) blk \<noteq> w"
  shows "crc_hash (put off w blk) \<noteq> crc_hash blk"
proof -
  let ?xs = "take off blk" and ?v = "cut off (length w) blk" and ?ys = "drop (off + length w) blk"
  have "blk = ?xs @ ?v @ ?ys"
    by (simp only: buf_split)
  moreover have "crc_hash (?xs @ w @ ?ys) \<noteq> crc_hash (?xs @ ?v @ ?ys)"
    using assms by (intro crc_hash_window) auto
  ultimately show ?thesis
    by (simp add: put_def)
qed

section \<open>Sealed blocks\<close>

text \<open>
  Every on-disk structure hashes its block while the checksum slot is zero and then writes
  the hash into the slot; every reader zeroes the slot of a copy and compares.
\<close>

definition crc_seal :: "nat \<Rightarrow> bytes \<Rightarrow> bytes" where
  "crc_seal off blk = put off (le_bytes 4 (crc_hash blk)) blk"

definition crc_stored :: "nat \<Rightarrow> bytes \<Rightarrow> u32" where
  "crc_stored off blk = from_le (cut off 4 blk)"

definition crc_expected :: "nat \<Rightarrow> bytes \<Rightarrow> u32" where
  "crc_expected off blk = crc_hash (put off (zeros 4) blk)"

lemma length_crc_seal [simp]: "off + 4 \<le> length blk \<Longrightarrow> length (crc_seal off blk) = length blk"
  by (simp add: crc_seal_def)

lemma cut_crc_seal [simp]:
  "n + k \<le> off \<Longrightarrow> off + 4 \<le> length blk \<Longrightarrow> cut n k (crc_seal off blk) = cut n k blk"
  "off + 4 \<le> n \<Longrightarrow> off + 4 \<le> length blk \<Longrightarrow> cut n k (crc_seal off blk) = cut n k blk"
  by (simp_all add: crc_seal_def)

lemma crc_stored_seal [simp]: "off + 4 \<le> length blk \<Longrightarrow> crc_stored off (crc_seal off blk) = crc_hash blk"
  by (simp add: crc_seal_def crc_stored_def)

lemma crc_expected_seal [simp]:
  "off + 4 \<le> length blk \<Longrightarrow> cut off 4 blk = zeros 4 \<Longrightarrow> crc_expected off (crc_seal off blk) = crc_hash blk"
  by (simp add: crc_seal_def crc_expected_def) (metis put_cut)

text \<open>
  A window of at most four bytes that does not straddle the slot's boundary, replaced by
  anything else, makes the comparison fail.
\<close>

lemma crc_damage_detected:
  assumes ok: "crc_stored off blk = crc_expected off blk"
    and slot: "off + 4 \<le> length blk"
    and win: "p + length w \<le> length blk" "length w \<le> 4" "cut p (length w) blk \<noteq> w"
    and away: "p + length w \<le> off \<or> off + 4 \<le> p \<or> (off \<le> p \<and> p + length w \<le> off + 4)"
  shows "crc_stored off (put p w blk) \<noteq> crc_expected off (put p w blk)"
proof (cases "off \<le> p \<and> p + length w \<le> off + 4")
  case True
  let ?s = "cut off 4 blk"
  have eq: "put off (zeros 4) (put p w blk) = put off (zeros 4) blk"
    using True slot win by (intro buf_eqI) (auto simp: nth_put)
  have "cut off 4 (put p w blk) \<noteq> cut off 4 blk"
  proof
    assume "cut off 4 (put p w blk) = cut off 4 blk"
    then have "cut (p - off) (length w) (cut off 4 (put p w blk)) = cut (p - off) (length w) (cut off 4 blk)"
      by simp
    moreover have "p - off + length w \<le> 4" "off + (p - off) = p"
      using True by auto
    ultimately show False
      using slot win by (simp add: cut_cut)
  qed
  then have "crc_stored off (put p w blk) \<noteq> crc_stored off blk"
    using slot win from_le_inject [of "cut off 4 (put p w blk)" "cut off 4 blk", where 'a = 32]
    by (auto simp: crc_stored_def)
  then show ?thesis
    using ok by (simp add: crc_expected_def eq)
next
  case False
  then have apart: "p + length w \<le> off \<or> off + 4 \<le> p"
    using away by blast
  then have st: "crc_stored off (put p w blk) = crc_stored off blk"
    using slot win by (auto simp: crc_stored_def)
  have comm: "put off (zeros 4) (put p w blk) = put p w (put off (zeros 4) blk)"
    using apart slot win by (intro buf_eqI) (auto simp: nth_put)
  have "cut p (length w) (put off (zeros 4) blk) = cut p (length w) blk"
    using apart slot win by auto
  then have "crc_expected off (put p w blk) \<noteq> crc_expected off blk"
    unfolding crc_expected_def comm using slot win by (intro crc_hash_put) auto
  then show ?thesis
    using ok st by simp
qed

section \<open>Properties\<close>

lemma crc_bit_8: "(crc_bit ^^ 8) c = crc_bit (crc_bit (crc_bit (crc_bit (crc_bit (crc_bit (crc_bit (crc_bit c)))))))"
  by (simp add: eval_nat_numeral)

text \<open>
  C37: the slicing-by-8 loop with its generated tables computes the bitwise CRC32C register
  for every start value and every input, hence the checksum of the one-byte input
  "a" is 0xC1D04330.
\<close>

theorem crc32c_slicing_by_8_correct:
  "crc_update c data = crc_ref c data \<and>
   crc_hash [0x61] = 0xC1D04330"
proof
  show "crc_update c data = crc_ref c data"
    by (rule crc_update_ref)
  have "crc_ref (- 1) [0x61] = NOT 0xC1D04330"
    unfolding crc_ref_def crc_byte_def adv_def crc_bit_8 by (simp add: crc_bit_def CRC32C_POLY_def)
  then show "crc_hash [0x61] = 0xC1D04330"
    by (simp only: crc_hash_def crc_update_ref bit.double_compl)
qed

text \<open>
  C38: a block whose stored checksum matches is no longer accepted after a window of one to four bytes was
  overwritten with different bytes, provided that the window lies wholly before, wholly inside or wholly
  behind the checksum slot.  (A window across the edge of the slot can change data and checksum together.)
\<close>

theorem sealed_block_detects_damage:
  assumes "crc_stored off blk = crc_expected off blk" "off + 4 \<le> length blk"
    and "p + length w \<le> length blk" "length w \<le> 4" "cut p (length w) blk \<noteq> w"
    and "p + length w \<le> off \<or> off + 4 \<le> p \<or> (off \<le> p \<and> p + length w \<le> off + 4)"
  shows "crc_stored off (put p w blk) \<noteq> crc_expected off (put p w blk)"
  by (rule crc_damage_detected) (fact assms)+

theorem sealed_block_detects_damage_witness:
  "crc_stored 4 (put 0 [9, 9] (crc_seal 4 (zeros 8))) \<noteq> crc_expected 4 (put 0 [9, 9] (crc_seal 4 (zeros 8)))"
proof (rule sealed_block_detects_damage)
  have c: "cut 0 2 (crc_seal 4 (zeros 8)) = zeros 2"
    by simp
  have "zeros 2 = [0, 0]"
    by (simp add: zeros_def numeral_2_eq_2)
  then show "cut 0 (length [9, 9 :: u8]) (crc_seal 4 (zeros 8)) \<noteq> [9, 9]"
    by (simp add: c flip: numeral_2_eq_2)
qed simp_all

end
