(* ===== verification/Codec.thy ===== *)
theory Codec
  imports Checksum
begin

text \<open>
  What the on-disk codecs share.  An encoder is a sequence of \<open>copy_from_slice\<close> calls on a
  zeroed buffer (\<open>puts\<close>), sometimes with an array of fixed-size entries (\<open>put_seq\<close>), followed
  by the checksum; a decoder checks length and checksum and reads the fields back with
  \<open>cut\<close>.  The locale \<open>sealed_codec\<close> is the contract the volume relies on; every codec of the
  development interprets it.
\<close>

section \<open>Sequences of copies\<close>

fun puts :: "(nat \<times> bytes) list \<Rightarrow> bytes \<Rightarrow> bytes" where
  "puts [] buf = buf"
| "puts ((off, src) # ps) buf = puts ps (put off src buf)"

text \<open>The copies are in ascending order, do not overlap and end at \<open>hi\<close> at the latest.\<close>

fun laid :: "nat \<Rightarrow> (nat \<times> bytes) list \<Rightarrow> nat \<Rightarrow> bool" where
  "laid lo [] hi \<longleftrightarrow> lo \<le> hi"
| "laid lo ((off, src) # ps) hi \<longleftrightarrow> lo \<le> off \<and> laid (off + length src) ps hi"

lemma laid_le: "laid lo ps hi \<Longrightarrow> lo \<le> hi"
  by (induction lo ps hi rule: laid.induct) auto

lemma laid_member: "laid lo ps hi \<Longrightarrow> (off, src) \<in> set ps \<Longrightarrow> lo \<le> off \<and> off + length src \<le> hi"
  by (induction lo ps hi rule: laid.induct) (fastforce dest: laid_le)+

lemma laid_mono: "laid lo ps hi \<Longrightarrow> lo' \<le> lo \<Longrightarrow> laid lo' ps hi"
  by (cases ps) auto

lemma length_puts [simp]: "laid lo ps hi \<Longrightarrow> hi \<le> length buf \<Longrightarrow> length (puts ps buf) = length buf"
proof (induction ps arbitrary: lo buf)
  case (Cons p ps)
  obtain a src where p: "p = (a, src)" by (cases p)
  have "a + length src \<le> hi"
    using Cons.prems by (auto simp: p dest: laid_le)
  then show ?case
    using Cons.prems Cons.IH [of "a + length src" "put a src buf"] by (simp add: p)
qed simp

lemma cut_puts_below:
  "laid lo ps hi \<Longrightarrow> hi \<le> length buf \<Longrightarrow> off + n \<le> lo \<Longrightarrow> cut off n (puts ps buf) = cut off n buf"
proof (induction ps arbitrary: lo buf)
  case (Cons p ps)
  obtain a src where p: "p = (a, src)" by (cases p)
  have "a + length src \<le> hi"
    using Cons.prems by (auto simp: p dest: laid_le)
  then show ?case
    using Cons.prems Cons.IH [of "a + length src" "put a src buf"] by (simp add: p)
qed simp

lemma cut_puts_above:
  "laid lo ps hi \<Longrightarrow> hi \<le> length buf \<Longrightarrow> hi \<le> off \<Longrightarrow> cut off n (puts ps buf) = cut off n buf"
proof (induction ps arbitrary: lo buf)
  case (Cons p ps)
  obtain a src where p: "p = (a, src)" by (cases p)
  have "a + length src \<le> hi"
    using Cons.prems by (auto simp: p dest: laid_le)
  then show ?case
    using Cons.prems Cons.IH [of "a + length src" "put a src buf"] by (simp add: p)
qed simp

lemma cut_puts:
  "laid lo ps hi \<Longrightarrow> hi \<le> length buf \<Longrightarrow> (off, src) \<in> set ps \<Longrightarrow> cut off (length src) (puts ps buf) = src"
proof (induction ps arbitrary: lo buf)
  case (Cons p ps)
  obtain a s where p: "p = (a, s)" by (cases p)
  have le: "a + length s \<le> hi"
    using Cons.prems by (auto simp: p dest: laid_le)
  show ?case
  proof (cases "(off, src) = p")
    case True
    then show ?thesis
      using Cons.prems le cut_puts_below [of "a + length s" ps hi "put a s buf" a "length s"]
      by (simp add: p)
  next
    case False
    then show ?thesis
      using Cons.prems Cons.IH [of "a + length s" "put a s buf"] le by (auto simp: p)
  qed
qed simp

lemma cut_puts_field:
  assumes "laid lo ps hi" "hi \<le> length buf" "(off, src) \<in> set ps" "length src = n"
  shows "cut off n (puts ps buf) = src"
  using cut_puts [OF assms(1-3)] assms(4) by simp

section \<open>Arrays of fixed-size entries\<close>

fun put_seq :: "('a \<Rightarrow> bytes) \<Rightarrow> nat \<Rightarrow> nat \<Rightarrow> 'a list \<Rightarrow> bytes \<Rightarrow> bytes" where
  "put_seq enc k off [] buf = buf"
| "put_seq enc k off (x # xs) buf = put_seq enc k (off + k) xs (put off (enc x) buf)"

fun get_seq :: "(bytes \<Rightarrow> 'a) \<Rightarrow> nat \<Rightarrow> nat \<Rightarrow> nat \<Rightarrow> bytes \<Rightarrow> 'a list" where
  "get_seq dec k off 0 buf = []"
| "get_seq dec k off (Suc n) buf = dec (cut off k buf) # get_seq dec k (off + k) n buf"

lemma put_adjacent:
  "off + length xs + length ys \<le> length buf \<Longrightarrow>
   put (off + length xs) ys (put off xs buf) = put off (xs @ ys) buf"
  by (rule buf_eqI) (auto simp: nth_put nth_append)

lemma put_seq_concat:
  assumes "\<And>x. length (enc x) = k" "off + k * length xs \<le> length buf"
  shows "put_seq enc k off xs buf = put off (concat (map enc xs)) buf"
  using assms(2)
proof (induction xs arbitrary: off buf)
  case Nil
  then show ?case by (simp add: put_def)
next
  case (Cons x xs)
  have "length (concat (map enc xs)) = k * length xs"
    by (simp add: length_concat o_def assms(1) sum_list_triv)
  then show ?case
    using Cons put_adjacent [of off "enc x" "concat (map enc xs)" buf] by (simp add: assms(1) algebra_simps)
qed

lemma length_concat_map: "(\<And>x. length (enc x) = k) \<Longrightarrow> length (concat (map enc xs)) = k * length xs"
  by (simp add: length_concat o_def sum_list_triv)

lemma get_seq_append: "length xs = off \<Longrightarrow> get_seq dec k off n (xs @ ys) = get_seq dec k 0 n ys"
proof -
  have "length xs = off \<Longrightarrow> get_seq dec k (off + a) n (xs @ ys) = get_seq dec k a n ys" for a
    by (induction n arbitrary: a) (simp_all add: cut_append_skip add.assoc)
  from this [of 0] show "length xs = off \<Longrightarrow> get_seq dec k off n (xs @ ys) = get_seq dec k 0 n ys" by simp
qed

lemma get_seq_concat:
  assumes "\<And>x. length (enc x) = k" "\<And>x. x \<in> set xs \<Longrightarrow> dec (enc x) = x"
  shows "get_seq dec k 0 (length xs) (concat (map enc xs) @ ys) = xs"
  using assms(2)
proof (induction xs)
  case (Cons x xs)
  then show ?case
    using get_seq_append [of "enc x" k dec k "length xs" "concat (map enc xs) @ ys"]
    by (simp add: assms(1) cut_append_take)
qed simp

lemma get_seq_cut:
  assumes "cut off (k * n) buf = cut off' (k * n) buf'"
  shows "get_seq dec k off n buf = get_seq dec k off' n buf'"
  using assms
proof (induction n arbitrary: off off')
  case (Suc n)
  have "cut 0 k (cut off (k * Suc n) buf) = cut 0 k (cut off' (k * Suc n) buf')"
    and "cut k (k * n) (cut off (k * Suc n) buf) = cut k (k * n) (cut off' (k * Suc n) buf')"
    using Suc.prems by simp_all
  then have "cut off k buf = cut off' k buf'" "cut (off + k) (k * n) buf = cut (off' + k) (k * n) buf'"
    by (simp_all add: cut_cut)
  then show ?case
    using Suc.IH by simp
qed simp

text \<open>Reading the entries of an array that was copied somewhere into the buffer.\<close>

lemma get_seq_of_cut:
  assumes "\<And>x. length (enc x) = k" "\<And>x. x \<in> set xs \<Longrightarrow> dec (enc x) = x"
    and "cut off (k * length xs) buf = concat (map enc xs)"
  shows "get_seq dec k off (length xs) buf = xs"
proof -
  have "cut 0 (k * length xs) (concat (map enc xs)) = concat (map enc xs)"
    using cut_full [of "concat (map enc xs)"] length_concat_map [of enc k xs] assms(1) by simp
  then have "get_seq dec k off (length xs) buf = get_seq dec k 0 (length xs) (concat (map enc xs))"
    using assms(3) by (intro get_seq_cut) simp
  then show ?thesis
    using get_seq_concat [of enc k xs dec "[]"] assms by simp
qed

section \<open>Variable-length records\<close>

text \<open>
  Loops that walk a block with a cursor: the writer's body copies one record and advances,
  the reader returns the record and its length.
\<close>

fun read_records :: "(nat \<Rightarrow> ('a \<times> nat) result) \<Rightarrow> nat \<Rightarrow> nat \<Rightarrow> ('a list \<times> nat) result" where
  "read_records rd 0 cursor = Ok ([], cursor)"
| "read_records rd (Suc n) cursor =
     rbind (rd cursor) (\<lambda>(x, len).
     rbind (read_records rd n (cursor + len)) (\<lambda>(xs, c). Ok (x # xs, c)))"

lemma write_records:
  assumes "\<And>x blk c. x \<in> set xs \<Longrightarrow> c + length (img x) \<le> hi \<Longrightarrow> hi \<le> length blk \<Longrightarrow>
      body x (blk, c) = Ok (put c (img x) blk, c + length (img x))"
    and "c + length (concat (map img xs)) \<le> hi" "hi \<le> length blk"
  shows "rfor body xs (blk, c) = Ok (put c (concat (map img xs)) blk, c + length (concat (map img xs)))"
  using assms
proof (induction xs arbitrary: blk c)
  case Nil
  then show ?case by (simp add: put_def)
next
  case (Cons x xs)
  have "body x (blk, c) = Ok (put c (img x) blk, c + length (img x))"
    using Cons.prems by simp
  then have "rfor body (x # xs) (blk, c) = rfor body xs (put c (img x) blk, c + length (img x))"
    by simp
  also have "\<dots> = Ok (put (c + length (img x)) (concat (map img xs)) (put c (img x) blk),
      c + length (img x) + length (concat (map img xs)))"
    using Cons.prems by (intro Cons.IH) auto
  finally show ?case
    using Cons.prems(2,3) put_adjacent [of c "img x" "concat (map img xs)" blk] by (simp add: add.assoc)
qed

text \<open>The same for a writer that leaves the padding of a zeroed block alone.\<close>

lemma write_records_zero:
  assumes "\<And>x blk c. x \<in> set xs \<Longrightarrow> c + length (img x) \<le> hi \<Longrightarrow> hi \<le> length blk \<Longrightarrow>
      cut c (hi - c) blk = zeros (hi - c) \<Longrightarrow>
      body x (blk, c) = Ok (put c (img x) blk, c + length (img x))"
    and "c + length (concat (map img xs)) \<le> hi" "hi \<le> length blk" "cut c (hi - c) blk = zeros (hi - c)"
  shows "rfor body xs (blk, c) = Ok (put c (concat (map img xs)) blk, c + length (concat (map img xs)))"
  using assms
proof (induction xs arbitrary: blk c)
  case Nil
  then show ?case by (simp add: put_def)
next
  case (Cons x xs)
  have "body x (blk, c) = Ok (put c (img x) blk, c + length (img x))"
    using Cons.prems by simp
  then have "rfor body (x # xs) (blk, c) = rfor body xs (put c (img x) blk, c + length (img x))"
    by simp
  also have "\<dots> = Ok (put (c + length (img x)) (concat (map img xs)) (put c (img x) blk),
      c + length (img x) + length (concat (map img xs)))"
  proof (intro Cons.IH)
    let ?c = "c + length (img x)"
    have "cut (length (img x)) (hi - ?c) (cut c (hi - c) blk) = zeros (hi - ?c)"
      using Cons.prems(2,4) by simp
    then show "cut ?c (hi - ?c) (put c (img x) blk) = zeros (hi - ?c)"
      using Cons.prems(2,3) by (simp add: cut_cut)
  qed (use Cons.prems in auto)
  finally show ?case
    using Cons.prems(2,3) put_adjacent [of c "img x" "concat (map img xs)" blk] by (simp add: add.assoc)
qed

lemma put_zero_tail:
  "cut (c + length xs) k buf = zeros k \<Longrightarrow> c + length xs + k \<le> length buf \<Longrightarrow>
   put c (xs @ zeros k) buf = put c xs buf"
proof (rule buf_eqI)
  fix i
  assume z: "cut (c + length xs) k buf = zeros k" and l: "c + length xs + k \<le> length buf"
    and i: "i < length (put c (xs @ zeros k) buf)"
  have "zeros k ! (i - (c + length xs)) = buf ! i" if "c + length xs \<le> i" "i < c + length xs + k"
    using z nth_cut [of "c + length xs" k buf "i - (c + length xs)"] l that by simp
  then show "put c (xs @ zeros k) buf ! i = put c xs buf ! i"
    using l i by (auto simp: nth_put nth_append)
qed simp

fun place :: "nat \<Rightarrow> bytes list \<Rightarrow> (nat \<times> bytes) list" where
  "place c [] = []"
| "place c (s # ss) = (c, s) # place (c + length s) ss"

lemma puts_place: "c + length (concat ss) \<le> length buf \<Longrightarrow> puts (place c ss) buf = put c (concat ss) buf"
proof (induction ss arbitrary: c buf)
  case Nil
  then show ?case by (simp add: put_def)
next
  case (Cons s ss)
  then show ?case
    using put_adjacent [of c s "concat ss" buf] by simp
qed

lemma read_records_concat:
  assumes "\<And>x c. x \<in> set xs \<Longrightarrow> cut c (length (img x)) blk = img x \<Longrightarrow> c + length (img x) \<le> hi \<Longrightarrow>
      rd c = Ok (x, length (img x))"
    and "cut c (length (concat (map img xs))) blk = concat (map img xs)"
    and "c + length (concat (map img xs)) \<le> hi"
  shows "read_records rd (length xs) c = Ok (xs, c + length (concat (map img xs)))"
  using assms
proof (induction xs arbitrary: c)
  case (Cons x xs)
  let ?n = "length (concat (map img xs))"
  have "cut 0 (length (img x)) (cut c (length (img x) + ?n) blk) = img x"
    and "cut (length (img x)) ?n (cut c (length (img x) + ?n) blk) = concat (map img xs)"
    using Cons.prems(2) by (simp_all add: cut_append_take cut_append_skip)
  then have "cut c (length (img x)) blk = img x" "cut (c + length (img x)) ?n blk = concat (map img xs)"
    by (simp_all add: cut_cut)
  note cuts = this
  have "rd c = Ok (x, length (img x))"
    using Cons.prems(3) by (intro Cons.prems(1) cuts(1)) simp_all
  moreover have "read_records rd (length xs) (c + length (img x)) = Ok (xs, c + length (img x) + ?n)"
    using Cons.prems(3) by (intro Cons.IH Cons.prems(1) cuts(2)) simp_all
  ultimately show ?case
    by (simp add: add.assoc)
qed simp

lemma read_records_no_panic: "(\<And>c. rd c \<noteq> Panic) \<Longrightarrow> read_records rd n c \<noteq> Panic"
proof (induction n arbitrary: c)
  case (Suc n)
  show ?case
  proof (cases "rd c")
    case (Ok p)
    then obtain x len where r: "rd c = Ok (x, len)" by (cases p) simp
    then show ?thesis
      using Suc.IH [of "c + len"] Suc.prems by (cases "read_records rd n (c + len)") auto
  qed (use Suc.prems in auto)
qed simp

section \<open>The contract of a sealed codec\<close>

locale sealed_codec =
  fixes encode :: "'a \<Rightarrow> bytes result" and decode :: "bytes \<Rightarrow> 'a result"
    and valid :: "'a \<Rightarrow> bool" and size slot :: nat
  assumes encode_law: "valid x \<Longrightarrow> \<exists>b. encode x = Ok b \<and> length b = size
      \<and> crc_stored slot b = crc_expected slot b"
    and decode_law: "decode b = Ok x \<Longrightarrow> length b = size \<and> crc_stored slot b = crc_expected slot b"
    and roundtrip_law: "valid x \<Longrightarrow> encode x = Ok b \<Longrightarrow> decode b = Ok x"
    and slot_law: "slot + 4 \<le> size"
begin

lemma encode_inject: "valid x \<Longrightarrow> valid y \<Longrightarrow> encode x = encode y \<Longrightarrow> x = y"
  using encode_law roundtrip_law by (metis result.inject(1))

lemma roundtrip: "valid x \<Longrightarrow> \<exists>b. encode x = Ok b \<and> length b = size \<and> decode b = Ok x"
  using encode_law roundtrip_law by blast

text \<open>A decoder accepts no block in which a window of one to four bytes was damaged.\<close>

lemma damage:
  assumes "decode b = Ok x"
    and "p + length w \<le> size" "length w \<le> 4" "cut p (length w) b \<noteq> w"
    and "p + length w \<le> slot \<or> slot + 4 \<le> p \<or> (slot \<le> p \<and> p + length w \<le> slot + 4)"
  shows "\<not> is_ok (decode (put p w b))"
proof
  assume "is_ok (decode (put p w b))"
  then have "crc_stored slot (put p w b) = crc_expected slot (put p w b)"
    using decode_law by (auto simp: result_iff)
  moreover have "crc_stored slot (put p w b) \<noteq> crc_expected slot (put p w b)"
    using assms decode_law [OF assms(1)] slot_law by (intro crc_damage_detected) auto
  ultimately show False by simp
qed

end

lemma sealed_Ok:
  assumes "off + 4 \<le> length blk" "cut off 4 blk = zeros 4"
  shows "crc_stored off (crc_seal off blk) = crc_expected off (crc_seal off blk)"
  using assms by simp

end
