(* ===== verification/Superblock.thy ===== *)
theory Superblock
  imports Codec Layout
begin

text \<open>
  The superblock, \<open>corefs-core/src/storage/ondisk/superblock.rs\<close>: the sequential writer and
  the \<open>take\<close> reader, \<open>for_new_volume\<close>, \<open>geometry\<close>, \<open>encode_block\<close> and \<open>decode_block\<close>.  An \<open>i64\<close>
  field is kept as its 64-bit pattern, the fixed arrays \<open>uuid\<close> and \<open>label\<close> as byte lists of 16
  and 32 bytes (\<open>wf_superblock\<close>).
\<close>

definition SUPERBLOCK_STRUCT_BYTES :: nat where "SUPERBLOCK_STRUCT_BYTES = 512"
definition SUPERBLOCK_CHECKSUM_OFFSET :: nat where "SUPERBLOCK_CHECKSUM_OFFSET = SUPERBLOCK_STRUCT_BYTES - 4"
definition STATE_CLEAN :: u32 where "STATE_CLEAN = 0"
definition STATE_DIRTY :: u32 where "STATE_DIRTY = 1"
definition LAYOUT_MODE_BLOB :: u32 where "LAYOUT_MODE_BLOB = 0"
definition LAYOUT_MODE_NATIVE :: u32 where "LAYOUT_MODE_NATIVE = 1"

lemma superblock_sizes [simp]: "SUPERBLOCK_STRUCT_BYTES = 512" "SUPERBLOCK_CHECKSUM_OFFSET = 508"
  by (simp_all add: SUPERBLOCK_STRUCT_BYTES_def SUPERBLOCK_CHECKSUM_OFFSET_def)

section \<open>Sequential writer and reader\<close>

text \<open>\<open>ByteWriter::write_all\<close> on the buffer and its position.\<close>

definition write_all :: "bytes \<Rightarrow> bytes \<times> nat \<Rightarrow> (bytes \<times> nat) result" where
  "write_all data w =
    (let (buf, pos) = w in
     if pos + length data \<le> length buf then Ok (put pos data buf, pos + length data) else Panic)"

text \<open>The sequence of \<open>take::<N>(block, &mut p)\<close> calls of the decoder.\<close>

fun take_fields :: "nat list \<Rightarrow> bytes \<Rightarrow> nat \<Rightarrow> bytes list result" where
  "take_fields [] buf p = Ok []"
| "take_fields (n # ns) buf p =
     rbind (cut_res p n buf) (\<lambda>x. rbind (take_fields ns buf (p + n)) (\<lambda>xs. Ok (x # xs)))"

lemma write_all_concat:
  "pos + length (concat cs) \<le> length buf \<Longrightarrow>
   rfor write_all cs (buf, pos) = Ok (put pos (concat cs) buf, pos + length (concat cs))"
proof (induction cs arbitrary: buf pos)
  case Nil
  then show ?case by (simp add: put_def)
next
  case (Cons c cs)
  then show ?case
    using put_adjacent [of pos c "concat cs" buf] by (simp add: write_all_def add.assoc)
qed

lemma take_fields_concat:
  "cut p (length (concat cs)) buf = concat cs \<Longrightarrow> p + length (concat cs) \<le> length buf \<Longrightarrow>
   take_fields (map length cs) buf p = Ok cs"
proof (induction cs arbitrary: p)
  case (Cons c cs)
  let ?n = "length (concat cs)"
  have "cut 0 (length c) (cut p (length c + ?n) buf) = c"
    and "cut (length c) ?n (cut p (length c + ?n) buf) = concat cs"
    using Cons.prems(1) by (simp_all add: cut_append_take cut_append_skip)
  then have "cut p (length c) buf = c" "cut (p + length c) ?n buf = concat cs"
    by (simp_all add: cut_cut)
  then show ?case
    using Cons.IH [of "p + length c"] Cons.prems(2) by (simp add: cut_res_def)
qed simp

lemma take_fields_no_panic:
  "p + sum_list ns \<le> length buf \<Longrightarrow> \<exists>fs. take_fields ns buf p = Ok fs \<and> map length fs = ns"
proof (induction ns arbitrary: p)
  case (Cons n ns)
  then obtain fs where "take_fields ns buf (p + n) = Ok fs" "map length fs = ns"
    by (metis add.assoc sum_list.Cons)
  then show ?case
    using Cons.prems by (simp add: cut_res_def)
qed simp

section \<open>The superblock\<close>

record superblock =
  sb_magic :: u64
  sb_version_major :: u16
  sb_version_minor :: u16
  sb_block_size :: u32
  sb_total_blocks :: u64
  sb_free_blocks :: u64
  sb_total_inodes :: u64
  sb_free_inodes :: u64
  sb_block_bitmap_start :: u64
  sb_block_bitmap_blocks :: u64
  sb_inode_bitmap_start :: u64
  sb_inode_bitmap_blocks :: u64
  sb_inode_table_start :: u64
  sb_inode_table_blocks :: u64
  sb_journal_start :: u64
  sb_journal_blocks :: u64
  sb_data_start :: u64
  sb_secondary_superblock_block :: u64
  sb_tertiary_superblock_block :: u64
  sb_feature_compat :: u64
  sb_feature_incompat :: u64
  sb_feature_ro_compat :: u64
  sb_uuid :: bytes
  sb_label :: bytes
  sb_created_at :: u64
  sb_last_mount_at :: u64
  sb_last_write_at :: u64
  sb_mount_count :: u32
  sb_generation :: u64
  sb_state :: u32
  sb_payload_inode :: u64
  sb_block_bitmap_crc :: u32
  sb_inode_bitmap_crc :: u32
  sb_layout_mode :: u32
  sb_root_inode :: u64

definition for_new_volume :: "geometry \<Rightarrow> bytes \<Rightarrow> bytes \<Rightarrow> u64 \<Rightarrow> superblock" where
  "for_new_volume geom uuid label now_secs =
    (let copy_len = min (length label) 32;
         label_bytes = put 0 (take copy_len label) (zeros 32) in
     \<lparr>sb_magic = ODF_MAGIC, sb_version_major = ODF_VERSION_MAJOR,
      sb_version_minor = ODF_VERSION_MINOR, sb_block_size = ucast BLOCK_SIZE,
      sb_total_blocks = g_total_blocks geom, sb_free_blocks = g_data_blocks geom,
      sb_total_inodes = g_inode_count geom, sb_free_inodes = g_inode_count geom,
      sb_block_bitmap_start = g_block_bitmap_start geom, sb_block_bitmap_blocks = g_block_bitmap_blocks geom,
      sb_inode_bitmap_start = g_inode_bitmap_start geom, sb_inode_bitmap_blocks = g_inode_bitmap_blocks geom,
      sb_inode_table_start = g_inode_table_start geom, sb_inode_table_blocks = g_inode_table_blocks geom,
      sb_journal_start = g_journal_start geom, sb_journal_blocks = g_journal_blocks geom,
      sb_data_start = g_data_start geom, sb_secondary_superblock_block = g_secondary_superblock_block geom,
      sb_tertiary_superblock_block = g_tertiary_superblock_block geom, sb_feature_compat = FEATURE_COMPAT_BLOCK_CHECKSUMS OR FEATURE_COMPAT_REDUNDANT_SUPERBLOCKS,
      sb_feature_incompat = FEATURE_INCOMPAT_PAYLOAD_INODE, sb_feature_ro_compat = 0,
      sb_uuid = uuid, sb_label = label_bytes,
      sb_created_at = now_secs, sb_last_mount_at = now_secs,
      sb_last_write_at = now_secs, sb_mount_count = 0,
      sb_generation = 1, sb_state = STATE_CLEAN,
      sb_payload_inode = 0, sb_block_bitmap_crc = 0,
      sb_inode_bitmap_crc = 0, sb_layout_mode = 0,
      sb_root_inode = 0\<rparr>)"

definition sb_geometry :: "superblock \<Rightarrow> geometry" where
  "sb_geometry sb =
     \<lparr>g_total_blocks = sb_total_blocks sb, g_block_bitmap_start = sb_block_bitmap_start sb,
      g_block_bitmap_blocks = sb_block_bitmap_blocks sb, g_inode_bitmap_start = sb_inode_bitmap_start sb,
      g_inode_bitmap_blocks = sb_inode_bitmap_blocks sb, g_inode_table_start = sb_inode_table_start sb,
      g_inode_table_blocks = sb_inode_table_blocks sb, g_inode_count = sb_total_inodes sb,
      g_journal_start = sb_journal_start sb, g_journal_blocks = sb_journal_blocks sb,
      g_data_start = sb_data_start sb, g_data_blocks = sat_sub (sb_total_blocks sb) (sb_data_start sb),
      g_secondary_superblock_block = sb_secondary_superblock_block sb, g_tertiary_superblock_block = sb_tertiary_superblock_block sb\<rparr>"

text \<open>The values in the order \<open>encode_block\<close> writes them.\<close>

definition sb_chunks :: "superblock \<Rightarrow> bytes list" where
  "sb_chunks sb =
     [le_bytes 8 (sb_magic sb), le_bytes 2 (sb_version_major sb),
      le_bytes 2 (sb_version_minor sb), le_bytes 4 (sb_block_size sb),
      le_bytes 8 (sb_total_blocks sb), le_bytes 8 (sb_free_blocks sb),
      le_bytes 8 (sb_total_inodes sb), le_bytes 8 (sb_free_inodes sb),
      le_bytes 8 (sb_block_bitmap_start sb), le_bytes 8 (sb_block_bitmap_blocks sb),
      le_bytes 8 (sb_inode_bitmap_start sb), le_bytes 8 (sb_inode_bitmap_blocks sb),
      le_bytes 8 (sb_inode_table_start sb), le_bytes 8 (sb_inode_table_blocks sb),
      le_bytes 8 (sb_journal_start sb), le_bytes 8 (sb_journal_blocks sb),
      le_bytes 8 (sb_data_start sb), le_bytes 8 (sb_secondary_superblock_block sb),
      le_bytes 8 (sb_tertiary_superblock_block sb), le_bytes 8 (sb_feature_compat sb),
      le_bytes 8 (sb_feature_incompat sb), le_bytes 8 (sb_feature_ro_compat sb),
      sb_uuid sb, sb_label sb,
      le_bytes 8 (sb_created_at sb), le_bytes 8 (sb_last_mount_at sb),
      le_bytes 8 (sb_last_write_at sb), le_bytes 4 (sb_mount_count sb),
      le_bytes 8 (sb_generation sb), le_bytes 4 (sb_state sb),
      le_bytes 8 (sb_payload_inode sb), le_bytes 4 (sb_block_bitmap_crc sb),
      le_bytes 4 (sb_inode_bitmap_crc sb), le_bytes 4 (sb_layout_mode sb),
      le_bytes 8 (sb_root_inode sb)]"

definition sb_field_sizes :: "nat list" where
  "sb_field_sizes =
     [8, 2, 2, 4, 8, 8, 8, 8, 8, 8, 8, 8, 8, 8, 8, 8, 8, 8, 8, 8, 8, 8, 16, 32, 8, 8, 8, 4, 8, 4, 8, 4, 4, 4, 8]"

definition sb_encode_block :: "superblock \<Rightarrow> bytes result" where
  "sb_encode_block sb =
    (let block = zeros (unat BLOCK_SIZE) in
     rbind (rfor write_all (sb_chunks sb) (take SUPERBLOCK_STRUCT_BYTES block, 0)) (\<lambda>(prefix, pos).
       Ok (crc_seal SUPERBLOCK_CHECKSUM_OFFSET (prefix @ drop SUPERBLOCK_STRUCT_BYTES block))))"

definition sb_decode_block :: "bytes \<Rightarrow> superblock result" where
  "sb_decode_block block =
    (if length block \<noteq> unat BLOCK_SIZE then Err (InvalidInput ''superblock block must be '')
     else if crc_expected SUPERBLOCK_CHECKSUM_OFFSET block \<noteq> crc_stored SUPERBLOCK_CHECKSUM_OFFSET block
     then Err (State ''superblock checksum mismatch: stored=0x'')
     else
       rbind (take_fields sb_field_sizes block 0) (\<lambda>fs.
       if from_le (fs ! 0) \<noteq> ODF_MAGIC then Err (State ''superblock magic mismatch: got 0x'')
       else if from_le (fs ! 1) \<noteq> ODF_VERSION_MAJOR then Err (State ''unsupported ODF major version: '')
       else if from_le (fs ! 20) AND NOT SUPPORTED_INCOMPAT \<noteq> 0
       then Err (State ''superblock requires unsupported incompat features: 0x'')
       else if from_le (fs ! 21) AND NOT SUPPORTED_RO_COMPAT \<noteq> 0
       then Err (State ''superblock requires unsupported ro-compat features: 0x'')
       else
         Ok \<lparr>sb_magic = from_le (fs ! 0), sb_version_major = from_le (fs ! 1),
            sb_version_minor = from_le (fs ! 2), sb_block_size = from_le (fs ! 3),
            sb_total_blocks = from_le (fs ! 4), sb_free_blocks = from_le (fs ! 5),
            sb_total_inodes = from_le (fs ! 6), sb_free_inodes = from_le (fs ! 7),
            sb_block_bitmap_start = from_le (fs ! 8), sb_block_bitmap_blocks = from_le (fs ! 9),
            sb_inode_bitmap_start = from_le (fs ! 10), sb_inode_bitmap_blocks = from_le (fs ! 11),
            sb_inode_table_start = from_le (fs ! 12), sb_inode_table_blocks = from_le (fs ! 13),
            sb_journal_start = from_le (fs ! 14), sb_journal_blocks = from_le (fs ! 15),
            sb_data_start = from_le (fs ! 16), sb_secondary_superblock_block = from_le (fs ! 17),
            sb_tertiary_superblock_block = from_le (fs ! 18), sb_feature_compat = from_le (fs ! 19),
            sb_feature_incompat = from_le (fs ! 20), sb_feature_ro_compat = from_le (fs ! 21),
            sb_uuid = fs ! 22, sb_label = fs ! 23,
            sb_created_at = from_le (fs ! 24), sb_last_mount_at = from_le (fs ! 25),
            sb_last_write_at = from_le (fs ! 26), sb_mount_count = from_le (fs ! 27),
            sb_generation = from_le (fs ! 28), sb_state = from_le (fs ! 29),
            sb_payload_inode = from_le (fs ! 30), sb_block_bitmap_crc = from_le (fs ! 31),
            sb_inode_bitmap_crc = from_le (fs ! 32), sb_layout_mode = from_le (fs ! 33),
            sb_root_inode = from_le (fs ! 34)\<rparr>))"

section \<open>Round trip\<close>

text \<open>What a superblock needs to survive being written and read back.\<close>

definition wf_superblock :: "superblock \<Rightarrow> bool" where
  "wf_superblock sb \<longleftrightarrow> length (sb_uuid sb) = 16 \<and> length (sb_label sb) = 32"

definition supported :: "superblock \<Rightarrow> bool" where
  "supported sb \<longleftrightarrow> sb_magic sb = ODF_MAGIC \<and> sb_version_major sb = ODF_VERSION_MAJOR
     \<and> sb_feature_incompat sb AND NOT SUPPORTED_INCOMPAT = 0
     \<and> sb_feature_ro_compat sb AND NOT SUPPORTED_RO_COMPAT = 0"

lemma sb_chunk_sizes: "wf_superblock sb \<Longrightarrow> map length (sb_chunks sb) = sb_field_sizes"
  by (simp add: wf_superblock_def sb_chunks_def sb_field_sizes_def)

lemma sb_chunks_length: "wf_superblock sb \<Longrightarrow> length (concat (sb_chunks sb)) = 276"
  by (simp add: length_concat sb_chunk_sizes) (simp add: sb_field_sizes_def)

definition sb_body :: "superblock \<Rightarrow> bytes" where
  "sb_body sb = put 0 (concat (sb_chunks sb)) (zeros 4096)"

lemma length_sb_body [simp]: "wf_superblock sb \<Longrightarrow> length (sb_body sb) = 4096"
  by (simp add: sb_body_def sb_chunks_length)

lemma sb_body_slot: "wf_superblock sb \<Longrightarrow> cut 508 4 (sb_body sb) = zeros 4"
  by (simp add: sb_body_def sb_chunks_length)

lemma sb_encode_eq:
  assumes "wf_superblock sb"
  shows "sb_encode_block sb = Ok (crc_seal 508 (sb_body sb))"
proof -
  have "rfor write_all (sb_chunks sb) (take 512 (zeros 4096), 0)
     = Ok (put 0 (concat (sb_chunks sb)) (take 512 (zeros 4096)), 276)"
    using write_all_concat [of 0 "sb_chunks sb" "take 512 (zeros 4096)"] assms
    by (simp add: sb_chunks_length)
  moreover have "put 0 (concat (sb_chunks sb)) (take 512 (zeros 4096)) @ drop 512 (zeros 4096) = sb_body sb"
    using sb_chunks_length [OF assms] by (simp add: put_def sb_body_def zeros_def flip: replicate_add)
  ultimately show ?thesis
    by (simp add: sb_encode_block_def)
qed

lemma sb_decode_fields:
  assumes "wf_superblock sb"
  shows "take_fields sb_field_sizes (crc_seal 508 (sb_body sb)) 0 = Ok (sb_chunks sb)"
proof -
  have "cut 0 276 (crc_seal 508 (sb_body sb)) = concat (sb_chunks sb)"
    using assms by (simp add: sb_body_def sb_chunks_length)
  then show ?thesis
    using take_fields_concat [of 0 "sb_chunks sb"] assms by (simp add: sb_chunk_sizes sb_chunks_length)
qed

lemma sb_roundtrip:
  assumes "wf_superblock sb" "supported sb"
  shows "sb_decode_block (crc_seal 508 (sb_body sb)) = Ok sb"
proof -
  have "sb_decode_block (crc_seal 508 (sb_body sb)) =
     (let fs = sb_chunks sb in
      if from_le (fs ! 0) \<noteq> ODF_MAGIC then Err (State ''superblock magic mismatch: got 0x'')
       else if from_le (fs ! 1) \<noteq> ODF_VERSION_MAJOR then Err (State ''unsupported ODF major version: '')
       else if from_le (fs ! 20) AND NOT SUPPORTED_INCOMPAT \<noteq> 0
       then Err (State ''superblock requires unsupported incompat features: 0x'')
       else if from_le (fs ! 21) AND NOT SUPPORTED_RO_COMPAT \<noteq> 0
       then Err (State ''superblock requires unsupported ro-compat features: 0x'')
       else Ok sb)"
    using assms(1)
    by (simp add: sb_decode_block_def sb_body_slot sb_decode_fields Let_def) (simp add: sb_chunks_def)
  then show ?thesis
    using assms(2) by (simp add: sb_chunks_def supported_def)
qed

lemma sb_decode_rejects:
  assumes "wf_superblock sb" "\<not> supported sb"
  shows "\<exists>e. sb_decode_block (crc_seal 508 (sb_body sb)) = Err (State e)"
  using assms(2)
  by (simp add: sb_decode_block_def sb_body_slot sb_decode_fields assms(1) supported_def)
    (auto simp: sb_chunks_def)

interpretation sblk: sealed_codec sb_encode_block sb_decode_block
  "\<lambda>sb. wf_superblock sb \<and> supported sb" 4096 508
proof unfold_locales
  fix sb :: superblock and b
  assume v: "wf_superblock sb \<and> supported sb"
  show "\<exists>b. sb_encode_block sb = Ok b \<and> length b = 4096 \<and> crc_stored 508 b = crc_expected 508 b"
    using v by (simp add: sb_encode_eq sb_body_slot)
  show "sb_encode_block sb = Ok b \<Longrightarrow> sb_decode_block b = Ok sb"
    using v by (auto simp: sb_encode_eq sb_roundtrip)
next
  fix b :: bytes and sb
  show "sb_decode_block b = Ok sb \<Longrightarrow> length b = 4096 \<and> crc_stored 508 b = crc_expected 508 b"
    by (auto simp: sb_decode_block_def split: if_splits)
qed simp

text \<open>The superblock of a fresh volume is accepted and carries the geometry of the plan.\<close>

lemma supported_new: "supported (for_new_volume g uuid label now)"
  by (simp add: supported_def for_new_volume_def Let_def SUPPORTED_INCOMPAT_def
      FEATURE_INCOMPAT_PAYLOAD_INODE_def FEATURE_INCOMPAT_BLOCK_GROUPS_def FEATURE_INCOMPAT_PHYSICAL_COW_def)

lemma wf_new: "length uuid = 16 \<Longrightarrow> wf_superblock (for_new_volume g uuid label now)"
  by (simp add: wf_superblock_def for_new_volume_def Let_def)

lemma geometry_new:
  assumes "plan p = Ok g"
  shows "sb_geometry (for_new_volume g uuid label now) = g"
proof -
  have "g_data_start g \<le> g_total_blocks g" "g_data_blocks g = g_total_blocks g - g_data_start g"
    using plan_Ok_nat(6,7) [OF assms]
    by (simp_all add: word_le_nat_alt) (metis add_leD1 unat_sub_ok word_le_nat_alt word_unat_eq_iff)
  then show ?thesis
    by (simp add: sb_geometry_def for_new_volume_def Let_def sat_sub_def)
qed

section \<open>Properties\<close>

text \<open>
  the superblock a format writes for a planned geometry is read back unchanged and its
  geometry is the planned one.
\<close>

theorem fresh_superblock_roundtrip:
  assumes "plan p = Ok g" "length uuid = 16"
  shows "\<exists>b sb. sb_encode_block (for_new_volume g uuid label now) = Ok b \<and> length b = 4096
     \<and> sb_decode_block b = Ok sb \<and> sb = for_new_volume g uuid label now \<and> sb_geometry sb = g"
  using sblk.roundtrip [of "for_new_volume g uuid label now"] wf_new [OF assms(2)] supported_new
    geometry_new [OF assms(1)] by auto

theorem fresh_superblock_roundtrip_witness:
  "\<exists>g b. plan \<lparr>lp_total_blocks = 1024, lp_inode_count = 64, lp_journal_blocks = 8\<rparr> = Ok g
     \<and> sb_encode_block (for_new_volume g (zeros 16) [0x61] 7) = Ok b
     \<and> sb_decode_block b = Ok (for_new_volume g (zeros 16) [0x61] 7)"
  using fresh_superblock_roundtrip [OF plan_1024, of "zeros 16" "[0x61]" 7] plan_1024 by fastforce

text \<open>
  A superblock block with the right length and checksum but another magic, another major
  version or an unknown incompatible or read-only-compatible feature is rejected with a state
  error and never mounted.
\<close>

theorem superblock_incompatible_rejected:
  assumes "wf_superblock sb"
  shows "\<exists>b. sb_encode_block sb = Ok b \<and>
    (if sb_magic sb = ODF_MAGIC \<and> sb_version_major sb = ODF_VERSION_MAJOR
        \<and> sb_feature_incompat sb AND NOT SUPPORTED_INCOMPAT = 0 \<and> sb_feature_ro_compat sb AND NOT SUPPORTED_RO_COMPAT = 0
     then sb_decode_block b = Ok sb else \<exists>e. sb_decode_block b = Err (State e))"
  using sb_encode_eq [OF assms] sb_roundtrip [OF assms] sb_decode_rejects [OF assms]
  by (auto simp: supported_def)

theorem superblock_incompatible_rejected_witness:
  "\<exists>b e. sb_encode_block ((for_new_volume (sb_geometry undefined) (zeros 16) [] 0)\<lparr>sb_magic := 0\<rparr>) = Ok b
     \<and> sb_decode_block b = Err (State e)"
proof -
  let ?sb = "(for_new_volume (sb_geometry undefined) (zeros 16) [] 0)\<lparr>sb_magic := 0\<rparr>"
  have "wf_superblock ?sb"
    using wf_new [of "zeros 16"] by (simp add: wf_superblock_def)
  from superblock_incompatible_rejected [OF this] show ?thesis
    by (auto simp: ODF_MAGIC_def)
qed

end
