(* ===== verification/Inode_Record.thy ===== *)
theory Inode_Record
  imports Codec
begin

text \<open>
  The fixed 256-byte inode record, \<open>corefs-core/src/storage/ondisk/inode.rs\<close>: \<open>OnDiskKind\<close>,
  \<open>Extent\<close>, \<open>OnDiskInode\<close> with \<open>unused\<close>, \<open>encode\<close> and \<open>decode\<close>.  An \<open>i64\<close> field is kept as its
  64-bit pattern.
\<close>

definition INODE_RECORD_SIZE :: nat where "INODE_RECORD_SIZE = 256"
definition INODE_CHECKSUM_OFFSET :: nat where "INODE_CHECKSUM_OFFSET = INODE_RECORD_SIZE - 4"
definition MAX_INLINE_EXTENTS :: nat where "MAX_INLINE_EXTENTS = 8"
definition FLAG_HAS_EXTENT_INDEX :: u32 where "FLAG_HAS_EXTENT_INDEX = push_bit 0 1"
definition FLAG_ENCRYPTED :: u32 where "FLAG_ENCRYPTED = push_bit 1 1"
definition FLAG_COMPRESSED :: u32 where "FLAG_COMPRESSED = push_bit 2 1"
definition FLAG_HAS_XATTRS :: u32 where "FLAG_HAS_XATTRS = push_bit 3 1"

lemma inode_sizes [simp]:
  "INODE_RECORD_SIZE = 256" "INODE_CHECKSUM_OFFSET = 252" "MAX_INLINE_EXTENTS = 8"
  by (simp_all add: INODE_RECORD_SIZE_def INODE_CHECKSUM_OFFSET_def MAX_INLINE_EXTENTS_def)

datatype on_disk_kind = Unused | File | Directory | Symlink | SystemPayload

fun kind_code :: "on_disk_kind \<Rightarrow> u16" where
  "kind_code Unused = 0"
| "kind_code File = 1"
| "kind_code Directory = 2"
| "kind_code Symlink = 3"
| "kind_code SystemPayload = 4"

definition kind_from_u16 :: "u16 \<Rightarrow> on_disk_kind result" where
  "kind_from_u16 v =
    (if v = 0 then Ok Unused else if v = 1 then Ok File else if v = 2 then Ok Directory
     else if v = 3 then Ok Symlink else if v = 4 then Ok SystemPayload
     else Err (State ''unknown on-disk inode kind ''))"

record extent =
  ext_logical_block :: u32
  ext_length_blocks :: u32
  ext_physical_block :: u64

definition extent_default :: extent where
  "extent_default = \<lparr>ext_logical_block = 0, ext_length_blocks = 0, ext_physical_block = 0\<rparr>"

record on_disk_inode =
  i_version :: u16
  i_kind :: on_disk_kind
  i_mode :: u32
  i_uid :: u32
  i_gid :: u32
  i_link_count :: u32
  i_flags :: u32
  i_size_bytes :: u64
  i_blocks_allocated :: u64
  i_created_at :: u64
  i_modified_at :: u64
  i_changed_at :: u64
  i_accessed_at :: u64
  i_generation :: u64
  i_extents :: "extent list"
  i_index_block_addr :: u64
  i_xattr_block_addr :: u64
  i_domain_inode_id :: u64
  i_data_crc :: u64

definition inode_unused :: on_disk_inode where
  "inode_unused =
    \<lparr>i_version = 1, i_kind = Unused, i_mode = 0, i_uid = 0, i_gid = 0, i_link_count = 0,
     i_flags = 0, i_size_bytes = 0, i_blocks_allocated = 0, i_created_at = 0, i_modified_at = 0,
     i_changed_at = 0, i_accessed_at = 0, i_generation = 0, i_extents = [],
     i_index_block_addr = 0, i_xattr_block_addr = 0, i_domain_inode_id = 0, i_data_crc = 0\<rparr>"

text \<open>One 16-byte extent slot: physical block, logical block, length.\<close>

definition extent_bytes :: "extent \<Rightarrow> bytes" where
  "extent_bytes e =
    le_bytes 8 (ext_physical_block e) @ le_bytes 4 (ext_logical_block e) @ le_bytes 4 (ext_length_blocks e)"

definition extent_of_bytes :: "bytes \<Rightarrow> extent" where
  "extent_of_bytes b =
    \<lparr>ext_logical_block = from_le (cut 8 4 b), ext_length_blocks = from_le (cut 12 4 b),
     ext_physical_block = from_le (cut 0 8 b)\<rparr>"

definition inode_encode :: "on_disk_inode \<Rightarrow> bytes result" where
  "inode_encode i =
    (if MAX_INLINE_EXTENTS < length (i_extents i) then Err (InvalidInput ''ODF v1 supports at most '')
     else
       let rec0 = puts
             [(0, le_bytes 2 (i_version i)), (2, le_bytes 2 (kind_code (i_kind i))),
              (4, le_bytes 4 (i_mode i)), (8, le_bytes 4 (i_uid i)), (12, le_bytes 4 (i_gid i)),
              (16, le_bytes 4 (i_link_count i)), (20, le_bytes 4 (i_flags i)),
              (24, le_bytes 8 (i_size_bytes i)), (32, le_bytes 8 (i_blocks_allocated i)),
              (40, le_bytes 8 (i_created_at i)), (48, le_bytes 8 (i_modified_at i)),
              (56, le_bytes 8 (i_changed_at i)), (64, le_bytes 8 (i_accessed_at i)),
              (72, le_bytes 8 (i_generation i)),
              (80, le_bytes 4 (of_nat (length (i_extents i)) :: u32))]
             (zeros INODE_RECORD_SIZE);
           rec1 = put_seq extent_bytes 16 88 (i_extents i) rec0;
           rec2 = puts
             [(216, le_bytes 8 (i_index_block_addr i)), (224, le_bytes 8 (i_xattr_block_addr i)),
              (232, le_bytes 8 (i_domain_inode_id i)), (240, le_bytes 8 (i_data_crc i))] rec1 in
       Ok (crc_seal INODE_CHECKSUM_OFFSET rec2))"

definition inode_decode :: "bytes \<Rightarrow> on_disk_inode result" where
  "inode_decode r =
    (if length r \<noteq> INODE_RECORD_SIZE then Err (InvalidInput ''inode record must be '')
     else if crc_expected INODE_CHECKSUM_OFFSET r \<noteq> crc_stored INODE_CHECKSUM_OFFSET r
     then Err (State ''inode checksum mismatch: stored=0x'')
     else
       rbind (kind_from_u16 (from_le (cut 2 2 r))) (\<lambda>kind.
       let extent_count = unat (from_le (cut 80 4 r) :: u32) in
       if MAX_INLINE_EXTENTS < extent_count then Err (State ''inode declares '')
       else
         Ok \<lparr>i_version = from_le (cut 0 2 r), i_kind = kind, i_mode = from_le (cut 4 4 r),
             i_uid = from_le (cut 8 4 r), i_gid = from_le (cut 12 4 r),
             i_link_count = from_le (cut 16 4 r), i_flags = from_le (cut 20 4 r),
             i_size_bytes = from_le (cut 24 8 r), i_blocks_allocated = from_le (cut 32 8 r),
             i_created_at = from_le (cut 40 8 r), i_modified_at = from_le (cut 48 8 r),
             i_changed_at = from_le (cut 56 8 r), i_accessed_at = from_le (cut 64 8 r),
             i_generation = from_le (cut 72 8 r),
             i_extents = get_seq extent_of_bytes 16 88 extent_count r,
             i_index_block_addr = from_le (cut 216 8 r), i_xattr_block_addr = from_le (cut 224 8 r),
             i_domain_inode_id = from_le (cut 232 8 r), i_data_crc = from_le (cut 240 8 r)\<rparr>))"

section \<open>Round trip\<close>

lemma kind_roundtrip [simp]: "kind_from_u16 (kind_code k) = Ok k"
  by (cases k) (simp_all add: kind_from_u16_def)

lemma length_extent_bytes [simp]: "length (extent_bytes e) = 16"
  by (simp add: extent_bytes_def)

lemma extent_roundtrip [simp]: "extent_of_bytes (extent_bytes e) = e"
  by (simp add: extent_of_bytes_def extent_bytes_def cut_append_skip cut_append_take)
    (simp add: cut_def)

definition inode_patches :: "on_disk_inode \<Rightarrow> (nat \<times> bytes) list" where
  "inode_patches i =
     [(0, le_bytes 2 (i_version i)), (2, le_bytes 2 (kind_code (i_kind i))),
      (4, le_bytes 4 (i_mode i)), (8, le_bytes 4 (i_uid i)), (12, le_bytes 4 (i_gid i)),
      (16, le_bytes 4 (i_link_count i)), (20, le_bytes 4 (i_flags i)),
      (24, le_bytes 8 (i_size_bytes i)), (32, le_bytes 8 (i_blocks_allocated i)),
      (40, le_bytes 8 (i_created_at i)), (48, le_bytes 8 (i_modified_at i)),
      (56, le_bytes 8 (i_changed_at i)), (64, le_bytes 8 (i_accessed_at i)),
      (72, le_bytes 8 (i_generation i)),
      (80, le_bytes 4 (of_nat (length (i_extents i)) :: u32)),
      (88, concat (map extent_bytes (i_extents i))),
      (216, le_bytes 8 (i_index_block_addr i)), (224, le_bytes 8 (i_xattr_block_addr i)),
      (232, le_bytes 8 (i_domain_inode_id i)), (240, le_bytes 8 (i_data_crc i))]"

definition inode_body :: "on_disk_inode \<Rightarrow> bytes" where
  "inode_body i = puts (inode_patches i) (zeros 256)"

lemma length_extents_bytes [simp]: "length (concat (map extent_bytes es)) = 16 * length es"
  by (rule length_concat_map) simp

lemma inode_laid: "length (i_extents i) \<le> 8 \<Longrightarrow> laid 0 (inode_patches i) 248"
  by (simp add: inode_patches_def)

lemma inode_encode_eq:
  assumes "length (i_extents i) \<le> 8"
  shows "inode_encode i = Ok (crc_seal 252 (inode_body i))"
  using assms by (simp add: inode_encode_def inode_body_def inode_patches_def Let_def put_seq_concat)

lemma length_inode_body [simp]: "length (i_extents i) \<le> 8 \<Longrightarrow> length (inode_body i) = 256"
  by (simp add: inode_body_def inode_laid [THEN length_puts])

lemma inode_body_slot: "length (i_extents i) \<le> 8 \<Longrightarrow> cut 252 4 (inode_body i) = zeros 4"
  by (simp add: inode_body_def inode_laid [THEN cut_puts_above])

lemma inode_field:
  assumes "length (i_extents i) \<le> 8" "(off, src) \<in> set (inode_patches i)" "length src = n" "off + n \<le> 252"
  shows "cut off n (crc_seal 252 (inode_body i)) = src"
  using assms cut_puts_field [OF inode_laid [OF assms(1)] _ assms(2,3), of "zeros 256"]
  by (simp add: inode_body_def inode_laid [THEN length_puts])

lemma inode_roundtrip:
  assumes "length (i_extents i) \<le> 8"
  shows "inode_decode (crc_seal 252 (inode_body i)) = Ok i"
proof -
  let ?r = "crc_seal 252 (inode_body i)"
  note f = inode_field [OF assms, unfolded inode_patches_def]
  have n: "unat (of_nat (length (i_extents i)) :: u32) = length (i_extents i)"
    using assms by (intro unat_of_nat_ok) simp
  have fields: "cut 0 2 ?r = le_bytes 2 (i_version i)" "cut 2 2 ?r = le_bytes 2 (kind_code (i_kind i))"
    "cut 4 4 ?r = le_bytes 4 (i_mode i)" "cut 8 4 ?r = le_bytes 4 (i_uid i)"
    "cut 12 4 ?r = le_bytes 4 (i_gid i)" "cut 16 4 ?r = le_bytes 4 (i_link_count i)"
    "cut 20 4 ?r = le_bytes 4 (i_flags i)" "cut 24 8 ?r = le_bytes 8 (i_size_bytes i)"
    "cut 32 8 ?r = le_bytes 8 (i_blocks_allocated i)" "cut 40 8 ?r = le_bytes 8 (i_created_at i)"
    "cut 48 8 ?r = le_bytes 8 (i_modified_at i)" "cut 56 8 ?r = le_bytes 8 (i_changed_at i)"
    "cut 64 8 ?r = le_bytes 8 (i_accessed_at i)" "cut 72 8 ?r = le_bytes 8 (i_generation i)"
    "cut 80 4 ?r = le_bytes 4 (of_nat (length (i_extents i)) :: u32)"
    "cut 216 8 ?r = le_bytes 8 (i_index_block_addr i)" "cut 224 8 ?r = le_bytes 8 (i_xattr_block_addr i)"
    "cut 232 8 ?r = le_bytes 8 (i_domain_inode_id i)" "cut 240 8 ?r = le_bytes 8 (i_data_crc i)"
    by (rule f; simp)+
  have "cut 88 (16 * length (i_extents i)) ?r = concat (map extent_bytes (i_extents i))"
    by (rule f) (use assms in simp_all)
  then have "get_seq extent_of_bytes 16 88 (length (i_extents i)) ?r = i_extents i"
    by (intro get_seq_of_cut [of extent_bytes]) simp_all
  then show ?thesis
    using assms by (simp add: inode_decode_def inode_body_slot fields n)
qed

interpretation ino: sealed_codec inode_encode inode_decode "\<lambda>i. length (i_extents i) \<le> 8" 256 252
proof unfold_locales
  fix i :: on_disk_inode and b
  assume v: "length (i_extents i) \<le> 8"
  show "\<exists>b. inode_encode i = Ok b \<and> length b = 256 \<and> crc_stored 252 b = crc_expected 252 b"
    using v by (simp add: inode_encode_eq inode_body_slot)
  show "inode_encode i = Ok b \<Longrightarrow> inode_decode b = Ok i"
    using v by (auto simp: inode_encode_eq inode_roundtrip)
next
  fix b :: bytes and i
  show "inode_decode b = Ok i \<Longrightarrow> length b = 256 \<and> crc_stored 252 b = crc_expected 252 b"
    by (auto simp: inode_decode_def split: if_splits)
qed simp

section \<open>Properties\<close>

text \<open>
  an inode with at most eight extents is encoded into 256 bytes from which the decoder
  rebuilds exactly that inode, whatever its other fields hold; an inode with more extents is
  refused, so no two accepted inodes share a record.
\<close>

theorem inode_record_roundtrip:
  "if length (i_extents i) \<le> 8
   then \<exists>b. inode_encode i = Ok b \<and> length b = 256 \<and> inode_decode b = Ok i
   else inode_encode i = Err (InvalidInput ''ODF v1 supports at most '')"
  using ino.roundtrip [of i] by (auto simp: inode_encode_def)

end
