(* ===== verification/Attr_Block.thy ===== *)
theory Attr_Block
  imports Codec Layout
begin

text \<open>
  Per-inode attribute blocks, \<open>corefs-core/src/storage/ondisk/attr_block.rs\<close>: the sealed 4 KiB
  block that carries the serialized domain metadata of an inode.
\<close>

definition ATTR_BLOCK_MAGIC :: u32 where "ATTR_BLOCK_MAGIC = 0xA771B10C"
definition ATTR_CRC_OFFSET :: nat where "ATTR_CRC_OFFSET = 4092"
definition ATTR_HEADER_BYTES :: nat where "ATTR_HEADER_BYTES = 16"
definition ATTR_BLOCK_CAPACITY :: nat where "ATTR_BLOCK_CAPACITY = ATTR_CRC_OFFSET - ATTR_HEADER_BYTES"

lemma attr_sizes [simp]:
  "ATTR_CRC_OFFSET = 4092" "ATTR_HEADER_BYTES = 16" "ATTR_BLOCK_CAPACITY = 4076"
  by (simp_all add: ATTR_CRC_OFFSET_def ATTR_HEADER_BYTES_def ATTR_BLOCK_CAPACITY_def)

record attr_block =
  ab_next_attr_block :: u64
  ab_payload :: bytes

definition attr_new :: "bytes \<Rightarrow> attr_block" where
  "attr_new payload = \<lparr>ab_next_attr_block = 0, ab_payload = payload\<rparr>"

definition attr_encode :: "attr_block \<Rightarrow> bytes result" where
  "attr_encode a =
    (if ATTR_BLOCK_CAPACITY < length (ab_payload a) then Err (InvalidInput ''attr block payload '')
     else
       Ok (crc_seal ATTR_CRC_OFFSET
             (puts [(0, le_bytes 4 ATTR_BLOCK_MAGIC),
                    (4, le_bytes 4 (of_nat (length (ab_payload a)) :: u32)),
                    (8, le_bytes 8 (ab_next_attr_block a)),
                    (ATTR_HEADER_BYTES, ab_payload a)]
               (zeros (unat BLOCK_SIZE)))))"

definition attr_decode :: "bytes \<Rightarrow> attr_block result" where
  "attr_decode block =
    (if length block \<noteq> unat BLOCK_SIZE then Err (InvalidInput ''attr block: wrong length '')
     else if crc_stored ATTR_CRC_OFFSET block \<noteq> crc_expected ATTR_CRC_OFFSET block
     then Err (State ''attr block CRC mismatch'')
     else if from_le (cut 0 4 block) \<noteq> ATTR_BLOCK_MAGIC then Err (State ''attr block: bad magic 0x'')
     else
       let payload_len = unat (from_le (cut 4 4 block) :: u32) in
       if ATTR_BLOCK_CAPACITY < payload_len then Err (State ''attr block: payload_len '')
       else
         rbind (cut_res ATTR_HEADER_BYTES payload_len block) (\<lambda>payload.
         Ok \<lparr>ab_next_attr_block = from_le (cut 8 8 block), ab_payload = payload\<rparr>))"

section \<open>Round trip\<close>

definition attr_patches :: "attr_block \<Rightarrow> (nat \<times> bytes) list" where
  "attr_patches a =
    [(0, le_bytes 4 ATTR_BLOCK_MAGIC), (4, le_bytes 4 (of_nat (length (ab_payload a)) :: u32)),
     (8, le_bytes 8 (ab_next_attr_block a)), (16, ab_payload a)]"

lemma attr_laid: "length (ab_payload a) \<le> 4076 \<Longrightarrow> laid 0 (attr_patches a) 4092"
  by (simp add: attr_patches_def)

lemma attr_encode_eq:
  "length (ab_payload a) \<le> 4076 \<Longrightarrow> attr_encode a = Ok (crc_seal 4092 (puts (attr_patches a) (zeros 4096)))"
  by (simp add: attr_encode_def attr_patches_def)

lemma attr_body:
  assumes "length (ab_payload a) \<le> 4076"
  shows "length (puts (attr_patches a) (zeros 4096)) = 4096"
    and "cut 4092 4 (puts (attr_patches a) (zeros 4096)) = zeros 4"
  using attr_laid [OF assms] by (simp_all add: length_puts cut_puts_above)

lemma attr_field:
  assumes "length (ab_payload a) \<le> 4076" "(off, src) \<in> set (attr_patches a)" "length src = n" "off + n \<le> 4092"
  shows "cut off n (crc_seal 4092 (puts (attr_patches a) (zeros 4096))) = src"
  using assms cut_puts_field [OF attr_laid [OF assms(1)] _ assms(2,3), of "zeros 4096"]
  by (simp add: attr_body)

lemma attr_roundtrip:
  assumes "length (ab_payload a) \<le> 4076"
  shows "attr_decode (crc_seal 4092 (puts (attr_patches a) (zeros 4096))) = Ok a"
proof -
  let ?b = "crc_seal 4092 (puts (attr_patches a) (zeros 4096))"
  note f = attr_field [OF assms, unfolded attr_patches_def]
  have fields: "cut 0 4 ?b = le_bytes 4 ATTR_BLOCK_MAGIC"
    "cut 4 4 ?b = le_bytes 4 (of_nat (length (ab_payload a)) :: u32)"
    "cut 8 8 ?b = le_bytes 8 (ab_next_attr_block a)" "cut 16 (length (ab_payload a)) ?b = ab_payload a"
    by (rule f [folded attr_patches_def]; use assms in \<open>simp add: attr_patches_def\<close>)+
  moreover have "unat (of_nat (length (ab_payload a)) :: u32) = length (ab_payload a)"
    using assms by (intro unat_of_nat_ok) simp
  ultimately show ?thesis
    using assms by (simp add: attr_decode_def attr_body cut_res_def)
qed

interpretation attr: sealed_codec attr_encode attr_decode "\<lambda>a. length (ab_payload a) \<le> 4076" 4096 4092
proof unfold_locales
  fix a :: attr_block and b
  assume v: "length (ab_payload a) \<le> 4076"
  show "\<exists>b. attr_encode a = Ok b \<and> length b = 4096 \<and> crc_stored 4092 b = crc_expected 4092 b"
    using v by (simp add: attr_encode_eq attr_body)
  show "attr_encode a = Ok b \<Longrightarrow> attr_decode b = Ok a"
    using v by (auto simp: attr_encode_eq attr_roundtrip)
next
  fix b :: bytes and a
  show "attr_decode b = Ok a \<Longrightarrow> length b = 4096 \<and> crc_stored 4092 b = crc_expected 4092 b"
    by (auto simp: attr_decode_def split: if_splits)
qed simp

end
