(* ===== verification/Utf8.thy ===== *)
theory Utf8
  imports Prelude
begin

text \<open>
  UTF-8 as \<open>core::str::from_utf8\<close> accepts it: a Rust \<open>String\<close> is a byte list for which
  \<open>utf8_valid\<close> holds (no surrogates, no overlong forms, at most U+10FFFF).
\<close>

definition cont :: "u8 \<Rightarrow> bool" where
  "cont b \<longleftrightarrow> 0x80 \<le> b \<and> b \<le> 0xBF"

text \<open>The second byte of a longer sequence depends on the first.\<close>

definition second :: "u8 \<Rightarrow> u8 \<Rightarrow> bool" where
  "second a b \<longleftrightarrow> cont b
     \<and> (a = 0xE0 \<longrightarrow> 0xA0 \<le> b) \<and> (a = 0xED \<longrightarrow> b \<le> 0x9F)
     \<and> (a = 0xF0 \<longrightarrow> 0x90 \<le> b) \<and> (a = 0xF4 \<longrightarrow> b \<le> 0x8F)"

definition width :: "u8 \<Rightarrow> nat" where
  "width a =
    (if a \<le> 0x7F then 1 else if 0xC2 \<le> a \<and> a \<le> 0xDF then 2
     else if 0xE0 \<le> a \<and> a \<le> 0xEF then 3 else if 0xF0 \<le> a \<and> a \<le> 0xF4 then 4 else 0)"

function utf8_valid :: "bytes \<Rightarrow> bool" where
  "utf8_valid bs =
    (case bs of [] \<Rightarrow> True
     | a # rest \<Rightarrow>
         0 < width a \<and> width a \<le> length bs
         \<and> (2 \<le> width a \<longrightarrow> second a (bs ! 1))
         \<and> (\<forall>k \<in> set [2..<width a]. cont (bs ! k))
         \<and> (if width a = 0 then False else utf8_valid (drop (width a) bs)))"
  by pat_completeness auto
termination
  by (relation "measure length") auto

declare utf8_valid.simps [simp del]

definition from_utf8 :: "bytes \<Rightarrow> bytes option" where
  "from_utf8 bs = (if utf8_valid bs then Some bs else None)"

lemma utf8_Nil [simp]: "utf8_valid []"
  by (simp add: utf8_valid.simps)

lemma utf8_ascii: "a \<le> 0x7F \<Longrightarrow> utf8_valid (a # bs) \<longleftrightarrow> utf8_valid bs"
  by (subst utf8_valid.simps) (simp add: width_def)

lemma utf8_Cons:
  "utf8_valid (a # rest) \<longleftrightarrow>
     0 < width a \<and> width a \<le> length (a # rest)
     \<and> (2 \<le> width a \<longrightarrow> second a ((a # rest) ! 1))
     \<and> (\<forall>k \<in> set [2..<width a]. cont ((a # rest) ! k))
     \<and> utf8_valid (drop (width a) (a # rest))"
  by (subst utf8_valid.simps) auto

lemma utf8_append: "utf8_valid xs \<Longrightarrow> utf8_valid ys \<Longrightarrow> utf8_valid (xs @ ys)"
proof (induction xs rule: utf8_valid.induct)
  case (1 bs)
  show ?case
  proof (cases bs)
    case Nil
    with 1 show ?thesis by simp
  next
    case (Cons a rest)
    have h: "0 < width a" "width a \<le> length bs" "2 \<le> width a \<longrightarrow> second a (bs ! 1)"
        "\<forall>k \<in> set [2..<width a]. cont (bs ! k)" "utf8_valid (drop (width a) bs)"
      using "1.prems"(1) unfolding Cons utf8_Cons by blast+
    have "utf8_valid (drop (width a) bs @ ys)"
      using h Cons by (intro "1.IH" [OF Cons _ h(5) "1.prems"(2)]) auto
    then have "utf8_valid (drop (width a) (bs @ ys))"
      using h(2) by simp
    then show ?thesis
      using h unfolding Cons append_Cons utf8_Cons by (auto simp: nth_append Cons)
  qed
qed

end
