(* ===== verification/Dir_Entry.thy ===== *)
theory Dir_Entry
  imports Codec Layout Utf8
begin

text \<open>
  Directory entries and directory blocks, \<open>corefs-core/src/storage/ondisk/dir_entry.rs\<close>:
  variable-length records, \<open>DirBlock::encode\<close> and \<open>decode\<close>, \<open>blocks_needed\<close> and \<open>pack\<close>.
  A name is its UTF-8 bytes.
\<close>

definition DIR_BLOCK_MAGIC :: u32 where "DIR_BLOCK_MAGIC = 0xD12ED12E"
definition MAX_NAME_BYTES :: nat where "MAX_NAME_BYTES = 255"
definition DIR_HEADER_BYTES :: nat where "DIR_HEADER_BYTES = 16"
definition DIR_CRC_OFFSET :: nat where "DIR_CRC_OFFSET = 4092"
definition USABLE_BYTES :: nat where "USABLE_BYTES = DIR_CRC_OFFSET - DIR_HEADER_BYTES"

lemma dir_sizes [simp]:
  "MAX_NAME_BYTES = 255" "DIR_HEADER_BYTES = 16" "DIR_CRC_OFFSET = 4092" "USABLE_BYTES = 4076"
  by (simp_all add: MAX_NAME_BYTES_def DIR_HEADER_BYTES_def DIR_CRC_OFFSET_def USABLE_BYTES_def)

datatype dir_entry_kind = DirFile | DirDirectory | DirSymlink | DirSystem

fun dir_kind_code :: "dir_entry_kind \<Rightarrow> u16" where
  "dir_kind_code DirFile = 1"
| "dir_kind_code DirDirectory = 2"
| "dir_kind_code DirSymlink = 3"
| "dir_kind_code DirSystem = 4"

definition dir_kind_from_u16 :: "u16 \<Rightarrow> dir_entry_kind result" where
  "dir_kind_from_u16 v =
    (if v = 1 then Ok DirFile else if v = 2 then Ok DirDirectory else if v = 3 then Ok DirSymlink
     else if v = 4 then Ok DirSystem else Err (State ''dir entry: unknown kind ''))"

record dir_entry =
  de_inode :: u64
  de_kind :: dir_entry_kind
  de_name :: bytes

section \<open>Entries\<close>

definition encoded_len :: "dir_entry \<Rightarrow> nat result" where
  "encoded_len e =
    (let name_bytes = length (de_name e) in
     if MAX_NAME_BYTES < name_bytes then Err (InvalidInput ''dir entry name too long ('')
     else let raw = DIR_HEADER_BYTES + name_bytes in Ok ((raw + 7) div 8 * 8))"

definition de_write_to :: "dir_entry \<Rightarrow> bytes \<Rightarrow> (bytes \<times> nat) result" where
  "de_write_to e buf =
     rbind (encoded_len e) (\<lambda>rec_len.
     if length buf < rec_len then Err (InvalidInput ''dir entry: destination buffer too small'')
     else
       let nb = de_name e;
           buf' = puts [(0, le_bytes 4 (of_nat rec_len :: u32)),
                        (4, le_bytes 2 (of_nat (length nb) :: u16)),
                        (6, le_bytes 2 (dir_kind_code (de_kind e))),
                        (8, le_bytes 8 (de_inode e)),
                        (16, nb),
                        (16 + length nb, zeros (rec_len - (16 + length nb)))] buf in
       Ok (buf', rec_len))"

definition de_read_from :: "bytes \<Rightarrow> (dir_entry \<times> nat) result" where
  "de_read_from buf =
    (if length buf < DIR_HEADER_BYTES then Err (State ''dir entry: buffer too short'')
     else
       let rec_len = unat (from_le (cut 0 4 buf) :: u32) in
       if rec_len < DIR_HEADER_BYTES \<or> rec_len mod 8 \<noteq> 0 \<or> length buf < rec_len
       then Err (State ''dir entry: invalid rec_len '')
       else
         let name_len = unat (from_le (cut 4 2 buf) :: u16) in
         rbind (dir_kind_from_u16 (from_le (cut 6 2 buf))) (\<lambda>kind.
         let inode = from_le (cut 8 8 buf) in
         if rec_len < DIR_HEADER_BYTES + name_len
         then Err (State ''dir entry: name_len overflows rec_len'')
         else
           rbind (cut_res 16 name_len buf) (\<lambda>raw.
           rbind (opt_or (from_utf8 raw) (State ''dir entry: invalid utf-8 name: '')) (\<lambda>name.
           Ok (\<lparr>de_inode = inode, de_kind = kind, de_name = name\<rparr>, rec_len)))))"

section \<open>Blocks\<close>

record dir_block =
  db_next_dir_block :: u64
  db_entries :: "dir_entry list"

definition dir_block_empty :: dir_block where
  "dir_block_empty = \<lparr>db_next_dir_block = 0, db_entries = []\<rparr>"

definition encoded_entries_bytes :: "dir_block \<Rightarrow> nat result" where
  "encoded_entries_bytes b = rfor (\<lambda>e total. rbind (encoded_len e) (\<lambda>n. Ok (total + n))) (db_entries b) 0"

text \<open>The body of the encoder's loop, on the block and the cursor.\<close>

definition dir_encode_entry :: "dir_entry \<Rightarrow> bytes \<times> nat \<Rightarrow> (bytes \<times> nat) result" where
  "dir_encode_entry e st =
    (let (block, cursor) = st in
     rbind (encoded_len e) (\<lambda>rec_len.
     if DIR_CRC_OFFSET < cursor + rec_len
     then Err (InvalidInput ''dir block: entries overflow the 4 KiB capacity'')
     else
       rbind (cut_res cursor rec_len block) (\<lambda>sub.
       rbind (de_write_to e sub) (\<lambda>(sub', _). Ok (put cursor sub' block, cursor + rec_len)))))"

definition dir_encode :: "dir_block \<Rightarrow> bytes result" where
  "dir_encode b =
    (let block = puts [(0, le_bytes 4 DIR_BLOCK_MAGIC),
                       (4, le_bytes 4 (of_nat (length (db_entries b)) :: u32)),
                       (8, le_bytes 8 (db_next_dir_block b))] (zeros (unat BLOCK_SIZE)) in
     rbind (rfor dir_encode_entry (db_entries b) (block, DIR_HEADER_BYTES)) (\<lambda>(block, cursor).
     Ok (crc_seal DIR_CRC_OFFSET block)))"

definition dir_decode_entry :: "bytes \<Rightarrow> nat \<Rightarrow> (dir_entry \<times> nat) result" where
  "dir_decode_entry block cursor =
    (if DIR_CRC_OFFSET \<le> cursor then Err (State ''dir block: entry_count exceeds available bytes'')
     else rbind (cut_res cursor (DIR_CRC_OFFSET - cursor) block) de_read_from)"

definition dir_decode :: "bytes \<Rightarrow> dir_block result" where
  "dir_decode block =
    (if length block \<noteq> unat BLOCK_SIZE then Err (InvalidInput ''dir block: wrong length '')
     else if crc_stored DIR_CRC_OFFSET block \<noteq> crc_expected DIR_CRC_OFFSET block
     then Err (State ''dir block CRC mismatch'')
     else if from_le (cut 0 4 block) \<noteq> DIR_BLOCK_MAGIC then Err (State ''dir block: bad magic 0x'')
     else
       let count = unat (from_le (cut 4 4 block) :: u32) in
       rbind (read_records (dir_decode_entry block) count DIR_HEADER_BYTES) (\<lambda>(entries, _).
       Ok \<lparr>db_next_dir_block = from_le (cut 8 8 block), db_entries = entries\<rparr>))"

definition blocks_needed :: "dir_entry list \<Rightarrow> nat result" where
  "blocks_needed entries =
     map_result fst
       (rfor (\<lambda>e (blocks, used).
           rbind (encoded_len e) (\<lambda>n.
           if USABLE_BYTES < used + n then Ok (blocks + 1, n) else Ok (blocks, used + n)))
         entries (1, 0))"

text \<open>The body of the loop of \<open>pack\<close>: finished blocks, current block, bytes used in it.\<close>

definition pack_entry ::
  "dir_entry \<Rightarrow> dir_block list \<times> dir_block \<times> nat \<Rightarrow> (dir_block list \<times> dir_block \<times> nat) result" where
  "pack_entry e st =
    (let (blocks, current, current_bytes) = st in
     rbind (encoded_len e) (\<lambda>n.
     let (blocks, current, current_bytes) =
           (if USABLE_BYTES < current_bytes + n then (blocks @ [current], dir_block_empty, 0)
            else (blocks, current, current_bytes)) in
     Ok (blocks, current\<lparr>db_entries := db_entries current @ [e]\<rparr>, current_bytes + n)))"

definition pack :: "dir_entry list \<Rightarrow> u64 list \<Rightarrow> dir_block list result" where
  "pack entries reserve =
    (if reserve = [] then Err (InvalidInput ''dir pack: reserve must contain at least one block'')
     else
       rbind (rfor pack_entry entries ([], dir_block_empty, 0)) (\<lambda>(done, current, _).
       let blocks = done @ [current] in
       if length reserve < length blocks then Err (InvalidInput ''dir pack: need '')
       else
         Ok (map (\<lambda>i. if i < length blocks - 1
                      then (blocks ! i)\<lparr>db_next_dir_block := reserve ! (i + 1)\<rparr> else blocks ! i)
               [0..<length blocks])))"

section \<open>Round trip\<close>

definition valid_entry :: "dir_entry \<Rightarrow> bool" where
  "valid_entry e \<longleftrightarrow> length (de_name e) \<le> 255 \<and> utf8_valid (de_name e)"

definition entry_size :: "dir_entry \<Rightarrow> nat" where
  "entry_size e = (23 + length (de_name e)) div 8 * 8"

definition entry_image :: "dir_entry \<Rightarrow> bytes" where
  "entry_image e =
     le_bytes 4 (of_nat (entry_size e) :: u32) @ le_bytes 2 (of_nat (length (de_name e)) :: u16)
     @ le_bytes 2 (dir_kind_code (de_kind e)) @ le_bytes 8 (de_inode e) @ de_name e
     @ zeros (entry_size e - (16 + length (de_name e)))"

lemma entry_size_bounds: "16 + length (de_name e) \<le> entry_size e" "entry_size e \<le> 23 + length (de_name e)"
  "entry_size e mod 8 = 0"
  unfolding entry_size_def by presburger+

lemma length_entry_image [simp]: "length (entry_image e) = entry_size e"
  using entry_size_bounds(1) [of e] by (simp add: entry_image_def)

lemma encoded_len_eq: "length (de_name e) \<le> 255 \<Longrightarrow> encoded_len e = Ok (entry_size e)"
  by (simp add: encoded_len_def entry_size_def)

lemma encoded_len_Ok_iff: "encoded_len e = Ok n \<longleftrightarrow> length (de_name e) \<le> 255 \<and> n = entry_size e"
  by (auto simp: encoded_len_def entry_size_def Let_def)

lemma dir_kind_roundtrip [simp]: "dir_kind_from_u16 (dir_kind_code k) = Ok k"
  by (cases k) (simp_all add: dir_kind_from_u16_def)

lemma de_write_to_eq:
  assumes "length (de_name e) \<le> 255" "entry_size e \<le> length buf"
  shows "de_write_to e buf = Ok (put 0 (entry_image e) buf, entry_size e)"
proof -
  let ?n = "length (de_name e)"
  have "put 0 (entry_image e) buf = puts
     [(0, le_bytes 4 (of_nat (entry_size e) :: u32)), (4, le_bytes 2 (of_nat ?n :: u16)),
      (6, le_bytes 2 (dir_kind_code (de_kind e))), (8, le_bytes 8 (de_inode e)), (16, de_name e),
      (16 + ?n, zeros (entry_size e - (16 + ?n)))] buf"
    using assms(2) entry_size_bounds(1) [of e]
      put_adjacent [of 0 "le_bytes 4 (of_nat (entry_size e) :: u32)" "le_bytes 2 (of_nat ?n :: u16)" buf]
      put_adjacent [of 0 "le_bytes 4 (of_nat (entry_size e) :: u32) @ le_bytes 2 (of_nat ?n :: u16)"
        "le_bytes 2 (dir_kind_code (de_kind e))" buf]
      put_adjacent [of 0 "le_bytes 4 (of_nat (entry_size e) :: u32) @ le_bytes 2 (of_nat ?n :: u16)
        @ le_bytes 2 (dir_kind_code (de_kind e))" "le_bytes 8 (de_inode e)" buf]
      put_adjacent [of 0 "le_bytes 4 (of_nat (entry_size e) :: u32) @ le_bytes 2 (of_nat ?n :: u16)
        @ le_bytes 2 (dir_kind_code (de_kind e)) @ le_bytes 8 (de_inode e)" "de_name e" buf]
      put_adjacent [of 0 "le_bytes 4 (of_nat (entry_size e) :: u32) @ le_bytes 2 (of_nat ?n :: u16)
        @ le_bytes 2 (dir_kind_code (de_kind e)) @ le_bytes 8 (de_inode e) @ de_name e"
        "zeros (entry_size e - (16 + ?n))" buf]
    by (simp add: entry_image_def)
  then show ?thesis
    using assms by (simp add: de_write_to_def encoded_len_eq Let_def)
qed

lemma de_read_from_image:
  assumes "valid_entry e"
  shows "de_read_from (entry_image e @ rest) = Ok (e, entry_size e)"
proof -
  let ?n = "length (de_name e)" and ?b = "entry_image e @ rest"
  have n: "?n \<le> 255" and u: "utf8_valid (de_name e)"
    using assms by (simp_all add: valid_entry_def)
  note s = entry_size_bounds [of e]
  have w: "unat (of_nat (entry_size e) :: u32) = entry_size e" "unat (of_nat ?n :: u16) = ?n"
    using s n by (auto intro!: unat_of_nat_ok)
  have f: "cut 0 4 ?b = le_bytes 4 (of_nat (entry_size e) :: u32)" "cut 4 2 ?b = le_bytes 2 (of_nat ?n :: u16)"
    "cut 6 2 ?b = le_bytes 2 (dir_kind_code (de_kind e))" "cut 8 8 ?b = le_bytes 8 (de_inode e)"
    "cut 16 ?n ?b = de_name e"
    by (simp_all add: entry_image_def cut_append_skip cut_append_take)
  show ?thesis
    using s u by (simp add: de_read_from_def f w Let_def cut_res_def from_utf8_def)
qed

lemma dir_encode_entry_eq:
  assumes "valid_entry e" "c + length (entry_image e) \<le> 4092" "4092 \<le> length blk"
  shows "dir_encode_entry e (blk, c) = Ok (put c (entry_image e) blk, c + length (entry_image e))"
proof -
  have "put 0 (entry_image e) (cut c (entry_size e) blk) = entry_image e"
    using assms by (simp add: put_def cut_def)
  then show ?thesis
    using assms by (simp add: dir_encode_entry_def encoded_len_eq valid_entry_def cut_res_def de_write_to_eq)
qed

lemma dir_decode_entry_eq:
  assumes "valid_entry e" "cut c (length (entry_image e)) blk = entry_image e"
    and "c + length (entry_image e) \<le> 4092" "4092 \<le> length blk"
  shows "dir_decode_entry blk c = Ok (e, length (entry_image e))"
proof -
  have "cut c (4092 - c) blk = entry_image e @ cut (c + entry_size e) (4092 - (c + entry_size e)) blk"
    using assms(2,3) cut_split [of c "entry_size e" "4092 - (c + entry_size e)" blk] by simp
  moreover have "c < 4092"
    using assms(3) entry_size_bounds(1) [of e] by simp
  ultimately show ?thesis
    using assms by (simp add: dir_decode_entry_def cut_res_def de_read_from_image)
qed

text \<open>What a directory block needs to be encodable.\<close>

definition valid_dir_block :: "dir_block \<Rightarrow> bool" where
  "valid_dir_block b \<longleftrightarrow> list_all valid_entry (db_entries b) \<and> sum_list (map entry_size (db_entries b)) \<le> 4076"

definition dir_patches :: "dir_block \<Rightarrow> (nat \<times> bytes) list" where
  "dir_patches b =
    [(0, le_bytes 4 DIR_BLOCK_MAGIC), (4, le_bytes 4 (of_nat (length (db_entries b)) :: u32)),
     (8, le_bytes 8 (db_next_dir_block b)), (16, concat (map entry_image (db_entries b)))]"

definition dir_body :: "dir_block \<Rightarrow> bytes" where
  "dir_body b = puts (dir_patches b) (zeros 4096)"

lemma length_images: "length (concat (map entry_image es)) = sum_list (map entry_size es)"
  by (simp add: length_concat o_def)

lemma valid_count: "16 * length es \<le> sum_list (map entry_size es)"
proof (induction es)
  case (Cons e es)
  then show ?case using entry_size_bounds(1) [of e] by simp
qed simp

lemma dir_laid: "valid_dir_block b \<Longrightarrow> laid 0 (dir_patches b) 4092"
  by (simp add: dir_patches_def valid_dir_block_def length_images)

lemma dir_body_facts:
  assumes "valid_dir_block b"
  shows "length (dir_body b) = 4096" and "cut 4092 4 (dir_body b) = zeros 4"
  using dir_laid [OF assms] by (simp_all add: dir_body_def length_puts cut_puts_above)

lemma dir_encode_eq:
  assumes "valid_dir_block b"
  shows "dir_encode b = Ok (crc_seal 4092 (dir_body b))"
proof -
  let ?h = "puts [(0, le_bytes 4 DIR_BLOCK_MAGIC), (4, le_bytes 4 (of_nat (length (db_entries b)) :: u32)),
      (8, le_bytes 8 (db_next_dir_block b))] (zeros 4096)"
  have "rfor dir_encode_entry (db_entries b) (?h, 16)
      = Ok (put 16 (concat (map entry_image (db_entries b))) ?h,
            16 + length (concat (map entry_image (db_entries b))))"
    using assms by (intro write_records [where hi = 4092] dir_encode_entry_eq)
      (auto simp: valid_dir_block_def list_all_iff length_images)
  then show ?thesis
    by (simp add: dir_encode_def dir_body_def dir_patches_def)
qed

lemma dir_roundtrip:
  assumes "valid_dir_block b"
  shows "dir_decode (crc_seal 4092 (dir_body b)) = Ok b"
proof -
  let ?b = "crc_seal 4092 (dir_body b)" and ?es = "db_entries b"
  note facts = dir_body_facts [OF assms]
  have f: "cut off n ?b = src" if "(off, src) \<in> set (dir_patches b)" "length src = n" "off + n \<le> 4092" for off src n
    using that cut_puts_field [OF dir_laid [OF assms] _ that(1,2), of "zeros 4096"] facts
    by (simp add: dir_body_def)
  have total: "16 + length (concat (map entry_image ?es)) \<le> 4092"
    using assms by (simp add: valid_dir_block_def length_images)
  have fields: "cut 0 4 ?b = le_bytes 4 DIR_BLOCK_MAGIC" "cut 4 4 ?b = le_bytes 4 (of_nat (length ?es) :: u32)"
    "cut 8 8 ?b = le_bytes 8 (db_next_dir_block b)"
    "cut 16 (length (concat (map entry_image ?es))) ?b = concat (map entry_image ?es)"
    by (rule f; use total in \<open>simp add: dir_patches_def\<close>)+
  have "unat (of_nat (length ?es) :: u32) = length ?es"
    using valid_count [of ?es] assms by (intro unat_of_nat_ok) (simp add: valid_dir_block_def)
  moreover have "read_records (dir_decode_entry ?b) (length ?es) 16
      = Ok (?es, 16 + length (concat (map entry_image ?es)))"
    by (rule read_records_concat [where hi = 4092 and blk = ?b])
      (use assms total facts fields(4) in \<open>auto intro!: dir_decode_entry_eq [simplified] simp: valid_dir_block_def list_all_iff\<close>)
  ultimately show ?thesis
    by (simp add: dir_decode_def facts fields(1-3))
qed

interpretation dirb: sealed_codec dir_encode dir_decode valid_dir_block 4096 4092
proof unfold_locales
  fix x :: dir_block and b
  assume v: "valid_dir_block x"
  show "\<exists>b. dir_encode x = Ok b \<and> length b = 4096 \<and> crc_stored 4092 b = crc_expected 4092 b"
    using v by (simp add: dir_encode_eq dir_body_facts)
  show "dir_encode x = Ok b \<Longrightarrow> dir_decode b = Ok x"
    using v by (auto simp: dir_encode_eq dir_roundtrip)
next
  fix b :: bytes and x
  show "dir_decode b = Ok x \<Longrightarrow> length b = 4096 \<and> crc_stored 4092 b = crc_expected 4092 b"
    by (auto simp: dir_decode_def split: if_splits)
qed simp

section \<open>Arbitrary input\<close>

lemma de_read_from_no_panic: "de_read_from buf \<noteq> Panic"
  by (auto simp: de_read_from_def Let_def cut_res_def dir_kind_from_u16_def from_utf8_def)

lemma dir_decode_no_panic: "dir_decode blk \<noteq> Panic"
proof (cases "length blk = 4096")
  case True
  then have "dir_decode_entry blk c \<noteq> Panic" for c
    using de_read_from_no_panic by (auto simp: dir_decode_entry_def cut_res_def)
  then have "read_records (dir_decode_entry blk) n c \<noteq> Panic" for n c
    by (rule read_records_no_panic)
  then show ?thesis
    using True by (cases "read_records (dir_decode_entry blk) (unat (from_le (cut 4 4 blk) :: u32)) 16")
      (auto simp: dir_decode_def Let_def)
next
  case False
  then show ?thesis by (simp add: dir_decode_def)
qed

section \<open>Packing a directory into blocks\<close>

definition pack_inv :: "dir_entry list \<Rightarrow> dir_block list \<times> dir_block \<times> nat \<Rightarrow> bool" where
  "pack_inv es st \<longleftrightarrow>
    (let (done, current, n) = st in
     concat (map db_entries done) @ db_entries current = es
     \<and> n = sum_list (map entry_size (db_entries current)) \<and> n \<le> 4076
     \<and> (\<forall>b \<in> set done. sum_list (map entry_size (db_entries b)) \<le> 4076 \<and> db_next_dir_block b = 0)
     \<and> db_next_dir_block current = 0
     \<and> list_all (\<lambda>e. length (de_name e) \<le> 255) es)"

lemma pack_inv_step: "pack_inv es st \<Longrightarrow> pack_entry e st = Ok st' \<Longrightarrow> pack_inv (es @ [e]) st'"
  using entry_size_bounds(2) [of e]
  by (cases st) (auto simp: pack_inv_def pack_entry_def result_iff encoded_len_Ok_iff Let_def dir_block_empty_def
      split: if_splits)

lemma pack_loop_inv: "rfor pack_entry es ([], dir_block_empty, 0) = Ok st \<Longrightarrow> pack_inv es st"
  by (rule rfor_invariant [where P = pack_inv])
    (auto intro: pack_inv_step, simp add: pack_inv_def dir_block_empty_def)

lemma pack_loop_count:
  assumes "rfor pack_entry es (done, current, n) = Ok (done', current', n')"
  shows "rfor (\<lambda>e (blocks, used). rbind (encoded_len e) (\<lambda>n.
           if USABLE_BYTES < used + n then Ok (blocks + 1, n) else Ok (blocks, used + n)))
         es (length done + 1, n) = Ok (length done' + 1, n')"
  using assms
proof (induction es arbitrary: "done" current n)
  case (Cons e es)
  then show ?case
    by (force simp: result_iff pack_entry_def Let_def split: if_splits)
qed simp

lemma pack_loop_total:
  assumes "list_all (\<lambda>e. length (de_name e) \<le> 255) es"
  shows "\<exists>st'. rfor pack_entry es st = Ok st'"
  using assms
proof (induction es arbitrary: st)
  case (Cons e es)
  then show ?case
    by (cases st) (auto simp: pack_entry_def encoded_len_eq Let_def)
qed (metis rfor.simps(1))

lemma pack_Ok:
  assumes "pack es reserve = Ok bs"
  shows "concat (map db_entries bs) = es"
    and "\<forall>b \<in> set bs. sum_list (map entry_size (db_entries b)) \<le> 4076"
    and "list_all (\<lambda>e. length (de_name e) \<le> 255) es"
    and "blocks_needed es = Ok (length bs)" and "bs \<noteq> []" and "length bs \<le> length reserve"
    and "\<forall>i < length bs. db_next_dir_block (bs ! i) = (if i + 1 < length bs then reserve ! (i + 1) else 0)"
proof -
  obtain fin current n where run: "rfor pack_entry es ([], dir_block_empty, 0) = Ok (fin, current, n)"
    and len: "length (fin @ [current]) \<le> length reserve"
    and bs: "bs = map (\<lambda>i. if i < length (fin @ [current]) - 1
          then ((fin @ [current]) ! i)\<lparr>db_next_dir_block := reserve ! (i + 1)\<rparr> else (fin @ [current]) ! i)
        [0..<length (fin @ [current])]"
    using assms by (auto simp: pack_def result_iff Let_def split: if_splits)
  have inv: "pack_inv es (fin, current, n)"
    by (rule pack_loop_inv [OF run])
  have l: "length bs = length fin + 1"
    by (simp add: bs)
  have e: "map db_entries bs = map db_entries (fin @ [current])"
    unfolding bs by (rule nth_equalityI) (auto simp: nth_append simp del: upt_Suc)
  show "concat (map db_entries bs) = es"
    unfolding e using inv by (simp add: pack_inv_def)
  have "map (\<lambda>b. sum_list (map entry_size (db_entries b))) bs
      = map (\<lambda>es. sum_list (map entry_size es)) (map db_entries bs)"
    by simp
  also have "\<dots> = map (\<lambda>b. sum_list (map entry_size (db_entries b))) (fin @ [current])"
    unfolding e by simp
  finally have "(\<lambda>b. sum_list (map entry_size (db_entries b))) ` set bs
      = (\<lambda>b. sum_list (map entry_size (db_entries b))) ` set (fin @ [current])"
    by (metis list.set_map)
  moreover have "\<forall>b \<in> set (fin @ [current]). sum_list (map entry_size (db_entries b)) \<le> 4076"
    using inv by (auto simp: pack_inv_def)
  ultimately show "\<forall>b \<in> set bs. sum_list (map entry_size (db_entries b)) \<le> 4076"
    by (metis (no_types, lifting) imageE imageI)
  show "list_all (\<lambda>e. length (de_name e) \<le> 255) es"
    using inv by (simp add: pack_inv_def)
  show "blocks_needed es = Ok (length bs)"
    using pack_loop_count [OF run] l by (simp add: blocks_needed_def)
  show "bs \<noteq> []" using l by auto
  show "length bs \<le> length reserve" using len l by simp
  have "db_next_dir_block (fin ! i) = 0" if "i < length fin" for i
    using inv that by (auto simp: pack_inv_def)
  moreover have "db_next_dir_block current = 0"
    using inv by (simp add: pack_inv_def)
  ultimately show "\<forall>i < length bs. db_next_dir_block (bs ! i) = (if i + 1 < length bs then reserve ! (i + 1) else 0)"
    unfolding l by (auto simp: bs nth_append less_Suc_eq simp del: upt_Suc)
qed

lemma pack_total:
  assumes "list_all (\<lambda>e. length (de_name e) \<le> 255) es" "blocks_needed es = Ok n" "n \<le> length reserve" "reserve \<noteq> []"
  shows "is_ok (pack es reserve)"
proof -
  obtain d c m where run: "rfor pack_entry es ([], dir_block_empty, 0) = Ok (d, c, m)"
    using pack_loop_total [OF assms(1)] by (metis prod_cases3)
  then have "n = length d + 1"
    using pack_loop_count [OF run] assms(2) by (simp add: blocks_needed_def)
  then show ?thesis
    using run assms(3,4) by (simp add: pack_def Let_def)
qed

section \<open>Properties\<close>

text \<open>
  C40: a directory block whose names are valid UTF-8 of at most 255 bytes and whose records
  fit the usable 4076 bytes is encoded into one sealed block and decoded to the same entries
  and the same link, in the same order.
\<close>

theorem dir_block_roundtrip:
  assumes "list_all (\<lambda>e. length (de_name e) \<le> 255 \<and> utf8_valid (de_name e)) (db_entries b)"
    and "sum_list (map entry_size (db_entries b)) \<le> 4076"
  shows "\<exists>blk. dir_encode b = Ok blk \<and> length blk = 4096 \<and> dir_decode blk = Ok b"
  using assms by (intro dirb.roundtrip) (simp add: valid_dir_block_def valid_entry_def [abs_def])

theorem dir_block_roundtrip_witness:
  "\<exists>blk. dir_encode \<lparr>db_next_dir_block = 7, db_entries = [\<lparr>de_inode = 3, de_kind = DirFile, de_name = [0x61, 0x62]\<rparr>]\<rparr> = Ok blk
     \<and> dir_decode blk = Ok \<lparr>db_next_dir_block = 7, db_entries = [\<lparr>de_inode = 3, de_kind = DirFile, de_name = [0x61, 0x62]\<rparr>]\<rparr>"
  using dir_block_roundtrip
    [of "\<lparr>db_next_dir_block = 7, db_entries = [\<lparr>de_inode = 3, de_kind = DirFile, de_name = [0x61, 0x62]\<rparr>]\<rparr>"]
  by (auto simp: utf8_ascii entry_size_def)

text \<open>
  \<open>pack\<close> loses, duplicates and reorders no entry: the entries of the blocks in chain
  order are the input, every block's records fit its usable bytes, the number of blocks is
  what \<open>blocks_needed\<close> announced, and the links are the reserved addresses in order, the last
  one zero.
\<close>

theorem pack_keeps_entries:
  assumes "pack es reserve = Ok bs"
  shows "concat (map db_entries bs) = es \<and> blocks_needed es = Ok (length bs) \<and> length bs \<le> length reserve
    \<and> (\<forall>b \<in> set bs. sum_list (map entry_size (db_entries b)) \<le> 4076)
    \<and> (\<forall>i < length bs. db_next_dir_block (bs ! i) = (if i + 1 < length bs then reserve ! (i + 1) else 0))"
  using pack_Ok [OF assms] by blast

theorem pack_keeps_entries_witness:
  "\<exists>bs. pack [\<lparr>de_inode = 3, de_kind = DirFile, de_name = [0x61]\<rparr>] [9] = Ok bs \<and> length bs \<le> 1"
proof -
  have "pack [\<lparr>de_inode = 3, de_kind = DirFile, de_name = [0x61]\<rparr>] [9] =
      Ok [\<lparr>db_next_dir_block = 0, db_entries = [\<lparr>de_inode = 3, de_kind = DirFile, de_name = [0x61]\<rparr>]\<rparr>]"
    by (simp add: pack_def pack_entry_def encoded_len_def Let_def dir_block_empty_def)
  from pack_keeps_entries [OF this] this show ?thesis
    by auto
qed

end
