(* ===== verification/Xattr_Block.thy ===== *)
theory Xattr_Block
  imports Codec Layout Utf8
begin

text \<open>
  Extended-attribute blocks, \<open>corefs-core/src/storage/ondisk/xattr.rs\<close>: key/value pairs and
  ACL records of variable length in one sealed 4 KiB block.
\<close>

text \<open>\<open>u32::from_le_bytes(*b"XJAT")\<close>.\<close>

definition XATTR_BLOCK_MAGIC :: u32 where "XATTR_BLOCK_MAGIC = from_le [0x58, 0x4A, 0x41, 0x54]"
definition XATTR_CRC_OFFSET :: nat where "XATTR_CRC_OFFSET = 4092"
definition XATTR_HEADER_BYTES :: nat where "XATTR_HEADER_BYTES = 16"
definition XATTR_HDR :: nat where "XATTR_HDR = 8"
definition ACL_HDR :: nat where "ACL_HDR = 8"

lemma xattr_sizes [simp]:
  "XATTR_CRC_OFFSET = 4092" "XATTR_HEADER_BYTES = 16" "XATTR_HDR = 8" "ACL_HDR = 8"
  by (simp_all add: XATTR_CRC_OFFSET_def XATTR_HEADER_BYTES_def XATTR_HDR_def ACL_HDR_def)

datatype acl_principal = PrincipalUser | PrincipalGroup | PrincipalEveryone

fun principal_code :: "acl_principal \<Rightarrow> u8" where
  "principal_code PrincipalUser = 0"
| "principal_code PrincipalGroup = 1"
| "principal_code PrincipalEveryone = 2"

definition principal_from_u8 :: "u8 \<Rightarrow> acl_principal result" where
  "principal_from_u8 v =
    (if v = 0 then Ok PrincipalUser else if v = 1 then Ok PrincipalGroup
     else if v = 2 then Ok PrincipalEveryone else Err (State ''xattr: unknown principal ''))"

record xattr_pair =
  xp_name :: bytes
  xp_value :: bytes

record acl_record =
  ar_principal :: acl_principal
  ar_subject :: bytes
  ar_permission :: u8

record xattr_block =
  xb_flags :: u32
  xb_xattrs :: "xattr_pair list"
  xb_acls :: "acl_record list"

section \<open>Encoding\<close>

definition xattr_len :: "xattr_pair \<Rightarrow> nat result" where
  "xattr_len p =
    (let raw = XATTR_HDR + length (xp_name p) + length (xp_value p); n = (raw + 7) div 8 * 8 in
     if 4000 < n then Err (InvalidInput ''xattr entry too large'') else Ok n)"

definition acl_len :: "acl_record \<Rightarrow> nat result" where
  "acl_len a =
    (let raw = ACL_HDR + length (ar_subject a); n = (raw + 7) div 8 * 8 in
     if 512 < n then Err (InvalidInput ''acl entry too large'') else Ok n)"

definition put_pair :: "xattr_pair \<Rightarrow> bytes \<times> nat \<Rightarrow> (bytes \<times> nat) result" where
  "put_pair p st =
    (let (block, cursor) = st in
     rbind (xattr_len p) (\<lambda>n.
     if XATTR_CRC_OFFSET < cursor + n then Err (InvalidInput ''xattr block: entries overflow capacity'')
     else
       let name_b = xp_name p; v_off = cursor + XATTR_HDR + length name_b in
       Ok (puts [(cursor, le_bytes 2 (of_nat n :: u16)),
                 (cursor + 2, le_bytes 2 (of_nat (length name_b) :: u16)),
                 (cursor + 4, le_bytes 4 (of_nat (length (xp_value p)) :: u32)),
                 (cursor + XATTR_HDR, name_b), (v_off, xp_value p)] block, cursor + n)))"

definition put_acl :: "acl_record \<Rightarrow> bytes \<times> nat \<Rightarrow> (bytes \<times> nat) result" where
  "put_acl a st =
    (let (block, cursor) = st in
     rbind (acl_len a) (\<lambda>n.
     if XATTR_CRC_OFFSET < cursor + n then Err (InvalidInput ''xattr block: acl entries overflow capacity'')
     else
       let subj = ar_subject a in
       Ok (puts [(cursor, le_bytes 2 (of_nat n :: u16)), (cursor + 2, [principal_code (ar_principal a)]),
                 (cursor + 3, [ar_permission a]), (cursor + 4, le_bytes 4 (of_nat (length subj) :: u32)),
                 (cursor + ACL_HDR, subj)] block, cursor + n)))"

definition xattr_encode :: "xattr_block \<Rightarrow> bytes result" where
  "xattr_encode b =
    (let block = puts [(0, le_bytes 4 XATTR_BLOCK_MAGIC), (4, le_bytes 4 (xb_flags b)),
                       (8, le_bytes 2 (of_nat (length (xb_xattrs b)) :: u16)),
                       (10, le_bytes 2 (of_nat (length (xb_acls b)) :: u16))] (zeros (unat BLOCK_SIZE)) in
     rbind (rfor put_pair (xb_xattrs b) (block, XATTR_HEADER_BYTES)) (\<lambda>st.
     rbind (rfor put_acl (xb_acls b) st) (\<lambda>(block, cursor).
     Ok (crc_seal XATTR_CRC_OFFSET block))))"

section \<open>Decoding\<close>

definition get_pair :: "bytes \<Rightarrow> nat \<Rightarrow> (xattr_pair \<times> nat) result" where
  "get_pair block cursor =
    (if XATTR_CRC_OFFSET < cursor + XATTR_HDR then Err (State ''xattr: truncated entry'')
     else
       let n = unat (from_le (cut cursor 2 block) :: u16) in
       if n < XATTR_HDR \<or> n mod 8 \<noteq> 0 \<or> XATTR_CRC_OFFSET < cursor + n then Err (State ''xattr: bad rec_len'')
       else
         let name_len = unat (from_le (cut (cursor + 2) 2 block) :: u16);
             value_len = unat (from_le (cut (cursor + 4) 4 block) :: u32) in
         if n < XATTR_HDR + name_len + value_len then Err (State ''xattr: lengths exceed rec'')
         else
           rbind (cut_res (cursor + XATTR_HDR) name_len block) (\<lambda>raw.
           rbind (opt_or (from_utf8 raw) (State ''xattr: name utf-8: '')) (\<lambda>name.
           rbind (cut_res (cursor + XATTR_HDR + name_len) value_len block) (\<lambda>value.
           Ok (\<lparr>xp_name = name, xp_value = value\<rparr>, n)))))"

definition get_acl :: "bytes \<Rightarrow> nat \<Rightarrow> (acl_record \<times> nat) result" where
  "get_acl block cursor =
    (if XATTR_CRC_OFFSET < cursor + ACL_HDR then Err (State ''acl: truncated entry'')
     else
       let n = unat (from_le (cut cursor 2 block) :: u16) in
       if n < ACL_HDR \<or> n mod 8 \<noteq> 0 \<or> XATTR_CRC_OFFSET < cursor + n then Err (State ''acl: bad rec_len'')
       else
         rbind (nth_res block (cursor + 2)) (\<lambda>tag.
         rbind (principal_from_u8 tag) (\<lambda>principal.
         rbind (nth_res block (cursor + 3)) (\<lambda>permission.
         let subj_len = unat (from_le (cut (cursor + 4) 4 block) :: u32) in
         if n < ACL_HDR + subj_len then Err (State ''acl: subject exceeds rec'')
         else
           rbind (cut_res (cursor + ACL_HDR) subj_len block) (\<lambda>raw.
           rbind (opt_or (from_utf8 raw) (State ''acl: subject utf-8: '')) (\<lambda>subject.
           Ok (\<lparr>ar_principal = principal, ar_subject = subject, ar_permission = permission\<rparr>, n)))))))"

definition xattr_decode :: "bytes \<Rightarrow> xattr_block result" where
  "xattr_decode block =
    (if length block \<noteq> unat BLOCK_SIZE then Err (InvalidInput ''xattr block: wrong length '')
     else if crc_stored XATTR_CRC_OFFSET block \<noteq> crc_expected XATTR_CRC_OFFSET block
     then Err (State ''xattr block CRC mismatch'')
     else if from_le (cut 0 4 block) \<noteq> XATTR_BLOCK_MAGIC then Err (State ''xattr block: bad magic 0x'')
     else
       let flags = from_le (cut 4 4 block);
           xattr_count = unat (from_le (cut 8 2 block) :: u16);
           acl_count = unat (from_le (cut 10 2 block) :: u16) in
       rbind (read_records (get_pair block) xattr_count XATTR_HEADER_BYTES) (\<lambda>(xattrs, cursor).
       rbind (read_records (get_acl block) acl_count cursor) (\<lambda>(acls, _).
       Ok \<lparr>xb_flags = flags, xb_xattrs = xattrs, xb_acls = acls\<rparr>)))"

section \<open>Round trip\<close>

definition pair_size :: "xattr_pair \<Rightarrow> nat" where
  "pair_size p = (15 + length (xp_name p) + length (xp_value p)) div 8 * 8"

definition acl_size :: "acl_record \<Rightarrow> nat" where
  "acl_size a = (15 + length (ar_subject a)) div 8 * 8"

definition valid_pair :: "xattr_pair \<Rightarrow> bool" where
  "valid_pair p \<longleftrightarrow> utf8_valid (xp_name p) \<and> pair_size p \<le> 4000"

definition valid_acl :: "acl_record \<Rightarrow> bool" where
  "valid_acl a \<longleftrightarrow> utf8_valid (ar_subject a) \<and> acl_size a \<le> 512"

text \<open>The bytes a record occupies; the block is zero beyond the cursor, so is the padding.\<close>

definition pair_image :: "xattr_pair \<Rightarrow> bytes" where
  "pair_image p =
     le_bytes 2 (of_nat (pair_size p) :: u16) @ le_bytes 2 (of_nat (length (xp_name p)) :: u16)
     @ le_bytes 4 (of_nat (length (xp_value p)) :: u32) @ xp_name p @ xp_value p
     @ zeros (pair_size p - (8 + length (xp_name p) + length (xp_value p)))"

definition acl_image :: "acl_record \<Rightarrow> bytes" where
  "acl_image a =
     le_bytes 2 (of_nat (acl_size a) :: u16) @ [principal_code (ar_principal a)] @ [ar_permission a]
     @ le_bytes 4 (of_nat (length (ar_subject a)) :: u32) @ ar_subject a
     @ zeros (acl_size a - (8 + length (ar_subject a)))"

definition valid_xattr_block :: "xattr_block \<Rightarrow> bool" where
  "valid_xattr_block b \<longleftrightarrow> list_all valid_pair (xb_xattrs b) \<and> list_all valid_acl (xb_acls b)
     \<and> sum_list (map pair_size (xb_xattrs b)) + sum_list (map acl_size (xb_acls b)) \<le> 4076"

lemma pair_size_bounds: "8 + length (xp_name p) + length (xp_value p) \<le> pair_size p" "pair_size p mod 8 = 0"
  "pair_size p \<le> 15 + length (xp_name p) + length (xp_value p)"
  unfolding pair_size_def by presburger+

lemma acl_size_bounds: "8 + length (ar_subject a) \<le> acl_size a" "acl_size a mod 8 = 0"
  "acl_size a \<le> 15 + length (ar_subject a)"
  unfolding acl_size_def by presburger+

lemma length_pair_image [simp]: "length (pair_image p) = pair_size p"
  using pair_size_bounds(1) [of p] by (simp add: pair_image_def)

lemma length_acl_image [simp]: "length (acl_image a) = acl_size a"
  using acl_size_bounds(1) [of a] by (simp add: acl_image_def)

lemma put_pair_eq:
  assumes "valid_pair p" "c + length (pair_image p) \<le> 4092" "4092 \<le> length blk"
    and "cut c (4092 - c) blk = zeros (4092 - c)"
  shows "put_pair p (blk, c) = Ok (put c (pair_image p) blk, c + length (pair_image p))"
proof -
  let ?n = "length (xp_name p)" and ?v = "length (xp_value p)" and ?s = "pair_size p"
  let ?chunks = "[le_bytes 2 (of_nat ?s :: u16), le_bytes 2 (of_nat ?n :: u16), le_bytes 4 (of_nat ?v :: u32),
      xp_name p, xp_value p]"
  note b = pair_size_bounds [of p]
  have s: "c + ?s \<le> 4092"
    using assms(2) by simp
  have "cut (c + (8 + ?n + ?v)) (?s - (8 + ?n + ?v)) blk
      = cut (8 + ?n + ?v) (?s - (8 + ?n + ?v)) (cut c (4092 - c) blk)"
    using s b(1) by (simp add: cut_cut)
  then have "cut (c + length (concat ?chunks)) (?s - (8 + ?n + ?v)) blk = zeros (?s - (8 + ?n + ?v))"
    using assms(4) s b(1) by (simp add: add.assoc)
  then have img: "put c (pair_image p) blk = put c (concat ?chunks) blk"
    using put_zero_tail [of c "concat ?chunks" "?s - (8 + ?n + ?v)" blk] s b(1) assms(3)
    by (simp add: pair_image_def add.assoc)
  have "puts (place c ?chunks) blk = put c (concat ?chunks) blk"
    using s b(1) assms(3) by (intro puts_place) simp
  moreover have "place c ?chunks = [(c, le_bytes 2 (of_nat ?s :: u16)), (c + 2, le_bytes 2 (of_nat ?n :: u16)),
      (c + 4, le_bytes 4 (of_nat ?v :: u32)), (c + 8, xp_name p), (c + 8 + ?n, xp_value p)]"
    by (simp add: eval_nat_numeral)
  ultimately have "puts [(c, le_bytes 2 (of_nat ?s :: u16)), (c + 2, le_bytes 2 (of_nat ?n :: u16)),
      (c + 4, le_bytes 4 (of_nat ?v :: u32)), (c + 8, xp_name p), (c + 8 + ?n, xp_value p)] blk
      = put c (pair_image p) blk"
    unfolding img by metis
  moreover have "xattr_len p = Ok ?s"
    using assms(1) by (simp add: xattr_len_def valid_pair_def pair_size_def Let_def add.assoc)
  ultimately show ?thesis
    using s by (simp add: put_pair_def Let_def)
qed

lemma put_acl_eq:
  assumes "valid_acl a" "c + length (acl_image a) \<le> 4092" "4092 \<le> length blk"
    and "cut c (4092 - c) blk = zeros (4092 - c)"
  shows "put_acl a (blk, c) = Ok (put c (acl_image a) blk, c + length (acl_image a))"
proof -
  let ?n = "length (ar_subject a)" and ?s = "acl_size a"
  let ?chunks = "[le_bytes 2 (of_nat ?s :: u16), [principal_code (ar_principal a)], [ar_permission a],
      le_bytes 4 (of_nat ?n :: u32), ar_subject a]"
  note b = acl_size_bounds [of a]
  have s: "c + ?s \<le> 4092"
    using assms(2) by simp
  have "cut (c + (8 + ?n)) (?s - (8 + ?n)) blk = cut (8 + ?n) (?s - (8 + ?n)) (cut c (4092 - c) blk)"
    using s b(1) by (simp add: cut_cut)
  then have "cut (c + length (concat ?chunks)) (?s - (8 + ?n)) blk = zeros (?s - (8 + ?n))"
    using assms(4) s b(1) by (simp add: add.assoc)
  then have img: "put c (acl_image a) blk = put c (concat ?chunks) blk"
    using put_zero_tail [of c "concat ?chunks" "?s - (8 + ?n)" blk] s b(1) assms(3)
    by (simp add: acl_image_def add.assoc)
  have "puts (place c ?chunks) blk = put c (concat ?chunks) blk"
    using s b(1) assms(3) by (intro puts_place) simp
  moreover have "place c ?chunks = [(c, le_bytes 2 (of_nat ?s :: u16)), (c + 2, [principal_code (ar_principal a)]),
      (c + 3, [ar_permission a]), (c + 4, le_bytes 4 (of_nat ?n :: u32)), (c + 8, ar_subject a)]"
    by (simp add: eval_nat_numeral)
  ultimately have "puts [(c, le_bytes 2 (of_nat ?s :: u16)), (c + 2, [principal_code (ar_principal a)]),
      (c + 3, [ar_permission a]), (c + 4, le_bytes 4 (of_nat ?n :: u32)), (c + 8, ar_subject a)] blk
      = put c (acl_image a) blk"
    unfolding img by metis
  moreover have "acl_len a = Ok ?s"
    using assms(1) by (simp add: acl_len_def valid_acl_def acl_size_def Let_def)
  ultimately show ?thesis
    using s by (simp add: put_acl_def Let_def)
qed

text \<open>A field of a record that was found at the cursor.\<close>

lemma cut_inside: "cut c (length img) blk = img \<Longrightarrow> off + n \<le> length img \<Longrightarrow> cut (c + off) n blk = cut off n img"
  using cut_cut [of off n "length img" c blk] by simp

lemma get_pair_eq:
  assumes "valid_pair p" "cut c (length (pair_image p)) blk = pair_image p"
    and "c + length (pair_image p) \<le> 4092" "4092 \<le> length blk"
  shows "get_pair blk c = Ok (p, length (pair_image p))"
proof -
  let ?n = "length (xp_name p)" and ?v = "length (xp_value p)" and ?s = "pair_size p"
  note b = pair_size_bounds [of p]
  have v: "utf8_valid (xp_name p)" "?s \<le> 4000"
    using assms(1) by (simp_all add: valid_pair_def)
  have w: "unat (of_nat ?s :: u16) = ?s" "unat (of_nat ?n :: u16) = ?n" "unat (of_nat ?v :: u32) = ?v"
    using b v(2) by (auto intro!: unat_of_nat_ok)
  note at = cut_inside [OF assms(2)]
  have "cut (c + 0) 2 blk = le_bytes 2 (of_nat ?s :: u16)" "cut (c + 2) 2 blk = le_bytes 2 (of_nat ?n :: u16)"
    "cut (c + 4) 4 blk = le_bytes 4 (of_nat ?v :: u32)" "cut (c + 8) ?n blk = xp_name p"
    "cut (c + (8 + ?n)) ?v blk = xp_value p"
    using b by (subst at; simp add: pair_image_def cut_append_skip cut_append_take)+
  then show ?thesis
    using assms(3,4) b v by (simp add: get_pair_def w Let_def cut_res_def from_utf8_def add.assoc)
qed

lemma get_acl_eq:
  assumes "valid_acl a" "cut c (length (acl_image a)) blk = acl_image a"
    and "c + length (acl_image a) \<le> 4092" "4092 \<le> length blk"
  shows "get_acl blk c = Ok (a, length (acl_image a))"
proof -
  let ?n = "length (ar_subject a)" and ?s = "acl_size a"
  note b = acl_size_bounds [of a]
  have v: "utf8_valid (ar_subject a)" "?s \<le> 512"
    using assms(1) by (simp_all add: valid_acl_def)
  have w: "unat (of_nat ?s :: u16) = ?s" "unat (of_nat ?n :: u32) = ?n"
    using b v(2) by (auto intro!: unat_of_nat_ok)
  note at = cut_inside [OF assms(2)]
  have f: "cut (c + 0) 2 blk = le_bytes 2 (of_nat ?s :: u16)" "cut (c + 2) 1 blk = [principal_code (ar_principal a)]"
    "cut (c + 3) 1 blk = [ar_permission a]" "cut (c + 4) 4 blk = le_bytes 4 (of_nat ?n :: u32)"
    "cut (c + 8) ?n blk = ar_subject a"
    using b by (subst at; simp add: acl_image_def cut_append_skip cut_append_take; simp add: cut_def)+
  have "blk ! (c + 2) = principal_code (ar_principal a)" "blk ! (c + 3) = ar_permission a"
    using nth_cut [of "c + 2" 1 blk 0] nth_cut [of "c + 3" 1 blk 0] f(2,3) assms(3,4) b(1) by simp_all
  moreover have "principal_from_u8 (principal_code k) = Ok k" for k
    by (cases k) (simp_all add: principal_from_u8_def)
  ultimately show ?thesis
    using f assms(3,4) b v by (simp add: get_acl_def w Let_def cut_res_def nth_res_def from_utf8_def)
qed

definition xattr_patches :: "xattr_block \<Rightarrow> (nat \<times> bytes) list" where
  "xattr_patches b =
    [(0, le_bytes 4 XATTR_BLOCK_MAGIC), (4, le_bytes 4 (xb_flags b)),
     (8, le_bytes 2 (of_nat (length (xb_xattrs b)) :: u16)),
     (10, le_bytes 2 (of_nat (length (xb_acls b)) :: u16)),
     (16, concat (map pair_image (xb_xattrs b)) @ concat (map acl_image (xb_acls b)))]"

definition xattr_body :: "xattr_block \<Rightarrow> bytes" where
  "xattr_body b = puts (xattr_patches b) (zeros 4096)"

lemma length_pair_images: "length (concat (map pair_image ps)) = sum_list (map pair_size ps)"
  by (simp add: length_concat o_def)

lemma length_acl_images: "length (concat (map acl_image as)) = sum_list (map acl_size as)"
  by (simp add: length_concat o_def)

lemma pair_count: "8 * length ps \<le> sum_list (map pair_size ps)"
proof (induction ps)
  case (Cons p ps)
  then show ?case using pair_size_bounds(1) [of p] by simp
qed simp

lemma acl_count: "8 * length as \<le> sum_list (map acl_size as)"
proof (induction as)
  case (Cons a as)
  then show ?case using acl_size_bounds(1) [of a] by simp
qed simp

lemma xattr_laid: "valid_xattr_block b \<Longrightarrow> laid 0 (xattr_patches b) 4092"
  by (simp add: xattr_patches_def valid_xattr_block_def length_pair_images length_acl_images)

lemma xattr_body_facts:
  assumes "valid_xattr_block b"
  shows "length (xattr_body b) = 4096" and "cut 4092 4 (xattr_body b) = zeros 4"
  using xattr_laid [OF assms] by (simp_all add: xattr_body_def length_puts cut_puts_above)

lemma xattr_encode_eq:
  assumes "valid_xattr_block b"
  shows "xattr_encode b = Ok (crc_seal 4092 (xattr_body b))"
proof -
  let ?h = "puts [(0, le_bytes 4 XATTR_BLOCK_MAGIC), (4, le_bytes 4 (xb_flags b)),
       (8, le_bytes 2 (of_nat (length (xb_xattrs b)) :: u16)),
       (10, le_bytes 2 (of_nat (length (xb_acls b)) :: u16))] (zeros 4096)"
  let ?p = "concat (map pair_image (xb_xattrs b))" and ?a = "concat (map acl_image (xb_acls b))"
  have v: "list_all valid_pair (xb_xattrs b)" "list_all valid_acl (xb_acls b)" "16 + length ?p + length ?a \<le> 4092"
    using assms by (simp_all add: valid_xattr_block_def length_pair_images length_acl_images)
  have z: "cut 16 4076 ?h = zeros 4076"
    by simp
  have 1: "rfor put_pair (xb_xattrs b) (?h, 16) = Ok (put 16 ?p ?h, 16 + length ?p)"
    by (rule write_records_zero [where hi = 4092])
      (use v z in \<open>auto intro!: put_pair_eq [simplified] simp: list_all_iff\<close>)
  have "cut (length ?p) (4076 - length ?p) (cut 16 4076 ?h) = zeros (4076 - length ?p)"
    using v(3) unfolding z by simp
  moreover have "cut (16 + length ?p) k (put 16 ?p ?h) = cut (16 + length ?p) k ?h" for k
    by (rule cut_put_after) (use v(3) in simp_all)
  ultimately have z2: "cut (16 + length ?p) (4092 - (16 + length ?p)) (put 16 ?p ?h) = zeros (4092 - (16 + length ?p))"
    using v(3) by (simp add: cut_cut del: puts.simps)
  have 2: "rfor put_acl (xb_acls b) (put 16 ?p ?h, 16 + length ?p)
     = Ok (put (16 + length ?p) ?a (put 16 ?p ?h), 16 + length ?p + length ?a)"
    by (rule write_records_zero [where hi = 4092, OF _ _ _ z2])
      (use v in \<open>auto intro!: put_acl_eq [simplified] simp: list_all_iff\<close>)
  have "put (16 + length ?p) ?a (put 16 ?p ?h) = xattr_body b"
    using v(3) put_adjacent [of 16 ?p ?a ?h] by (simp add: xattr_body_def xattr_patches_def)
  then show ?thesis
    using 1 2 by (simp add: xattr_encode_def)
qed

lemma xattr_roundtrip:
  assumes "valid_xattr_block b"
  shows "xattr_decode (crc_seal 4092 (xattr_body b)) = Ok b"
proof -
  let ?b = "crc_seal 4092 (xattr_body b)"
  let ?p = "concat (map pair_image (xb_xattrs b))" and ?a = "concat (map acl_image (xb_acls b))"
  note facts = xattr_body_facts [OF assms]
  have v: "list_all valid_pair (xb_xattrs b)" "list_all valid_acl (xb_acls b)" "16 + length ?p + length ?a \<le> 4092"
    using assms by (simp_all add: valid_xattr_block_def length_pair_images length_acl_images)
  have f: "cut off n ?b = src" if "(off, src) \<in> set (xattr_patches b)" "length src = n" "off + n \<le> 4092" for off src n
    using that cut_puts_field [OF xattr_laid [OF assms] _ that(1,2), of "zeros 4096"] facts
    by (simp add: xattr_body_def)
  have fields: "cut 0 4 ?b = le_bytes 4 XATTR_BLOCK_MAGIC" "cut 4 4 ?b = le_bytes 4 (xb_flags b)"
    "cut 8 2 ?b = le_bytes 2 (of_nat (length (xb_xattrs b)) :: u16)"
    "cut 10 2 ?b = le_bytes 2 (of_nat (length (xb_acls b)) :: u16)"
    "cut 16 (length ?p + length ?a) ?b = ?p @ ?a"
    by (rule f; use v(3) in \<open>simp add: xattr_patches_def\<close>)+
  have "cut 0 (length ?p) (cut 16 (length ?p + length ?a) ?b) = ?p"
    "cut (length ?p) (length ?a) (cut 16 (length ?p + length ?a) ?b) = ?a"
    unfolding fields(5) by (simp_all add: cut_append_take cut_append_skip)
  then have images: "cut 16 (length ?p) ?b = ?p" "cut (16 + length ?p) (length ?a) ?b = ?a"
    by (simp_all add: cut_cut)
  have n: "unat (of_nat (length (xb_xattrs b)) :: u16) = length (xb_xattrs b)"
      "unat (of_nat (length (xb_acls b)) :: u16) = length (xb_acls b)"
    using pair_count [of "xb_xattrs b"] acl_count [of "xb_acls b"] v(3)
    by (auto intro!: unat_of_nat_ok simp: length_pair_images length_acl_images)
  have "read_records (get_pair ?b) (length (xb_xattrs b)) 16 = Ok (xb_xattrs b, 16 + length ?p)"
    by (rule read_records_concat [where hi = 4092 and blk = ?b])
      (use v facts images in \<open>auto intro!: get_pair_eq [simplified] simp: list_all_iff\<close>)
  moreover have "read_records (get_acl ?b) (length (xb_acls b)) (16 + length ?p)
      = Ok (xb_acls b, 16 + length ?p + length ?a)"
    by (rule read_records_concat [where hi = 4092 and blk = ?b])
      (use v facts images in \<open>auto intro!: get_acl_eq [simplified] simp: list_all_iff\<close>)
  ultimately show ?thesis
    by (simp add: xattr_decode_def facts fields(1-4) n)
qed

interpretation xattr: sealed_codec xattr_encode xattr_decode valid_xattr_block 4096 4092
proof unfold_locales
  fix x :: xattr_block and b
  assume v: "valid_xattr_block x"
  show "\<exists>b. xattr_encode x = Ok b \<and> length b = 4096 \<and> crc_stored 4092 b = crc_expected 4092 b"
    using v by (simp add: xattr_encode_eq xattr_body_facts)
  show "xattr_encode x = Ok b \<Longrightarrow> xattr_decode b = Ok x"
    using v by (auto simp: xattr_encode_eq xattr_roundtrip)
next
  fix b :: bytes and x
  show "xattr_decode b = Ok x \<Longrightarrow> length b = 4096 \<and> crc_stored 4092 b = crc_expected 4092 b"
    by (auto simp: xattr_decode_def split: if_splits)
qed simp

section \<open>Arbitrary input\<close>

lemma get_pair_no_panic: "4092 \<le> length blk \<Longrightarrow> get_pair blk c \<noteq> Panic"
  by (auto simp: get_pair_def Let_def cut_res_def from_utf8_def)

lemma get_acl_no_panic: "4092 \<le> length blk \<Longrightarrow> get_acl blk c \<noteq> Panic"
  by (auto simp: get_acl_def Let_def cut_res_def nth_res_def from_utf8_def principal_from_u8_def)

lemma xattr_decode_no_panic: "xattr_decode blk \<noteq> Panic"
proof (cases "length blk = 4096")
  case True
  then have "read_records (get_pair blk) n c \<noteq> Panic" "read_records (get_acl blk) n c \<noteq> Panic" for n c
    by (auto intro!: read_records_no_panic get_pair_no_panic get_acl_no_panic)
  then show ?thesis
    by (auto simp: xattr_decode_def Let_def rbind_Panic_iff)
next
  case False
  then show ?thesis by (simp add: xattr_decode_def)
qed

section \<open>Properties\<close>

text \<open>
  An xattr block whose names and subjects are valid UTF-8, whose entries respect the
  per-entry limits and which fits the block is decoded to the same pairs and ACL records.
\<close>

theorem xattr_block_roundtrip:
  assumes "valid_xattr_block b"
  shows "\<exists>blk. xattr_encode b = Ok blk \<and> length blk = 4096 \<and> xattr_decode blk = Ok b"
  using assms by (rule xattr.roundtrip)

theorem xattr_block_roundtrip_witness:
  "\<exists>blk. xattr_encode \<lparr>xb_flags = 0, xb_xattrs = [\<lparr>xp_name = [0x75], xp_value = [1, 2, 3]\<rparr>],
       xb_acls = [\<lparr>ar_principal = PrincipalGroup, ar_subject = [0x67], ar_permission = 5\<rparr>]\<rparr> = Ok blk"
  using xattr_block_roundtrip [of "\<lparr>xb_flags = 0, xb_xattrs = [\<lparr>xp_name = [0x75], xp_value = [1, 2, 3]\<rparr>],
       xb_acls = [\<lparr>ar_principal = PrincipalGroup, ar_subject = [0x67], ar_permission = 5\<rparr>]\<rparr>"]
  by (auto simp: valid_xattr_block_def valid_pair_def valid_acl_def pair_size_def acl_size_def utf8_ascii)

end
