(* ===== verification/Block_Group.thy ===== *)
theory Block_Group
  imports Codec Layout "HOL-Library.Multiset"
begin

text \<open>
  Block-group descriptors, \<open>corefs-core/src/storage/ondisk/block_group.rs\<close>: the table with its
  overlap check, its sealed block and the two searches.
\<close>

text \<open>\<open>u32::from_le_bytes(*b"BGRP")\<close>.\<close>

definition BLOCK_GROUP_TABLE_MAGIC :: u32 where "BLOCK_GROUP_TABLE_MAGIC = from_le [0x42, 0x47, 0x52, 0x50]"
definition DESCRIPTOR_BYTES :: nat where "DESCRIPTOR_BYTES = 48"
definition MAX_GROUPS_PER_TABLE :: nat where
  "MAX_GROUPS_PER_TABLE = (unat BLOCK_SIZE - 20) div DESCRIPTOR_BYTES"
definition BG_HEADER_BYTES :: nat where "BG_HEADER_BYTES = 16"
definition BG_CRC_OFFSET :: nat where "BG_CRC_OFFSET = unat BLOCK_SIZE - 4"

lemma bg_sizes [simp]:
  "DESCRIPTOR_BYTES = 48" "MAX_GROUPS_PER_TABLE = 84" "BG_HEADER_BYTES = 16" "BG_CRC_OFFSET = 4092"
  by (simp_all add: DESCRIPTOR_BYTES_def MAX_GROUPS_PER_TABLE_def BG_HEADER_BYTES_def BG_CRC_OFFSET_def)

record block_group_descriptor =
  bg_data_start :: u64
  bg_data_blocks :: u64
  bg_bitmap_block :: u64
  bg_inode_range_start :: u64
  bg_inode_range_count :: u64
  bg_free_blocks :: u32
  bg_bitmap_crc :: u32

definition bgd_write_to :: "block_group_descriptor \<Rightarrow> bytes" where
  "bgd_write_to g =
     le_bytes 8 (bg_data_start g) @ le_bytes 8 (bg_data_blocks g) @ le_bytes 8 (bg_bitmap_block g)
     @ le_bytes 8 (bg_inode_range_start g) @ le_bytes 8 (bg_inode_range_count g)
     @ le_bytes 4 (bg_free_blocks g) @ le_bytes 4 (bg_bitmap_crc g)"

definition bgd_read_from :: "bytes \<Rightarrow> block_group_descriptor" where
  "bgd_read_from buf =
     \<lparr>bg_data_start = from_le (cut 0 8 buf), bg_data_blocks = from_le (cut 8 8 buf),
      bg_bitmap_block = from_le (cut 16 8 buf), bg_inode_range_start = from_le (cut 24 8 buf),
      bg_inode_range_count = from_le (cut 32 8 buf), bg_free_blocks = from_le (cut 40 4 buf),
      bg_bitmap_crc = from_le (cut 44 4 buf)\<rparr>"

record block_group_table =
  bt_groups :: "block_group_descriptor list"

text \<open>The loop over \<open>sorted.windows(2)\<close>.\<close>

fun check_windows :: "block_group_descriptor list \<Rightarrow> unit result" where
  "check_windows (g # h # gs) =
     rbind (uadd (bg_data_start g) (bg_data_blocks g)) (\<lambda>prev_end.
     if prev_end > bg_data_start h then Err (InvalidInput ''block group table: overlapping groups at '')
     else check_windows (h # gs))"
| "check_windows gs = Ok ()"

definition bgt_new :: "block_group_descriptor list \<Rightarrow> block_group_table result" where
  "bgt_new groups =
    (if MAX_GROUPS_PER_TABLE < length groups then Err (InvalidInput ''block group table: '')
     else
       let sorted = sort_key bg_data_start groups in
       rbind (check_windows sorted) (\<lambda>_. Ok \<lparr>bt_groups = groups\<rparr>))"

definition bgt_encode :: "block_group_table \<Rightarrow> bytes result" where
  "bgt_encode t =
    (let block = puts [(0, le_bytes 4 BLOCK_GROUP_TABLE_MAGIC),
                       (4, le_bytes 4 (of_nat (length (bt_groups t)) :: u32))] (zeros (unat BLOCK_SIZE)) in
     if length block < BG_HEADER_BYTES + DESCRIPTOR_BYTES * length (bt_groups t) then Panic
     else Ok (crc_seal BG_CRC_OFFSET (put_seq bgd_write_to DESCRIPTOR_BYTES BG_HEADER_BYTES (bt_groups t) block)))"

definition bgt_decode :: "bytes \<Rightarrow> block_group_table result" where
  "bgt_decode block =
    (if length block \<noteq> unat BLOCK_SIZE then Err (InvalidInput ''block group table: wrong length '')
     else if crc_stored BG_CRC_OFFSET block \<noteq> crc_expected BG_CRC_OFFSET block
     then Err (State ''block group table: CRC mismatch'')
     else if from_le (cut 0 4 block) \<noteq> BLOCK_GROUP_TABLE_MAGIC
     then Err (State ''block group table: bad magic 0x'')
     else
       let count = unat (from_le (cut 4 4 block) :: u32) in
       if MAX_GROUPS_PER_TABLE < count then Err (State ''block group table: claims '')
       else bgt_new (get_seq bgd_read_from DESCRIPTOR_BYTES BG_HEADER_BYTES count block))"

text \<open>\<open>iter().position(...)\<close> with a predicate that may overflow.\<close>

fun position :: "('a \<Rightarrow> bool result) \<Rightarrow> 'a list \<Rightarrow> nat option result" where
  "position p [] = Ok None"
| "position p (x # xs) =
     rbind (p x) (\<lambda>hit. if hit then Ok (Some 0) else map_result (map_option Suc) (position p xs))"

definition group_for_inode :: "block_group_table \<Rightarrow> u64 \<Rightarrow> nat option result" where
  "group_for_inode t inode_slot =
     position (\<lambda>g. if inode_slot \<ge> bg_inode_range_start g
                   then rbind (uadd (bg_inode_range_start g) (bg_inode_range_count g)) (\<lambda>e. Ok (inode_slot < e))
                   else Ok False) (bt_groups t)"

definition group_for_block :: "block_group_table \<Rightarrow> u64 \<Rightarrow> nat option result" where
  "group_for_block t data_block =
     position (\<lambda>g. if data_block \<ge> bg_data_start g
                   then rbind (uadd (bg_data_start g) (bg_data_blocks g)) (\<lambda>e. Ok (data_block < e))
                   else Ok False) (bt_groups t)"

section \<open>Accepted tables have disjoint groups\<close>

definition group_end :: "block_group_descriptor \<Rightarrow> nat" where
  "group_end g = unat (bg_data_start g) + unat (bg_data_blocks g)"

definition before :: "block_group_descriptor \<Rightarrow> block_group_descriptor \<Rightarrow> bool" where
  "before g h \<longleftrightarrow> group_end g \<le> unat (bg_data_start h)"

definition disjoint_groups :: "block_group_descriptor \<Rightarrow> block_group_descriptor \<Rightarrow> bool" where
  "disjoint_groups g h \<longleftrightarrow> before g h \<or> before h g"

lemma before_trans: "before g h \<Longrightarrow> before h k \<Longrightarrow> before g k"
  by (simp add: before_def group_end_def)

lemma check_windows_sorted: "check_windows gs = Ok () \<Longrightarrow> sorted_wrt before gs"
proof (induction gs rule: check_windows.induct)
  case (1 g h gs)
  then have "sorted_wrt before (h # gs)"
    by (auto simp: result_iff split: if_splits)
  moreover have "before g h"
    using "1.prems" by (auto simp: result_iff before_def group_end_def word_less_nat_alt unat_add_ok split: if_splits)
  ultimately show ?case
    by (auto intro: before_trans)
qed simp_all

lemma check_windows_complete:
  "sorted_wrt before gs \<Longrightarrow> \<forall>g \<in> set gs. group_end g < 2 ^ 64 \<Longrightarrow> check_windows gs = Ok ()"
proof (induction gs rule: check_windows.induct)
  case (1 g h gs)
  have "uadd (bg_data_start g) (bg_data_blocks g) = Ok (bg_data_start g + bg_data_blocks g)"
    using "1.prems"(2) by (simp add: uadd_def group_end_def)
  moreover have "\<not> bg_data_start h < bg_data_start g + bg_data_blocks g"
    using "1.prems" by (simp add: before_def group_end_def word_less_nat_alt unat_add_ok)
  moreover from this have "check_windows (h # gs) = Ok ()"
    using "1.prems" calculation(1) by (intro "1.IH") auto
  ultimately show ?case
    by simp
qed simp_all

lemma sorted_wrt_mset:
  assumes "\<And>x y. P x y \<Longrightarrow> P y x" "mset xs = mset ys" "sorted_wrt P xs"
  shows "sorted_wrt P ys"
  using assms(2,3)
proof (induction xs arbitrary: ys)
  case (Cons x xs)
  then obtain as bs where ys: "ys = as @ x # bs"
    by (metis list.set_intros(1) set_mset_mset split_list)
  then have m: "mset xs = mset (as @ bs)"
    using Cons.prems(1) by simp
  then have "sorted_wrt P (as @ bs)"
    using Cons by simp
  moreover have "set xs = set (as @ bs)"
    using m by (metis set_mset_mset)
  then have "P x y" if "y \<in> set as \<union> set bs" for y
    using Cons.prems(2) that by auto
  ultimately show ?case
    unfolding ys by (auto simp: sorted_wrt_append intro: assms(1))
qed simp

lemma bgt_new_disjoint:
  assumes "bgt_new groups = Ok t"
  shows "t = \<lparr>bt_groups = groups\<rparr>" "length groups \<le> 84" "sorted_wrt disjoint_groups groups"
proof -
  have "check_windows (sort_key bg_data_start groups) = Ok ()"
    using assms by (auto simp: bgt_new_def result_iff split: if_splits)
  then have "sorted_wrt disjoint_groups (sort_key bg_data_start groups)"
    by (auto dest!: check_windows_sorted intro: sorted_wrt_mono_rel simp: disjoint_groups_def)
  then show "sorted_wrt disjoint_groups groups"
    by (rule sorted_wrt_mset [rotated 2]) (auto simp: disjoint_groups_def)
  show "t = \<lparr>bt_groups = groups\<rparr>" "length groups \<le> 84"
    using assms by (auto simp: bgt_new_def result_iff split: if_splits)
qed

section \<open>Searches\<close>

lemma position_Some:
  "position p xs = Ok (Some i) \<Longrightarrow> i < length xs \<and> p (xs ! i) = Ok True \<and> (\<forall>j < i. p (xs ! j) = Ok False)"
proof (induction xs arbitrary: i)
  case (Cons x xs)
  then obtain hit where h: "p x = Ok hit"
    by (auto simp: result_iff)
  show ?case
  proof (cases hit)
    case False
    then obtain k where "i = Suc k" "position p xs = Ok (Some k)"
      using Cons.prems h by (auto simp: result_iff)
    then show ?thesis
      using Cons.IH h False by (auto simp: less_Suc_eq_0_disj)
  qed (use Cons h in auto)
qed simp

lemma position_total:
  assumes "\<And>x. x \<in> set xs \<Longrightarrow> p x = Ok (q x)"
  shows "position p xs = Ok (if \<exists>x \<in> set xs. q x then Some (LEAST i. i < length xs \<and> q (xs ! i)) else None)"
  using assms
proof (induction xs)
  case (Cons x xs)
  show ?case
  proof (cases "q x")
    case True
    then show ?thesis
      using Cons.prems by (simp add: Least_eq_0)
  next
    case False
    have "(LEAST i. i < length (x # xs) \<and> q ((x # xs) ! i)) = Suc (LEAST i. i < length xs \<and> q (xs ! i))"
      if ex: "\<exists>y \<in> set xs. q y"
    proof -
      obtain k where "k < length xs" "q (xs ! k)"
        using ex by (auto simp: in_set_conv_nth)
      then show ?thesis
        using Least_Suc [of "\<lambda>i. i < length (x # xs) \<and> q ((x # xs) ! i)" "Suc k"] False by simp
    qed
    then show ?thesis
      using Cons False by (auto simp: Cons.IH)
  qed
qed simp

definition owns :: "block_group_descriptor \<Rightarrow> nat \<Rightarrow> bool" where
  "owns g b \<longleftrightarrow> unat (bg_data_start g) \<le> b \<and> b < group_end g"

lemma owner_unique:
  assumes "sorted_wrt disjoint_groups gs" "i < length gs" "j < length gs" "owns (gs ! i) b" "owns (gs ! j) b"
  shows "i = j"
proof (rule ccontr)
  assume "i \<noteq> j"
  have "disjoint_groups (gs ! min i j) (gs ! max i j)"
    using assms(1-3) \<open>i \<noteq> j\<close> by (auto simp: sorted_wrt_iff_nth_less min_def max_def)
  then show False
    using assms(4,5) by (auto simp: disjoint_groups_def before_def owns_def min_def max_def split: if_splits)
qed

lemma group_for_block_owner:
  assumes "sorted_wrt disjoint_groups (bt_groups t)" "\<forall>g \<in> set (bt_groups t). group_end g < 2 ^ 64"
  shows "\<exists>r. group_for_block t b = Ok r \<and>
    (\<forall>i. r = Some i \<longleftrightarrow> i < length (bt_groups t) \<and> owns (bt_groups t ! i) (unat b))"
proof -
  let ?q = "\<lambda>g. owns g (unat b)"
  have pred: "(if b \<ge> bg_data_start g then rbind (uadd (bg_data_start g) (bg_data_blocks g)) (\<lambda>e. Ok (b < e))
      else Ok False) = Ok (?q g)" if "g \<in> set (bt_groups t)" for g
    using that assms(2) by (auto simp: uadd_def group_end_def owns_def word_le_nat_alt word_less_nat_alt unat_add_ok)
  let ?r = "if \<exists>g \<in> set (bt_groups t). ?q g
      then Some (LEAST i. i < length (bt_groups t) \<and> ?q (bt_groups t ! i)) else None"
  have "group_for_block t b = Ok ?r"
    unfolding group_for_block_def by (rule position_total [OF pred])
  then obtain r where r: "group_for_block t b = Ok r" "r = None \<longleftrightarrow> \<not> (\<exists>g \<in> set (bt_groups t). ?q g)"
    by simp
  have "i < length (bt_groups t) \<and> ?q (bt_groups t ! i)" if "r = Some i" for i
    using position_Some [OF r(1) [unfolded group_for_block_def that]] pred [of "bt_groups t ! i"] by auto
  moreover have "r = Some i" if "i < length (bt_groups t)" "?q (bt_groups t ! i)" for i
  proof -
    have "r \<noteq> None"
      using r(2) that by (metis nth_mem)
    then obtain j where "r = Some j" by blast
    with calculation [OF this] show ?thesis
      using owner_unique [OF assms(1) that(1), of j "unat b"] that by auto
  qed
  ultimately show ?thesis
    using r(1) by blast
qed

section \<open>Round trip\<close>

lemma length_bgd [simp]: "length (bgd_write_to g) = 48"
  by (simp add: bgd_write_to_def)

lemma bgd_roundtrip [simp]: "bgd_read_from (bgd_write_to g) = g"
  by (simp add: bgd_read_from_def bgd_write_to_def cut_append_skip cut_append_take) (simp add: cut_def)

text \<open>The tables \<open>bgt_new\<close> accepts.\<close>

definition valid_table :: "block_group_table \<Rightarrow> bool" where
  "valid_table t \<longleftrightarrow> bgt_new (bt_groups t) = Ok t"

definition bgt_patches :: "block_group_table \<Rightarrow> (nat \<times> bytes) list" where
  "bgt_patches t =
    [(0, le_bytes 4 BLOCK_GROUP_TABLE_MAGIC), (4, le_bytes 4 (of_nat (length (bt_groups t)) :: u32)),
     (16, concat (map bgd_write_to (bt_groups t)))]"

lemma length_bgds: "length (concat (map bgd_write_to gs)) = 48 * length gs"
  by (rule length_concat_map) simp

lemma bgt_laid: "length (bt_groups t) \<le> 84 \<Longrightarrow> laid 0 (bgt_patches t) 4092"
  by (simp add: bgt_patches_def length_bgds)

lemma bgt_encode_eq:
  "length (bt_groups t) \<le> 84 \<Longrightarrow> bgt_encode t = Ok (crc_seal 4092 (puts (bgt_patches t) (zeros 4096)))"
  by (simp add: bgt_encode_def bgt_patches_def put_seq_concat)

lemma bgt_body:
  assumes "length (bt_groups t) \<le> 84"
  shows "length (puts (bgt_patches t) (zeros 4096)) = 4096"
    and "cut 4092 4 (puts (bgt_patches t) (zeros 4096)) = zeros 4"
  using bgt_laid [OF assms] by (simp_all add: length_puts cut_puts_above)

lemma bgt_roundtrip:
  assumes "valid_table t"
  shows "bgt_decode (crc_seal 4092 (puts (bgt_patches t) (zeros 4096))) = Ok t"
proof -
  let ?b = "crc_seal 4092 (puts (bgt_patches t) (zeros 4096))"
  have l: "length (bt_groups t) \<le> 84"
    using assms bgt_new_disjoint(2) by (auto simp: valid_table_def)
  note body = bgt_body [OF l]
  have f: "cut off n ?b = src" if "(off, src) \<in> set (bgt_patches t)" "length src = n" "off + n \<le> 4092" for off src n
    using that cut_puts_field [OF bgt_laid [OF l] _ that(1,2), of "zeros 4096"] body by simp
  have fields: "cut 0 4 ?b = le_bytes 4 BLOCK_GROUP_TABLE_MAGIC"
    "cut 4 4 ?b = le_bytes 4 (of_nat (length (bt_groups t)) :: u32)"
    "cut 16 (48 * length (bt_groups t)) ?b = concat (map bgd_write_to (bt_groups t))"
    by (rule f; use l in \<open>simp add: bgt_patches_def length_bgds\<close>)+
  have "unat (of_nat (length (bt_groups t)) :: u32) = length (bt_groups t)"
    using l by (intro unat_of_nat_ok) simp
  moreover have "get_seq bgd_read_from 48 16 (length (bt_groups t)) ?b = bt_groups t"
    using fields(3) by (intro get_seq_of_cut [of bgd_write_to]) simp_all
  ultimately show ?thesis
    using l assms by (simp add: bgt_decode_def body fields(1,2) valid_table_def)
qed

interpretation bgt: sealed_codec bgt_encode bgt_decode valid_table 4096 4092
proof unfold_locales
  fix x :: block_group_table and b
  assume v: "valid_table x"
  then have l: "length (bt_groups x) \<le> 84"
    using bgt_new_disjoint(2) by (auto simp: valid_table_def)
  show "\<exists>b. bgt_encode x = Ok b \<and> length b = 4096 \<and> crc_stored 4092 b = crc_expected 4092 b"
    using l by (simp add: bgt_encode_eq bgt_body)
  show "bgt_encode x = Ok b \<Longrightarrow> bgt_decode b = Ok x"
    using v l by (auto simp: bgt_encode_eq bgt_roundtrip)
next
  fix b :: bytes and x
  show "bgt_decode b = Ok x \<Longrightarrow> length b = 4096 \<and> crc_stored 4092 b = crc_expected 4092 b"
    by (auto simp: bgt_decode_def split: if_splits)
qed simp

text \<open>
  A table whose first group ends beyond the 64-bit range makes the overlap check overflow
  instead of rejecting the table.
\<close>

lemma bgt_new_overflow:
  fixes g h :: block_group_descriptor
  assumes "2 ^ 64 \<le> group_end g" "bg_data_start g < bg_data_start h"
  shows "bgt_new [g, h] = Panic"
  using assms by (simp add: bgt_new_def uadd_def group_end_def less_imp_le)

section \<open>Properties\<close>

text \<open>
  In an accepted table whose groups end within the 64-bit range every block belongs to
  at most one group, and \<open>group_for_block\<close> finds exactly that group.
\<close>

theorem group_for_block_finds_owner:
  assumes "bgt_new gs = Ok t" "\<forall>g \<in> set gs. unat (bg_data_start g) + unat (bg_data_blocks g) < 2 ^ 64"
  shows "\<exists>r. group_for_block t b = Ok r \<and>
    (\<forall>i. r = Some i \<longleftrightarrow> i < length gs \<and> unat (bg_data_start (gs ! i)) \<le> unat b
       \<and> unat b < unat (bg_data_start (gs ! i)) + unat (bg_data_blocks (gs ! i)))"
  using group_for_block_owner [of t b] bgt_new_disjoint [OF assms(1)] assms(2)
  by (simp add: owns_def group_end_def)

theorem group_for_block_finds_owner_witness:
  "\<exists>t r. bgt_new [\<lparr>bg_data_start = 10, bg_data_blocks = 5, bg_bitmap_block = 0, bg_inode_range_start = 0,
        bg_inode_range_count = 0, bg_free_blocks = 5, bg_bitmap_crc = 0\<rparr>] = Ok t \<and> group_for_block t 12 = Ok r"
proof -
  let ?g = "\<lparr>bg_data_start = 10, bg_data_blocks = 5, bg_bitmap_block = 0, bg_inode_range_start = 0,
        bg_inode_range_count = 0, bg_free_blocks = 5, bg_bitmap_crc = 0\<rparr>"
  have "bgt_new [?g] = Ok \<lparr>bt_groups = [?g]\<rparr>"
    by (simp add: bgt_new_def)
  from group_for_block_finds_owner [OF this, of 12] this show ?thesis
    by auto
qed

text \<open>
  The overlap check of a table whose first group ends beyond the 64-bit range overflows:
  the checked build panics on such a table instead of rejecting it.
\<close>

theorem overlap_check_overflow:
  "bgt_new [\<lparr>bg_data_start = - 2, bg_data_blocks = 4, bg_bitmap_block = 0, bg_inode_range_start = 0,
        bg_inode_range_count = 0, bg_free_blocks = 0, bg_bitmap_crc = 0\<rparr>,
      \<lparr>bg_data_start = - 1, bg_data_blocks = 1, bg_bitmap_block = 0, bg_inode_range_start = 0,
        bg_inode_range_count = 0, bg_free_blocks = 0, bg_bitmap_crc = 0\<rparr>] = Panic"
  by (rule bgt_new_overflow) (simp_all add: group_end_def)

end
