(* ===== verification/Block_Device.thy ===== *)
theory Block_Device
  imports Layout
begin

text \<open>
  The \<open>BlockDevice\<close> trait and the in-memory device, \<open>corefs-core/src/storage/block_device.rs\<close>.
  A trait object is a record of operations on the device's own state.  The locale
  \<open>block_device\<close> is the part of the trait's contract the on-disk layer relies on: it only
  issues accesses aligned to 4096 bytes.
\<close>

definition SECTOR_SIZE_512 :: u32 where "SECTOR_SIZE_512 = 512"
definition SECTOR_SIZE_4K :: u32 where "SECTOR_SIZE_4K = 4096"

record device_geometry =
  dg_sector_size :: u32
  dg_sector_count :: u64
  dg_capacity_bytes :: u64
  dg_read_only :: bool

record 'd device_ops =
  op_geometry :: "'d \<Rightarrow> device_geometry"
  op_read_at :: "'d \<Rightarrow> u64 \<Rightarrow> u64 \<Rightarrow> bytes result"
  op_write_at :: "u64 \<Rightarrow> bytes \<Rightarrow> ('d, unit) cmd"
  op_sync :: "('d, unit) cmd"
  op_trim :: "u64 \<Rightarrow> u64 \<Rightarrow> ('d, unit) cmd"
  op_supports_trim :: "'d \<Rightarrow> bool"
  op_resize :: "u64 \<Rightarrow> ('d, unit) cmd"

text \<open>The default methods of the trait.\<close>

definition dev_capacity :: "'d device_ops \<Rightarrow> 'd \<Rightarrow> u64" where
  "dev_capacity ops d = dg_capacity_bytes (op_geometry ops d)"

definition dev_sector_size :: "'d device_ops \<Rightarrow> 'd \<Rightarrow> u32" where
  "dev_sector_size ops d = dg_sector_size (op_geometry ops d)"

definition dev_is_read_only :: "'d device_ops \<Rightarrow> 'd \<Rightarrow> bool" where
  "dev_is_read_only ops d = dg_read_only (op_geometry ops d)"

definition default_resize :: "u64 \<Rightarrow> ('d, unit) cmd" where
  "default_resize new_capacity = cfail (InvalidInput ''BlockDevice::resize is not supported by this device'')"

section \<open>Checks\<close>

definition check_alignment :: "u64 \<Rightarrow> u64 \<Rightarrow> u32 \<Rightarrow> unit result" where
  "check_alignment offset len sector_size =
    (let ss = ucast sector_size in
     rbind (urem offset ss) (\<lambda>r.
     if r \<noteq> 0 then Err (InvalidInput ''offset '')
     else rbind (urem len ss) (\<lambda>r. if r \<noteq> 0 then Err (InvalidInput ''length '') else Ok ())))"

definition check_bounds :: "u64 \<Rightarrow> u64 \<Rightarrow> u64 \<Rightarrow> unit result" where
  "check_bounds offset len capacity =
     rbind (opt_or (checked_add offset len) (InvalidInput ''offset '')) (\<lambda>e.
     if e > capacity then Err (InvalidInput ''access past end of device: offset '') else Ok ())"

definition check_write_permission :: "bool \<Rightarrow> unit result" where
  "check_write_permission read_only =
    (if read_only then Err (PolicyViolation ''device is read-only'') else Ok ())"

lemma check_bounds_Ok_iff [result_iff]:
  "check_bounds offset len capacity = Ok () \<longleftrightarrow> unat offset + unat len \<le> unat capacity"
  using unat_u64_lt [of capacity]
  by (auto simp: check_bounds_def checked_add_def word_less_nat_alt unat_add_ok)

lemma check_bounds_no_panic: "check_bounds offset len capacity \<noteq> Panic"
  by (simp add: check_bounds_def checked_add_def)

lemma check_alignment_Ok_iff [result_iff]:
  "check_alignment offset len s = Ok () \<longleftrightarrow> 0 < unat s \<and> unat s dvd unat offset \<and> unat s dvd unat len"
proof -
  have z: "(ucast s :: u64) = 0 \<longleftrightarrow> unat s = 0"
    by (simp only: word_unat_eq_iff unat_ucast_u32 unat_0)
  have m: "(w :: u64) mod ucast s = 0 \<longleftrightarrow> unat s dvd unat w" for w
    by (simp only: word_unat_eq_iff unat_mod unat_ucast_u32 unat_0 dvd_eq_mod_eq_0)
  show ?thesis
    by (auto simp: check_alignment_def urem_def Let_def z m)
qed

lemma check_alignment_no_panic: "0 < unat s \<Longrightarrow> check_alignment offset len s \<noteq> Panic"
  using unat_ucast_u32 [of s] by (auto simp: check_alignment_def urem_def Let_def)

section \<open>The in-memory device\<close>

record memory_device =
  md_data :: bytes
  md_geometry :: device_geometry
  md_trim_supported :: bool
  md_trimmed_ranges :: "(u64 \<times> u64) list"

definition mem_new :: "u64 \<Rightarrow> u32 \<Rightarrow> memory_device result" where
  "mem_new capacity_bytes sector_size =
    (if capacity_bytes = 0 then Err (InvalidInput ''capacity must be greater than zero'')
     else if sector_size = 0 \<or> sector_size AND (sector_size - 1) \<noteq> 0
     then Err (InvalidInput ''sector size '')
     else
       rbind (urem capacity_bytes (ucast sector_size)) (\<lambda>r.
       if r \<noteq> 0 then Err (InvalidInput ''capacity '')
       else
         Ok \<lparr>md_data = zeros (unat capacity_bytes),
             md_geometry = \<lparr>dg_sector_size = sector_size,
                            dg_sector_count = capacity_bytes div ucast sector_size,
                            dg_capacity_bytes = capacity_bytes, dg_read_only = False\<rparr>,
             md_trim_supported = True, md_trimmed_ranges = []\<rparr>))"

definition mem_from_bytes :: "bytes \<Rightarrow> u32 \<Rightarrow> memory_device result" where
  "mem_from_bytes dat sector_size =
    (let capacity_bytes = of_nat (length dat) in
     if capacity_bytes = 0 then Err (InvalidInput ''capacity must be greater than zero'')
     else
       rbind (urem capacity_bytes (ucast sector_size)) (\<lambda>r.
       if r \<noteq> 0 then Err (InvalidInput ''data length '')
       else
         Ok \<lparr>md_data = dat,
             md_geometry = \<lparr>dg_sector_size = sector_size,
                            dg_sector_count = capacity_bytes div ucast sector_size,
                            dg_capacity_bytes = capacity_bytes, dg_read_only = False\<rparr>,
             md_trim_supported = True, md_trimmed_ranges = []\<rparr>))"

definition mem_set_trim_supported :: "bool \<Rightarrow> memory_device \<Rightarrow> memory_device" where
  "mem_set_trim_supported supported d = d\<lparr>md_trim_supported := supported\<rparr>"

definition mem_set_read_only :: "bool \<Rightarrow> memory_device \<Rightarrow> memory_device" where
  "mem_set_read_only read_only d = d\<lparr>md_geometry := (md_geometry d)\<lparr>dg_read_only := read_only\<rparr>\<rparr>"

definition mem_clear_trimmed_ranges :: "memory_device \<Rightarrow> memory_device" where
  "mem_clear_trimmed_ranges d = d\<lparr>md_trimmed_ranges := []\<rparr>"

text \<open>\<open>Vec::resize(n, 0)\<close>.\<close>

definition vec_resize :: "nat \<Rightarrow> bytes \<Rightarrow> bytes" where
  "vec_resize n xs = take n xs @ zeros (n - length xs)"

definition mem_resize :: "u64 \<Rightarrow> (memory_device, unit) cmd" where
  "mem_resize new_capacity d =
    (let ss = ucast (dg_sector_size (md_geometry d)) in
     case urem new_capacity ss of
       Ok r \<Rightarrow>
         (if r \<noteq> 0 then (Err (InvalidInput ''new capacity ''), d)
          else (Ok (), d\<lparr>md_data := vec_resize (unat new_capacity) (md_data d),
                         md_geometry := (md_geometry d)\<lparr>dg_capacity_bytes := new_capacity,
                                                        dg_sector_count := new_capacity div ss\<rparr>\<rparr>))
     | Err e \<Rightarrow> (Err e, d)
     | Panic \<Rightarrow> (Panic, d))"

definition mem_read_at :: "memory_device \<Rightarrow> u64 \<Rightarrow> u64 \<Rightarrow> bytes result" where
  "mem_read_at d offset len =
     rbind (check_alignment offset len (dg_sector_size (md_geometry d))) (\<lambda>_.
     rbind (check_bounds offset len (dg_capacity_bytes (md_geometry d))) (\<lambda>_.
     if len = 0 then Ok [] else cut_res (unat offset) (unat len) (md_data d)))"

definition mem_write_at :: "u64 \<Rightarrow> bytes \<Rightarrow> (memory_device, unit) cmd" where
  "mem_write_at offset dat =
     cthen (cread (\<lambda>d. check_write_permission (dg_read_only (md_geometry d))))
    (cthen (cread (\<lambda>d. check_alignment offset (of_nat (length dat)) (dg_sector_size (md_geometry d))))
    (cthen (cread (\<lambda>d. check_bounds offset (of_nat (length dat)) (dg_capacity_bytes (md_geometry d))))
     (if dat = [] then cret ()
      else (\<lambda>d. if unat offset + length dat \<le> length (md_data d)
                then (Ok (), d\<lparr>md_data := put (unat offset) dat (md_data d)\<rparr>) else (Panic, d)))))"

definition mem_trim :: "u64 \<Rightarrow> u64 \<Rightarrow> (memory_device, unit) cmd" where
  "mem_trim offset len d =
    (if \<not> md_trim_supported d then (Ok (), d)
     else
       cthen (cread (\<lambda>d. check_alignment offset len (dg_sector_size (md_geometry d))))
      (cthen (cread (\<lambda>d. check_bounds offset len (dg_capacity_bytes (md_geometry d))))
       (if len = 0 then cret ()
        else (\<lambda>d. if unat offset + unat len \<le> length (md_data d)
                  then (Ok (), d\<lparr>md_data := put (unat offset) (zeros (unat len)) (md_data d),
                                 md_trimmed_ranges := md_trimmed_ranges d @ [(offset, len)]\<rparr>)
                  else (Panic, d)))) d)"

definition mem_ops :: "memory_device device_ops" where
  "mem_ops = \<lparr>op_geometry = md_geometry, op_read_at = mem_read_at, op_write_at = mem_write_at,
              op_sync = cret (), op_trim = mem_trim, op_supports_trim = md_trim_supported,
              op_resize = mem_resize\<rparr>"

lemma mem_ops_sel [simp]:
  "op_geometry mem_ops = md_geometry" "op_read_at mem_ops = mem_read_at" "op_write_at mem_ops = mem_write_at"
  "op_sync mem_ops = cret ()" "op_trim mem_ops = mem_trim" "op_supports_trim mem_ops = md_trim_supported"
  "op_resize mem_ops = mem_resize"
  by (simp_all add: mem_ops_def)

section \<open>The contracts\<close>

text \<open>
  Three contracts.  A \<open>lossy_device\<close> may lose power: \<open>live\<close> says that writes still reach the
  medium, and a write is either stored or, when power is gone, dropped although it reports
  success.  A \<open>sector_device\<close> never loses power.  A \<open>block_device\<close> is only asked for accesses
  aligned to 4096 bytes, and every \<open>sector_device\<close> is one.
\<close>

locale block_device =
  fixes ops :: "'d device_ops" and image :: "'d \<Rightarrow> bytes" and inv :: "'d \<Rightarrow> bool"
  assumes read_law: "inv d \<Longrightarrow> 4096 dvd unat off \<Longrightarrow> 4096 dvd unat len \<Longrightarrow>
      unat off + unat len \<le> length (image d) \<Longrightarrow>
      op_read_at ops d off len = Ok (cut (unat off) (unat len) (image d))"
    and write_law: "inv d \<Longrightarrow> 4096 dvd unat off \<Longrightarrow> 4096 dvd length dat \<Longrightarrow>
      unat off + length dat \<le> length (image d) \<Longrightarrow>
      \<exists>d'. op_write_at ops off dat d = (Ok (), d') \<and> image d' = put (unat off) dat (image d) \<and> inv d'"
    and sync_law: "inv d \<Longrightarrow> \<exists>d'. op_sync ops d = (Ok (), d') \<and> image d' = image d \<and> inv d'"
    and size_law: "inv d \<Longrightarrow> length (image d) < 2 ^ 64"
begin

definition block :: "'d \<Rightarrow> nat \<Rightarrow> bytes" where
  "block d n = cut (n * 4096) 4096 (image d)"

definition blocks :: "'d \<Rightarrow> nat" where
  "blocks d = length (image d) div 4096"

lemma block_in_range: "n < blocks d \<Longrightarrow> n * 4096 + 4096 \<le> length (image d)"
  by (simp add: blocks_def less_eq_div_iff_mult_less_eq Suc_le_eq [symmetric])

lemma block_offset_word: "inv d \<Longrightarrow> unat b < blocks d \<Longrightarrow> unat (b * BLOCK_SIZE) = unat b * 4096"
  using block_in_range [of "unat b" d] size_law [of d] by (subst unat_mul_ok) auto

lemma block_offset_umul: "inv d \<Longrightarrow> unat b < blocks d \<Longrightarrow> umul b BLOCK_SIZE = Ok (b * BLOCK_SIZE)"
  using block_in_range [of "unat b" d] size_law [of d] by (simp add: umul_def)

lemma length_block: "n < blocks d \<Longrightarrow> length (block d n) = 4096"
  by (simp add: block_def block_in_range)

lemma read_block:
  "inv d \<Longrightarrow> unat b < blocks d \<Longrightarrow> op_read_at ops d (b * BLOCK_SIZE) BLOCK_SIZE = Ok (block d (unat b))"
  using read_law [of d "b * BLOCK_SIZE" BLOCK_SIZE] block_in_range [of "unat b" d]
  by (simp add: block_offset_word block_def)

lemma write_block:
  assumes "inv d" "unat b < blocks d" "length dat = 4096"
  shows "\<exists>d'. op_write_at ops (b * BLOCK_SIZE) dat d = (Ok (), d') \<and> inv d' \<and> blocks d' = blocks d
     \<and> image d' = put (unat b * 4096) dat (image d)
     \<and> (\<forall>n. block d' n = (if n = unat b then dat else block d n))"
proof -
  note r = block_in_range [OF assms(2)]
  obtain d' where d': "op_write_at ops (b * BLOCK_SIZE) dat d = (Ok (), d')"
      "image d' = put (unat b * 4096) dat (image d)" "inv d'"
    using write_law [OF assms(1), of "b * BLOCK_SIZE" dat] assms r by (auto simp: block_offset_word)
  have "block d' n = (if n = unat b then dat else block d n)" for n
  proof -
    consider "n = unat b" | "n < unat b" | "unat b < n" by linarith
    then show ?thesis
    proof cases
      case 2
      then have "n * 4096 + 4096 \<le> unat b * 4096" by simp
      then show ?thesis using 2 r assms(3) by (simp add: block_def d'(2))
    next
      case 3
      then have "unat b * 4096 + 4096 \<le> n * 4096" by simp
      then show ?thesis using 3 r assms(3) by (simp add: block_def d'(2))
    qed (use r assms(3) in \<open>simp add: block_def d'(2)\<close>)
  qed
  moreover have "blocks d' = blocks d"
    using r assms(3) by (simp add: blocks_def d'(2))
  ultimately show ?thesis
    using d' by blast
qed

lemma sync_block:
  "inv d \<Longrightarrow> \<exists>d'. op_sync ops d = (Ok (), d') \<and> inv d' \<and> image d' = image d \<and> blocks d' = blocks d \<and> block d' = block d"
  using sync_law [of d] by (auto simp: blocks_def block_def fun_eq_iff)

end

locale lossy_device =
  fixes ops :: "'d device_ops" and image :: "'d \<Rightarrow> bytes" and inv :: "'d \<Rightarrow> bool" and live :: "'d \<Rightarrow> bool"
  assumes sector_size_law: "inv d \<Longrightarrow> 0 < unat (dev_sector_size ops d) \<and> unat (dev_sector_size ops d) dvd 4096
      \<and> unat (dev_sector_size ops d) dvd length (image d) \<and> length (image d) < 2 ^ 64"
    and sector_read_law: "inv d \<Longrightarrow> unat (dev_sector_size ops d) dvd unat off \<Longrightarrow>
      unat (dev_sector_size ops d) dvd unat len \<Longrightarrow> unat off + unat len \<le> length (image d) \<Longrightarrow>
      op_read_at ops d off len = Ok (cut (unat off) (unat len) (image d))"
    and lossy_write_law: "inv d \<Longrightarrow> unat (dev_sector_size ops d) dvd unat off \<Longrightarrow>
      unat (dev_sector_size ops d) dvd length dat \<Longrightarrow> unat off + length dat \<le> length (image d) \<Longrightarrow>
      \<exists>d'. op_write_at ops off dat d = (Ok (), d') \<and> inv d' \<and> op_geometry ops d' = op_geometry ops d
        \<and> (live d \<and> image d' = put (unat off) dat (image d) \<or> \<not> live d' \<and> image d' = image d)
        \<and> (live d' \<longrightarrow> live d)"
    and lossy_sync_law: "inv d \<Longrightarrow>
      \<exists>d'. op_sync ops d = (Ok (), d') \<and> inv d' \<and> op_geometry ops d' = op_geometry ops d
        \<and> image d' = image d \<and> live d' = live d"

locale sector_device = lossy_device ops image inv "\<lambda>_. True"
  for ops :: "'d device_ops" and image :: "'d \<Rightarrow> bytes" and inv :: "'d \<Rightarrow> bool"

sublocale sector_device \<subseteq> block_device ops image inv
proof unfold_locales
  fix d :: 'd and off len :: u64 and dat :: bytes
  assume i: "inv d"
  have al: "unat (dev_sector_size ops d) dvd n" if "4096 dvd n" for n
    using that sector_size_law [OF i] dvd_trans by blast
  show "4096 dvd unat off \<Longrightarrow> 4096 dvd unat len \<Longrightarrow> unat off + unat len \<le> length (image d) \<Longrightarrow>
      op_read_at ops d off len = Ok (cut (unat off) (unat len) (image d))"
    by (rule sector_read_law [OF i]) (auto intro: al)
  show "\<exists>d'. op_write_at ops off dat d = (Ok (), d') \<and> image d' = put (unat off) dat (image d) \<and> inv d'"
    if "4096 dvd unat off" "4096 dvd length dat" "unat off + length dat \<le> length (image d)"
    using lossy_write_law [OF i al [OF that(1)] al [OF that(2)] that(3)] by auto
  show "\<exists>d'. op_sync ops d = (Ok (), d') \<and> image d' = image d \<and> inv d'"
    using lossy_sync_law [OF i] by blast
  show "length (image d) < 2 ^ 64"
    using sector_size_law [OF i] by blast
qed

section \<open>The in-memory device keeps the contract\<close>

definition mem_ok :: "memory_device \<Rightarrow> bool" where
  "mem_ok d \<longleftrightarrow> length (md_data d) = unat (dg_capacity_bytes (md_geometry d))
     \<and> 0 < unat (dg_sector_size (md_geometry d)) \<and> unat (dg_sector_size (md_geometry d)) dvd 4096
     \<and> unat (dg_sector_size (md_geometry d)) dvd unat (dg_capacity_bytes (md_geometry d))
     \<and> \<not> dg_read_only (md_geometry d)"

lemma mem_read_eq:
  assumes "length (md_data d) = unat (dg_capacity_bytes (md_geometry d))"
    and "0 < unat (dg_sector_size (md_geometry d))"
    and "unat (dg_sector_size (md_geometry d)) dvd unat off" "unat (dg_sector_size (md_geometry d)) dvd unat len"
    and "unat off + unat len \<le> length (md_data d)"
  shows "mem_read_at d off len = Ok (cut (unat off) (unat len) (md_data d))"
proof -
  have "check_alignment off len (dg_sector_size (md_geometry d)) = Ok ()"
    "check_bounds off len (dg_capacity_bytes (md_geometry d)) = Ok ()"
    using assms by (simp_all add: result_iff)
  then show ?thesis
    using assms by (auto simp: mem_read_at_def cut_res_def cut_def)
qed

lemma mem_write_eq:
  assumes "length (md_data d) = unat (dg_capacity_bytes (md_geometry d))"
    and "0 < unat (dg_sector_size (md_geometry d))" "\<not> dg_read_only (md_geometry d)"
    and "unat (dg_sector_size (md_geometry d)) dvd unat off" "unat (dg_sector_size (md_geometry d)) dvd length dat"
    and "unat off + length dat \<le> length (md_data d)"
  shows "mem_write_at off dat d = (Ok (), d\<lparr>md_data := put (unat off) dat (md_data d)\<rparr>)"
proof -
  have "length dat < 2 ^ 64"
    using assms(1,6) unat_u64_lt [of "dg_capacity_bytes (md_geometry d)"] by simp
  then have l: "unat (of_nat (length dat) :: u64) = length dat"
    by (intro unat_of_nat_ok) simp
  have "check_alignment off (of_nat (length dat)) (dg_sector_size (md_geometry d)) = Ok ()"
    "check_bounds off (of_nat (length dat)) (dg_capacity_bytes (md_geometry d)) = Ok ()"
    using assms l by (simp_all add: result_iff)
  then show ?thesis
    using assms by (auto simp: mem_write_at_def cthen_run check_write_permission_def put_def)
qed

lemma mem_trim_eq:
  assumes "length (md_data d) = unat (dg_capacity_bytes (md_geometry d))" "md_trim_supported d"
    and "0 < unat (dg_sector_size (md_geometry d))"
    and "unat (dg_sector_size (md_geometry d)) dvd unat off" "unat (dg_sector_size (md_geometry d)) dvd unat len"
    and "unat off + unat len \<le> length (md_data d)" "len \<noteq> 0"
  shows "mem_trim off len d = (Ok (), d\<lparr>md_data := put (unat off) (zeros (unat len)) (md_data d),
    md_trimmed_ranges := md_trimmed_ranges d @ [(off, len)]\<rparr>)"
proof -
  have "check_alignment off len (dg_sector_size (md_geometry d)) = Ok ()"
    "check_bounds off len (dg_capacity_bytes (md_geometry d)) = Ok ()"
    using assms by (simp_all add: result_iff)
  then show ?thesis
    using assms by (simp add: mem_trim_def cthen_run)
qed

interpretation mem: sector_device mem_ops md_data mem_ok
proof unfold_locales
  fix d :: memory_device and off len :: u64 and dat :: bytes
  assume i: "mem_ok d"
  have ss: "dev_sector_size mem_ops d = dg_sector_size (md_geometry d)"
    by (simp add: dev_sector_size_def)
  show "0 < unat (dev_sector_size mem_ops d) \<and> unat (dev_sector_size mem_ops d) dvd 4096
      \<and> unat (dev_sector_size mem_ops d) dvd length (md_data d) \<and> length (md_data d) < 2 ^ 64"
    using i unat_u64_lt [of "dg_capacity_bytes (md_geometry d)"] by (simp add: ss mem_ok_def)
  show "op_read_at mem_ops d off len = Ok (cut (unat off) (unat len) (md_data d))"
    if "unat (dev_sector_size mem_ops d) dvd unat off" "unat (dev_sector_size mem_ops d) dvd unat len"
      "unat off + unat len \<le> length (md_data d)"
    using i that by (simp add: ss mem_read_eq mem_ok_def)
  show "\<exists>d'. op_write_at mem_ops off dat d = (Ok (), d') \<and> mem_ok d' \<and> op_geometry mem_ops d' = op_geometry mem_ops d
      \<and> (True \<and> md_data d' = put (unat off) dat (md_data d) \<or> \<not> True \<and> md_data d' = md_data d) \<and> (True \<longrightarrow> True)"
    if "unat (dev_sector_size mem_ops d) dvd unat off" "unat (dev_sector_size mem_ops d) dvd length dat"
      "unat off + length dat \<le> length (md_data d)"
    using i that by (simp add: ss mem_write_eq mem_ok_def)
  show "\<exists>d'. op_sync mem_ops d = (Ok (), d') \<and> mem_ok d' \<and> op_geometry mem_ops d' = op_geometry mem_ops d
      \<and> md_data d' = md_data d \<and> True = True"
    using i by simp
qed

section \<open>Properties\<close>

text \<open>
  An in-memory device returns what was written last: after an accepted write a read of
  the same range returns the written bytes and a read of a disjoint range is unchanged.
\<close>

theorem memory_device_read_after_write:
  assumes "mem_ok d" "mem_write_at off dat d = (Ok (), d')" "dat \<noteq> []"
  shows "mem_read_at d' off (of_nat (length dat)) = Ok dat \<and>
    (unat off2 + unat len2 \<le> unat off \<or> unat off + length dat \<le> unat off2 \<longrightarrow>
       mem_read_at d' off2 len2 = mem_read_at d off2 len2)"
proof -
  have wr: "check_alignment off (of_nat (length dat)) (dg_sector_size (md_geometry d)) = Ok ()"
    "check_bounds off (of_nat (length dat)) (dg_capacity_bytes (md_geometry d)) = Ok ()"
    "unat off + length dat \<le> length (md_data d)" and d': "d' = d\<lparr>md_data := put (unat off) dat (md_data d)\<rparr>"
    using assms by (auto simp: mem_write_at_def result_iff split: if_splits)
  have "length dat < 2 ^ 64"
    using wr(3) assms(1) unat_u64_lt [of "dg_capacity_bytes (md_geometry d)"] by (simp add: mem_ok_def)
  then have l: "unat (of_nat (length dat) :: u64) = length dat"
    by (intro unat_of_nat_ok) simp
  then have "(of_nat (length dat) :: u64) \<noteq> 0"
    using assms(3) by (metis length_0_conv unat_0)
  then have "mem_read_at d' off (of_nat (length dat)) = Ok dat"
    using wr l by (simp add: mem_read_at_def d' cut_res_def)
  moreover have "mem_read_at d' off2 len2 = mem_read_at d off2 len2"
    if "unat off2 + unat len2 \<le> unat off \<or> unat off + length dat \<le> unat off2"
    using that wr(3) by (auto simp: mem_read_at_def d' cut_res_def)
  ultimately show ?thesis by blast
qed

lemma length_four: "length [a, b, c, d] = 4"
  by simp

definition small_device :: memory_device where
  "small_device =
    \<lparr>md_data = zeros 8, md_geometry = \<lparr>dg_sector_size = 4, dg_sector_count = 2, dg_capacity_bytes = 8, dg_read_only = False\<rparr>,
     md_trim_supported = True, md_trimmed_ranges = []\<rparr>"

theorem memory_device_read_after_write_witness:
  "\<exists>d'. mem_write_at 4 [1, 2, 3, 4] small_device = (Ok (), d') \<and> mem_read_at d' 4 4 = Ok [1, 2, 3, 4]"
proof -
  have ok: "mem_ok small_device"
    by (simp add: mem_ok_def small_device_def)
  obtain d' where "mem_write_at 4 [1, 2, 3, 4] small_device = (Ok (), d')"
    using mem_write_eq [of small_device 4 "[1, 2, 3, 4]", unfolded length_four]
    by (simp add: small_device_def)
  from memory_device_read_after_write [OF ok this] this show ?thesis
    by auto
qed

text \<open>
  A read-only in-memory device refuses every write without a change, but \<open>trim\<close> does not
  look at the flag: it zeroes data of a read-only device and reports success.
\<close>

theorem trim_ignores_read_only:
  "mem_write_at off dat (mem_set_read_only True d) = (Err (PolicyViolation ''device is read-only''), mem_set_read_only True d)
   \<and> (\<exists>e e'. dg_read_only (md_geometry e) \<and> md_data e = [1, 1, 1, 1]
        \<and> mem_trim 0 4 e = (Ok (), e') \<and> md_data e' = [0, 0, 0, 0])"
proof
  show "mem_write_at off dat (mem_set_read_only True d) = (Err (PolicyViolation ''device is read-only''), mem_set_read_only True d)"
    by (simp add: mem_write_at_def mem_set_read_only_def check_write_permission_def cthen_run)
  let ?e = "\<lparr>md_data = [1, 1, 1, 1], md_geometry = \<lparr>dg_sector_size = 4, dg_sector_count = 1, dg_capacity_bytes = 4, dg_read_only = True\<rparr>,
     md_trim_supported = True, md_trimmed_ranges = []\<rparr>"
  have z: "put 0 (zeros 4) [1, 1, 1, 1] = [0, 0, 0, 0 :: u8]"
    by (simp add: put_def zeros_def numeral_eq_Suc)
  have "mem_trim 0 4 ?e = (Ok (), ?e\<lparr>md_data := put 0 (zeros 4) [1, 1, 1, 1], md_trimmed_ranges := [(0, 4)]\<rparr>)"
    by (subst mem_trim_eq) (simp_all add: length_four del: length_Cons)
  then have "fst (mem_trim 0 4 ?e) = Ok ()" "md_data (snd (mem_trim 0 4 ?e)) = [0, 0, 0, 0]"
    using z by simp_all
  then show "\<exists>e e'. dg_read_only (md_geometry e) \<and> md_data e = [1, 1, 1, 1]
        \<and> mem_trim 0 4 e = (Ok (), e') \<and> md_data e' = [0, 0, 0, 0]"
    by (intro exI [of _ ?e] exI [of _ "snd (mem_trim 0 4 ?e)"]) (simp add: prod_eq_iff)
qed

text \<open>
  The trait's documentation names the in-memory device as one of the fixed-size devices
  whose \<open>resize\<close> is refused; its implementation resizes whenever the new capacity is a
  multiple of the sector size, keeping the old bytes and zero-filling the new ones.
\<close>

theorem memory_device_resizes:
  assumes "0 < unat (dg_sector_size (md_geometry d))" "unat (dg_sector_size (md_geometry d)) dvd unat cap"
  shows "\<exists>d'. mem_resize cap d = (Ok (), d') \<and> length (md_data d') = unat cap
    \<and> (\<forall>i < min (length (md_data d)) (unat cap). md_data d' ! i = md_data d ! i)
    \<and> dg_capacity_bytes (md_geometry d') = cap"
proof -
  have "urem cap (ucast (dg_sector_size (md_geometry d))) = Ok 0"
    using assms unat_ucast_u32 [of "dg_sector_size (md_geometry d)"]
    by (auto simp: result_iff word_unat_eq_iff unat_mod)
  then show ?thesis
    by (auto simp: mem_resize_def vec_resize_def nth_append Let_def)
qed

theorem memory_device_resizes_witness: "\<exists>d'. mem_resize 12 small_device = (Ok (), d')"
  using memory_device_resizes [of small_device 12] by (auto simp: small_device_def)

end
