(* ===== verification/Fault_Injection.thy ===== *)
theory Fault_Injection
  imports Block_Device
begin

text \<open>
  The fault-injecting device wrapper,
  \<open>corefs-core/src/storage/ondisk/fault_injection.rs\<close>: \<open>FaultPlan\<close>, \<open>FaultStats\<close> and the
  \<open>BlockDevice\<close> implementation of \<open>FaultyDevice<D>\<close> over any device.  The counters of type
  \<open>usize\<close> are unbounded here: they count calls.
\<close>

record fault_plan =
  fp_fail_after_writes :: "nat option"
  fp_fail_after_bytes_written :: "u64 option"
  fp_silent_corrupt_writes :: "(u64 \<times> u64 \<times> nat) option"
  fp_fail_writes_in_range :: "(u64 \<times> u64) option"
  fp_fail_sync :: bool
  fp_stop_after_n_writes :: "nat option"

definition fault_plan_new :: fault_plan where
  "fault_plan_new =
    \<lparr>fp_fail_after_writes = None, fp_fail_after_bytes_written = None, fp_silent_corrupt_writes = None,
     fp_fail_writes_in_range = None, fp_fail_sync = False, fp_stop_after_n_writes = None\<rparr>"

record fault_stats =
  fs_writes_attempted :: nat
  fs_writes_persisted :: nat
  fs_writes_failed :: nat
  fs_writes_silently_dropped :: nat
  fs_writes_corrupted :: nat
  fs_reads_attempted :: nat
  fs_syncs_attempted :: nat
  fs_syncs_failed :: nat
  fs_bytes_written :: u64

definition fault_stats_default :: fault_stats where
  "fault_stats_default =
    \<lparr>fs_writes_attempted = 0, fs_writes_persisted = 0, fs_writes_failed = 0,
     fs_writes_silently_dropped = 0, fs_writes_corrupted = 0, fs_reads_attempted = 0,
     fs_syncs_attempted = 0, fs_syncs_failed = 0, fs_bytes_written = 0\<rparr>"

record 'd faulty_device =
  fd_inner :: 'd
  fd_plan :: fault_plan
  fd_stats :: fault_stats

definition faulty_new :: "'d \<Rightarrow> fault_plan \<Rightarrow> 'd faulty_device" where
  "faulty_new inner pl = \<lparr>fd_inner = inner, fd_plan = pl, fd_stats = fault_stats_default\<rparr>"

definition faulty_set_plan :: "fault_plan \<Rightarrow> 'd faulty_device \<Rightarrow> 'd faulty_device" where
  "faulty_set_plan pl d = d\<lparr>fd_plan := pl\<rparr>"

definition count_failed :: "'d faulty_device \<Rightarrow> 'd faulty_device" where
  "count_failed d = d\<lparr>fd_stats := (fd_stats d)\<lparr>fs_writes_failed := fs_writes_failed (fd_stats d) + 1\<rparr>\<rparr>"

text \<open>The guards of \<open>write_at\<close> in the order of the code; \<open>Ok True\<close> means: drop silently.\<close>

definition fault_guard :: "u64 \<Rightarrow> bytes \<Rightarrow> ('d faulty_device, bool) cmd" where
  "fault_guard offset dat d =
    (let pl = fd_plan d; st = fd_stats d; n = of_nat (length dat) :: u64 in
     if (case fp_fail_after_writes pl of Some k \<Rightarrow> k < fs_writes_attempted st | None \<Rightarrow> False)
     then (Err (State ''ODF-FAULT: write #''), count_failed d)
     else if (case fp_fail_after_bytes_written pl of Some b \<Rightarrow> b < sat_add (fs_bytes_written st) n | None \<Rightarrow> False)
     then (Err (State ''ODF-FAULT: write would exceed byte budget (''), count_failed d)
     else
       (case (case fp_fail_writes_in_range pl of
                Some (start, stop) \<Rightarrow>
                  rbind (uadd offset n) (\<lambda>req_end. Ok (offset < stop \<and> req_end > start))
              | None \<Rightarrow> Ok False) of
          Ok bad \<Rightarrow>
            (if bad then (Err (State ''ODF-FAULT: write at offset ''), count_failed d)
             else if (case fp_stop_after_n_writes pl of Some k \<Rightarrow> k \<le> fs_writes_persisted st | None \<Rightarrow> False)
             then (Ok True, d\<lparr>fd_stats := st\<lparr>fs_writes_silently_dropped := fs_writes_silently_dropped st + 1\<rparr>\<rparr>)
             else (Ok False, d))
        | Err e \<Rightarrow> (Err e, d)
        | Panic \<Rightarrow> (Panic, d)))"

text \<open>Step 5: one byte of the payload is flipped.\<close>

definition fault_corrupt :: "u64 \<Rightarrow> bytes \<Rightarrow> ('d faulty_device, bytes) cmd" where
  "fault_corrupt offset payload d =
    (case fp_silent_corrupt_writes (fd_plan d) of
       None \<Rightarrow> (Ok payload, d)
     | Some (start, len, byte) \<Rightarrow>
         (case rbind (uadd offset (of_nat (length payload))) (\<lambda>req_end.
               rbind (uadd start len) (\<lambda>stop. Ok (offset < stop \<and> req_end > start \<and> byte < length payload))) of
            Ok hit \<Rightarrow>
              (if hit
               then (Ok (payload[byte := payload ! byte XOR 0xFF]),
                     d\<lparr>fd_stats := (fd_stats d)\<lparr>fs_writes_corrupted := fs_writes_corrupted (fd_stats d) + 1\<rparr>\<rparr>)
               else (Ok payload, d))
          | Err e \<Rightarrow> (Err e, d)
          | Panic \<Rightarrow> (Panic, d)))"

definition fault_write_at :: "'d device_ops \<Rightarrow> u64 \<Rightarrow> bytes \<Rightarrow> ('d faulty_device, unit) cmd" where
  "fault_write_at ops offset dat =
     cthen (cmod (\<lambda>d. d\<lparr>fd_stats := (fd_stats d)\<lparr>fs_writes_attempted := fs_writes_attempted (fd_stats d) + 1\<rparr>\<rparr>))
    (cbind (fault_guard offset dat) (\<lambda>dropped.
     if dropped then cret ()
     else
       cbind (fault_corrupt offset dat) (\<lambda>payload.
       cthen (czoom fd_inner (\<lambda>i d. d\<lparr>fd_inner := i\<rparr>) (op_write_at ops offset payload))
         (cmod (\<lambda>d. d\<lparr>fd_stats := (fd_stats d)
              \<lparr>fs_writes_persisted := fs_writes_persisted (fd_stats d) + 1,
               fs_bytes_written := sat_add (fs_bytes_written (fd_stats d)) (of_nat (length dat))\<rparr>\<rparr>)))))"

definition fault_sync :: "'d device_ops \<Rightarrow> ('d faulty_device, unit) cmd" where
  "fault_sync ops =
     cthen (cmod (\<lambda>d. d\<lparr>fd_stats := (fd_stats d)\<lparr>fs_syncs_attempted := fs_syncs_attempted (fd_stats d) + 1\<rparr>\<rparr>))
      (\<lambda>d. if fp_fail_sync (fd_plan d)
           then (Err (State ''ODF-FAULT: sync barrier interrupted''),
                 d\<lparr>fd_plan := (fd_plan d)\<lparr>fp_fail_sync := False\<rparr>,
                   fd_stats := (fd_stats d)\<lparr>fs_syncs_failed := fs_syncs_failed (fd_stats d) + 1\<rparr>\<rparr>)
           else czoom fd_inner (\<lambda>i d. d\<lparr>fd_inner := i\<rparr>) (op_sync ops) d)"

definition fault_ops :: "'d device_ops \<Rightarrow> 'd faulty_device device_ops" where
  "fault_ops ops =
    \<lparr>op_geometry = (\<lambda>d. op_geometry ops (fd_inner d)),
     op_read_at = (\<lambda>d. op_read_at ops (fd_inner d)),
     op_write_at = fault_write_at ops,
     op_sync = fault_sync ops,
     op_trim = (\<lambda>off len. czoom fd_inner (\<lambda>i d. d\<lparr>fd_inner := i\<rparr>) (op_trim ops off len)),
     op_supports_trim = (\<lambda>d. op_supports_trim ops (fd_inner d)),
     op_resize = default_resize\<rparr>"

lemma fault_ops_sel [simp]:
  "op_geometry (fault_ops ops) d = op_geometry ops (fd_inner d)"
  "op_read_at (fault_ops ops) d = op_read_at ops (fd_inner d)"
  "op_write_at (fault_ops ops) = fault_write_at ops"
  "op_sync (fault_ops ops) = fault_sync ops"
  by (simp_all add: fault_ops_def)

section \<open>Accounting\<close>

text \<open>
  Every attempted write is persisted, failed, dropped, or was refused by the inner device.
\<close>

definition settled :: "fault_stats \<Rightarrow> nat" where
  "settled st = fs_writes_persisted st + fs_writes_failed st + fs_writes_silently_dropped st"

lemma fault_guard_cases:
  assumes "fault_guard offset dat d = (r, d')"
  shows "fd_inner d' = fd_inner d \<and> fd_plan d' = fd_plan d \<and>
    fs_writes_attempted (fd_stats d') = fs_writes_attempted (fd_stats d) \<and>
    (case r of Ok dropped \<Rightarrow> settled (fd_stats d') = settled (fd_stats d) + (if dropped then 1 else 0)
      | Err e \<Rightarrow> settled (fd_stats d') = settled (fd_stats d) + 1
      | Panic \<Rightarrow> d' = d)"
  using assms
  by (auto simp: fault_guard_def Let_def settled_def count_failed_def uadd_def split: if_splits option.splits prod.splits)

lemma fault_corrupt_cases:
  assumes "fault_corrupt offset dat d = (r, d')"
  shows "fd_inner d' = fd_inner d \<and> fd_plan d' = fd_plan d \<and>
    fs_writes_attempted (fd_stats d') = fs_writes_attempted (fd_stats d) \<and> settled (fd_stats d') = settled (fd_stats d) \<and>
    (\<forall>p. r = Ok p \<longrightarrow> length p = length dat)"
  using assms
  by (auto simp: fault_corrupt_def settled_def uadd_def split: option.splits prod.splits result.splits if_splits)

lemma fault_write_accounting:
  assumes "fault_write_at ops offset dat d = (Ok (), d')"
  shows "fs_writes_attempted (fd_stats d') = fs_writes_attempted (fd_stats d) + 1
    \<and> settled (fd_stats d') = settled (fd_stats d) + 1"
proof -
  define d1 where "d1 = d\<lparr>fd_stats := (fd_stats d)\<lparr>fs_writes_attempted := fs_writes_attempted (fd_stats d) + 1\<rparr>\<rparr>"
  have d1: "settled (fd_stats d1) = settled (fd_stats d)"
    "fs_writes_attempted (fd_stats d1) = fs_writes_attempted (fd_stats d) + 1"
    by (simp_all add: d1_def settled_def)
  obtain dropped d2 where g: "fault_guard offset dat d1 = (Ok dropped, d2)"
    and rest: "(if dropped then cret ()
      else cbind (fault_corrupt offset dat) (\<lambda>payload.
       cthen (czoom fd_inner (\<lambda>i d. d\<lparr>fd_inner := i\<rparr>) (op_write_at ops offset payload))
         (cmod (\<lambda>d. d\<lparr>fd_stats := (fd_stats d)
              \<lparr>fs_writes_persisted := fs_writes_persisted (fd_stats d) + 1,
               fs_bytes_written := sat_add (fs_bytes_written (fd_stats d)) (of_nat (length dat))\<rparr>\<rparr>)))) d2 = (Ok (), d')"
    using assms by (auto simp: fault_write_at_def result_iff d1_def)
  show ?thesis
  proof (cases dropped)
    case True
    then show ?thesis
      using rest fault_guard_cases [OF g] d1 by simp
  next
    case False
    then obtain p d3 where c: "fault_corrupt offset dat d2 = (Ok p, d3)"
      and st: "fs_writes_attempted (fd_stats d') = fs_writes_attempted (fd_stats d3)"
        "settled (fd_stats d') = settled (fd_stats d3) + 1"
      using rest by (auto simp: result_iff czoom_simp settled_def)
    then show ?thesis
      using fault_guard_cases [OF g] fault_corrupt_cases [OF c] d1 False by simp
  qed
qed

section \<open>Without faults the wrapper is transparent\<close>

lemma fault_write_transparent:
  assumes "fd_plan d = fault_plan_new"
  shows "\<exists>st. fault_write_at ops offset dat d =
    (fst (op_write_at ops offset dat (fd_inner d)),
     d\<lparr>fd_inner := snd (op_write_at ops offset dat (fd_inner d)), fd_stats := st\<rparr>)"
proof -
  obtain r i where w: "op_write_at ops offset dat (fd_inner d) = (r, i)"
    by (cases "op_write_at ops offset dat (fd_inner d)")
  have g: "fault_guard offset dat e = (Ok False, e)" "fault_corrupt offset dat e = (Ok dat, e)"
    if "fd_plan e = fault_plan_new" for e :: "'a faulty_device"
    using that by (simp_all add: fault_guard_def fault_corrupt_def fault_plan_new_def Let_def)
  show ?thesis
    using assms w by (cases d; cases r) (auto simp: fault_write_at_def cthen_run cbind_run g czoom_simp cthen_def cbind_def)
qed

context block_device
begin

lemma faulty_device:
  "block_device (fault_ops ops) (\<lambda>d. image (fd_inner d)) (\<lambda>d. fd_plan d = fault_plan_new \<and> inv (fd_inner d))"
proof unfold_locales
  fix d :: "'d faulty_device" and off len :: u64 and dat :: bytes
  assume i: "fd_plan d = fault_plan_new \<and> inv (fd_inner d)"
  show "4096 dvd unat off \<Longrightarrow> 4096 dvd unat len \<Longrightarrow> unat off + unat len \<le> length (image (fd_inner d)) \<Longrightarrow>
      op_read_at (fault_ops ops) d off len = Ok (cut (unat off) (unat len) (image (fd_inner d)))"
    using i read_law by simp
  show "\<exists>d'. op_write_at (fault_ops ops) off dat d = (Ok (), d') \<and>
      image (fd_inner d') = put (unat off) dat (image (fd_inner d)) \<and> fd_plan d' = fault_plan_new \<and> inv (fd_inner d')"
    if "4096 dvd unat off" "4096 dvd length dat" "unat off + length dat \<le> length (image (fd_inner d))"
    using write_law [OF _ that] i fault_write_transparent [of d ops off dat]
    by fastforce
  show "\<exists>d'. op_sync (fault_ops ops) d = (Ok (), d') \<and> image (fd_inner d') = image (fd_inner d)
      \<and> fd_plan d' = fault_plan_new \<and> inv (fd_inner d')"
    using sync_law [of "fd_inner d"] i
    by (auto simp: fault_sync_def cthen_run czoom_simp fault_plan_new_def)
  show "length (image (fd_inner d)) < 2 ^ 64"
    using i size_law by simp
qed

end

interpretation faulty_mem: block_device "fault_ops mem_ops" "\<lambda>d. md_data (fd_inner d)"
  "\<lambda>d. fd_plan d = fault_plan_new \<and> mem_ok (fd_inner d)"
  by (rule mem.faulty_device)

section \<open>Power loss\<close>

text \<open>
  With \<open>stop_after_n_writes(n)\<close> as the only fault, the wrapper is a \<open>lossy_device\<close>: the first
  \<open>n\<close> writes reach the medium, the later ones report success and are dropped.
\<close>

definition power_loss_plan :: "nat \<Rightarrow> fault_plan" where
  "power_loss_plan n = fault_plan_new\<lparr>fp_stop_after_n_writes := Some n\<rparr>"

definition powered :: "nat \<Rightarrow> 'd faulty_device \<Rightarrow> bool" where
  "powered n d \<longleftrightarrow> fs_writes_persisted (fd_stats d) < n"

lemma power_loss_write:
  assumes "fd_plan d = power_loss_plan n"
  shows "fault_write_at ops offset dat d =
    (let d1 = d\<lparr>fd_stats := (fd_stats d)\<lparr>fs_writes_attempted := fs_writes_attempted (fd_stats d) + 1\<rparr>\<rparr> in
     if powered n d then
       (case op_write_at ops offset dat (fd_inner d) of
          (Ok _, i) \<Rightarrow> (Ok (), d1\<lparr>fd_inner := i, fd_stats := (fd_stats d1)
              \<lparr>fs_writes_persisted := fs_writes_persisted (fd_stats d) + 1,
               fs_bytes_written := sat_add (fs_bytes_written (fd_stats d)) (of_nat (length dat))\<rparr>\<rparr>)
        | (Err e, i) \<Rightarrow> (Err e, d1\<lparr>fd_inner := i\<rparr>)
        | (Panic, i) \<Rightarrow> (Panic, d1\<lparr>fd_inner := i\<rparr>))
     else (Ok (), d1\<lparr>fd_stats := (fd_stats d1)
              \<lparr>fs_writes_silently_dropped := fs_writes_silently_dropped (fd_stats d) + 1\<rparr>\<rparr>))"
proof -
  define d1 where "d1 = d\<lparr>fd_stats := (fd_stats d)\<lparr>fs_writes_attempted := fs_writes_attempted (fd_stats d) + 1\<rparr>\<rparr>"
  define count where "count = cmod (\<lambda>d :: 'a faulty_device. d\<lparr>fd_stats := (fd_stats d)
      \<lparr>fs_writes_persisted := fs_writes_persisted (fd_stats d) + 1,
       fs_bytes_written := sat_add (fs_bytes_written (fd_stats d)) (of_nat (length dat))\<rparr>\<rparr>)"
  define store where "store = (\<lambda>payload. cthen (czoom fd_inner (\<lambda>i d :: 'a faulty_device. d\<lparr>fd_inner := i\<rparr>)
      (op_write_at ops offset payload)) count)"
  define pass where "pass = (\<lambda>dropped. if dropped then cret () else cbind (fault_corrupt offset dat) store)"
  have d1: "fd_plan d1 = power_loss_plan n" "fd_inner d1 = fd_inner d"
    "fs_writes_persisted (fd_stats d1) = fs_writes_persisted (fd_stats d)"
    "fs_bytes_written (fd_stats d1) = fs_bytes_written (fd_stats d)"
    "fs_writes_silently_dropped (fd_stats d1) = fs_writes_silently_dropped (fd_stats d)"
    using assms by (simp_all add: d1_def)
  have run: "fault_write_at ops offset dat d = cbind (fault_guard offset dat) pass d1"
    unfolding pass_def store_def count_def d1_def by (simp add: fault_write_at_def cthen_run)
  have corrupt: "fault_corrupt offset dat d1 = (Ok dat, d1)"
    using d1(1) by (simp add: fault_corrupt_def power_loss_plan_def fault_plan_new_def)
  have goal: "?thesis \<longleftrightarrow> fault_write_at ops offset dat d = (if powered n d then
       (case op_write_at ops offset dat (fd_inner d) of
          (Ok _, i) \<Rightarrow> (Ok (), d1\<lparr>fd_inner := i, fd_stats := (fd_stats d1)
              \<lparr>fs_writes_persisted := fs_writes_persisted (fd_stats d) + 1,
               fs_bytes_written := sat_add (fs_bytes_written (fd_stats d)) (of_nat (length dat))\<rparr>\<rparr>)
        | (Err e, i) \<Rightarrow> (Err e, d1\<lparr>fd_inner := i\<rparr>)
        | (Panic, i) \<Rightarrow> (Panic, d1\<lparr>fd_inner := i\<rparr>))
     else (Ok (), d1\<lparr>fd_stats := (fd_stats d1)
              \<lparr>fs_writes_silently_dropped := fs_writes_silently_dropped (fd_stats d) + 1\<rparr>\<rparr>))"
    unfolding Let_def d1_def ..
  show ?thesis
    unfolding goal
  proof (cases "powered n d")
    case True
    have guard: "fault_guard offset dat d1 = (Ok False, d1)"
      using d1 True by (simp add: fault_guard_def power_loss_plan_def fault_plan_new_def powered_def Let_def)
    have "fault_write_at ops offset dat d = store dat d1"
      unfolding run pass_def
      by (simp add: cbind_run(1) [where m = "fault_guard offset dat", OF guard]
          cbind_run(1) [where m = "fault_corrupt offset dat", OF corrupt])
    moreover obtain r i where w: "op_write_at ops offset dat (fd_inner d) = (r, i)"
      by (cases "op_write_at ops offset dat (fd_inner d)")
    ultimately show "fault_write_at ops offset dat d = (if powered n d then
       (case op_write_at ops offset dat (fd_inner d) of
          (Ok _, i) \<Rightarrow> (Ok (), d1\<lparr>fd_inner := i, fd_stats := (fd_stats d1)
              \<lparr>fs_writes_persisted := fs_writes_persisted (fd_stats d) + 1,
               fs_bytes_written := sat_add (fs_bytes_written (fd_stats d)) (of_nat (length dat))\<rparr>\<rparr>)
        | (Err e, i) \<Rightarrow> (Err e, d1\<lparr>fd_inner := i\<rparr>)
        | (Panic, i) \<Rightarrow> (Panic, d1\<lparr>fd_inner := i\<rparr>))
     else (Ok (), d1\<lparr>fd_stats := (fd_stats d1)
              \<lparr>fs_writes_silently_dropped := fs_writes_silently_dropped (fd_stats d) + 1\<rparr>\<rparr>))"
      using True d1 by (cases r) (simp_all add: store_def count_def cthen_def cbind_def czoom_simp)
  next
    case False
    have guard: "fault_guard offset dat d1 = (Ok True, d1\<lparr>fd_stats := (fd_stats d1)
        \<lparr>fs_writes_silently_dropped := fs_writes_silently_dropped (fd_stats d) + 1\<rparr>\<rparr>)"
      using d1 False by (simp add: fault_guard_def power_loss_plan_def fault_plan_new_def powered_def Let_def)
    then show "fault_write_at ops offset dat d = (if powered n d then
       (case op_write_at ops offset dat (fd_inner d) of
          (Ok _, i) \<Rightarrow> (Ok (), d1\<lparr>fd_inner := i, fd_stats := (fd_stats d1)
              \<lparr>fs_writes_persisted := fs_writes_persisted (fd_stats d) + 1,
               fs_bytes_written := sat_add (fs_bytes_written (fd_stats d)) (of_nat (length dat))\<rparr>\<rparr>)
        | (Err e, i) \<Rightarrow> (Err e, d1\<lparr>fd_inner := i\<rparr>)
        | (Panic, i) \<Rightarrow> (Panic, d1\<lparr>fd_inner := i\<rparr>))
     else (Ok (), d1\<lparr>fd_stats := (fd_stats d1)
              \<lparr>fs_writes_silently_dropped := fs_writes_silently_dropped (fd_stats d) + 1\<rparr>\<rparr>))"
      using False by (simp add: run cbind_run(1) [where m = "fault_guard offset dat", OF guard] pass_def)
  qed
qed

context sector_device
begin

lemma power_loss_device:
  "lossy_device (fault_ops ops) (\<lambda>d. image (fd_inner d))
     (\<lambda>d. fd_plan d = power_loss_plan n \<and> inv (fd_inner d)) (powered n)"
proof unfold_locales
  fix d :: "'d faulty_device" and off len :: u64 and dat :: bytes
  assume "fd_plan d = power_loss_plan n \<and> inv (fd_inner d)"
  then have p: "fd_plan d = power_loss_plan n" and i: "inv (fd_inner d)" by simp_all
  have ss: "dev_sector_size (fault_ops ops) d = dev_sector_size ops (fd_inner d)"
    by (simp add: dev_sector_size_def)
  show "0 < unat (dev_sector_size (fault_ops ops) d) \<and> unat (dev_sector_size (fault_ops ops) d) dvd 4096
      \<and> unat (dev_sector_size (fault_ops ops) d) dvd length (image (fd_inner d)) \<and> length (image (fd_inner d)) < 2 ^ 64"
    using sector_size_law [OF i] by (simp add: ss)
  show "op_read_at (fault_ops ops) d off len = Ok (cut (unat off) (unat len) (image (fd_inner d)))"
    if "unat (dev_sector_size (fault_ops ops) d) dvd unat off" "unat (dev_sector_size (fault_ops ops) d) dvd unat len"
      "unat off + unat len \<le> length (image (fd_inner d))"
    using sector_read_law [OF i] that by (simp add: ss)
  show "\<exists>d'. op_write_at (fault_ops ops) off dat d = (Ok (), d')
      \<and> (fd_plan d' = power_loss_plan n \<and> inv (fd_inner d'))
      \<and> op_geometry (fault_ops ops) d' = op_geometry (fault_ops ops) d
      \<and> (powered n d \<and> image (fd_inner d') = put (unat off) dat (image (fd_inner d))
         \<or> \<not> powered n d' \<and> image (fd_inner d') = image (fd_inner d))
      \<and> (powered n d' \<longrightarrow> powered n d)"
    if al: "unat (dev_sector_size (fault_ops ops) d) dvd unat off" "unat (dev_sector_size (fault_ops ops) d) dvd length dat"
      "unat off + length dat \<le> length (image (fd_inner d))"
  proof -
    obtain j where j: "op_write_at ops off dat (fd_inner d) = (Ok (), j)" "inv j"
        "op_geometry ops j = op_geometry ops (fd_inner d)" "image j = put (unat off) dat (image (fd_inner d))"
      using lossy_write_law [OF i] al by (auto simp: ss)
    let ?d' = "snd (fault_write_at ops off dat d)"
    show ?thesis
      using power_loss_write [OF p, of ops off dat] j p i
      by (intro exI [of _ ?d'], cases "powered n d") (simp_all add: Let_def powered_def)
  qed
  show "\<exists>d'. op_sync (fault_ops ops) d = (Ok (), d') \<and> (fd_plan d' = power_loss_plan n \<and> inv (fd_inner d'))
      \<and> op_geometry (fault_ops ops) d' = op_geometry (fault_ops ops) d
      \<and> image (fd_inner d') = image (fd_inner d) \<and> powered n d' = powered n d"
  proof -
    obtain j where j: "op_sync ops (fd_inner d) = (Ok (), j)" "inv j"
        "op_geometry ops j = op_geometry ops (fd_inner d)" "image j = image (fd_inner d)"
      using lossy_sync_law [OF i] by auto
    let ?d' = "d\<lparr>fd_stats := (fd_stats d)\<lparr>fs_syncs_attempted := fs_syncs_attempted (fd_stats d) + 1\<rparr>, fd_inner := j\<rparr>"
    have "op_sync (fault_ops ops) d = (Ok (), ?d')"
      using p j(1)
      by (simp add: fault_sync_def cthen_run czoom_simp power_loss_plan_def fault_plan_new_def)
    then show ?thesis
      using p j by (intro exI [of _ ?d']) (simp add: powered_def)
  qed
qed

end

interpretation power_mem: lossy_device "fault_ops mem_ops" "\<lambda>d. md_data (fd_inner d)"
  "\<lambda>d. fd_plan d = power_loss_plan n \<and> mem_ok (fd_inner d)" "powered n" for n
  by (rule mem.power_loss_device)

end
