(* ===== verification/Extent_Chain.thy ===== *)
theory Extent_Chain
  imports Inode_Record Block_Device
begin

text \<open>
  Indirect extent chains, \<open>corefs-core/src/storage/ondisk/extent_tree.rs\<close>: the sealed index
  block and \<open>ExtentChain::read_chain\<close>, \<open>read_chain_blocks\<close>, \<open>write_chain\<close> over any block device.
\<close>

definition INDEX_BLOCK_MAGIC :: u32 where "INDEX_BLOCK_MAGIC = 0xEEBEEEBE"
definition EXTENTS_PER_INDEX_BLOCK :: nat where "EXTENTS_PER_INDEX_BLOCK = 254"
definition INDEX_CRC_OFFSET :: nat where "INDEX_CRC_OFFSET = 4092"

lemma index_sizes [simp]: "EXTENTS_PER_INDEX_BLOCK = 254" "INDEX_CRC_OFFSET = 4092"
  by (simp_all add: EXTENTS_PER_INDEX_BLOCK_def INDEX_CRC_OFFSET_def)

record extent_index_block =
  eib_next_index_block :: u64
  eib_extents :: "extent list"

definition eib_empty :: extent_index_block where
  "eib_empty = \<lparr>eib_next_index_block = 0, eib_extents = []\<rparr>"

definition eib_encode :: "extent_index_block \<Rightarrow> bytes result" where
  "eib_encode b =
    (if EXTENTS_PER_INDEX_BLOCK < length (eib_extents b)
     then Err (InvalidInput ''extent index block holds at most '')
     else
       let block = puts [(0, le_bytes 4 INDEX_BLOCK_MAGIC),
                         (4, le_bytes 4 (of_nat (length (eib_extents b)) :: u32)),
                         (8, le_bytes 8 (eib_next_index_block b))] (zeros (unat BLOCK_SIZE)) in
       Ok (crc_seal INDEX_CRC_OFFSET (put_seq extent_bytes 16 16 (eib_extents b) block)))"

definition eib_decode :: "bytes \<Rightarrow> extent_index_block result" where
  "eib_decode block =
    (if length block \<noteq> unat BLOCK_SIZE then Err (InvalidInput ''index block must be '')
     else if crc_stored INDEX_CRC_OFFSET block \<noteq> crc_expected INDEX_CRC_OFFSET block
     then Err (State ''extent index block CRC mismatch (stored=0x'')
     else if from_le (cut 0 4 block) \<noteq> INDEX_BLOCK_MAGIC
     then Err (State ''extent index block bad magic 0x'')
     else
       let count = unat (from_le (cut 4 4 block) :: u32) in
       if EXTENTS_PER_INDEX_BLOCK < count then Err (State ''extent index block declares '')
       else
         Ok \<lparr>eib_next_index_block = from_le (cut 8 8 block),
             eib_extents = get_seq extent_of_bytes 16 16 count block\<rparr>)"

section \<open>Walking and writing a chain\<close>

function read_chain_loop ::
  "'d device_ops \<Rightarrow> 'd \<Rightarrow> u64 \<Rightarrow> u64 set \<Rightarrow> extent list \<Rightarrow> extent list result" where
  "read_chain_loop ops d cursor visited out =
    (if cursor = 0 then Ok out
     else if cursor \<in> visited then Err (State ''extent chain: loop detected at block '')
     else
       rbind (umul cursor BLOCK_SIZE) (\<lambda>off.
       rbind (op_read_at ops d off BLOCK_SIZE) (\<lambda>buf.
       rbind (eib_decode buf) (\<lambda>blk.
       read_chain_loop ops d (eib_next_index_block blk) (insert cursor visited) (out @ eib_extents blk)))))"
  by pat_completeness auto

lemma visit_measure: "cursor \<notin> visited \<Longrightarrow> card (UNIV - insert cursor visited) < card (UNIV - (visited :: u64 set))"
  by (intro psubset_card_mono) auto

termination read_chain_loop
  by (relation "measure (\<lambda>(ops, d, cursor, visited, out). card (UNIV - visited))")
    (simp_all only: wf_measure in_measure prod.case visit_measure not_False_eq_True)

declare read_chain_loop.simps [simp del]

definition read_chain :: "'d device_ops \<Rightarrow> 'd \<Rightarrow> u64 \<Rightarrow> extent list result" where
  "read_chain ops d root_block = (if root_block = 0 then Ok [] else read_chain_loop ops d root_block {} [])"

function read_chain_blocks_loop ::
  "'d device_ops \<Rightarrow> 'd \<Rightarrow> u64 \<Rightarrow> u64 set \<Rightarrow> u64 list \<Rightarrow> u64 list result" where
  "read_chain_blocks_loop ops d cursor visited out =
    (if cursor = 0 then Ok out
     else if cursor \<in> visited then Err (State ''extent chain: loop detected at block '')
     else
       rbind (umul cursor BLOCK_SIZE) (\<lambda>off.
       rbind (op_read_at ops d off BLOCK_SIZE) (\<lambda>buf.
       rbind (eib_decode buf) (\<lambda>blk.
       read_chain_blocks_loop ops d (eib_next_index_block blk) (insert cursor visited) (out @ [cursor])))))"
  by pat_completeness auto

termination read_chain_blocks_loop
  by (relation "measure (\<lambda>(ops, d, cursor, visited, out). card (UNIV - visited))")
    (simp_all only: wf_measure in_measure prod.case visit_measure not_False_eq_True)

declare read_chain_blocks_loop.simps [simp del]

definition read_chain_blocks :: "'d device_ops \<Rightarrow> 'd \<Rightarrow> u64 \<Rightarrow> u64 list result" where
  "read_chain_blocks ops d root_block =
    (if root_block = 0 then Ok [] else read_chain_blocks_loop ops d root_block {} [])"

definition index_blocks_needed :: "nat \<Rightarrow> nat" where
  "index_blocks_needed extent_count = (extent_count + EXTENTS_PER_INDEX_BLOCK - 1) div EXTENTS_PER_INDEX_BLOCK"

text \<open>Iteration \<open>i\<close> of the writer's loop.\<close>

definition write_chain_step :: "'d device_ops \<Rightarrow> extent list \<Rightarrow> u64 list \<Rightarrow> nat \<Rightarrow> nat \<Rightarrow> ('d, unit) cmd" where
  "write_chain_step ops extents reserve_blocks needed i =
    (let start = i * EXTENTS_PER_INDEX_BLOCK;
         stop = min (start + EXTENTS_PER_INDEX_BLOCK) (length extents);
         next_block = (if i + 1 < needed then reserve_blocks ! (i + 1) else 0);
         blk = \<lparr>eib_next_index_block = next_block, eib_extents = cut start (stop - start) extents\<rparr> in
     cbind (clift (eib_encode blk)) (\<lambda>bs.
     cbind (clift (umul (reserve_blocks ! i) BLOCK_SIZE)) (\<lambda>off.
     op_write_at ops off bs)))"

definition write_chain :: "'d device_ops \<Rightarrow> extent list \<Rightarrow> u64 list \<Rightarrow> ('d, u64 list) cmd" where
  "write_chain ops extents reserve_blocks =
    (if extents = [] then cret []
     else
       let needed = (length extents + EXTENTS_PER_INDEX_BLOCK - 1) div EXTENTS_PER_INDEX_BLOCK in
       if length reserve_blocks < needed then cfail (InvalidInput ''write_chain: need '')
       else
         cthen (cfor (write_chain_step ops extents reserve_blocks needed) [0..<needed])
           (cret (map ((!) reserve_blocks) [0..<needed])))"

section \<open>The index block\<close>

definition eib_patches :: "extent_index_block \<Rightarrow> (nat \<times> bytes) list" where
  "eib_patches b =
    [(0, le_bytes 4 INDEX_BLOCK_MAGIC), (4, le_bytes 4 (of_nat (length (eib_extents b)) :: u32)),
     (8, le_bytes 8 (eib_next_index_block b)), (16, concat (map extent_bytes (eib_extents b)))]"

lemma eib_laid: "length (eib_extents b) \<le> 254 \<Longrightarrow> laid 0 (eib_patches b) 4092"
  by (simp add: eib_patches_def)

lemma eib_encode_eq:
  "length (eib_extents b) \<le> 254 \<Longrightarrow> eib_encode b = Ok (crc_seal 4092 (puts (eib_patches b) (zeros 4096)))"
  by (simp add: eib_encode_def eib_patches_def put_seq_concat Let_def)

lemma eib_body:
  assumes "length (eib_extents b) \<le> 254"
  shows "length (puts (eib_patches b) (zeros 4096)) = 4096"
    and "cut 4092 4 (puts (eib_patches b) (zeros 4096)) = zeros 4"
  using eib_laid [OF assms] by (simp_all add: length_puts cut_puts_above)

lemma eib_roundtrip:
  assumes "length (eib_extents b) \<le> 254"
  shows "eib_decode (crc_seal 4092 (puts (eib_patches b) (zeros 4096))) = Ok b"
proof -
  let ?b = "crc_seal 4092 (puts (eib_patches b) (zeros 4096))"
  have f: "cut off n ?b = src" if "(off, src) \<in> set (eib_patches b)" "length src = n" "off + n \<le> 4092" for off src n
    using that cut_puts_field [OF eib_laid [OF assms] _ that(1,2), of "zeros 4096"] eib_body [OF assms] by simp
  have fields: "cut 0 4 ?b = le_bytes 4 INDEX_BLOCK_MAGIC"
    "cut 4 4 ?b = le_bytes 4 (of_nat (length (eib_extents b)) :: u32)"
    "cut 8 8 ?b = le_bytes 8 (eib_next_index_block b)"
    "cut 16 (16 * length (eib_extents b)) ?b = concat (map extent_bytes (eib_extents b))"
    by (rule f; use assms in \<open>simp add: eib_patches_def\<close>)+
  have "unat (of_nat (length (eib_extents b)) :: u32) = length (eib_extents b)"
    using assms by (intro unat_of_nat_ok) simp
  moreover have "get_seq extent_of_bytes 16 16 (length (eib_extents b)) ?b = eib_extents b"
    using fields(4) by (intro get_seq_of_cut [of extent_bytes]) simp_all
  ultimately show ?thesis
    using assms by (simp add: eib_decode_def eib_body fields(1-3))
qed

interpretation eib: sealed_codec eib_encode eib_decode "\<lambda>b. length (eib_extents b) \<le> 254" 4096 4092
proof unfold_locales
  fix x :: extent_index_block and b
  assume l: "length (eib_extents x) \<le> 254"
  show "\<exists>b. eib_encode x = Ok b \<and> length b = 4096 \<and> crc_stored 4092 b = crc_expected 4092 b"
    using l by (simp add: eib_encode_eq eib_body)
  show "eib_encode x = Ok b \<Longrightarrow> eib_decode b = Ok x"
    using l by (auto simp: eib_encode_eq eib_roundtrip)
next
  fix b :: bytes and x
  show "eib_decode b = Ok x \<Longrightarrow> length b = 4096 \<and> crc_stored 4092 b = crc_expected 4092 b"
    by (auto simp: eib_decode_def split: if_splits)
qed simp

section \<open>Visited blocks\<close>

lemma read_chain_blocks_distinct:
  assumes "read_chain_blocks_loop ops d cursor visited out = Ok bs" "distinct out" "set out \<subseteq> visited" "0 \<notin> set out"
  shows "distinct bs \<and> 0 \<notin> set bs"
  using assms
proof (induction ops d cursor visited out rule: read_chain_blocks_loop.induct)
  case (1 ops d cursor visited out)
  show ?case
  proof (cases "cursor = 0")
    case True
    then show ?thesis using "1.prems" by (simp add: read_chain_blocks_loop.simps [of ops d 0])
  next
    case False
    then obtain off buf blk where run: "umul cursor BLOCK_SIZE = Ok off" "op_read_at ops d off BLOCK_SIZE = Ok buf"
        "eib_decode buf = Ok blk" and nv: "cursor \<notin> visited"
        "read_chain_blocks_loop ops d (eib_next_index_block blk) (insert cursor visited) (out @ [cursor]) = Ok bs"
      using "1.prems"(1) by (auto simp: read_chain_blocks_loop.simps [of ops d cursor] rbind_Ok_iff split: if_splits)
    then show ?thesis
      using "1.prems" False by (intro "1.IH" [OF False nv(1) run]) auto
  qed
qed

section \<open>Writing a chain and reading it back\<close>

definition chain_next :: "u64 list \<Rightarrow> nat \<Rightarrow> nat \<Rightarrow> u64" where
  "chain_next reserve_blocks needed i = (if i < needed then reserve_blocks ! i else 0)"

definition chain_piece :: "extent list \<Rightarrow> u64 list \<Rightarrow> nat \<Rightarrow> nat \<Rightarrow> extent_index_block" where
  "chain_piece extents reserve_blocks needed i =
    \<lparr>eib_next_index_block = chain_next reserve_blocks needed (i + 1),
     eib_extents = cut (i * 254) 254 extents\<rparr>"

lemma chain_piece_short: "length (eib_extents (chain_piece extents reserve_blocks needed i)) \<le> 254"
  by (simp add: chain_piece_def cut_def)

lemma write_chain_step_eq:
  "write_chain_step ops extents reserve_blocks needed i =
     cbind (clift (eib_encode (chain_piece extents reserve_blocks needed i))) (\<lambda>bs.
     cbind (clift (umul (reserve_blocks ! i) BLOCK_SIZE)) (\<lambda>off.
     op_write_at ops off bs))"
proof -
  have "cut s (min (s + 254) (length extents) - s) extents = cut s 254 extents" for s
    by (cases "s + 254 \<le> length extents") (auto simp: cut_def min_def)
  then show ?thesis
    by (simp add: write_chain_step_def chain_piece_def chain_next_def Let_def)
qed

context block_device
begin

lemma write_chain_loop:
  assumes "inv d" "\<forall>i < needed. unat (reserve_blocks ! i) < blocks d"
    and "needed \<le> length reserve_blocks" "distinct reserve_blocks" "k \<le> needed"
  shows "\<exists>d'. cfor (write_chain_step ops extents reserve_blocks needed) [0..<k] d = (Ok (), d') \<and> inv d'
     \<and> blocks d' = blocks d
     \<and> (\<forall>i < k. eib_decode (block d' (unat (reserve_blocks ! i))) = Ok (chain_piece extents reserve_blocks needed i))
     \<and> (\<forall>n. n \<notin> unat ` set (take k reserve_blocks) \<longrightarrow> block d' n = block d n)"
  using assms(5)
proof (induction k)
  case 0
  then show ?case using assms(1) by simp
next
  case (Suc k)
  let ?body = "write_chain_step ops extents reserve_blocks needed"
  obtain d1 where d1: "cfor ?body [0..<k] d = (Ok (), d1)" "inv d1" "blocks d1 = blocks d"
    "\<forall>i < k. eib_decode (block d1 (unat (reserve_blocks ! i))) = Ok (chain_piece extents reserve_blocks needed i)"
    "\<forall>n. n \<notin> unat ` set (take k reserve_blocks) \<longrightarrow> block d1 n = block d n"
    using Suc by auto
  have r: "unat (reserve_blocks ! k) < blocks d1"
    using assms(2) Suc.prems d1(3) by simp
  obtain bs where bs: "eib_encode (chain_piece extents reserve_blocks needed k) = Ok bs" "length bs = 4096"
      "eib_decode bs = Ok (chain_piece extents reserve_blocks needed k)"
    using eib.roundtrip [OF chain_piece_short] by blast
  obtain d2 where d2: "op_write_at ops (reserve_blocks ! k * BLOCK_SIZE) bs d1 = (Ok (), d2)" "inv d2"
      "blocks d2 = blocks d1" "\<forall>n. block d2 n = (if n = unat (reserve_blocks ! k) then bs else block d1 n)"
    using write_block [OF d1(2) r bs(2)] by blast
  have "?body k d1 = (Ok (), d2)"
    using bs(1) d2(1) block_offset_umul [OF d1(2) r] by (simp add: write_chain_step_eq cbind_run)
  then have run: "cfor ?body [0..<Suc k] d = (Ok (), d2)"
    using d1(1) by (simp add: cfor_append cthen_run)
  have neq: "unat (reserve_blocks ! i) \<noteq> unat (reserve_blocks ! k)" if "i < k" for i
  proof -
    have "i < length reserve_blocks" "k < length reserve_blocks"
      using that Suc.prems assms(3) by simp_all
    then show ?thesis
      using that nth_eq_iff_index_eq [OF assms(4)] by (simp add: word_unat_eq_iff [symmetric])
  qed
  have "take (Suc k) reserve_blocks = take k reserve_blocks @ [reserve_blocks ! k]"
    using Suc.prems assms(3) by (simp add: take_Suc_conv_app_nth)
  then show ?case
    using run d1 d2 bs(3) neq by (auto simp: less_Suc_eq)
qed

lemma read_chain_from:
  assumes "inv d" "\<forall>i < needed. unat (reserve_blocks ! i) < blocks d \<and> reserve_blocks ! i \<noteq> 0"
    and "needed \<le> length reserve_blocks" "distinct reserve_blocks"
    and "\<forall>i < needed. eib_decode (block d (unat (reserve_blocks ! i))) = Ok (chain_piece extents reserve_blocks needed i)"
    and "length extents \<le> needed * 254" "j \<le> needed"
  shows "read_chain_loop ops d (chain_next reserve_blocks needed j) (set (take j reserve_blocks)) out
     = Ok (out @ drop (j * 254) extents)"
  using assms(7)
proof (induction "needed - j" arbitrary: j out)
  case 0
  then show ?case
    using assms(6) by (simp add: chain_next_def read_chain_loop.simps [of ops d 0])
next
  case (Suc m)
  then have j: "j < needed" by simp
  let ?c = "reserve_blocks ! j"
  have c: "chain_next reserve_blocks needed j = ?c" "?c \<noteq> 0" "unat ?c < blocks d"
    using j assms(2) by (simp_all add: chain_next_def)
  have nv: "?c \<notin> set (take j reserve_blocks)"
    using j assms(3,4) by (auto simp: in_set_conv_nth nth_eq_iff_index_eq)
  have vis: "insert ?c (set (take j reserve_blocks)) = set (take (Suc j) reserve_blocks)"
    using j assms(3) by (simp add: take_Suc_conv_app_nth)
  have "read_chain_loop ops d ?c (set (take j reserve_blocks)) out
     = read_chain_loop ops d (chain_next reserve_blocks needed (Suc j)) (set (take (Suc j) reserve_blocks))
         (out @ cut (j * 254) 254 extents)"
    using c nv assms(5) j block_offset_umul [OF assms(1) c(3)] read_block [OF assms(1) c(3)]
    by (subst read_chain_loop.simps) (simp add: vis chain_piece_def)
  also have "\<dots> = Ok ((out @ cut (j * 254) 254 extents) @ drop (Suc j * 254) extents)"
    using Suc.hyps(2) j by (intro Suc.hyps(1)) auto
  finally have "read_chain_loop ops d ?c (set (take j reserve_blocks)) out
     = Ok (out @ (cut (j * 254) 254 extents @ drop (Suc j * 254) extents))"
    by simp
  moreover have "cut (j * 254) 254 extents @ drop (Suc j * 254) extents = drop (j * 254) extents"
    using append_take_drop_id [of 254 "drop (j * 254) extents"] by (simp add: cut_def add.commute)
  ultimately show ?case
    unfolding c(1) by simp
qed

lemma write_read_chain:
  assumes "inv d" "index_blocks_needed (length extents) \<le> length reserve_blocks" "distinct reserve_blocks"
    and "\<forall>b \<in> set (take (index_blocks_needed (length extents)) reserve_blocks). b \<noteq> 0 \<and> unat b < blocks d"
  shows "\<exists>d'. write_chain ops extents reserve_blocks d
      = (Ok (take (index_blocks_needed (length extents)) reserve_blocks), d') \<and> inv d' \<and> blocks d' = blocks d
    \<and> read_chain ops d' (if extents = [] then 0 else hd reserve_blocks) = Ok extents
    \<and> (\<forall>n. n \<notin> unat ` set (take (index_blocks_needed (length extents)) reserve_blocks) \<longrightarrow> block d' n = block d n)"
proof (cases "extents = []")
  case True
  then show ?thesis
    using assms(1) by (simp add: write_chain_def index_blocks_needed_def read_chain_def)
next
  case False
  let ?n = "index_blocks_needed (length extents)"
  have n: "0 < ?n" "length extents \<le> ?n * 254"
    using False ceil_ge [of 254 "length extents"]
    by (auto simp: index_blocks_needed_def div_greater_zero_iff Suc_le_eq)
  have all: "\<forall>i < ?n. unat (reserve_blocks ! i) < blocks d \<and> reserve_blocks ! i \<noteq> 0"
    using assms(2,4) by (metis length_take min.absorb2 nth_mem nth_take)
  obtain d' where d': "cfor (write_chain_step ops extents reserve_blocks ?n) [0..<?n] d = (Ok (), d')" "inv d'"
    "blocks d' = blocks d"
    "\<forall>i < ?n. eib_decode (block d' (unat (reserve_blocks ! i))) = Ok (chain_piece extents reserve_blocks ?n i)"
    "\<forall>n. n \<notin> unat ` set (take ?n reserve_blocks) \<longrightarrow> block d' n = block d n"
    using write_chain_loop [OF assms(1) _ assms(2,3) order_refl, of extents] all by auto
  have "map ((!) reserve_blocks) [0..<?n] = take ?n reserve_blocks"
    using assms(2) by (intro nth_equalityI) simp_all
  then have w: "write_chain ops extents reserve_blocks d = (Ok (take ?n reserve_blocks), d')"
    using False assms(2) d'(1) by (simp add: write_chain_def index_blocks_needed_def cthen_run Let_def)
  have "hd reserve_blocks = reserve_blocks ! 0"
    using n(1) assms(2) by (intro hd_conv_nth) auto
  then have root: "hd reserve_blocks = chain_next reserve_blocks ?n 0" "hd reserve_blocks \<noteq> 0"
    using n(1) all by (simp_all add: chain_next_def)
  have "read_chain_loop ops d' (chain_next reserve_blocks ?n 0) (set (take 0 reserve_blocks)) []
     = Ok ([] @ drop (0 * 254) extents)"
    by (rule read_chain_from [OF d'(2) _ assms(2,3) d'(4) n(2)]) (use all d'(3) in auto)
  then have "read_chain ops d' (hd reserve_blocks) = Ok extents"
    using root by (simp add: read_chain_def)
  then show ?thesis
    using w d' False by simp
qed

end

section \<open>Properties\<close>

text \<open>
  C39: writing an extent list of any length into enough reserved blocks of an in-memory
  device and walking the chain from its root returns the list; only the blocks reported as
  used are changed.
\<close>

theorem extent_chain_roundtrip:
  assumes "mem_ok d" "distinct reserve" "index_blocks_needed (length es) \<le> length reserve"
    and "\<forall>b \<in> set reserve. b \<noteq> 0 \<and> unat b < mem.blocks d"
  shows "\<exists>d'. write_chain mem_ops es reserve d = (Ok (take (index_blocks_needed (length es)) reserve), d')
    \<and> mem_ok d' \<and> read_chain mem_ops d' (if es = [] then 0 else hd reserve) = Ok es
    \<and> (\<forall>n. n \<notin> unat ` set (take (index_blocks_needed (length es)) reserve) \<longrightarrow> mem.block d' n = mem.block d n)"
  using mem.write_read_chain [OF assms(1,3,2)] assms(4) by (meson in_set_takeD)

lemma mem_new_ok:
  assumes "mem_new cap ss = Ok d" "unat ss dvd 4096"
  shows "mem_ok d" "length (md_data d) = unat cap"
proof -
  have "unat ss dvd unat cap" "0 < unat ss"
    using assms(1) unat_ucast_u32 [of ss]
    by (auto simp: mem_new_def result_iff word_unat_eq_iff unat_mod dvd_eq_mod_eq_0 split: if_splits)
  then show "mem_ok d" "length (md_data d) = unat cap"
    using assms by (auto simp: mem_new_def result_iff mem_ok_def split: if_splits)
qed

lemma mem_new_16: "\<exists>d. mem_new 65536 4096 = Ok d \<and> mem_ok d \<and> mem.blocks d = 16"
proof -
  obtain d where d: "mem_new 65536 4096 = Ok d"
    by (simp add: mem_new_def urem_def)
  then show ?thesis
    using mem_new_ok [OF d] by (simp add: mem.blocks_def)
qed

theorem extent_chain_roundtrip_witness:
  "\<exists>d d'. mem_new 65536 4096 = Ok d \<and> write_chain mem_ops [extent_default] [5, 6] d = (Ok [5], d')
     \<and> read_chain mem_ops d' 5 = Ok [extent_default]"
proof -
  obtain d where d: "mem_new 65536 4096 = Ok d" "mem_ok d" "mem.blocks d = 16"
    using mem_new_16 by blast
  have n: "index_blocks_needed (length [extent_default]) = 1"
    by (simp add: index_blocks_needed_def)
  have "\<forall>b \<in> set [5 :: u64, 6]. b \<noteq> 0 \<and> unat b < mem.blocks d"
    by (simp add: d)
  from extent_chain_roundtrip [OF d(2) _ _ this, of "[extent_default]"] d(1) n show ?thesis
    by auto
qed

end
