(* ===== verification/Journal_Record.thy ===== *)
theory Journal_Record
  imports Superblock
begin

text \<open>
  The on-disk formats of the write-ahead log, \<open>corefs-core/src/storage/ondisk/journal.rs\<close>: the
  journal header block (\<open>JournalHeader\<close>), the operations a record carries (\<open>Op\<close>) and the image
  of a record as \<open>append_record\<close> builds it.
\<close>

definition JOURNAL_MAGIC :: u64 where
  "JOURNAL_MAGIC = from_le [0x43, 0x4F, 0x52, 0x45, 0x4A, 0x52, 0x4E, 0x4C]"

definition RECORD_MAGIC :: u32 where "RECORD_MAGIC = 0xCAFE50ED"
definition RECORD_HEADER_BYTES :: nat where "RECORD_HEADER_BYTES = 40"
definition RECORD_TRAILER_BYTES :: nat where "RECORD_TRAILER_BYTES = 4"
definition HEADER_STRUCT_BYTES :: nat where "HEADER_STRUCT_BYTES = 128"
definition HEADER_CHECKSUM_OFFSET :: nat where "HEADER_CHECKSUM_OFFSET = HEADER_STRUCT_BYTES - 4"
definition JSTATE_CLEAN :: u32 where "JSTATE_CLEAN = 0"
definition JSTATE_DIRTY :: u32 where "JSTATE_DIRTY = 1"

lemma journal_sizes [simp]:
  "RECORD_HEADER_BYTES = 40" "RECORD_TRAILER_BYTES = 4" "HEADER_CHECKSUM_OFFSET = 124"
  by (simp_all add: RECORD_HEADER_BYTES_def RECORD_TRAILER_BYTES_def HEADER_STRUCT_BYTES_def
      HEADER_CHECKSUM_OFFSET_def)

section \<open>Record kinds\<close>

datatype record_kind = Op | Commit | Abort

fun record_kind_code :: "record_kind \<Rightarrow> u16" where
  "record_kind_code Op = 1"
| "record_kind_code Commit = 2"
| "record_kind_code Abort = 3"

definition record_kind_from_u16 :: "u16 \<Rightarrow> record_kind result" where
  "record_kind_from_u16 v =
    (if v = 1 then Ok Op else if v = 2 then Ok Commit else if v = 3 then Ok Abort
     else Err (State ''unknown journal record kind ''))"

lemma record_kind_roundtrip [simp]: "record_kind_from_u16 (record_kind_code k) = Ok k"
  by (cases k) (simp_all add: record_kind_from_u16_def)

section \<open>The journal header\<close>

record journal_header =
  jh_magic :: u64
  jh_version :: u16
  jh_flags :: u16
  jh_head_offset :: u64
  jh_tail_offset :: u64
  jh_next_seq :: u64
  jh_next_txn_id :: u64
  jh_state :: u32
  jh_record_area_bytes :: u64

definition jh_fresh :: "u64 \<Rightarrow> journal_header" where
  "jh_fresh record_area_bytes =
    \<lparr>jh_magic = JOURNAL_MAGIC, jh_version = 1, jh_flags = 0, jh_head_offset = 0, jh_tail_offset = 0,
     jh_next_seq = 0, jh_next_txn_id = 1, jh_state = JSTATE_CLEAN,
     jh_record_area_bytes = record_area_bytes\<rparr>"

definition jh_chunks :: "journal_header \<Rightarrow> bytes list" where
  "jh_chunks h =
     [le_bytes 8 (jh_magic h), le_bytes 2 (jh_version h), le_bytes 2 (jh_flags h),
      le_bytes 8 (jh_head_offset h), le_bytes 8 (jh_tail_offset h), le_bytes 8 (jh_next_seq h),
      le_bytes 8 (jh_next_txn_id h), le_bytes 4 (jh_state h), le_bytes 8 (jh_record_area_bytes h)]"

definition jh_field_sizes :: "nat list" where
  "jh_field_sizes = [8, 2, 2, 8, 8, 8, 8, 4, 8]"

definition jh_encode_block :: "journal_header \<Rightarrow> bytes" where
  "jh_encode_block h =
     crc_seal HEADER_CHECKSUM_OFFSET (puts (place 0 (jh_chunks h)) (zeros (unat BLOCK_SIZE)))"

definition jh_decode_block :: "bytes \<Rightarrow> journal_header result" where
  "jh_decode_block block =
    (if length block \<noteq> unat BLOCK_SIZE then Err (InvalidInput ''journal header: wrong length'')
     else if crc_stored HEADER_CHECKSUM_OFFSET block \<noteq> crc_expected HEADER_CHECKSUM_OFFSET block
     then Err (State ''journal header CRC mismatch'')
     else
       rbind (take_fields jh_field_sizes block 0) (\<lambda>fs.
       if from_le (fs ! 0) \<noteq> JOURNAL_MAGIC then Err (State ''journal header: bad magic'')
       else
         Ok \<lparr>jh_magic = from_le (fs ! 0), jh_version = from_le (fs ! 1), jh_flags = from_le (fs ! 2),
             jh_head_offset = from_le (fs ! 3), jh_tail_offset = from_le (fs ! 4),
             jh_next_seq = from_le (fs ! 5), jh_next_txn_id = from_le (fs ! 6),
             jh_state = from_le (fs ! 7), jh_record_area_bytes = from_le (fs ! 8)\<rparr>))"

lemma jh_chunk_sizes: "map length (jh_chunks h) = jh_field_sizes"
  by (simp add: jh_chunks_def jh_field_sizes_def)

lemma length_jh_chunks: "length (concat (jh_chunks h)) = 56"
  by (simp add: length_concat jh_chunk_sizes) (simp add: jh_field_sizes_def)

definition jh_body :: "journal_header \<Rightarrow> bytes" where
  "jh_body h = put 0 (concat (jh_chunks h)) (zeros 4096)"

lemma length_jh_body [simp]: "length (jh_body h) = 4096"
  by (simp add: jh_body_def length_jh_chunks)

lemma jh_encode_eq: "jh_encode_block h = crc_seal 124 (jh_body h)"
  using puts_place [of 0 "jh_chunks h" "zeros 4096"]
  by (simp add: jh_encode_block_def jh_body_def length_jh_chunks)

lemma length_jh_encode [simp]: "length (jh_encode_block h) = 4096"
  by (simp add: jh_encode_eq)

lemma jh_body_slot: "cut 124 4 (jh_body h) = zeros 4"
  by (simp add: jh_body_def length_jh_chunks)

lemma jh_decode_fields: "take_fields jh_field_sizes (crc_seal 124 (jh_body h)) 0 = Ok (jh_chunks h)"
proof -
  have "cut 0 56 (crc_seal 124 (jh_body h)) = concat (jh_chunks h)"
    by (simp add: jh_body_def length_jh_chunks)
  then show ?thesis
    using take_fields_concat [of 0 "jh_chunks h"] by (simp add: jh_chunk_sizes length_jh_chunks)
qed

lemma jh_roundtrip: "jh_magic h = JOURNAL_MAGIC \<Longrightarrow> jh_decode_block (jh_encode_block h) = Ok h"
  by (simp add: jh_decode_block_def jh_encode_eq jh_body_slot jh_decode_fields)
    (simp add: jh_chunks_def)

interpretation jhdr: sealed_codec "\<lambda>h. Ok (jh_encode_block h)" jh_decode_block
  "\<lambda>h. jh_magic h = JOURNAL_MAGIC" 4096 124
proof unfold_locales
  fix h :: journal_header and b
  assume v: "jh_magic h = JOURNAL_MAGIC"
  show "\<exists>b. Ok (jh_encode_block h) = Ok b \<and> length b = 4096 \<and> crc_stored 124 b = crc_expected 124 b"
    by (simp add: jh_encode_eq jh_body_slot)
  show "Ok (jh_encode_block h) = Ok b \<Longrightarrow> jh_decode_block b = Ok h"
    using v jh_roundtrip by auto
next
  fix b :: bytes and h
  show "jh_decode_block b = Ok h \<Longrightarrow> length b = 4096 \<and> crc_stored 124 b = crc_expected 124 b"
    by (auto simp: jh_decode_block_def split: if_splits)
qed simp

section \<open>Operations\<close>

datatype journal_op =
    BlockWrite u64 bytes
  | InodeUpdate u64 bytes

fun op_encode :: "journal_op \<Rightarrow> bytes" where
  "op_encode (BlockWrite block data) = [1] @ le_bytes 8 block @ le_bytes 4 (of_nat (length data) :: u32) @ data"
| "op_encode (InodeUpdate index data) = [2] @ le_bytes 8 index @ le_bytes 4 (of_nat (length data) :: u32) @ data"

definition op_decode :: "bytes \<Rightarrow> journal_op result" where
  "op_decode payload =
    (if payload = [] then Err (State ''journal op: empty payload'')
     else if payload ! 0 = 1 then
       (if length payload < 1 + 8 + 4 then Err (State ''journal op: truncated BlockWrite'')
        else
          let block = from_le (cut 1 8 payload); len = unat (from_le (cut 9 4 payload) :: u32) in
          if length payload \<noteq> 13 + len then Err (State ''journal op: bad BlockWrite length'')
          else Ok (BlockWrite block (drop 13 payload)))
     else if payload ! 0 = 2 then
       (if length payload < 1 + 8 + 4 then Err (State ''journal op: truncated InodeUpdate'')
        else
          let index = from_le (cut 1 8 payload); len = unat (from_le (cut 9 4 payload) :: u32) in
          if length payload \<noteq> 13 + len then Err (State ''journal op: bad InodeUpdate length'')
          else Ok (InodeUpdate index (drop 13 payload)))
     else Err (State ''journal op: unknown tag ''))"

fun op_data :: "journal_op \<Rightarrow> bytes" where
  "op_data (BlockWrite b data) = data"
| "op_data (InodeUpdate i data) = data"

lemma op_cuts:
  "cut (Suc 0) 8 (t # le_bytes 8 (b :: u64) @ le_bytes 4 (n :: u32) @ data) = le_bytes 8 b"
  "cut 9 4 (t # le_bytes 8 (b :: u64) @ le_bytes 4 (n :: u32) @ data) = le_bytes 4 n"
  "drop 13 (t # le_bytes 8 (b :: u64) @ le_bytes 4 (n :: u32) @ data) = data"
proof -
  have "cut 1 8 ([t] @ le_bytes 8 b @ le_bytes 4 n @ data) = le_bytes 8 b"
    "cut 9 4 ([t] @ le_bytes 8 b @ le_bytes 4 n @ data) = le_bytes 4 n"
    "drop 13 ([t] @ le_bytes 8 b @ le_bytes 4 n @ data) = data"
    by (simp_all add: cut_append_skip cut_append_take del: append_Cons)
  then show "cut (Suc 0) 8 (t # le_bytes 8 b @ le_bytes 4 n @ data) = le_bytes 8 b"
    "cut 9 4 (t # le_bytes 8 b @ le_bytes 4 n @ data) = le_bytes 4 n"
    "drop 13 (t # le_bytes 8 b @ le_bytes 4 n @ data) = data"
    by simp_all
qed

lemma length_op_encode [simp]: "length (op_encode q) = 13 + length (op_data q)"
  by (cases q) simp_all

lemma op_encode_nonempty [simp]: "op_encode q \<noteq> []"
  by (cases q) simp_all

lemma op_roundtrip:
  assumes "length (op_data q) < 2 ^ 32"
  shows "op_decode (op_encode q) = Ok q"
  using assms by (cases q) (simp_all add: op_decode_def op_cuts Let_def unat_of_nat_ok)

lemma op_decode_no_panic: "op_decode payload \<noteq> Panic"
  by (simp add: op_decode_def Let_def)

section \<open>Records\<close>

definition record_header :: "record_kind \<Rightarrow> u64 \<Rightarrow> u64 \<Rightarrow> bytes \<Rightarrow> bytes" where
  "record_header kind txn_id seq payload =
    (let header = puts
           [(0, le_bytes 4 RECORD_MAGIC), (4, le_bytes 2 (record_kind_code kind)), (6, le_bytes 2 (0 :: u16)),
            (8, le_bytes 8 txn_id), (16, le_bytes 8 seq),
            (24, le_bytes 4 (of_nat (length payload) :: u32))]
           (zeros RECORD_HEADER_BYTES) in
     put 28 (le_bytes 4 (crc_hash (put 28 (zeros 4) (take 32 header)))) header)"

definition record_image :: "record_kind \<Rightarrow> u64 \<Rightarrow> u64 \<Rightarrow> bytes \<Rightarrow> bytes" where
  "record_image kind txn_id seq payload =
    (let full = record_header kind txn_id seq payload @ payload in full @ le_bytes 4 (crc_hash full))"

text \<open>The fields \<open>read_record_at\<close> reads from a 40-byte header, and its checksum test.\<close>

definition header_crc_ok :: "bytes \<Rightarrow> bool" where
  "header_crc_ok hb \<longleftrightarrow> crc_hash (put 28 (zeros 4) (take 32 hb)) = from_le (cut 28 4 hb)"

lemma length_record_header [simp]: "length (record_header kind t s p) = 40"
  by (simp add: record_header_def Let_def)

lemma length_record_image [simp]: "length (record_image kind t s p) = 44 + length p"
  by (simp add: record_image_def Let_def)

lemma record_header_fields:
  "from_le (cut 0 4 (record_header kind t s p)) = RECORD_MAGIC"
  "from_le (cut 4 2 (record_header kind t s p)) = record_kind_code kind"
  "from_le (cut 8 8 (record_header kind t s p)) = t"
  "from_le (cut 24 4 (record_header kind t s p)) = (of_nat (length p) :: u32)"
  by (simp_all add: record_header_def Let_def)

lemma header_crc_ok_record: "header_crc_ok (record_header kind t s p)"
proof -
  let ?h = "puts [(0, le_bytes 4 RECORD_MAGIC), (4, le_bytes 2 (record_kind_code kind)), (6, le_bytes 2 (0 :: u16)),
            (8, le_bytes 8 t), (16, le_bytes 8 s), (24, le_bytes 4 (of_nat (length p) :: u32))] (zeros 40)"
  have "put 28 (zeros 4) (take 32 (put 28 w ?h)) = put 28 (zeros 4) (take 32 ?h)" if "length w = 4" for w
    using that by (intro buf_eqI) (auto simp: nth_put)
  then show ?thesis
    by (simp add: header_crc_ok_def record_header_def Let_def)
qed

lemma record_header_nonzero: "\<not> list_all (\<lambda>b. b = 0) (record_header kind t s p)"
proof
  assume "list_all (\<lambda>b. b = 0) (record_header kind t s p)"
  then have "\<forall>b \<in> set (cut 0 4 (record_header kind t s p)). b = 0"
    by (auto simp: list_all_iff cut_def dest: in_set_takeD)
  then have "cut 0 4 (record_header kind t s p) = zeros 4"
    by (intro buf_eqI) (simp_all add: zeros_def)
  then have "RECORD_MAGIC = from_le (zeros 4)"
    using record_header_fields(1) [of kind t s p] by simp
  then show False
    by (simp add: RECORD_MAGIC_def zeros_le_bytes [where 'a = 32])
qed

end
