(* ===== verification/Journal.thy ===== *)
theory Journal
  imports Journal_Record Inode_Record Block_Device
begin

text \<open>
  The write-ahead log, \<open>corefs-core/src/storage/ondisk/journal.rs\<close>: \<open>Journal\<close> and \<open>TxnBuilder\<close>
  over any block device.  A \<open>Journal\<close> borrows its device mutably, so the device is a field of
  the journal's state; \<open>format\<close> and \<open>open\<close> return the handle and leave the device as the
  handle holds it.
\<close>

section \<open>State\<close>

record 'd journal =
  jn_device :: 'd
  jn_header_block :: u64
  jn_record_start_block :: u64
  jn_header :: journal_header

record txn_builder =
  tb_txn_id :: u64
  tb_ops :: "journal_op list"

record decoded_record =
  dr_kind :: record_kind
  dr_txn_id :: u64
  dr_payload :: bytes
  dr_encoded_len :: u64

record replayed_txn =
  rt_txn_id :: u64
  rt_ops :: nat

text \<open>A device operation issued through the journal.\<close>

definition jdev :: "('d, 'a) cmd \<Rightarrow> ('d journal, 'a) cmd" where
  "jdev m = czoom jn_device (\<lambda>d j. j\<lparr>jn_device := d\<rparr>) m"

definition jset :: "(journal_header \<Rightarrow> journal_header) \<Rightarrow> ('d journal, unit) cmd" where
  "jset f = cmod (\<lambda>j. j\<lparr>jn_header := f (jn_header j)\<rparr>)"

definition copy_into :: "nat \<Rightarrow> bytes \<Rightarrow> bytes \<Rightarrow> bytes result" where
  "copy_into off src buf = (if off + length src \<le> length buf then Ok (put off src buf) else Panic)"

section \<open>Format, open, begin\<close>

definition journal_format :: "'d device_ops \<Rightarrow> superblock \<Rightarrow> ('d, 'd journal) cmd" where
  "journal_format ops sb =
    (if sb_journal_blocks sb < 2 then cfail (InvalidInput ''journal region must be at least 2 blocks'')
     else
       cbind (clift (umul (sb_journal_blocks sb - 1) BLOCK_SIZE)) (\<lambda>record_area_bytes.
       let header = jh_fresh record_area_bytes; header_block = sb_journal_start sb in
       cbind (clift (uadd header_block 1)) (\<lambda>record_start_block.
       cbind (clift (umul header_block BLOCK_SIZE)) (\<lambda>off.
       cthen (op_write_at ops off (jh_encode_block header))
      (cbind (clift (umul record_start_block BLOCK_SIZE)) (\<lambda>off.
       cthen (op_write_at ops off (zeros (unat BLOCK_SIZE)))
      (cthen (op_sync ops)
      (\<lambda>d. (Ok \<lparr>jn_device = d, jn_header_block = header_block,
                jn_record_start_block = record_start_block, jn_header = header\<rparr>, d)))))))))"

definition journal_inspect :: "'d device_ops \<Rightarrow> 'd \<Rightarrow> superblock \<Rightarrow> journal_header result" where
  "journal_inspect ops d sb =
     rbind (umul (sb_journal_start sb) BLOCK_SIZE) (\<lambda>off.
     rbind (op_read_at ops d off BLOCK_SIZE) jh_decode_block)"

definition journal_open :: "'d device_ops \<Rightarrow> 'd \<Rightarrow> superblock \<Rightarrow> 'd journal result" where
  "journal_open ops d sb =
     rbind (umul (sb_journal_start sb) BLOCK_SIZE) (\<lambda>off.
     rbind (op_read_at ops d off BLOCK_SIZE) (\<lambda>block.
     rbind (jh_decode_block block) (\<lambda>header.
     rbind (uadd (sb_journal_start sb) 1) (\<lambda>record_start.
       Ok \<lparr>jn_device = d, jn_header_block = sb_journal_start sb,
           jn_record_start_block = record_start, jn_header = header\<rparr>))))"

definition journal_begin :: "('d journal, txn_builder) cmd" where
  "journal_begin =
     (\<lambda>j. (Ok \<lparr>tb_txn_id = jh_next_txn_id (jn_header j), tb_ops = []\<rparr>,
          j\<lparr>jn_header := (jn_header j)\<lparr>jh_next_txn_id := sat_add (jh_next_txn_id (jn_header j)) 1\<rparr>\<rparr>))"

definition txn_push :: "journal_op \<Rightarrow> txn_builder \<Rightarrow> txn_builder" where
  "txn_push q t = t\<lparr>tb_ops := tb_ops t @ [q]\<rparr>"

section \<open>Byte access to the record area\<close>

text \<open>
  The sector-aligned window of \<open>read_bytes\<close> and \<open>write_bytes\<close>: its start, its length and the
  position of the wanted bytes in it.
\<close>

definition record_window :: "'d device_ops \<Rightarrow> 'd journal \<Rightarrow> u64 \<Rightarrow> u64 \<Rightarrow> (u64 \<times> u64 \<times> u64) result" where
  "record_window ops j offset len =
    (let sector = ucast (dev_sector_size ops (jn_device j)) in
     rbind (umul (jn_record_start_block j) BLOCK_SIZE) (\<lambda>area.
     rbind (uadd area offset) (\<lambda>device_offset.
     rbind (udiv device_offset sector) (\<lambda>q.
     rbind (umul q sector) (\<lambda>aligned_start.
     rbind (uadd device_offset len) (\<lambda>end.
     rbind (umul (div_ceil end sector) sector) (\<lambda>aligned_end.
     rbind (usub aligned_end aligned_start) (\<lambda>n.
     rbind (usub device_offset aligned_start) (\<lambda>start_in.
       Ok (aligned_start, n, start_in))))))))))"

definition read_bytes :: "'d device_ops \<Rightarrow> 'd journal \<Rightarrow> u64 \<Rightarrow> u64 \<Rightarrow> bytes result" where
  "read_bytes ops j offset len =
    (if len = 0 then Ok []
     else
       rbind (record_window ops j offset len) (\<lambda>(aligned_start, n, start_in).
       rbind (op_read_at ops (jn_device j) aligned_start n) (\<lambda>raw.
         cut_res (unat start_in) (unat len) raw)))"

definition write_bytes :: "'d device_ops \<Rightarrow> u64 \<Rightarrow> bytes \<Rightarrow> ('d journal, unit) cmd" where
  "write_bytes ops offset data =
    (if data = [] then cret ()
     else
       cbind (cread (\<lambda>j. record_window ops j offset (of_nat (length data)))) (\<lambda>(aligned_start, n, start_in).
       cbind (cread (\<lambda>j. op_read_at ops (jn_device j) aligned_start n)) (\<lambda>buf.
       cbind (clift (copy_into (unat start_in) data buf)) (\<lambda>buf.
         jdev (op_write_at ops aligned_start buf)))))"

section \<open>Records\<close>

definition read_record_at :: "'d device_ops \<Rightarrow> 'd journal \<Rightarrow> u64 \<Rightarrow> decoded_record option result" where
  "read_record_at ops j offset =
     rbind (read_bytes ops j offset (of_nat RECORD_HEADER_BYTES)) (\<lambda>hb.
     if list_all (\<lambda>b. b = 0) hb then Ok None
     else if from_le (cut 0 4 hb) \<noteq> RECORD_MAGIC then Ok None
     else
       let kind = from_le (cut 4 2 hb); txn_id = from_le (cut 8 8 hb);
           payload_len = ucast (from_le (cut 24 4 hb) :: u32) in
       if \<not> header_crc_ok hb then Ok None
       else
         rbind (uadd offset (of_nat RECORD_HEADER_BYTES)) (\<lambda>po.
         rbind (read_bytes ops j po payload_len) (\<lambda>payload.
         rbind (uadd po payload_len) (\<lambda>to'.
         rbind (read_bytes ops j to' (of_nat RECORD_TRAILER_BYTES)) (\<lambda>trailer.
         if crc_hash (hb @ payload) \<noteq> from_le trailer then Ok None
         else
           rbind (record_kind_from_u16 kind) (\<lambda>kind.
             Ok (Some \<lparr>dr_kind = kind, dr_txn_id = txn_id, dr_payload = payload,
                       dr_encoded_len = of_nat RECORD_HEADER_BYTES + payload_len + of_nat RECORD_TRAILER_BYTES\<rparr>)))))))"

definition append_record :: "'d device_ops \<Rightarrow> record_kind \<Rightarrow> u64 \<Rightarrow> bytes \<Rightarrow> ('d journal, unit) cmd" where
  "append_record ops kind txn_id payload =
    (let total = of_nat (RECORD_HEADER_BYTES + length payload + RECORD_TRAILER_BYTES) in
     cthen (cread (\<lambda>j. rbind (uadd (jh_tail_offset (jn_header j)) total) (\<lambda>e.
              if e > jh_record_area_bytes (jn_header j)
              then Err (State ''journal: record area full'') else Ok ())))
    (cbind (cread (\<lambda>j. Ok (jn_header j))) (\<lambda>h.
     cthen (write_bytes ops (jh_tail_offset h) (record_image kind txn_id (jh_next_seq h) payload))
    (cbind (clift (uadd (jh_tail_offset h) total)) (\<lambda>tail.
     cthen (jset (\<lambda>h. h\<lparr>jh_tail_offset := tail\<rparr>))
    (cbind (clift (uadd (jh_next_seq h) 1)) (\<lambda>seq.
       jset (\<lambda>h. h\<lparr>jh_next_seq := seq\<rparr>))))))))"

definition flush_header :: "'d device_ops \<Rightarrow> ('d journal, unit) cmd" where
  "flush_header ops =
     cbind (cread (\<lambda>j. umul (jn_header_block j) BLOCK_SIZE)) (\<lambda>off.
     cbind (cread (\<lambda>j. Ok (jh_encode_block (jn_header j)))) (\<lambda>block.
     cthen (jdev (op_write_at ops off block))
       (jdev (op_sync ops))))"

section \<open>Transactions\<close>

definition txn_commit :: "'d device_ops \<Rightarrow> txn_builder \<Rightarrow> ('d journal, u64) cmd" where
  "txn_commit ops t =
    (if tb_ops t = [] then cfail (InvalidInput ''journal: cannot commit an empty transaction'')
     else
       cthen (jset (\<lambda>h. h\<lparr>jh_state := JSTATE_DIRTY\<rparr>))
      (cthen (flush_header ops)
      (cthen (cfor (\<lambda>q. append_record ops Op (tb_txn_id t) (op_encode q)) (tb_ops t))
      (cthen (jdev (op_sync ops))
      (cthen (append_record ops Commit (tb_txn_id t) [])
      (cthen (jdev (op_sync ops))
      (cthen (flush_header ops)
        (cret (tb_txn_id t)))))))))"

definition txn_abort :: "'d device_ops \<Rightarrow> txn_builder \<Rightarrow> ('d journal, unit) cmd" where
  "txn_abort ops t =
     cthen (append_record ops Abort (tb_txn_id t) []) (jdev (op_sync ops))"

definition checkpoint :: "'d device_ops \<Rightarrow> ('d journal, unit) cmd" where
  "checkpoint ops =
     cthen (jset (\<lambda>h. h\<lparr>jh_head_offset := 0, jh_tail_offset := 0, jh_state := JSTATE_CLEAN\<rparr>))
    (cbind (cread (\<lambda>j. umul (jn_record_start_block j) BLOCK_SIZE)) (\<lambda>off.
     cthen (jdev (op_write_at ops off (zeros (unat BLOCK_SIZE))))
       (flush_header ops)))"

section \<open>Replay\<close>

definition apply_op :: "'d device_ops \<Rightarrow> journal_op \<Rightarrow> ('d journal, unit) cmd" where
  "apply_op ops q =
    (case q of
       BlockWrite block data \<Rightarrow>
         if (of_nat (length data) :: u64) \<noteq> BLOCK_SIZE
         then cfail (State ''replay: BlockWrite payload is not one full block'')
         else cbind (clift (umul block BLOCK_SIZE)) (\<lambda>off. jdev (op_write_at ops off data))
     | InodeUpdate index data \<Rightarrow>
         if length data \<noteq> INODE_RECORD_SIZE
         then cfail (State ''replay: InodeUpdate record has wrong length'')
         else
           cbind (cread (\<lambda>j. op_read_at ops (jn_device j) (PRIMARY_SUPERBLOCK_BLOCK * BLOCK_SIZE) BLOCK_SIZE)) (\<lambda>sb_bytes.
           cbind (clift (sb_decode_block sb_bytes)) (\<lambda>sb.
           cbind (clift (inode_record_location (sb_geometry sb) index)) (\<lambda>(block, offset_in_block).
           cbind (clift (umul block BLOCK_SIZE)) (\<lambda>off.
           cbind (cread (\<lambda>j. op_read_at ops (jn_device j) off BLOCK_SIZE)) (\<lambda>buf.
           cbind (clift (copy_into (unat offset_in_block) data buf)) (\<lambda>buf.
             jdev (op_write_at ops off buf))))))))"

type_synonym pending = "u64 \<rightharpoonup> journal_op list"

definition replay_record ::
  "'d device_ops \<Rightarrow> decoded_record \<Rightarrow> pending \<Rightarrow> replayed_txn list \<Rightarrow> ('d journal, pending \<times> replayed_txn list) cmd" where
  "replay_record ops r pending applied =
    (case dr_kind r of
       Op \<Rightarrow>
         cbind (clift (op_decode (dr_payload r))) (\<lambda>q.
           cret (pending(dr_txn_id r \<mapsto> (case pending (dr_txn_id r) of Some qs \<Rightarrow> qs | None \<Rightarrow> []) @ [q]), applied))
     | Commit \<Rightarrow>
         (case pending (dr_txn_id r) of
            Some qs \<Rightarrow>
              cthen (cfor (apply_op ops) qs)
                (cret (pending(dr_txn_id r := None), applied @ [\<lparr>rt_txn_id = dr_txn_id r, rt_ops = length qs\<rparr>]))
          | None \<Rightarrow> cret (pending, applied))
     | Abort \<Rightarrow> cret (pending(dr_txn_id r := None), applied))"

lemma read_record_len:
  assumes "read_record_at ops j c = Ok (Some r)"
  shows "44 \<le> unat (dr_encoded_len r)"
proof -
  obtain n :: u32 where n: "dr_encoded_len r = 40 + ucast n + 4"
    using assms by (auto simp: read_record_at_def result_iff Let_def split: if_splits)
  have "unat (40 + ucast n + 4 :: u64) = 44 + unat n"
    using unat_lt [of n] by (simp add: unat_word_ariths unat_ucast_u32)
  then show ?thesis
    by (simp add: n)
qed

text \<open>
  The scanning loop.  It ends because every record it accepts is at least 44 bytes long.
\<close>

function replay_loop ::
  "'d device_ops \<Rightarrow> u64 \<Rightarrow> u64 \<Rightarrow> pending \<Rightarrow> replayed_txn list \<Rightarrow> ('d journal, replayed_txn list) cmd" where
  "replay_loop ops tail cursor pending applied j =
    (if \<not> cursor < tail then (Ok applied, j)
     else
       case read_record_at ops j cursor of
         Panic \<Rightarrow> (Panic, j)
       | Err e \<Rightarrow> (Err e, j)
       | Ok None \<Rightarrow> (Ok applied, j)
       | Ok (Some r) \<Rightarrow>
           (case uadd cursor (dr_encoded_len r) of
              Panic \<Rightarrow> (Panic, j)
            | Err e \<Rightarrow> (Err e, j)
            | Ok cursor' \<Rightarrow>
                (case replay_record ops r pending applied j of
                   (Panic, j') \<Rightarrow> (Panic, j')
                 | (Err e, j') \<Rightarrow> (Err e, j')
                 | (Ok (pending', applied'), j') \<Rightarrow> replay_loop ops tail cursor' pending' applied' j')))"
  by pat_completeness auto
termination
proof (relation "measure (\<lambda>(ops, tail, cursor, p, a, j). unat tail - unat cursor)", goal_cases)
  case (2 ops tail cursor pending applied j x2 r cursor' p j' y pending' applied')
  then have "unat cursor < unat cursor'"
    using read_record_len [of ops j cursor r]
    by (auto simp: result_iff unat_add_ok)
  moreover have "unat cursor < unat tail"
    using 2 by (simp add: word_less_nat_alt)
  ultimately show ?case
    by simp
qed simp

declare replay_loop.simps [simp del]

definition replay :: "'d device_ops \<Rightarrow> ('d journal, replayed_txn list) cmd" where
  "replay ops =
     cbind (cread (\<lambda>j. Ok (jn_header j))) (\<lambda>h.
     cbind (replay_loop ops (jh_tail_offset h) (jh_head_offset h) (\<lambda>_. None) []) (\<lambda>applied.
     cthen (if applied \<noteq> [] then jdev (op_sync ops) else cret ())
       (cret applied)))"

end
