(* ===== verification/Journal_Log.thy ===== *)
theory Journal_Log
  imports Journal
begin

text \<open>
  What the write-ahead log promises.  The log is abstracted to a list of numbered items; a
  device image \<open>log_on\<close> holds it when the header block and the record area encode it.  The
  operations of \<open>Journal\<close> are refined against this view on any \<open>lossy_device\<close>: the
  image they leave is the old one with a prefix of a known sequence of writes applied.
\<close>

section \<open>Sequences of writes\<close>

definition within :: "nat \<Rightarrow> (nat \<times> bytes) list \<Rightarrow> bool" where
  "within n ws \<longleftrightarrow> (\<forall>(off, src) \<in> set ws. off + length src \<le> n)"

lemma within_simps [simp]:
  "within n []" "within n ((off, src) # ws) \<longleftrightarrow> off + length src \<le> n \<and> within n ws"
  "within n (ws @ vs) \<longleftrightarrow> within n ws \<and> within n vs"
  by (auto simp: within_def)

lemma within_take: "within n ws \<Longrightarrow> within n (take k ws)"
  by (auto simp: within_def dest: in_set_takeD)

lemma length_puts_within [simp]: "within (length buf) ws \<Longrightarrow> length (puts ws buf) = length buf"
  by (induction ws buf rule: puts.induct) simp_all

lemma puts_append: "puts (ws @ vs) buf = puts vs (puts ws buf)"
  by (induction ws buf rule: puts.induct) simp_all

text \<open>The byte a sequence of writes leaves at a position: the last write that covers it wins.\<close>

fun last_write :: "(nat \<times> bytes) list \<Rightarrow> nat \<Rightarrow> u8 option" where
  "last_write [] i = None"
| "last_write ((off, src) # ws) i =
     (case last_write ws i of
        Some b \<Rightarrow> Some b
      | None \<Rightarrow> if off \<le> i \<and> i < off + length src then Some (src ! (i - off)) else None)"

lemma nth_puts: "within (length buf) ws \<Longrightarrow> i < length buf \<Longrightarrow>
   puts ws buf ! i = (case last_write ws i of Some b \<Rightarrow> b | None \<Rightarrow> buf ! i)"
  by (induction ws buf rule: puts.induct) (auto simp: nth_put split: option.splits)

lemma last_write_append:
  "last_write (ws @ vs) i = (case last_write vs i of Some b \<Rightarrow> Some b | None \<Rightarrow> last_write ws i)"
  by (induction ws i rule: last_write.induct) (auto split: option.splits)

text \<open>Writing a prefix first changes nothing: redo is idempotent.\<close>

lemma puts_redo:
  assumes "within (length buf) ws"
  shows "puts ws (puts (take k ws) buf) = puts ws buf"
proof (rule buf_eqI)
  fix i
  assume "i < length (puts ws (puts (take k ws) buf))"
  then have i: "i < length buf"
    using assms by (simp add: within_take)
  have "last_write ws i = None \<Longrightarrow> last_write (take k ws) i = None"
    using last_write_append [of "take k ws" "drop k ws" i] by (auto split: option.splits)
  then show "puts ws (puts (take k ws) buf) ! i = puts ws buf ! i"
    using assms i by (auto simp: nth_puts within_take split: option.splits)
qed (use assms in \<open>simp add: within_take\<close>)

lemma cut_puts_outside:
  assumes "within (length buf) ws" "\<And>off src. (off, src) \<in> set ws \<Longrightarrow> a + n \<le> off \<or> off + length src \<le> a"
  shows "cut a n (puts ws buf) = cut a n buf"
  using assms
proof (induction ws buf rule: puts.induct)
  case (2 off src ps buf)
  then have "a + n \<le> off \<or> off + length src \<le> a" "off + length src \<le> length buf"
    by auto
  then have "cut a n (put off src buf) = cut a n buf"
    by auto
  then show ?case
    using 2 by simp
qed simp

lemma within_place: "c + length (concat ss) \<le> n \<Longrightarrow> within n (place c ss)"
  by (induction ss arbitrary: c) auto

lemma set_place: "(off, src) \<in> set (place c ss) \<Longrightarrow> c \<le> off \<and> off + length src \<le> c + length (concat ss)"
  by (induction ss arbitrary: c) fastforce+

lemma length_place [simp]: "length (place c ss) = length ss"
  by (induction ss arbitrary: c) simp_all

lemma place_append: "place c (ss @ ts) = place c ss @ place (c + length (concat ss)) ts"
  by (induction ss arbitrary: c) (simp_all add: add.assoc)

section \<open>The abstract log\<close>

datatype log_item =
    LogOp u64 journal_op
  | LogCommit u64
  | LogAbort u64

text \<open>The transactions a scan applies, in commit order, with their operations.\<close>

fun committed :: "log_item list \<Rightarrow> pending \<Rightarrow> (u64 \<times> journal_op list) list" where
  "committed [] p = []"
| "committed (LogOp t q # is) p =
     committed is (p(t \<mapsto> (case p t of Some qs \<Rightarrow> qs | None \<Rightarrow> []) @ [q]))"
| "committed (LogCommit t # is) p =
     (case p t of Some qs \<Rightarrow> (t, qs) # committed is (p(t := None)) | None \<Rightarrow> committed is p)"
| "committed (LogAbort t # is) p = committed is (p(t := None))"

fun item_image :: "u64 \<times> log_item \<Rightarrow> bytes" where
  "item_image (s, LogOp t q) = record_image Op t s (op_encode q)"
| "item_image (s, LogCommit t) = record_image Commit t s []"
| "item_image (s, LogAbort t) = record_image Abort t s []"

definition log_bytes :: "(u64 \<times> log_item) list \<Rightarrow> bytes" where
  "log_bytes es = concat (map item_image es)"

fun number :: "u64 \<Rightarrow> 'a list \<Rightarrow> (u64 \<times> 'a) list" where
  "number s [] = []"
| "number s (x # xs) = (s, x) # number (s + 1) xs"

fun small_item :: "log_item \<Rightarrow> bool" where
  "small_item (LogOp t q) \<longleftrightarrow> length (op_data q) < 2 ^ 32 - 13"
| "small_item (LogCommit t) \<longleftrightarrow> True"
| "small_item (LogAbort t) \<longleftrightarrow> True"

lemma log_bytes_simps [simp]:
  "log_bytes [] = []" "log_bytes (e # es) = item_image e @ log_bytes es"
  "log_bytes (es @ es') = log_bytes es @ log_bytes es'"
  by (simp_all add: log_bytes_def)

lemma number_append: "number s (xs @ ys) = number s xs @ number (s + of_nat (length xs)) ys"
  by (induction xs arbitrary: s) (simp_all add: add.assoc)

lemma map_snd_number [simp]: "map snd (number s xs) = xs"
  by (induction xs arbitrary: s) simp_all

lemma length_number [simp]: "length (number s xs) = length xs"
  by (induction xs arbitrary: s) simp_all

lemma item_image_nonempty: "44 \<le> length (item_image e)"
  by (cases e; cases "snd e") auto

text \<open>What an operation writes, and when the device can take it outside the journal.\<close>

fun op_target :: "superblock \<Rightarrow> journal_op \<Rightarrow> (u64 \<times> u64) result" where
  "op_target sb (BlockWrite b data) = (if length data = 4096 then Ok (b, 0) else Err (State ''size''))"
| "op_target sb (InodeUpdate i data) =
     (if length data = 256 then inode_record_location (sb_geometry sb) i else Err (State ''size''))"

definition op_write :: "superblock \<Rightarrow> journal_op \<Rightarrow> nat \<times> bytes" where
  "op_write sb q = (case op_target sb q of Ok (b, off) \<Rightarrow> (unat b * 4096 + unat off, op_data q) | _ \<Rightarrow> (0, []))"

text \<open>A block that holds a superblock of the same geometry.\<close>

definition same_volume :: "superblock \<Rightarrow> bytes \<Rightarrow> bool" where
  "same_volume sb block \<longleftrightarrow> (\<exists>sb'. sb_decode_block block = Ok sb' \<and> sb_geometry sb' = sb_geometry sb)"

lemma same_volume_decode: "sb_decode_block block = Ok sb \<Longrightarrow> same_volume sb block"
  by (auto simp: same_volume_def)

text \<open>
  \<open>lo\<close> and \<open>hi\<close> delimit the journal region in bytes, \<open>n\<close> is the size of the device.  A logged
  superblock must describe the same volume.
\<close>

definition valid_op :: "superblock \<Rightarrow> nat \<Rightarrow> nat \<Rightarrow> nat \<Rightarrow> journal_op \<Rightarrow> bool" where
  "valid_op sb lo hi n q \<longleftrightarrow>
     (case op_target sb q of
        Ok (b, off) \<Rightarrow> (b = 1 \<longrightarrow> length (op_data q) = 4096 \<and> same_volume sb (op_data q))
          \<and> unat b * 4096 + 4096 \<le> n
          \<and> (unat b * 4096 + 4096 \<le> lo \<or> hi \<le> unat b * 4096)
      | _ \<Rightarrow> False)"

text \<open>Only operations that were logged under a committed transaction are applied.\<close>

lemma committed_sound_gen:
  assumes "(t, qs) \<in> set (committed is p)" "q \<in> set qs"
  shows "LogCommit t \<in> set is \<and> (LogOp t q \<in> set is \<or> (\<exists>qs'. p t = Some qs' \<and> q \<in> set qs'))"
  using assms
proof (induction "is" p rule: committed.induct)
  case (2 t' q' "is" p)
  then show ?case
    using "2.IH" [OF _ "2.prems"(2)] "2.prems"(1) by (auto split: if_splits option.splits simp del: fun_upd_apply) 
      (auto split: if_splits option.splits)
next
  case (3 t' "is" p)
  then show ?case
    using 3 by (cases "p t'") (auto split: if_splits simp del: fun_upd_apply, auto split: if_splits)
next
  case (4 t' "is" p)
  from "4.IH" [OF _ "4.prems"(2)] "4.prems"(1) have "LogCommit t \<in> set is \<and>
      (LogOp t q \<in> set is \<or> (\<exists>qs'. (p(t' := None)) t = Some qs' \<and> q \<in> set qs'))"
    by (simp del: fun_upd_apply)
  then show ?case
    by (auto split: if_splits)
qed simp

lemma committed_ops:
  "committed (map (LogOp t) qs @ is) p =
     (if qs = [] then committed is p
      else committed is (p(t \<mapsto> (case p t of Some qs' \<Rightarrow> qs' | None \<Rightarrow> []) @ qs)))"
  by (induction qs arbitrary: p) (simp_all split: option.splits)

lemma committed_append_txn:
  assumes "qs \<noteq> []"
    and "\<And>q. LogOp t q \<notin> set is" "p t = None"
  shows "committed (is @ map (LogOp t) qs @ [LogCommit t]) p = committed is p @ [(t, qs)]"
  using assms(2,3)
proof (induction "is" p rule: committed.induct)
  case (1 p)
  then show ?case using assms(1) by (simp add: committed_ops)
next
  case (2 t' q' "is" p)
  then have "t' \<noteq> t" by auto
  moreover from this 2 have "committed (is @ map (LogOp t) qs @ [LogCommit t])
      (p(t' \<mapsto> (case p t' of Some qs \<Rightarrow> qs | None \<Rightarrow> []) @ [q'])) =
    committed is (p(t' \<mapsto> (case p t' of Some qs \<Rightarrow> qs | None \<Rightarrow> []) @ [q'])) @ [(t, qs)]"
    by (intro "2.IH") auto
  ultimately show ?case by (simp del: fun_upd_apply)
next
  case (3 t' "is" p)
  have "(p(t' := None)) t = None" "\<And>q. LogOp t q \<notin> set is"
    using "3.prems" by auto
  with 3 show ?case
    by (cases "p t'") (simp_all del: fun_upd_apply)
next
  case (4 t' "is" p)
  have "(p(t' := None)) t = None" "\<And>q. LogOp t q \<notin> set is"
    using "4.prems" by auto
  with 4 show ?case
    by (simp del: fun_upd_apply)
qed

section \<open>Images that hold a log\<close>

definition log_on :: "superblock \<Rightarrow> (u64 \<times> log_item) list \<Rightarrow> journal_header \<Rightarrow> bytes \<Rightarrow> bool" where
  "log_on sb es h img \<longleftrightarrow>
     (let js = unat (sb_journal_start sb); area = js * 4096 + 4096 in
      cut (js * 4096) 4096 img = jh_encode_block h \<and> jh_magic h = JOURNAL_MAGIC
      \<and> list_all (\<lambda>e. small_item (snd e)) es
      \<and> unat (jh_tail_offset h) = unat (jh_head_offset h) + length (log_bytes es)
      \<and> cut (area + unat (jh_head_offset h)) (length (log_bytes es)) img = log_bytes es
      \<and> unat (jh_tail_offset h) \<le> unat (jh_record_area_bytes h)
      \<and> area + unat (jh_record_area_bytes h) \<le> length img)"

end
