(* ===== verification/Journal_Refine.thy ===== *)
theory Journal_Refine
  imports Journal_Log Fault_Injection
begin

text \<open>
  The journal's operations on any device that keeps the \<open>lossy_device\<close> contract, refined
  against the abstract log: what each one writes, in which order, and what a replay of the
  surviving image does.
\<close>

section \<open>The sector-aligned window\<close>

lemma window_nat:
  assumes "0 < (s::nat)" "s dvd n" "p + l \<le> n"
  shows "p div s * s \<le> p" "p + l \<le> (p + l + s - 1) div s * s" "(p + l + s - 1) div s * s \<le> n"
proof -
  show "p div s * s \<le> p" by simp
  let ?e = "p + l"
  have "?e + s - 1 = (?e + s - 1) div s * s + (?e + s - 1) mod s" "(?e + s - 1) mod s < s"
    using assms(1) by simp_all
  then show "?e \<le> (?e + s - 1) div s * s" by linarith
  obtain m where n: "n = s * m" using assms(2) by auto
  have "?e + s - 1 < (m + 1) * s"
    using assms(1,3) by (simp add: n mult.commute)
  then have "(?e + s - 1) div s < m + 1"
    by (rule less_mult_imp_div_less)
  then show "(?e + s - 1) div s * s \<le> n"
    by (simp add: n)
qed

text \<open>Byte position of the record area.\<close>

definition area_start :: "'d journal \<Rightarrow> nat" where
  "area_start j = unat (jn_record_start_block j) * 4096"

lemma area_start_simps [simp]:
  "area_start (j\<lparr>jn_device := d\<rparr>) = area_start j" "area_start (j\<lparr>jn_header := h\<rparr>) = area_start j"
  by (simp_all add: area_start_def)

text \<open>The header after \<open>k\<close> records of \<open>n\<close> bytes in all were appended.\<close>

definition advance :: "nat \<Rightarrow> nat \<Rightarrow> journal_header \<Rightarrow> journal_header" where
  "advance n k h = h\<lparr>jh_tail_offset := jh_tail_offset h + of_nat n, jh_next_seq := jh_next_seq h + of_nat k\<rparr>"

context lossy_device
begin

lemma record_window_Ok:
  assumes "inv (jn_device j)" "area_start j + unat off + unat len \<le> length (image (jn_device j))"
  shows "\<exists>a n s. record_window ops j off len = Ok (a, n, s)
    \<and> unat (dev_sector_size ops (jn_device j)) dvd unat a \<and> unat (dev_sector_size ops (jn_device j)) dvd unat n
    \<and> unat a + unat n \<le> length (image (jn_device j))
    \<and> unat a + unat s = area_start j + unat off \<and> unat s + unat len \<le> unat n"
proof -
  let ?S = "dev_sector_size ops (jn_device j)" and ?N = "length (image (jn_device j))"
  let ?s = "unat ?S" and ?w = "ucast ?S :: u64"
  let ?p = "area_start j + unat off" and ?l = "unat len"
  have S: "0 < ?s" "?s dvd ?N" "?N < 2 ^ 64"
    using sector_size_law [OF assms(1)] by simp_all
  have w: "unat ?w = ?s" by (rule unat_ucast_u32)
  note win = window_nat [OF S(1,2) assms(2)]
  let ?A = "jn_record_start_block j * BLOCK_SIZE"
  have A: "umul (jn_record_start_block j) BLOCK_SIZE = Ok ?A" "unat ?A = area_start j"
    using assms(2) S(3) by (auto simp: umul_def unat_mul_ok area_start_def)
  let ?d = "?A + off"
  have d: "uadd ?A off = Ok ?d" "unat ?d = ?p"
    using assms(2) S(3) A(2) by (auto simp: uadd_def unat_add_ok)
  have q: "udiv ?d ?w = Ok (?d div ?w)" "unat (?d div ?w) = ?p div ?s"
    using S(1) w d(2) by (auto simp: udiv_def unat_div)
  let ?a = "?d div ?w * ?w"
  have a: "umul (?d div ?w) ?w = Ok ?a" "unat ?a = ?p div ?s * ?s"
  proof -
    have "?p div ?s * ?s < 2 ^ 64" using win(1) assms(2) S(3) by linarith
    then show "umul (?d div ?w) ?w = Ok ?a" "unat ?a = ?p div ?s * ?s"
      using q(2) w by (simp_all add: umul_def unat_mul_ok)
  qed
  let ?e = "?d + len"
  have e: "uadd ?d len = Ok ?e" "unat ?e = ?p + ?l"
    using assms(2) S(3) d(2) by (auto simp: uadd_def unat_add_ok)
  have c: "unat (div_ceil ?e ?w) = (?p + ?l + ?s - 1) div ?s"
    using unat_div_ceil [of ?w ?e] S(1) w e(2) by simp
  let ?f = "div_ceil ?e ?w * ?w"
  have f: "umul (div_ceil ?e ?w) ?w = Ok ?f" "unat ?f = (?p + ?l + ?s - 1) div ?s * ?s"
  proof -
    have "(?p + ?l + ?s - 1) div ?s * ?s < 2 ^ 64" using win(3) S(3) by linarith
    then show "umul (div_ceil ?e ?w) ?w = Ok ?f" "unat ?f = (?p + ?l + ?s - 1) div ?s * ?s"
      using c w by (simp_all add: umul_def unat_mul_ok)
  qed
  have le: "unat ?a \<le> ?p" "?p + ?l \<le> unat ?f" "unat ?f \<le> ?N"
    unfolding a(2) f(2) by (rule win)+
  have n: "usub ?f ?a = Ok (?f - ?a)" "unat (?f - ?a) = unat ?f - unat ?a"
    using le by (simp_all add: usub_def word_le_nat_alt unat_sub_ok del: unat_sub_if' )
  have s: "usub ?d ?a = Ok (?d - ?a)" "unat (?d - ?a) = ?p - unat ?a"
    using le d(2) by (simp_all add: usub_def word_le_nat_alt unat_sub_ok)
  have "record_window ops j off len = Ok (?a, ?f - ?a, ?d - ?a)"
    by (simp add: record_window_def Let_def A(1) d(1) q(1) a(1) e(1) f(1) n(1) s(1))
  moreover have "?s dvd unat ?a" "?s dvd unat (?f - ?a)"
    by (simp_all add: n(2) a(2) f(2) dvd_diff_nat)
  moreover have "unat ?a + unat (?f - ?a) \<le> ?N" "unat ?a + unat (?d - ?a) = ?p"
      "unat (?d - ?a) + ?l \<le> unat (?f - ?a)"
    using le n(2) s(2) by simp_all
  ultimately show ?thesis by blast
qed

lemma read_bytes_Ok:
  assumes "inv (jn_device j)" "area_start j + unat off + unat len \<le> length (image (jn_device j))"
  shows "read_bytes ops j off len = Ok (cut (area_start j + unat off) (unat len) (image (jn_device j)))"
proof -
  obtain a n s where w: "record_window ops j off len = Ok (a, n, s)"
    "unat (dev_sector_size ops (jn_device j)) dvd unat a" "unat (dev_sector_size ops (jn_device j)) dvd unat n"
    "unat a + unat n \<le> length (image (jn_device j))"
    "unat a + unat s = area_start j + unat off" "unat s + unat len \<le> unat n"
    using record_window_Ok [OF assms] by blast
  have "op_read_at ops (jn_device j) a n = Ok (cut (unat a) (unat n) (image (jn_device j)))"
    by (rule sector_read_law [OF assms(1) w(2-4)])
  moreover have "cut (unat s) (unat len) (cut (unat a) (unat n) (image (jn_device j)))
      = cut (area_start j + unat off) (unat len) (image (jn_device j))"
    by (simp only: cut_cut [OF w(6)] w(5))
  ultimately show ?thesis
    using w by (simp add: read_bytes_def cut_res_def) (simp add: cut_def)
qed

section \<open>Runs as sequences of writes\<close>

text \<open>
  \<open>wrote d ws d'\<close>: from \<open>d\<close> to \<open>d'\<close> a prefix of the writes \<open>ws\<close> reached the medium, all of
  them unless power was lost on the way.
\<close>

definition wrote :: "'d \<Rightarrow> (nat \<times> bytes) list \<Rightarrow> 'd \<Rightarrow> bool" where
  "wrote d ws d' \<longleftrightarrow> inv d' \<and> op_geometry ops d' = op_geometry ops d \<and> (live d' \<longrightarrow> live d)
     \<and> (\<exists>k \<le> length ws. image d' = puts (take k ws) (image d)
          \<and> (k < length ws \<longrightarrow> \<not> live d') \<and> (\<not> live d \<longrightarrow> k = 0))"

lemma wrote_nothing:
  "inv d' \<Longrightarrow> op_geometry ops d' = op_geometry ops d \<Longrightarrow> live d' = live d \<Longrightarrow> image d' = image d \<Longrightarrow> wrote d [] d'"
  by (simp add: wrote_def)

lemma wrote_refl: "inv d \<Longrightarrow> wrote d [] d"
  by (rule wrote_nothing) simp_all

lemma wrote_inv: "wrote d ws d' \<Longrightarrow> inv d'"
  by (simp add: wrote_def)

lemma wrote_length: "wrote d ws d' \<Longrightarrow> within (length (image d)) ws \<Longrightarrow> length (image d') = length (image d)"
  by (auto simp: wrote_def within_take)

lemma wrote_prefix: "wrote d ws d' \<Longrightarrow> \<exists>k \<le> length ws. image d' = puts (take k ws) (image d)"
  by (auto simp: wrote_def)

lemma wrote_cut:
  assumes "wrote d ws d'" "within (length (image d)) ws"
    and "\<And>off src. (off, src) \<in> set ws \<Longrightarrow> a + n \<le> off \<or> off + length src \<le> a"
  shows "cut a n (image d') = cut a n (image d)"
proof -
  obtain k where "image d' = puts (take k ws) (image d)"
    using wrote_prefix [OF assms(1)] by blast
  then show ?thesis
    using cut_puts_outside [of "image d" "take k ws" a n] assms(2,3)
    by (auto simp: within_take dest: in_set_takeD)
qed

lemma wrote_trans:
  assumes "wrote d ws e" "wrote e vs f"
  shows "wrote d (ws @ vs) f"
proof -
  obtain k where k: "k \<le> length ws" "image e = puts (take k ws) (image d)"
      "k < length ws \<longrightarrow> \<not> live e" "\<not> live d \<longrightarrow> k = 0"
    using assms(1) by (auto simp: wrote_def)
  obtain l where l: "l \<le> length vs" "image f = puts (take l vs) (image e)"
      "l < length vs \<longrightarrow> \<not> live f" "\<not> live e \<longrightarrow> l = 0"
    using assms(2) by (auto simp: wrote_def)
  have c: "live e \<longrightarrow> live d" "live f \<longrightarrow> live e"
    using assms by (simp_all add: wrote_def)
  have "image f = puts (take (k + l) (ws @ vs)) (image d)"
  proof (cases "k = length ws")
    case True
    then show ?thesis using k l by (simp add: puts_append)
  next
    case False
    then have "l = 0" using k l by simp
    then show ?thesis using k l by simp
  qed
  moreover have "k + l \<le> length (ws @ vs)"
    using k(1) l(1) by simp
  moreover have "k + l < length (ws @ vs) \<longrightarrow> \<not> live f"
    using k(1,3) l(1,3) c by (cases "k < length ws") auto
  moreover have "\<not> live d \<longrightarrow> k + l = 0"
    using k(4) l(4) c by auto
  ultimately have "\<exists>k \<le> length (ws @ vs). image f = puts (take k (ws @ vs)) (image d)
      \<and> (k < length (ws @ vs) \<longrightarrow> \<not> live f) \<and> (\<not> live d \<longrightarrow> k = 0)"
    by blast
  moreover have "inv f" "op_geometry ops f = op_geometry ops d"
    using assms by (simp_all add: wrote_def)
  ultimately show ?thesis
    using c unfolding wrote_def by blast
qed

text \<open>One device write, described by the bytes it changes.\<close>

lemma wrote_write:
  assumes "inv d" "unat (dev_sector_size ops d) dvd unat off" "unat (dev_sector_size ops d) dvd length dat"
    and "unat off + length dat \<le> length (image d)"
    and "put (unat off) dat (image d) = put p src (image d)"
  shows "\<exists>d'. op_write_at ops off dat d = (Ok (), d') \<and> wrote d [(p, src)] d'"
proof -
  obtain d' where "op_write_at ops off dat d = (Ok (), d')" "inv d'" "op_geometry ops d' = op_geometry ops d"
    "live d \<and> image d' = put p src (image d) \<or> \<not> live d' \<and> image d' = image d" "live d' \<longrightarrow> live d"
    using lossy_write_law [OF assms(1-4)] assms(5) by auto
  moreover from this have "wrote d [(p, src)] d'"
  proof -
    note w = calculation
    show ?thesis
      using w(4)
    proof
      assume "live d \<and> image d' = put p src (image d)"
      then show ?thesis
        using w by (auto simp: wrote_def intro!: exI [of _ "Suc 0"])
    next
      assume "\<not> live d' \<and> image d' = image d"
      then show ?thesis
        using w by (auto simp: wrote_def intro!: exI [of _ "0"])
    qed
  qed
  ultimately show ?thesis by blast
qed

lemma block_aligned:
  assumes "inv d" "unat b * 4096 + 4096 \<le> length (image d)"
  shows "umul b BLOCK_SIZE = Ok (b * BLOCK_SIZE)" "unat (b * BLOCK_SIZE) = unat b * 4096"
    "unat (dev_sector_size ops d) dvd unat (b * BLOCK_SIZE)" "unat (dev_sector_size ops d) dvd 4096"
proof -
  have "length (image d) < 2 ^ 64" and s: "unat (dev_sector_size ops d) dvd 4096"
    using sector_size_law [OF assms(1)] by simp_all
  then have "unat b * unat BLOCK_SIZE < 2 ^ LENGTH(64)"
    using assms(2) by simp
  then show "umul b BLOCK_SIZE = Ok (b * BLOCK_SIZE)" "unat (b * BLOCK_SIZE) = unat b * 4096"
    by (simp_all add: umul_def unat_mul_ok)
  then show "unat (dev_sector_size ops d) dvd unat (b * BLOCK_SIZE)" "unat (dev_sector_size ops d) dvd 4096"
    using s by simp_all
qed

lemma wrote_block:
  assumes "inv d" "unat b * 4096 + 4096 \<le> length (image d)" "length dat = 4096"
  shows "\<exists>d'. op_write_at ops (b * BLOCK_SIZE) dat d = (Ok (), d') \<and> wrote d [(unat b * 4096, dat)] d'"
  using block_aligned [OF assms(1,2)] assms by (intro wrote_write) simp_all

lemma read_whole_block:
  assumes "inv d" "unat b * 4096 + 4096 \<le> length (image d)"
  shows "op_read_at ops d (b * BLOCK_SIZE) BLOCK_SIZE = Ok (cut (unat b * 4096) 4096 (image d))"
  using sector_read_law [OF assms(1), of "b * BLOCK_SIZE" BLOCK_SIZE] block_aligned [OF assms] assms(2) by simp

lemma wrote_sync:
  assumes "inv d"
  shows "\<exists>d'. op_sync ops d = (Ok (), d') \<and> wrote d [] d'"
  using lossy_sync_law [OF assms] by (auto intro: wrote_nothing)

section \<open>Appending records\<close>

lemma write_bytes_wrote:
  assumes "inv (jn_device j)" "area_start j + unat off + length dat \<le> length (image (jn_device j))" "dat \<noteq> []"
  shows "\<exists>d'. write_bytes ops off dat j = (Ok (), j\<lparr>jn_device := d'\<rparr>)
    \<and> wrote (jn_device j) [(area_start j + unat off, dat)] d'"
proof -
  let ?len = "of_nat (length dat) :: u64" and ?img = "image (jn_device j)"
  have "length dat < 2 ^ 64"
    using assms(2) sector_size_law [OF assms(1)] by linarith
  then have l: "unat ?len = length dat"
    by (intro unat_of_nat_ok) simp
  obtain a n s where w: "record_window ops j off ?len = Ok (a, n, s)"
    "unat (dev_sector_size ops (jn_device j)) dvd unat a" "unat (dev_sector_size ops (jn_device j)) dvd unat n"
    "unat a + unat n \<le> length ?img" "unat a + unat s = area_start j + unat off" "unat s + length dat \<le> unat n"
    using record_window_Ok [OF assms(1), of off ?len] assms(2) l by auto
  let ?old = "cut (unat a) (unat n) ?img"
  have r: "op_read_at ops (jn_device j) a n = Ok ?old"
    by (rule sector_read_law [OF assms(1) w(2-4)])
  have len: "length ?old = unat n"
    using w(4) by simp
  let ?new = "put (unat s) dat ?old"
  have "put (unat a) ?new ?img = put (unat a + unat s) dat ?img"
    using put_in_cut [of "unat a" "unat a + unat s" dat "unat n" ?img] w(4,6) by simp
  then obtain d' where d': "op_write_at ops a ?new (jn_device j) = (Ok (), d')"
      "wrote (jn_device j) [(area_start j + unat off, dat)] d'"
    using wrote_write [OF assms(1), of a ?new "area_start j + unat off" dat] w len by auto
  have "write_bytes ops off dat j = (Ok (), j\<lparr>jn_device := d'\<rparr>)"
    using assms(3) w(1,6) r len d'(1)
    by (simp add: write_bytes_def cbind_run(1) [where m = "cread _"] cbind_run(1) [where m = "clift _"]
        copy_into_def jdev_def czoom_simp)
  then show ?thesis
    using d'(2) by blast
qed

lemma append_record_wrote:
  assumes "inv (jn_device j)"
    and "area_start j + unat (jh_record_area_bytes (jn_header j)) \<le> length (image (jn_device j))"
    and "unat (jh_tail_offset (jn_header j)) + (44 + length payload) \<le> unat (jh_record_area_bytes (jn_header j))"
    and "unat (jh_next_seq (jn_header j)) + 1 < 2 ^ 64"
  shows "\<exists>d'. append_record ops kind t payload j
      = (Ok (), j\<lparr>jn_device := d', jn_header := advance (44 + length payload) 1 (jn_header j)\<rparr>)
    \<and> wrote (jn_device j) [(area_start j + unat (jh_tail_offset (jn_header j)),
          record_image kind t (jh_next_seq (jn_header j)) payload)] d'"
proof -
  let ?h = "jn_header j" and ?total = "of_nat (44 + length payload) :: u64"
  let ?rec = "record_image kind t (jh_next_seq ?h) payload"
  have "44 + length payload < 2 ^ 64"
    using assms(3) unat_u64_lt [of "jh_record_area_bytes ?h"] by simp
  then have l: "unat ?total = 44 + length payload"
    by (intro unat_of_nat_ok) simp
  have t: "uadd (jh_tail_offset ?h) ?total = Ok (jh_tail_offset ?h + ?total)"
    "unat (jh_tail_offset ?h + ?total) = unat (jh_tail_offset ?h) + (44 + length payload)"
  proof -
    have b: "unat (jh_tail_offset ?h) + unat ?total < 2 ^ LENGTH(64)"
      using assms(3) l unat_u64_lt [of "jh_record_area_bytes ?h"] by simp
    then show "uadd (jh_tail_offset ?h) ?total = Ok (jh_tail_offset ?h + ?total)"
      by (simp add: uadd_def)
    show "unat (jh_tail_offset ?h + ?total) = unat (jh_tail_offset ?h) + (44 + length payload)"
      using unat_add_ok [OF b] l by simp
  qed
  have guard: "\<not> jh_tail_offset ?h + ?total > jh_record_area_bytes ?h"
    using t(2) assms(3) by (simp add: word_less_nat_alt)
  have seq: "uadd (jh_next_seq ?h) 1 = Ok (jh_next_seq ?h + 1)"
    using assms(4) by (simp add: uadd_def)
  obtain d' where d': "write_bytes ops (jh_tail_offset ?h) ?rec j = (Ok (), j\<lparr>jn_device := d'\<rparr>)"
    "wrote (jn_device j) [(area_start j + unat (jh_tail_offset ?h), ?rec)] d'"
  proof -
    have "area_start j + unat (jh_tail_offset ?h) + length ?rec \<le> length (image (jn_device j))"
      using assms(2,3) by simp
    moreover have "?rec \<noteq> []"
      using length_record_image [of kind t "jh_next_seq ?h" payload] by fastforce
    ultimately show thesis
      using write_bytes_wrote [OF assms(1)] that by blast
  qed
  have "append_record ops kind t payload j = (Ok (), j\<lparr>jn_device := d', jn_header := advance (44 + length payload) 1 ?h\<rparr>)"
    using t(1) guard seq d'(1)
    by (simp add: append_record_def Let_def cthen_run(1) [where m = "cread _"] cbind_run(1) [where m = "cread _"]
        cbind_run(1) [where m = "clift _"] cthen_run(1) [where m = "write_bytes _ _ _"]
        cthen_run(1) [where m = "jset _"] jset_def cthen_run(1) [where m = "cmod _"] advance_def)
  then show ?thesis
    using d'(2) by blast
qed

lemma flush_header_wrote:
  assumes "inv (jn_device j)" "unat (jn_header_block j) * 4096 + 4096 \<le> length (image (jn_device j))"
  shows "\<exists>d'. flush_header ops j = (Ok (), j\<lparr>jn_device := d'\<rparr>)
    \<and> wrote (jn_device j) [(unat (jn_header_block j) * 4096, jh_encode_block (jn_header j))] d'"
proof -
  obtain d1 where d1: "op_write_at ops (jn_header_block j * BLOCK_SIZE) (jh_encode_block (jn_header j)) (jn_device j) = (Ok (), d1)"
    "wrote (jn_device j) [(unat (jn_header_block j) * 4096, jh_encode_block (jn_header j))] d1"
    using wrote_block [OF assms, of "jh_encode_block (jn_header j)"] by auto
  obtain d2 where d2: "op_sync ops d1 = (Ok (), d2)" "wrote d1 [] d2"
    using wrote_sync [OF wrote_inv [OF d1(2)]] by blast
  have "flush_header ops j = (Ok (), j\<lparr>jn_device := d2\<rparr>)"
    using block_aligned(1) [OF assms] d1(1) d2(1)
    by (simp add: flush_header_def cbind_run(1) [where m = "cread _"] jdev_def cthen_run(1) [where m = "czoom _ _ _"] czoom_simp)
  then show ?thesis
    using wrote_trans [OF d1(2) d2(2)] by auto
qed

end

end
