(* ===== verification/Journal_Commit.thy ===== *)
theory Journal_Commit
  imports Journal_Refine
begin

text \<open>
  The commit protocol of \<open>TxnBuilder::commit\<close>: the exact sequence of writes it issues and
  what the log looks like when power is lost after any prefix of them.
\<close>

section \<open>Headers\<close>

definition same_log :: "journal_header \<Rightarrow> journal_header \<Rightarrow> bool" where
  "same_log h g \<longleftrightarrow> jh_magic h = jh_magic g \<and> jh_head_offset h = jh_head_offset g
     \<and> jh_tail_offset h = jh_tail_offset g \<and> jh_record_area_bytes h = jh_record_area_bytes g"

lemma same_log_refl [simp]: "same_log h h"
  by (simp add: same_log_def)

lemma advance_sel [simp]:
  "jh_magic (advance n k h) = jh_magic h" "jh_head_offset (advance n k h) = jh_head_offset h"
  "jh_record_area_bytes (advance n k h) = jh_record_area_bytes h"
  "jh_next_seq (advance n k h) = jh_next_seq h + of_nat k"
  "jh_next_txn_id (advance n k h) = jh_next_txn_id h"
  by (simp_all add: advance_def)

lemma advance_advance [simp]: "advance n k (advance m l h) = advance (m + n) (l + k) h"
  by (simp add: advance_def add.assoc)

lemma unat_advance_tail:
  assumes "unat (jh_tail_offset h) + n < 2 ^ 64"
  shows "unat (jh_tail_offset (advance n k h)) = unat (jh_tail_offset h) + n"
proof -
  have n: "unat (of_nat n :: u64) = n"
    using assms by (intro unat_of_nat_ok) simp
  then show ?thesis
    using assms unat_add_ok [of "jh_tail_offset h" "of_nat n"] by (simp add: advance_def)
qed

lemma unat_add_of_nat: "unat s + k < 2 ^ 64 \<Longrightarrow> unat (s + of_nat k :: u64) = unat s + k"
  by (subst unat_add_ok) (simp_all add: unat_of_nat_ok)

section \<open>The writes of a commit\<close>

definition txn_items :: "u64 \<Rightarrow> journal_op list \<Rightarrow> log_item list" where
  "txn_items t qs = map (LogOp t) qs @ [LogCommit t]"

definition commit_writes :: "nat \<Rightarrow> nat \<Rightarrow> journal_header \<Rightarrow> log_item list \<Rightarrow> (nat \<times> bytes) list" where
  "commit_writes hp ap h items =
    (let new = number (jh_next_seq h) items in
     [(hp, jh_encode_block h)] @ place (ap + unat (jh_tail_offset h)) (map item_image new)
     @ [(hp, jh_encode_block (advance (length (log_bytes new)) (length items) h))])"

context lossy_device
begin

lemma append_ops_wrote:
  assumes "inv (jn_device j)"
    and "area_start j + unat (jh_record_area_bytes (jn_header j)) \<le> length (image (jn_device j))"
    and "unat (jh_tail_offset (jn_header j)) + length (log_bytes (number (jh_next_seq (jn_header j)) (map (LogOp t) qs)))
       \<le> unat (jh_record_area_bytes (jn_header j))"
    and "unat (jh_next_seq (jn_header j)) + length qs < 2 ^ 64"
  shows "\<exists>d'. cfor (\<lambda>q. append_record ops Op t (op_encode q)) qs j
      = (Ok (), j\<lparr>jn_device := d', jn_header :=
          advance (length (log_bytes (number (jh_next_seq (jn_header j)) (map (LogOp t) qs)))) (length qs) (jn_header j)\<rparr>)
    \<and> wrote (jn_device j) (place (area_start j + unat (jh_tail_offset (jn_header j)))
          (map item_image (number (jh_next_seq (jn_header j)) (map (LogOp t) qs)))) d'"
  using assms
proof (induction qs arbitrary: j)
  case Nil
  then show ?case
    by (auto simp: advance_def intro!: exI [of _ "jn_device j"] wrote_refl)
next
  case (Cons q qs)
  let ?h = "jn_header j" and ?n = "57 + length (op_data q)"
  let ?rest = "number (jh_next_seq ?h + 1) (map (LogOp t) qs)"
  have fits: "unat (jh_tail_offset ?h) + (?n + length (log_bytes ?rest)) \<le> unat (jh_record_area_bytes ?h)"
    using Cons.prems(3) by simp
  obtain d1 where d1: "append_record ops Op t (op_encode q) j
      = (Ok (), j\<lparr>jn_device := d1, jn_header := advance ?n 1 ?h\<rparr>)"
    "wrote (jn_device j) [(area_start j + unat (jh_tail_offset ?h), record_image Op t (jh_next_seq ?h) (op_encode q))] d1"
    using append_record_wrote [OF Cons.prems(1,2), of "op_encode q" Op t] fits Cons.prems(4) by auto
  let ?j1 = "j\<lparr>jn_device := d1, jn_header := advance ?n 1 ?h\<rparr>"
  have area: "unat (jh_record_area_bytes ?h) < 2 ^ 64"
    using unat_u64_lt by simp
  have tail: "unat (jh_tail_offset (advance ?n 1 ?h)) = unat (jh_tail_offset ?h) + ?n"
    using fits area by (intro unat_advance_tail) linarith
  have seq: "unat (jh_next_seq ?h + 1) = unat (jh_next_seq ?h) + 1"
    using Cons.prems(4) unat_add_of_nat [of "jh_next_seq ?h" 1] by simp
  have len: "length (image d1) = length (image (jn_device j))"
    using fits Cons.prems(2) by (intro wrote_length [OF d1(2)]) simp
  obtain d2 where d2: "cfor (\<lambda>q. append_record ops Op t (op_encode q)) qs ?j1
      = (Ok (), ?j1\<lparr>jn_device := d2, jn_header := advance (length (log_bytes ?rest)) (length qs) (advance ?n 1 ?h)\<rparr>)"
    "wrote d1 (place (area_start j + (unat (jh_tail_offset ?h) + ?n)) (map item_image ?rest)) d2"
    using Cons.IH [of ?j1] wrote_inv [OF d1(2)] len fits Cons.prems(2,4) tail seq
    by auto
  have "cfor (\<lambda>q. append_record ops Op t (op_encode q)) (q # qs) j
      = (Ok (), ?j1\<lparr>jn_device := d2, jn_header := advance (length (log_bytes ?rest)) (length qs) (advance ?n 1 ?h)\<rparr>)"
    using d1(1) d2(1) by (simp add: cthen_run(1) [where m = "append_record _ _ _ _"] del: advance_advance)
  then show ?case
    using wrote_trans [OF d1(2) d2(2)] by (intro exI [of _ d2]) (simp add: add.assoc)
qed

lemma txn_commit_wrote:
  assumes "inv (jn_device j)" "unat (jn_header_block j) * 4096 + 4096 \<le> length (image (jn_device j))"
    and "area_start j + unat (jh_record_area_bytes (jn_header j)) \<le> length (image (jn_device j))"
    and "qs \<noteq> []"
    and "unat (jh_tail_offset (jn_header j)) + length (log_bytes (number (jh_next_seq (jn_header j)) (txn_items t qs)))
       \<le> unat (jh_record_area_bytes (jn_header j))"
    and "unat (jh_next_seq (jn_header j)) + length (txn_items t qs) < 2 ^ 64"
  shows "\<exists>d'. txn_commit ops \<lparr>tb_txn_id = t, tb_ops = qs\<rparr> j = (Ok t, j\<lparr>jn_device := d', jn_header :=
      advance (length (log_bytes (number (jh_next_seq (jn_header j)) (txn_items t qs)))) (length (txn_items t qs))
        ((jn_header j)\<lparr>jh_state := JSTATE_DIRTY\<rparr>)\<rparr>)
    \<and> wrote (jn_device j) (commit_writes (unat (jn_header_block j) * 4096) (area_start j)
          ((jn_header j)\<lparr>jh_state := JSTATE_DIRTY\<rparr>) (txn_items t qs)) d'"
proof -
  let ?h = "(jn_header j)\<lparr>jh_state := JSTATE_DIRTY\<rparr>" and ?hp = "unat (jn_header_block j) * 4096"
  let ?s = "jh_next_seq (jn_header j)" and ?N = "length (image (jn_device j))"
  let ?ops = "number ?s (map (LogOp t) qs)" and ?n = "length (log_bytes (number ?s (map (LogOp t) qs)))"
  have all: "number ?s (txn_items t qs) = ?ops @ [(?s + of_nat (length qs), LogCommit t)]"
    by (simp add: txn_items_def number_append)
  have fits: "unat (jh_tail_offset ?h) + (?n + 44) \<le> unat (jh_record_area_bytes ?h)"
    using assms(5) by (simp add: all)
  let ?j0 = "j\<lparr>jn_header := ?h\<rparr>"
  obtain d1 where d1: "flush_header ops ?j0 = (Ok (), ?j0\<lparr>jn_device := d1\<rparr>)"
      "wrote (jn_device j) [(?hp, jh_encode_block ?h)] d1"
    using flush_header_wrote [of ?j0] assms(1,2) by auto
  let ?j1 = "?j0\<lparr>jn_device := d1\<rparr>"
  have N1: "length (image d1) = ?N"
    using assms(2) by (intro wrote_length [OF d1(2)]) simp
  obtain d2 where d2: "cfor (\<lambda>q. append_record ops Op t (op_encode q)) qs ?j1
      = (Ok (), ?j1\<lparr>jn_device := d2, jn_header := advance ?n (length qs) ?h\<rparr>)"
    "wrote d1 (place (area_start j + unat (jh_tail_offset ?h)) (map item_image ?ops)) d2"
    using append_ops_wrote [of ?j1 t qs] wrote_inv [OF d1(2)] N1 assms(3,6) fits
    by (auto simp: txn_items_def)
  let ?j2 = "?j1\<lparr>jn_device := d2, jn_header := advance ?n (length qs) ?h\<rparr>"
  have N2: "length (image d2) = ?N"
    using wrote_length [OF d2(2)] N1 assms(3) fits by (simp add: within_place log_bytes_def)
  obtain d3 where d3: "op_sync ops d2 = (Ok (), d3)" "wrote d2 [] d3"
    using wrote_sync [OF wrote_inv [OF d2(2)]] by blast
  have N3: "length (image d3) = ?N"
    using wrote_length [OF d3(2)] N2 by simp
  let ?j3 = "?j2\<lparr>jn_device := d3\<rparr>"
  have area: "unat (jh_record_area_bytes ?h) < 2 ^ 64"
    using unat_u64_lt by simp
  have tail: "unat (jh_tail_offset (advance ?n (length qs) ?h)) = unat (jh_tail_offset ?h) + ?n"
    using fits area by (intro unat_advance_tail) linarith
  have seq: "unat (?s + of_nat (length qs)) = unat ?s + length qs"
    using assms(6) by (intro unat_add_of_nat) (simp add: txn_items_def)
  obtain d4 where d4: "append_record ops Commit t [] ?j3
      = (Ok (), ?j3\<lparr>jn_device := d4, jn_header := advance 44 1 (advance ?n (length qs) ?h)\<rparr>)"
    "wrote d3 [(area_start j + (unat (jh_tail_offset ?h) + ?n), record_image Commit t (?s + of_nat (length qs)) [])] d4"
    using append_record_wrote [of ?j3 "[]" Commit t] wrote_inv [OF d3(2)] N3 assms(3,6) fits tail seq
    by (auto simp: area_start_def txn_items_def)
  have N4: "length (image d4) = ?N"
    using wrote_length [OF d4(2)] N3 assms(3) fits by simp
  let ?j4 = "?j3\<lparr>jn_device := d4, jn_header := advance 44 1 (advance ?n (length qs) ?h)\<rparr>"
  obtain d5 where d5: "op_sync ops d4 = (Ok (), d5)" "wrote d4 [] d5"
    using wrote_sync [OF wrote_inv [OF d4(2)]] by blast
  have N5: "length (image d5) = ?N"
    using wrote_length [OF d5(2)] N4 by simp
  obtain d6 where d6: "flush_header ops (?j4\<lparr>jn_device := d5\<rparr>) = (Ok (), ?j4\<lparr>jn_device := d6\<rparr>)"
      "wrote d5 [(?hp, jh_encode_block (advance (?n + 44) (length qs + 1) ?h))] d6"
    using flush_header_wrote [of "?j4\<lparr>jn_device := d5\<rparr>"] wrote_inv [OF d5(2)] N5 assms(2) by auto
  have run: "txn_commit ops \<lparr>tb_txn_id = t, tb_ops = qs\<rparr> j = (Ok t, ?j4\<lparr>jn_device := d6\<rparr>)"
    using assms(4) d1(1) d2(1) d3(1) d4(1) d5(1) d6(1)
    by (simp add: txn_commit_def jset_def jdev_def czoom_simp cthen_run(1) [where m = "cmod _"]
        cthen_run(1) [where m = "flush_header _"] cthen_run(1) [where m = "cfor _ _"]
        cthen_run(1) [where m = "czoom _ _ _"] cthen_run(1) [where m = "append_record _ _ _ _"])
  have pl: "map item_image (number ?s (txn_items t qs))
      = map item_image ?ops @ [record_image Commit t (?s + of_nat (length qs)) []]"
    by (simp add: all)
  have ln: "length (log_bytes (number ?s (txn_items t qs))) = ?n + 44"
    by (simp add: all)
  have "wrote (jn_device j) (commit_writes ?hp (area_start j) ?h (txn_items t qs)) d6"
    using wrote_trans [OF d1(2) wrote_trans [OF d2(2) wrote_trans [OF d3(2) wrote_trans [OF d4(2)
            wrote_trans [OF d5(2) d6(2)]]]]]
    by (simp add: commit_writes_def Let_def pl ln place_append add.assoc flip: log_bytes_def)
      (simp add: txn_items_def)
  then show ?thesis
    using run ln by (intro exI [of _ d6]) (simp add: txn_items_def)
qed

end

section \<open>The log after a prefix of the writes\<close>

lemma take_sandwich:
  assumes "k \<le> length xs + 2"
  shows "take k ([x] @ xs @ [y]) =
    (if k = 0 then [] else if k = length xs + 2 then [x] @ xs @ [y] else x # take (k - 1) xs)"
  using assms by (cases k) auto

lemma number_small: "list_all (\<lambda>e. P (snd e)) (number s xs) \<longleftrightarrow> list_all P xs"
  by (induction xs arbitrary: s) simp_all

lemma log_on_commit:
  assumes log: "log_on sb es h0 img" and same: "same_log h h0"
    and small: "list_all small_item items"
    and fits: "unat (jh_tail_offset h) + length (log_bytes (number (jh_next_seq h) items)) \<le> unat (jh_record_area_bytes h)"
    and k: "k \<le> length items + 2"
  defines "hp \<equiv> unat (sb_journal_start sb) * 4096"
  defines "img' \<equiv> puts (take k (commit_writes hp (hp + 4096) h items)) img"
  shows "if k = length items + 2
    then log_on sb (es @ number (jh_next_seq h) items)
           (advance (length (log_bytes (number (jh_next_seq h) items))) (length items) h) img'
    else \<exists>h'. same_log h' h0 \<and> log_on sb es h' img'"
    and "length img' = length img"
    and "a + n \<le> hp \<or> hp + 4096 + unat (jh_record_area_bytes h) \<le> a \<Longrightarrow> cut a n img' = cut a n img"
proof -
  let ?new = "number (jh_next_seq h) items"
  let ?b = "log_bytes ?new" and ?ap = "hp + 4096" and ?T = "unat (jh_tail_offset h)"
  let ?P = "place (?ap + ?T) (map item_image ?new)"
  let ?h2 = "advance (length ?b) (length items) h"
  let ?ws = "commit_writes hp ?ap h items"
  have sm: "jh_magic h = jh_magic h0" "jh_head_offset h = jh_head_offset h0"
      "jh_tail_offset h = jh_tail_offset h0" "jh_record_area_bytes h = jh_record_area_bytes h0"
    using same by (simp_all add: same_log_def)
  have L: "cut hp 4096 img = jh_encode_block h0" "jh_magic h = JOURNAL_MAGIC"
      "list_all (\<lambda>e. small_item (snd e)) es"
      "?T = unat (jh_head_offset h) + length (log_bytes es)"
      "cut (?ap + unat (jh_head_offset h)) (length (log_bytes es)) img = log_bytes es"
      "?T \<le> unat (jh_record_area_bytes h)" "?ap + unat (jh_record_area_bytes h) \<le> length img"
    using log by (simp_all add: log_on_def Let_def hp_def sm)
  have P: "\<And>off src. (off, src) \<in> set ?P \<Longrightarrow> ?ap + ?T \<le> off \<and> off + length src \<le> ?ap + ?T + length ?b"
    using set_place [of _ _ "?ap + ?T" "map item_image ?new"] by (simp add: log_bytes_def)
  have wP: "within (length img) ?P"
    using within_place [of "?ap + ?T" "map item_image ?new" "length img"] fits L(7) by (simp add: log_bytes_def)
  have W: "?ws = [(hp, jh_encode_block h)] @ ?P @ [(hp, jh_encode_block ?h2)]"
    by (simp add: commit_writes_def Let_def)
  have wW: "within (length img) ?ws"
    using wP L(7) by (simp add: W)
  have inW: "off + length src \<le> ?ap + unat (jh_record_area_bytes h) \<and> hp \<le> off" if "(off, src) \<in> set ?ws" for off src
    using that P [of off src] fits by (auto simp: W)
  show len: "length img' = length img"
    using wW by (simp add: img'_def within_take)
  show "cut a n img' = cut a n img" if "a + n \<le> hp \<or> ?ap + unat (jh_record_area_bytes h) \<le> a"
    unfolding img'_def using that wW inW
    by (intro cut_puts_outside) (fastforce simp: within_take dest: in_set_takeD)+
  let ?i1 = "put hp (jh_encode_block h) img"
  have l1: "length ?i1 = length img"
    using L(7) by simp
  consider "k = 0" | "k = length items + 2" | "0 < k" "k < length items + 2"
    using k by linarith
  then show "if k = length items + 2 then log_on sb (es @ ?new) ?h2 img'
    else \<exists>h'. same_log h' h0 \<and> log_on sb es h' img'"
  proof cases
    case 1
    then show ?thesis
      using log by (auto simp: img'_def intro: same_log_refl)
  next
    case 2
    have "img' = put hp (jh_encode_block ?h2) (puts ?P ?i1)"
      using 2 by (simp add: img'_def W puts_append)
    also have "puts ?P ?i1 = put (?ap + ?T) ?b ?i1"
      using puts_place [of "?ap + ?T" "map item_image ?new" ?i1] fits L(7) by (simp add: log_bytes_def)
    finally have i: "img' = put hp (jh_encode_block ?h2) (put (?ap + ?T) ?b ?i1)" .
    have "cut hp 4096 img' = jh_encode_block ?h2"
      using fits L(7) by (simp add: i)
    moreover have "cut (?ap + unat (jh_head_offset h)) (length (log_bytes es) + length ?b) img' = log_bytes es @ ?b"
      unfolding cut_split using fits L by (simp add: i add.assoc [symmetric])
    moreover have "unat (jh_tail_offset ?h2) = ?T + length ?b"
      using fits unat_u64_lt [of "jh_record_area_bytes h"] by (intro unat_advance_tail) simp
    ultimately have "log_on sb (es @ ?new) ?h2 img'"
      using L fits small len by (simp add: log_on_def Let_def hp_def number_small)
    then show ?thesis
      using 2 by simp
  next
    case 3
    let ?Q = "take (k - 1) ?P"
    have i: "img' = puts ?Q ?i1"
      unfolding img'_def W using 3 by (subst take_sandwich) simp_all
    have Q: "within (length ?i1) ?Q" "\<And>off src. (off, src) \<in> set ?Q \<Longrightarrow> ?ap + ?T \<le> off"
      using wP P l1 by (simp_all add: within_take) (blast dest: in_set_takeD)
    have "cut hp 4096 img' = cut hp 4096 ?i1"
      unfolding i by (rule cut_puts_outside [OF Q(1)]) (use Q(2) in fastforce)
    then have "cut hp 4096 img' = jh_encode_block h"
      using L(7) by simp
    moreover have "cut (?ap + unat (jh_head_offset h)) (length (log_bytes es)) img'
        = cut (?ap + unat (jh_head_offset h)) (length (log_bytes es)) ?i1"
      unfolding i by (rule cut_puts_outside [OF Q(1)]) (use Q(2) L(4) in fastforce)
    then have "cut (?ap + unat (jh_head_offset h)) (length (log_bytes es)) img' = log_bytes es"
      using L(5,7) by simp
    ultimately have "log_on sb es h img'"
      using L len by (simp add: log_on_def Let_def hp_def)
    then show ?thesis
      using 3 same by auto
  qed
qed

end
