(* ===== verification/Journal_Replay.thy ===== *)
theory Journal_Replay
  imports Journal_Commit
begin

text \<open>
  Replay: a scan of an image that holds a log applies exactly the operations of its committed
  transactions, in commit order, whatever else the log contains; the proof holds on every
  \<open>lossy_device\<close>, so it also covers a replay that is itself cut short by a power loss.
\<close>

section \<open>Where an operation writes\<close>

lemma inode_record_offset:
  assumes "inode_record_location g i = Ok (b, off)"
  shows "unat off + 256 \<le> 4096"
proof -
  have "off = i mod 16 * 256"
    using assms
    by (auto simp: inode_record_location_def result_iff INODES_PER_BLOCK_def INODE_SIZE_def BLOCK_SIZE_def split: if_splits)
  moreover have "unat (i mod 16) < 16"
    using unat_mod [of i 16] by simp
  ultimately show ?thesis
    using unat_mul_ok [of "i mod 16" 256] by simp
qed

lemma valid_op_place:
  assumes "valid_op sb lo hi n q"
  obtains b off where "op_target sb q = Ok (b, off)" "op_write sb q = (unat b * 4096 + unat off, op_data q)"
    "unat off + length (op_data q) \<le> 4096" "unat b * 4096 + 4096 \<le> n"
    "b = 1 \<longrightarrow> length (op_data q) = 4096 \<and> same_volume sb (op_data q)"
    "unat b * 4096 + 4096 \<le> lo \<or> hi \<le> unat b * 4096"
proof -
  obtain b off where t: "op_target sb q = Ok (b, off)"
    using assms by (auto simp: valid_op_def split: result.splits)
  moreover have "unat off + length (op_data q) \<le> 4096"
    using t inode_record_offset by (cases q) (auto split: if_splits)
  ultimately show thesis
    using assms by (intro that [of b off]) (auto simp: valid_op_def op_write_def)
qed

text \<open>A write that leaves a superblock of the volume in block 1: it is elsewhere, or such a superblock.\<close>

definition keeps_superblock :: "superblock \<Rightarrow> nat \<Rightarrow> bytes \<Rightarrow> bool" where
  "keeps_superblock sb p src \<longleftrightarrow> p + length src \<le> 4096 \<or> 8192 \<le> p \<or> p = 4096 \<and> length src = 4096 \<and> same_volume sb src"

lemma same_volume_puts:
  assumes "same_volume sb (cut 4096 4096 img)" "within (length img) ws" "8192 \<le> length img"
    and "\<And>p src. (p, src) \<in> set ws \<Longrightarrow> keeps_superblock sb p src"
  shows "same_volume sb (cut 4096 4096 (puts ws img))"
  using assms
proof (induction ws img rule: puts.induct)
  case (2 off src ps buf)
  have w: "off + length src \<le> length buf" "within (length buf) ps"
    using "2.prems"(2) by (auto simp: within_def)
  have k: "keeps_superblock sb off src"
    by (rule "2.prems"(4)) simp
  have "same_volume sb (cut 4096 4096 (put off src buf))"
    using k "2.prems"(1,3) w(1) by (auto simp: keeps_superblock_def)
  then have "same_volume sb (cut 4096 4096 (puts ps (put off src buf)))"
    using w "2.prems"(3,4) by (intro "2.IH") auto
  then show ?case
    by simp
qed simp

lemma valid_op_write:
  assumes "valid_op sb lo hi n q" "(p, src) = op_write sb q"
  shows "p + length src \<le> n" "p + length src \<le> lo \<or> hi \<le> p" "keeps_superblock sb p src"
proof -
  obtain b off where t: "op_target sb q = Ok (b, off)"
    and o: "op_write sb q = (unat b * 4096 + unat off, op_data q)"
    "unat off + length (op_data q) \<le> 4096" "unat b * 4096 + 4096 \<le> n"
    "b = 1 \<longrightarrow> length (op_data q) = 4096 \<and> same_volume sb (op_data q)"
    "unat b * 4096 + 4096 \<le> lo \<or> hi \<le> unat b * 4096"
    by (rule valid_op_place [OF assms(1)])
  have b: "unat b = 0 \<or> 2 \<le> unat b \<or> unat b = 1 \<and> unat off = 0 \<and> length (op_data q) = 4096 \<and> same_volume sb (op_data q)"
  proof (cases "b = 1")
    case True
    then show ?thesis using o(2,4) by simp
  next
    case False
    then have "unat b \<noteq> 1" by (metis unat_1 word_unat_eq_iff)
    then show ?thesis by linarith
  qed
  have p: "p = unat b * 4096 + unat off" "src = op_data q"
    using assms(2) o(1) by simp_all
  show "p + length src \<le> n" "p + length src \<le> lo \<or> hi \<le> p" "keeps_superblock sb p src"
    using o(2,3,5) b by (auto simp: p keeps_superblock_def)
qed

definition committed_writes :: "superblock \<Rightarrow> (u64 \<times> journal_op list) list \<Rightarrow> (nat \<times> bytes) list" where
  "committed_writes sb txns = map (op_write sb) (concat (map snd txns))"

definition summary :: "(u64 \<times> journal_op list) list \<Rightarrow> replayed_txn list" where
  "summary txns = map (\<lambda>(t, qs). \<lparr>rt_txn_id = t, rt_ops = length qs\<rparr>) txns"

lemma committed_writes_simps [simp]:
  "committed_writes sb [] = []"
  "committed_writes sb ((t, qs) # txns) = map (op_write sb) qs @ committed_writes sb txns"
  by (simp_all add: committed_writes_def)

lemma summary_simps [simp]:
  "summary [] = []" "summary ((t, qs) # txns) = \<lparr>rt_txn_id = t, rt_ops = length qs\<rparr> # summary txns"
  by (simp_all add: summary_def)

lemma valid_writes:
  assumes "\<And>q. q \<in> set qs \<Longrightarrow> valid_op sb lo hi n q"
  shows "within n (map (op_write sb) qs)"
    and "(p, src) \<in> set (map (op_write sb) qs) \<Longrightarrow> (p + length src \<le> lo \<or> hi \<le> p) \<and> keeps_superblock sb p src"
  using valid_op_write assms by (fastforce simp: within_def)+

text \<open>One item of the scan: the transactions it completes and the pending ones it leaves.\<close>

fun item_step :: "log_item \<Rightarrow> pending \<Rightarrow> (u64 \<times> journal_op list) list \<times> pending" where
  "item_step (LogOp t q) p = ([], p(t \<mapsto> (case p t of Some qs \<Rightarrow> qs | None \<Rightarrow> []) @ [q]))"
| "item_step (LogCommit t) p = (case p t of Some qs \<Rightarrow> ([(t, qs)], p(t := None)) | None \<Rightarrow> ([], p))"
| "item_step (LogAbort t) p = ([], p(t := None))"

lemma committed_step: "committed (i # is) p = fst (item_step i p) @ committed is (snd (item_step i p))"
  by (cases i) (auto split: option.splits simp del: fun_upd_apply)

fun item_parts :: "log_item \<Rightarrow> record_kind \<times> u64 \<times> bytes" where
  "item_parts (LogOp t q) = (Op, t, op_encode q)"
| "item_parts (LogCommit t) = (Commit, t, [])"
| "item_parts (LogAbort t) = (Abort, t, [])"

lemma item_image_parts: "item_image (s, i) = (case item_parts i of (k, t, p) \<Rightarrow> record_image k t s p)"
  by (cases i) simp_all

definition valid_pending :: "(journal_op \<Rightarrow> bool) \<Rightarrow> pending \<Rightarrow> bool" where
  "valid_pending P p \<longleftrightarrow> (\<forall>t qs q. p t = Some qs \<longrightarrow> q \<in> set qs \<longrightarrow> P q)"

definition valid_items :: "(journal_op \<Rightarrow> bool) \<Rightarrow> log_item list \<Rightarrow> bool" where
  "valid_items P is \<longleftrightarrow> (\<forall>t q. LogOp t q \<in> set is \<longrightarrow> P q)"

lemma valid_items_Cons: "valid_items P (i # is) \<longleftrightarrow> (\<forall>t q. i = LogOp t q \<longrightarrow> P q) \<and> valid_items P is"
  by (auto simp: valid_items_def)

lemma valid_pending_step:
  assumes "valid_pending P p" "\<And>t q. i = LogOp t q \<Longrightarrow> P q"
  shows "valid_pending P (snd (item_step i p))"
    and "(t, qs) \<in> set (fst (item_step i p)) \<Longrightarrow> q \<in> set qs \<Longrightarrow> P q"
proof -
  show "valid_pending P (snd (item_step i p))"
    using assms by (cases i) (auto simp: valid_pending_def split: option.splits if_splits dest: sym [of "Some _"])
  show "P q" if "(t, qs) \<in> set (fst (item_step i p))" "q \<in> set qs"
    using assms that by (cases i) (auto simp: valid_pending_def split: option.splits)
qed

section \<open>Reading a record back\<close>

context lossy_device
begin

lemma read_record_image:
  assumes "inv (jn_device j)" "length p < 2 ^ 32"
    and "area_start j + unat c + (44 + length p) \<le> length (image (jn_device j))"
    and "cut (area_start j + unat c) (44 + length p) (image (jn_device j)) = record_image kind t s p"
  shows "\<exists>r. read_record_at ops j c = Ok (Some r) \<and> dr_kind r = kind \<and> dr_txn_id r = t \<and> dr_payload r = p
    \<and> unat (dr_encoded_len r) = 44 + length p"
proof -
  let ?img = "image (jn_device j)" and ?P = "area_start j + unat c" and ?n = "length p"
  let ?hb = "record_header kind t s p" and ?len = "ucast (of_nat (length p) :: u32) :: u64"
  have len: "unat ?len = ?n"
    using assms(2) by (simp add: unat_ucast_u32 unat_of_nat_ok)
  have "length ?img < 2 ^ 64"
    using sector_size_law [OF assms(1)] by blast
  then have c: "unat c + (44 + ?n) < 2 ^ 64"
    using assms(3) by linarith
  have "cut ?P 40 ?img = cut 0 40 (record_image kind t s p)"
    "cut (?P + 40) ?n ?img = cut 40 ?n (record_image kind t s p)"
    "cut (?P + (40 + ?n)) 4 ?img = cut (40 + ?n) 4 (record_image kind t s p)"
    unfolding assms(4) [symmetric] by (simp_all add: cut_cut add.assoc)
  then have cuts: "cut ?P 40 ?img = ?hb" "cut (?P + 40) ?n ?img = p"
      "cut (?P + (40 + ?n)) 4 ?img = le_bytes 4 (crc_hash (?hb @ p))"
    by (simp_all add: record_image_def Let_def cut_append_take cut_append_skip)
      (simp_all add: cut_def)
  have po: "uadd c 40 = Ok (c + 40)" "unat (c + 40) = unat c + 40"
    using c by (simp_all add: uadd_def unat_add_ok)
  have to: "uadd (c + 40) ?len = Ok (c + 40 + ?len)" "unat (c + 40 + ?len) = unat c + (40 + ?n)"
    using c po(2) len by (simp_all add: uadd_def unat_add_ok)
  have r1: "read_bytes ops j c 40 = Ok ?hb"
    using read_bytes_Ok [OF assms(1), of c 40] assms(3) cuts(1) by simp
  have r2: "read_bytes ops j (c + 40) ?len = Ok p"
    using read_bytes_Ok [OF assms(1), of "c + 40" ?len] assms(3) cuts(2) po(2) len by (simp add: add.assoc)
  have r3: "read_bytes ops j (c + 40 + ?len) 4 = Ok (le_bytes 4 (crc_hash (?hb @ p)))"
    using read_bytes_Ok [OF assms(1), of "c + 40 + ?len" 4] assms(3) cuts(3) to(2) by (simp add: add.assoc)
  have e: "unat (40 + ?len + 4) = 44 + ?n"
    using len assms(2) by (simp add: unat_word_ariths)
  show ?thesis
    using e by (simp add: read_record_at_def r1 r2 r3 po(1) to(1) record_header_nonzero header_crc_ok_record
        record_header_fields Let_def)
qed

section \<open>Applying operations\<close>

lemma inode_target_write:
  assumes "inv (jn_device j)" "unat b * 4096 + 4096 \<le> length (image (jn_device j))"
    and "unat off + length dat \<le> 4096"
  shows "\<exists>d'. op_write_at ops (b * BLOCK_SIZE)
      (put (unat off) dat (cut (unat b * 4096) 4096 (image (jn_device j)))) (jn_device j) = (Ok (), d')
    \<and> wrote (jn_device j) [(unat b * 4096 + unat off, dat)] d'"
proof (rule wrote_write [OF assms(1)])
  let ?img = "image (jn_device j)"
  show "put (unat (b * BLOCK_SIZE)) (put (unat off) dat (cut (unat b * 4096) 4096 ?img)) ?img
      = put (unat b * 4096 + unat off) dat ?img"
    using put_in_cut [of "unat b * 4096" "unat b * 4096 + unat off" dat 4096 ?img] assms(2,3)
      block_aligned(2) [OF assms(1,2)] by simp
qed (use assms block_aligned [OF assms(1,2)] in simp_all)

lemma apply_op_wrote:
  assumes "inv (jn_device j)" "same_volume sb (cut 4096 4096 (image (jn_device j)))"
    and "8192 \<le> length (image (jn_device j))" "valid_op sb lo hi (length (image (jn_device j))) q"
  shows "\<exists>d'. apply_op ops q j = (Ok (), j\<lparr>jn_device := d'\<rparr>) \<and> wrote (jn_device j) [op_write sb q] d'"
proof -
  let ?img = "image (jn_device j)"
  obtain b off where o: "op_target sb q = Ok (b, off)" "op_write sb q = (unat b * 4096 + unat off, op_data q)"
    "unat off + length (op_data q) \<le> 4096" "unat b * 4096 + 4096 \<le> length ?img"
    by (rule valid_op_place [OF assms(4)])
  note al = block_aligned [OF assms(1) o(4)]
  obtain d' where d': "op_write_at ops (b * BLOCK_SIZE)
      (put (unat off) (op_data q) (cut (unat b * 4096) 4096 ?img)) (jn_device j) = (Ok (), d')"
    "wrote (jn_device j) [op_write sb q] d'"
    using inode_target_write [OF assms(1) o(4,3)] o(2) by auto
  have "apply_op ops q j = (Ok (), j\<lparr>jn_device := d'\<rparr>)"
  proof (cases q)
    case (BlockWrite b' dat)
    then have q: "b' = b" "off = 0" "length dat = 4096"
      using o(1) by (auto split: if_splits)
    have "put 0 dat (cut (unat b * 4096) 4096 ?img) = dat"
      using q(3) o(4) by (simp add: put_def)
    then have "op_write_at ops (b * BLOCK_SIZE) dat (jn_device j) = (Ok (), d')"
      using d'(1) q BlockWrite by simp
    then show ?thesis
      using q al(1) by (simp add: apply_op_def BlockWrite cbind_run(1) [where m = "clift _"] jdev_def czoom_simp BLOCK_SIZE_def)
  next
    case (InodeUpdate i dat)
    then have q: "inode_record_location (sb_geometry sb) i = Ok (b, off)" "length dat = 256"
      using o(1) by (auto split: if_splits)
    have "unat (1 :: u64) * 4096 + 4096 \<le> length ?img"
      using assms(3) by simp
    then have r1: "op_read_at ops (jn_device j) (PRIMARY_SUPERBLOCK_BLOCK * BLOCK_SIZE) BLOCK_SIZE = Ok (cut 4096 4096 ?img)"
      using read_whole_block [OF assms(1), of 1] by (simp add: PRIMARY_SUPERBLOCK_BLOCK_def)
    have r2: "op_read_at ops (jn_device j) (b * BLOCK_SIZE) BLOCK_SIZE = Ok (cut (unat b * 4096) 4096 ?img)"
      by (rule read_whole_block [OF assms(1) o(4)])
    obtain sb' where s: "sb_decode_block (cut 4096 4096 ?img) = Ok sb'" "sb_geometry sb' = sb_geometry sb"
      using assms(2) by (auto simp: same_volume_def)
    show ?thesis
      using q al(1) r1 r2 s d'(1) o(3,4)
      by (simp add: apply_op_def InodeUpdate cbind_run(1) [where m = "cread _"] cbind_run(1) [where m = "clift _"]
          copy_into_def jdev_def czoom_simp)
  qed
  then show ?thesis
    using d'(2) by blast
qed

text \<open>
  The facts about a device that survive every operation outside the journal region
  \<open>[lo, hi)\<close> and the superblock.
\<close>

definition replayable :: "superblock \<Rightarrow> nat \<Rightarrow> 'd \<Rightarrow> bool" where
  "replayable sb n d \<longleftrightarrow> inv d \<and> length (image d) = n \<and> 8192 \<le> n
     \<and> same_volume sb (cut 4096 4096 (image d))"

lemma replayable_wrote:
  assumes "replayable sb n d" "\<And>q. q \<in> set qs \<Longrightarrow> valid_op sb lo hi n q"
    and "wrote d (map (op_write sb) qs) d'"
  shows "replayable sb n d'" "lo \<le> a \<Longrightarrow> a + m \<le> hi \<Longrightarrow> cut a m (image d') = cut a m (image d)"
proof -
  note v = valid_writes [OF assms(2)]
  have n: "length (image d) = n" using assms(1) by (simp add: replayable_def)
  have w: "within (length (image d)) (map (op_write sb) qs)"
    using v(1) n by simp
  obtain k where k: "image d' = puts (take k (map (op_write sb) qs)) (image d)"
    using wrote_prefix [OF assms(3)] by blast
  have "same_volume sb (cut 4096 4096 (image d'))"
    unfolding k using assms(1) within_take [OF w] v(2)
    by (intro same_volume_puts) (auto simp: replayable_def dest: in_set_takeD)
  then show "replayable sb n d'"
    using assms(1) wrote_inv [OF assms(3)] wrote_length [OF assms(3) w] by (simp add: replayable_def)
  show "cut a m (image d') = cut a m (image d)" if "lo \<le> a" "a + m \<le> hi"
    by (rule wrote_cut [OF assms(3) w]) (use v(2) that in fastforce)
qed

lemma apply_ops_wrote:
  assumes "replayable sb n (jn_device j)" "\<And>q. q \<in> set qs \<Longrightarrow> valid_op sb lo hi n q"
  shows "\<exists>d'. cfor (apply_op ops) qs j = (Ok (), j\<lparr>jn_device := d'\<rparr>)
    \<and> wrote (jn_device j) (map (op_write sb) qs) d'"
  using assms
proof (induction qs arbitrary: j)
  case Nil
  then show ?case
    by (auto simp: replayable_def intro!: exI [of _ "jn_device j"] wrote_refl)
next
  case (Cons q qs)
  obtain d1 where d1: "apply_op ops q j = (Ok (), j\<lparr>jn_device := d1\<rparr>)" "wrote (jn_device j) [op_write sb q] d1"
    using apply_op_wrote [of j sb lo hi q] Cons.prems by (auto simp: replayable_def)
  have "replayable sb n d1"
    using replayable_wrote(1) [OF Cons.prems(1), of "[q]" lo hi d1] Cons.prems(2) d1(2) by simp
  then obtain d2 where d2: "cfor (apply_op ops) qs (j\<lparr>jn_device := d1\<rparr>) = (Ok (), j\<lparr>jn_device := d2\<rparr>)"
      "wrote d1 (map (op_write sb) qs) d2"
    using Cons.IH [of "j\<lparr>jn_device := d1\<rparr>"] Cons.prems(2) by auto
  then show ?case
    using wrote_trans [OF d1(2) d2(2)] d1(1) by (auto simp: cthen_run(1) [where m = "apply_op _ _"])
qed

section \<open>The scan\<close>

lemma replay_record_item:
  assumes "replayable sb n (jn_device j)" "valid_pending (valid_op sb lo hi n) p"
    and "item_parts i = (dr_kind r, dr_txn_id r, dr_payload r)" "small_item i"
  shows "\<exists>d'. replay_record ops r p applied j
      = (Ok (snd (item_step i p), applied @ summary (fst (item_step i p))), j\<lparr>jn_device := d'\<rparr>)
    \<and> wrote (jn_device j) (committed_writes sb (fst (item_step i p))) d'"
proof -
  have stay: "wrote (jn_device j) [] (jn_device j)" "j\<lparr>jn_device := jn_device j\<rparr> = j"
    using assms(1) wrote_refl by (simp_all add: replayable_def)
  show ?thesis
  proof (cases i)
    case (LogOp t q)
    then have "op_decode (dr_payload r) = Ok q"
      using assms(3,4) op_roundtrip [of q] by auto
    then show ?thesis
      using assms(3) stay LogOp
      by (intro exI [of _ "jn_device j"])
        (auto simp: replay_record_def cbind_run(1) [where m = "clift _"] simp del: fun_upd_apply)
  next
    case (LogCommit t)
    show ?thesis
    proof (cases "p t")
      case None
      then show ?thesis
        using assms(3) stay LogCommit
        by (intro exI [of _ "jn_device j"]) (auto simp: replay_record_def)
    next
      case (Some qs)
      then have "\<And>q. q \<in> set qs \<Longrightarrow> valid_op sb lo hi n q"
        using assms(2) by (auto simp: valid_pending_def)
      from apply_ops_wrote [OF assms(1) this] obtain d' where
        "cfor (apply_op ops) qs j = (Ok (), j\<lparr>jn_device := d'\<rparr>)" "wrote (jn_device j) (map (op_write sb) qs) d'"
        by blast
      then show ?thesis
        using assms(3) LogCommit Some
        by (intro exI [of _ d'])
          (auto simp: replay_record_def cthen_run(1) [where m = "cfor _ _"] simp del: fun_upd_apply)
    qed
  next
    case (LogAbort t)
    then show ?thesis
      using assms(3) stay
      by (intro exI [of _ "jn_device j"]) (auto simp: replay_record_def simp del: fun_upd_apply)
  qed
qed

lemma replay_loop_log:
  assumes "replayable sb n (jn_device j)" "valid_pending (valid_op sb lo hi n) p"
    and "valid_items (valid_op sb lo hi n) (map snd es)" "list_all (\<lambda>e. small_item (snd e)) es"
    and "lo \<le> area_start j" "area_start j + unat tail \<le> hi" "hi \<le> n"
    and "unat tail = unat c + length (log_bytes es)"
    and "cut (area_start j + unat c) (length (log_bytes es)) (image (jn_device j)) = log_bytes es"
  shows "\<exists>d'. replay_loop ops tail c p applied j
      = (Ok (applied @ summary (committed (map snd es) p)), j\<lparr>jn_device := d'\<rparr>)
    \<and> wrote (jn_device j) (committed_writes sb (committed (map snd es) p)) d'"
  using assms
proof (induction es arbitrary: j c p applied)
  case Nil
  then have "replay_loop ops tail c p applied j = (Ok applied, j)"
    by (simp add: replay_loop.simps [of ops tail c] word_less_nat_alt)
  then show ?case
    using Nil.prems(1) wrote_refl
    by (intro exI [of _ "jn_device j"]) (simp add: replayable_def committed_writes_def summary_def)
next
  case (Cons e es)
  obtain s i where e: "e = (s, i)" by (cases e)
  obtain kind t pl where parts: "item_parts i = (kind, t, pl)" by (cases "item_parts i")
  then have img: "item_image e = record_image kind t s pl"
    by (simp add: e item_image_parts)
  let ?P = "area_start j + unat c" and ?img = "image (jn_device j)" and ?n = "length (log_bytes es)"
  let ?V = "valid_op sb lo hi n"
  have small: "small_item i" "list_all (\<lambda>e. small_item (snd e)) es"
    using Cons.prems(4) by (simp_all add: e)
  have pl: "length pl < 2 ^ 32"
    using small(1) parts by (cases i) auto
  have N: "length ?img = n" and inv: "inv (jn_device j)"
    using Cons.prems(1) by (simp_all add: replayable_def)
  have tail: "unat tail = unat c + (44 + length pl) + ?n"
    using Cons.prems(8) by (simp add: img)
  have bytes: "cut ?P (44 + length pl + ?n) ?img = record_image kind t s pl @ log_bytes es"
    using Cons.prems(9) by (simp add: img add.assoc)
  have "cut 0 (44 + length pl) (cut ?P (44 + length pl + ?n) ?img) = record_image kind t s pl"
    "cut (44 + length pl) ?n (cut ?P (44 + length pl + ?n) ?img) = log_bytes es"
    unfolding bytes by (simp_all add: cut_append_take cut_append_skip)
  then have rec: "cut ?P (44 + length pl) ?img = record_image kind t s pl"
    and rest: "cut (?P + (44 + length pl)) ?n ?img = log_bytes es"
    by (simp_all add: cut_cut)
  have fits: "?P + (44 + length pl) \<le> length ?img"
    using Cons.prems(6,7) tail N by linarith
  obtain r where r: "read_record_at ops j c = Ok (Some r)"
    "dr_kind r = kind" "dr_txn_id r = t" "dr_payload r = pl" "unat (dr_encoded_len r) = 44 + length pl"
    using read_record_image [OF inv pl fits rec] by blast
  let ?c = "c + dr_encoded_len r"
  have c: "uadd c (dr_encoded_len r) = Ok ?c" "unat ?c = unat c + (44 + length pl)"
    using tail r(5) unat_u64_lt [of tail] by (simp_all add: uadd_def unat_add_ok)
  have lt: "c < tail"
    using tail by (simp add: word_less_nat_alt)
  have "item_parts i = (dr_kind r, dr_txn_id r, dr_payload r)"
    using r(2-4) parts by simp
  from replay_record_item [OF Cons.prems(1,2) this small(1), of applied]
  obtain d1 where d1: "replay_record ops r p applied j
      = (Ok (snd (item_step i p), applied @ summary (fst (item_step i p))), j\<lparr>jn_device := d1\<rparr>)"
    "wrote (jn_device j) (committed_writes sb (fst (item_step i p))) d1"
    by blast
  have iv: "\<And>t q. i = LogOp t q \<Longrightarrow> ?V q" and vs: "valid_items ?V (map snd es)"
    using Cons.prems(3) by (auto simp: e valid_items_Cons)
  note vp = valid_pending_step [OF Cons.prems(2) iv]
  have vq: "\<And>q. q \<in> set (concat (map snd (fst (item_step i p)))) \<Longrightarrow> ?V q"
    using vp(2) by auto
  note keep = replayable_wrote [OF Cons.prems(1) vq d1(2) [unfolded committed_writes_def]]
  have k1: "replayable sb n d1"
    by (rule keep(1))
  have k2: "cut (?P + (44 + length pl)) ?n (image d1) = log_bytes es"
    using keep(2) [of "?P + (44 + length pl)" ?n] rest Cons.prems(5,6) tail by simp
  let ?j1 = "j\<lparr>jn_device := d1\<rparr>"
  have "\<exists>d'. replay_loop ops tail ?c (snd (item_step i p)) (applied @ summary (fst (item_step i p))) ?j1
      = (Ok ((applied @ summary (fst (item_step i p))) @ summary (committed (map snd es) (snd (item_step i p)))),
         ?j1\<lparr>jn_device := d'\<rparr>)
    \<and> wrote (jn_device ?j1) (committed_writes sb (committed (map snd es) (snd (item_step i p)))) d'"
    using k1 vp(1) vs small(2) Cons.prems(5-7) tail c(2) k2 by (intro Cons.IH) (simp_all add: add.assoc)
  then obtain d2 where d2: "replay_loop ops tail ?c (snd (item_step i p)) (applied @ summary (fst (item_step i p))) ?j1
      = (Ok ((applied @ summary (fst (item_step i p))) @ summary (committed (map snd es) (snd (item_step i p)))),
         j\<lparr>jn_device := d2\<rparr>)"
    "wrote d1 (committed_writes sb (committed (map snd es) (snd (item_step i p)))) d2"
    by auto
  have "replay_loop ops tail c p applied j
      = replay_loop ops tail ?c (snd (item_step i p)) (applied @ summary (fst (item_step i p))) ?j1"
    by (simp add: replay_loop.simps [of ops tail c] lt r(1) c(1) d1(1) del: item_step.simps)
  then show ?case
    using d2(1) wrote_trans [OF d1(2) d2(2)]
    by (intro exI [of _ d2]) (simp add: e committed_step committed_writes_def summary_def del: committed.simps)
qed

end

end
