(* ===== verification/Journal_Recovery.thy ===== *)
theory Journal_Recovery
  imports Journal_Replay
begin

text \<open>
  The journal as a whole: open, begin, commit, replay and checkpoint on a volume whose image
  holds a log, and the crash theorems, stated for the fault-injecting device that loses power
  after a given number of writes and for the memory device that survives.
\<close>

section \<open>Volumes with a log\<close>

definition journal_lo :: "superblock \<Rightarrow> nat" where
  "journal_lo sb = unat (sb_journal_start sb) * 4096"

definition journal_hi :: "superblock \<Rightarrow> journal_header \<Rightarrow> nat" where
  "journal_hi sb h = journal_lo sb + 4096 + unat (jh_record_area_bytes h)"

definition logged_volume :: "superblock \<Rightarrow> (u64 \<times> log_item) list \<Rightarrow> journal_header \<Rightarrow> bytes \<Rightarrow> bool" where
  "logged_volume sb es h img \<longleftrightarrow> log_on sb es h img \<and> 2 \<le> unat (sb_journal_start sb)
     \<and> same_volume sb (cut 4096 4096 img)
     \<and> valid_items (valid_op sb (journal_lo sb) (journal_hi sb h) (length img)) (map snd es)"

lemma log_on_bounds:
  assumes "log_on sb es h img" "length img < 2 ^ 64"
  shows "unat (sb_journal_start sb) * 4096 + 4096 \<le> length img"
    and "uadd (sb_journal_start sb) 1 = Ok (sb_journal_start sb + 1)"
    and "unat (sb_journal_start sb + 1) * 4096 = journal_lo sb + 4096"
    and "journal_hi sb h \<le> length img" "jh_magic h = JOURNAL_MAGIC"
    and "unat (jh_tail_offset h) \<le> unat (jh_record_area_bytes h)"
    and "unat (jh_tail_offset h) = unat (jh_head_offset h) + length (log_bytes es)"
    and "list_all (\<lambda>e. small_item (snd e)) es"
    and "cut (journal_lo sb) 4096 img = jh_encode_block h"
    and "cut (journal_lo sb + 4096 + unat (jh_head_offset h)) (length (log_bytes es)) img = log_bytes es"
proof -
  show b: "unat (sb_journal_start sb) * 4096 + 4096 \<le> length img" "journal_hi sb h \<le> length img"
    "jh_magic h = JOURNAL_MAGIC" "unat (jh_tail_offset h) \<le> unat (jh_record_area_bytes h)"
    "unat (jh_tail_offset h) = unat (jh_head_offset h) + length (log_bytes es)"
    "list_all (\<lambda>e. small_item (snd e)) es" "cut (journal_lo sb) 4096 img = jh_encode_block h"
    "cut (journal_lo sb + 4096 + unat (jh_head_offset h)) (length (log_bytes es)) img = log_bytes es"
    using assms(1) by (simp_all add: log_on_def Let_def journal_hi_def journal_lo_def)
  have "unat (sb_journal_start sb) + unat (1 :: u64) < 2 ^ LENGTH(64)"
    using b(1) assms(2) by simp
  then show "uadd (sb_journal_start sb) 1 = Ok (sb_journal_start sb + 1)"
    "unat (sb_journal_start sb + 1) * 4096 = journal_lo sb + 4096"
    by (simp_all add: uadd_def unat_add_ok journal_lo_def)
qed

lemma valid_op_small: "valid_op sb lo hi n q \<Longrightarrow> length (op_data q) < 2 ^ 32 - 13"
  by (cases q) (auto simp: valid_op_def split: if_splits)

lemma small_txn: "(\<And>q. q \<in> set qs \<Longrightarrow> valid_op sb lo hi n q) \<Longrightarrow> list_all small_item (txn_items t qs)"
  using valid_op_small by (force simp: txn_items_def list_all_iff)

definition opened :: "superblock \<Rightarrow> journal_header \<Rightarrow> 'd \<Rightarrow> 'd journal" where
  "opened sb h d = \<lparr>jn_device = d, jn_header_block = sb_journal_start sb,
     jn_record_start_block = sb_journal_start sb + 1, jn_header = h\<rparr>"

lemma opened_sel [simp]:
  "jn_device (opened sb h d) = d" "jn_header (opened sb h d) = h"
  "jn_header_block (opened sb h d) = sb_journal_start sb"
  by (simp_all add: opened_def)

lemma area_start_opened:
  assumes "log_on sb es h0 img" "length img < 2 ^ 64"
  shows "area_start (opened sb h d) = journal_lo sb + 4096"
  using log_on_bounds(3) [OF assms] by (simp add: area_start_def opened_def)

text \<open>The header in memory after \<open>begin\<close>, while a commit runs, and after it.\<close>

definition begun_header :: "journal_header \<Rightarrow> journal_header" where
  "begun_header h = h\<lparr>jh_next_txn_id := sat_add (jh_next_txn_id h) 1\<rparr>"

definition dirty_header :: "journal_header \<Rightarrow> journal_header" where
  "dirty_header h = (begun_header h)\<lparr>jh_state := JSTATE_DIRTY\<rparr>"

definition committed_header :: "journal_header \<Rightarrow> journal_op list \<Rightarrow> journal_header" where
  "committed_header h qs =
    (let items = txn_items (jh_next_txn_id h) qs in
     advance (length (log_bytes (number (jh_next_seq h) items))) (length items) (dirty_header h))"

context lossy_device
begin

lemma open_log:
  assumes "inv d" "log_on sb es h (image d)"
  shows "journal_open ops d sb = Ok (opened sb h d)"
proof -
  have lt: "length (image d) < 2 ^ 64" using sector_size_law [OF assms(1)] by blast
  note b = log_on_bounds [OF assms(2) lt]
  have "op_read_at ops d (sb_journal_start sb * BLOCK_SIZE) BLOCK_SIZE = Ok (jh_encode_block h)"
    using read_whole_block [OF assms(1) b(1)] b(9) by (simp add: journal_lo_def)
  then show ?thesis
    using block_aligned(1) [OF assms(1) b(1)] b(2,5) by (simp add: journal_open_def jh_roundtrip opened_def)
qed

lemma replay_log:
  assumes "inv d" "logged_volume sb es h (image d)"
  shows "\<exists>d'. replay ops (opened sb h d)
      = (Ok (summary (committed (map snd es) (\<lambda>_. None))), opened sb h d')
    \<and> wrote d (committed_writes sb (committed (map snd es) (\<lambda>_. None))) d'"
proof -
  have L: "log_on sb es h (image d)" "2 \<le> unat (sb_journal_start sb)"
    "same_volume sb (cut 4096 4096 (image d))"
    "valid_items (valid_op sb (journal_lo sb) (journal_hi sb h) (length (image d))) (map snd es)"
    using assms(2) by (simp_all add: logged_volume_def)
  have lt: "length (image d) < 2 ^ 64" using sector_size_law [OF assms(1)] by blast
  note b = log_on_bounds [OF L(1) lt]
  let ?j = "opened sb h d" and ?T = "committed (map snd es) (\<lambda>_. None)"
  have "replayable sb (length (image d)) (jn_device ?j)"
    using assms(1) L(2,3) b(1) by (simp add: replayable_def)
  then obtain d1 where d1: "replay_loop ops (jh_tail_offset h) (jh_head_offset h) (\<lambda>_. None) [] ?j
      = (Ok (summary ?T), opened sb h d1)" "wrote d (committed_writes sb ?T) d1"
    using replay_loop_log [of sb "length (image d)" ?j "journal_lo sb" "journal_hi sb h" "\<lambda>_. None" es
        "jh_tail_offset h" "jh_head_offset h" "[]"] L(4) b
    by (auto simp: area_start_opened [OF L(1) lt] valid_pending_def journal_hi_def)
      (auto simp: opened_def)
  obtain d2 where d2: "op_sync ops d1 = (Ok (), d2)" "wrote d1 [] d2"
    using wrote_sync [OF wrote_inv [OF d1(2)]] by blast
  let ?d = "if summary ?T \<noteq> [] then d2 else d1"
  have "replay ops ?j = (Ok (summary ?T), opened sb h ?d)"
    using d1(1) d2(1)
    by (simp add: replay_def cbind_run(1) [where m = "cread _"] cbind_run(1) [where m = "replay_loop _ _ _ _ _"]
        cthen_run(1) [where m = "jdev _"] cthen_run(1) [where m = "cret _"] jdev_def czoom_simp opened_def
        cthen_run(1) [where m = "czoom _ _ _"])
  moreover have "wrote d (committed_writes sb ?T) ?d"
    using d1(2) wrote_trans [OF d1(2) d2(2)] by simp
  ultimately show ?thesis by blast
qed

lemma commit_log_exact:
  assumes "inv d" "log_on sb es h (image d)" "qs \<noteq> []"
    and "unat (jh_tail_offset h) + length (log_bytes (number (jh_next_seq h) (txn_items (jh_next_txn_id h) qs)))
       \<le> unat (jh_record_area_bytes h)"
    and "unat (jh_next_seq h) + length (txn_items (jh_next_txn_id h) qs) < 2 ^ 64"
  shows "\<exists>d'. journal_begin (opened sb h d) = (Ok \<lparr>tb_txn_id = jh_next_txn_id h, tb_ops = []\<rparr>, opened sb (begun_header h) d)
    \<and> txn_commit ops \<lparr>tb_txn_id = jh_next_txn_id h, tb_ops = qs\<rparr> (opened sb (begun_header h) d)
        = (Ok (jh_next_txn_id h), opened sb (committed_header h qs) d')
    \<and> wrote d (commit_writes (journal_lo sb) (journal_lo sb + 4096) (dirty_header h) (txn_items (jh_next_txn_id h) qs)) d'"
proof -
  have lt: "length (image d) < 2 ^ 64" using sector_size_law [OF assms(1)] by blast
  note b = log_on_bounds [OF assms(2) lt] and a = area_start_opened [OF assms(2) lt]
  let ?t = "jh_next_txn_id h" and ?j1 = "opened sb (begun_header h) d"
  have "journal_begin (opened sb h d) = (Ok \<lparr>tb_txn_id = ?t, tb_ops = []\<rparr>, ?j1)"
    by (simp add: journal_begin_def opened_def begun_header_def)
  moreover obtain d' where "txn_commit ops \<lparr>tb_txn_id = ?t, tb_ops = qs\<rparr> ?j1 = (Ok ?t, opened sb (committed_header h qs) d')"
    "wrote d (commit_writes (journal_lo sb) (journal_lo sb + 4096) (dirty_header h) (txn_items ?t qs)) d'"
    using txn_commit_wrote [of ?j1 qs ?t] assms(1,3-5) b(1,4) a [of "begun_header h" d]
    by (auto simp: journal_lo_def journal_hi_def committed_header_def Let_def dirty_header_def begun_header_def opened_def)
  ultimately show ?thesis
    by blast
qed

lemma commit_log:
  assumes "inv d" "log_on sb es h (image d)" "qs \<noteq> []"
    and "unat (jh_tail_offset h) + length (log_bytes (number (jh_next_seq h) (txn_items (jh_next_txn_id h) qs)))
       \<le> unat (jh_record_area_bytes h)"
    and "unat (jh_next_seq h) + length (txn_items (jh_next_txn_id h) qs) < 2 ^ 64"
  shows "\<exists>tb j1 j2. journal_begin (opened sb h d) = (Ok tb, j1) \<and> tb_txn_id tb = jh_next_txn_id h
    \<and> txn_commit ops (tb\<lparr>tb_ops := qs\<rparr>) j1 = (Ok (jh_next_txn_id h), j2)
    \<and> (\<exists>g. same_log g h \<and> jh_next_seq g = jh_next_seq h
         \<and> wrote d (commit_writes (journal_lo sb) (journal_lo sb + 4096) g (txn_items (jh_next_txn_id h) qs)) (jn_device j2))"
proof -
  have "same_log (dirty_header h) h" "jh_next_seq (dirty_header h) = jh_next_seq h"
    by (simp_all add: dirty_header_def begun_header_def same_log_def)
  then show ?thesis
    using commit_log_exact [OF assms] by fastforce
qed

end

section \<open>Recovery after a power loss\<close>

text \<open>The part of an image a replay cannot tell apart outside the journal region.\<close>

definition agree_outside :: "nat \<Rightarrow> nat \<Rightarrow> bytes \<Rightarrow> bytes \<Rightarrow> bool" where
  "agree_outside lo hi img img' \<longleftrightarrow> length img = length img'
     \<and> (\<forall>i < length img. i < lo \<or> hi \<le> i \<longrightarrow> img ! i = img' ! i)"

lemma agree_outside_refl [simp]: "agree_outside lo hi img img"
  by (simp add: agree_outside_def)

lemma agree_outside_cuts:
  assumes "length img' = length img" "\<And>a n. a + n \<le> lo \<or> hi \<le> a \<Longrightarrow> cut a n img' = cut a n img"
  shows "agree_outside lo hi img' img"
  unfolding agree_outside_def
proof (intro conjI allI impI)
  fix i
  assume i: "i < length img'" "i < lo \<or> hi \<le> i"
  then have "cut i 1 img' = cut i 1 img"
    by (intro assms(2)) auto
  then have "cut i 1 img' ! 0 = cut i 1 img ! 0" by simp
  then show "img' ! i = img ! i"
    using i assms(1) by (simp add: nth_cut)
qed (use assms(1) in simp)

lemma agree_outside_puts:
  assumes "agree_outside lo hi img img'" "within (length img) ws"
  shows "agree_outside lo hi (puts ws img) (puts ws img')"
proof -
  have "within (length img') ws" "length img' = length img"
    using assms by (simp_all add: agree_outside_def)
  then show ?thesis
    using assms by (auto simp: agree_outside_def nth_puts split: option.split)
qed

lemma committed_valid:
  assumes "valid_items P is" "(t, qs) \<in> set (committed is (\<lambda>_. None))" "q \<in> set qs"
  shows "P q"
  using committed_sound_gen [OF assms(2,3)] assms(1) by (auto simp: valid_items_def)

lemma committed_within:
  assumes "valid_items (valid_op sb lo hi n) is"
  shows "within n (committed_writes sb (committed is (\<lambda>_. None)))"
  unfolding committed_writes_def
  by (rule valid_writes(1) [where lo = lo and hi = hi]) (auto intro: committed_valid [OF assms])

lemma logged_volume_transfer:
  assumes "logged_volume sb es h img" "log_on sb es' h' img'"
    and "agree_outside (journal_lo sb) (journal_hi sb h) img' img" "length img < 2 ^ 64"
    and "jh_record_area_bytes h' = jh_record_area_bytes h"
    and "valid_items (valid_op sb (journal_lo sb) (journal_hi sb h) (length img)) (map snd es')"
  shows "logged_volume sb es' h' img'"
proof -
  have len: "length img' = length img"
    using assms(3) by (simp add: agree_outside_def)
  have L: "log_on sb es h img" "2 \<le> unat (sb_journal_start sb)" "same_volume sb (cut 4096 4096 img)"
    using assms(1) by (simp_all add: logged_volume_def)
  have lo: "8192 \<le> journal_lo sb" "journal_lo sb \<le> length img"
    using L(2) log_on_bounds(1) [OF L(1) assms(4)] by (simp_all add: journal_lo_def)
  have "cut 4096 4096 img' = cut 4096 4096 img"
    using assms(3) lo len by (intro buf_eqI) (auto simp: agree_outside_def nth_cut)
  then show ?thesis
    using assms(2,5,6) L(2,3) len by (simp add: logged_volume_def journal_hi_def)
qed

lemma take_all_iff: "k \<le> length xs \<Longrightarrow> k \<noteq> length xs \<Longrightarrow> k < length xs"
  by simp

lemma length_commit_writes [simp]: "length (commit_writes hp ap h items) = length items + 2"
  by (simp add: commit_writes_def Let_def)

text \<open>The image after a prefix of the writes of a commit.\<close>

lemma commit_prefix:
  assumes vol: "logged_volume sb es h img" "length img < 2 ^ 64"
    and valid: "\<And>q. q \<in> set qs \<Longrightarrow> valid_op sb (journal_lo sb) (journal_hi sb h) (length img) q"
    and fits: "unat (jh_tail_offset h) + length (log_bytes (number (jh_next_seq h) (txn_items (jh_next_txn_id h) qs)))
       \<le> unat (jh_record_area_bytes h)"
    and k: "k \<le> length qs + 3"
    and img': "img' = puts (take k (commit_writes (journal_lo sb) (journal_lo sb + 4096) (dirty_header h)
        (txn_items (jh_next_txn_id h) qs))) img"
  shows "agree_outside (journal_lo sb) (journal_hi sb h) img' img"
    and "k < length qs + 3 \<Longrightarrow> \<exists>h'. same_log h' h \<and> logged_volume sb es h' img'"
    and "k = length qs + 3 \<Longrightarrow>
      logged_volume sb (es @ number (jh_next_seq h) (txn_items (jh_next_txn_id h) qs)) (committed_header h qs) img'"
proof -
  let ?items = "txn_items (jh_next_txn_id h) qs" and ?g = "dirty_header h"
  have L: "log_on sb es h img" "valid_items (valid_op sb (journal_lo sb) (journal_hi sb h) (length img)) (map snd es)"
    using vol(1) by (simp_all add: logged_volume_def)
  have g: "same_log ?g h" "jh_next_seq ?g = jh_next_seq h" "jh_tail_offset ?g = jh_tail_offset h"
      "jh_record_area_bytes ?g = jh_record_area_bytes h"
    by (simp_all add: dirty_header_def begun_header_def same_log_def)
  have small: "list_all small_item ?items"
    using small_txn valid by blast
  have n: "length ?items + 2 = length qs + 3"
    by (simp add: txn_items_def)
  have fits': "unat (jh_tail_offset ?g) + length (log_bytes (number (jh_next_seq ?g) ?items)) \<le> unat (jh_record_area_bytes ?g)"
    using fits g by simp
  note c = log_on_commit [OF L(1) g(1) small fits' k [folded n], folded journal_lo_def, folded img']
  show agree: "agree_outside (journal_lo sb) (journal_hi sb h) img' img"
    using c(2,3) g(4) by (intro agree_outside_cuts) (simp_all add: journal_hi_def)
  note transfer = logged_volume_transfer [OF vol(1) _ agree vol(2)]
  show "\<exists>h'. same_log h' h \<and> logged_volume sb es h' img'" if "k < length qs + 3"
    using c(1) that L(2) n transfer by (auto simp: same_log_def)
  have "valid_items (valid_op sb (journal_lo sb) (journal_hi sb h) (length img)) (map snd es @ ?items)"
    using L(2) valid by (auto simp: valid_items_def txn_items_def)
  then show "logged_volume sb (es @ number (jh_next_seq h) ?items) (committed_header h qs) img'" if "k = length qs + 3"
    using c(1) that n g(2,4) by (intro transfer) (simp_all add: committed_header_def Let_def)
qed

text \<open>A memory device behind the fault injector that loses power after \<open>n\<close> writes.\<close>

definition power_cut :: "nat \<Rightarrow> memory_device \<Rightarrow> memory_device faulty_device" where
  "power_cut n d = faulty_new d (power_loss_plan n)"

lemma power_cut_sel [simp]: "fd_inner (power_cut n d) = d" "fd_plan (power_cut n d) = power_loss_plan n"
  by (simp_all add: power_cut_def faulty_new_def)

lemma mem_wrote: "mem.wrote d ws d' \<Longrightarrow> md_data d' = puts ws (md_data d)"
  unfolding mem.wrote_def by (auto simp: le_less)

lemma mem_recover:
  assumes "mem_ok d" "logged_volume sb es h (md_data d)"
  shows "\<exists>j'. journal_open mem_ops d sb = Ok (opened sb h d)
    \<and> replay mem_ops (opened sb h d) = (Ok (summary (committed (map snd es) (\<lambda>_. None))), j')
    \<and> md_data (jn_device j') = puts (committed_writes sb (committed (map snd es) (\<lambda>_. None))) (md_data d)"
proof -
  obtain d' where "replay mem_ops (opened sb h d) = (Ok (summary (committed (map snd es) (\<lambda>_. None))), opened sb h d')"
    "mem.wrote d (committed_writes sb (committed (map snd es) (\<lambda>_. None))) d'"
    using mem.replay_log [OF assms] by blast
  moreover have "journal_open mem_ops d sb = Ok (opened sb h d)"
    using mem.open_log [OF assms(1), of sb es h] assms(2) by (simp add: logged_volume_def)
  ultimately show ?thesis
    using mem_wrote by fastforce
qed

lemma logged_volume_inside:
  assumes "logged_volume sb es h img" "length img' = length img" "length img < 2 ^ 64"
    and "\<And>a n. journal_lo sb \<le> a \<Longrightarrow> a + n \<le> journal_hi sb h \<Longrightarrow> cut a n img' = cut a n img"
    and "same_volume sb (cut 4096 4096 img')"
  shows "logged_volume sb es h img'"
proof -
  have L: "log_on sb es h img"
    using assms(1) by (simp add: logged_volume_def)
  note b = log_on_bounds [OF L assms(3)]
  have "cut (journal_lo sb) 4096 img' = cut (journal_lo sb) 4096 img"
    by (rule assms(4)) (simp_all add: journal_hi_def)
  moreover have "cut (journal_lo sb + 4096 + unat (jh_head_offset h)) (length (log_bytes es)) img'
      = cut (journal_lo sb + 4096 + unat (jh_head_offset h)) (length (log_bytes es)) img"
    by (rule assms(4)) (use b(6,7) in \<open>simp_all add: journal_hi_def\<close>)
  ultimately have "log_on sb es h img'"
    using L assms(2) by (simp add: log_on_def Let_def journal_lo_def)
  then show ?thesis
    using assms(1,2,5) by (simp add: logged_volume_def)
qed

text \<open>A prefix of the writes of a replay leaves the log and what the replay makes of the image.\<close>

lemma logged_redo:
  assumes "logged_volume sb es h img" "length img < 2 ^ 64"
  defines "ws \<equiv> committed_writes sb (committed (map snd es) (\<lambda>_. None))"
  shows "logged_volume sb es h (puts (take k ws) img)" "puts ws (puts (take k ws) img) = puts ws img"
    and "within (length img) ws"
proof -
  let ?V = "valid_op sb (journal_lo sb) (journal_hi sb h) (length img)"
  let ?qs = "concat (map snd (committed (map snd es) (\<lambda>_. None)))"
  have v: "valid_items ?V (map snd es)"
    using assms(1) by (simp add: logged_volume_def)
  then have q: "\<And>q. q \<in> set ?qs \<Longrightarrow> ?V q"
    by (auto intro: committed_valid)
  have ws: "ws = map (op_write sb) ?qs"
    by (simp add: ws_def committed_writes_def)
  show out: "within (length img) ws"
    unfolding ws by (rule valid_writes(1)) (rule q)
  have outside: "(p + length src \<le> journal_lo sb \<or> journal_hi sb h \<le> p) \<and> keeps_superblock sb p src"
    if "(p, src) \<in> set ws" for p src
    by (rule valid_writes(2) [where qs = ?qs, OF q]) (use that in \<open>simp_all add: ws\<close>)
  have w: "within (length img) (take k ws)"
    using out by (rule within_take)
  have "cut a m (puts (take k ws) img) = cut a m img" if "journal_lo sb \<le> a \<and> a + m \<le> journal_hi sb h" for a m
    by (rule cut_puts_outside [OF w]) (use that outside in \<open>fastforce dest: in_set_takeD\<close>)
  moreover have "same_volume sb (cut 4096 4096 (puts (take k ws) img))"
  proof (rule same_volume_puts [OF _ w])
    show "same_volume sb (cut 4096 4096 img)" "8192 \<le> length img"
      using assms(1) log_on_bounds(1) [OF _ assms(2), of sb es h] by (simp_all add: logged_volume_def)
  qed (use outside in \<open>blast dest: in_set_takeD\<close>)
  ultimately show "logged_volume sb es h (puts (take k ws) img)"
    using logged_volume_inside [OF assms(1) _ assms(2)] w by simp
  show "puts ws (puts (take k ws) img) = puts ws img"
    by (rule puts_redo [OF out])
qed

lemma redo_survivor:
  assumes "mem_ok d" "logged_volume sb es h (md_data d)"
  shows "\<exists>j1. replay (fault_ops mem_ops) (opened sb h (power_cut n d))
      = (Ok (summary (committed (map snd es) (\<lambda>_. None))), j1)
    \<and> mem_ok (fd_inner (jn_device j1)) \<and> logged_volume sb es h (md_data (fd_inner (jn_device j1)))
    \<and> puts (committed_writes sb (committed (map snd es) (\<lambda>_. None))) (md_data (fd_inner (jn_device j1)))
      = puts (committed_writes sb (committed (map snd es) (\<lambda>_. None))) (md_data d)"
proof -
  let ?T = "committed (map snd es) (\<lambda>_. None)"
  have lt: "length (md_data d) < 2 ^ 64"
    using mem.sector_size_law [OF assms(1)] by blast
  obtain d' where d': "replay (fault_ops mem_ops) (opened sb h (power_cut n d)) = (Ok (summary ?T), opened sb h d')"
    "power_mem.wrote n (power_cut n d) (committed_writes sb ?T) d'"
    using power_mem.replay_log [where n = n and d = "power_cut n d" and sb = sb and es = es and h = h] assms
    by auto
  obtain k where "md_data (fd_inner d') = puts (take k (committed_writes sb ?T)) (md_data d)"
    using power_mem.wrote_prefix [OF d'(2)] by auto
  then show ?thesis
    using d'(1) power_mem.wrote_inv [OF d'(2)] logged_redo(1,2) [OF assms(2) lt, of k]
    by (intro exI [of _ "opened sb h d'"]) simp
qed

section \<open>Format and checkpoint\<close>

lemma mem_format:
  assumes "mem_ok d" "2 \<le> sb_journal_blocks sb"
    and "(unat (sb_journal_start sb) + unat (sb_journal_blocks sb)) * 4096 \<le> length (md_data d)"
  defines "area \<equiv> (sb_journal_blocks sb - 1) * BLOCK_SIZE"
  shows "\<exists>d'. journal_format mem_ops sb d = (Ok (opened sb (jh_fresh area) d'), d') \<and> mem_ok d'
    \<and> log_on sb [] (jh_fresh area) (md_data d')
    \<and> agree_outside (journal_lo sb) (journal_hi sb (jh_fresh area)) (md_data d') (md_data d)"
proof -
  let ?h = "jh_fresh area" and ?N = "length (md_data d)"
  let ?js = "sb_journal_start sb" and ?jb = "sb_journal_blocks sb"
  have lt: "?N < 2 ^ 64"
    using mem.sector_size_law [OF assms(1)] by blast
  have jb: "2 \<le> unat ?jb" "unat (?jb - 1) = unat ?jb - 1"
    using assms(2) by (simp_all add: word_le_nat_alt unat_sub_ok)
  have B: "unat BLOCK_SIZE = 4096"
    by simp
  have m: "unat (?jb - 1) * unat BLOCK_SIZE < 2 ^ LENGTH(64)"
    unfolding jb(2) B using jb(1) assms(3) lt by simp
  have area: "umul (?jb - 1) BLOCK_SIZE = Ok area" "unat area = (unat ?jb - 1) * 4096"
    using m unat_mul_ok [OF m] by (simp_all only: umul_def area_def jb(2) B if_True)
  have hb: "unat ?js * 4096 + 4096 \<le> ?N"
    using assms(3) jb by (simp add: algebra_simps)
  have s: "unat ?js + unat (1 :: u64) < 2 ^ LENGTH(64)"
    using hb lt by simp
  have rs: "uadd ?js 1 = Ok (?js + 1)" "unat (?js + 1) = unat ?js + 1"
    using s unat_add_ok [OF s] by (simp_all add: uadd_def)
  have rb: "unat (?js + 1) * 4096 + 4096 \<le> ?N"
    using assms(3) jb rs(2) by (simp add: algebra_simps)
  obtain d1 where d1: "op_write_at mem_ops (?js * BLOCK_SIZE) (jh_encode_block ?h) d = (Ok (), d1)"
      "mem.wrote d [(unat ?js * 4096, jh_encode_block ?h)] d1"
    using mem.wrote_block [OF assms(1) hb, of "jh_encode_block ?h"] by auto
  have N1: "length (md_data d1) = ?N"
    using mem.wrote_length [OF d1(2)] hb by simp
  obtain d2 where d2: "op_write_at mem_ops ((?js + 1) * BLOCK_SIZE) (zeros 4096) d1 = (Ok (), d2)"
      "mem.wrote d1 [(unat (?js + 1) * 4096, zeros 4096)] d2"
    using mem.wrote_block [OF mem.wrote_inv [OF d1(2)], of "?js + 1" "zeros 4096"] rb N1 by auto
  obtain d3 where d3: "op_sync mem_ops d2 = (Ok (), d3)" "mem.wrote d2 [] d3"
    using mem.wrote_sync [OF mem.wrote_inv [OF d2(2)]] by blast
  have run: "journal_format mem_ops sb d = (Ok (opened sb ?h d3), d3)"
    using assms(2) area(1) rs(1) d1(1) d2(1) d3(1) mem.block_aligned(1) [OF assms(1) hb]
      mem.block_aligned(1) [OF assms(1) rb]
    by (simp add: journal_format_def word_less_nat_alt jb word_le_nat_alt linorder_not_less [symmetric]
        cbind_run(1) [where m = "clift _"] Let_def cthen_run(1) [where m = "op_write_at _ _ _"] opened_def
        cthen_run(1) [where m = "mem_write_at _ _"] cthen_run(1) [where m = "cret _"])
  let ?ws = "[(journal_lo sb, jh_encode_block ?h), (journal_lo sb + 4096, zeros 4096)]"
  have img: "md_data d3 = puts ?ws (md_data d)"
    using mem_wrote [OF mem.wrote_trans [OF d1(2) mem.wrote_trans [OF d2(2) d3(2)]]] rs(2)
    by (simp add: journal_lo_def algebra_simps)
  have hi: "journal_hi sb ?h \<le> ?N" "8192 \<le> journal_hi sb ?h - journal_lo sb"
    using assms(3) jb area(2) by (simp_all add: journal_hi_def journal_lo_def jh_fresh_def algebra_simps)
  have "log_on sb [] ?h (md_data d3)"
    using hi hb by (simp add: log_on_def Let_def img journal_lo_def journal_hi_def jh_fresh_def cut_def)
      (simp add: put_def)
  moreover have "agree_outside (journal_lo sb) (journal_hi sb ?h) (md_data d3) (md_data d)"
    unfolding img using hi hb
    by (intro agree_outside_cuts cut_puts_outside) (auto simp: journal_lo_def)
  ultimately show ?thesis
    using run mem.wrote_inv [OF d3(2)] by blast
qed

end
