(* ===== verification/Journal_Cache.thy ===== *)
theory Journal_Cache
  imports Journal_Recovery
begin

text \<open>
  A memory device behind a volatile write cache.  Writes are acknowledged before they are on the medium;
  only \<open>sync\<close> puts them there.  When power is lost, every sector of 512 bytes holds, independently of the
  others, what it held after the last sync that completed or after some later write: unsynced writes
  may survive in any order, in part, or not at all, and one write may be torn between its sectors.
\<close>

section \<open>The device\<close>

text \<open>
  \<open>ca_versions\<close> holds the images of the medium since the last sync, the durable one first; power is lost
  when \<open>ca_budget\<close> more writes and syncs were served, and \<open>ca_lost\<close> says that one came later than that.  Such
  calls still report success.
\<close>

record cached_device =
  ca_live :: memory_device
  ca_versions :: "bytes list"
  ca_budget :: nat
  ca_lost :: bool

definition cached :: "nat \<Rightarrow> memory_device \<Rightarrow> cached_device" where
  "cached n d = \<lparr>ca_live = d, ca_versions = [md_data d], ca_budget = n, ca_lost = False\<rparr>"

definition cache_serve :: "(bytes list \<Rightarrow> bytes list) \<Rightarrow> cached_device \<Rightarrow> cached_device" where
  "cache_serve f c =
    (if ca_budget c = 0 then c\<lparr>ca_lost := True\<rparr>
     else c\<lparr>ca_versions := f (ca_versions c), ca_budget := ca_budget c - 1\<rparr>)"

definition cache_write_at :: "u64 \<Rightarrow> bytes \<Rightarrow> (cached_device, unit) cmd" where
  "cache_write_at off dat c =
    (case mem_write_at off dat (ca_live c) of
       (r, d) \<Rightarrow> (r, cache_serve (\<lambda>vs. vs @ [md_data d]) (c\<lparr>ca_live := d\<rparr>)))"

definition cache_sync :: "(cached_device, unit) cmd" where
  "cache_sync c = (Ok (), cache_serve (\<lambda>_. [md_data (ca_live c)]) c)"

definition cache_zoom :: "(memory_device, 'a) cmd \<Rightarrow> (cached_device, 'a) cmd" where
  "cache_zoom m = czoom ca_live (\<lambda>d c. c\<lparr>ca_live := d\<rparr>) m"

definition cache_ops :: "cached_device device_ops" where
  "cache_ops = \<lparr>op_geometry = (\<lambda>c. md_geometry (ca_live c)), op_read_at = (\<lambda>c. mem_read_at (ca_live c)),
     op_write_at = cache_write_at, op_sync = cache_sync, op_trim = (\<lambda>off len. cache_zoom (mem_trim off len)),
     op_supports_trim = (\<lambda>c. md_trim_supported (ca_live c)), op_resize = (\<lambda>n. cache_zoom (mem_resize n))\<rparr>"

text \<open>The images that may be found on the medium after the power loss.\<close>

definition survives :: "cached_device \<Rightarrow> bytes \<Rightarrow> bool" where
  "survives c img \<longleftrightarrow> length img = length (md_data (ca_live c))
     \<and> (\<forall>s. \<exists>v \<in> set (ca_versions c). cut (s * 512) 512 img = cut (s * 512) 512 v)"

lemma cache_ops_sel [simp]:
  "op_geometry cache_ops c = md_geometry (ca_live c)" "op_read_at cache_ops c = mem_read_at (ca_live c)"
  "op_write_at cache_ops = cache_write_at" "op_sync cache_ops = cache_sync"
  by (simp_all add: cache_ops_def)

lemma cached_sel [simp]:
  "ca_live (cached n d) = d" "ca_versions (cached n d) = [md_data d]" "ca_lost (cached n d) = False"
  by (simp_all add: cached_def)

lemma cache_serve_sel [simp]: "ca_live (cache_serve f c) = ca_live c"
  by (simp add: cache_serve_def)

interpretation cache: sector_device cache_ops "\<lambda>c. md_data (ca_live c)" "\<lambda>c. mem_ok (ca_live c)"
proof unfold_locales
  fix c :: cached_device and off len :: u64 and dat :: bytes
  assume i: "mem_ok (ca_live c)"
  have ss: "dev_sector_size cache_ops c = dev_sector_size mem_ops (ca_live c)"
    by (simp add: dev_sector_size_def)
  show "0 < unat (dev_sector_size cache_ops c) \<and> unat (dev_sector_size cache_ops c) dvd 4096
      \<and> unat (dev_sector_size cache_ops c) dvd length (md_data (ca_live c)) \<and> length (md_data (ca_live c)) < 2 ^ 64"
    using mem.sector_size_law [OF i] by (simp add: ss)
  show "op_read_at cache_ops c off len = Ok (cut (unat off) (unat len) (md_data (ca_live c)))"
    if "unat (dev_sector_size cache_ops c) dvd unat off" "unat (dev_sector_size cache_ops c) dvd unat len"
      "unat off + unat len \<le> length (md_data (ca_live c))"
    using mem.sector_read_law [OF i] that by (simp add: ss)
  show "\<exists>c'. op_write_at cache_ops off dat c = (Ok (), c') \<and> mem_ok (ca_live c')
      \<and> op_geometry cache_ops c' = op_geometry cache_ops c
      \<and> (True \<and> md_data (ca_live c') = put (unat off) dat (md_data (ca_live c)) \<or> \<not> True \<and> md_data (ca_live c') = md_data (ca_live c))
      \<and> (True \<longrightarrow> True)"
    if "unat (dev_sector_size cache_ops c) dvd unat off" "unat (dev_sector_size cache_ops c) dvd length dat"
      "unat off + length dat \<le> length (md_data (ca_live c))"
  proof -
    note al = that [unfolded ss]
    obtain d' where "mem_write_at off dat (ca_live c) = (Ok (), d')" "mem_ok d'" "md_geometry d' = md_geometry (ca_live c)"
      "md_data d' = put (unat off) dat (md_data (ca_live c))"
      using mem.lossy_write_law [OF i al] by auto
    then show ?thesis
      by (simp add: cache_write_at_def)
  qed
  show "\<exists>c'. op_sync cache_ops c = (Ok (), c') \<and> mem_ok (ca_live c')
      \<and> op_geometry cache_ops c' = op_geometry cache_ops c \<and> md_data (ca_live c') = md_data (ca_live c) \<and> True = True"
    using i by (simp add: cache_sync_def)
qed

section \<open>The versions left behind\<close>

text \<open>All versions have the property \<open>P\<close>.\<close>

definition versions_ok :: "(bytes \<Rightarrow> bool) \<Rightarrow> cached_device \<Rightarrow> bool" where
  "versions_ok P c \<longleftrightarrow> (\<forall>v \<in> set (ca_versions c). P v)"

lemma cache_write_versions:
  assumes "cache_write_at off dat c = (Ok (), c')" "versions_ok P c" "P (md_data (ca_live c'))"
  shows "versions_ok P c'"
  using assms by (auto simp: versions_ok_def cache_write_at_def cache_serve_def split: prod.splits if_splits)

lemma cache_sync_versions:
  assumes "cache_sync c = (Ok (), c')"
  shows "versions_ok P c \<Longrightarrow> P (md_data (ca_live c)) \<Longrightarrow> versions_ok P c'" "ca_live c' = ca_live c"
    "ca_budget c' \<noteq> 0 \<Longrightarrow> ca_versions c' = [md_data (ca_live c')]"
    "ca_lost c' \<or> ca_versions c' = [md_data (ca_live c')]"
  using assms by (auto simp: versions_ok_def cache_sync_def cache_serve_def split: if_splits)

text \<open>Records and headers reach the device by one write each.\<close>

lemma jdev_Ok_iff: "jdev m j = (Ok x, j') \<longleftrightarrow> (\<exists>d. m (jn_device j) = (Ok x, d) \<and> j' = j\<lparr>jn_device := d\<rparr>)"
  by (cases "m (jn_device j)") (auto simp: jdev_def czoom_simp)

lemma jset_Ok_iff: "jset f j = (Ok x, j') \<longleftrightarrow> j' = j\<lparr>jn_header := f (jn_header j)\<rparr>"
  by (auto simp: jset_def cmod_def)

lemma write_bytes_one_write:
  assumes "write_bytes ops p src j = (Ok (), j')" "src \<noteq> []"
  shows "\<exists>off dat. op_write_at ops off dat (jn_device j) = (Ok (), jn_device j')"
  using assms by (auto simp: write_bytes_def result_iff jdev_Ok_iff split: prod.splits) blast

lemma append_record_one_write:
  assumes "append_record ops kind t payload j = (Ok (), j')"
  shows "\<exists>off dat. op_write_at ops off dat (jn_device j) = (Ok (), jn_device j')"
proof -
  let ?src = "record_image kind t (jh_next_seq (jn_header j)) payload"
  have "?src \<noteq> []"
    using length_record_image [of kind t "jh_next_seq (jn_header j)" payload] by fastforce
  moreover obtain j1 where "write_bytes ops (jh_tail_offset (jn_header j)) ?src j = (Ok (), j1)" "jn_device j' = jn_device j1"
    using assms by (auto simp: append_record_def Let_def cthen_Ok_iff cbind_Ok_iff jset_Ok_iff)
  ultimately show ?thesis
    using write_bytes_one_write [of ops "jh_tail_offset (jn_header j)" ?src j j1] by simp
qed

lemma flush_header_one_write:
  assumes "flush_header ops j = (Ok (), j')"
  shows "\<exists>off dat d. op_write_at ops off dat (jn_device j) = (Ok (), d) \<and> op_sync ops d = (Ok (), jn_device j')"
proof -
  obtain off dat j1 where "jdev (op_write_at ops off dat) j = (Ok (), j1)" "jdev (op_sync ops) j1 = (Ok (), j')"
    using assms by (auto simp: flush_header_def cthen_Ok_iff cbind_Ok_iff)
  then show ?thesis
    by (simp only: jdev_Ok_iff) fastforce
qed

text \<open>The steps of a commit.\<close>

lemma txn_commit_steps:
  assumes "txn_commit ops t j = (Ok x, j')"
  shows "\<exists>j1 j2 d3 j4 d5. flush_header ops (j\<lparr>jn_header := (jn_header j)\<lparr>jh_state := JSTATE_DIRTY\<rparr>\<rparr>) = (Ok (), j1)
    \<and> cfor (\<lambda>q. append_record ops Op (tb_txn_id t) (op_encode q)) (tb_ops t) j1 = (Ok (), j2)
    \<and> op_sync ops (jn_device j2) = (Ok (), d3)
    \<and> append_record ops Commit (tb_txn_id t) [] (j2\<lparr>jn_device := d3\<rparr>) = (Ok (), j4)
    \<and> op_sync ops (jn_device j4) = (Ok (), d5)
    \<and> flush_header ops (j4\<lparr>jn_device := d5\<rparr>) = (Ok (), j')"
  using assms
  by (auto simp: txn_commit_def cthen_Ok_iff jset_Ok_iff jdev_Ok_iff cret_def cfail_def split: if_splits)

text \<open>Appending keeps a property of the versions that survives writes into the free part of the journal.\<close>

lemma append_versions:
  assumes "mem_ok (ca_live (jn_device j))"
    and "area_start j + unat (jh_record_area_bytes (jn_header j)) \<le> length (md_data (ca_live (jn_device j)))"
    and "unat (jh_tail_offset (jn_header j)) + (44 + length payload) \<le> unat (jh_record_area_bytes (jn_header j))"
    and "unat (jh_next_seq (jn_header j)) + 1 < 2 ^ 64"
    and "versions_ok P (jn_device j)" "P (md_data (ca_live (jn_device j)))" "lo \<le> area_start j + unat (jh_tail_offset (jn_header j))"
    and closed: "\<And>v q src. P v \<Longrightarrow> lo \<le> q \<Longrightarrow> q + length src \<le> area_start j + unat (jh_record_area_bytes (jn_header j)) \<Longrightarrow> P (put q src v)"
  shows "\<exists>c. append_record cache_ops kind t payload j
      = (Ok (), j\<lparr>jn_device := c, jn_header := advance (44 + length payload) 1 (jn_header j)\<rparr>)
    \<and> mem_ok (ca_live c) \<and> length (md_data (ca_live c)) = length (md_data (ca_live (jn_device j))) \<and> versions_ok P c
    \<and> P (md_data (ca_live c))"
proof -
  let ?rec = "record_image kind t (jh_next_seq (jn_header j)) payload" and ?q = "area_start j + unat (jh_tail_offset (jn_header j))"
  obtain c where c: "append_record cache_ops kind t payload j
      = (Ok (), j\<lparr>jn_device := c, jn_header := advance (44 + length payload) 1 (jn_header j)\<rparr>)"
      "cache.wrote (jn_device j) [(?q, ?rec)] c"
    using cache.append_record_wrote [OF assms(1-4)] by blast
  have img: "md_data (ca_live c) = put ?q ?rec (md_data (ca_live (jn_device j)))"
    using c(2) by (auto simp: cache.wrote_def)
  moreover have "P (put ?q ?rec (md_data (ca_live (jn_device j))))"
    using assms(6,7) by (intro closed) (use assms(3) in simp_all)
  moreover obtain off dat where "cache_write_at off dat (jn_device j) = (Ok (), c)"
    using append_record_one_write [OF c(1)] by auto
  ultimately have "versions_ok P c" "P (md_data (ca_live c))"
    using cache_write_versions [OF _ assms(5)] by simp_all
  then show ?thesis
    using c(1) cache.wrote_inv [OF c(2)] img assms(2,3) by (intro exI [of _ c]) simp
qed

lemma append_ops_versions:
  assumes "mem_ok (ca_live (jn_device j))"
    and "area_start j + unat (jh_record_area_bytes (jn_header j)) \<le> length (md_data (ca_live (jn_device j)))"
    and "unat (jh_tail_offset (jn_header j)) + length (log_bytes (number (jh_next_seq (jn_header j)) (map (LogOp t) qs)))
       \<le> unat (jh_record_area_bytes (jn_header j))"
    and "unat (jh_next_seq (jn_header j)) + length qs < 2 ^ 64"
    and "versions_ok P (jn_device j)" "P (md_data (ca_live (jn_device j)))" "lo \<le> area_start j + unat (jh_tail_offset (jn_header j))"
    and "\<And>v q src. P v \<Longrightarrow> lo \<le> q \<Longrightarrow> q + length src \<le> area_start j + unat (jh_record_area_bytes (jn_header j)) \<Longrightarrow> P (put q src v)"
    and "cfor (\<lambda>q. append_record cache_ops Op t (op_encode q)) qs j = (Ok (), j')"
  shows "versions_ok P (jn_device j') \<and> P (md_data (ca_live (jn_device j')))"
  using assms
proof (induction qs arbitrary: j)
  case (Cons q qs)
  let ?h = "jn_header j" and ?n = "44 + length (op_encode q)"
  have n: "?n = 57 + length (op_data q)"
    by simp
  have fits: "unat (jh_tail_offset ?h) + ?n + length (log_bytes (number (jh_next_seq ?h + 1) (map (LogOp t) qs)))
      \<le> unat (jh_record_area_bytes ?h)"
    using Cons.prems(3) by simp
  obtain c where c: "append_record cache_ops Op t (op_encode q) j = (Ok (), j\<lparr>jn_device := c, jn_header := advance ?n 1 ?h\<rparr>)"
      "mem_ok (ca_live c)" "length (md_data (ca_live c)) = length (md_data (ca_live (jn_device j)))" "versions_ok P c" "P (md_data (ca_live c))"
    using append_versions [OF Cons.prems(1,2) _ _ Cons.prems(5,6,7,8), of "op_encode q" Op t] fits Cons.prems(4) by auto
  let ?j1 = "j\<lparr>jn_device := c, jn_header := advance ?n 1 ?h\<rparr>"
  have tail: "unat (jh_tail_offset (advance ?n 1 ?h)) = unat (jh_tail_offset ?h) + ?n"
    using fits unat_u64_lt [of "jh_record_area_bytes ?h"] by (intro unat_advance_tail) simp
  have seq: "unat (jh_next_seq ?h + 1) = unat (jh_next_seq ?h) + 1"
    using Cons.prems(4) unat_add_of_nat [of "jh_next_seq ?h" 1] by simp
  have "cfor (\<lambda>q. append_record cache_ops Op t (op_encode q)) qs ?j1 = (Ok (), j')"
    using Cons.prems(9) c(1) by (simp add: cthen_run(1) [where m = "append_record _ _ _ _"])
  then show ?case
    using Cons.IH [of ?j1] c(2-5) Cons.prems(2,4,7,8) fits tail seq by simp
qed (simp add: cret_def)

section \<open>The image while a commit runs\<close>

text \<open>
  Before the last header write the medium differs from the image before the commit only in the free part
  of the journal and in the header, which may already be marked dirty.
\<close>

definition pending_image :: "superblock \<Rightarrow> journal_header \<Rightarrow> bytes \<Rightarrow> bytes \<Rightarrow> bool" where
  "pending_image sb h img0 v \<longleftrightarrow> length v = length img0
     \<and> (\<forall>i < length img0. i < journal_lo sb \<or> journal_lo sb + 4096 \<le> i \<and> i < journal_lo sb + 4096 + unat (jh_tail_offset h)
           \<or> journal_hi sb h \<le> i \<longrightarrow> v ! i = img0 ! i)
     \<and> (cut (journal_lo sb) 4096 v = jh_encode_block h \<or> cut (journal_lo sb) 4096 v = jh_encode_block (dirty_header h))"

lemma pending_append:
  assumes "pending_image sb h img0 v" "journal_lo sb + 4096 + unat (jh_tail_offset h) \<le> p" "p + length src \<le> journal_hi sb h"
    and "journal_hi sb h \<le> length img0"
  shows "pending_image sb h img0 (put p src v)"
  using assms by (auto simp: pending_image_def nth_put)

lemma pending_dirty:
  assumes "pending_image sb h img0 v" "journal_hi sb h \<le> length img0"
  shows "pending_image sb h img0 (put (journal_lo sb) (jh_encode_block (dirty_header h)) v)"
  using assms by (auto simp: pending_image_def nth_put journal_hi_def)

lemma dirty_same_log: "same_log (dirty_header h) h" "jh_next_seq (dirty_header h) = jh_next_seq h"
  by (simp_all add: dirty_header_def begun_header_def same_log_def)

lemma pending_agree: "pending_image sb h img0 v \<Longrightarrow> agree_outside (journal_lo sb) (journal_hi sb h) v img0"
  by (auto simp: pending_image_def agree_outside_def)

lemma pending_logged:
  assumes "pending_image sb h img0 v" "logged_volume sb es h img0" "length img0 < 2 ^ 64"
  shows "\<exists>h'. logged_volume sb es h' v"
proof -
  have L: "log_on sb es h img0" "valid_items (valid_op sb (journal_lo sb) (journal_hi sb h) (length img0)) (map snd es)"
    using assms(2) by (simp_all add: logged_volume_def)
  note b = log_on_bounds [OF L(1) assms(3)]
  let ?a = "journal_lo sb + 4096 + unat (jh_head_offset h)"
  have len: "length v = length img0"
    using assms(1) by (simp add: pending_image_def)
  have "cut ?a (length (log_bytes es)) v = cut ?a (length (log_bytes es)) img0"
    using assms(1) b(4,6,7) len by (intro buf_eqI) (auto simp: pending_image_def nth_cut journal_hi_def)
  then have body: "cut ?a (length (log_bytes es)) v = log_bytes es"
    using L(1) by (simp add: log_on_def Let_def journal_lo_def)
  obtain h' where h': "same_log h' h" "cut (journal_lo sb) 4096 v = jh_encode_block h'"
    using assms(1) dirty_same_log(1) by (auto simp: pending_image_def intro: same_log_refl)
  then have "log_on sb es h' v"
    using L(1) len body by (simp add: log_on_def Let_def same_log_def journal_lo_def)
  then have "logged_volume sb es h' v"
    using logged_volume_transfer [OF assms(2) _ pending_agree [OF assms(1)] assms(3)] L(2) h'(1) by (simp add: same_log_def)
  then show ?thesis
    by blast
qed

section \<open>What survives\<close>

text \<open>A header fills less than one sector; the rest of its block is zero.\<close>

lemma header_tail: "512 \<le> i \<Longrightarrow> i < 4096 \<Longrightarrow> jh_encode_block h ! i = 0"
  by (simp add: jh_encode_eq crc_seal_def nth_put jh_body_def length_jh_chunks zeros_def)

lemma survives_nth:
  assumes "survives c img" "versions_ok (\<lambda>v. length v = length img) c" "i < length img"
  shows "\<exists>v \<in> set (ca_versions c). img ! i = v ! i"
proof -
  let ?s = "i div 512 * 512"
  obtain v where v: "v \<in> set (ca_versions c)" "cut ?s 512 img = cut ?s 512 v"
    using assms(1) by (auto simp: survives_def)
  have "cut ?s 512 img ! (i - ?s) = cut ?s 512 v ! (i - ?s)"
    using v(2) by simp
  moreover have "?s \<le> i" "i - ?s < 512"
    by (simp_all add: minus_div_mult_eq_mod)
  ultimately have "img ! i = v ! i"
    using assms(2,3) v(1) by (simp add: versions_ok_def cut_def)
  then show ?thesis
    using v(1) by blast
qed

text \<open>A header is written whole or not at all, since it lies in one sector.\<close>

lemma survives_header:
  assumes "survives c img" "versions_ok (\<lambda>v. length v = length img \<and> (\<exists>h \<in> H. cut p 4096 v = jh_encode_block h)) c"
    and "512 dvd p" "p + 4096 \<le> length img"
  shows "\<exists>v h. v \<in> set (ca_versions c) \<and> h \<in> H \<and> cut p 4096 v = jh_encode_block h \<and> cut p 4096 img = jh_encode_block h"
proof -
  have p: "p div 512 * 512 = p"
    using assms(3) by simp
  obtain v where v: "v \<in> set (ca_versions c)" "cut p 512 img = cut p 512 v"
    using assms(1) p unfolding survives_def by metis
  then obtain h where h: "h \<in> H" "cut p 4096 v = jh_encode_block h" "length v = length img"
    using assms(2) by (auto simp: versions_ok_def)
  have "cut p 4096 img ! i = jh_encode_block h ! i" if i: "i < 4096" for i
  proof (cases "i < 512")
    case True
    then have "cut p 512 img ! i = cut p 512 v ! i"
      using v(2) by simp
    then have "cut p 4096 img ! i = cut p 4096 v ! i"
      using True assms(4) h(3) by (simp add: nth_cut)
    then show ?thesis
      by (simp only: h(2))
  next
    case False
    have "versions_ok (\<lambda>v. length v = length img) c"
      using assms(2) by (simp add: versions_ok_def)
    then obtain w where w: "w \<in> set (ca_versions c)" "img ! (p + i) = w ! (p + i)"
      using survives_nth [OF assms(1), of "p + i"] assms(4) i by auto
    then obtain g where g: "cut p 4096 w = jh_encode_block g" "length w = length img"
      using assms(2) by (auto simp: versions_ok_def)
    have "cut p 4096 img ! i = cut p 4096 w ! i"
      using w(2) i assms(4) g(2) by (simp add: nth_cut)
    then show ?thesis
      using False i by (simp add: g(1) header_tail)
  qed
  then have "cut p 4096 img = jh_encode_block h"
    using assms(4) by (intro nth_equalityI) simp_all
  then show ?thesis
    using v(1) h by blast
qed

lemma survives_pending:
  assumes "survives c img" "versions_ok (pending_image sb h img0) c" "journal_lo sb + 4096 \<le> length img0"
    and "length (md_data (ca_live c)) = length img0"
  shows "pending_image sb h img0 img"
proof -
  have len: "length img = length img0"
    using assms(1,4) by (simp add: survives_def)
  have same: "versions_ok (\<lambda>v. length v = length img) c"
    using assms(2) by (simp add: versions_ok_def pending_image_def len)
  have "versions_ok (\<lambda>v. length v = length img \<and> (\<exists>g \<in> {h, dirty_header h}. cut (journal_lo sb) 4096 v = jh_encode_block g)) c"
    using assms(2) by (auto simp: versions_ok_def pending_image_def len)
  from survives_header [OF assms(1) this] have "cut (journal_lo sb) 4096 img = jh_encode_block h
      \<or> cut (journal_lo sb) 4096 img = jh_encode_block (dirty_header h)"
    using assms(3) len by (auto simp: journal_lo_def)
  moreover have "img ! i = img0 ! i" if "i < length img0" "i < journal_lo sb
      \<or> journal_lo sb + 4096 \<le> i \<and> i < journal_lo sb + 4096 + unat (jh_tail_offset h) \<or> journal_hi sb h \<le> i" for i
  proof -
    have "i < length img"
      using that(1) len by simp
    from survives_nth [OF assms(1) same this]
    obtain v where "v \<in> set (ca_versions c)" "img ! i = v ! i"
      by blast
    then show ?thesis
      using assms(2) that by (auto simp: versions_ok_def pending_image_def)
  qed
  ultimately show ?thesis
    using len by (auto simp: pending_image_def)
qed

lemma survives_last_header:
  assumes "survives c img" "ca_versions c = [v, put p (jh_encode_block h) v]" "length v = length img"
    and "cut p 4096 v = jh_encode_block g" "512 dvd p" "p + 4096 \<le> length img"
  shows "img = v \<or> img = put p (jh_encode_block h) v"
proof -
  let ?w = "put p (jh_encode_block h) v"
  have vs: "versions_ok (\<lambda>v. length v = length img) c"
    using assms(2,3,6) by (simp add: versions_ok_def)
  have "versions_ok (\<lambda>v. length v = length img \<and> (\<exists>h \<in> {g, h}. cut p 4096 v = jh_encode_block h)) c"
    using assms(2-4,6) by (simp add: versions_ok_def)
  from survives_header [OF assms(1) this assms(5,6)]
  have hd: "cut p 4096 img = cut p 4096 v \<or> cut p 4096 img = cut p 4096 ?w"
    using assms(3,4,6) by auto
  have out: "img ! i = v ! i" if "i < length img" "i < p \<or> p + 4096 \<le> i" for i
    using survives_nth [OF assms(1) vs that(1)] that assms(2,3,6) by (auto simp: nth_put)
  have eq: "img = u" if "length u = length img" "cut p 4096 img = cut p 4096 u"
    "\<And>i. i < length img \<Longrightarrow> i < p \<or> p + 4096 \<le> i \<Longrightarrow> u ! i = v ! i" for u
  proof (rule nth_equalityI)
    fix i assume i: "i < length img"
    show "img ! i = u ! i"
    proof (cases "i < p \<or> p + 4096 \<le> i")
      case False
      then obtain k where k: "i = p + k" "k < 4096"
        by (metis add_diff_inverse_nat not_le add_less_cancel_left)
      then have "cut p 4096 img ! k = cut p 4096 u ! k"
        using that(2) by simp
      then show ?thesis
        using k assms(6) that(1) by (simp add: nth_cut)
    qed (use out that(3) i in simp)
  qed (use that(1) in simp)
  show ?thesis
    using hd
  proof
    assume "cut p 4096 img = cut p 4096 v"
    then show ?thesis
      using eq [of v] assms(3) by simp
  next
    assume "cut p 4096 img = cut p 4096 ?w"
    then have "img = ?w"
      using assms(3,6) by (intro eq) (auto simp: nth_put)
    then show ?thesis ..
  qed
qed

section \<open>The versions after a commit\<close>

text \<open>A header write and its sync, when all was durable before or power was lost.\<close>

lemma flush_versions:
  assumes "flush_header cache_ops j = (Ok (), j')" "jn_device j = c" "jn_device j' = c'"
  shows "versions_ok P c \<Longrightarrow> P (md_data (ca_live c')) \<Longrightarrow> versions_ok P c'"
    and "ca_budget c = 0 \<Longrightarrow> ca_versions c' = ca_versions c \<and> ca_lost c'"
    and "ca_versions c = [v] \<Longrightarrow> ca_lost c' \<and> ca_versions c' = [v, md_data (ca_live c')]
      \<or> ca_lost c' \<and> ca_versions c' = [v] \<or> ca_versions c' = [md_data (ca_live c')]"
proof -
  obtain off dat d where d: "cache_write_at off dat c = (Ok (), d)" "cache_sync d = (Ok (), c')"
    using flush_header_one_write [OF assms(1)] assms(2,3) by auto
  have live: "md_data (ca_live d) = md_data (ca_live c')"
    using cache_sync_versions(2) [OF d(2)] by simp
  show "versions_ok P c \<Longrightarrow> P (md_data (ca_live c')) \<Longrightarrow> versions_ok P c'"
    using cache_sync_versions(1) [OF d(2)] cache_write_versions [OF d(1)] live by simp
  show "ca_budget c = 0 \<Longrightarrow> ca_versions c' = ca_versions c \<and> ca_lost c'"
    using d by (auto simp: cache_write_at_def cache_sync_def cache_serve_def split: prod.splits)
  show "ca_versions c = [v] \<Longrightarrow> ca_lost c' \<and> ca_versions c' = [v, md_data (ca_live c')]
      \<or> ca_lost c' \<and> ca_versions c' = [v] \<or> ca_versions c' = [md_data (ca_live c')]"
    using d by (auto simp: cache_write_at_def cache_sync_def cache_serve_def split: prod.splits if_splits)
qed

text \<open>
  After a commit the medium holds a pending image, or the last pending image with or without the new
  header; without a power loss it holds the new header.
\<close>

lemma cached_commit:
  assumes ok: "mem_ok (ca_live c)" and log: "log_on sb es h (md_data (ca_live c))" and "qs \<noteq> []"
    and fits: "unat (jh_tail_offset h) + length (log_bytes (number (jh_next_seq h) (txn_items (jh_next_txn_id h) qs)))
       \<le> unat (jh_record_area_bytes h)"
    and seqs: "unat (jh_next_seq h) + length (txn_items (jh_next_txn_id h) qs) < 2 ^ 64"
    and clean: "ca_versions c = [md_data (ca_live c)]"
    and run: "txn_commit cache_ops \<lparr>tb_txn_id = jh_next_txn_id h, tb_ops = qs\<rparr> (opened sb (begun_header h) c)
        = (Ok (jh_next_txn_id h), j')"
  defines "P \<equiv> pending_image sb h (md_data (ca_live c))" and "c' \<equiv> jn_device j'"
  shows "length (md_data (ca_live c')) = length (md_data (ca_live c)) \<and> (versions_ok P c' \<and> ca_lost c' \<or>
    (\<exists>v g. P v \<and> md_data (ca_live c') = put (journal_lo sb) (jh_encode_block g) v
       \<and> (ca_versions c' = [v, md_data (ca_live c')] \<and> ca_lost c' \<or> ca_versions c' = [md_data (ca_live c')])))"
proof -
  let ?t = "jh_next_txn_id h" and ?img = "md_data (ca_live c)" and ?h = "dirty_header h"
  have lt: "length ?img < 2 ^ 64"
    using cache.sector_size_law [OF ok] by blast
  note b = log_on_bounds [OF log lt] and a = area_start_opened [OF log lt]
  have hi: "journal_hi sb h \<le> length ?img"
    by (rule b)
  have h: "jh_tail_offset ?h = jh_tail_offset h" "jh_next_seq ?h = jh_next_seq h" "jh_record_area_bytes ?h = jh_record_area_bytes h"
    by (simp_all add: dirty_header_def begun_header_def)
  let ?ops = "number (jh_next_seq h) (map (LogOp ?t) qs)"
  let ?n = "length (log_bytes ?ops)"
  have split: "number (jh_next_seq h) (txn_items ?t qs) = ?ops @ [(jh_next_seq h + of_nat (length qs), LogCommit ?t)]"
    by (simp add: txn_items_def number_append)
  have room: "unat (jh_tail_offset h) + (?n + 44) \<le> unat (jh_record_area_bytes h)" "unat (jh_next_seq h) + length qs + 1 < 2 ^ 64"
    using fits seqs by (simp_all add: split) (simp add: txn_items_def)
  obtain j1 j2 c3 j4 c5 where steps: "flush_header cache_ops (opened sb ?h c) = (Ok (), j1)"
    "cfor (\<lambda>q. append_record cache_ops Op ?t (op_encode q)) qs j1 = (Ok (), j2)"
    "cache_sync (jn_device j2) = (Ok (), c3)"
    "append_record cache_ops Commit ?t [] (j2\<lparr>jn_device := c3\<rparr>) = (Ok (), j4)"
    "cache_sync (jn_device j4) = (Ok (), c5)"
    "flush_header cache_ops (j4\<lparr>jn_device := c5\<rparr>) = (Ok (), j')"
    using txn_commit_steps [OF run] by (auto simp: opened_def dirty_header_def begun_header_def)
  have closed: "P (put q src v)" if "P v" "journal_lo sb + 4096 + unat (jh_tail_offset h) \<le> q"
      "q + length src \<le> journal_lo sb + 4096 + unat (jh_record_area_bytes h)" for v q src
    using pending_append [OF that(1) [unfolded P_def] that(2) _ hi] that(3) by (simp add: P_def journal_hi_def)
  have P0: "P ?img" "versions_ok P c"
    using b(9) clean by (simp_all add: P_def pending_image_def versions_ok_def)
  obtain c1 where c1: "j1 = opened sb ?h c1" "mem_ok (ca_live c1)"
      "md_data (ca_live c1) = put (journal_lo sb) (jh_encode_block ?h) ?img"
    using cache.flush_header_wrote [of "opened sb ?h c"] ok b(1) steps(1) by (auto simp: cache.wrote_def journal_lo_def opened_def)
  have P1: "P (md_data (ca_live c1))"
    using pending_dirty [OF P0(1) [unfolded P_def] hi] by (simp add: c1(3) P_def)
  have V1: "versions_ok P c1"
    using flush_versions(1) [OF steps(1) opened_sel(1), of c1 P] P0(2) P1 by (simp add: c1(1))
  have N1: "length (md_data (ca_live c1)) = length ?img"
    using c1(3) b(1) by (simp add: journal_lo_def)
  have A: "area_start (opened sb g d) = journal_lo sb + 4096" for g d
    using a [of g d] by (simp add: area_start_def opened_def)
  have "area_start j1 + unat (jh_record_area_bytes (jn_header j1)) \<le> length (md_data (ca_live c1))"
    using hi N1 by (simp add: c1(1) A h journal_hi_def)
  note fit1 = c1(2) this
  have long: "length v = length ?img" if "P v" for v
    using that by (simp add: P_def pending_image_def)
  let ?g = "advance ?n (length qs) ?h"
  obtain c2 where c2: "j2 = opened sb ?g c2" "mem_ok (ca_live c2)"
    using cache.append_ops_wrote [of j1 ?t qs] fit1 room steps(2) cache.wrote_inv by (auto simp: c1(1) h) (auto simp: opened_def)
  have V2: "versions_ok P c2" "P (md_data (ca_live c2))"
    using append_ops_versions [OF _ _ _ _ _ _ _ _ steps(2), of P "journal_lo sb + 4096 + unat (jh_tail_offset h)"] fit1 room V1 P1 closed
    by (simp_all add: c1(1) c2(1) A h)
  note sync2 = cache_sync_versions [OF steps(3) [unfolded c2(1) opened_sel]]
  have V3: "versions_ok P c3" "P (md_data (ca_live c3))" "mem_ok (ca_live c3)"
    using sync2(1,2) V2 c2(2) by simp_all
  have j3: "j2\<lparr>jn_device := c3\<rparr> = opened sb ?g c3"
    by (simp add: c2(1) opened_def)
  have tail: "unat (jh_tail_offset ?g) = unat (jh_tail_offset h) + ?n"
    using room(1) unat_u64_lt [of "jh_record_area_bytes h"] h(1) by (subst unat_advance_tail) simp_all
  have seq: "unat (jh_next_seq ?g) = unat (jh_next_seq h) + length qs"
    using room(2) h(2) by (simp add: unat_add_of_nat)
  obtain c4 where c4: "j4 = opened sb (advance 44 1 ?g) c4" "versions_ok P c4" "P (md_data (ca_live c4))" "mem_ok (ca_live c4)"
    using append_versions [of "opened sb ?g c3" "[]" P "journal_lo sb + 4096 + unat (jh_tail_offset h)" Commit ?t]
      V3 steps(4) room closed tail seq hi long [OF V3(2)]
    by (auto simp: j3 A h journal_hi_def) (auto simp: opened_def)
  note sync4 = cache_sync_versions [OF steps(5) [unfolded c4(1) opened_sel]]
  have V5: "versions_ok P c5" "P (md_data (ca_live c5))" "mem_ok (ca_live c5)"
    using sync4(1,2) c4 by simp_all
  have j5: "j4\<lparr>jn_device := c5\<rparr> = opened sb (advance 44 1 ?g) c5"
    by (simp add: c4(1) opened_def)
  have last: "md_data (ca_live c') = put (journal_lo sb) (jh_encode_block (advance 44 1 ?g)) (md_data (ca_live c5))"
    using cache.flush_header_wrote [of "opened sb (advance 44 1 ?g) c5"] V5 b(1) long [OF V5(2)] steps(6)
    by (auto simp: j5 c'_def cache.wrote_def journal_lo_def opened_def)
  note flush = flush_versions(2,3) [OF steps(6) [unfolded j5] opened_sel(1) c'_def [THEN meta_eq_to_obj_eq, symmetric]]
  have "length (md_data (ca_live c')) = length ?img"
    using last long [OF V5(2)] b(1) by (simp add: journal_lo_def)
  moreover have "versions_ok P c' \<and> ca_lost c' \<or>
    (\<exists>v g. P v \<and> md_data (ca_live c') = put (journal_lo sb) (jh_encode_block g) v
       \<and> (ca_versions c' = [v, md_data (ca_live c')] \<and> ca_lost c' \<or> ca_versions c' = [md_data (ca_live c')]))"
  proof (cases "ca_budget c5 = 0")
    case True
    then show ?thesis
      using flush(1) V5(1) by (simp add: versions_ok_def)
  next
    case False
    then have "ca_versions c5 = [md_data (ca_live c5)]"
      by (rule sync4(3))
    from flush(2) [OF this] show ?thesis
      using V5(2) last by (auto simp: versions_ok_def)
  qed
  ultimately show ?thesis
    by blast
qed

text \<open>Whatever survives a commit holds the log before it or, unless power was lost, the log with the transaction.\<close>

lemma cached_survivor:
  assumes ok: "mem_ok d" and vol: "logged_volume sb es h (md_data d)" and "qs \<noteq> []"
    and valid: "\<And>q. q \<in> set qs \<Longrightarrow> valid_op sb (journal_lo sb) (journal_hi sb h) (length (md_data d)) q"
    and fits: "unat (jh_tail_offset h) + length (log_bytes (number (jh_next_seq h) (txn_items (jh_next_txn_id h) qs)))
       \<le> unat (jh_record_area_bytes h)"
    and seqs: "unat (jh_next_seq h) + length qs + 1 < 2 ^ 64"
    and run: "txn_commit cache_ops \<lparr>tb_txn_id = jh_next_txn_id h, tb_ops = qs\<rparr> (opened sb (begun_header h) (cached n d))
        = (Ok (jh_next_txn_id h), j')"
    and img: "survives (jn_device j') img"
  shows "\<exists>es' h'. logged_volume sb es' h' img \<and> agree_outside (journal_lo sb) (journal_hi sb h) img (md_data d)
     \<and> (map snd es' = map snd es \<and> ca_lost (jn_device j') \<or> map snd es' = map snd es @ txn_items (jh_next_txn_id h) qs)"
proof -
  let ?c' = "jn_device j'" and ?items = "txn_items (jh_next_txn_id h) qs"
  have log: "log_on sb es h (md_data d)"
    using vol by (simp add: logged_volume_def)
  have lt: "length (md_data d) < 2 ^ 64"
    using mem.sector_size_law [OF ok] by blast
  note b = log_on_bounds [OF log lt]
  have len: "length ?items = length qs + 1"
    by (simp add: txn_items_def)
  have seqs': "unat (jh_next_seq h) + length ?items < 2 ^ 64"
    using seqs by (simp add: txn_items_def)
  have new: "agree_outside (journal_lo sb) (journal_hi sb h) (md_data (ca_live ?c')) (md_data d)"
    "logged_volume sb (es @ number (jh_next_seq h) ?items) (committed_header h qs) (md_data (ca_live ?c'))"
  proof -
    obtain c2 where "?c' = c2" "cache.wrote (cached n d) (commit_writes (journal_lo sb) (journal_lo sb + 4096) (dirty_header h) ?items) c2"
      using cache.commit_log_exact [of "cached n d" sb es h qs] ok log \<open>qs \<noteq> []\<close> fits seqs' run by auto
    then have "md_data (ca_live ?c') = puts (take (length qs + 3)
        (commit_writes (journal_lo sb) (journal_lo sb + 4096) (dirty_header h) ?items)) (md_data d)"
      by (auto simp: cache.wrote_def le_less len)
    note c = commit_prefix [OF vol lt valid fits _ this]
    show "agree_outside (journal_lo sb) (journal_hi sb h) (md_data (ca_live ?c')) (md_data d)"
      "logged_volume sb (es @ number (jh_next_seq h) ?items) (committed_header h qs) (md_data (ca_live ?c'))"
      using c(1,3) by simp_all
  qed
  have old: "\<exists>h'. logged_volume sb es h' img \<and> agree_outside (journal_lo sb) (journal_hi sb h) img (md_data d)"
    if "pending_image sb h (md_data d) img"
    using pending_logged [OF that vol lt] pending_agree [OF that] by blast
  have lens: "length img = length (md_data (ca_live ?c'))"
    using img by (simp add: survives_def)
  note commit = cached_commit [OF _ _ \<open>qs \<noteq> []\<close> fits seqs' _ run, of es, unfolded cached_sel, OF ok log refl]
  have N: "length (md_data (ca_live ?c')) = length (md_data d)"
    using commit by blast
  have "img = md_data (ca_live ?c') \<or> pending_image sb h (md_data d) img \<and> ca_lost ?c'"
    using conjunct2 [OF commit]
  proof (elim disjE exE conjE)
    assume "versions_ok (pending_image sb h (md_data d)) ?c'" "ca_lost ?c'"
    then show ?thesis
      using survives_pending [OF img] b(1) N by (simp add: journal_lo_def)
  next
    fix v g
    assume v: "pending_image sb h (md_data d) v" "md_data (ca_live ?c') = put (journal_lo sb) (jh_encode_block g) v"
      "ca_versions ?c' = [v, md_data (ca_live ?c')]" "ca_lost ?c'"
    obtain k where "cut (journal_lo sb) 4096 v = jh_encode_block k"
      using v(1) by (auto simp: pending_image_def)
    then show ?thesis
      using survives_last_header [OF img v(3) [unfolded v(2)], of k] v(1,2,4) b(1) lens N
      by (auto simp: pending_image_def journal_lo_def)
  next
    fix v g assume one: "ca_versions ?c' = [md_data (ca_live ?c')]"
    have "img ! i = md_data (ca_live ?c') ! i" if "i < length img" for i
      using survives_nth [OF img _ that] one lens by (simp add: versions_ok_def)
    then show ?thesis
      using lens by (auto intro: nth_equalityI)
  qed
  then show ?thesis
    using new old by (elim disjE) auto
qed

section \<open>Something survives\<close>

definition some_version :: "cached_device \<Rightarrow> bool" where
  "some_version c \<longleftrightarrow> (\<exists>v \<in> set (ca_versions c). length v = length (md_data (ca_live c)))"

lemma some_version_survives: "some_version c \<Longrightarrow> \<exists>img. survives c img"
  by (auto simp: some_version_def survives_def)

lemma some_version_write: "cache_write_at off dat c = (Ok (), c') \<Longrightarrow> some_version c \<Longrightarrow> some_version c'"
  by (auto simp: some_version_def cache_write_at_def cache_serve_def mem_write_at_def result_iff split: prod.splits if_splits)

lemma some_version_sync: "cache_sync c = (Ok (), c') \<Longrightarrow> some_version c \<Longrightarrow> some_version c'"
  by (auto simp: some_version_def cache_sync_def cache_serve_def split: if_splits)

lemma cfor_keeps:
  assumes "cfor body is s = (Ok (), t)" "I s" "\<And>i s s'. body i s = (Ok (), s') \<Longrightarrow> I s \<Longrightarrow> I s'"
  shows "I t"
  using assms(1,2) by (induction "is" arbitrary: s) (auto simp: cret_def cthen_Ok_iff intro: assms(3))

lemma commit_some_version:
  assumes "txn_commit cache_ops t j = (Ok x, j')" "some_version (jn_device j)"
  shows "some_version (jn_device j')"
proof -
  let ?I = "\<lambda>j. some_version (jn_device j)"
  have flush: "flush_header cache_ops j = (Ok (), j') \<Longrightarrow> ?I j \<Longrightarrow> ?I j'" for j j'
    using flush_header_one_write [of cache_ops j j'] some_version_write some_version_sync by fastforce
  have app: "append_record cache_ops kind u p j = (Ok (), j') \<Longrightarrow> ?I j \<Longrightarrow> ?I j'" for kind u p j j'
    using append_record_one_write [of cache_ops kind u p j j'] some_version_write by fastforce
  obtain j1 j2 c3 j4 c5 where steps: "flush_header cache_ops (j\<lparr>jn_header := (jn_header j)\<lparr>jh_state := JSTATE_DIRTY\<rparr>\<rparr>) = (Ok (), j1)"
    "cfor (\<lambda>q. append_record cache_ops Op (tb_txn_id t) (op_encode q)) (tb_ops t) j1 = (Ok (), j2)"
    "op_sync cache_ops (jn_device j2) = (Ok (), c3)"
    "append_record cache_ops Commit (tb_txn_id t) [] (j2\<lparr>jn_device := c3\<rparr>) = (Ok (), j4)"
    "op_sync cache_ops (jn_device j4) = (Ok (), c5)"
    "flush_header cache_ops (j4\<lparr>jn_device := c5\<rparr>) = (Ok (), j')"
    using txn_commit_steps [OF assms(1)] by blast
  have "?I j1"
    using flush [OF steps(1)] assms(2) by simp
  then have "?I j2"
    by (rule cfor_keeps [OF steps(2)]) (rule app)
  then have "?I j4"
    using app [OF steps(4)] some_version_sync [OF steps(3) [unfolded cache_ops_sel]] by simp
  then show ?thesis
    using flush [OF steps(6)] some_version_sync [OF steps(5) [unfolded cache_ops_sel]] by simp
qed

end
