(* ===== verification/Journal_Safety.thy ===== *)
theory Journal_Safety
  imports Journal_Cache
begin

text \<open>
  The properties of the journal, with a small concrete volume on which they are instantiated:
  seven blocks with the superblock in block 1, the journal in blocks 2 to 4 and two data blocks.
\<close>

section \<open>A concrete volume\<close>

definition demo_sb :: superblock where
  "demo_sb = (for_new_volume
     \<lparr>g_total_blocks = 7, g_block_bitmap_start = 5, g_block_bitmap_blocks = 0, g_inode_bitmap_start = 5,
      g_inode_bitmap_blocks = 0, g_inode_table_start = 5, g_inode_table_blocks = 1, g_inode_count = 16,
      g_journal_start = 2, g_journal_blocks = 3, g_data_start = 6, g_data_blocks = 1,
      g_secondary_superblock_block = 6, g_tertiary_superblock_block = 6\<rparr> (zeros 16) [] 0)"

definition demo_device :: memory_device where
  "demo_device =
    \<lparr>md_data = puts [(4096, crc_seal 508 (sb_body demo_sb)), (8192, jh_encode_block (jh_fresh 8192))] (zeros 28672),
     md_geometry = \<lparr>dg_sector_size = 512, dg_sector_count = 56, dg_capacity_bytes = 28672, dg_read_only = False\<rparr>,
     md_trim_supported = True, md_trimmed_ranges = []\<rparr>"

definition demo_ops :: "journal_op list" where
  "demo_ops = [BlockWrite 6 (replicate 4096 1), InodeUpdate 3 (zeros 256)]"

lemma demo_sb_sel:
  "sb_journal_start demo_sb = 2" "sb_journal_blocks demo_sb = 3" "wf_superblock demo_sb" "supported demo_sb"
  "sb_inode_table_start demo_sb = 5" "sb_total_inodes demo_sb = 16"
  using wf_new [of "zeros 16"] supported_new by (simp_all add: demo_sb_def) (simp_all add: for_new_volume_def Let_def)

lemma demo_length: "length (md_data demo_device) = 28672"
  by (simp add: demo_device_def demo_sb_sel)

lemma demo_mem_ok: "mem_ok demo_device"
proof -
  have "512 dvd (4096 :: nat)" "512 dvd (28672 :: nat)" by (simp_all add: dvd_eq_mod_eq_0)
  then show ?thesis
    using demo_length by (simp add: mem_ok_def) (simp add: demo_device_def)
qed

lemma demo_lo_hi: "journal_lo demo_sb = 8192" "journal_hi demo_sb (jh_fresh 8192) = 20480"
  by (simp_all add: journal_hi_def journal_lo_def demo_sb_sel jh_fresh_def)

lemma demo_logged: "logged_volume demo_sb [] (jh_fresh 8192) (md_data demo_device)"
proof -
  have "cut 4096 4096 (md_data demo_device) = crc_seal 508 (sb_body demo_sb)"
    "cut 8192 4096 (md_data demo_device) = jh_encode_block (jh_fresh 8192)"
    by (simp_all add: demo_device_def demo_sb_sel)
  then show ?thesis
    using same_volume_decode [OF sb_roundtrip [of demo_sb]]
    by (simp add: logged_volume_def log_on_def Let_def demo_sb_sel valid_items_def demo_length)
      (simp add: jh_fresh_def cut_def)
qed

lemma demo_valid: "\<forall>q \<in> set demo_ops.
   valid_op demo_sb (journal_lo demo_sb) (journal_hi demo_sb (jh_fresh 8192)) (length (md_data demo_device)) q"
  by (auto simp: demo_ops_def valid_op_def demo_lo_hi demo_length inode_record_location_def sb_geometry_def
      demo_sb_sel uadd_def INODES_PER_BLOCK_def BLOCK_SIZE_def INODE_SIZE_def)

lemma demo_fits:
  "length (log_bytes (number 0 (txn_items 1 demo_ops))) = 4510"
  by (simp add: txn_items_def demo_ops_def)

definition demo_log :: "(u64 \<times> log_item) list" where
  "demo_log = number 0 (txn_items 1 demo_ops)"

definition demo_header :: journal_header where
  "demo_header = advance (length (log_bytes demo_log)) 3 (jh_fresh 8192)"

text \<open>The volume after the transaction was committed but not yet replayed.\<close>

definition demo_logged_device :: memory_device where
  "demo_logged_device = demo_device
    \<lparr>md_data := puts (commit_writes 8192 12288 (jh_fresh 8192) (txn_items 1 demo_ops)) (md_data demo_device)\<rparr>"

lemma demo_txn: "txn_items 1 demo_ops = [LogOp 1 (BlockWrite 6 (replicate 4096 1)), LogOp 1 (InodeUpdate 3 (zeros 256)), LogCommit 1]"
  by (simp add: txn_items_def demo_ops_def)

lemma demo_summary: "summary (committed (map snd demo_log) (\<lambda>_. None)) = [\<lparr>rt_txn_id = 1, rt_ops = 2\<rparr>]"
  by (simp add: demo_log_def demo_txn)

lemma demo_logged_ok: "mem_ok demo_logged_device" "logged_volume demo_sb demo_log demo_header (md_data demo_logged_device)"
proof -
  let ?h = "jh_fresh 8192" and ?items = "txn_items 1 demo_ops"
  have h: "jh_tail_offset ?h = 0" "jh_next_seq ?h = 0" "jh_record_area_bytes ?h = 8192"
    by (simp_all add: jh_fresh_def)
  have small: "list_all small_item ?items" and len: "length ?items = 3"
    by (simp_all add: demo_txn)
  have L: "log_on demo_sb [] ?h (md_data demo_device)" and lt: "length (md_data demo_device) < 2 ^ 64"
    using demo_logged demo_length by (simp_all add: logged_volume_def)
  have lo: "unat (sb_journal_start demo_sb) * 4096 = 8192"
    by (simp add: demo_sb_sel)
  have img: "puts (take (length ?items + 2) (commit_writes 8192 (8192 + 4096) ?h ?items)) (md_data demo_device)
      = md_data demo_logged_device"
    by (simp add: demo_logged_device_def)
  note c = log_on_commit [OF L same_log_refl small, of "length ?items + 2", unfolded lo h demo_fits img]
  have c1: "log_on demo_sb demo_log demo_header (md_data demo_logged_device)"
    using c(1) by (simp add: demo_log_def demo_header_def demo_fits len)
  have agree: "agree_outside (journal_lo demo_sb) (journal_hi demo_sb ?h) (md_data demo_logged_device) (md_data demo_device)"
    using c(2,3) by (intro agree_outside_cuts) (simp_all add: demo_lo_hi)
  show "logged_volume demo_sb demo_log demo_header (md_data demo_logged_device)"
    using logged_volume_transfer [OF demo_logged c1 agree lt] demo_valid
    by (auto simp: demo_header_def h demo_log_def valid_items_def txn_items_def)
  show "mem_ok demo_logged_device"
    using demo_mem_ok agree by (simp add: mem_ok_def agree_outside_def) (simp add: demo_logged_device_def)
qed

section \<open>Properties\<close>

text \<open>
  C1: replay refines the abstract log.  On a volume whose journal holds a log, opening it and
  replaying applies exactly the operations of the committed transactions, in commit order, and
  reports exactly those transactions; uncommitted and aborted operations leave no trace.
\<close>

theorem replay_applies_committed:
  assumes "mem_ok d" "logged_volume sb es h (md_data d)"
  shows "\<exists>j j'. journal_open mem_ops d sb = Ok j
    \<and> replay mem_ops j = (Ok (summary (committed (map snd es) (\<lambda>_. None))), j')
    \<and> md_data (jn_device j') = puts (committed_writes sb (committed (map snd es) (\<lambda>_. None))) (md_data d)"
  using mem_recover [OF assms] by blast

theorem replay_applies_committed_witness:
  "\<exists>j j'. journal_open mem_ops demo_logged_device demo_sb = Ok j
    \<and> replay mem_ops j = (Ok [\<lparr>rt_txn_id = 1, rt_ops = 2\<rparr>], j')"
  using replay_applies_committed [OF demo_logged_ok] demo_summary by auto

text \<open>
  C2: a commit is atomic under power loss, whatever unsynced writes survive.  The commit runs on a device
  with a volatile write cache that loses power after any number of writes and syncs.  Every sector of 512 bytes then
  holds what it held at the last completed sync or after some later write, independently of the other
  sectors.  Whatever image survives, opening it and replaying it yields the previously committed
  transactions or those and the new one, and every byte outside the journal is what these transactions make of
  the original image.  If no call of the commit came after the power loss, the new transaction is among
  them.
\<close>

theorem commit_atomic_under_power_loss:
  assumes "mem_ok d" "logged_volume sb es h (md_data d)" "qs \<noteq> []"
    and "\<forall>q \<in> set qs. valid_op sb (journal_lo sb) (journal_hi sb h) (length (md_data d)) q"
    and "unat (jh_tail_offset h) + length (log_bytes (number (jh_next_seq h) (txn_items (jh_next_txn_id h) qs)))
       \<le> unat (jh_record_area_bytes h)"
    and "unat (jh_next_seq h) + length qs + 1 < 2 ^ 64"
  shows "\<exists>j tb j1 j2. journal_open cache_ops (cached n d) sb = Ok j
    \<and> journal_begin j = (Ok tb, j1)
    \<and> txn_commit cache_ops (tb\<lparr>tb_ops := qs\<rparr>) j1 = (Ok (tb_txn_id tb), j2)
    \<and> (\<exists>img. survives (jn_device j2) img)
    \<and> (\<forall>img. survives (jn_device j2) img \<longrightarrow>
         (\<exists>k k' T. journal_open mem_ops (d\<lparr>md_data := img\<rparr>) sb = Ok k
            \<and> replay mem_ops k = (Ok (summary T), k')
            \<and> (T = committed (map snd es) (\<lambda>_. None) \<and> ca_lost (jn_device j2)
               \<or> T = committed (map snd es @ txn_items (tb_txn_id tb) qs) (\<lambda>_. None))
            \<and> agree_outside (journal_lo sb) (journal_hi sb h) (md_data (jn_device k')) (puts (committed_writes sb T) (md_data d))))"
proof -
  let ?t = "jh_next_txn_id h"
  have log: "log_on sb es h (md_data d)"
    using assms(2) by (simp add: logged_volume_def)
  have seqs: "unat (jh_next_seq h) + length (txn_items ?t qs) < 2 ^ 64"
    using assms(6) by (simp add: txn_items_def)
  have "journal_open cache_ops (cached n d) sb = Ok (opened sb h (cached n d))"
    using cache.open_log [of "cached n d" sb es h] assms(1) log by simp
  moreover obtain d2 where run: "journal_begin (opened sb h (cached n d)) = (Ok \<lparr>tb_txn_id = ?t, tb_ops = []\<rparr>, opened sb (begun_header h) (cached n d))"
    "txn_commit cache_ops \<lparr>tb_txn_id = ?t, tb_ops = qs\<rparr> (opened sb (begun_header h) (cached n d)) = (Ok ?t, opened sb (committed_header h qs) d2)"
    using cache.commit_log_exact [of "cached n d" sb es h qs] assms(1,3,5) log seqs by auto
  moreover have "some_version (cached n d)"
    by (simp add: some_version_def)
  then have "\<exists>img. survives d2 img"
    using some_version_survives commit_some_version [OF run(2)] by simp
  moreover have "\<exists>k k' T. journal_open mem_ops (d\<lparr>md_data := img\<rparr>) sb = Ok k
      \<and> replay mem_ops k = (Ok (summary T), k')
      \<and> (T = committed (map snd es) (\<lambda>_. None) \<and> ca_lost d2 \<or> T = committed (map snd es @ txn_items ?t qs) (\<lambda>_. None))
      \<and> agree_outside (journal_lo sb) (journal_hi sb h) (md_data (jn_device k')) (puts (committed_writes sb T) (md_data d))"
    if img: "survives d2 img" for img
  proof -
    obtain es' h' where s: "logged_volume sb es' h' img" "agree_outside (journal_lo sb) (journal_hi sb h) img (md_data d)"
      "map snd es' = map snd es \<and> ca_lost d2 \<or> map snd es' = map snd es @ txn_items ?t qs"
      using cached_survivor [OF assms(1-3) bspec [OF assms(4)] assms(5,6) run(2), of img] img by auto
    let ?d = "d\<lparr>md_data := img\<rparr>" and ?T = "committed (map snd es') (\<lambda>_. None)"
    have "mem_ok ?d"
      using assms(1) s(2) by (simp add: mem_ok_def agree_outside_def)
    then obtain k' where k: "journal_open mem_ops ?d sb = Ok (opened sb h' ?d)"
      "replay mem_ops (opened sb h' ?d) = (Ok (summary ?T), k')" "md_data (jn_device k') = puts (committed_writes sb ?T) img"
      using mem_recover [of ?d sb es' h'] s(1) by auto
    have "within (length img) (committed_writes sb ?T)"
      using s(1) by (auto simp: logged_volume_def intro: committed_within)
    then have "agree_outside (journal_lo sb) (journal_hi sb h) (md_data (jn_device k')) (puts (committed_writes sb ?T) (md_data d))"
      unfolding k(3) by (rule agree_outside_puts [OF s(2)])
    then show ?thesis
      using k(1,2) s(3) by (intro exI [of _ "opened sb h' ?d"] exI [of _ k'] exI [of _ ?T]) auto
  qed
  ultimately show ?thesis
    by (intro exI [of _ "opened sb h (cached n d)"] exI [of _ "\<lparr>tb_txn_id = ?t, tb_ops = []\<rparr>"]
        exI [of _ "opened sb (begun_header h) (cached n d)"] exI [of _ "opened sb (committed_header h qs) d2"]) simp
qed

theorem commit_atomic_under_power_loss_witness:
  "\<exists>j j1 j2 img k k'. journal_open cache_ops (cached 3 demo_device) demo_sb = Ok j
    \<and> journal_begin j = (Ok \<lparr>tb_txn_id = 1, tb_ops = []\<rparr>, j1)
    \<and> txn_commit cache_ops \<lparr>tb_txn_id = 1, tb_ops = demo_ops\<rparr> j1 = (Ok 1, j2)
    \<and> survives (jn_device j2) img
    \<and> journal_open mem_ops (demo_device\<lparr>md_data := img\<rparr>) demo_sb = Ok k
    \<and> (replay mem_ops k = (Ok [], k') \<or> replay mem_ops k = (Ok [\<lparr>rt_txn_id = 1, rt_ops = 2\<rparr>], k'))"
proof -
  have T: "committed (txn_items 1 demo_ops) (\<lambda>_. None) = [(1, demo_ops)]"
    using committed_append_txn [of demo_ops 1 "[]" "\<lambda>_. None"] by (simp add: txn_items_def demo_ops_def)
  have h: "jh_tail_offset (jh_fresh 8192) = 0" "jh_next_seq (jh_fresh 8192) = 0"
    "jh_record_area_bytes (jh_fresh 8192) = 8192" "jh_next_txn_id (jh_fresh 8192) = 1"
    by (simp_all add: jh_fresh_def)
  have "demo_ops \<noteq> []" "length demo_ops = 2"
    by (simp_all add: demo_ops_def)
  have le: "unat (0 :: u64) + 4510 \<le> unat (8192 :: u64)" "unat (0 :: u64) + 2 + 1 < 2 ^ 64"
    by simp_all
  note run = commit_atomic_under_power_loss [OF demo_mem_ok demo_logged \<open>demo_ops \<noteq> []\<close> demo_valid,
      unfolded h demo_fits \<open>length demo_ops = 2\<close>, OF le, of 3]
  obtain j tb j1 j2 img where r: "journal_open cache_ops (cached 3 demo_device) demo_sb = Ok j"
    "journal_begin j = (Ok tb, j1)" "txn_commit cache_ops (tb\<lparr>tb_ops := demo_ops\<rparr>) j1 = (Ok (tb_txn_id tb), j2)"
    and img: "survives (jn_device j2) img" and s: "\<forall>img. survives (jn_device j2) img \<longrightarrow> (\<exists>k k' T. journal_open mem_ops (demo_device\<lparr>md_data := img\<rparr>) demo_sb = Ok k
            \<and> replay mem_ops k = (Ok (summary T), k')
            \<and> (T = committed (map snd ([] :: (u64 \<times> log_item) list)) (\<lambda>_. None) \<and> ca_lost (jn_device j2)
               \<or> T = committed (map snd ([] :: (u64 \<times> log_item) list) @ txn_items (tb_txn_id tb) demo_ops) (\<lambda>_. None))
            \<and> agree_outside (journal_lo demo_sb) (journal_hi demo_sb (jh_fresh 8192)) (md_data (jn_device k'))
                (puts (committed_writes demo_sb T) (md_data demo_device)))"
    using run by (elim exE conjE) (rule that, assumption+)
  have "j = opened demo_sb (jh_fresh 8192) (cached 3 demo_device)"
    using r(1) cache.open_log [of "cached 3 demo_device" demo_sb "[]" "jh_fresh 8192"] demo_mem_ok demo_logged
    by (simp add: logged_volume_def)
  then have tb: "tb = \<lparr>tb_txn_id = 1, tb_ops = []\<rparr>"
    using r(2) h by (auto simp: journal_begin_def)
  from s [rule_format, OF img] obtain k k' U where k: "journal_open mem_ops (demo_device\<lparr>md_data := img\<rparr>) demo_sb = Ok k"
      "replay mem_ops k = (Ok (summary U), k')" "U = [] \<or> U = [(1, demo_ops)]"
    using T tb by auto
  then have "replay mem_ops k = (Ok [], k') \<or> replay mem_ops k = (Ok [\<lparr>rt_txn_id = 1, rt_ops = 2\<rparr>], k')"
    using \<open>length demo_ops = 2\<close> by auto
  then show ?thesis
    using r(1-3) img k(1) unfolding tb by (intro exI [of _ j] exI [of _ j1] exI [of _ j2] exI [of _ img] exI [of _ k] exI [of _ k']) simp
qed

text \<open>
  C3: replay may itself be interrupted.  A replay on a device that loses power after any
  number of writes reports success; replaying the surviving image again reports the same
  transactions and produces exactly the image an undisturbed replay produces.
\<close>

theorem interrupted_replay_can_be_repeated:
  assumes "mem_ok d" "logged_volume sb es h (md_data d)"
  shows "\<exists>j applied j1 k k'. journal_open (fault_ops mem_ops) (power_cut n d) sb = Ok j
    \<and> replay (fault_ops mem_ops) j = (Ok applied, j1)
    \<and> journal_open mem_ops (fd_inner (jn_device j1)) sb = Ok k
    \<and> replay mem_ops k = (Ok applied, k')
    \<and> md_data (jn_device k') = puts (committed_writes sb (committed (map snd es) (\<lambda>_. None))) (md_data d)"
proof -
  have "journal_open (fault_ops mem_ops) (power_cut n d) sb = Ok (opened sb h (power_cut n d))"
    using power_mem.open_log [where n = n and d = "power_cut n d" and sb = sb and es = es and h = h] assms
    by (simp add: logged_volume_def)
  moreover obtain j1 where s: "replay (fault_ops mem_ops) (opened sb h (power_cut n d))
      = (Ok (summary (committed (map snd es) (\<lambda>_. None))), j1)"
    "mem_ok (fd_inner (jn_device j1))" "logged_volume sb es h (md_data (fd_inner (jn_device j1)))"
    "puts (committed_writes sb (committed (map snd es) (\<lambda>_. None))) (md_data (fd_inner (jn_device j1)))
      = puts (committed_writes sb (committed (map snd es) (\<lambda>_. None))) (md_data d)"
    using redo_survivor [OF assms] by blast
  moreover obtain k' where "journal_open mem_ops (fd_inner (jn_device j1)) sb = Ok (opened sb h (fd_inner (jn_device j1)))"
    "replay mem_ops (opened sb h (fd_inner (jn_device j1))) = (Ok (summary (committed (map snd es) (\<lambda>_. None))), k')"
    "md_data (jn_device k') = puts (committed_writes sb (committed (map snd es) (\<lambda>_. None))) (md_data d)"
    using mem_recover [OF s(2,3)] s(4) by auto
  ultimately show ?thesis
    by blast
qed

theorem interrupted_replay_can_be_repeated_witness:
  "\<exists>j j1 k k'. journal_open (fault_ops mem_ops) (power_cut 1 demo_logged_device) demo_sb = Ok j
    \<and> replay (fault_ops mem_ops) j = (Ok [\<lparr>rt_txn_id = 1, rt_ops = 2\<rparr>], j1)
    \<and> journal_open mem_ops (fd_inner (jn_device j1)) demo_sb = Ok k
    \<and> replay mem_ops k = (Ok [\<lparr>rt_txn_id = 1, rt_ops = 2\<rparr>], k')"
proof -
  obtain j applied j1 k k' where r: "journal_open (fault_ops mem_ops) (power_cut 1 demo_logged_device) demo_sb = Ok j"
    "replay (fault_ops mem_ops) j = (Ok applied, j1)"
    "journal_open mem_ops (fd_inner (jn_device j1)) demo_sb = Ok k" "replay mem_ops k = (Ok applied, k')"
    using interrupted_replay_can_be_repeated [OF demo_logged_ok] by blast
  moreover have "j = opened demo_sb demo_header (power_cut 1 demo_logged_device)"
    using r(1) power_mem.open_log [where n = 1 and d = "power_cut 1 demo_logged_device" and sb = demo_sb
        and es = demo_log and h = demo_header] demo_logged_ok by (simp add: logged_volume_def)
  then have "applied = [\<lparr>rt_txn_id = 1, rt_ops = 2\<rparr>]"
    using r(2) redo_survivor [OF demo_logged_ok, of 1] demo_summary by auto
  ultimately show ?thesis
    by blast
qed

text \<open>
  Formatting a journal region of at least two blocks leaves an empty log there and changes
  nothing outside the region; a smaller region is refused without a write.
\<close>

theorem journal_format_empties_the_log:
  assumes "mem_ok d" "(unat (sb_journal_start sb) + unat (sb_journal_blocks sb)) * 4096 \<le> length (md_data d)"
  shows "if sb_journal_blocks sb < 2
    then journal_format mem_ops sb d = (Err (InvalidInput ''journal region must be at least 2 blocks''), d)
    else \<exists>j d' h. journal_format mem_ops sb d = (Ok j, d') \<and> jn_device j = d'
      \<and> journal_open mem_ops d' sb = Ok j \<and> jn_header j = h \<and> log_on sb [] h (md_data d')
      \<and> agree_outside (journal_lo sb) (journal_hi sb h) (md_data d') (md_data d)"
proof (cases "sb_journal_blocks sb < 2")
  case False
  then obtain d' where f: "journal_format mem_ops sb d = (Ok (opened sb (jh_fresh ((sb_journal_blocks sb - 1) * BLOCK_SIZE)) d'), d')"
    "mem_ok d'" "log_on sb [] (jh_fresh ((sb_journal_blocks sb - 1) * BLOCK_SIZE)) (md_data d')"
    "agree_outside (journal_lo sb) (journal_hi sb (jh_fresh ((sb_journal_blocks sb - 1) * BLOCK_SIZE))) (md_data d') (md_data d)"
    using mem_format [OF assms(1) _ assms(2)] by (auto simp: not_less)
  then show ?thesis
    using False mem.open_log [OF f(2,3)] by auto
qed (simp add: journal_format_def)

theorem journal_format_empties_the_log_witness:
  "\<exists>j d'. journal_format mem_ops demo_sb demo_device = (Ok j, d') \<and> journal_open mem_ops d' demo_sb = Ok j"
proof -
  have "(unat (sb_journal_start demo_sb) + unat (sb_journal_blocks demo_sb)) * 4096 \<le> length (md_data demo_device)"
    by (simp add: demo_sb_sel demo_length)
  from journal_format_empties_the_log [OF demo_mem_ok this] show ?thesis
    by (auto simp: demo_sb_sel)
qed

end
