(* ===== verification/Allocator.thy ===== *)
theory Allocator
  imports Bitmap Inode_Record
begin

text \<open>
  The block and inode allocator over the two bitmaps,
  \<open>corefs-core/src/storage/ondisk/allocator.rs\<close>: first-fit and best-fit scans, contiguous and
  scattered allocation with rollback, freeing, and inode slots above the reserved floor.
\<close>

section \<open>State\<close>

datatype allocation_strategy = FirstFit | BestFit

record ondisk_allocator =
  oa_block_bitmap :: bitmap
  oa_inode_bitmap :: bitmap
  oa_data_start :: u64
  oa_total_blocks :: u64
  oa_strategy :: allocation_strategy
  oa_block_hint :: u64
  oa_inode_hint :: u64
  oa_reserved_inode_floor :: u64

definition allocator_new ::
  "geometry \<Rightarrow> bitmap \<Rightarrow> bitmap \<Rightarrow> allocation_strategy \<Rightarrow> u64 \<Rightarrow> ondisk_allocator" where
  "allocator_new geom block_bitmap inode_bitmap strategy reserved_inode_floor =
    \<lparr>oa_block_bitmap = block_bitmap, oa_inode_bitmap = inode_bitmap,
     oa_data_start = g_data_start geom, oa_total_blocks = g_total_blocks geom, oa_strategy = strategy,
     oa_block_hint = g_data_start geom, oa_inode_hint = reserved_inode_floor,
     oa_reserved_inode_floor = reserved_inode_floor\<rparr>"

text \<open>Operations on the two bitmaps the allocator owns.\<close>

definition on_blocks :: "(bitmap, 'a) cmd \<Rightarrow> (ondisk_allocator, 'a) cmd" where
  "on_blocks m = czoom oa_block_bitmap (\<lambda>b a. a\<lparr>oa_block_bitmap := b\<rparr>) m"

definition on_inodes :: "(bitmap, 'a) cmd \<Rightarrow> (ondisk_allocator, 'a) cmd" where
  "on_inodes m = czoom oa_inode_bitmap (\<lambda>b a. a\<lparr>oa_inode_bitmap := b\<rparr>) m"

section \<open>Scans\<close>

text \<open>\<open>free_run_starting_at\<close>: the loop with its two counters.\<close>

function free_run_loop :: "ondisk_allocator \<Rightarrow> u64 \<Rightarrow> u64 \<Rightarrow> u64 \<Rightarrow> u64 result" where
  "free_run_loop a i len cap =
    (if i < oa_total_blocks a \<and> len < cap then
       (case unwrap_or (is_set (oa_block_bitmap a) i) True of
          Ok b \<Rightarrow> if b then Ok len else free_run_loop a (i + 1) (len + 1) cap
        | Err e \<Rightarrow> Err e
        | Panic \<Rightarrow> Panic)
     else Ok len)"
  by pat_completeness auto

termination free_run_loop
  by (relation "measure (\<lambda>(a, i, len, cap). unat (oa_total_blocks a) - unat i)")
    (auto simp: inc_gt word_less_nat_alt)

declare free_run_loop.simps [simp del]

definition free_run_starting_at :: "ondisk_allocator \<Rightarrow> u64 \<Rightarrow> u64 \<Rightarrow> u64 result" where
  "free_run_starting_at a start cap = free_run_loop a start 0 cap"

text \<open>
  One of the two scans of \<open>find_first_fit\<close>.  The step \<open>start += run + 1\<close> needs no check: it
  stays below the end that was just added up without overflow.
\<close>

function first_fit_loop :: "ondisk_allocator \<Rightarrow> u64 \<Rightarrow> u64 \<Rightarrow> u64 option result" where
  "first_fit_loop a count start =
    (case uadd start count of
       Ok e \<Rightarrow>
         if e \<le> oa_total_blocks a then
           (case free_run_starting_at a start count of
              Ok run \<Rightarrow>
                if count \<le> run then Ok (Some start)
                else first_fit_loop a count (start + (run + 1))
            | Err e \<Rightarrow> Err e
            | Panic \<Rightarrow> Panic)
         else Ok None
     | Err e \<Rightarrow> Err e
     | Panic \<Rightarrow> Panic)"
  by pat_completeness auto

termination first_fit_loop
proof (relation "measure (\<lambda>(a, count, start). unat (oa_total_blocks a) - unat start)", goal_cases)
  case (2 a count start e run)
  then have e: "unat start + unat count < 2 ^ 64" "e = start + count"
    by (auto simp: result_iff)
  have lt: "unat run < unat count" "unat start + unat count \<le> unat (oa_total_blocks a)"
    using 2 e unat_add_ok [of start count] by (auto simp: word_less_nat_alt word_le_nat_alt)
  have "unat (run + 1) = unat run + 1"
    using lt(1) inc_gt [of run count] by (simp add: word_less_nat_alt)
  moreover from this have "unat (start + (run + 1)) = unat start + (unat run + 1)"
    using e(1) lt(1) unat_add_ok [of start "run + 1"] by simp
  ultimately show ?case
    using lt by simp
qed simp

declare first_fit_loop.simps [simp del]

definition find_first_fit :: "ondisk_allocator \<Rightarrow> u64 \<Rightarrow> u64 result" where
  "find_first_fit a count =
     rbind (first_fit_loop a count (max (oa_block_hint a) (oa_data_start a))) (\<lambda>hit.
     case hit of
       Some start \<Rightarrow> Ok start
     | None \<Rightarrow>
         rbind (first_fit_loop a count (oa_data_start a)) (\<lambda>hit.
           opt_or hit (State ''allocator: no contiguous run of '')))"

function best_fit_loop ::
  "ondisk_allocator \<Rightarrow> u64 \<Rightarrow> u64 option \<Rightarrow> u64 \<Rightarrow> u64 \<Rightarrow> u64 option result" where
  "best_fit_loop a count best_start best_len cursor =
    (if cursor < oa_total_blocks a then
       (case free_run_starting_at a cursor (- 1) of
          Ok run \<Rightarrow>
            let take_it = count \<le> run \<and> run < best_len;
                best_start' = (if take_it then Some cursor else best_start);
                best_len' = (if take_it then run else best_len) in
            if take_it \<and> run = count then Ok best_start'
            else
              (case rbind (if run = 0 then Ok 1 else uadd run 1) (uadd cursor) of
                 Ok next' \<Rightarrow> best_fit_loop a count best_start' best_len' next'
               | Err e \<Rightarrow> Err e
               | Panic \<Rightarrow> Panic)
        | Err e \<Rightarrow> Err e
        | Panic \<Rightarrow> Panic)
     else Ok best_start)"
  by pat_completeness auto

lemma step_past_run:
  assumes "rbind (if run = 0 then Ok 1 else uadd run 1) (uadd cursor) = Ok (n :: u64)"
  shows "unat n = unat cursor + (unat run + 1)"
proof (cases "run = 0")
  case True
  then show ?thesis
    using assms unat_add_ok [of cursor 1] by (auto simp: result_iff)
next
  case False
  then have "unat run + 1 < 2 ^ 64" "unat cursor + unat (run + 1) < 2 ^ 64" "n = cursor + (run + 1)"
    using assms by (auto simp: result_iff)
  then show ?thesis
    using unat_add_ok [of run 1] unat_add_ok [of cursor "run + 1"] by simp
qed

termination best_fit_loop
  by (relation "measure (\<lambda>(a, count, bs, bl, cursor). unat (oa_total_blocks a) - unat cursor)")
    (auto simp: word_less_nat_alt dest!: step_past_run)

declare best_fit_loop.simps [simp del]

definition find_best_fit :: "ondisk_allocator \<Rightarrow> u64 \<Rightarrow> u64 result" where
  "find_best_fit a count =
     rbind (best_fit_loop a count None (- 1) (oa_data_start a)) (\<lambda>best.
       opt_or best (State ''allocator: no contiguous run of ''))"

function largest_loop :: "ondisk_allocator \<Rightarrow> u64 \<Rightarrow> u64 \<Rightarrow> u64 result" where
  "largest_loop a best cursor =
    (if cursor < oa_total_blocks a then
       (case free_run_starting_at a cursor (- 1) of
          Ok run \<Rightarrow>
            (case rbind (if run = 0 then Ok 1 else uadd run 1) (uadd cursor) of
               Ok next' \<Rightarrow> largest_loop a (max best run) next'
             | Err e \<Rightarrow> Err e
             | Panic \<Rightarrow> Panic)
        | Err e \<Rightarrow> Err e
        | Panic \<Rightarrow> Panic)
     else Ok best)"
  by pat_completeness auto

termination largest_loop
  by (relation "measure (\<lambda>(a, best, cursor). unat (oa_total_blocks a) - unat cursor)")
    (auto simp: word_less_nat_alt dest!: step_past_run)

declare largest_loop.simps [simp del]

definition largest_free_run_from :: "ondisk_allocator \<Rightarrow> u64 \<Rightarrow> u64 result" where
  "largest_free_run_from a start = largest_loop a 0 start"

section \<open>Blocks\<close>

definition allocate_contiguous :: "u64 \<Rightarrow> (ondisk_allocator, extent) cmd" where
  "allocate_contiguous count =
    (if count = 0 then cfail (InvalidInput ''allocator: cannot allocate zero blocks'')
     else
       cbind (cread (\<lambda>a. case oa_strategy a of FirstFit \<Rightarrow> find_first_fit a count | BestFit \<Rightarrow> find_best_fit a count)) (\<lambda>start.
       cthen (cfor (\<lambda>i. cbind (clift (uadd start i)) (\<lambda>b. on_blocks (cdrop (bm_set b)))) (range64 0 count))
      (cbind (clift (uadd start count)) (\<lambda>hint.
       cthen (cmod (\<lambda>a. a\<lparr>oa_block_hint := hint\<rparr>))
         (cret \<lparr>ext_logical_block = 0, ext_length_blocks = ucast count, ext_physical_block = start\<rparr>)))))"

definition free_extent :: "extent \<Rightarrow> (ondisk_allocator, unit) cmd" where
  "free_extent ext =
     cthen (cfor (\<lambda>i.
         cbind (clift (uadd (ext_physical_block ext) i)) (\<lambda>block.
         cthen (cread (\<lambda>a. if block < oa_data_start a \<or> block \<ge> oa_total_blocks a
                  then Err (InvalidInput ''allocator: block '') else Ok ()))
           (on_blocks (cdrop (bm_clear block)))))
       (range64 0 (ucast (ext_length_blocks ext))))
     (cmod (\<lambda>a. if ext_physical_block ext < oa_block_hint a then a\<lparr>oa_block_hint := ext_physical_block ext\<rparr> else a))"

function allocate_any_loop :: "u64 \<Rightarrow> u64 \<Rightarrow> extent list \<Rightarrow> (ondisk_allocator, extent list) cmd" where
  "allocate_any_loop count remaining extents a =
    (if 0 < remaining then
       (case largest_free_run_from a (oa_data_start a) of
          Ok run \<Rightarrow>
            let take' = min run remaining in
            if take' = 0 then
              cthen (cfor free_extent extents) (cfail (State ''allocator: cannot satisfy '')) a
            else
              (case allocate_contiguous take' a of
                 (Ok ext, a') \<Rightarrow> allocate_any_loop count (remaining - take') (extents @ [ext]) a'
               | (Err e, a') \<Rightarrow> (Err e, a')
               | (Panic, a') \<Rightarrow> (Panic, a'))
        | Err e \<Rightarrow> (Err e, a)
        | Panic \<Rightarrow> (Panic, a))
     else (Ok extents, a))"
  by pat_completeness auto

lemma min_step: "0 < r \<Longrightarrow> min run r \<noteq> 0 \<Longrightarrow> unat (r - min run r) < unat (r :: u64)"
  by (auto simp: min_def word_less_nat_alt word_le_nat_alt unat_sub_ok split: if_splits)
    (metis diff_less gr_zeroI unat_sub_ok unat_0 word_le_nat_alt word_unat_eq_iff)

termination allocate_any_loop
  by (relation "measure (\<lambda>(count, remaining, extents, a). unat remaining)") (auto intro: min_step)

declare allocate_any_loop.simps [simp del]

definition allocate_any :: "u64 \<Rightarrow> (ondisk_allocator, extent list) cmd" where
  "allocate_any count = allocate_any_loop count count []"

definition mark_used :: "u64 \<Rightarrow> (ondisk_allocator, unit) cmd" where
  "mark_used block a =
    (if block < oa_data_start a \<or> block \<ge> oa_total_blocks a then (Ok (), a)
     else on_blocks (cdrop (bm_set block)) a)"

definition free_data_blocks :: "ondisk_allocator \<Rightarrow> u64 result" where
  "free_data_blocks a =
     rbind (popcount (oa_block_bitmap a)) (\<lambda>p.
     let used' = sat_sub p (oa_data_start a) in
     rbind (usub (oa_total_blocks a) (oa_data_start a)) (\<lambda>n. Ok (sat_sub n used')))"

section \<open>Inode slots\<close>

definition allocate_inode :: "(ondisk_allocator, u64) cmd" where
  "allocate_inode =
     cbind (\<lambda>a. on_inodes (allocate_first (oa_inode_hint a)) a) (\<lambda>hit.
     cbind (clift (opt_or hit (State ''allocator: inode table exhausted''))) (\<lambda>idx.
     cbind (clift (uadd idx 1)) (\<lambda>hint.
     cthen (cmod (\<lambda>a. a\<lparr>oa_inode_hint := hint\<rparr>)) (cret idx))))"

definition reserve_inode :: "u64 \<Rightarrow> (ondisk_allocator, unit) cmd" where
  "reserve_inode index = on_inodes (cdrop (bm_set index))"

definition free_inode :: "u64 \<Rightarrow> (ondisk_allocator, unit) cmd" where
  "free_inode index =
     cthen (cread (\<lambda>a. if index < oa_reserved_inode_floor a
              then Err (PolicyViolation ''allocator: inode slot '') else Ok ()))
    (cthen (on_inodes (cdrop (bm_clear index)))
      (cmod (\<lambda>a. if index < oa_inode_hint a then a\<lparr>oa_inode_hint := index\<rparr> else a)))"

definition free_inode_slots :: "ondisk_allocator \<Rightarrow> u64 result" where
  "free_inode_slots a =
     rbind (popcount (oa_inode_bitmap a)) (usub (bm_capacity (oa_inode_bitmap a)))"

end
