(* ===== verification/Allocator_Spec.thy ===== *)
theory Allocator_Spec
  imports Allocator
begin

text \<open>
  What the allocator promises, in terms of the set of used blocks and inode slots: soundness
  and completeness of both strategies, minimality of best fit, all-or-nothing scattered
  allocation, and the slots handed out.
\<close>

section \<open>Free runs\<close>

text \<open>The blocks \<open>[s, s + n)\<close> are free; \<open>U\<close> is the set of used ones.\<close>

definition free_range :: "nat set \<Rightarrow> nat \<Rightarrow> nat \<Rightarrow> bool" where
  "free_range U s n \<longleftrightarrow> (\<forall>j. s \<le> j \<longrightarrow> j < s + n \<longrightarrow> j \<notin> U)"

lemma free_range_0 [simp]: "free_range U s 0"
  by (simp add: free_range_def)

lemma free_range_Suc: "free_range U s (Suc n) \<longleftrightarrow> s \<notin> U \<and> free_range U (Suc s) n"
  by (auto simp: free_range_def less_Suc_eq_le)
    (metis Suc_leI le_eq_less_or_eq less_Suc_eq_le add_Suc_right)

lemma free_range_le: "free_range U s n \<Longrightarrow> m \<le> n \<Longrightarrow> free_range U s m"
  by (auto simp: free_range_def)

text \<open>A maximal run of free blocks within \<open>[D, T)\<close>.\<close>

definition maximal_run :: "nat set \<Rightarrow> nat \<Rightarrow> nat \<Rightarrow> nat \<Rightarrow> nat \<Rightarrow> bool" where
  "maximal_run U D T s n \<longleftrightarrow> D \<le> s \<and> s + n \<le> T \<and> 0 < n \<and> free_range U s n
     \<and> (s = D \<or> s - 1 \<in> U) \<and> (s + n = T \<or> s + n \<in> U)"

definition wf_blocks :: "ondisk_allocator \<Rightarrow> bool" where
  "wf_blocks a \<longleftrightarrow> wf_bitmap (oa_block_bitmap a) \<and> oa_total_blocks a \<le> bm_capacity (oa_block_bitmap a)
     \<and> unat (oa_total_blocks a) < 2 ^ 63 \<and> oa_data_start a \<le> oa_total_blocks a
     \<and> oa_block_hint a \<le> oa_total_blocks a"

definition used_blocks :: "ondisk_allocator \<Rightarrow> nat set" where
  "used_blocks a = used (oa_block_bitmap a)"

abbreviation "data_from a \<equiv> unat (oa_data_start a)"
abbreviation "data_to a \<equiv> unat (oa_total_blocks a)"

definition free_data :: "ondisk_allocator \<Rightarrow> nat set" where
  "free_data a = {data_from a..<data_to a} - used_blocks a"

lemma is_set_block:
  "wf_blocks a \<Longrightarrow> i < oa_total_blocks a \<Longrightarrow> is_set (oa_block_bitmap a) i = Ok (unat i \<in> used_blocks a)"
  unfolding wf_blocks_def used_blocks_def by (intro is_set_ok) auto

text \<open>What the run scan returns.\<close>

definition run_at :: "nat set \<Rightarrow> nat \<Rightarrow> nat \<Rightarrow> nat \<Rightarrow> nat \<Rightarrow> bool" where
  "run_at U T s c n \<longleftrightarrow> free_range U s n \<and> n \<le> c \<and> (s \<le> T \<longrightarrow> s + n \<le> T)
     \<and> (n < c \<longrightarrow> T \<le> s + n \<or> s + n \<in> U) \<and> (T \<le> s \<longrightarrow> n = 0)"

lemma free_run_loop_spec:
  assumes "wf_blocks a" "len \<le> cap"
  shows "\<exists>n. free_run_loop a i len cap = Ok (len + of_nat n) \<and> unat (len + of_nat n) = unat len + n
    \<and> run_at (used_blocks a) (data_to a) (unat i) (unat cap - unat len) n"
  using assms
proof (induction a i len cap rule: free_run_loop.induct)
  case (1 a i len cap)
  have le: "unat len \<le> unat cap"
    using "1.prems"(2) by (simp add: word_le_nat_alt)
  show ?case
  proof (cases "i < oa_total_blocks a \<and> len < cap")
    case False
    then show ?thesis
      using le by (intro exI [of _ 0])
        (auto simp: free_run_loop.simps [of a i len cap] run_at_def word_less_nat_alt)
  next
    case True
    then have lt: "unat i < data_to a" "unat len < unat cap"
      by (simp_all add: word_less_nat_alt)
    have s: "unwrap_or (is_set (oa_block_bitmap a) i) True = Ok (unat i \<in> used_blocks a)"
      using is_set_block [OF "1.prems"(1)] True by (simp add: unwrap_or_def)
    show ?thesis
    proof (cases "unat i \<in> used_blocks a")
      case True
      then show ?thesis
        using s lt le \<open>i < oa_total_blocks a \<and> len < cap\<close>
        by (intro exI [of _ 0]) (auto simp: free_run_loop.simps [of a i len cap] run_at_def)
    next
      case False
      have u: "unat (i + 1) = unat i + 1" "unat (len + 1) = unat len + 1"
        using True inc_gt by blast+
      have "len + 1 \<le> cap"
        using u(2) lt by (simp add: word_le_nat_alt)
      then obtain n where n: "free_run_loop a (i + 1) (len + 1) cap = Ok (len + 1 + of_nat n)"
        "unat (len + 1 + of_nat n) = unat (len + 1) + n"
        "run_at (used_blocks a) (data_to a) (unat (i + 1)) (unat cap - unat (len + 1)) n"
        using "1.IH" [OF True s] False "1.prems"(1) by auto
      have "run_at (used_blocks a) (data_to a) (unat i) (unat cap - unat len) (Suc n)"
        using n(3) u lt False by (auto simp: run_at_def free_range_Suc)
      then show ?thesis
        using n(1,2) u True s False
        by (intro exI [of _ "Suc n"]) (simp add: free_run_loop.simps [of a i len cap] add.assoc)
    qed
  qed
qed

lemma free_run_spec:
  assumes "wf_blocks a"
  obtains r where "free_run_starting_at a s c = Ok r"
    "run_at (used_blocks a) (data_to a) (unat s) (unat c) (unat r)"
  using free_run_loop_spec [OF assms, of 0 c s] by (auto simp: free_run_starting_at_def)

section \<open>First fit\<close>

lemma first_fit_loop_spec:
  assumes "wf_blocks a" "unat start \<le> data_to a" "unat count < 2 ^ 63" "count \<noteq> 0"
  shows "(\<exists>s. first_fit_loop a count start = Ok (Some s) \<and> unat start \<le> unat s \<and> unat s + unat count \<le> data_to a
      \<and> free_range (used_blocks a) (unat s) (unat count))
    \<or> first_fit_loop a count start = Ok None
      \<and> (\<forall>s. unat start \<le> s \<longrightarrow> s + unat count \<le> data_to a \<longrightarrow> \<not> free_range (used_blocks a) s (unat count))"
  using assms
proof (induction a count start rule: first_fit_loop.induct)
  case (1 a count start)
  have "data_to a < 2 ^ 63"
    using "1.prems"(1) by (simp add: wf_blocks_def)
  then have no: "unat start + unat count < 2 ^ 64"
    using "1.prems"(2,3) by simp
  then have e: "uadd start count = Ok (start + count)" "unat (start + count) = unat start + unat count"
    by (simp_all add: uadd_def unat_add_ok)
  show ?case
  proof (cases "start + count \<le> oa_total_blocks a")
    case False
    then have "\<not> unat start + unat count \<le> data_to a"
      using e(2) by (simp add: word_le_nat_alt)
    then show ?thesis
      using False e(1) by (auto simp: first_fit_loop.simps [of a count start])
  next
    case True
    then have fits: "unat start + unat count \<le> data_to a"
      using e(2) by (simp add: word_le_nat_alt)
    obtain r where r: "free_run_starting_at a start count = Ok r"
      "run_at (used_blocks a) (data_to a) (unat start) (unat count) (unat r)"
      by (rule free_run_spec [OF "1.prems"(1)])
    show ?thesis
    proof (cases "count \<le> r")
      case True
      then have "first_fit_loop a count start = Ok (Some start)" "free_range (used_blocks a) (unat start) (unat count)"
        using e(1) r \<open>start + count \<le> oa_total_blocks a\<close>
        by (auto simp: first_fit_loop.simps [of a count start] run_at_def word_le_nat_alt intro: free_range_le)
      then show ?thesis
        using fits by blast
    next
      case False
      then have lt: "unat r < unat count"
        by (simp add: word_le_nat_alt)
      have r1: "unat (r + 1) = unat r + 1"
        using lt inc_gt [of r count] by (simp add: word_less_nat_alt)
      have nx: "unat (start + (r + 1)) = unat start + unat r + 1"
        using no lt r1 by (subst unat_add_ok) simp_all
      have hit: "unat start + unat r \<in> used_blocks a"
        using r(2) lt fits by (auto simp: run_at_def)
      have none: "\<not> free_range (used_blocks a) s (unat count)" if "unat start \<le> s" "s < unat (start + (r + 1))" for s
        using hit that lt nx unfolding free_range_def by (auto intro!: exI [of _ "unat start + unat r"])
      have run: "first_fit_loop a count start = first_fit_loop a count (start + (r + 1))"
        using e(1) r(1) False \<open>start + count \<le> oa_total_blocks a\<close> by (simp add: first_fit_loop.simps [of a count start])
      have ih: "(\<exists>s. first_fit_loop a count (start + (r + 1)) = Ok (Some s) \<and> unat (start + (r + 1)) \<le> unat s
          \<and> unat s + unat count \<le> data_to a \<and> free_range (used_blocks a) (unat s) (unat count))
        \<or> first_fit_loop a count (start + (r + 1)) = Ok None
          \<and> (\<forall>s. unat (start + (r + 1)) \<le> s \<longrightarrow> s + unat count \<le> data_to a \<longrightarrow> \<not> free_range (used_blocks a) s (unat count))"
        using nx fits lt "1.prems" by (intro "1.IH" [OF e(1) True r(1) False]) auto
      then show ?thesis
        unfolding run
      proof (elim disjE conjE)
        assume "\<exists>s. first_fit_loop a count (start + (r + 1)) = Ok (Some s) \<and> unat (start + (r + 1)) \<le> unat s
          \<and> unat s + unat count \<le> data_to a \<and> free_range (used_blocks a) (unat s) (unat count)"
        then obtain s where "first_fit_loop a count (start + (r + 1)) = Ok (Some s)" "unat (start + (r + 1)) \<le> unat s"
          "unat s + unat count \<le> data_to a" "free_range (used_blocks a) (unat s) (unat count)"
          by blast
        moreover from this have "unat start \<le> unat s"
          using nx by linarith
        ultimately show "(\<exists>s. first_fit_loop a count (start + (r + 1)) = Ok (Some s) \<and> unat start \<le> unat s \<and>
              unat s + unat count \<le> data_to a \<and> free_range (used_blocks a) (unat s) (unat count)) \<or>
            first_fit_loop a count (start + (r + 1)) = Ok None \<and>
            (\<forall>s. unat start \<le> s \<longrightarrow> s + unat count \<le> data_to a \<longrightarrow> \<not> free_range (used_blocks a) s (unat count))"
          by blast
      next
        assume n: "first_fit_loop a count (start + (r + 1)) = Ok None"
          and all: "\<forall>s. unat (start + (r + 1)) \<le> s \<longrightarrow> s + unat count \<le> data_to a \<longrightarrow> \<not> free_range (used_blocks a) s (unat count)"
        have "\<not> free_range (used_blocks a) s (unat count)" if "unat start \<le> s" "s + unat count \<le> data_to a" for s
          using none [OF that(1)] all that(2) by (cases "s < unat (start + (r + 1))") auto
        with n show "(\<exists>s. first_fit_loop a count (start + (r + 1)) = Ok (Some s) \<and> unat start \<le> unat s \<and>
              unat s + unat count \<le> data_to a \<and> free_range (used_blocks a) (unat s) (unat count)) \<or>
            first_fit_loop a count (start + (r + 1)) = Ok None \<and>
            (\<forall>s. unat start \<le> s \<longrightarrow> s + unat count \<le> data_to a \<longrightarrow> \<not> free_range (used_blocks a) s (unat count))"
          by blast
      qed
    qed
  qed
qed

lemma find_first_fit_spec:
  assumes "wf_blocks a" "unat count < 2 ^ 63" "count \<noteq> 0"
  shows "(\<exists>s. find_first_fit a count = Ok s \<and> data_from a \<le> unat s \<and> unat s + unat count \<le> data_to a
      \<and> free_range (used_blocks a) (unat s) (unat count))
    \<or> find_first_fit a count = Err (State ''allocator: no contiguous run of '')
      \<and> (\<forall>s. data_from a \<le> s \<longrightarrow> s + unat count \<le> data_to a \<longrightarrow> \<not> free_range (used_blocks a) s (unat count))"
proof -
  let ?h = "max (oa_block_hint a) (oa_data_start a)"
  have D: "data_from a \<le> data_to a" and T: "data_to a < 2 ^ 63"
    using assms(1) by (simp_all add: wf_blocks_def word_le_nat_alt)
  have h: "data_from a \<le> unat ?h"
    by (simp add: max_def word_le_nat_alt)
  note second = first_fit_loop_spec [OF assms(1) D assms(2,3)]
  have "unat ?h \<le> data_to a"
    using assms(1) by (auto simp: wf_blocks_def max_def word_le_nat_alt)
  from first_fit_loop_spec [OF assms(1) this assms(2,3)] second h show ?thesis
    by (auto simp: find_first_fit_def)
qed

section \<open>Best fit\<close>

text \<open>
  The loop invariant of the best-fit scan: the cursor stands at a run boundary, and the best
  start so far is the shortest sufficient maximal run among those that start before it.
\<close>

definition best_so_far :: "nat set \<Rightarrow> nat \<Rightarrow> nat \<Rightarrow> nat \<Rightarrow> nat \<Rightarrow> u64 option \<Rightarrow> u64 \<Rightarrow> bool" where
  "best_so_far U D T c pos bs bl \<longleftrightarrow>
     (\<forall>s n. maximal_run U D T s n \<longrightarrow> s < pos \<longrightarrow> c \<le> n \<longrightarrow> bs \<noteq> None \<and> unat bl \<le> n)
     \<and> (case bs of None \<Rightarrow> bl = - 1
        | Some b \<Rightarrow> maximal_run U D T (unat b) (unat bl) \<and> c \<le> unat bl)"

definition boundary :: "nat set \<Rightarrow> nat \<Rightarrow> nat \<Rightarrow> nat \<Rightarrow> bool" where
  "boundary U D T pos \<longleftrightarrow> D \<le> pos \<and> (pos = D \<or> pos - 1 \<in> U \<or> T < pos)"

lemma unat_max_u64: "unat (- 1 :: u64) = 2 ^ 64 - 1"
  by (simp add: unsigned_minus_1_eq_mask mask_eq_exp_minus_1)

text \<open>The run at a boundary is maximal, and no other maximal run starts inside it.\<close>

lemma run_at_boundary:
  assumes "boundary U D T pos" "pos < T" "run_at U T pos c r" "T < c"
  shows "0 < r \<Longrightarrow> maximal_run U D T pos r"
    and "pos + r = T \<or> pos + r \<in> U" "pos + r \<le> T"
    and "maximal_run U D T s n \<Longrightarrow> pos \<le> s \<Longrightarrow> s < pos + (r + 1) \<Longrightarrow> s = pos \<and> n = r"
proof -
  have r: "free_range U pos r" "pos + r \<le> T" "r < c"
    using assms(2-4) by (auto simp: run_at_def)
  then show e: "pos + r = T \<or> pos + r \<in> U" "pos + r \<le> T"
    using assms(3) by (auto simp: run_at_def)
  show "0 < r \<Longrightarrow> maximal_run U D T pos r"
    using assms(1,2) r e by (auto simp: maximal_run_def boundary_def)
  assume m: "maximal_run U D T s n" and s: "pos \<le> s" "s < pos + (r + 1)"
  have "s = pos"
  proof (rule ccontr)
    assume "s \<noteq> pos"
    then have "pos \<le> s - 1" "s - 1 < pos + r" "s \<noteq> D"
      using s assms(1) by (auto simp: boundary_def)
    then have "s - 1 \<in> U" "s - 1 \<notin> U"
      using m r(1) by (auto simp: maximal_run_def free_range_def)
    then show False by simp
  qed
  moreover have "n = r"
  proof (rule linorder_cases [of n r])
    assume "n < r"
    then have "s + n \<notin> U" "s + n < T"
      using \<open>s = pos\<close> r by (auto simp: free_range_def)
    then show ?thesis using m by (auto simp: maximal_run_def)
  next
    assume "r < n"
    then have "pos + r \<notin> U" "pos + r < T"
      using m \<open>s = pos\<close> by (auto simp: maximal_run_def free_range_def)
    then show ?thesis using e by auto
  qed
  ultimately show "s = pos \<and> n = r" ..
qed

lemma best_fit_loop_spec:
  assumes "wf_blocks a" "boundary (used_blocks a) (data_from a) (data_to a) (unat cursor)"
    and "best_so_far (used_blocks a) (data_from a) (data_to a) (unat count) (unat cursor) bs bl" "count \<noteq> 0"
  shows "\<exists>bs' bl'. best_fit_loop a count bs bl cursor = Ok bs'
    \<and> best_so_far (used_blocks a) (data_from a) (data_to a) (unat count) (data_to a) bs' bl'"
  using assms
proof (induction a count bs bl cursor rule: best_fit_loop.induct)
  case (1 a count bs bl cursor)
  let ?U = "used_blocks a" and ?D = "data_from a" and ?T = "data_to a" and ?c = "unat count"
  have T: "?T < 2 ^ 63"
    using "1.prems"(1) by (simp add: wf_blocks_def)
  have c: "0 < ?c"
    using "1.prems"(4) by (simp add: word_unat_eq_iff)
  show ?case
  proof (cases "cursor < oa_total_blocks a")
    case False
    then have "?T \<le> unat cursor"
      by (simp add: word_less_nat_alt)
    then have "best_so_far ?U ?D ?T ?c ?T bs bl"
      using "1.prems"(3) by (auto simp: best_so_far_def)
    then show ?thesis
      using False by (auto simp: best_fit_loop.simps [of a count bs bl cursor])
  next
    case True
    then have lt: "unat cursor < ?T"
      by (simp add: word_less_nat_alt)
    obtain r where r: "free_run_starting_at a cursor (- 1) = Ok r" "run_at ?U ?T (unat cursor) (2 ^ 64 - 1) (unat r)"
      by (rule free_run_spec [OF "1.prems"(1), of cursor "- 1"]) (simp add: unat_max_u64)
    have big: "?T < 2 ^ 64 - 1"
      using T by simp
    note rb = run_at_boundary [OF "1.prems"(2) lt r(2) big]
    let ?take = "count \<le> r \<and> r < bl"
    let ?bs = "if ?take then Some cursor else bs" and ?bl = "if ?take then r else bl"
    have inv: "best_so_far ?U ?D ?T ?c (unat cursor + (unat r + 1)) ?bs ?bl"
      unfolding best_so_far_def
    proof (intro conjI allI impI)
      fix s n
      assume m: "maximal_run ?U ?D ?T s n" "s < unat cursor + (unat r + 1)" "?c \<le> n"
      show "?bs \<noteq> None" "unat ?bl \<le> n"
      proof -
        have "?bs \<noteq> None \<and> unat ?bl \<le> n"
        proof (cases "s < unat cursor")
          case True
          then have "bs \<noteq> None" "unat bl \<le> n"
            using "1.prems"(3) m unfolding best_so_far_def by blast+
          then show ?thesis by (auto simp: word_less_nat_alt)
        next
          case False
          then have s: "s = unat cursor" "n = unat r"
            using rb(4) [OF m(1)] m(2) by auto
          show ?thesis
          proof (cases "?take")
            case False
            then have le: "unat bl \<le> unat r"
              using m(3) s by (auto simp: word_le_nat_alt word_less_nat_alt)
            then have "bs \<noteq> None"
              using "1.prems"(3) rb(3) big by (cases bs) (auto simp: best_so_far_def unat_max_u64)
            then show ?thesis using False le s by auto
          qed (use s in auto)
        qed
        then show "?bs \<noteq> None" "unat ?bl \<le> n" by simp_all
      qed
    next
      show "case ?bs of None \<Rightarrow> ?bl = - 1 | Some b \<Rightarrow> maximal_run ?U ?D ?T (unat b) (unat ?bl) \<and> ?c \<le> unat ?bl"
        using "1.prems"(3) rb(1) c by (auto simp: best_so_far_def word_le_nat_alt)
    qed
    show ?thesis
    proof (cases "?take \<and> r = count")
      case True
      have "best_so_far ?U ?D ?T ?c ?T (Some cursor) r"
        using rb(1) c True unfolding best_so_far_def by auto
      then show ?thesis
        using True r(1) \<open>cursor < oa_total_blocks a\<close>
        by (intro exI [of _ "Some cursor"]) (auto simp: best_fit_loop.simps [of a count bs bl cursor] Let_def)
    next
      case False
      have no: "unat r + 1 < 2 ^ 64" "unat cursor + (unat r + 1) < 2 ^ 64"
        using rb(3) T by simp_all
      obtain nx where nx: "rbind (if r = 0 then Ok 1 else uadd r 1) (uadd cursor) = Ok nx"
      proof (cases "r = 0")
        case True
        then show ?thesis using that [of "cursor + 1"] no by (simp add: uadd_def)
      next
        case False
        then show ?thesis using that [of "cursor + (r + 1)"] no unat_add_ok [of r 1] by (simp add: uadd_def)
      qed
      note nxn = step_past_run [OF nx]
      have b: "boundary ?U ?D ?T (unat nx)"
        using rb(2) "1.prems"(2) nxn by (auto simp: boundary_def)
      have run: "best_fit_loop a count bs bl cursor = best_fit_loop a count ?bs ?bl nx"
        using True r(1) nx False by (auto simp: best_fit_loop.simps [of a count bs bl cursor] Let_def)
      show ?thesis
        unfolding run
      proof (rule "1.IH" [OF True r(1) refl refl refl _ nx])
        show "\<not> (?take \<and> r = count)" by (rule False)
        show "best_so_far ?U ?D ?T ?c (unat nx) ?bs ?bl"
          unfolding nxn by (rule inv)
      qed (use "1.prems"(1,4) b in auto)
    qed
  qed
qed

text \<open>Every sufficient free range lies in a sufficient maximal run.\<close>

lemma extend_right:
  assumes "free_range U s n" "s + n \<le> T" "0 < n"
  shows "\<exists>m. n \<le> m \<and> free_range U s m \<and> s + m \<le> T \<and> (s + m = T \<or> s + m \<in> U)"
  using assms
proof (induction "T - (s + n)" arbitrary: n)
  case 0
  then show ?case by (intro exI [of _ n]) auto
next
  case (Suc k)
  show ?case
  proof (cases "s + n \<in> U")
    case True
    then show ?thesis using Suc by blast
  next
    case False
    then have "free_range U s (Suc n)"
      using Suc.prems(1) by (auto simp: free_range_def less_Suc_eq)
    moreover have "k = T - (s + Suc n)" "s + Suc n \<le> T"
      using Suc.hyps(2) by linarith+
    ultimately obtain m where "Suc n \<le> m" "free_range U s m" "s + m \<le> T" "s + m = T \<or> s + m \<in> U"
      using Suc.hyps(1) [of "Suc n"] by auto
    then show ?thesis
      by (intro exI [of _ m]) simp
  qed
qed

lemma extend_left:
  assumes "free_range U s n" "D \<le> s"
  shows "\<exists>s' n'. D \<le> s' \<and> s' \<le> s \<and> s' + n' = s + n \<and> n \<le> n' \<and> free_range U s' n' \<and> (s' = D \<or> s' - 1 \<in> U)"
  using assms
proof (induction "s - D" arbitrary: s n)
  case 0
  then show ?case by (intro exI [of _ s] exI [of _ n]) auto
next
  case (Suc k)
  show ?case
  proof (cases "s - 1 \<in> U")
    case True
    then show ?thesis using Suc by blast
  next
    case False
    have "0 < s" using Suc.hyps(2) by simp
    then have "free_range U (s - 1) (Suc n)"
      using Suc.prems(1) False by (auto simp: free_range_Suc)
    then show ?thesis
      using Suc.hyps(1) [of "s - 1" "Suc n"] Suc.hyps(2) \<open>0 < s\<close> by (auto dest: Suc_leD) fastforce
  qed
qed

lemma in_maximal_run:
  assumes "free_range U s n" "D \<le> s" "s + n \<le> T" "0 < n"
  shows "\<exists>s' m. maximal_run U D T s' m \<and> n \<le> m"
proof -
  obtain m where m: "n \<le> m" "free_range U s m" "s + m \<le> T" "s + m = T \<or> s + m \<in> U"
    using extend_right [OF assms(1,3,4)] by blast
  obtain s' n' where "D \<le> s'" "s' + n' = s + m" "m \<le> n'" "free_range U s' n'" "s' = D \<or> s' - 1 \<in> U"
    using extend_left [OF m(2) assms(2)] by blast
  then have "maximal_run U D T s' n'"
    using m assms(4) by (auto simp: maximal_run_def)
  then show ?thesis
    using m(1) \<open>m \<le> n'\<close> by (meson le_trans)
qed

lemma find_best_fit_spec:
  assumes "wf_blocks a" "count \<noteq> 0"
  shows "(\<exists>s n. find_best_fit a count = Ok s \<and> maximal_run (used_blocks a) (data_from a) (data_to a) (unat s) n \<and> unat count \<le> n
      \<and> (\<forall>s' n'. maximal_run (used_blocks a) (data_from a) (data_to a) s' n' \<longrightarrow> unat count \<le> n' \<longrightarrow> n \<le> n'))
    \<or> find_best_fit a count = Err (State ''allocator: no contiguous run of '')
      \<and> (\<forall>s. data_from a \<le> s \<longrightarrow> s + unat count \<le> data_to a \<longrightarrow> \<not> free_range (used_blocks a) s (unat count))"
proof -
  let ?U = "used_blocks a" and ?D = "data_from a" and ?T = "data_to a" and ?c = "unat count"
  have c: "0 < ?c"
    using assms(2) by (simp add: word_unat_eq_iff)
  have "boundary ?U ?D ?T ?D"
    by (simp add: boundary_def)
  moreover have "best_so_far ?U ?D ?T ?c ?D None (- 1)"
    by (auto simp: best_so_far_def maximal_run_def)
  ultimately obtain bs bl where b: "best_fit_loop a count None (- 1) (oa_data_start a) = Ok bs"
      "best_so_far ?U ?D ?T ?c ?T bs bl"
    using best_fit_loop_spec [OF assms(1), of "oa_data_start a" count None "- 1"] assms(2) by blast
  have before: "s < ?T" if "maximal_run ?U ?D ?T s n" for s n
    using that by (simp add: maximal_run_def)
  show ?thesis
  proof (cases bs)
    case None
    have "\<not> free_range ?U s ?c" if "?D \<le> s" "s + ?c \<le> ?T" for s
      using in_maximal_run [OF _ that c, of ?U] b(2) before None unfolding best_so_far_def by blast
    then show ?thesis
      using b(1) None by (simp add: find_best_fit_def)
  next
    case (Some s)
    then have "maximal_run ?U ?D ?T (unat s) (unat bl)" "?c \<le> unat bl"
      "\<And>s' n'. maximal_run ?U ?D ?T s' n' \<Longrightarrow> ?c \<le> n' \<Longrightarrow> unat bl \<le> n'"
      using b(2) before unfolding best_so_far_def by auto
    moreover have "find_best_fit a count = Ok s"
      using b(1) Some by (simp add: find_best_fit_def)
    ultimately show ?thesis by blast
  qed
qed

section \<open>Contiguous allocation\<close>

text \<open>Both strategies meet the same contract.\<close>

definition pick :: "ondisk_allocator \<Rightarrow> u64 \<Rightarrow> u64 result" where
  "pick a count = (case oa_strategy a of FirstFit \<Rightarrow> find_first_fit a count | BestFit \<Rightarrow> find_best_fit a count)"

lemma pick_spec:
  assumes "wf_blocks a" "unat count < 2 ^ 63" "count \<noteq> 0"
  shows "(\<exists>s. pick a count = Ok s \<and> data_from a \<le> unat s \<and> unat s + unat count \<le> data_to a
      \<and> free_range (used_blocks a) (unat s) (unat count))
    \<or> pick a count = Err (State ''allocator: no contiguous run of '')
      \<and> (\<forall>s. data_from a \<le> s \<longrightarrow> s + unat count \<le> data_to a \<longrightarrow> \<not> free_range (used_blocks a) s (unat count))"
proof (cases "oa_strategy a")
  case FirstFit
  then show ?thesis
    using find_first_fit_spec [OF assms] by (simp add: pick_def)
next
  case BestFit
  from find_best_fit_spec [OF assms(1,3)] show ?thesis
  proof (elim disjE)
    assume "\<exists>s n. find_best_fit a count = Ok s \<and> maximal_run (used_blocks a) (data_from a) (data_to a) (unat s) n \<and> unat count \<le> n
      \<and> (\<forall>s' n'. maximal_run (used_blocks a) (data_from a) (data_to a) s' n' \<longrightarrow> unat count \<le> n' \<longrightarrow> n \<le> n')"
    then obtain s n where "find_best_fit a count = Ok s" "unat count \<le> n"
      "maximal_run (used_blocks a) (data_from a) (data_to a) (unat s) n" by blast
    then show ?thesis
      using BestFit by (intro disjI1 exI [of _ s]) (auto simp: pick_def maximal_run_def intro: free_range_le)
  qed (use BestFit in \<open>simp add: pick_def\<close>)
qed

text \<open>Marking a range of blocks through the allocator.\<close>

lemma mark_range:
  assumes "wf_blocks a" "unat s + n \<le> data_to a"
  shows "\<exists>bm'. cfor (\<lambda>i. cbind (clift (uadd s i)) (\<lambda>b. on_blocks (cdrop (bm_set b)))) (map of_nat [k..<n]) a
      = (Ok (), a\<lparr>oa_block_bitmap := bm'\<rparr>)
    \<and> used bm' = used_blocks a \<union> {unat s + k..<unat s + n} \<and> wf_bitmap bm'
    \<and> bm_capacity bm' = bm_capacity (oa_block_bitmap a)"
  using assms
proof (induction "n - k" arbitrary: a k)
  case 0
  then show ?case
    by (intro exI [of _ "oa_block_bitmap a"]) (auto simp: wf_blocks_def used_blocks_def)
next
  case (Suc m)
  then have k: "k < n" "[k..<n] = k # [Suc k..<n]"
    by (simp_all add: upt_conv_Cons)
  have T: "data_to a < 2 ^ 63"
    using Suc.prems(1) by (simp add: wf_blocks_def)
  have u: "unat (of_nat k :: u64) = k"
    using k(1) T Suc.prems(2) by (intro unat_of_nat_ok) simp
  have b: "uadd s (of_nat k) = Ok (s + of_nat k)" "unat (s + of_nat k) = unat s + k"
    using k(1) T Suc.prems(2) u unat_add_ok [of s "of_nat k"] by (simp_all add: uadd_def)
  have "s + of_nat k < bm_capacity (oa_block_bitmap a)"
    using Suc.prems k(1) b(2) by (simp add: wf_blocks_def word_less_nat_alt word_le_nat_alt)
  then obtain bm1 where bm1: "bm_set (s + of_nat k) (oa_block_bitmap a) = (Ok (unat (s + of_nat k) \<notin> used_blocks a), bm1)"
    "used bm1 = insert (unat s + k) (used_blocks a)" "wf_bitmap bm1" "bm_capacity bm1 = bm_capacity (oa_block_bitmap a)"
    using bmap.mark_law [of "oa_block_bitmap a" "s + of_nat k"] Suc.prems(1) b(2)
    by (auto simp: wf_blocks_def used_blocks_def)
  let ?a1 = "a\<lparr>oa_block_bitmap := bm1\<rparr>"
  have "wf_blocks ?a1"
    using Suc.prems(1) bm1(3,4) by (simp add: wf_blocks_def)
  then obtain bm2 where bm2: "cfor (\<lambda>i. cbind (clift (uadd s i)) (\<lambda>b. on_blocks (cdrop (bm_set b)))) (map of_nat [Suc k..<n]) ?a1
      = (Ok (), ?a1\<lparr>oa_block_bitmap := bm2\<rparr>)"
    "used bm2 = used bm1 \<union> {unat s + Suc k..<unat s + n}" "wf_bitmap bm2" "bm_capacity bm2 = bm_capacity bm1"
  proof -
    have "m = n - Suc k" "unat s + n \<le> data_to ?a1" "used_blocks ?a1 = used bm1"
      using Suc.hyps(2) Suc.prems(2) by (simp_all add: used_blocks_def)
    then show thesis
      using Suc.hyps(1) [of "Suc k" ?a1] \<open>wf_blocks ?a1\<close> that by auto
  qed
  have "cfor (\<lambda>i. cbind (clift (uadd s i)) (\<lambda>b. on_blocks (cdrop (bm_set b)))) (map of_nat [k..<n]) a
      = (Ok (), a\<lparr>oa_block_bitmap := bm2\<rparr>)"
  proof -
    have "cbind (clift (uadd s (of_nat k))) (\<lambda>b. on_blocks (cdrop (bm_set b))) a = (Ok (), ?a1)"
      using b(1) bm1(1) by (simp add: cbind_run(1) [where m = "clift _"] on_blocks_def czoom_simp cdrop_run)
    then show ?thesis
      unfolding k(2) list.map cfor.simps using bm2(1) by (simp add: cthen_run(1) [where t = ?a1] del: upt_Suc)
  qed
  moreover have "{unat s + k..<unat s + n} = insert (unat s + k) {unat s + Suc k..<unat s + n}"
    using k(1) by auto
  ultimately show ?case
    using bm1(2,4) bm2(2-4) by (intro exI [of _ bm2]) simp
qed

lemma allocate_contiguous_cases:
  assumes "wf_blocks a" "unat count < 2 ^ 63" "count \<noteq> 0"
  shows "(\<exists>s bm'. allocate_contiguous count a =
        (Ok \<lparr>ext_logical_block = 0, ext_length_blocks = ucast count, ext_physical_block = s\<rparr>,
         a\<lparr>oa_block_bitmap := bm', oa_block_hint := s + count\<rparr>)
      \<and> pick a count = Ok s \<and> data_from a \<le> unat s \<and> unat s + unat count \<le> data_to a
      \<and> free_range (used_blocks a) (unat s) (unat count)
      \<and> used bm' = used_blocks a \<union> {unat s..<unat s + unat count}
      \<and> wf_blocks (a\<lparr>oa_block_bitmap := bm', oa_block_hint := s + count\<rparr>))
    \<or> allocate_contiguous count a = (Err (State ''allocator: no contiguous run of ''), a)
      \<and> (\<forall>s. data_from a \<le> s \<longrightarrow> s + unat count \<le> data_to a \<longrightarrow> \<not> free_range (used_blocks a) s (unat count))"
  using pick_spec [OF assms]
proof (elim disjE exE conjE)
  fix s
  assume s: "pick a count = Ok s" "data_from a \<le> unat s" "unat s + unat count \<le> data_to a"
    "free_range (used_blocks a) (unat s) (unat count)"
  have T: "data_to a < 2 ^ 63"
    using assms(1) by (simp add: wf_blocks_def)
  have e: "uadd s count = Ok (s + count)" "unat (s + count) = unat s + unat count"
    using s(3) T by (simp_all add: uadd_def unat_add_ok)
  have r: "range64 0 count = map of_nat [0..<unat count]"
    by (simp add: range64_def)
  obtain bm' where bm': "cfor (\<lambda>i. cbind (clift (uadd s i)) (\<lambda>b. on_blocks (cdrop (bm_set b)))) (range64 0 count) a
      = (Ok (), a\<lparr>oa_block_bitmap := bm'\<rparr>)"
    "used bm' = used_blocks a \<union> {unat s..<unat s + unat count}" "wf_bitmap bm'"
    "bm_capacity bm' = bm_capacity (oa_block_bitmap a)"
    using mark_range [OF assms(1) s(3), of 0] r by auto
  have "allocate_contiguous count a =
        (Ok \<lparr>ext_logical_block = 0, ext_length_blocks = ucast count, ext_physical_block = s\<rparr>,
         a\<lparr>oa_block_bitmap := bm', oa_block_hint := s + count\<rparr>)"
    using assms(3) s(1) bm'(1) e(1)
    by (simp add: allocate_contiguous_def pick_def [symmetric] cbind_run(1) [where m = "cread _"]
        cthen_run(1) [where m = "cfor _ _"] cbind_run(1) [where m = "clift _"] cthen_run(1) [where m = "cmod _"])
  moreover have "wf_blocks (a\<lparr>oa_block_bitmap := bm', oa_block_hint := s + count\<rparr>)"
    using assms(1) bm'(3,4) s(3) e(2) by (simp add: wf_blocks_def word_le_nat_alt)
  ultimately show ?thesis
    using s bm'(2) by blast
next
  assume "pick a count = Err (State ''allocator: no contiguous run of '')"
    and none: "\<forall>s. data_from a \<le> s \<longrightarrow> s + unat count \<le> data_to a \<longrightarrow> \<not> free_range (used_blocks a) s (unat count)"
  then have "allocate_contiguous count a = (Err (State ''allocator: no contiguous run of ''), a)"
    using assms(3) by (simp add: allocate_contiguous_def pick_def [symmetric] cbind_run(2) [where m = "cread _"])
  then show ?thesis
    using none by blast
qed

end
