(* ===== verification/Allocator_Props.thy ===== *)
theory Allocator_Props
  imports Allocator_Spec
begin

text \<open>
  Scattered allocation, freeing and inode slots, and the properties of the allocator.
\<close>

section \<open>The largest free run\<close>

lemma largest_loop_spec:
  assumes "wf_blocks a"
    and "best = 0 \<or> (\<exists>s. data_from a \<le> s \<and> s + unat best \<le> data_to a \<and> free_range (used_blocks a) s (unat best))"
    and "data_from a \<le> unat cursor"
  shows "\<exists>r. largest_loop a best cursor = Ok r
    \<and> (r = 0 \<or> (\<exists>s. data_from a \<le> s \<and> s + unat r \<le> data_to a \<and> free_range (used_blocks a) s (unat r)))
    \<and> unat best \<le> unat r \<and> (r = 0 \<longrightarrow> {unat cursor..<data_to a} \<subseteq> used_blocks a)"
  using assms
proof (induction a best cursor rule: largest_loop.induct)
  case (1 a best cursor)
  let ?U = "used_blocks a" and ?T = "data_to a"
  show ?case
  proof (cases "cursor < oa_total_blocks a")
    case False
    then show ?thesis
      using "1.prems"(2) by (auto simp: largest_loop.simps [of a best cursor] word_less_nat_alt)
  next
    case True
    then have lt: "unat cursor < ?T"
      by (simp add: word_less_nat_alt)
    have T: "?T < 2 ^ 63"
      using "1.prems"(1) by (simp add: wf_blocks_def)
    obtain r where r: "free_run_starting_at a cursor (- 1) = Ok r" "run_at ?U ?T (unat cursor) (2 ^ 64 - 1) (unat r)"
      by (rule free_run_spec [OF "1.prems"(1), of cursor "- 1"]) (simp add: unat_max_u64)
    then have run: "free_range ?U (unat cursor) (unat r)" "unat cursor + unat r \<le> ?T"
      "unat cursor + unat r = ?T \<or> unat cursor + unat r \<in> ?U"
      using lt T by (auto simp: run_at_def)
    have no: "unat r + 1 < 2 ^ 64" "unat cursor + (unat r + 1) < 2 ^ 64"
      using run(2) T by simp_all
    obtain nx where nx: "rbind (if r = 0 then Ok 1 else uadd r 1) (uadd cursor) = Ok nx"
      using no unat_add_ok [of r 1] by (cases "r = 0") (simp_all add: uadd_def)
    note nxn = step_past_run [OF nx]
    let ?b = "max best r"
    have step: "largest_loop a best cursor = largest_loop a ?b nx"
      using True r(1) nx by (simp add: largest_loop.simps [of a best cursor])
    have "?b = 0 \<or> (\<exists>s. data_from a \<le> s \<and> s + unat ?b \<le> ?T \<and> free_range ?U s (unat ?b))"
      using "1.prems"(2,3) run by (auto simp: max_def)
    then obtain q where q: "largest_loop a ?b nx = Ok q"
      "q = 0 \<or> (\<exists>s. data_from a \<le> s \<and> s + unat q \<le> ?T \<and> free_range ?U s (unat q))"
      "unat ?b \<le> unat q" "q = 0 \<longrightarrow> {unat nx..<?T} \<subseteq> ?U"
      using "1.IH" [OF True r(1) nx "1.prems"(1)] "1.prems"(3) nxn by auto
    have le: "unat best \<le> unat ?b" "unat r \<le> unat ?b"
      by (simp_all add: max_def word_le_nat_alt)
    have "{unat cursor..<?T} \<subseteq> ?U" if "q = 0"
    proof -
      have "unat r = 0" "{unat cursor + 1..<?T} \<subseteq> ?U"
        using that q(3,4) le nxn by auto
      moreover have "unat cursor \<in> ?U"
        using run(3) lt \<open>unat r = 0\<close> by auto
      moreover have "{unat cursor..<?T} = insert (unat cursor) {unat cursor + 1..<?T}"
        using lt by auto
      ultimately show ?thesis
        by simp
    qed
    then show ?thesis
      unfolding step using q le by (intro exI [of _ q]) auto
  qed
qed

lemma largest_free_run_spec:
  assumes "wf_blocks a"
  obtains r where "largest_free_run_from a (oa_data_start a) = Ok r"
    "r = 0 \<or> (\<exists>s. data_from a \<le> s \<and> s + unat r \<le> data_to a \<and> free_range (used_blocks a) s (unat r))"
    "r = 0 \<longrightarrow> free_data a = {}"
  using largest_loop_spec [OF assms, of 0 "oa_data_start a"]
  by (auto simp: largest_free_run_from_def free_data_def)

section \<open>Freeing\<close>

definition ext_blocks :: "extent \<Rightarrow> nat set" where
  "ext_blocks e = {unat (ext_physical_block e)..<unat (ext_physical_block e) + unat (ext_length_blocks e)}"

definition in_data :: "ondisk_allocator \<Rightarrow> extent \<Rightarrow> bool" where
  "in_data a e \<longleftrightarrow> data_from a \<le> unat (ext_physical_block e)
     \<and> unat (ext_physical_block e) + unat (ext_length_blocks e) \<le> data_to a"

text \<open>The allocator \<open>a'\<close> differs from \<open>a\<close> only in its block bitmap and hint.\<close>

definition same_config :: "ondisk_allocator \<Rightarrow> ondisk_allocator \<Rightarrow> bool" where
  "same_config a a' \<longleftrightarrow> oa_data_start a' = oa_data_start a \<and> oa_total_blocks a' = oa_total_blocks a
     \<and> oa_strategy a' = oa_strategy a \<and> oa_inode_bitmap a' = oa_inode_bitmap a
     \<and> oa_inode_hint a' = oa_inode_hint a \<and> oa_reserved_inode_floor a' = oa_reserved_inode_floor a"

lemma same_config_trans: "same_config a b \<Longrightarrow> same_config b c \<Longrightarrow> same_config a c"
  by (simp add: same_config_def)

lemma same_config_refl [simp]: "same_config a a"
  by (simp add: same_config_def)

definition free_step :: "u64 \<Rightarrow> u64 \<Rightarrow> (ondisk_allocator, unit) cmd" where
  "free_step s i =
     cbind (clift (uadd s i)) (\<lambda>block.
     cthen (cread (\<lambda>a. if block < oa_data_start a \<or> block \<ge> oa_total_blocks a
              then Err (InvalidInput ''allocator: block '') else Ok ()))
       (on_blocks (cdrop (bm_clear block))))"

lemma free_step_ok:
  assumes "wf_blocks a" "data_from a \<le> unat s" "unat s + k < data_to a"
  shows "\<exists>bm'. free_step s (of_nat k) a = (Ok (), a\<lparr>oa_block_bitmap := bm'\<rparr>)
    \<and> used bm' = used_blocks a - {unat s + k} \<and> wf_bitmap bm' \<and> bm_capacity bm' = bm_capacity (oa_block_bitmap a)"
proof -
  have T: "data_to a < 2 ^ 63"
    using assms(1) by (simp add: wf_blocks_def)
  have u: "unat (of_nat k :: u64) = k"
    using T assms(3) by (intro unat_of_nat_ok) simp
  have b: "uadd s (of_nat k) = Ok (s + of_nat k)" "unat (s + of_nat k) = unat s + k"
    using T assms(3) u unat_add_ok [of s "of_nat k"] by (simp_all add: uadd_def)
  have g: "\<not> (s + of_nat k < oa_data_start a \<or> s + of_nat k \<ge> oa_total_blocks a)"
    using assms(2,3) b(2) by (simp add: word_less_nat_alt word_le_nat_alt)
  have "s + of_nat k < bm_capacity (oa_block_bitmap a)"
    using assms(1,3) b(2) by (simp add: wf_blocks_def word_less_nat_alt word_le_nat_alt)
  then obtain bm1 where bm1: "bm_clear (s + of_nat k) (oa_block_bitmap a) = (Ok (unat (s + of_nat k) \<in> used_blocks a), bm1)"
    "used bm1 = used_blocks a - {unat s + k}" "wf_bitmap bm1" "bm_capacity bm1 = bm_capacity (oa_block_bitmap a)"
    using bmap.unmark_law [of "oa_block_bitmap a" "s + of_nat k"] assms(1) b(2)
    by (auto simp: wf_blocks_def used_blocks_def)
  have "free_step s (of_nat k) a = (Ok (), a\<lparr>oa_block_bitmap := bm1\<rparr>)"
    using b(1) g bm1(1)
    by (simp add: free_step_def cbind_run(1) [where m = "clift _"] cthen_run(1) [where m = "cread _"]
        on_blocks_def czoom_simp cdrop_run)
  then show ?thesis
    using bm1(2-4) by blast
qed

lemma free_range_steps:
  assumes "wf_blocks a" "data_from a \<le> unat s" "unat s + n \<le> data_to a"
  shows "\<exists>bm'. cfor (free_step s) (map of_nat [k..<n]) a = (Ok (), a\<lparr>oa_block_bitmap := bm'\<rparr>)
    \<and> used bm' = used_blocks a - {unat s + k..<unat s + n} \<and> wf_bitmap bm'
    \<and> bm_capacity bm' = bm_capacity (oa_block_bitmap a)"
  using assms
proof (induction "n - k" arbitrary: a k)
  case 0
  then show ?case
    by (intro exI [of _ "oa_block_bitmap a"]) (auto simp: wf_blocks_def used_blocks_def)
next
  case (Suc m)
  then have k: "k < n" "[k..<n] = k # [Suc k..<n]" "m = n - Suc k"
    by (simp_all add: upt_conv_Cons)
  have "unat s + k < data_to a"
    using Suc.prems(3) k(1) by simp
  then obtain bm1 where bm1: "free_step s (of_nat k) a = (Ok (), a\<lparr>oa_block_bitmap := bm1\<rparr>)"
    "used bm1 = used_blocks a - {unat s + k}" "wf_bitmap bm1" "bm_capacity bm1 = bm_capacity (oa_block_bitmap a)"
    using free_step_ok [OF Suc.prems(1,2)] by blast
  let ?a1 = "a\<lparr>oa_block_bitmap := bm1\<rparr>"
  have "wf_blocks ?a1" "used_blocks ?a1 = used bm1"
    using Suc.prems(1) bm1(3,4) by (simp_all add: wf_blocks_def used_blocks_def)
  then obtain bm2 where bm2: "cfor (free_step s) (map of_nat [Suc k..<n]) ?a1 = (Ok (), ?a1\<lparr>oa_block_bitmap := bm2\<rparr>)"
    "used bm2 = used bm1 - {unat s + Suc k..<unat s + n}" "wf_bitmap bm2" "bm_capacity bm2 = bm_capacity bm1"
    using Suc.hyps(1) [OF k(3), of ?a1] Suc.prems(2,3) by auto
  have "cfor (free_step s) (map of_nat [k..<n]) a = (Ok (), a\<lparr>oa_block_bitmap := bm2\<rparr>)"
    unfolding k(2) list.map cfor.simps using bm1(1) bm2(1) by (simp add: cthen_run(1) [where t = ?a1] del: upt_Suc)
  moreover have "{unat s + k..<unat s + n} = insert (unat s + k) {unat s + Suc k..<unat s + n}"
    using k(1) by auto
  then have "used bm2 = used_blocks a - {unat s + k..<unat s + n}"
    using bm1(2) bm2(2) by blast
  ultimately show ?case
    using bm1(4) bm2(3,4) by (intro exI [of _ bm2]) simp
qed

lemma free_extent_ok:
  assumes "wf_blocks a" "in_data a e"
  shows "\<exists>a'. free_extent e a = (Ok (), a') \<and> used_blocks a' = used_blocks a - ext_blocks e
    \<and> wf_blocks a' \<and> same_config a a'"
proof -
  let ?s = "ext_physical_block e" and ?n = "unat (ext_length_blocks e)"
  have r: "range64 0 (ucast (ext_length_blocks e)) = map of_nat [0..<?n]"
    by (simp add: range64_def unat_ucast_u32)
  obtain bm' where bm': "cfor (free_step ?s) (map of_nat [0..<?n]) a = (Ok (), a\<lparr>oa_block_bitmap := bm'\<rparr>)"
    "used bm' = used_blocks a - ext_blocks e" "wf_bitmap bm'" "bm_capacity bm' = bm_capacity (oa_block_bitmap a)"
    using free_range_steps [OF assms(1), of ?s ?n 0] assms(2) by (auto simp: in_data_def ext_blocks_def)
  let ?a1 = "a\<lparr>oa_block_bitmap := bm'\<rparr>"
  let ?a2 = "if ?s < oa_block_hint a then ?a1\<lparr>oa_block_hint := ?s\<rparr> else ?a1"
  have "free_extent e a = (Ok (), ?a2)"
    using bm'(1) unfolding free_extent_def r free_step_def by (simp add: cthen_run(1) [where t = ?a1])
  moreover have "wf_blocks ?a2"
    using assms bm'(3,4) by (auto simp: wf_blocks_def in_data_def word_le_nat_alt)
  ultimately show ?thesis
    using bm'(2) by (intro exI [of _ ?a2]) (auto simp: used_blocks_def same_config_def)
qed

lemma free_extents_ok:
  assumes "wf_blocks a" "\<And>e. e \<in> set es \<Longrightarrow> in_data a e"
  shows "\<exists>a'. cfor free_extent es a = (Ok (), a') \<and> used_blocks a' = used_blocks a - (\<Union>e\<in>set es. ext_blocks e)
    \<and> wf_blocks a' \<and> same_config a a'"
  using assms
proof (induction es arbitrary: a)
  case (Cons e es)
  obtain a1 where a1: "free_extent e a = (Ok (), a1)" "used_blocks a1 = used_blocks a - ext_blocks e"
    "wf_blocks a1" "same_config a a1"
    using free_extent_ok [OF Cons.prems(1)] Cons.prems(2) by (meson list.set_intros(1))
  have "\<And>e'. e' \<in> set es \<Longrightarrow> in_data a1 e'"
    using Cons.prems(2) a1(4) by (auto simp: in_data_def same_config_def)
  from Cons.IH [OF a1(3) this] obtain a2 where a2: "cfor free_extent es a1 = (Ok (), a2)"
    "used_blocks a2 = used_blocks a1 - (\<Union>e\<in>set es. ext_blocks e)" "wf_blocks a2" "same_config a1 a2"
    by blast
  then show ?case
    using a1 same_config_trans [OF a1(4) a2(4)] by (intro exI [of _ a2]) (auto simp: cthen_run(1) [where t = a1])
qed auto

section \<open>Scattered allocation\<close>

text \<open>The blocks of a list of extents, and that the extents are disjoint.\<close>

definition all_blocks :: "extent list \<Rightarrow> nat set" where
  "all_blocks es = (\<Union>e\<in>set es. ext_blocks e)"

fun disjoint_extents :: "extent list \<Rightarrow> bool" where
  "disjoint_extents [] \<longleftrightarrow> True"
| "disjoint_extents (e # es) \<longleftrightarrow> ext_blocks e \<inter> all_blocks es = {} \<and> disjoint_extents es"

definition total_length :: "extent list \<Rightarrow> nat" where
  "total_length es = sum_list (map (\<lambda>e. unat (ext_length_blocks e)) es)"

lemma all_blocks_simps [simp]:
  "all_blocks [] = {}" "all_blocks (e # es) = ext_blocks e \<union> all_blocks es"
  "all_blocks (es @ es') = all_blocks es \<union> all_blocks es'"
  by (auto simp: all_blocks_def)

lemma total_length_simps [simp]: "total_length [] = 0" "total_length (e # es) = unat (ext_length_blocks e) + total_length es"
  by (simp_all add: total_length_def)

lemma finite_free_data [simp]: "finite (free_data a)"
  by (simp add: free_data_def)

lemma allocate_any_loop_spec:
  assumes "wf_blocks a" "unat remaining < 2 ^ 32"
    and "\<And>e. e \<in> set done \<Longrightarrow> in_data a e" "used_blocks a = U \<union> all_blocks done" "U \<inter> all_blocks done = {}"
  shows "(\<exists>es a'. allocate_any_loop count remaining done a = (Ok (done @ es), a') \<and> wf_blocks a' \<and> same_config a a'
      \<and> total_length es = unat remaining \<and> disjoint_extents es \<and> all_blocks es \<subseteq> free_data a \<and> (\<forall>e \<in> set es. in_data a e)
      \<and> used_blocks a' = used_blocks a \<union> all_blocks es)
    \<or> (\<exists>a'. allocate_any_loop count remaining done a = (Err (State ''allocator: cannot satisfy ''), a')
      \<and> wf_blocks a' \<and> same_config a a' \<and> used_blocks a' = U \<and> card (free_data a) < unat remaining)"
  using assms
proof (induction count remaining "done" a rule: allocate_any_loop.induct)
  case (1 count remaining "done" a)
  obtain r where r: "largest_free_run_from a (oa_data_start a) = Ok r"
    "r = 0 \<or> (\<exists>s. data_from a \<le> s \<and> s + unat r \<le> data_to a \<and> free_range (used_blocks a) s (unat r))"
    "r = 0 \<longrightarrow> free_data a = {}"
    by (rule largest_free_run_spec [OF "1.prems"(1)])
  let ?take = "min r remaining"
  note step = allocate_any_loop.simps [of count remaining "done" a]
  consider "remaining = 0" | "0 < remaining" "?take = 0" | "0 < remaining" "?take \<noteq> 0"
    by (metis word_neq_0_conv)
  then show ?case
  proof cases
    case 1
    then show ?thesis
      using "1.prems"(1) by (intro disjI1 exI [of _ "[]"] exI [of _ a])
        (simp add: allocate_any_loop.simps [of count 0 "done" a])
  next
    case 2
    then have "r = 0"
      by (auto simp: min_def split: if_splits)
    obtain a' where a': "cfor free_extent done a = (Ok (), a')" "used_blocks a' = used_blocks a - all_blocks done"
      "wf_blocks a'" "same_config a a'"
      using free_extents_ok [of a "done"] "1.prems"(1,3) by (auto simp: all_blocks_def)
    have "allocate_any_loop count remaining done a = (Err (State ''allocator: cannot satisfy ''), a')"
      using 2 r(1) a'(1) by (simp add: step Let_def cthen_run(1) [where t = a'])
    moreover have "used_blocks a' = U"
      using a'(2) "1.prems"(4,5) by auto
    moreover have "card (free_data a) < unat remaining"
      using r(3) \<open>r = 0\<close> 2(1) by (simp add: word_less_nat_alt)
    ultimately show ?thesis
      using a'(3,4) by blast
  next
    case 3
    have le: "unat ?take \<le> unat r" "unat ?take \<le> unat remaining" "unat ?take < 2 ^ 32"
      using "1.prems"(2) by (auto simp: min_def word_le_nat_alt)
    have "r \<noteq> 0"
      using 3(2) by (auto simp: min_def)
    then obtain s where "data_from a \<le> s" "s + unat r \<le> data_to a" "free_range (used_blocks a) s (unat r)"
      using r(2) by blast
    then have ex: "data_from a \<le> s" "s + unat ?take \<le> data_to a" "free_range (used_blocks a) s (unat ?take)"
      using le(1) by (auto intro: free_range_le)
    have t63: "unat ?take < 2 ^ 63"
      using le(3) by simp
    obtain p bm' where al: "allocate_contiguous ?take a =
        (Ok \<lparr>ext_logical_block = 0, ext_length_blocks = ucast ?take, ext_physical_block = p\<rparr>,
         a\<lparr>oa_block_bitmap := bm', oa_block_hint := p + ?take\<rparr>)"
      "data_from a \<le> unat p" "unat p + unat ?take \<le> data_to a" "free_range (used_blocks a) (unat p) (unat ?take)"
      "used bm' = used_blocks a \<union> {unat p..<unat p + unat ?take}"
      "wf_blocks (a\<lparr>oa_block_bitmap := bm', oa_block_hint := p + ?take\<rparr>)"
      using allocate_contiguous_cases [OF "1.prems"(1) t63 3(2)] ex by blast
    let ?e = "\<lparr>ext_logical_block = 0, ext_length_blocks = ucast ?take, ext_physical_block = p\<rparr>"
    let ?a1 = "a\<lparr>oa_block_bitmap := bm', oa_block_hint := p + ?take\<rparr>"
    have len: "unat (ucast ?take :: u32) = unat ?take"
      using le(3) by (simp add: unsigned_ucast_eq take_bit_nat_eq_self)
    have eb: "ext_blocks ?e = {unat p..<unat p + unat ?take}"
      by (simp add: ext_blocks_def len)
    have ind: "in_data a ?e"
      using al(2,3) by (simp add: in_data_def len)
    have free: "ext_blocks ?e \<subseteq> free_data a"
      using al(2,3,4) by (auto simp: eb free_data_def free_range_def)
    have ina: "in_data ?a1 e = in_data a e" for e
      by (simp add: in_data_def)
    have u1: "used_blocks ?a1 = used_blocks a \<union> ext_blocks ?e"
      using al(5) by (simp add: used_blocks_def eb)
    have c1: "same_config a ?a1"
      by (simp add: same_config_def)
    have f1: "free_data ?a1 = free_data a - ext_blocks ?e"
      using u1 by (auto simp: free_data_def)
    have card: "card (free_data ?a1) + unat ?take = card (free_data a)"
      using card_Diff_subset [OF _ free] card_mono [OF finite_free_data free] by (simp add: f1 eb)
    have rem: "unat (remaining - ?take) = unat remaining - unat ?take"
      using le(2) by (simp add: unat_sub_ok word_le_nat_alt)
    have step': "allocate_any_loop count remaining done a = allocate_any_loop count (remaining - ?take) (done @ [?e]) ?a1"
      using 3 r(1) al(1) by (simp add: step Let_def)
    have dis: "U \<inter> all_blocks (done @ [?e]) = {}"
      using "1.prems"(4,5) free by (auto simp: free_data_def)
    have ih: "(\<exists>es a'. allocate_any_loop count (remaining - ?take) (done @ [?e]) ?a1 = (Ok ((done @ [?e]) @ es), a') \<and> wf_blocks a' \<and> same_config ?a1 a'
        \<and> total_length es = unat (remaining - ?take) \<and> disjoint_extents es \<and> all_blocks es \<subseteq> free_data ?a1 \<and> (\<forall>e \<in> set es. in_data ?a1 e)
        \<and> used_blocks a' = used_blocks ?a1 \<union> all_blocks es)
      \<or> (\<exists>a'. allocate_any_loop count (remaining - ?take) (done @ [?e]) ?a1 = (Err (State ''allocator: cannot satisfy ''), a')
        \<and> wf_blocks a' \<and> same_config ?a1 a' \<and> used_blocks a' = U \<and> card (free_data ?a1) < unat (remaining - ?take))"
    proof (rule "1.IH" [OF 3(1) r(1) refl 3(2) al(1) [symmetric] refl al(6)])
      show "unat (remaining - ?take) < 2 ^ 32"
        using rem "1.prems"(2) by simp
      show "in_data ?a1 e" if "e \<in> set (done @ [?e])" for e
        using that "1.prems"(3) ind by (auto simp: in_data_def)
      show "used_blocks ?a1 = U \<union> all_blocks (done @ [?e])"
        using u1 "1.prems"(4) by auto
    qed (rule refl dis)+
    then show ?thesis
      unfolding step'
    proof (elim disjE exE conjE)
      fix es a'
      assume h: "allocate_any_loop count (remaining - ?take) (done @ [?e]) ?a1 = (Ok ((done @ [?e]) @ es), a')"
        "wf_blocks a'" "same_config ?a1 a'" "total_length es = unat (remaining - ?take)" "disjoint_extents es"
        "all_blocks es \<subseteq> free_data ?a1" "\<forall>e \<in> set es. in_data ?a1 e" "used_blocks a' = used_blocks ?a1 \<union> all_blocks es"
      show "(\<exists>es a'. allocate_any_loop count (remaining - ?take) (done @ [?e]) ?a1 = (Ok (done @ es), a') \<and> wf_blocks a' \<and> same_config a a'
          \<and> total_length es = unat remaining \<and> disjoint_extents es \<and> all_blocks es \<subseteq> free_data a \<and> (\<forall>e \<in> set es. in_data a e)
          \<and> used_blocks a' = used_blocks a \<union> all_blocks es)
        \<or> (\<exists>a'. allocate_any_loop count (remaining - ?take) (done @ [?e]) ?a1 = (Err (State ''allocator: cannot satisfy ''), a')
          \<and> wf_blocks a' \<and> same_config a a' \<and> used_blocks a' = U \<and> card (free_data a) < unat remaining)"
        using h free f1 u1 rem le(2) len ind ina same_config_trans [OF c1 h(3)]
        by (intro disjI1 exI [of _ "?e # es"] exI [of _ a']) auto
    next
      fix a'
      assume h: "allocate_any_loop count (remaining - ?take) (done @ [?e]) ?a1 = (Err (State ''allocator: cannot satisfy ''), a')"
        "wf_blocks a'" "same_config ?a1 a'" "used_blocks a' = U" "card (free_data ?a1) < unat (remaining - ?take)"
      have "card (free_data a) < unat remaining"
        using h(5) card rem le(2) by linarith
      then show "(\<exists>es a'. allocate_any_loop count (remaining - ?take) (done @ [?e]) ?a1 = (Ok (done @ es), a') \<and> wf_blocks a' \<and> same_config a a'
          \<and> total_length es = unat remaining \<and> disjoint_extents es \<and> all_blocks es \<subseteq> free_data a \<and> (\<forall>e \<in> set es. in_data a e)
          \<and> used_blocks a' = used_blocks a \<union> all_blocks es)
        \<or> (\<exists>a'. allocate_any_loop count (remaining - ?take) (done @ [?e]) ?a1 = (Err (State ''allocator: cannot satisfy ''), a')
          \<and> wf_blocks a' \<and> same_config a a' \<and> used_blocks a' = U \<and> card (free_data a) < unat remaining)"
        using h same_config_trans [OF c1 h(3)] by blast
    qed
  qed
qed

section \<open>Inode slots\<close>

text \<open>The hint never passes a free slot at or above the reserved floor.\<close>

definition wf_inodes :: "ondisk_allocator \<Rightarrow> bool" where
  "wf_inodes a \<longleftrightarrow> wf_bitmap (oa_inode_bitmap a) \<and> oa_reserved_inode_floor a \<le> oa_inode_hint a
     \<and> (\<forall>i. unat (oa_reserved_inode_floor a) \<le> i \<longrightarrow> i < unat (oa_inode_hint a) \<longrightarrow> i \<in> used (oa_inode_bitmap a))
     \<and> unat (bm_capacity (oa_inode_bitmap a)) < 2 ^ 63"

definition used_inodes :: "ondisk_allocator \<Rightarrow> nat set" where
  "used_inodes a = used (oa_inode_bitmap a)"

definition free_slots :: "ondisk_allocator \<Rightarrow> nat set" where
  "free_slots a = {unat (oa_reserved_inode_floor a)..<unat (bm_capacity (oa_inode_bitmap a))} - used_inodes a"

lemma allocate_inode_cases:
  assumes "wf_inodes a"
  shows "(\<exists>k a'. allocate_inode a = (Ok k, a') \<and> unat k \<in> free_slots a \<and> (\<forall>j \<in> free_slots a. unat k \<le> j)
      \<and> used_inodes a' = insert (unat k) (used_inodes a) \<and> wf_inodes a' \<and> oa_block_bitmap a' = oa_block_bitmap a
      \<and> bm_capacity (oa_inode_bitmap a') = bm_capacity (oa_inode_bitmap a)
      \<and> oa_reserved_inode_floor a' = oa_reserved_inode_floor a)
    \<or> allocate_inode a = (Err (State ''allocator: inode table exhausted''), a) \<and> free_slots a = {}"
proof -
  let ?bm = "oa_inode_bitmap a" and ?h = "oa_inode_hint a" and ?f = "oa_reserved_inode_floor a"
  have w: "wf_bitmap ?bm" "?f \<le> ?h" "\<And>i. unat ?f \<le> i \<Longrightarrow> i < unat ?h \<Longrightarrow> i \<in> used ?bm"
    "unat (bm_capacity ?bm) < 2 ^ 63"
    using assms by (simp_all add: wf_inodes_def)
  obtain r bm' where r: "allocate_first ?h ?bm = (r, bm')"
    by (cases "allocate_first ?h ?bm")
  from allocate_first_spec [OF w(1) r] show ?thesis
    unfolding first_free_def
  proof (elim disjE exE conjE)
    assume "r = Ok None" "bm' = ?bm" and all: "\<forall>j. unat ?h \<le> j \<longrightarrow> j < unat (bm_capacity ?bm) \<longrightarrow> j \<in> used ?bm"
    then have "allocate_inode a = (Err (State ''allocator: inode table exhausted''), a)"
      using r by (simp add: allocate_inode_def on_inodes_def cbind_def czoom_simp)
    moreover have "free_slots a = {}"
      using all w(3) by (auto simp: free_slots_def used_inodes_def) (meson not_le)
    ultimately show ?thesis by blast
  next
    fix k
    assume k: "r = Ok (Some k)" "?h \<le> k" "k < bm_capacity ?bm" "unat k \<notin> used ?bm"
      "\<forall>j. unat ?h \<le> j \<longrightarrow> j < unat k \<longrightarrow> j \<in> used ?bm" "bm_set k ?bm = (Ok True, bm')"
    obtain b where b: "bm_set k ?bm = (Ok (unat k \<notin> used ?bm), b)" "used b = insert (unat k) (used ?bm)" "wf_bitmap b"
        "bm_capacity b = bm_capacity ?bm"
      using bm_set_ok [OF w(1) k(3)] by metis
    then have bm': "used bm' = insert (unat k) (used ?bm)" "wf_bitmap bm'" "bm_capacity bm' = bm_capacity ?bm"
      using k(6) by auto
    have k1: "uadd k 1 = Ok (k + 1)" "unat (k + 1) = unat k + 1"
      using inc_gt [OF k(3)] unat_u64_lt [of "k + 1"] by (simp_all add: uadd_def)
    let ?a' = "a\<lparr>oa_inode_bitmap := bm', oa_inode_hint := k + 1\<rparr>"
    have run: "allocate_inode a = (Ok k, ?a')"
      using r k(1) k1(1) by (simp add: allocate_inode_def on_inodes_def cbind_def czoom_simp cthen_run(1) [where m = "cmod _"])
    have below: "j \<in> used ?bm" if "unat ?f \<le> j" "j < unat k" for j
      using that w(3) k(5) by (cases "j < unat ?h") auto
    have "wf_inodes ?a'"
      unfolding wf_inodes_def using w(2,4) bm' k(2) k1(2) below
      by (auto simp: word_le_nat_alt less_Suc_eq)
    moreover have "unat k \<in> free_slots a"
      using k(2-4) w(2) by (auto simp: free_slots_def used_inodes_def word_le_nat_alt word_less_nat_alt)
    moreover have "\<forall>j \<in> free_slots a. unat k \<le> j"
      using below by (auto simp: free_slots_def used_inodes_def not_less [symmetric])
    ultimately show ?thesis
      using run bm' by (intro disjI1 exI [of _ k] exI [of _ ?a']) (simp add: used_inodes_def)
  qed
qed

lemma free_inode_ok:
  assumes "wf_inodes a" "oa_reserved_inode_floor a \<le> k" "k < bm_capacity (oa_inode_bitmap a)"
  shows "\<exists>a'. free_inode k a = (Ok (), a') \<and> used_inodes a' = used_inodes a - {unat k} \<and> wf_inodes a'
    \<and> oa_reserved_inode_floor a' = oa_reserved_inode_floor a
    \<and> bm_capacity (oa_inode_bitmap a') = bm_capacity (oa_inode_bitmap a)"
proof -
  let ?bm = "oa_inode_bitmap a"
  have w: "wf_bitmap ?bm"
    using assms(1) by (simp add: wf_inodes_def)
  obtain bm' where bm': "bm_clear k ?bm = (Ok (unat k \<in> used ?bm), bm')" "used bm' = used ?bm - {unat k}"
    "wf_bitmap bm'" "bm_capacity bm' = bm_capacity ?bm"
    using bm_clear_ok [OF w assms(3)] by metis
  let ?a1 = "a\<lparr>oa_inode_bitmap := bm'\<rparr>"
  let ?a2 = "if k < oa_inode_hint a then ?a1\<lparr>oa_inode_hint := k\<rparr> else ?a1"
  have "free_inode k a = (Ok (), ?a2)"
    using assms(2) bm'(1)
    by (simp add: free_inode_def cthen_run(1) [where m = "cread _"] linorder_not_less on_inodes_def czoom_simp
        cdrop_run cthen_run(1) [where t = ?a1])
  moreover have "wf_inodes ?a2"
    using assms bm'(2-4) by (auto simp: wf_inodes_def word_le_nat_alt word_less_nat_alt)
  ultimately show ?thesis
    using bm'(2,4) by (intro exI [of _ ?a2]) (auto simp: used_inodes_def)
qed

section \<open>Properties\<close>

text \<open>
  C33: contiguous allocation under either strategy takes a range of free data blocks of the
  requested length, marks exactly that range and keeps the allocator well formed, or it fails
  without a change, and then no such range exists.
\<close>

theorem allocate_contiguous_sound_and_complete:
  assumes "wf_blocks a" "unat count < 2 ^ 32" "count \<noteq> 0"
  shows "(\<exists>ext a'. allocate_contiguous count a = (Ok ext, a') \<and> unat (ext_length_blocks ext) = unat count
      \<and> ext_blocks ext \<subseteq> free_data a \<and> used_blocks a' = used_blocks a \<union> ext_blocks ext \<and> wf_blocks a')
    \<or> allocate_contiguous count a = (Err (State ''allocator: no contiguous run of ''), a)
      \<and> (\<forall>s. data_from a \<le> s \<longrightarrow> s + unat count \<le> data_to a \<longrightarrow> \<not> {s..<s + unat count} \<subseteq> free_data a)"
proof -
  have c: "unat count < 2 ^ 63" and len: "unat (ucast count :: u32) = unat count"
    using assms(2) by (simp_all add: unsigned_ucast_eq take_bit_nat_eq_self)
  have fr: "{s..<s + n} \<subseteq> free_data a \<Longrightarrow> free_range (used_blocks a) s n" for s n
    by (auto simp: free_range_def free_data_def)
  from allocate_contiguous_cases [OF assms(1) c assms(3)] show ?thesis
  proof (elim disjE exE conjE)
    fix s bm'
    assume h: "allocate_contiguous count a =
        (Ok \<lparr>ext_logical_block = 0, ext_length_blocks = ucast count, ext_physical_block = s\<rparr>,
         a\<lparr>oa_block_bitmap := bm', oa_block_hint := s + count\<rparr>)"
      "data_from a \<le> unat s" "unat s + unat count \<le> data_to a" "free_range (used_blocks a) (unat s) (unat count)"
      "used bm' = used_blocks a \<union> {unat s..<unat s + unat count}"
      "wf_blocks (a\<lparr>oa_block_bitmap := bm', oa_block_hint := s + count\<rparr>)"
    have "ext_blocks \<lparr>ext_logical_block = 0, ext_length_blocks = ucast count, ext_physical_block = s\<rparr>
        = {unat s..<unat s + unat count}"
      by (simp add: ext_blocks_def len)
    moreover from this have "ext_blocks \<lparr>ext_logical_block = 0, ext_length_blocks = ucast count, ext_physical_block = s\<rparr> \<subseteq> free_data a"
      using h(2-4) by (auto simp: free_data_def free_range_def)
    ultimately show ?thesis
      using h len by (intro disjI1 exI conjI) (auto simp: used_blocks_def)
  qed (use fr in blast)
qed

text \<open>
  Best fit takes its range from the start of a shortest sufficient maximal run of free
  data blocks.
\<close>

theorem best_fit_takes_a_shortest_run:
  assumes "wf_blocks a" "oa_strategy a = BestFit" "count \<noteq> 0" "unat count < 2 ^ 32"
    and "allocate_contiguous count a = (Ok ext, a')"
  shows "\<exists>n. maximal_run (used_blocks a) (data_from a) (data_to a) (unat (ext_physical_block ext)) n \<and> unat count \<le> n
    \<and> (\<forall>s m. maximal_run (used_blocks a) (data_from a) (data_to a) s m \<longrightarrow> unat count \<le> m \<longrightarrow> n \<le> m)"
proof -
  have c: "unat count < 2 ^ 63"
    using assms(4) by simp
  have "pick a count = Ok (ext_physical_block ext)"
    using allocate_contiguous_cases [OF assms(1) c assms(3)] assms(5) by auto
  then show ?thesis
    using find_best_fit_spec [OF assms(1,3)] assms(2) by (auto simp: pick_def)
qed

text \<open>
  C34: scattered allocation is all or nothing.  It succeeds exactly when enough data blocks are
  free, however fragmented: the extents are disjoint, free, and add up to the request; a
  failure gives back everything it had taken.  Freeing the returned extents restores the set
  of used blocks.
\<close>

theorem allocate_any_all_or_nothing:
  assumes "wf_blocks a" "unat count < 2 ^ 32"
  shows "if unat count \<le> card (free_data a)
    then \<exists>es a' a''. allocate_any count a = (Ok es, a') \<and> total_length es = unat count \<and> disjoint_extents es
      \<and> all_blocks es \<subseteq> free_data a \<and> used_blocks a' = used_blocks a \<union> all_blocks es \<and> wf_blocks a'
      \<and> cfor free_extent es a' = (Ok (), a'') \<and> used_blocks a'' = used_blocks a
    else \<exists>a'. allocate_any count a = (Err (State ''allocator: cannot satisfy ''), a')
      \<and> used_blocks a' = used_blocks a \<and> wf_blocks a'"
proof -
  have card: "total_length es = card (all_blocks es)" if "disjoint_extents es" for es
    using that
  proof (induction es)
    case (Cons e es)
    have "finite (all_blocks es)" "finite (ext_blocks e)" "card (ext_blocks e) = unat (ext_length_blocks e)"
      by (simp_all add: all_blocks_def ext_blocks_def)
    then show ?case
      using Cons by (simp add: card_Un_disjoint)
  qed simp
  have "allocate_any_loop count count [] a = allocate_any count a"
    by (simp add: allocate_any_def)
  with allocate_any_loop_spec [OF assms, of "[]" "used_blocks a" count]
  consider (ok) es a' where "allocate_any count a = (Ok es, a')" "wf_blocks a'" "same_config a a'"
      "total_length es = unat count" "disjoint_extents es" "all_blocks es \<subseteq> free_data a"
      "\<forall>e \<in> set es. in_data a e" "used_blocks a' = used_blocks a \<union> all_blocks es"
    | (no) a' where "allocate_any count a = (Err (State ''allocator: cannot satisfy ''), a')" "wf_blocks a'"
      "used_blocks a' = used_blocks a" "card (free_data a) < unat count"
    by auto
  then show ?thesis
  proof cases
    case ok
    have le: "unat count \<le> card (free_data a)"
      using card_mono [OF finite_free_data ok(6)] card [OF ok(5)] ok(4) by simp
    have "\<And>e. e \<in> set es \<Longrightarrow> in_data a' e"
      using ok(3,7) by (simp add: in_data_def same_config_def)
    then obtain a'' where "cfor free_extent es a' = (Ok (), a'')"
      "used_blocks a'' = used_blocks a' - all_blocks es"
      using free_extents_ok [OF ok(2), of es] by (auto simp: all_blocks_def)
    moreover from this have "used_blocks a'' = used_blocks a"
      using ok(6,8) by (auto simp: free_data_def)
    ultimately show ?thesis
      using ok le by auto
  next
    case no
    then show ?thesis by auto
  qed
qed

text \<open>
  An inode allocation hands out the lowest free slot at or above the reserved floor, and
  fails only when every such slot is taken; freeing a slot makes it available again, and the
  slots below the floor cannot be freed.
\<close>

theorem inode_slots_above_the_floor:
  assumes "wf_inodes a"
  shows "(if free_slots a = {}
    then allocate_inode a = (Err (State ''allocator: inode table exhausted''), a)
    else \<exists>k a' a''. allocate_inode a = (Ok k, a') \<and> unat k = Min (free_slots a)
      \<and> used_inodes a' = insert (unat k) (used_inodes a) \<and> wf_inodes a'
      \<and> free_inode k a' = (Ok (), a'') \<and> used_inodes a'' = used_inodes a \<and> wf_inodes a'')
    \<and> (\<forall>k. k < oa_reserved_inode_floor a \<longrightarrow> free_inode k a = (Err (PolicyViolation ''allocator: inode slot ''), a))"
proof (intro conjI allI impI)
  have fin: "finite (free_slots a)"
    by (simp add: free_slots_def)
  show "if free_slots a = {}
    then allocate_inode a = (Err (State ''allocator: inode table exhausted''), a)
    else \<exists>k a' a''. allocate_inode a = (Ok k, a') \<and> unat k = Min (free_slots a)
      \<and> used_inodes a' = insert (unat k) (used_inodes a) \<and> wf_inodes a'
      \<and> free_inode k a' = (Ok (), a'') \<and> used_inodes a'' = used_inodes a \<and> wf_inodes a''"
    using allocate_inode_cases [OF assms]
  proof (elim disjE exE conjE)
    fix k a'
    assume h: "allocate_inode a = (Ok k, a')" "unat k \<in> free_slots a" "\<forall>j \<in> free_slots a. unat k \<le> j"
      "used_inodes a' = insert (unat k) (used_inodes a)" "wf_inodes a'"
      "bm_capacity (oa_inode_bitmap a') = bm_capacity (oa_inode_bitmap a)"
      "oa_reserved_inode_floor a' = oa_reserved_inode_floor a"
    have "unat k = Min (free_slots a)"
      using fin h(2,3) by (intro Min_eqI [symmetric]) auto
    moreover obtain a'' where "free_inode k a' = (Ok (), a'')" "used_inodes a'' = used_inodes a' - {unat k}" "wf_inodes a''"
      using free_inode_ok [OF h(5), of k] h(2,6,7)
      by (auto simp: free_slots_def word_le_nat_alt word_less_nat_alt)
    moreover have "insert (unat k) (used_inodes a) - {unat k} = used_inodes a"
      using h(2) by (auto simp: free_slots_def)
    ultimately show ?thesis
      using h by auto
  qed auto
  show "k < oa_reserved_inode_floor a \<Longrightarrow> free_inode k a = (Err (PolicyViolation ''allocator: inode slot ''), a)" for k
    by (simp add: free_inode_def cthen_run(2) [where m = "cread _"])
qed

section \<open>A concrete allocator\<close>

definition demo_allocator :: "allocation_strategy \<Rightarrow> ondisk_allocator" where
  "demo_allocator st =
    \<lparr>oa_block_bitmap = bitmap_new 20, oa_inode_bitmap = bitmap_new 10, oa_data_start = 4, oa_total_blocks = 20,
     oa_strategy = st, oa_block_hint = 4, oa_inode_hint = 1, oa_reserved_inode_floor = 1\<rparr>"

lemma demo_allocator_ok:
  "wf_blocks (demo_allocator st)" "used_blocks (demo_allocator st) = {}" "wf_inodes (demo_allocator st)"
  "free_data (demo_allocator st) = {4..<20}" "free_slots (demo_allocator st) = {1..<10}"
proof -
  have b: "wf_bitmap (bitmap_new 20)" "bm_capacity (bitmap_new 20) = 20" "used (bitmap_new 20) = {}"
    "wf_bitmap (bitmap_new 10)" "bm_capacity (bitmap_new 10) = 10" "used (bitmap_new 10) = {}"
    by (rule bitmap_new_ok; simp)+
  then show "wf_blocks (demo_allocator st)" and u: "used_blocks (demo_allocator st) = {}"
    and "wf_inodes (demo_allocator st)" "free_slots (demo_allocator st) = {1..<10}"
    by (simp_all add: demo_allocator_def wf_blocks_def used_blocks_def wf_inodes_def free_slots_def used_inodes_def)
  show "free_data (demo_allocator st) = {4..<20}"
    using u by (simp add: free_data_def) (simp add: demo_allocator_def)
qed

lemma demo_contiguous:
  "\<not> (\<forall>s. data_from (demo_allocator st) \<le> s \<longrightarrow> s + unat (3 :: u64) \<le> data_to (demo_allocator st) \<longrightarrow>
      \<not> {s..<s + unat (3 :: u64)} \<subseteq> free_data (demo_allocator st))"
  unfolding demo_allocator_ok by (intro notI, drule spec [of _ 4]) (simp add: demo_allocator_def)

theorem allocate_contiguous_sound_and_complete_witness:
  "\<exists>ext a'. allocate_contiguous 3 (demo_allocator FirstFit) = (Ok ext, a')"
  using allocate_contiguous_sound_and_complete [OF demo_allocator_ok(1), of 3 FirstFit] demo_contiguous [of FirstFit]
  by auto

theorem best_fit_takes_a_shortest_run_witness:
  "\<exists>ext a' n. allocate_contiguous 3 (demo_allocator BestFit) = (Ok ext, a') \<and> 3 \<le> n
    \<and> maximal_run {} 4 20 (unat (ext_physical_block ext)) n"
proof -
  obtain ext a' where run: "allocate_contiguous 3 (demo_allocator BestFit) = (Ok ext, a')"
    using allocate_contiguous_cases [OF demo_allocator_ok(1), of 3 BestFit] demo_contiguous [of BestFit]
      demo_allocator_ok(2,4) [of BestFit] by (auto simp: free_range_def)
  from best_fit_takes_a_shortest_run [OF demo_allocator_ok(1) _ _ _ run] show ?thesis
    using run demo_allocator_ok(2) [of BestFit] by (auto simp: demo_allocator_def)
qed

theorem allocate_any_all_or_nothing_witness:
  "\<exists>es a'. allocate_any 5 (demo_allocator FirstFit) = (Ok es, a') \<and> total_length es = 5"
  using allocate_any_all_or_nothing [OF demo_allocator_ok(1), of 5 FirstFit] by (auto simp: demo_allocator_ok)

theorem inode_slots_above_the_floor_witness:
  "\<exists>k a'. allocate_inode (demo_allocator FirstFit) = (Ok k, a') \<and> unat k = Min {1..<10}"
  using inode_slots_above_the_floor [OF demo_allocator_ok(3), of FirstFit] by (auto simp: demo_allocator_ok)

end
