(* ===== verification/Refcount.thy ===== *)
theory Refcount
  imports Inode_Record Layout
begin

text \<open>
  Reference counts of shared data blocks, \<open>corefs-core/src/storage/ondisk/refcount.rs\<close>:
  \<open>RefCountTable\<close> with its on-disk encoding, and the copy-on-write helper \<open>BlockSharing\<close>.
\<close>

definition COUNTS_PER_BLOCK :: nat where "COUNTS_PER_BLOCK = 4088 div 2"
definition CRC_OFFSET :: nat where "CRC_OFFSET = 4092"
definition MAX_REFCOUNT :: u16 where "MAX_REFCOUNT = - 1"

lemma refcount_sizes [simp]: "COUNTS_PER_BLOCK = 2044" "CRC_OFFSET = 4092"
  by (simp_all add: COUNTS_PER_BLOCK_def CRC_OFFSET_def)

section \<open>The table\<close>

record refcount_table =
  rc_counters :: "u16 list"
  rc_capacity :: u64

definition rc_new :: "u64 \<Rightarrow> refcount_table" where
  "rc_new capacity = \<lparr>rc_counters = replicate (unat capacity) 0, rc_capacity = capacity\<rparr>"

text \<open>\<open>usize::div_ceil\<close>.\<close>

definition rc_blocks_needed :: "u64 \<Rightarrow> nat" where
  "rc_blocks_needed capacity =
    (let q = unat capacity div COUNTS_PER_BLOCK in if 0 < unat capacity mod COUNTS_PER_BLOCK then q + 1 else q)"

definition rc_check_index :: "refcount_table \<Rightarrow> u64 \<Rightarrow> unit result" where
  "rc_check_index t block =
    (if block \<ge> rc_capacity t then Err (InvalidInput ''refcount: block '') else Ok ())"

definition rc_get :: "refcount_table \<Rightarrow> u64 \<Rightarrow> u16 result" where
  "rc_get t block = (if block \<ge> rc_capacity t then Ok 0 else nth_res (rc_counters t) (unat block))"

definition rc_get_checked :: "refcount_table \<Rightarrow> u64 \<Rightarrow> u16 result" where
  "rc_get_checked t block = rbind (rc_check_index t block) (\<lambda>_. nth_res (rc_counters t) (unat block))"

definition rc_acquire :: "u64 \<Rightarrow> (refcount_table, u16) cmd" where
  "rc_acquire block =
     cthen (cread (\<lambda>t. rc_check_index t block))
    (cbind (cread (\<lambda>t. nth_res (rc_counters t) (unat block))) (\<lambda>cur.
     if cur = MAX_REFCOUNT then cfail (PolicyViolation ''refcount: block '')
     else cthen (cmod (\<lambda>t. t\<lparr>rc_counters := (rc_counters t)[unat block := cur + 1]\<rparr>))
            (cread (\<lambda>t. nth_res (rc_counters t) (unat block)))))"

definition rc_release :: "u64 \<Rightarrow> (refcount_table, u16) cmd" where
  "rc_release block =
     cthen (cread (\<lambda>t. rc_check_index t block))
    (cbind (cread (\<lambda>t. nth_res (rc_counters t) (unat block))) (\<lambda>cur.
     if cur = 0 then cfail (State ''refcount: block '')
     else cthen (cmod (\<lambda>t. t\<lparr>rc_counters := (rc_counters t)[unat block := cur - 1]\<rparr>))
            (cread (\<lambda>t. nth_res (rc_counters t) (unat block)))))"

definition rc_acquire_extent :: "extent \<Rightarrow> (refcount_table, unit) cmd" where
  "rc_acquire_extent ext =
     cfor (\<lambda>i. cbind (clift (uadd (ext_physical_block ext) i)) (\<lambda>b t.
         case rc_acquire b t of
           (Ok _, t') \<Rightarrow> (Ok (), t')
         | (Panic, t') \<Rightarrow> (Panic, t')
         | (Err e, t') \<Rightarrow>
             cthen (cfor (\<lambda>j. cbind (clift (uadd (ext_physical_block ext) j)) (\<lambda>b. cignore (rc_release b))) (range64 0 i))
               (cfail e) t'))
       (range64 0 (ucast (ext_length_blocks ext)))"

fun release_loop :: "u64 \<Rightarrow> u64 list \<Rightarrow> u64 list \<Rightarrow> (refcount_table, u64 list) cmd" where
  "release_loop phys [] freed = cret freed"
| "release_loop phys (i # is) freed =
     cbind (clift (uadd phys i)) (\<lambda>b.
     cbind (rc_release b) (\<lambda>new.
       release_loop phys is (if new = 0 then freed @ [b] else freed)))"

definition rc_release_extent :: "extent \<Rightarrow> (refcount_table, u64 list) cmd" where
  "rc_release_extent ext = release_loop (ext_physical_block ext) (range64 0 (ucast (ext_length_blocks ext))) []"

definition rc_allocated :: "refcount_table \<Rightarrow> nat" where
  "rc_allocated t = length (filter (\<lambda>c. c > 0) (rc_counters t))"

definition rc_shared :: "refcount_table \<Rightarrow> nat" where
  "rc_shared t = length (filter (\<lambda>c. c > 1) (rc_counters t))"

section \<open>Encoding\<close>

text \<open>\<open>slice::chunks\<close>.\<close>

function chunks :: "nat \<Rightarrow> 'a list \<Rightarrow> 'a list list" where
  "chunks n xs = (if xs = [] \<or> n = 0 then [] else take n xs # chunks n (drop n xs))"
  by pat_completeness auto
termination
  by (relation "measure (length \<circ> snd)") auto

declare chunks.simps [simp del]

text \<open>
  One 4096-byte block of counters, and the loop that fills the zeroed output.  The table's
  constructors give it exactly \<open>capacity\<close> counters, so the chunks fill the output exactly.
\<close>

definition rc_encode_chunk :: "u16 list \<Rightarrow> bytes" where
  "rc_encode_chunk chunk =
     crc_seal CRC_OFFSET (put_seq (le_bytes 2) 2 0 chunk (zeros (unat BLOCK_SIZE)))"

definition rc_encode :: "refcount_table \<Rightarrow> bytes" where
  "rc_encode t =
     puts (place 0 (map rc_encode_chunk (chunks COUNTS_PER_BLOCK (rc_counters t))))
       (zeros (rc_blocks_needed (rc_capacity t) * unat BLOCK_SIZE))"

fun rc_decode_loop :: "bytes \<Rightarrow> nat \<Rightarrow> nat \<Rightarrow> nat \<Rightarrow> u16 list \<Rightarrow> u16 list result" where
  "rc_decode_loop bytes idx 0 remaining counters = Ok counters"
| "rc_decode_loop bytes idx (Suc n) remaining counters =
    (let block = cut (idx * unat BLOCK_SIZE) (unat BLOCK_SIZE) bytes in
     if crc_expected CRC_OFFSET block \<noteq> crc_stored CRC_OFFSET block then Err (State ''refcount block '')
     else
       let take' = min remaining COUNTS_PER_BLOCK in
       rc_decode_loop bytes (idx + 1) n (remaining - take') (counters @ get_seq from_le 2 0 take' block))"

definition rc_decode :: "bytes \<Rightarrow> u64 \<Rightarrow> refcount_table result" where
  "rc_decode bytes capacity =
    (let blocks = rc_blocks_needed capacity in
     if length bytes \<noteq> blocks * unat BLOCK_SIZE then Err (InvalidInput ''refcount decode: expected '')
     else
       rbind (rc_decode_loop bytes 0 blocks (unat capacity) []) (\<lambda>counters.
         Ok \<lparr>rc_counters = counters, rc_capacity = capacity\<rparr>))"

section \<open>Copy on write\<close>

datatype cow_outcome = InPlace | MustCopy "u64 list"

text \<open>\<open>BlockSharing\<close> wraps the table, so its methods are commands on the table.\<close>

fun fresh_check :: "u64 \<Rightarrow> u64 list \<Rightarrow> refcount_table \<Rightarrow> unit result" where
  "fresh_check phys [] t = Ok ()"
| "fresh_check phys (i # is) t =
     rbind (uadd phys i) (\<lambda>b.
     rbind (rc_get t b) (\<lambda>c.
       if c \<noteq> 0 then Err (State ''refcount: register_fresh on block '') else fresh_check phys is t))"

definition bs_register_fresh :: "extent \<Rightarrow> (refcount_table, unit) cmd" where
  "bs_register_fresh ext =
     cthen (cread (fresh_check (ext_physical_block ext) (range64 0 (ucast (ext_length_blocks ext)))))
       (rc_acquire_extent ext)"

definition bs_clone_extent :: "extent \<Rightarrow> (refcount_table, unit) cmd" where
  "bs_clone_extent ext = rc_acquire_extent ext"

fun all_exclusive :: "u64 \<Rightarrow> u64 list \<Rightarrow> refcount_table \<Rightarrow> bool result" where
  "all_exclusive phys [] t = Ok True"
| "all_exclusive phys (i # is) t =
     rbind (uadd phys i) (\<lambda>b.
     rbind (rc_get t b) (\<lambda>c. if c = 1 then all_exclusive phys is t else Ok False))"

definition bs_cow_write :: "extent \<Rightarrow> (refcount_table, cow_outcome) cmd" where
  "bs_cow_write ext =
     cbind (cread (all_exclusive (ext_physical_block ext) (range64 0 (ucast (ext_length_blocks ext))))) (\<lambda>exclusive.
     if exclusive then cret InPlace
     else cbind (rc_release_extent ext) (\<lambda>freed. cret (MustCopy freed)))"

definition bs_release :: "extent \<Rightarrow> (refcount_table, u64 list) cmd" where
  "bs_release ext = rc_release_extent ext"

definition bs_bytes_saved :: "refcount_table \<Rightarrow> u64 result" where
  "bs_bytes_saved t =
     rfor (\<lambda>c acc. rbind (umul (ucast (c - 1)) BLOCK_SIZE) (uadd acc)) (filter (\<lambda>c. c > 1) (rc_counters t)) 0"

section \<open>Invariant and single steps\<close>

definition wf_refcount :: "refcount_table \<Rightarrow> bool" where
  "wf_refcount t \<longleftrightarrow> length (rc_counters t) = unat (rc_capacity t)"

definition count :: "refcount_table \<Rightarrow> nat \<Rightarrow> u16" where
  "count t i = rc_counters t ! i"

text \<open>The table with the counters of the blocks in \<open>S\<close> raised by one.\<close>

definition bumped :: "refcount_table \<Rightarrow> nat set \<Rightarrow> refcount_table" where
  "bumped t S = t\<lparr>rc_counters := map (\<lambda>i. if i \<in> S then count t i + 1 else count t i) [0..<length (rc_counters t)]\<rparr>"

lemma bumped_sel [simp]:
  "length (rc_counters (bumped t S)) = length (rc_counters t)" "rc_capacity (bumped t S) = rc_capacity t"
  "wf_refcount (bumped t S) = wf_refcount t"
  by (simp_all add: bumped_def wf_refcount_def)

lemma count_bumped: "i < length (rc_counters t) \<Longrightarrow> count (bumped t S) i = (if i \<in> S then count t i + 1 else count t i)"
  by (simp add: bumped_def count_def)

lemma count_update:
  "count (t\<lparr>rc_counters := (rc_counters t')[j := c]\<rparr>) i = (if i = j \<and> j < length (rc_counters t') then c else count t' i)"
  by (cases "j < length (rc_counters t')") (auto simp: count_def list_update_beyond)

lemma refcount_eqI:
  fixes t t' :: refcount_table
  assumes "rc_capacity t = rc_capacity t'" "length (rc_counters t) = length (rc_counters t')"
    and "\<And>i. i < length (rc_counters t) \<Longrightarrow> count t i = count t' i"
  shows "t = t'"
proof -
  have "rc_counters t = rc_counters t'"
    using assms(2,3) by (auto simp: count_def intro: nth_equalityI)
  then show ?thesis
    using assms(1) by simp
qed

lemma bumped_empty [simp]: "bumped t {} = t"
  by (rule refcount_eqI) (simp_all add: count_bumped)

lemma in_capacity: "wf_refcount t \<Longrightarrow> \<not> b \<ge> rc_capacity t \<Longrightarrow> unat b < length (rc_counters t)"
  by (simp add: wf_refcount_def word_le_nat_alt)

lemma acquire_run:
  assumes "wf_refcount t"
  shows "rc_acquire b t =
    (if b \<ge> rc_capacity t then (Err (InvalidInput ''refcount: block ''), t)
     else if count t (unat b) = MAX_REFCOUNT then (Err (PolicyViolation ''refcount: block ''), t)
     else (Ok (count t (unat b) + 1), t\<lparr>rc_counters := (rc_counters t)[unat b := count t (unat b) + 1]\<rparr>))"
  using in_capacity [OF assms, of b]
  by (auto simp: rc_acquire_def rc_check_index_def cthen_def cbind_def nth_res_def count_def)

lemma release_run:
  assumes "wf_refcount t"
  shows "rc_release b t =
    (if b \<ge> rc_capacity t then (Err (InvalidInput ''refcount: block ''), t)
     else if count t (unat b) = 0 then (Err (State ''refcount: block ''), t)
     else (Ok (count t (unat b) - 1), t\<lparr>rc_counters := (rc_counters t)[unat b := count t (unat b) - 1]\<rparr>))"
  using in_capacity [OF assms, of b]
  by (auto simp: rc_release_def rc_check_index_def cthen_def cbind_def nth_res_def count_def)

text \<open>A block whose counter can be raised.\<close>

definition room :: "refcount_table \<Rightarrow> nat \<Rightarrow> bool" where
  "room t b \<longleftrightarrow> b < length (rc_counters t) \<and> count t b \<noteq> MAX_REFCOUNT"

lemma acquire_bumped:
  assumes "wf_refcount t" "unat b \<notin> S" "room t (unat b)"
  shows "rc_acquire b (bumped t S) = (Ok (count t (unat b) + 1), bumped t (insert (unat b) S))"
proof -
  have b: "unat b < length (rc_counters t)" "\<not> b \<ge> rc_capacity t" "count t (unat b) \<noteq> MAX_REFCOUNT"
    using assms(1,3) by (simp_all add: room_def wf_refcount_def word_le_nat_alt)
  have "bumped t (insert (unat b) S)
      = (bumped t S)\<lparr>rc_counters := (rc_counters (bumped t S))[unat b := count t (unat b) + 1]\<rparr>"
    using b(1) by (intro refcount_eqI) (auto simp: count_bumped count_update)
  then show ?thesis
    using assms b by (simp add: acquire_run count_bumped)
qed

lemma acquire_refused:
  assumes "wf_refcount t" "unat b \<notin> S" "\<not> room t (unat b)"
  shows "\<exists>e. rc_acquire b (bumped t S) = (Err e, bumped t S)"
  using assms by (auto simp: acquire_run room_def count_bumped in_capacity)

lemma MAX_REFCOUNT_plus: "(c :: u16) \<noteq> MAX_REFCOUNT \<Longrightarrow> c + 1 \<noteq> 0"
  by (metis MAX_REFCOUNT_def add_eq_0_iff2)

lemma release_bumped:
  assumes "wf_refcount t" "unat b \<notin> S" "room t (unat b)"
  shows "rc_release b (bumped t (insert (unat b) S)) = (Ok (count t (unat b)), bumped t S)"
proof -
  have b: "unat b < length (rc_counters t)" "\<not> b \<ge> rc_capacity t" "count t (unat b) + 1 \<noteq> 0"
    using assms(1,3) MAX_REFCOUNT_plus by (simp_all add: room_def wf_refcount_def word_le_nat_alt)
  have "bumped t S
      = (bumped t (insert (unat b) S))\<lparr>rc_counters := (rc_counters (bumped t (insert (unat b) S)))[unat b := count t (unat b)]\<rparr>"
    using assms(2) b(1) by (intro refcount_eqI) (auto simp: count_bumped count_update)
  then show ?thesis
    using assms b by (simp add: release_run count_bumped)
qed

section \<open>Extents\<close>

definition extent_range :: "extent \<Rightarrow> nat set" where
  "extent_range e = {unat (ext_physical_block e)..<unat (ext_physical_block e) + unat (ext_length_blocks e)}"

definition acquire_step :: "u64 \<Rightarrow> u64 \<Rightarrow> (refcount_table, unit) cmd" where
  "acquire_step phys i =
     cbind (clift (uadd phys i)) (\<lambda>b t.
         case rc_acquire b t of
           (Ok _, t') \<Rightarrow> (Ok (), t')
         | (Panic, t') \<Rightarrow> (Panic, t')
         | (Err e, t') \<Rightarrow>
             cthen (cfor (\<lambda>j. cbind (clift (uadd phys j)) (\<lambda>b. cignore (rc_release b))) (range64 0 i)) (cfail e) t')"

lemma word_plus_nat:
  assumes "unat (p :: u64) + k < 2 ^ 64"
  shows "uadd p (of_nat k) = Ok (p + of_nat k)" "unat (p + of_nat k) = unat p + k" "unat (of_nat k :: u64) = k"
proof -
  show k: "unat (of_nat k :: u64) = k"
    using assms by (intro unat_of_nat_ok) simp
  then show "uadd p (of_nat k) = Ok (p + of_nat k)" "unat (p + of_nat k) = unat p + k"
    using assms unat_add_ok [of p "of_nat k"] by (simp_all add: uadd_def)
qed

lemma rollback_run:
  assumes "wf_refcount t" "unat p + n < 2 ^ 64" "\<And>b. unat p \<le> b \<Longrightarrow> b < unat p + n \<Longrightarrow> room t b"
  shows "cfor (\<lambda>j. cbind (clift (uadd p j)) (\<lambda>b. cignore (rc_release b))) (map of_nat [k..<n]) (bumped t {unat p + k..<unat p + n})
    = (Ok (), t)"
  using assms
proof (induction "n - k" arbitrary: k)
  case 0
  then show ?case by simp
next
  case (Suc m)
  then have k: "k < n" "[k..<n] = k # [Suc k..<n]" "m = n - Suc k"
    by (simp_all add: upt_conv_Cons)
  note w = word_plus_nat [of p k]
  have lt: "unat p + k < 2 ^ 64"
    using Suc.prems(2) k(1) by simp
  have S: "{unat p + k..<unat p + n} = insert (unat p + k) {unat p + Suc k..<unat p + n}"
    using k(1) by auto
  have "rc_release (p + of_nat k) (bumped t {unat p + k..<unat p + n})
      = (Ok (count t (unat p + k)), bumped t {unat p + Suc k..<unat p + n})"
    unfolding S using release_bumped [OF assms(1), of "p + of_nat k" "{unat p + Suc k..<unat p + n}"]
      w [OF lt] Suc.prems(3) [of "unat p + k"] k(1) by simp
  then have "cbind (clift (uadd p (of_nat k))) (\<lambda>b. cignore (rc_release b)) (bumped t {unat p + k..<unat p + n})
      = (Ok (), bumped t {unat p + Suc k..<unat p + n})"
    using w [OF lt] by (simp add: cbind_run(1) [where m = "clift _"] cignore_def)
  then show ?case
    unfolding k(2) list.map cfor.simps
    using Suc.hyps(1) [OF k(3) Suc.prems] by (simp add: cthen_run(1) [where m = "cbind _ _"] del: upt_Suc)
qed

lemma acquire_steps:
  assumes "wf_refcount t" "unat p + n < 2 ^ 64" "k \<le> n"
    and "\<And>b. unat p \<le> b \<Longrightarrow> b < unat p + k \<Longrightarrow> room t b"
  shows "if \<forall>b. unat p \<le> b \<longrightarrow> b < unat p + n \<longrightarrow> room t b
    then cfor (acquire_step p) (map of_nat [k..<n]) (bumped t {unat p..<unat p + k}) = (Ok (), bumped t {unat p..<unat p + n})
    else \<exists>e. cfor (acquire_step p) (map of_nat [k..<n]) (bumped t {unat p..<unat p + k}) = (Err e, t)"
  using assms(3,4)
proof (induction "n - k" arbitrary: k)
  case 0
  then show ?case by simp
next
  case (Suc m)
  then have k: "k < n" "[k..<n] = k # [Suc k..<n]" "m = n - Suc k" "Suc k \<le> n"
    by (simp_all add: upt_conv_Cons)
  let ?S = "{unat p..<unat p + k}" and ?b = "p + of_nat k :: u64"
  have w: "uadd p (of_nat k) = Ok ?b" "unat ?b = unat p + k" "unat (of_nat k :: u64) = k"
    using word_plus_nat [of p k] assms(2) k(1) by simp_all
  show ?case
  proof (cases "room t (unat p + k)")
    case True
    have S: "insert (unat p + k) ?S = {unat p..<unat p + Suc k}"
      by auto
    have "rc_acquire ?b (bumped t ?S) = (Ok (count t (unat p + k) + 1), bumped t {unat p..<unat p + Suc k})"
      using acquire_bumped [OF assms(1), of ?b ?S] True w(2) S by simp
    then have "acquire_step p (of_nat k) (bumped t ?S) = (Ok (), bumped t {unat p..<unat p + Suc k})"
      using w(1) by (simp add: acquire_step_def cbind_run(1) [where m = "clift _"])
    moreover have "\<And>b. unat p \<le> b \<Longrightarrow> b < unat p + Suc k \<Longrightarrow> room t b"
      using Suc.prems(2) True less_Suc_eq by (metis add_Suc_right)
    ultimately show ?thesis
      unfolding k(2) list.map cfor.simps
      using Suc.hyps(1) [OF k(3,4)] by (simp add: cthen_run(1) [where m = "acquire_step _ _"] del: upt_Suc add_Suc_right)
  next
    case False
    then obtain e where "rc_acquire ?b (bumped t ?S) = (Err e, bumped t ?S)"
      using acquire_refused [OF assms(1), of ?b ?S] w(2) by auto
    moreover have "cfor (\<lambda>j. cbind (clift (uadd p j)) (\<lambda>b. cignore (rc_release b))) (range64 0 (of_nat k)) (bumped t ?S) = (Ok (), t)"
      using rollback_run [OF assms(1), of p k 0] assms(2) k(1) Suc.prems(2) w(3) by (simp add: range64_def)
    ultimately have "acquire_step p (of_nat k) (bumped t ?S) = (Err e, t)"
      using w(1) by (simp add: acquire_step_def cbind_run(1) [where m = "clift _"] cthen_run(1) [where m = "cfor _ _"])
    moreover have "\<not> (\<forall>b. unat p \<le> b \<longrightarrow> b < unat p + n \<longrightarrow> room t b)"
      using False k(1) by (auto intro!: exI [of _ "unat p + k"])
    ultimately show ?thesis
      unfolding k(2) list.map cfor.simps by (simp add: cthen_run(2) [where m = "acquire_step _ _"] del: upt_Suc)
  qed
qed

lemma acquire_extent_eq:
  "rc_acquire_extent e = cfor (acquire_step (ext_physical_block e)) (map of_nat [0..<unat (ext_length_blocks e)])"
  by (simp add: rc_acquire_extent_def acquire_step_def [abs_def] range64_def unat_ucast_u32)

definition bounded_extent :: "extent \<Rightarrow> bool" where
  "bounded_extent e \<longleftrightarrow> unat (ext_physical_block e) + unat (ext_length_blocks e) < 2 ^ 64"

lemma acquire_extent_spec:
  assumes "wf_refcount t" "bounded_extent e"
  shows "if \<forall>b \<in> extent_range e. room t b then rc_acquire_extent e t = (Ok (), bumped t (extent_range e))
    else \<exists>err. rc_acquire_extent e t = (Err err, t)"
  using acquire_steps [OF assms(1), of "ext_physical_block e" "unat (ext_length_blocks e)" 0] assms(2)
  by (auto simp: acquire_extent_eq extent_range_def bounded_extent_def split: if_splits)

text \<open>The table with the counters of the blocks in \<open>S\<close> lowered by one.\<close>

definition lowered :: "refcount_table \<Rightarrow> nat set \<Rightarrow> refcount_table" where
  "lowered t S = t\<lparr>rc_counters := map (\<lambda>i. if i \<in> S then count t i - 1 else count t i) [0..<length (rc_counters t)]\<rparr>"

lemma lowered_sel [simp]:
  "length (rc_counters (lowered t S)) = length (rc_counters t)" "rc_capacity (lowered t S) = rc_capacity t"
  "wf_refcount (lowered t S) = wf_refcount t"
  by (simp_all add: lowered_def wf_refcount_def)

lemma count_lowered: "i < length (rc_counters t) \<Longrightarrow> count (lowered t S) i = (if i \<in> S then count t i - 1 else count t i)"
  by (simp add: lowered_def count_def)

lemma lowered_empty [simp]: "lowered t {} = t"
  by (rule refcount_eqI) (simp_all add: count_lowered)

lemma lowered_bumped: "lowered (bumped t S) S = t"
  by (rule refcount_eqI) (simp_all add: count_lowered count_bumped)

definition live_block :: "refcount_table \<Rightarrow> nat \<Rightarrow> bool" where
  "live_block t b \<longleftrightarrow> b < length (rc_counters t) \<and> count t b \<noteq> 0"

lemma release_lowered:
  assumes "wf_refcount t" "unat b \<notin> S" "live_block t (unat b)"
  shows "rc_release b (lowered t S) = (Ok (count t (unat b) - 1), lowered t (insert (unat b) S))"
proof -
  have b: "unat b < length (rc_counters t)" "\<not> b \<ge> rc_capacity t" "count t (unat b) \<noteq> 0"
    using assms(1,3) by (simp_all add: live_block_def wf_refcount_def word_le_nat_alt)
  have "lowered t (insert (unat b) S)
      = (lowered t S)\<lparr>rc_counters := (rc_counters (lowered t S))[unat b := count t (unat b) - 1]\<rparr>"
    using b(1) by (intro refcount_eqI) (auto simp: count_lowered count_update)
  then show ?thesis
    using assms b by (simp add: release_run count_lowered)
qed

lemma release_refused:
  assumes "wf_refcount t" "unat b \<notin> S" "\<not> live_block t (unat b)"
  shows "\<exists>e. rc_release b (lowered t S) = (Err e, lowered t S)"
  using assms by (auto simp: release_run live_block_def count_lowered in_capacity)

lemma all_from:
  fixes p :: nat
  assumes "k < n"
  shows "(\<forall>b. p + k \<le> b \<longrightarrow> b < p + n \<longrightarrow> P b)
    \<longleftrightarrow> P (p + k) \<and> (\<forall>b. p + Suc k \<le> b \<longrightarrow> b < p + n \<longrightarrow> P b)"
proof (intro iffI conjI allI impI)
  fix b
  assume "P (p + k) \<and> (\<forall>b. p + Suc k \<le> b \<longrightarrow> b < p + n \<longrightarrow> P b)" "p + k \<le> b" "b < p + n"
  then show "P b"
    by (cases "b = p + k") simp_all
qed (use assms in simp_all)

lemma release_steps:
  assumes "wf_refcount t" "unat p + n < 2 ^ 64" "k \<le> n"
  shows "if \<forall>b. unat p + k \<le> b \<longrightarrow> b < unat p + n \<longrightarrow> live_block t b
    then release_loop p (map of_nat [k..<n]) freed (lowered t {unat p..<unat p + k})
      = (Ok (freed @ map of_nat (filter (\<lambda>b. count t b = 1) [unat p + k..<unat p + n])), lowered t {unat p..<unat p + n})
    else \<exists>e m. k \<le> m \<and> m < n \<and> release_loop p (map of_nat [k..<n]) freed (lowered t {unat p..<unat p + k})
      = (Err e, lowered t {unat p..<unat p + m})"
  using assms(3)
proof (induction "n - k" arbitrary: k freed)
  case 0
  then show ?case by simp
next
  case (Suc m)
  then have k: "k < n" "[k..<n] = k # [Suc k..<n]" "m = n - Suc k" "Suc k \<le> n"
    by (simp_all add: upt_conv_Cons)
  let ?S = "{unat p..<unat p + k}" and ?b = "p + of_nat k :: u64"
  have w: "uadd p (of_nat k) = Ok ?b" "unat ?b = unat p + k" "unat (of_nat k :: u64) = k"
    using word_plus_nat [of p k] assms(2) k(1) by simp_all
  show ?case
  proof (cases "live_block t (unat p + k)")
    case True
    let ?new = "count t (unat p + k) - 1"
    let ?freed = "if ?new = 0 then freed @ [?b] else freed"
    have S: "insert (unat p + k) ?S = {unat p..<unat p + Suc k}"
      by auto
    have "rc_release ?b (lowered t ?S) = (Ok ?new, lowered t {unat p..<unat p + Suc k})"
      using release_lowered [OF assms(1), of ?b ?S] True w(2) S by simp
    then have step: "release_loop p (map of_nat [k..<n]) freed (lowered t ?S)
        = release_loop p (map of_nat [Suc k..<n]) ?freed (lowered t {unat p..<unat p + Suc k})"
      unfolding k(2) list.map release_loop.simps using w(1)
      by (simp add: cbind_run(1) [where m = "clift _"] cbind_run(1) [where m = "rc_release _"] del: upt_Suc add_Suc_right)
    have one: "?new = 0 \<longleftrightarrow> count t (unat p + k) = 1"
      by (metis diff_self eq_iff_diff_eq_0)
    have up: "[unat p + k..<unat p + n] = (unat p + k) # [unat p + Suc k..<unat p + n]"
      using k(1) by (simp add: upt_conv_Cons)
    have bw: "of_nat (unat p + k) = ?b"
      by simp
    have all: "(\<forall>b. unat p + k \<le> b \<longrightarrow> b < unat p + n \<longrightarrow> live_block t b)
        \<longleftrightarrow> (\<forall>b. unat p + Suc k \<le> b \<longrightarrow> b < unat p + n \<longrightarrow> live_block t b)"
      using True all_from [OF k(1)] by simp
    show ?thesis
    proof (cases "\<forall>b. unat p + Suc k \<le> b \<longrightarrow> b < unat p + n \<longrightarrow> live_block t b")
      case True
      then show ?thesis
        using Suc.hyps(1) [OF k(3,4), of ?freed] unfolding step all up
        by (simp add: one bw del: upt_Suc add_Suc_right of_nat_add)
    next
      case False
      then show ?thesis
        using Suc.hyps(1) [OF k(3,4), of ?freed] Suc_leD unfolding step all if_not_P [OF False] by blast
    qed
  next
    case False
    then obtain e where "rc_release ?b (lowered t ?S) = (Err e, lowered t ?S)"
      using release_refused [OF assms(1), of ?b ?S] w(2) by auto
    then have "release_loop p (map of_nat [k..<n]) freed (lowered t ?S) = (Err e, lowered t ?S)"
      unfolding k(2) list.map release_loop.simps using w(1)
      by (simp add: cbind_run(1) [where m = "clift _"] cbind_run(2) [where m = "rc_release _"] del: upt_Suc)
    moreover have "\<not> (\<forall>b. unat p + k \<le> b \<longrightarrow> b < unat p + n \<longrightarrow> live_block t b)"
      using False k(1) by (auto intro!: exI [of _ "unat p + k"])
    ultimately show ?thesis
      using k(1) by (auto intro!: exI [of _ e] exI [of _ k])
  qed
qed

definition freed_blocks :: "refcount_table \<Rightarrow> extent \<Rightarrow> u64 list" where
  "freed_blocks t e = map of_nat (filter (\<lambda>b. count t b = 1)
     [unat (ext_physical_block e)..<unat (ext_physical_block e) + unat (ext_length_blocks e)])"

lemma release_extent_spec:
  assumes "wf_refcount t" "bounded_extent e"
  shows "if \<forall>b \<in> extent_range e. live_block t b
    then rc_release_extent e t = (Ok (freed_blocks t e), lowered t (extent_range e))
    else \<exists>err m. m < unat (ext_length_blocks e)
      \<and> rc_release_extent e t = (Err err, lowered t {unat (ext_physical_block e)..<unat (ext_physical_block e) + m})"
proof -
  have "rc_release_extent e = release_loop (ext_physical_block e) (map of_nat [0..<unat (ext_length_blocks e)]) []"
    by (simp add: rc_release_extent_def range64_def unat_ucast_u32)
  then show ?thesis
    using release_steps [OF assms(1), of "ext_physical_block e" "unat (ext_length_blocks e)" 0 "[]"] assms(2)
    by (auto simp: extent_range_def bounded_extent_def freed_blocks_def split: if_splits)
qed

section \<open>Round trip of the encoding\<close>

lemma chunks_Cons: "xs \<noteq> [] \<Longrightarrow> 0 < n \<Longrightarrow> chunks n xs = take n xs # chunks n (drop n xs)"
  by (simp add: chunks.simps [of n xs])

lemma chunks_Nil [simp]: "chunks n [] = []"
  by (simp add: chunks.simps)

lemma chunks_length: "c \<in> set (chunks n xs) \<Longrightarrow> length c \<le> n"
proof (induction n xs rule: chunks.induct)
  case (1 n xs)
  show ?case
  proof (cases "xs = [] \<or> n = 0")
    case True
    then show ?thesis
      using "1.prems" by (auto simp: chunks.simps [of n xs])
  next
    case False
    then have "c = take n xs \<or> c \<in> set (chunks n (drop n xs))"
      using "1.prems" by (simp add: chunks_Cons)
    then show ?thesis
      using "1.IH" False by auto
  qed
qed

lemma div_round_up: "0 < n \<Longrightarrow> 0 < m \<Longrightarrow> (m + n - 1) div n = Suc ((m - n + n - 1) div n)" for m n :: nat
proof (cases "n \<le> m")
  case True
  assume "0 < n" "0 < m"
  moreover have "m + n - 1 = (m - 1) + n" "m - n + n - 1 = m - 1"
    using True \<open>0 < m\<close> by simp_all
  ultimately show ?thesis
    by (simp only: div_add_self2)
next
  case False
  assume n: "0 < n" "0 < m"
  have "m + n - 1 = (m - 1) + n" "(m - 1) div n = 0" "(m - n + n - 1) div n = 0"
    using False n by simp_all
  then show ?thesis
    using n by (simp only: div_add_self2)
qed

lemma length_chunks: "0 < n \<Longrightarrow> length (chunks n xs) = (length xs + n - 1) div n"
proof (induction n xs rule: chunks.induct)
  case (1 n xs)
  show ?case
  proof (cases "xs = []")
    case False
    have "length (chunks n xs) = Suc (length (chunks n (drop n xs)))"
      using False "1.prems" by (simp add: chunks_Cons)
    also have "\<dots> = Suc ((length xs - n + n - 1) div n)"
      using "1.IH" False "1.prems" by (metis gr_implies_not0 length_drop)
    also have "\<dots> = (length xs + n - 1) div n"
      using False "1.prems" by (intro div_round_up [symmetric]) simp_all
    finally show ?thesis .
  qed (use "1.prems" in simp)
qed

lemma rc_blocks_needed_eq: "rc_blocks_needed c = (unat c + 2043) div 2044"
  using ceil_nat [of 2044 "unat c"] by (simp add: rc_blocks_needed_def Let_def)

lemma length_put_counters: "length chunk \<le> 2044 \<Longrightarrow>
   put_seq (le_bytes 2) 2 0 chunk (zeros 4096) = put 0 (concat (map (le_bytes 2) chunk)) (zeros 4096)"
  for chunk :: "u16 list"
  by (intro put_seq_concat) simp_all

lemma length_counter_bytes: "length (concat (map (le_bytes 2) chunk)) = 2 * length chunk" for chunk :: "u16 list"
  by (rule length_concat_map) simp

lemma encode_chunk_props:
  assumes "length chunk \<le> 2044"
  shows "length (rc_encode_chunk chunk) = 4096"
    and "crc_stored 4092 (rc_encode_chunk chunk) = crc_expected 4092 (rc_encode_chunk chunk)"
    and "get_seq from_le 2 0 (length chunk) (rc_encode_chunk chunk) = chunk"
proof -
  let ?b = "put 0 (concat (map (le_bytes 2) chunk)) (zeros 4096)"
  have n: "2 * length chunk \<le> 4092"
    using assms by simp
  have len: "length ?b = 4096"
    using n by (simp add: length_counter_bytes)
  have e: "rc_encode_chunk chunk = crc_seal 4092 ?b"
    using assms by (simp add: rc_encode_chunk_def length_put_counters)
  then show "length (rc_encode_chunk chunk) = 4096"
    using len by simp
  have "cut 4092 4 ?b = zeros 4"
    using n by (simp add: length_counter_bytes)
  then show "crc_stored 4092 (rc_encode_chunk chunk) = crc_expected 4092 (rc_encode_chunk chunk)"
    using len by (simp add: e)
  have "cut 0 (2 * length chunk) (rc_encode_chunk chunk) = concat (map (le_bytes 2) chunk)"
    using n len by (simp add: e length_counter_bytes)
  then show "get_seq from_le 2 0 (length chunk) (rc_encode_chunk chunk) = chunk"
    by (intro get_seq_of_cut [of "le_bytes 2"]) simp_all
qed

lemma length_encode_chunks:
  "\<forall>c \<in> set cs. length c \<le> 2044 \<Longrightarrow> length (concat (map rc_encode_chunk cs)) = 4096 * length cs"
  by (induction cs) (simp_all add: encode_chunk_props(1))

lemma decode_loop_concat:
  assumes "length pre = idx * 4096"
  shows "rc_decode_loop (pre @ concat (map rc_encode_chunk (chunks 2044 xs))) idx (length (chunks 2044 xs)) (length xs) acc
    = Ok (acc @ xs)"
  using assms
proof (induction "2044 :: nat" xs arbitrary: pre idx acc rule: chunks.induct)
  case (1 xs)
  show ?case
  proof (cases "xs = []")
    case False
    let ?c = "take 2044 xs" and ?rest = "concat (map rc_encode_chunk (chunks 2044 (drop 2044 xs)))"
    have ch: "chunks 2044 xs = ?c # chunks 2044 (drop 2044 xs)"
      using False by (intro chunks_Cons) simp_all
    have l: "length ?c \<le> 2044" by simp
    note p = encode_chunk_props [OF l]
    have blk: "cut (idx * 4096) 4096 (pre @ rc_encode_chunk ?c @ ?rest) = rc_encode_chunk ?c"
      using "1.prems" p(1) by (simp add: cut_append_skip cut_append_take)
    have step: "rc_decode_loop (pre @ rc_encode_chunk ?c @ ?rest) idx (Suc n) (length xs) acc
        = rc_decode_loop (pre @ rc_encode_chunk ?c @ ?rest) (idx + 1) n (length (drop 2044 xs)) (acc @ ?c)" for n
    proof -
      have "min (length xs) 2044 = length ?c" "length xs - length ?c = length (drop 2044 xs)"
        by simp_all
      then show ?thesis
        using p(2,3) by (simp only: rc_decode_loop.simps refcount_sizes const_values blk Let_def simp_thms if_False)
    qed
    have ih: "rc_decode_loop ((pre @ rc_encode_chunk ?c) @ ?rest) (idx + 1) (length (chunks 2044 (drop 2044 xs)))
        (length (drop 2044 xs)) (acc @ ?c) = Ok ((acc @ ?c) @ drop 2044 xs)"
      using False "1.prems" p(1) by (intro "1.hyps") simp_all
    show ?thesis
      using ih step by (simp only: ch list.map concat.simps list.size append_assoc append_take_drop_id add_Suc_right add_0_right)
  qed simp
qed

lemma rc_roundtrip:
  assumes "wf_refcount t"
  shows "length (rc_encode t) = rc_blocks_needed (rc_capacity t) * 4096" "rc_decode (rc_encode t) (rc_capacity t) = Ok t"
proof -
  let ?cs = "chunks 2044 (rc_counters t)" and ?n = "rc_blocks_needed (rc_capacity t)"
  have n: "length ?cs = ?n"
    using assms by (simp add: length_chunks rc_blocks_needed_eq wf_refcount_def)
  have l: "length (concat (map rc_encode_chunk ?cs)) = ?n * 4096"
    using n chunks_length [of _ 2044 "rc_counters t"] by (subst length_encode_chunks) auto
  have e: "rc_encode t = concat (map rc_encode_chunk ?cs)"
    using puts_place [of 0 "map rc_encode_chunk ?cs" "zeros (?n * 4096)"] l by (simp add: rc_encode_def put_def)
  show "length (rc_encode t) = ?n * 4096"
    using l e by simp
  have "rc_decode_loop (rc_encode t) 0 ?n (length (rc_counters t)) [] = Ok (rc_counters t)"
    using decode_loop_concat [of "[]" 0 "rc_counters t" "[]"] n e by simp
  then show "rc_decode (rc_encode t) (rc_capacity t) = Ok t"
    using assms l e by (simp add: rc_decode_def wf_refcount_def)
qed

section \<open>Sharing\<close>

definition exclusive :: "refcount_table \<Rightarrow> nat \<Rightarrow> bool" where
  "exclusive t b \<longleftrightarrow> b < length (rc_counters t) \<and> count t b = 1"

lemma get_exclusive:
  "wf_refcount t \<Longrightarrow> \<exists>c. rc_get t b = Ok c \<and> (c = 1 \<longleftrightarrow> exclusive t (unat b))"
  by (auto simp: rc_get_def exclusive_def nth_res_def count_def wf_refcount_def word_le_nat_alt)

lemma all_exclusive_run:
  assumes "wf_refcount t" "unat p + n < 2 ^ 64" "k \<le> n"
  shows "all_exclusive p (map of_nat [k..<n]) t = Ok (\<forall>b. unat p + k \<le> b \<longrightarrow> b < unat p + n \<longrightarrow> exclusive t b)"
  using assms(3)
proof (induction "n - k" arbitrary: k)
  case 0
  then show ?case by simp
next
  case (Suc m)
  then have k: "k < n" "[k..<n] = k # [Suc k..<n]" "m = n - Suc k" "Suc k \<le> n"
    by (simp_all add: upt_conv_Cons)
  let ?b = "p + of_nat k :: u64"
  have w: "uadd p (of_nat k) = Ok ?b" "unat ?b = unat p + k"
    using word_plus_nat [of p k] assms(2) k(1) by simp_all
  obtain c where c: "rc_get t ?b = Ok c" "c = 1 \<longleftrightarrow> exclusive t (unat p + k)"
    using get_exclusive [OF assms(1), of ?b] w(2) by auto
  show ?case
    using Suc.hyps(1) [OF k(3,4)] c w(1) unfolding k(2) all_from [OF k(1)] by (simp del: upt_Suc add_Suc_right)
qed

lemma cow_write_cases:
  assumes "wf_refcount t" "bounded_extent e"
  shows "bs_cow_write e t =
    (if \<forall>b \<in> extent_range e. exclusive t b then (Ok InPlace, t)
     else cbind (rc_release_extent e) (\<lambda>freed. cret (MustCopy freed)) t)"
proof -
  have "all_exclusive (ext_physical_block e) (range64 0 (ucast (ext_length_blocks e))) t
      = Ok (\<forall>b \<in> extent_range e. exclusive t b)"
    using all_exclusive_run [OF assms(1), of "ext_physical_block e" "unat (ext_length_blocks e)" 0] assms(2)
    by (simp add: range64_def unat_ucast_u32 bounded_extent_def extent_range_def Ball_def imp_conjL)
  then show ?thesis
    by (simp add: bs_cow_write_def cbind_run(1) [where m = "cread _"])
qed

text \<open>
  C32: Acquiring a reference on every block of an extent is all or nothing: when each counter has
  room, every counter of the extent is one higher and no other changes; otherwise the call fails and
  the rollback leaves the table as it was.
\<close>

theorem acquire_extent_all_or_nothing:
  assumes "wf_refcount t" "bounded_extent e"
  shows "if \<forall>b \<in> extent_range e. room t b then rc_acquire_extent e t = (Ok (), bumped t (extent_range e))
    else \<exists>err. rc_acquire_extent e t = (Err err, t)"
  using acquire_extent_spec [OF assms] .

text \<open>
  Dropping an extent lowers exactly the counters of its blocks and reports, in order, exactly
  the blocks whose last reference went away.  When some block has no reference the call fails, and
  the counters of the blocks before it stay lowered: unlike acquiring, releasing is not rolled back.
\<close>

theorem release_extent_frees_last_references:
  assumes "wf_refcount t" "bounded_extent e"
  shows "if \<forall>b \<in> extent_range e. live_block t b
    then rc_release_extent e t = (Ok (freed_blocks t e), lowered t (extent_range e))
    else \<exists>err m. m < unat (ext_length_blocks e)
      \<and> rc_release_extent e t = (Err err, lowered t {unat (ext_physical_block e)..<unat (ext_physical_block e) + m})"
  using release_extent_spec [OF assms] .

text \<open>
  A write is done in place exactly when every block of the extent has one owner, and then
  the table does not change.
\<close>

theorem cow_write_in_place_iff_exclusive:
  assumes "wf_refcount t" "bounded_extent e"
  shows "bs_cow_write e t = (Ok InPlace, t') \<longleftrightarrow> t' = t \<and> (\<forall>b \<in> extent_range e. exclusive t b)"
  unfolding cow_write_cases [OF assms]
  by (cases "rc_release_extent e t"; cases "fst (rc_release_extent e t)") (auto simp: cbind_def)

lemma live_next: "live_block t b \<Longrightarrow> room t b \<Longrightarrow> count t b + 1 \<noteq> 0 \<and> count t b + 1 \<noteq> 1"
  by (auto simp: live_block_def room_def MAX_REFCOUNT_def eq_neg_iff_add_eq_0)

text \<open>
  C31: After an extent is cloned, the next write by either owner must copy: it frees no block (the
  other owner keeps them all) and brings every counter back to what it was before the clone.
\<close>

theorem write_after_clone_copies:
  assumes "wf_refcount t" "bounded_extent e" "ext_length_blocks e \<noteq> 0"
    and "\<forall>b \<in> extent_range e. live_block t b \<and> room t b"
  shows "cthen (bs_clone_extent e) (bs_cow_write e) t = (Ok (MustCopy []), t)"
proof -
  let ?t = "bumped t (extent_range e)"
  have clone: "bs_clone_extent e t = (Ok (), ?t)"
    using acquire_extent_spec [OF assms(1,2)] assms(4) by (simp add: bs_clone_extent_def)
  have c: "live_block ?t b \<and> count ?t b \<noteq> 1" if "b \<in> extent_range e" for b
    using that assms(4) live_next [of t b] by (auto simp: live_block_def count_bumped)
  have "unat (ext_physical_block e) \<in> extent_range e"
    using assms(3) by (simp add: extent_range_def unat_gt_0)
  then have ne: "\<not> (\<forall>b \<in> extent_range e. exclusive ?t b)"
    using c by (auto simp: exclusive_def)
  have "freed_blocks ?t e = []"
    using c by (simp add: freed_blocks_def filter_empty_conv extent_range_def)
  then have "rc_release_extent e ?t = (Ok [], t)"
    using release_extent_spec [of ?t e] assms(1,2) c by (simp add: lowered_bumped)
  then have "bs_cow_write e ?t = (Ok (MustCopy []), t)"
    using assms(1,2) by (simp add: cow_write_cases if_not_P [OF ne] cbind_run(1) [where m = "rc_release_extent _"] del: if_not_P)
  then show ?thesis
    by (simp add: cthen_run(1) [where m = "bs_clone_extent _", OF clone])
qed

text \<open>
  Encoding a table gives whole blocks, one for each 2044 counters, and decoding them gives the table
  back.
\<close>

theorem refcount_encode_decode:
  assumes "wf_refcount t"
  shows "length (rc_encode t) = rc_blocks_needed (rc_capacity t) * 4096 \<and> rc_decode (rc_encode t) (rc_capacity t) = Ok t"
  using rc_roundtrip [OF assms] by simp

section \<open>A concrete table\<close>

definition demo_table :: refcount_table where
  "demo_table = \<lparr>rc_counters = [1, 2, 0, 1], rc_capacity = 4\<rparr>"

definition demo_extent :: "u32 \<Rightarrow> extent" where
  "demo_extent n = \<lparr>ext_logical_block = 0, ext_length_blocks = n, ext_physical_block = 0\<rparr>"

lemma demo_table_ok:
  "wf_refcount demo_table" "bounded_extent (demo_extent 1)" "bounded_extent (demo_extent 2)" "bounded_extent (demo_extent 3)"
  by (simp_all add: demo_table_def demo_extent_def wf_refcount_def bounded_extent_def)

lemma demo_range: "extent_range (demo_extent 1) = {0}" "extent_range (demo_extent 2) = {0, 1}" "extent_range (demo_extent 3) = {0, 1, 2}"
  by (auto simp: extent_range_def demo_extent_def)

lemma demo_counts: "count demo_table 0 = 1" "count demo_table (Suc 0) = 2" "count demo_table 2 = 0" "length (rc_counters demo_table) = 4"
  by (simp_all add: count_def demo_table_def)

theorem acquire_extent_all_or_nothing_witness:
  "rc_acquire_extent (demo_extent 2) demo_table = (Ok (), bumped demo_table {0, 1})"
  using acquire_extent_all_or_nothing [OF demo_table_ok(1,3)]
  by (simp add: demo_range room_def demo_counts MAX_REFCOUNT_def)

theorem release_extent_frees_last_references_witness:
  "\<exists>err m. m < 3 \<and> rc_release_extent (demo_extent 3) demo_table = (Err err, lowered demo_table {0..<m})"
  using release_extent_frees_last_references [OF demo_table_ok(1,4)]
  by (simp add: demo_range live_block_def demo_counts) (simp add: demo_extent_def)

theorem cow_write_in_place_iff_exclusive_witness:
  "bs_cow_write (demo_extent 1) demo_table = (Ok InPlace, demo_table)"
  using cow_write_in_place_iff_exclusive [OF demo_table_ok(1,2), of demo_table]
  by (simp add: demo_range exclusive_def demo_counts)

theorem write_after_clone_copies_witness:
  "cthen (bs_clone_extent (demo_extent 2)) (bs_cow_write (demo_extent 2)) demo_table = (Ok (MustCopy []), demo_table)"
  using write_after_clone_copies [OF demo_table_ok(1,3)]
  by (simp add: demo_range live_block_def room_def demo_counts MAX_REFCOUNT_def) (simp add: demo_extent_def)

theorem refcount_encode_decode_witness:
  "rc_decode (rc_encode demo_table) 4 = Ok demo_table"
  using refcount_encode_decode [OF demo_table_ok(1)] by (simp add: demo_table_def)

end
