(* ===== verification/Multi_Group.thy ===== *)
theory Multi_Group
  imports Allocator_Spec Block_Group Checksum
begin

text \<open>
  The allocator over block groups, \<open>corefs-core/src/storage/ondisk/multi_group_allocator.rs\<close>: one
  block bitmap for each group of the table and one inode bitmap for all of them.
\<close>

section \<open>State\<close>

record multi_group =
  mg_group_bitmaps :: "bitmap list"
  mg_inode_bitmap :: bitmap
  mg_table :: block_group_table
  mg_inode_hint :: u64
  mg_reserved_inode_floor :: u64

definition mg_new ::
  "block_group_table \<Rightarrow> bitmap list \<Rightarrow> bitmap \<Rightarrow> u64 \<Rightarrow> multi_group result" where
  "mg_new table group_bitmaps inode_bitmap reserved_inode_floor =
    (if length (bt_groups table) \<noteq> length group_bitmaps then Err (InvalidInput ''MultiGroupAllocator: table has '')
     else if \<exists>(g, b) \<in> set (zip (bt_groups table) group_bitmaps). bm_capacity b < bg_data_blocks g
     then Err (InvalidInput ''MultiGroupAllocator: group '')
     else Ok \<lparr>mg_group_bitmaps = group_bitmaps, mg_inode_bitmap = inode_bitmap, mg_table = table,
               mg_inode_hint = reserved_inode_floor, mg_reserved_inode_floor = reserved_inode_floor\<rparr>)"

text \<open>Operations on the bitmap of one group; the index is checked.\<close>

definition on_group :: "nat \<Rightarrow> (bitmap, 'a) cmd \<Rightarrow> (multi_group, 'a) cmd" where
  "on_group g m = (\<lambda>s. case nth_res (mg_group_bitmaps s) g of
     Ok bm \<Rightarrow> (case m bm of (r, bm') \<Rightarrow> (r, s\<lparr>mg_group_bitmaps := (mg_group_bitmaps s)[g := bm']\<rparr>))
   | Err e \<Rightarrow> (Err e, s)
   | Panic \<Rightarrow> (Panic, s))"

section \<open>The search in one group\<close>

text \<open>The inner loop: the first offset whose block is taken (a failing \<open>is_set\<close> counts as taken).\<close>

fun first_busy :: "bitmap \<Rightarrow> u64 \<Rightarrow> u64 list \<Rightarrow> u64 option result" where
  "first_busy bm start [] = Ok None"
| "first_busy bm start (i # is) =
     rbind (uadd start i) (\<lambda>b.
     rbind (unwrap_or (is_set bm b) True) (\<lambda>busy.
       if busy then Ok (Some i) else first_busy bm start is))"

lemma first_busy_mem: "first_busy bm start is = Ok (Some i) \<Longrightarrow> i \<in> set is"
  by (induction "is") (auto simp: result_iff split: if_splits)

text \<open>
  The outer loop.  \<open>start + i + 1\<close> needs no check: it is at most the end \<open>start + cnt\<close> that was just
  added up.
\<close>

function group_scan :: "bitmap \<Rightarrow> u64 \<Rightarrow> u64 \<Rightarrow> u64 \<Rightarrow> u64 option result" where
  "group_scan bm data_blocks cnt start =
    (case uadd start cnt of
       Ok e \<Rightarrow>
         if e \<le> data_blocks then
           (case first_busy bm start (range64 0 cnt) of
              Ok None \<Rightarrow> Ok (Some start)
            | Ok (Some i) \<Rightarrow> group_scan bm data_blocks cnt (start + (i + 1))
            | Err e \<Rightarrow> Err e
            | Panic \<Rightarrow> Panic)
         else Ok None
     | Err e \<Rightarrow> Err e
     | Panic \<Rightarrow> Panic)"
  by pat_completeness auto

lemma scan_step:
  assumes "unat start + unat cnt < 2 ^ 64" "i < (cnt :: u64)"
  shows "unat (start + (i + 1)) = unat start + unat i + 1"
proof -
  have "unat (i + 1) = unat i + 1"
    using inc_gt [OF assms(2)] .
  then show ?thesis
    using assms unat_add_ok [of start "i + 1"] by (simp add: word_less_nat_alt)
qed

termination group_scan
proof (relation "measure (\<lambda>(bm, d, cnt, start). unat d - unat start)", goal_cases)
  case (2 bm d cnt start e r i)
  then have e: "unat start + unat cnt < 2 ^ 64" "e = start + cnt" "e \<le> d"
    by (auto simp: result_iff)
  have i: "i < cnt"
    using 2 first_busy_mem [of bm start "range64 0 cnt" i] by (simp add: set_range64)
  show ?case
    using scan_step [OF e(1) i] e i unat_add_ok [of start cnt]
    by (simp add: word_le_nat_alt word_less_nat_alt)
qed simp

declare group_scan.simps [simp del]

definition try_allocate_in_group :: "nat \<Rightarrow> u64 \<Rightarrow> (multi_group, extent option) cmd" where
  "try_allocate_in_group grp cnt =
     cbind (cread (\<lambda>s. nth_res (bt_groups (mg_table s)) grp)) (\<lambda>g.
     cbind (cread (\<lambda>s. nth_res (mg_group_bitmaps s) grp)) (\<lambda>bm.
     if bm_capacity bm < bg_data_blocks g then cret None
     else
       cbind (clift (group_scan bm (bg_data_blocks g) cnt 0)) (\<lambda>hit.
       case hit of
         None \<Rightarrow> cret None
       | Some start \<Rightarrow>
           cthen (on_group grp (cfor (\<lambda>i. cbind (clift (uadd start i)) (\<lambda>b. cignore (bm_set b))) (range64 0 cnt)))
          (cbind (clift (uadd (bg_data_start g) start)) (\<lambda>p.
             cret (Some \<lparr>ext_logical_block = 0, ext_length_blocks = ucast cnt, ext_physical_block = p\<rparr>))))))"

section \<open>Operations\<close>

fun try_groups :: "nat \<Rightarrow> u64 \<Rightarrow> nat \<Rightarrow> nat list \<Rightarrow> (multi_group, extent option) cmd" where
  "try_groups home cnt group_count [] = cret None"
| "try_groups home cnt group_count (offset # rest) =
     cbind (try_allocate_in_group ((home + offset) mod group_count) cnt) (\<lambda>hit.
     case hit of Some ext \<Rightarrow> cret (Some ext) | None \<Rightarrow> try_groups home cnt group_count rest)"

definition allocate_near :: "u64 \<Rightarrow> u64 \<Rightarrow> (multi_group, extent) cmd" where
  "allocate_near cnt inode_slot =
    (if cnt = 0 then cfail (InvalidInput ''allocator: cannot allocate zero blocks'')
     else
       cbind (cread (\<lambda>s. map_result (\<lambda>h. case h of Some g \<Rightarrow> g | None \<Rightarrow> 0) (group_for_inode (mg_table s) inode_slot))) (\<lambda>home.
       cbind (cread (\<lambda>s. Ok (length (mg_group_bitmaps s)))) (\<lambda>group_count.
       cbind (try_groups home cnt group_count [0..<group_count]) (\<lambda>hit.
       clift (opt_or hit (State ''MultiGroupAllocator: no group can fit ''))))))"

definition mg_free_extent :: "extent \<Rightarrow> (multi_group, unit) cmd" where
  "mg_free_extent ext =
    (if ext_length_blocks ext = 0 then cret ()
     else
       cbind (cread (\<lambda>s. rbind (group_for_block (mg_table s) (ext_physical_block ext)) (\<lambda>h.
                opt_or h (InvalidInput ''free_extent: block '')))) (\<lambda>grp.
       cbind (cread (\<lambda>s. nth_res (bt_groups (mg_table s)) grp)) (\<lambda>g.
       on_group grp (cfor (\<lambda>i.
           cbind (clift (uadd (ext_physical_block ext) i)) (\<lambda>block.
           cbind (clift (usub block (bg_data_start g))) (\<lambda>local.
             cdrop (bm_clear local))))
         (range64 0 (ucast (ext_length_blocks ext)))))))"

definition mg_allocate_inode :: "(multi_group, u64) cmd" where
  "mg_allocate_inode =
     cbind (\<lambda>s. czoom mg_inode_bitmap (\<lambda>b s. s\<lparr>mg_inode_bitmap := b\<rparr>) (allocate_first (mg_inode_hint s)) s) (\<lambda>hit.
     cbind (clift (opt_or hit (State ''MultiGroupAllocator: inode table full''))) (\<lambda>idx.
     cbind (clift (uadd idx 1)) (\<lambda>hint.
     cthen (cmod (\<lambda>s. s\<lparr>mg_inode_hint := hint\<rparr>)) (cret idx))))"

definition group_free :: "block_group_descriptor \<Rightarrow> bitmap \<Rightarrow> u64 result" where
  "group_free g bm = rbind (popcount bm) (usub (bg_data_blocks g))"

definition total_free_data_blocks :: "multi_group \<Rightarrow> u64 result" where
  "total_free_data_blocks s =
     rfor (\<lambda>(bm, g) acc. rbind (group_free g bm) (uadd acc)) (zip (mg_group_bitmaps s) (bt_groups (mg_table s))) 0"

definition free_data_blocks_in :: "multi_group \<Rightarrow> nat \<Rightarrow> u64 result" where
  "free_data_blocks_in s grp =
    (if grp < length (bt_groups (mg_table s)) then
       rbind (nth_res (mg_group_bitmaps s) grp) (group_free (bt_groups (mg_table s) ! grp))
     else Err (InvalidInput ''unknown group ''))"

fun refresh_groups :: "block_group_descriptor list \<Rightarrow> bitmap list \<Rightarrow> block_group_descriptor list result" where
  "refresh_groups (g # gs) (bm # bms) =
     rbind (group_free g bm) (\<lambda>n.
     map_result ((#) (g\<lparr>bg_free_blocks := ucast n, bg_bitmap_crc := crc_hash (bm_bits bm)\<rparr>)) (refresh_groups gs bms))"
| "refresh_groups gs bms = Ok gs"

definition refresh_descriptors :: "(multi_group, unit) cmd" where
  "refresh_descriptors =
     cbind (cread (\<lambda>s. refresh_groups (bt_groups (mg_table s)) (mg_group_bitmaps s))) (\<lambda>gs.
       cmod (\<lambda>s. s\<lparr>mg_table := (mg_table s)\<lparr>bt_groups := gs\<rparr>\<rparr>))"

section \<open>Invariant\<close>

abbreviation group_map :: "multi_group \<Rightarrow> nat \<Rightarrow> bitmap" where
  "group_map s g \<equiv> mg_group_bitmaps s ! g"

abbreviation group_desc :: "multi_group \<Rightarrow> nat \<Rightarrow> block_group_descriptor" where
  "group_desc s g \<equiv> bt_groups (mg_table s) ! g"

abbreviation group_len :: "multi_group \<Rightarrow> nat \<Rightarrow> nat" where
  "group_len s g \<equiv> unat (bg_data_blocks (group_desc s g))"

definition wf_group :: "block_group_descriptor \<Rightarrow> bitmap \<Rightarrow> bool" where
  "wf_group g bm \<longleftrightarrow> wf_bitmap bm \<and> bg_data_blocks g \<le> bm_capacity bm \<and> used bm \<subseteq> {..<unat (bg_data_blocks g)}
     \<and> group_end g < 2 ^ 63"

definition wf_groups :: "multi_group \<Rightarrow> bool" where
  "wf_groups s \<longleftrightarrow> list_all2 wf_group (bt_groups (mg_table s)) (mg_group_bitmaps s)
     \<and> sorted_wrt disjoint_groups (bt_groups (mg_table s))"

lemma wf_groups_nth:
  "wf_groups s \<Longrightarrow> g < length (mg_group_bitmaps s) \<Longrightarrow> g < length (bt_groups (mg_table s)) \<and> wf_group (group_desc s g) (group_map s g)"
  by (auto simp: wf_groups_def list_all2_conv_all_nth)

lemma wf_groups_update:
  "wf_groups s \<Longrightarrow> g < length (mg_group_bitmaps s) \<Longrightarrow> wf_group (group_desc s g) bm
   \<Longrightarrow> wf_groups (s\<lparr>mg_group_bitmaps := (mg_group_bitmaps s)[g := bm]\<rparr>)"
  by (auto simp: wf_groups_def list_all2_conv_all_nth nth_list_update)

section \<open>The search\<close>

lemma first_busy_spec:
  assumes "wf_bitmap bm" "unat start + n \<le> unat (bm_capacity bm)" "k \<le> n"
  shows "\<exists>r. first_busy bm start (map of_nat [k..<n]) = Ok r \<and>
    (case r of None \<Rightarrow> free_range (used bm) (unat start + k) (n - k)
     | Some i \<Rightarrow> unat start + unat i \<in> used bm \<and> k \<le> unat i \<and> unat i < n)"
  using assms(3)
proof (induction "n - k" arbitrary: k)
  case (Suc m)
  then have k: "k < n" "[k..<n] = k # [Suc k..<n]" "m = n - Suc k" "Suc k \<le> n"
    by (simp_all add: upt_conv_Cons)
  have mem: "of_nat k \<in> set (map of_nat [0..<n] :: u64 list)"
    using k(1) by simp
  note u = bmap.span_units(1) [OF assms(2) mem]
  have un: "unat (of_nat k :: u64) = k"
    using k(1) assms(2) unat_u64_lt [of "bm_capacity bm"] by (intro unat_of_nat_ok) simp
  then have b: "unat (start + of_nat k) = unat start + k"
    using u unat_add_ok [of start "of_nat k"] by (auto simp: result_iff)
  have set: "is_set bm (start + of_nat k) = Ok (unat start + k \<in> used bm)"
    using is_set_ok [OF assms(1), of "start + of_nat k"] u b by simp
  show ?case
  proof (cases "unat start + k \<in> used bm")
    case True
    then have "first_busy bm start (map of_nat [k..<n]) = Ok (Some (of_nat k))"
      unfolding k(2) list.map first_busy.simps using u set by (simp add: unwrap_or_def)
    then show ?thesis
      using True un k(1) by simp
  next
    case False
    have step: "first_busy bm start (map of_nat [k..<n]) = first_busy bm start (map of_nat [Suc k..<n])"
      unfolding k(2) list.map first_busy.simps using u set False by (simp add: unwrap_or_def)
    obtain r where r: "first_busy bm start (map of_nat [Suc k..<n]) = Ok r"
      "case r of None \<Rightarrow> free_range (used bm) (unat start + Suc k) (n - Suc k)
       | Some i \<Rightarrow> unat start + unat i \<in> used bm \<and> Suc k \<le> unat i \<and> unat i < n"
      using Suc.hyps(1) [OF k(3,4)] by blast
    have "n - k = Suc (n - Suc k)"
      using k(1) by simp
    then show ?thesis
      using r False step by (auto simp: free_range_Suc split: option.splits)
  qed
qed simp

lemma busy_inside: "j \<in> U \<Longrightarrow> s \<le> j \<Longrightarrow> j < s + n \<Longrightarrow> \<not> free_range U s n"
  by (auto simp: free_range_def)

text \<open>The lowest free run of \<open>n\<close> units at or after \<open>m\<close> and below \<open>d\<close>.\<close>

definition lowest_run :: "nat set \<Rightarrow> nat \<Rightarrow> nat \<Rightarrow> nat \<Rightarrow> u64 option \<Rightarrow> bool" where
  "lowest_run U d n m r \<longleftrightarrow> (case r of
     None \<Rightarrow> \<forall>s. m \<le> s \<longrightarrow> s + n \<le> d \<longrightarrow> \<not> free_range U s n
   | Some st \<Rightarrow> m \<le> unat st \<and> unat st + n \<le> d \<and> free_range U (unat st) n
       \<and> (\<forall>s. m \<le> s \<longrightarrow> s < unat st \<longrightarrow> \<not> free_range U s n))"

lemma lowest_run_skip:
  assumes "lowest_run U d n m' r" "m \<le> m'" "\<And>s. m \<le> s \<Longrightarrow> s < m' \<Longrightarrow> \<not> free_range U s n"
  shows "lowest_run U d n m r"
proof (cases r)
  case None
  then have "\<not> free_range U s n" if "m \<le> s" "s + n \<le> d" for s
    using that assms(1,3) by (cases "s < m'") (simp_all add: lowest_run_def)
  then show ?thesis
    using None by (simp add: lowest_run_def)
next
  case (Some st)
  then have "\<not> free_range U s n" if "m \<le> s" "s < unat st" for s
    using that assms(1,3) by (cases "s < m'") (simp_all add: lowest_run_def)
  then show ?thesis
    using Some assms(1,2) by (simp add: lowest_run_def)
qed

lemma group_scan_spec:
  assumes "wf_bitmap bm" "unat d \<le> unat (bm_capacity bm)" "unat d < 2 ^ 63"
    "unat start + unat cnt < 2 ^ 64" "unat start \<le> unat d"
  shows "\<exists>r. group_scan bm d cnt start = Ok r \<and> lowest_run (used bm) (unat d) (unat cnt) (unat start) r"
  using assms(4-)
proof (induction "unat d - unat start" arbitrary: start rule: less_induct)
  case less
  let ?n = "unat cnt"
  have e: "uadd start cnt = Ok (start + cnt)" "unat (start + cnt) = unat start + ?n"
    using less.prems(1) by (simp_all add: uadd_def unat_add_ok)
  show ?case
  proof (cases "start + cnt \<le> d")
    case False
    then have "group_scan bm d cnt start = Ok None"
      using e by (simp add: group_scan.simps)
    moreover have "unat d < unat start + ?n"
      using False e(2) by (simp add: word_le_nat_alt)
    ultimately show ?thesis
      by (auto simp: lowest_run_def)
  next
    case True
    then have fits: "unat start + ?n \<le> unat d" "start + cnt \<le> d"
      using e(2) by (simp_all add: word_le_nat_alt)
    obtain r where r: "first_busy bm start (range64 0 cnt) = Ok r"
      "case r of None \<Rightarrow> free_range (used bm) (unat start) ?n
       | Some i \<Rightarrow> unat start + unat i \<in> used bm \<and> unat i < ?n"
      using first_busy_spec [OF assms(1), of start ?n 0] fits(1) assms(2)
      by (auto simp: range64_def split: option.splits)
    show ?thesis
    proof (cases r)
      case None
      then have "group_scan bm d cnt start = Ok (Some start)"
        using e(1) fits(2) r(1) by (simp add: group_scan.simps)
      then show ?thesis
        using None r(2) fits(1) by (auto simp: lowest_run_def)
    next
      case (Some i)
      then have i: "unat start + unat i \<in> used bm" "unat i < ?n"
        using r(2) by simp_all
      let ?next = "start + (i + 1)"
      have nx: "unat ?next = unat start + unat i + 1"
        using scan_step [of start cnt i] less.prems(1) i(2) by (simp add: word_less_nat_alt)
      have run: "group_scan bm d cnt start = group_scan bm d cnt ?next"
        using e(1) fits(2) r(1) Some by (subst group_scan.simps) simp
      have "unat d - unat ?next < unat d - unat start"
        using nx i(2) fits(1) by linarith
      then obtain r' where r': "group_scan bm d cnt ?next = Ok r'" "lowest_run (used bm) (unat d) ?n (unat ?next) r'"
        using less.hyps [of ?next] nx i(2) fits(1) assms(3) by auto
      have "\<not> free_range (used bm) s ?n" if "unat start \<le> s" "s < unat ?next" for s
        using that i nx by (intro busy_inside [OF i(1)]) simp_all
      then have "lowest_run (used bm) (unat d) ?n (unat start) r'"
        using nx by (intro lowest_run_skip [OF r'(2)]) simp_all
      then show ?thesis
        using run r'(1) by simp
    qed
  qed
qed

section \<open>Allocation\<close>

text \<open>A group that can hold a run, and the effect of taking the lowest one.\<close>

definition fits :: "multi_group \<Rightarrow> u64 \<Rightarrow> nat \<Rightarrow> bool" where
  "fits s cnt g \<longleftrightarrow> (\<exists>st. st + unat cnt \<le> group_len s g \<and> free_range (used (group_map s g)) st (unat cnt))"

definition took :: "multi_group \<Rightarrow> u64 \<Rightarrow> nat \<Rightarrow> extent \<Rightarrow> multi_group \<Rightarrow> bool" where
  "took s cnt g e s' \<longleftrightarrow> (\<exists>st bm'.
     e = \<lparr>ext_logical_block = 0, ext_length_blocks = ucast cnt, ext_physical_block = bg_data_start (group_desc s g) + st\<rparr>
     \<and> unat (ext_physical_block e) = unat (bg_data_start (group_desc s g)) + unat st
     \<and> unat st + unat cnt \<le> group_len s g \<and> free_range (used (group_map s g)) (unat st) (unat cnt)
     \<and> s' = s\<lparr>mg_group_bitmaps := (mg_group_bitmaps s)[g := bm']\<rparr>
     \<and> used bm' = used (group_map s g) \<union> {unat st..<unat st + unat cnt} \<and> wf_groups s')"

lemma try_allocate_spec:
  assumes "wf_groups s" "g < length (mg_group_bitmaps s)"
  shows "if fits s cnt g then \<exists>e s'. try_allocate_in_group g cnt s = (Ok (Some e), s') \<and> took s cnt g e s'
    else try_allocate_in_group g cnt s = (Ok None, s)"
proof -
  let ?bm = "group_map s g" and ?d = "group_desc s g"
  have g: "g < length (bt_groups (mg_table s))" "wf_group ?d ?bm"
    using wf_groups_nth [OF assms] by simp_all
  then have bm: "wf_bitmap ?bm" "\<not> bm_capacity ?bm < bg_data_blocks ?d" "unat (bg_data_blocks ?d) \<le> unat (bm_capacity ?bm)"
    "group_end ?d < 2 ^ 63" "unat (bg_data_blocks ?d) < 2 ^ 63" "used ?bm \<subseteq> {..<group_len s g}"
    by (auto simp: wf_group_def word_le_nat_alt word_less_nat_alt group_end_def)
  have z: "unat (0 :: u64) + unat cnt < 2 ^ 64" "unat (0 :: u64) \<le> unat (bg_data_blocks ?d)"
    using unat_u64_lt [of cnt] by simp_all
  obtain r where r: "group_scan ?bm (bg_data_blocks ?d) cnt 0 = Ok r" "lowest_run (used ?bm) (group_len s g) (unat cnt) 0 r"
    using group_scan_spec [OF bm(1,3,5) z] by auto
  have run: "try_allocate_in_group g cnt s = (case r of
         None \<Rightarrow> cret None
       | Some start \<Rightarrow>
           cthen (on_group g (cfor (\<lambda>i. cbind (clift (uadd start i)) (\<lambda>b. cignore (bm_set b))) (range64 0 cnt)))
          (cbind (clift (uadd (bg_data_start ?d) start)) (\<lambda>p.
             cret (Some \<lparr>ext_logical_block = 0, ext_length_blocks = ucast cnt, ext_physical_block = p\<rparr>)))) s"
    using g(1) assms(2) bm(2) r(1)
    by (simp add: try_allocate_in_group_def nth_res_def cbind_run(1) [where m = "cread _"] cbind_run(1) [where m = "clift _"])
  show ?thesis
  proof (cases r)
    case None
    then show ?thesis
      using r(2) run by (auto simp: fits_def lowest_run_def)
  next
    case (Some st)
    then have st: "unat st + unat cnt \<le> group_len s g" "free_range (used ?bm) (unat st) (unat cnt)"
      using r(2) by (simp_all add: lowest_run_def)
    then have "fits s cnt g"
      by (auto simp: fits_def)
    moreover obtain bm' where bm': "cfor (\<lambda>i. cbind (clift (uadd st i)) (\<lambda>b. cignore (bm_set b))) (range64 0 cnt) ?bm = (Ok (), bm')"
      "used bm' = used ?bm \<union> {unat st..<unat st + unat cnt}" "wf_bitmap bm'" "bm_capacity bm' = bm_capacity ?bm"
      using bmap.mark_span [OF bm(1), of st "unat cnt"] st(1) bm(3) by (auto simp: range64_def)
    let ?s' = "s\<lparr>mg_group_bitmaps := (mg_group_bitmaps s)[g := bm']\<rparr>"
    have p: "uadd (bg_data_start ?d) st = Ok (bg_data_start ?d + st)"
      "unat (bg_data_start ?d + st) = unat (bg_data_start ?d) + unat st"
      using bm(4) st(1) unat_add_ok [of "bg_data_start ?d" st] by (simp_all add: uadd_def group_end_def)
    have "on_group g (cfor (\<lambda>i. cbind (clift (uadd st i)) (\<lambda>b. cignore (bm_set b))) (range64 0 cnt)) s = (Ok (), ?s')"
      using assms(2) bm'(1) by (simp add: on_group_def nth_res_def)
    then have "try_allocate_in_group g cnt s = (Ok (Some \<lparr>ext_logical_block = 0, ext_length_blocks = ucast cnt,
        ext_physical_block = bg_data_start ?d + st\<rparr>), ?s')"
      using run Some p(1) by (simp add: cthen_run(1) [where m = "on_group _ _"] cbind_run(1) [where m = "clift _"])
    moreover have "wf_groups ?s'"
      using g(2) bm' st(1) by (intro wf_groups_update [OF assms]) (auto simp: wf_group_def)
    ultimately show ?thesis
      using st bm'(2) p(2) by (auto simp: took_def)
  qed
qed

lemma try_groups_spec:
  assumes "wf_groups s" "n = length (mg_group_bitmaps s)" "0 < n"
  shows "(\<exists>k e s'. k < length os \<and> fits s cnt ((home + os ! k) mod n) \<and> (\<forall>j < k. \<not> fits s cnt ((home + os ! j) mod n))
        \<and> try_groups home cnt n os s = (Ok (Some e), s') \<and> took s cnt ((home + os ! k) mod n) e s')
    \<or> (\<forall>k < length os. \<not> fits s cnt ((home + os ! k) mod n)) \<and> try_groups home cnt n os s = (Ok None, s)"
proof (induction os)
  case (Cons o' os)
  let ?g = "(home + o') mod n"
  have g: "?g < length (mg_group_bitmaps s)"
    using assms(2,3) by simp
  show ?case
  proof (cases "fits s cnt ?g")
    case True
    then obtain e s' where "try_allocate_in_group ?g cnt s = (Ok (Some e), s')" "took s cnt ?g e s'"
      using try_allocate_spec [OF assms(1) g, of cnt] by auto
    then show ?thesis
      using True by (intro disjI1 exI [of _ 0] exI [of _ e] exI [of _ s'])
        (simp add: cbind_run(1) [where m = "try_allocate_in_group _ _"])
  next
    case False
    then have step: "try_groups home cnt n (o' # os) s = try_groups home cnt n os s"
      using try_allocate_spec [OF assms(1) g, of cnt] by (simp add: cbind_run(1) [where m = "try_allocate_in_group _ _"])
    from Cons.IH show ?thesis
    proof (elim disjE exE conjE)
      fix k e s'
      assume "k < length os" "fits s cnt ((home + os ! k) mod n)" "\<forall>j < k. \<not> fits s cnt ((home + os ! j) mod n)"
        "try_groups home cnt n os s = (Ok (Some e), s')" "took s cnt ((home + os ! k) mod n) e s'"
      then show ?thesis
        using False step by (intro disjI1 exI [of _ "Suc k"] exI [of _ e] exI [of _ s']) (simp add: All_less_Suc2)
    qed (use False step in \<open>simp add: All_less_Suc2\<close>)
  qed
qed simp

text \<open>The groups in the order \<open>allocate_near\<close> visits them, starting at the inode's home group.\<close>

definition home_group :: "multi_group \<Rightarrow> u64 \<Rightarrow> nat result" where
  "home_group s inode_slot = map_result (\<lambda>h. case h of Some g \<Rightarrow> g | None \<Rightarrow> 0) (group_for_inode (mg_table s) inode_slot)"

lemma allocate_near_cases:
  assumes "wf_groups s" "home_group s slot = Ok home" "0 < length (mg_group_bitmaps s)" "cnt \<noteq> 0"
  shows "(\<exists>k e s'. k < length (mg_group_bitmaps s)
        \<and> (\<forall>j < k. \<not> fits s cnt ((home + j) mod length (mg_group_bitmaps s)))
        \<and> allocate_near cnt slot s = (Ok e, s') \<and> took s cnt ((home + k) mod length (mg_group_bitmaps s)) e s')
    \<or> (\<forall>g < length (mg_group_bitmaps s). \<not> fits s cnt g)
        \<and> allocate_near cnt slot s = (Err (State ''MultiGroupAllocator: no group can fit ''), s)"
proof -
  let ?n = "length (mg_group_bitmaps s)"
  have run: "allocate_near cnt slot s = cbind (try_groups home cnt ?n [0..<?n])
      (\<lambda>hit. clift (opt_or hit (State ''MultiGroupAllocator: no group can fit ''))) s"
    using assms(2,4) by (simp add: allocate_near_def home_group_def [symmetric] cbind_run(1) [where m = "cread _"])
  from try_groups_spec [OF assms(1) refl assms(3), of "[0..<?n]" cnt home] show ?thesis
  proof (elim disjE exE conjE)
    fix k e s'
    assume "k < length [0..<?n]" "\<forall>j < k. \<not> fits s cnt ((home + [0..<?n] ! j) mod ?n)"
      "try_groups home cnt ?n [0..<?n] s = (Ok (Some e), s')" "took s cnt ((home + [0..<?n] ! k) mod ?n) e s'"
    then show ?thesis
      using run by (intro disjI1 exI [of _ k] exI [of _ e] exI [of _ s'])
        (simp add: cbind_run(1) [where m = "try_groups _ _ _ _"])
  next
    assume none: "\<forall>k < length [0..<?n]. \<not> fits s cnt ((home + [0..<?n] ! k) mod ?n)"
      "try_groups home cnt ?n [0..<?n] s = (Ok None, s)"
    have "\<not> fits s cnt g" if "g < ?n" for g
    proof -
      let ?k = "(g + (?n - home mod ?n)) mod ?n"
      have "(home + ?k) mod ?n = (home mod ?n + (g + (?n - home mod ?n))) mod ?n"
        by (simp add: mod_simps)
      also have "home mod ?n + (g + (?n - home mod ?n)) = g + ?n"
        using mod_less_divisor [OF assms(3), of home] by simp
      finally have "(home + ?k) mod ?n = g"
        using that by simp
      then show ?thesis
        using none(1) assms(3) mod_less_divisor [OF assms(3), of "g + (?n - home mod ?n)"] by (metis length_upt minus_nat.diff_0 add_0 nth_upt)
    qed
    then show ?thesis
      using run none(2) by (simp add: cbind_run(1) [where m = "try_groups _ _ _ _"])
  qed
qed

section \<open>Freeing\<close>

lemma took_group:
  assumes "wf_groups s" "g < length (mg_group_bitmaps s)" "cnt \<noteq> 0" "took s cnt g e s'"
  shows "group_for_block (mg_table s') (ext_physical_block e) = Ok (Some g)"
proof -
  have "0 < unat cnt"
    using assms(3) by (simp add: unat_gt_0)
  then have t: "mg_table s' = mg_table s" "unat (bg_data_start (group_desc s g)) \<le> unat (ext_physical_block e)"
    "unat (ext_physical_block e) < group_end (group_desc s g)"
    using assms(4) \<open>0 < unat cnt\<close> by (auto simp: took_def group_end_def)
  have g: "g < length (bt_groups (mg_table s))"
    using wf_groups_nth [OF assms(1,2)] by simp
  have "\<forall>d \<in> set (bt_groups (mg_table s)). group_end d < 2 ^ 63"
    using assms(1) by (auto simp: wf_groups_def list_all2_conv_all_nth wf_group_def in_set_conv_nth)
  then have "\<forall>d \<in> set (bt_groups (mg_table s)). group_end d < 2 ^ 64"
    by fastforce
  moreover have "sorted_wrt disjoint_groups (bt_groups (mg_table s))"
    using assms(1) by (simp add: wf_groups_def)
  ultimately obtain r where "group_for_block (mg_table s) (ext_physical_block e) = Ok r"
    "\<And>i. r = Some i \<longleftrightarrow> i < length (bt_groups (mg_table s)) \<and> owns (group_desc s i) (unat (ext_physical_block e))"
    using group_for_block_owner [of "mg_table s" "ext_physical_block e"] by auto
  then show ?thesis
    using t g by (simp add: owns_def group_end_def)
qed

text \<open>Equal group by group, as sets of used blocks.\<close>

definition same_use :: "multi_group \<Rightarrow> multi_group \<Rightarrow> bool" where
  "same_use s s' \<longleftrightarrow> mg_table s' = mg_table s \<and> map used (mg_group_bitmaps s') = map used (mg_group_bitmaps s)
     \<and> mg_inode_bitmap s' = mg_inode_bitmap s \<and> mg_inode_hint s' = mg_inode_hint s"

lemma free_took:
  assumes "wf_groups s" "g < length (mg_group_bitmaps s)" "0 < unat cnt" "unat cnt < 2 ^ 32" "took s cnt g e s'"
  shows "\<exists>s''. mg_free_extent e s' = (Ok (), s'') \<and> wf_groups s'' \<and> same_use s s''"
proof -
  let ?d = "group_desc s g"
  obtain st bm' where t: "e = \<lparr>ext_logical_block = 0, ext_length_blocks = ucast cnt, ext_physical_block = bg_data_start ?d + st\<rparr>"
    "unat (bg_data_start ?d + st) = unat (bg_data_start ?d) + unat st"
    "unat st + unat cnt \<le> group_len s g" "free_range (used (group_map s g)) (unat st) (unat cnt)"
    "s' = s\<lparr>mg_group_bitmaps := (mg_group_bitmaps s)[g := bm']\<rparr>"
    "used bm' = used (group_map s g) \<union> {unat st..<unat st + unat cnt}" "wf_groups s'"
    using assms(5) by (auto simp: took_def)
  have u: "unat (ucast cnt :: u32) = unat cnt"
    using assms(4) by (simp add: unsigned_ucast_eq take_bit_nat_eq_self)
  have len: "unat (ucast (ucast cnt :: u32) :: u64) = unat cnt" "(ucast cnt :: u32) \<noteq> 0"
    using unat_ucast_u32 [of "ucast cnt"] u assms(3) by (simp only:) (use u assms(3) in auto)
  have grp: "group_for_block (mg_table s') (ext_physical_block e) = Ok (Some g)"
    using assms(3) by (intro took_group [OF assms(1,2) _ assms(5)]) (auto simp: unat_gt_0)
  have gs: "g < length (mg_group_bitmaps s')" "group_map s' g = bm'" "group_desc s' g = ?d"
    using t(5) assms(2) by simp_all
  then have w: "g < length (bt_groups (mg_table s'))" "wf_group ?d bm'"
    using wf_groups_nth [OF t(7), of g] by simp_all
  then have bm': "wf_bitmap bm'" "unat st + unat cnt \<le> unat (bm_capacity bm')" "group_end ?d < 2 ^ 63"
    using t(3) by (auto simp: wf_group_def word_le_nat_alt)
  obtain bm'' where bm'': "cfor (\<lambda>i. cdrop (bm_clear (st + i))) (range64 0 cnt) bm' = (Ok (), bm'')"
    "used bm'' = used bm' - {unat st..<unat st + unat cnt}" "wf_bitmap bm''" "bm_capacity bm'' = bm_capacity bm'"
    using bmap.unmark_span [OF bm'(1,2)] by (auto simp: range64_def)
  have body: "cbind (clift (uadd (bg_data_start ?d + st) i)) (\<lambda>block.
        cbind (clift (usub block (bg_data_start ?d))) (\<lambda>local. cdrop (bm_clear local))) m = cdrop (bm_clear (st + i)) m"
    if "i \<in> set (range64 0 cnt)" for i m
  proof -
    have "unat i < unat cnt"
      using that by (simp add: set_range64 word_less_nat_alt)
    then have i: "unat (bg_data_start ?d + st) + unat i < 2 ^ 64"
      using t(2,3) bm'(3) by (simp add: group_end_def)
    then have "uadd (bg_data_start ?d + st) i = Ok (bg_data_start ?d + st + i)"
      "bg_data_start ?d \<le> bg_data_start ?d + st + i"
      using t(2) unat_add_ok [of "bg_data_start ?d + st" i] by (simp_all add: uadd_def word_le_nat_alt)
    then show ?thesis
      by (simp add: cbind_run(1) [where m = "clift _"] usub_def)
  qed
  let ?s'' = "s'\<lparr>mg_group_bitmaps := (mg_group_bitmaps s')[g := bm'']\<rparr>"
  have "cfor (\<lambda>i. cbind (clift (uadd (ext_physical_block e) i)) (\<lambda>block.
        cbind (clift (usub block (bg_data_start ?d))) (\<lambda>local. cdrop (bm_clear local)))) (range64 0 cnt) bm' = (Ok (), bm'')"
    using cfor_same [of "range64 0 cnt" "\<lambda>_. True", OF body] bm''(1) t(1) by simp
  moreover have "range64 0 (ucast (ext_length_blocks e)) = range64 0 cnt"
    using t(1) len(1) by (simp add: range64_def)
  ultimately have "mg_free_extent e s' = (Ok (), ?s'')"
    using grp gs w(1) t(1) len(2)
    by (simp add: mg_free_extent_def cbind_run(1) [where m = "cread _"] nth_res_def on_group_def)
  moreover have "used bm'' = used (group_map s g)"
    using bm''(2) t(4,6) by (auto simp: free_range_def)
  then have "(map used (mg_group_bitmaps s))[g := used bm''] = map used (mg_group_bitmaps s)"
    using assms(2) by (metis list_update_id nth_map)
  then have "same_use s ?s''"
    using t(5) by (simp add: same_use_def map_update)
  moreover have "wf_groups ?s''"
    using w(2) bm'' by (intro wf_groups_update [OF t(7) gs(1)]) (auto simp: wf_group_def gs(3))
  ultimately show ?thesis by blast
qed

section \<open>Descriptors\<close>

lemma group_free_ok:
  assumes "wf_group g bm"
  shows "group_free g bm = Ok (bg_data_blocks g - of_nat (card (used bm)))"
    and "unat (bg_data_blocks g - of_nat (card (used bm)) :: u64) = unat (bg_data_blocks g) - card (used bm)"
proof -
  have "card (used bm) \<le> card {..<unat (bg_data_blocks g)}"
    using assms by (intro card_mono) (auto simp: wf_group_def)
  then have c: "card (used bm) \<le> unat (bg_data_blocks g)"
    by simp
  then have u: "unat (of_nat (card (used bm)) :: u64) = card (used bm)"
    using unat_u64_lt [of "bg_data_blocks g"] by (intro unat_of_nat_ok) simp
  then have le: "(of_nat (card (used bm)) :: u64) \<le> bg_data_blocks g"
    using c by (simp add: word_le_nat_alt)
  show "group_free g bm = Ok (bg_data_blocks g - of_nat (card (used bm)))"
    using assms le by (simp add: group_free_def wf_group_def popcount_card usub_def)
  show "unat (bg_data_blocks g - of_nat (card (used bm)) :: u64) = unat (bg_data_blocks g) - card (used bm)"
    using le u by (simp add: unat_sub_ok)
qed

definition refreshed :: "block_group_descriptor \<Rightarrow> bitmap \<Rightarrow> block_group_descriptor" where
  "refreshed g bm = g\<lparr>bg_free_blocks := ucast (bg_data_blocks g - of_nat (card (used bm))), bg_bitmap_crc := crc_hash (bm_bits bm)\<rparr>"

lemma refresh_groups_ok:
  "list_all2 wf_group gs bms \<Longrightarrow> refresh_groups gs bms = Ok (map2 refreshed gs bms)"
  by (induction rule: list_all2_induct) (simp_all add: group_free_ok(1) refreshed_def)

lemma wf_group_refreshed: "wf_group g bm \<Longrightarrow> wf_group (refreshed g bm) bm"
  by (simp add: wf_group_def refreshed_def group_end_def)

section \<open>Properties\<close>

text \<open>
  C35: A request near an inode is served by the first group, counting round from the inode's home
  group, that has a free run of the requested length: exactly that run is marked and the returned extent
  is its place on the volume.  The request is refused, and nothing changes, only when no group has
  such a run.
\<close>

theorem allocate_near_prefers_home:
  assumes "wf_groups s" "home_group s slot = Ok home" "0 < length (mg_group_bitmaps s)" "cnt \<noteq> 0"
  shows "(\<exists>k e s'. k < length (mg_group_bitmaps s)
        \<and> (\<forall>j < k. \<not> fits s cnt ((home + j) mod length (mg_group_bitmaps s)))
        \<and> allocate_near cnt slot s = (Ok e, s') \<and> took s cnt ((home + k) mod length (mg_group_bitmaps s)) e s')
    \<or> (\<forall>g < length (mg_group_bitmaps s). \<not> fits s cnt g)
        \<and> allocate_near cnt slot s = (Err (State ''MultiGroupAllocator: no group can fit ''), s)"
  using allocate_near_cases [OF assms] .

text \<open>
  Freeing what \<open>allocate_near\<close> returned finds the group again and leaves every group with
  the blocks it had in use before, for requests below \<open>2 ^ 32\<close> blocks (the extent's length field is 32 bits).
\<close>

theorem free_undoes_allocate_near:
  assumes "wf_groups s" "home_group s slot = Ok home" "0 < length (mg_group_bitmaps s)" "cnt \<noteq> 0" "unat cnt < 2 ^ 32"
    and "allocate_near cnt slot s = (Ok e, s')"
  shows "\<exists>s''. mg_free_extent e s' = (Ok (), s'') \<and> wf_groups s'' \<and> same_use s s''"
proof -
  obtain k where "took s cnt ((home + k) mod length (mg_group_bitmaps s)) e s'"
    using allocate_near_cases [OF assms(1-4)] assms(6) by auto
  then show ?thesis
    using assms(3,4,5) by (intro free_took [OF assms(1) _ _ _]) (auto simp: unat_gt_0)
qed

text \<open>
  Refreshing the descriptors stores, for each group, the number of its free blocks and the checksum
  of its bitmap, never panics on a well-formed allocator and keeps it well-formed.
\<close>

theorem refresh_counts_free_blocks:
  assumes "wf_groups s"
  shows "\<exists>s'. refresh_descriptors s = (Ok (), s') \<and> wf_groups s' \<and> mg_group_bitmaps s' = mg_group_bitmaps s
    \<and> list_all2 (\<lambda>g bm. (unat (bg_data_blocks g) < 2 ^ 32 \<longrightarrow> unat (bg_free_blocks g) = unat (bg_data_blocks g) - card (used bm))
         \<and> bg_bitmap_crc g = crc_hash (bm_bits bm)) (bt_groups (mg_table s')) (mg_group_bitmaps s)"
proof -
  let ?gs = "bt_groups (mg_table s)" and ?bms = "mg_group_bitmaps s"
  have l: "list_all2 wf_group ?gs ?bms"
    using assms by (simp add: wf_groups_def)
  let ?s' = "s\<lparr>mg_table := (mg_table s)\<lparr>bt_groups := map2 refreshed ?gs ?bms\<rparr>\<rparr>"
  have len: "length ?gs = length ?bms"
    using l by (rule list_all2_lengthD)
  have "refresh_descriptors s = (Ok (), ?s')"
    using refresh_groups_ok [OF l] by (simp add: refresh_descriptors_def cbind_run(1) [where m = "cread _"])
  moreover have "wf_groups ?s'"
    using assms len
    by (simp add: wf_groups_def list_all2_conv_all_nth sorted_wrt_iff_nth_less wf_group_refreshed)
      (simp add: refreshed_def disjoint_groups_def before_def group_end_def)
  moreover have "unat (bg_free_blocks (refreshed g bm)) = unat (bg_data_blocks g) - card (used bm)"
    if "wf_group g bm" "unat (bg_data_blocks g) < 2 ^ 32" for g bm
  proof -
    have "unat (bg_data_blocks g - of_nat (card (used bm)) :: u64) < 2 ^ 32"
      using group_free_ok(2) [OF that(1)] that(2) by simp
    then show ?thesis
      using group_free_ok(2) [OF that(1)] by (simp add: refreshed_def unsigned_ucast_eq take_bit_nat_eq_self)
  qed
  then have "list_all2 (\<lambda>g bm. (unat (bg_data_blocks g) < 2 ^ 32 \<longrightarrow> unat (bg_free_blocks g) = unat (bg_data_blocks g) - card (used bm))
         \<and> bg_bitmap_crc g = crc_hash (bm_bits bm)) (map2 refreshed ?gs ?bms) ?bms"
    using l len by (simp add: list_all2_conv_all_nth) (simp add: refreshed_def)
  ultimately show ?thesis
    by (intro exI [of _ ?s']) simp
qed

section \<open>Two concrete groups\<close>

definition demo_groups :: multi_group where
  "demo_groups =
    \<lparr>mg_group_bitmaps = [bitmap_new 8, bitmap_new 16], mg_inode_bitmap = bitmap_new 10,
     mg_table = \<lparr>bt_groups =
       [\<lparr>bg_data_start = 100, bg_data_blocks = 8, bg_bitmap_block = 5, bg_inode_range_start = 0,
         bg_inode_range_count = 10, bg_free_blocks = 8, bg_bitmap_crc = 0\<rparr>,
        \<lparr>bg_data_start = 200, bg_data_blocks = 16, bg_bitmap_block = 6, bg_inode_range_start = 10,
         bg_inode_range_count = 10, bg_free_blocks = 16, bg_bitmap_crc = 0\<rparr>]\<rparr>,
     mg_inode_hint = 1, mg_reserved_inode_floor = 1\<rparr>"

lemma demo_groups_ok: "wf_groups demo_groups" "length (mg_group_bitmaps demo_groups) = 2" "home_group demo_groups 12 = Ok 1"
proof -
  have b: "wf_bitmap (bitmap_new 8)" "bm_capacity (bitmap_new 8) = 8" "used (bitmap_new 8) = {}"
    "wf_bitmap (bitmap_new 16)" "bm_capacity (bitmap_new 16) = 16" "used (bitmap_new 16) = {}"
    by (rule bitmap_new_ok; simp)+
  then show "wf_groups demo_groups"
    by (simp add: demo_groups_def wf_groups_def wf_group_def group_end_def disjoint_groups_def before_def)
  show "length (mg_group_bitmaps demo_groups) = 2" "home_group demo_groups 12 = Ok 1"
    by (simp_all add: demo_groups_def home_group_def group_for_inode_def uadd_def)
qed

lemma demo_groups_fit: "fits demo_groups 9 1"
proof -
  have "used (bitmap_new 16) = {}"
    by (rule bitmap_new_ok; simp)
  then show ?thesis
    by (auto simp: fits_def demo_groups_def free_range_def intro!: exI [of _ 0])
qed

theorem allocate_near_prefers_home_witness:
  "\<exists>e s'. allocate_near 9 12 demo_groups = (Ok e, s')"
  using allocate_near_prefers_home [OF demo_groups_ok(1,3), of 9] demo_groups_fit by (auto simp: demo_groups_ok(2))

theorem free_undoes_allocate_near_witness:
  "\<exists>e s' s''. allocate_near 9 12 demo_groups = (Ok e, s') \<and> mg_free_extent e s' = (Ok (), s'')"
proof -
  obtain e s' where a: "allocate_near 9 12 demo_groups = (Ok e, s')"
    using allocate_near_cases [OF demo_groups_ok(1,3), of 9] demo_groups_fit by (auto simp: demo_groups_ok(2))
  from free_undoes_allocate_near [OF demo_groups_ok(1,3) _ _ _ this] a show ?thesis
    by (auto simp: demo_groups_ok(2))
qed

theorem refresh_counts_free_blocks_witness:
  "\<exists>s'. refresh_descriptors demo_groups = (Ok (), s') \<and> wf_groups s'"
  using refresh_counts_free_blocks [OF demo_groups_ok(1)] by blast

end
