(* ===== verification/Fuse_Proto.thy ===== *)
theory Fuse_Proto
  imports Prelude
begin

text \<open>
  The message types between the kernel side and the daemon, \<open>corefs-fuse-proto/src/lib.rs\<close>.  The two
  Rust enums \<open>Request\<close> and \<open>Reply\<close> share variant names, so their constructors carry a prefix here;
  a Rust \<open>String\<close> is its list of bytes.  The \<open>wire\<close> module only calls the \<open>bincode\<close> crate.
\<close>

type_synonym i32 = "32 word"
type_synonym unique_id = u64
type_synonym inode_no = u64
type_synonym file_handle = u64

definition PROTOCOL_VERSION :: u32 where "PROTOCOL_VERSION = push_bit 16 1 OR 0"

lemma protocol_version_parts:
  "drop_bit 16 PROTOCOL_VERSION = 1" "PROTOCOL_VERSION AND 0xFFFF = 0"
  by (simp_all add: PROTOCOL_VERSION_def)

section \<open>Attributes and entries\<close>

record partial_attr =
  pa_mode :: "u32 option"
  pa_uid :: "u32 option"
  pa_gid :: "u32 option"
  pa_size :: "u64 option"
  pa_mtime_secs :: "u64 option"
  pa_atime_secs :: "u64 option"

record fuse_attr =
  at_ino :: inode_no
  at_size :: u64
  at_blocks :: u64
  at_mode :: u32
  at_nlink :: u32
  at_uid :: u32
  at_gid :: u32
  at_kind :: u8
  at_crtime_secs :: u64
  at_mtime_secs :: u64
  at_ctime_secs :: u64

record fuse_dir_entry =
  fde_ino :: inode_no
  fde_kind :: u8
  fde_name :: bytes
  fde_next_offset :: u64

record stat_fs =
  sf_bsize :: u32
  sf_blocks :: u64
  sf_bfree :: u64
  sf_bavail :: u64
  sf_files :: u64
  sf_ffree :: u64
  sf_namelen :: u32

section \<open>Requests and replies\<close>

datatype request =
    ReqInit u32
  | ReqDestroy
  | ReqLookup inode_no bytes
  | ReqGetattr inode_no
  | ReqOpen inode_no u32
  | ReqRead inode_no file_handle u64 u32
  | ReqWrite inode_no file_handle u64 bytes
  | ReqRelease inode_no file_handle
  | ReqReaddir inode_no u64
  | ReqStatfs
  | ReqUnlink inode_no bytes
  | ReqMkdir inode_no bytes u32
  | ReqCreate inode_no bytes u32 u32
  | ReqSetattr inode_no partial_attr
  | ReqRmdir inode_no bytes
  | ReqRename inode_no bytes inode_no bytes
  | ReqSymlink inode_no bytes bytes
  | ReqReadlink inode_no
  | ReqFlush inode_no file_handle
  | ReqFsync inode_no file_handle bool

datatype reply =
    RepInit u32
  | RepDestroy
  | RepLookup fuse_attr
  | RepGetattr fuse_attr
  | RepOpen file_handle u32
  | RepRead bytes
  | RepWrite u32
  | RepRelease
  | RepReaddir "fuse_dir_entry list"
  | RepStatfs stat_fs
  | RepUnlink
  | RepMkdir fuse_attr
  | RepCreate fuse_attr file_handle u32
  | RepSetattr fuse_attr
  | RepRmdir
  | RepRename
  | RepSymlink fuse_attr
  | RepReadlink bytes
  | RepFlush
  | RepFsync

datatype reply_payload = PayloadOk reply | PayloadErr i32 "bytes option"

section \<open>Frames\<close>

record frame_header =
  fh_unique :: unique_id

record request_frame =
  rq_header :: frame_header
  rq_op :: request

record reply_frame =
  rp_header :: frame_header
  rp_payload :: reply_payload

end
