(* ===== verification/Fuse_Session.thy ===== *)
theory Fuse_Session
  imports Fuse_Proto
begin

text \<open>
  The platform-neutral session loop, \<open>corefs-fuse-adapter/src/lib.rs\<close>: requests come from a transport,
  a handler answers them and the replies go back, until the transport ends the session, a \<open>Destroy\<close> has
  been answered or the transport fails.  The two traits are records of operations; the loop may run
  for ever, so it is a partial function whose value is \<open>None\<close> then.
\<close>

section \<open>The traits and the loop\<close>

text \<open>The results of a transport: its own error type on the left.\<close>

record ('t, 'e) transport_ops =
  recv_request :: "'t \<Rightarrow> ('e + request_frame option) \<times> 't"
  send_reply :: "reply_frame \<Rightarrow> 't \<Rightarrow> ('e + unit) \<times> 't"

datatype handler_result = HandlerOk reply | HandlerErr i32 "bytes option"

fun into_payload :: "handler_result \<Rightarrow> reply_payload" where
  "into_payload (HandlerOk r) = PayloadOk r"
| "into_payload (HandlerErr errno message) = PayloadErr errno message"

type_synonym 'h fuse_handler = "request \<Rightarrow> 'h \<Rightarrow> handler_result \<times> 'h"

record ('t, 'h) session_loop =
  sl_transport :: 't
  sl_handler :: 'h

definition session_new :: "'t \<Rightarrow> 'h \<Rightarrow> ('t, 'h) session_loop" where
  "session_new transport handler = \<lparr>sl_transport = transport, sl_handler = handler\<rparr>"

definition into_parts :: "('t, 'h) session_loop \<Rightarrow> 't \<times> 'h" where
  "into_parts s = (sl_transport s, sl_handler s)"

text \<open>The body of the loop after a frame has come in: the reply and the state after sending it.\<close>

definition answer ::
  "('t, 'e) transport_ops \<Rightarrow> 'h fuse_handler \<Rightarrow> request_frame \<Rightarrow> ('t, 'h) session_loop
   \<Rightarrow> reply_frame \<times> ('e + unit) \<times> ('t, 'h) session_loop" where
  "answer ops handle frame s =
    (let (result, h) = handle (rq_op frame) (sl_handler s);
         reply = \<lparr>rp_header = rq_header frame, rp_payload = into_payload result\<rparr>;
         (sent, t) = send_reply ops reply (sl_transport s) in
     (reply, sent, s\<lparr>sl_transport := t, sl_handler := h\<rparr>))"

partial_function (option) session_run ::
  "('t, 'e) transport_ops \<Rightarrow> 'h fuse_handler \<Rightarrow> ('t, 'h) session_loop
   \<Rightarrow> (('e + unit) \<times> ('t, 'h) session_loop) option" where
  "session_run ops handle s =
    (case recv_request ops (sl_transport s) of
       (Inl e, t) \<Rightarrow> Some (Inl e, s\<lparr>sl_transport := t\<rparr>)
     | (Inr None, t) \<Rightarrow> Some (Inr (), s\<lparr>sl_transport := t\<rparr>)
     | (Inr (Some frame), t) \<Rightarrow>
         (case answer ops handle frame (s\<lparr>sl_transport := t\<rparr>) of
            (reply, Inl e, s') \<Rightarrow> Some (Inl e, s')
          | (reply, Inr _, s') \<Rightarrow>
              if rq_op frame = ReqDestroy then Some (Inr (), s') else session_run ops handle s'))"

declare session_run.simps [code]

section \<open>Runs\<close>

text \<open>A run of the loop, with the exchanges it made, the result it returned and the final state.\<close>

inductive session_trace ::
  "('t, 'e) transport_ops \<Rightarrow> 'h fuse_handler \<Rightarrow> ('t, 'h) session_loop
   \<Rightarrow> (request_frame \<times> reply_frame) list \<Rightarrow> 'e + unit \<Rightarrow> ('t, 'h) session_loop \<Rightarrow> bool"
  for ops handle where
  recv_failed: "recv_request ops (sl_transport s) = (Inl e, t)
    \<Longrightarrow> session_trace ops handle s [] (Inl e) (s\<lparr>sl_transport := t\<rparr>)"
| ended: "recv_request ops (sl_transport s) = (Inr None, t)
    \<Longrightarrow> session_trace ops handle s [] (Inr ()) (s\<lparr>sl_transport := t\<rparr>)"
| send_failed: "recv_request ops (sl_transport s) = (Inr (Some frame), t)
    \<Longrightarrow> answer ops handle frame (s\<lparr>sl_transport := t\<rparr>) = (reply, Inl e, s')
    \<Longrightarrow> session_trace ops handle s [(frame, reply)] (Inl e) s'"
| destroyed: "recv_request ops (sl_transport s) = (Inr (Some frame), t)
    \<Longrightarrow> answer ops handle frame (s\<lparr>sl_transport := t\<rparr>) = (reply, Inr (), s')
    \<Longrightarrow> rq_op frame = ReqDestroy
    \<Longrightarrow> session_trace ops handle s [(frame, reply)] (Inr ()) s'"
| served: "recv_request ops (sl_transport s) = (Inr (Some frame), t)
    \<Longrightarrow> answer ops handle frame (s\<lparr>sl_transport := t\<rparr>) = (reply, Inr (), s')
    \<Longrightarrow> rq_op frame \<noteq> ReqDestroy
    \<Longrightarrow> session_trace ops handle s' evs r s''
    \<Longrightarrow> session_trace ops handle s ((frame, reply) # evs) r s''"

inductive_simps session_trace_Nil: "session_trace ops handle s [] r s'"
inductive_cases session_traceE: "session_trace ops handle s evs r s'"

lemma run_of_trace: "session_trace ops handle s evs r s' \<Longrightarrow> session_run ops handle s = Some (r, s')"
  by (induction rule: session_trace.induct) (simp_all add: session_run.simps)

text \<open>One unfolding of the loop, with any function that only returns what runs justify in its place.\<close>

lemma trace_of_body:
  assumes ih: "\<And>s y. run ops handle s = Some y \<Longrightarrow> \<exists>evs. session_trace ops handle s evs (fst y) (snd y)"
    and body: "(case recv_request ops (sl_transport s) of
       (Inl e, t) \<Rightarrow> Some (Inl e, s\<lparr>sl_transport := t\<rparr>)
     | (Inr None, t) \<Rightarrow> Some (Inr (), s\<lparr>sl_transport := t\<rparr>)
     | (Inr (Some frame), t) \<Rightarrow>
         (case answer ops handle frame (s\<lparr>sl_transport := t\<rparr>) of
            (reply, Inl e, s') \<Rightarrow> Some (Inl e, s')
          | (reply, Inr _, s') \<Rightarrow> if rq_op frame = ReqDestroy then Some (Inr (), s') else run ops handle s')) = Some y"
  shows "\<exists>evs. session_trace ops handle s evs (fst y) (snd y)"
proof -
  obtain x t where recv: "recv_request ops (sl_transport s) = (x, t)"
    by fastforce
  show ?thesis
  proof (cases x)
    case (Inl e)
    then show ?thesis
      using body recv recv_failed by fastforce
  next
    case (Inr next')
    show ?thesis
    proof (cases next')
      case None
      then show ?thesis
        using body recv Inr ended by fastforce
    next
      case (Some frame)
      obtain reply sent s' where ans: "answer ops handle frame (s\<lparr>sl_transport := t\<rparr>) = (reply, sent, s')"
        using prod_cases3 by blast
      note frame = recv [unfolded Inr Some]
      show ?thesis
      proof (cases sent)
        case (Inl e)
        then show ?thesis
          using body frame ans send_failed [OF frame, of handle reply e s'] by auto
      next
        case (Inr u)
        show ?thesis
        proof (cases "rq_op frame = ReqDestroy")
          case True
          then show ?thesis
            using body frame ans Inr destroyed [OF frame, of handle reply s'] by auto
        next
          case False
          then have "run ops handle s' = Some y"
            using body frame ans Inr by simp
          then obtain evs where "session_trace ops handle s' evs (fst y) (snd y)"
            using ih by blast
          moreover have "answer ops handle frame (s\<lparr>sl_transport := t\<rparr>) = (reply, Inr (), s')"
            using ans Inr by simp
          ultimately show ?thesis
            using served [OF frame _ False] by blast
        qed
      qed
    qed
  qed
qed

lemma trace_of_run:
  assumes "session_run ops handle s = Some y"
  shows "\<exists>evs. session_trace ops handle s evs (fst y) (snd y)"
  using _ assms
  apply (rule session_run.raw_induct [where P = "\<lambda>ops handle s y. \<exists>evs. session_trace ops handle s evs (fst y) (snd y)"])
  subgoal for run by (rule trace_of_body [of run]) blast+
  done

section \<open>A transport that delivers finitely many requests\<close>

text \<open>
  What a transport promises the loop when no more than finitely many requests will come: each one
  received lowers a measure and sending does not raise it.
\<close>

locale finite_transport =
  fixes ops :: "('t, 'e) transport_ops" and pending :: "'t \<Rightarrow> nat"
  assumes recv_law: "recv_request ops t = (Inr (Some frame), t') \<Longrightarrow> pending t' < pending t"
    and send_law: "send_reply ops reply t = (x, t') \<Longrightarrow> pending t' \<le> pending t"
begin

lemma answer_pending: "answer ops handle frame s = (reply, sent, s') \<Longrightarrow> pending (sl_transport s') \<le> pending (sl_transport s)"
  by (auto simp: answer_def Let_def split: prod.splits dest: send_law)

lemma run_returns: "\<exists>r s' evs. session_run ops handle s = Some (r, s') \<and> length evs \<le> pending (sl_transport s)
    \<and> session_trace ops handle s evs r s'"
proof (induction "pending (sl_transport s)" arbitrary: s rule: less_induct)
  case less
  obtain x t where recv: "recv_request ops (sl_transport s) = (x, t)"
    by fastforce
  have "\<exists>evs r s'. length evs \<le> pending (sl_transport s) \<and> session_trace ops handle s evs r s'"
  proof (cases x)
    case (Inl e)
    then show ?thesis
      using recv recv_failed [of ops s e t handle] by force
  next
    case (Inr next')
    show ?thesis
    proof (cases next')
      case None
      then show ?thesis
        using recv Inr ended [of ops s t handle] by force
    next
      case (Some frame)
      obtain reply sent s' where ans: "answer ops handle frame (s\<lparr>sl_transport := t\<rparr>) = (reply, sent, s')"
        using prod_cases3 by blast
      note frame = recv [unfolded Inr Some]
      have lt: "pending (sl_transport s') < pending (sl_transport s)"
        using recv_law [OF frame] answer_pending [OF ans] by simp
      show ?thesis
      proof (cases sent)
        case (Inl e)
        then show ?thesis
          using send_failed [OF frame, of handle reply e s'] ans lt by (intro exI [of _ "[(frame, reply)]"]) auto
      next
        case (Inr u)
        show ?thesis
        proof (cases "rq_op frame = ReqDestroy")
          case True
          then show ?thesis
            using destroyed [OF frame, of handle reply s'] ans Inr lt by (intro exI [of _ "[(frame, reply)]"]) auto
        next
          case False
          obtain r s'' evs where "length evs \<le> pending (sl_transport s')" "session_trace ops handle s' evs r s''"
            using less [OF lt] by blast
          then show ?thesis
            using served [OF frame _ False, of handle reply s' evs r s''] ans Inr lt
            by (intro exI [of _ "(frame, reply) # evs"] exI [of _ r] exI [of _ s'']) auto
        qed
      qed
    qed
  qed
  then show ?case
    using run_of_trace by blast
qed

end

section \<open>The queue transport and the stub handler\<close>

record mock_transport =
  mt_incoming :: "request_frame list"
  mt_sent :: "reply_frame list"

definition mock_ops :: "(mock_transport, string) transport_ops" where
  "mock_ops =
    \<lparr>recv_request = (\<lambda>t. case mt_incoming t of
         [] \<Rightarrow> (Inr None, t)
       | f # fs \<Rightarrow> (Inr (Some f), t\<lparr>mt_incoming := fs\<rparr>)),
     send_reply = (\<lambda>reply t. (Inr (), t\<lparr>mt_sent := mt_sent t @ [reply]\<rparr>))\<rparr>"

fun stub_handle :: "unit fuse_handler" where
  "stub_handle (ReqInit _) h = (HandlerOk (RepInit PROTOCOL_VERSION), h)"
| "stub_handle ReqDestroy h = (HandlerOk RepDestroy, h)"
| "stub_handle (ReqGetattr ino) h = (HandlerOk (RepGetattr
     \<lparr>at_ino = ino, at_size = 0, at_blocks = 0, at_mode = 493, at_nlink = 1, at_uid = 0, at_gid = 0, at_kind = 2,
      at_crtime_secs = 0, at_mtime_secs = 0, at_ctime_secs = 0\<rparr>), h)"
| "stub_handle _ h = (HandlerErr 38 (Some (map (of_nat \<circ> of_char) ''not implemented'')), h)"

lemma mock_ops_sel [simp]:
  "recv_request mock_ops t = (case mt_incoming t of [] \<Rightarrow> (Inr None, t) | f # fs \<Rightarrow> (Inr (Some f), t\<lparr>mt_incoming := fs\<rparr>))"
  "send_reply mock_ops reply t = (Inr (), t\<lparr>mt_sent := mt_sent t @ [reply]\<rparr>)"
  by (simp_all add: mock_ops_def)

interpretation mock: finite_transport mock_ops "length \<circ> mt_incoming"
  by unfold_locales (auto split: list.splits)

text \<open>The requests the loop answers: those up to the first \<open>Destroy\<close>, which it answers too.\<close>

fun up_to_destroy :: "request_frame list \<Rightarrow> request_frame list" where
  "up_to_destroy [] = []"
| "up_to_destroy (f # fs) = (if rq_op f = ReqDestroy then [f] else f # up_to_destroy fs)"

lemma mock_answer:
  "\<exists>rp h'. answer mock_ops handle f \<lparr>sl_transport = \<lparr>mt_incoming = fs, mt_sent = out\<rparr>, sl_handler = h\<rparr>
     = (rp, Inr (), \<lparr>sl_transport = \<lparr>mt_incoming = fs, mt_sent = out @ [rp]\<rparr>, sl_handler = h'\<rparr>) \<and> rp_header rp = rq_header f"
  by (auto simp: answer_def Let_def split: prod.splits)

lemma mock_run:
  "\<exists>out' h'. session_run mock_ops handle \<lparr>sl_transport = \<lparr>mt_incoming = fs, mt_sent = out\<rparr>, sl_handler = h\<rparr>
     = Some (Inr (), \<lparr>sl_transport = \<lparr>mt_incoming = drop (length (up_to_destroy fs)) fs, mt_sent = out @ out'\<rparr>, sl_handler = h'\<rparr>)
   \<and> map rp_header out' = map rq_header (up_to_destroy fs)"
proof (induction fs arbitrary: out h)
  case Nil
  then show ?case
    by (simp add: session_run.simps)
next
  case (Cons f fs)
  obtain rp h' where a: "answer mock_ops handle f \<lparr>sl_transport = \<lparr>mt_incoming = fs, mt_sent = out\<rparr>, sl_handler = h\<rparr>
     = (rp, Inr (), \<lparr>sl_transport = \<lparr>mt_incoming = fs, mt_sent = out @ [rp]\<rparr>, sl_handler = h'\<rparr>)" "rp_header rp = rq_header f"
    using mock_answer [of handle f fs out h] by auto
  show ?case
  proof (cases "rq_op f = ReqDestroy")
    case True
    then show ?thesis
      using a by (subst session_run.simps) simp
  next
    case False
    obtain out' h'' where r: "session_run mock_ops handle \<lparr>sl_transport = \<lparr>mt_incoming = fs, mt_sent = out @ [rp]\<rparr>, sl_handler = h'\<rparr>
       = Some (Inr (), \<lparr>sl_transport = \<lparr>mt_incoming = drop (length (up_to_destroy fs)) fs, mt_sent = (out @ [rp]) @ out'\<rparr>, sl_handler = h''\<rparr>)"
      "map rp_header out' = map rq_header (up_to_destroy fs)"
      using Cons.IH by blast
    then show ?thesis
      using a False by (subst session_run.simps, intro exI [of _ "rp # out'"]) simp
  qed
qed

section \<open>Properties\<close>

text \<open>
  The loop returns a result exactly when there is a finite run with that result: it either
  reaches the end of the session, a transport error or an answered \<open>Destroy\<close>, or goes on for ever.
\<close>

theorem session_run_iff_trace:
  "session_run ops handle s = Some (r, s') \<longleftrightarrow> (\<exists>evs. session_trace ops handle s evs r s')"
  using run_of_trace [of ops handle s _ r s'] trace_of_run [of ops handle s "(r, s')"] by auto

text \<open>
  The loop returns on every transport that delivers finitely many requests, whatever the
  handler does and whether or not the transport fails.
\<close>

theorem finite_session_returns:
  fixes pending :: "'t \<Rightarrow> nat"
  assumes "\<forall>t frame t'. recv_request ops t = (Inr (Some frame), t') \<longrightarrow> pending t' < pending t"
    and "\<forall>reply t x t'. send_reply ops reply t = (x, t') \<longrightarrow> pending t' \<le> pending t"
  shows "\<exists>r s'. session_run ops handle s = Some (r, s')"
  using finite_transport.run_returns [OF finite_transport.intro, of ops pending handle s] assms by metis

text \<open>
  C36: Over the queue transport the loop returns without an error, has answered every queued request
  up to the first \<open>Destroy\<close> (that one too) in order, and leaves the requests behind it in the queue.
\<close>

theorem queue_session_answers_all:
  "\<exists>s'. session_run mock_ops handle (session_new \<lparr>mt_incoming = fs, mt_sent = []\<rparr> h) = Some (Inr (), s')
    \<and> map rp_header (mt_sent (sl_transport s')) = map rq_header (up_to_destroy fs)
    \<and> mt_incoming (sl_transport s') = drop (length (up_to_destroy fs)) fs"
  using mock_run [of handle fs "[]" h] by (auto simp: session_new_def)

section \<open>A concrete session\<close>

definition demo_session :: "(mock_transport, unit) session_loop" where
  "demo_session = session_new \<lparr>mt_incoming =
     [\<lparr>rq_header = \<lparr>fh_unique = 42\<rparr>, rq_op = ReqGetattr 5\<rparr>, \<lparr>rq_header = \<lparr>fh_unique = 43\<rparr>, rq_op = ReqDestroy\<rparr>], mt_sent = []\<rparr> ()"

theorem finite_session_returns_witness:
  "\<exists>r s'. session_run mock_ops stub_handle demo_session = Some (r, s')"
  by (rule finite_session_returns [of mock_ops "length \<circ> mt_incoming"]) (auto split: list.splits)

end
