(* ===== verification/Volume.thy ===== *)
theory Volume
  imports Journal Bitmap Utf8
begin

text \<open>
  The driver of a volume, \<open>corefs-core/src/storage/ondisk/volume.rs\<close>: formatting a device, saving and
  loading the payload, the superblock with its fallbacks and the integrity check of the bitmaps.

  The payload is serialised by the \<open>bincode\<close> crate: \<open>ser\<close> and \<open>deser\<close> are parameters (\<open>None\<close> where
  the crate reports an error).  The wall clock is the parameter \<open>now\<close>.
\<close>

definition PAYLOAD_CRC_TRAILER_BYTES :: nat where "PAYLOAD_CRC_TRAILER_BYTES = 4"

record format_options =
  fo_label :: bytes
  fo_uuid :: bytes
  fo_inode_count :: u64
  fo_journal_blocks :: u64

definition format_options_default :: format_options where
  "format_options_default =
    \<lparr>fo_label = [0x63, 0x6F, 0x72, 0x65, 0x66, 0x73], fo_uuid = zeros 16,
     fo_inode_count = DEFAULT_INODE_COUNT, fo_journal_blocks = DEFAULT_JOURNAL_BLOCKS\<rparr>"

record format_report =
  fr_geometry :: geometry
  fr_uuid :: bytes
  fr_generation :: u64

record save_report =
  sr_generation :: u64
  sr_payload_bytes :: u64
  sr_payload_blocks :: u64

text \<open>A command run on a local variable of the function.\<close>

definition clocal :: "('x, unit) cmd \<Rightarrow> 'x \<Rightarrow> 'x result" where
  "clocal m x = (case m x of (Ok _, y) \<Rightarrow> Ok y | (Err e, y) \<Rightarrow> Err e | (Panic, y) \<Rightarrow> Panic)"

section \<open>Blocks and inode records\<close>

text \<open>\<open>debug_assert_eq!\<close> panics in the builds that check arithmetic overflow.\<close>

definition write_block :: "'d device_ops \<Rightarrow> u64 \<Rightarrow> bytes \<Rightarrow> ('d, unit) cmd" where
  "write_block ops block data =
     cthen (clift (if (of_nat (length data) :: u64) = BLOCK_SIZE then Ok () else Panic))
    (cbind (clift (umul block BLOCK_SIZE)) (\<lambda>off. op_write_at ops off data))"

definition write_blocks :: "'d device_ops \<Rightarrow> u64 \<Rightarrow> bytes \<Rightarrow> ('d, unit) cmd" where
  "write_blocks ops start data =
     cthen (clift (if (of_nat (length data) :: u64) mod BLOCK_SIZE = 0 then Ok () else Panic))
    (cbind (clift (umul start BLOCK_SIZE)) (\<lambda>off. op_write_at ops off data))"

function zero_fill_loop :: "'d device_ops \<Rightarrow> u64 \<Rightarrow> u64 \<Rightarrow> u64 \<Rightarrow> ('d, unit) cmd" where
  "zero_fill_loop ops start blocks written d =
    (if written < blocks then
       let take' = min (blocks - written) 64 in
       (case cbind (clift (umul take' BLOCK_SIZE)) (\<lambda>n.
             cbind (clift (uadd start written)) (\<lambda>b. write_blocks ops b (zeros (unat n)))) d of
          (Ok _, d') \<Rightarrow> zero_fill_loop ops start blocks (written + take') d'
        | (Err e, d') \<Rightarrow> (Err e, d')
        | (Panic, d') \<Rightarrow> (Panic, d'))
     else (Ok (), d))"
  by pat_completeness auto

lemma chunk_step:
  assumes "written < (blocks :: u64)"
  shows "unat (written + min (blocks - written) 64) = unat written + min (unat blocks - unat written) 64"
proof -
  have m: "unat (min (blocks - written) 64) = min (unat blocks - unat written) 64"
    using assms by (auto simp: min_def word_le_nat_alt unat_sub_ok word_less_nat_alt)
  moreover have "unat written + min (unat blocks - unat written) 64 \<le> unat blocks"
    using assms by (simp add: word_less_nat_alt)
  ultimately have "unat written + unat (min (blocks - written) 64) < 2 ^ 64"
    using unat_u64_lt [of blocks] by simp
  then show ?thesis
    using m by (simp add: unat_add_ok)
qed

termination zero_fill_loop
proof (relation "measure (\<lambda>(ops, start, blocks, written, d). unat blocks - unat written)", goal_cases)
  case (2 ops start blocks written d)
  then show ?case
    using chunk_step [of written blocks] by (simp add: word_less_nat_alt)
qed simp

declare zero_fill_loop.simps [simp del]

definition zero_fill_region :: "'d device_ops \<Rightarrow> u64 \<Rightarrow> u64 \<Rightarrow> ('d, unit) cmd" where
  "zero_fill_region ops start blocks = zero_fill_loop ops start blocks 0"

definition write_inode_record :: "'d device_ops \<Rightarrow> geometry \<Rightarrow> u64 \<Rightarrow> on_disk_inode \<Rightarrow> ('d, unit) cmd" where
  "write_inode_record ops geom index inode =
     cbind (clift (inode_record_location geom index)) (\<lambda>(block, offset_in_block).
     cbind (clift (umul block BLOCK_SIZE)) (\<lambda>off.
     cbind (cread (\<lambda>d. op_read_at ops d off BLOCK_SIZE)) (\<lambda>block_buf.
     cbind (clift (inode_encode inode)) (\<lambda>encoded.
     cbind (clift (copy_into (unat offset_in_block) encoded block_buf)) (\<lambda>block_buf.
       write_block ops block block_buf)))))"

definition read_inode_record :: "'d device_ops \<Rightarrow> 'd \<Rightarrow> geometry \<Rightarrow> u64 \<Rightarrow> on_disk_inode result" where
  "read_inode_record ops d geom index =
     rbind (inode_record_location geom index) (\<lambda>(block, offset_in_block).
     rbind (umul block BLOCK_SIZE) (\<lambda>off.
     rbind (op_read_at ops d off BLOCK_SIZE) (\<lambda>block_buf.
     rbind (cut_res (unat offset_in_block) INODE_RECORD_SIZE block_buf) inode_decode)))"

section \<open>The superblock and its copies\<close>

definition read_superblock_at :: "'d device_ops \<Rightarrow> 'd \<Rightarrow> u64 \<Rightarrow> superblock result" where
  "read_superblock_at ops d block =
     rbind (umul block BLOCK_SIZE) (\<lambda>off.
     rbind (op_read_at ops d off BLOCK_SIZE) sb_decode_block)"

definition read_sb_with_fallbacks :: "'d device_ops \<Rightarrow> 'd \<Rightarrow> superblock result" where
  "read_sb_with_fallbacks ops d =
    (case read_superblock_at ops d PRIMARY_SUPERBLOCK_BLOCK of
       Ok sb \<Rightarrow> Ok sb
     | Panic \<Rightarrow> Panic
     | Err _ \<Rightarrow>
         let total_blocks = dev_capacity ops d div BLOCK_SIZE in
         if total_blocks < 2 then Err (State ''device capacity '')
         else
           (case read_superblock_at ops d (total_blocks div 2) of
              Ok sb \<Rightarrow> Ok sb
            | Panic \<Rightarrow> Panic
            | Err _ \<Rightarrow>
                (case read_superblock_at ops d (total_blocks - 1) of
                   Ok sb \<Rightarrow> Ok sb
                 | Panic \<Rightarrow> Panic
                 | Err _ \<Rightarrow> Err (State ''all superblock copies are unreadable; last error: ''))))"

definition write_superblocks :: "'d device_ops \<Rightarrow> geometry \<Rightarrow> bytes \<Rightarrow> ('d, unit) cmd" where
  "write_superblocks ops geom sb_block =
     cthen (write_block ops PRIMARY_SUPERBLOCK_BLOCK sb_block)
    (cthen (write_block ops (g_tertiary_superblock_block geom) sb_block)
       (write_block ops (g_secondary_superblock_block geom) sb_block))"

section \<open>Bitmaps\<close>

definition set_range :: "u64 \<Rightarrow> u64 \<Rightarrow> (bitmap, unit) cmd" where
  "set_range start n = cfor (\<lambda>i. cbind (clift (uadd start i)) (\<lambda>b. cdrop (bm_set b))) (range64 0 n)"

definition mark_reserved_blocks :: "geometry \<Rightarrow> (bitmap, unit) cmd" where
  "mark_reserved_blocks geom =
     cthen (cdrop (bm_set RESERVED_BLOCK))
    (cthen (cdrop (bm_set PRIMARY_SUPERBLOCK_BLOCK))
    (cthen (set_range (g_block_bitmap_start geom) (g_block_bitmap_blocks geom))
    (cthen (set_range (g_inode_bitmap_start geom) (g_inode_bitmap_blocks geom))
    (cthen (set_range (g_inode_table_start geom) (g_inode_table_blocks geom))
    (cthen (set_range (g_journal_start geom) (g_journal_blocks geom))
    (cthen (cdrop (bm_set (g_tertiary_superblock_block geom)))
       (cdrop (bm_set (g_secondary_superblock_block geom)))))))))"

definition verify_bitmap :: "'d device_ops \<Rightarrow> 'd \<Rightarrow> u64 \<Rightarrow> u64 \<Rightarrow> u32 \<Rightarrow> string \<Rightarrow> unit result" where
  "verify_bitmap ops d start blocks crc message =
    (if crc \<noteq> 0 then
       rbind (umul start BLOCK_SIZE) (\<lambda>off.
       rbind (umul blocks BLOCK_SIZE) (\<lambda>n.
       rbind (op_read_at ops d off n) (\<lambda>data.
       if crc_hash data \<noteq> crc then Err (State message) else Ok ())))
     else Ok ())"

definition verify_bitmap_integrity :: "'d device_ops \<Rightarrow> 'd \<Rightarrow> superblock \<Rightarrow> unit result" where
  "verify_bitmap_integrity ops d sb =
     rbind (verify_bitmap ops d (sb_block_bitmap_start sb) (sb_block_bitmap_blocks sb) (sb_block_bitmap_crc sb)
              ''ODF: block bitmap CRC mismatch (stored=0x'') (\<lambda>_.
       verify_bitmap ops d (sb_inode_bitmap_start sb) (sb_inode_bitmap_blocks sb) (sb_inode_bitmap_crc sb)
              ''ODF: inode bitmap CRC mismatch (stored=0x'')"

section \<open>Format\<close>

definition system_inode :: "u64 \<Rightarrow> on_disk_inode" where
  "system_inode now =
    \<lparr>i_version = 1, i_kind = SystemPayload, i_mode = 384, i_uid = 0, i_gid = 0, i_link_count = 1,
     i_flags = 0, i_size_bytes = 0, i_blocks_allocated = 0, i_created_at = now, i_modified_at = now,
     i_changed_at = now, i_accessed_at = now, i_generation = 1, i_extents = [],
     i_index_block_addr = 0, i_xattr_block_addr = 0, i_domain_inode_id = 0, i_data_crc = 0\<rparr>"

text \<open>The inode table of a fresh volume: unused records, and the system inode in slot 0.\<close>

definition fresh_inode_table :: "geometry \<Rightarrow> u64 \<Rightarrow> bytes result" where
  "fresh_inode_table geom now =
     rbind (inode_encode inode_unused) (\<lambda>unused.
     rbind (umul (g_inode_table_blocks geom) BLOCK_SIZE) (\<lambda>n.
     rbind (umul (g_inode_table_blocks geom) INODES_PER_BLOCK) (\<lambda>slots.
     let table = put_seq (\<lambda>u. u) INODE_RECORD_SIZE 0 (replicate (unat (min (g_inode_count geom) slots)) unused)
           (zeros (unat n)) in
     rbind (inode_encode (system_inode now)) (\<lambda>sys_enc.
       copy_into 0 sys_enc table))))"

definition format_device :: "'d device_ops \<Rightarrow> u64 \<Rightarrow> format_options \<Rightarrow> ('d, format_report) cmd" where
  "format_device ops now options =
     cbind (cread (\<lambda>d. plan \<lparr>lp_total_blocks = dev_capacity ops d div BLOCK_SIZE,
                             lp_inode_count = fo_inode_count options, lp_journal_blocks = fo_journal_blocks options\<rparr>)) (\<lambda>geom.
     let sb = for_new_volume geom (fo_uuid options) (fo_label options) now in
     cthen (write_block ops RESERVED_BLOCK (zeros (unat BLOCK_SIZE)))
    (cbind (clift (clocal (mark_reserved_blocks geom) (bitmap_new (g_total_blocks geom)))) (\<lambda>block_bitmap.
     cthen (write_blocks ops (g_block_bitmap_start geom) (bm_bits block_bitmap))
    (cbind (clift (clocal (cdrop (bm_set 0)) (bitmap_new (g_inode_count geom)))) (\<lambda>inode_bitmap.
     cthen (write_blocks ops (g_inode_bitmap_start geom) (bm_bits inode_bitmap))
    (cbind (clift (fresh_inode_table geom now)) (\<lambda>table.
     cthen (write_blocks ops (g_inode_table_start geom) table)
    (cthen (zero_fill_region ops (g_journal_start geom) (g_journal_blocks geom))
    (cbind (clift (sb_encode_block sb)) (\<lambda>sb_block.
     cthen (write_superblocks ops geom sb_block)
    (cthen (cdrop (journal_format ops sb))
    (cthen (op_sync ops)
       (cret \<lparr>fr_geometry = geom, fr_uuid = fo_uuid options, fr_generation = sb_generation sb\<rparr>)))))))))))))"

section \<open>Save\<close>

definition trim_extent :: "'d device_ops \<Rightarrow> extent \<Rightarrow> ('d, unit) cmd" where
  "trim_extent ops e =
    (if ext_length_blocks e = 0 then cret ()
     else
       cbind (clift (umul (ext_physical_block e) BLOCK_SIZE)) (\<lambda>offset.
       cbind (clift (umul (ucast (ext_length_blocks e)) BLOCK_SIZE)) (\<lambda>n.
         cignore (op_trim ops offset n))))"

definition trim_extents :: "'d device_ops \<Rightarrow> extent list \<Rightarrow> ('d, unit) cmd" where
  "trim_extents ops extents =
     (\<lambda>d. if \<not> op_supports_trim ops d then (Ok (), d) else cfor (trim_extent ops) extents d)"

text \<open>The discard of the previous payload (\<open>if let Ok(old_inode) = ...\<close>).\<close>

definition trim_old_payload :: "'d device_ops \<Rightarrow> superblock \<Rightarrow> ('d, unit) cmd" where
  "trim_old_payload ops sb =
     (\<lambda>d. case read_inode_record ops d (sb_geometry sb) (sb_payload_inode sb) of
        Ok old \<Rightarrow> if i_kind old = SystemPayload \<and> i_extents old \<noteq> [] then trim_extents ops (i_extents old) d else (Ok (), d)
      | Err _ \<Rightarrow> (Ok (), d)
      | Panic \<Rightarrow> (Panic, d))"

definition payload_inode :: "superblock \<Rightarrow> u64 \<Rightarrow> bytes \<Rightarrow> u64 \<Rightarrow> u64 \<Rightarrow> on_disk_inode" where
  "payload_inode sb now payload needed generation =
    \<lparr>i_version = 1, i_kind = SystemPayload, i_mode = 384, i_uid = 0, i_gid = 0, i_link_count = 1,
     i_flags = 0, i_size_bytes = of_nat (length payload), i_blocks_allocated = needed,
     i_created_at = sb_created_at sb, i_modified_at = now, i_changed_at = now, i_accessed_at = now,
     i_generation = generation,
     i_extents = [\<lparr>ext_logical_block = 0, ext_length_blocks = ucast needed, ext_physical_block = sb_data_start sb\<rparr>],
     i_index_block_addr = 0, i_xattr_block_addr = 0, i_domain_inode_id = 0, i_data_crc = ucast (crc_hash payload)\<rparr>"

definition count_allocated :: "bitmap \<Rightarrow> u64 \<Rightarrow> u64 \<Rightarrow> u64 result" where
  "count_allocated bm from to' =
     rfor (\<lambda>b n. rbind (unwrap_or (is_set bm b) True) (\<lambda>x. Ok (if x then n + 1 else n))) (range64 from to') 0"

definition saved_superblock :: "superblock \<Rightarrow> u64 \<Rightarrow> u64 \<Rightarrow> u64 \<Rightarrow> u64 \<Rightarrow> bitmap \<Rightarrow> bitmap \<Rightarrow> superblock" where
  "saved_superblock sb now generation free_blocks free_inodes block_bitmap inode_bitmap =
     sb\<lparr>sb_generation := generation, sb_last_write_at := now, sb_state := STATE_CLEAN, sb_payload_inode := 0,
        sb_free_blocks := free_blocks, sb_free_inodes := free_inodes,
        sb_block_bitmap_crc := crc_hash (bm_bits block_bitmap), sb_inode_bitmap_crc := crc_hash (bm_bits inode_bitmap),
        sb_layout_mode := LAYOUT_MODE_BLOB, sb_root_inode := 0\<rparr>"

text \<open>Everything after the payload has been serialised: bitmaps, payload, system inode, superblocks.\<close>

definition save_payload :: "'d device_ops \<Rightarrow> superblock \<Rightarrow> u64 \<Rightarrow> bytes \<Rightarrow> ('d, save_report) cmd" where
  "save_payload ops sb now data =
    (let geom = sb_geometry sb;
         payload = data @ le_bytes 4 (crc_hash data);
         needed = div_ceil (of_nat (length payload)) BLOCK_SIZE in
     if needed > g_data_blocks geom then cfail (State ''ODF: payload requires '')
     else
     cbind (clift (clocal (cthen (mark_reserved_blocks geom) (set_range (g_data_start geom) needed))
                     (bitmap_new (g_total_blocks geom)))) (\<lambda>block_bitmap.
     cthen (write_blocks ops (g_block_bitmap_start geom) (bm_bits block_bitmap))
    (cbind (clift (clocal (cdrop (bm_set 0)) (bitmap_new (g_inode_count geom)))) (\<lambda>inode_bitmap.
     cthen (write_blocks ops (g_inode_bitmap_start geom) (bm_bits inode_bitmap))
    (cbind (clift (umul needed BLOCK_SIZE)) (\<lambda>n.
     cbind (clift (copy_into 0 payload (zeros (unat n)))) (\<lambda>buf.
     cthen (write_blocks ops (g_data_start geom) buf)
    (cbind (clift (uadd (sb_generation sb) 1)) (\<lambda>generation.
     cthen (write_inode_record ops geom 0 (payload_inode sb now payload needed generation))
    (cbind (clift (count_allocated block_bitmap (g_data_start geom) (g_total_blocks geom))) (\<lambda>allocated.
     cbind (clift (usub (g_data_blocks geom) allocated)) (\<lambda>free_blocks.
     cbind (clift (usub (g_inode_count geom) 1)) (\<lambda>free_inodes.
     cbind (clift (sb_encode_block (saved_superblock sb now generation free_blocks free_inodes block_bitmap inode_bitmap))) (\<lambda>sb_block.
     cthen (write_superblocks ops geom sb_block)
    (cthen (op_sync ops)
       (cret \<lparr>sr_generation = generation, sr_payload_bytes = of_nat (length payload), sr_payload_blocks = needed\<rparr>))))))))))))))))"

definition save_state :: "('p \<Rightarrow> bytes option) \<Rightarrow> 'd device_ops \<Rightarrow> u64 \<Rightarrow> 'p \<Rightarrow> ('d, save_report) cmd" where
  "save_state ser ops now state =
     cbind (cread (read_sb_with_fallbacks ops)) (\<lambda>sb.
     cthen (trim_old_payload ops sb)
    (cbind (clift (opt_or (ser state) (State ''ODF: failed to serialize PersistedState: ''))) (\<lambda>data.
       save_payload ops sb now data)))"

section \<open>Load\<close>

fun read_extents :: "'d device_ops \<Rightarrow> 'd \<Rightarrow> extent list \<Rightarrow> nat \<Rightarrow> bytes \<Rightarrow> bytes result" where
  "read_extents ops d [] remaining raw = Ok raw"
| "read_extents ops d (e # es) remaining raw =
     rbind (umul (ext_physical_block e) BLOCK_SIZE) (\<lambda>byte_offset.
     rbind (umul (ucast (ext_length_blocks e)) BLOCK_SIZE) (\<lambda>byte_len.
     rbind (op_read_at ops d byte_offset byte_len) (\<lambda>block_data.
     let wanted = min remaining (length block_data) in
     read_extents ops d es (remaining - wanted) (raw @ take wanted block_data))))"

definition load_payload :: "'d device_ops \<Rightarrow> 'd \<Rightarrow> bytes result" where
  "load_payload ops d =
     rbind (read_sb_with_fallbacks ops d) (\<lambda>sb.
     rbind (verify_bitmap_integrity ops d sb) (\<lambda>_.
     rbind (read_inode_record ops d (sb_geometry sb) (sb_payload_inode sb)) (\<lambda>inode.
     if i_kind inode \<noteq> SystemPayload then Err (State ''payload inode #'')
     else if i_extents inode = [] then Err (State ''ODF: system payload inode has no extents'')
     else
     rbind (read_extents ops d (sort_key ext_logical_block (i_extents inode)) (unat (i_size_bytes inode)) []) (\<lambda>raw.
     if length raw \<noteq> unat (i_size_bytes inode) then Err (State ''ODF: payload extents did not cover declared size'')
     else if length raw < PAYLOAD_CRC_TRAILER_BYTES then Err (State ''ODF: payload is shorter than CRC trailer'')
     else
     let data = take (length raw - PAYLOAD_CRC_TRAILER_BYTES) raw;
         stored_crc = from_le (drop (length raw - PAYLOAD_CRC_TRAILER_BYTES) raw) in
     if stored_crc \<noteq> crc_hash data then Err (State ''ODF: payload CRC mismatch (stored=0x'')
     else Ok data))))"

definition load_state :: "(bytes \<Rightarrow> 'p option) \<Rightarrow> 'd device_ops \<Rightarrow> 'd \<Rightarrow> 'p result" where
  "load_state deser ops d =
     rbind (load_payload ops d) (\<lambda>data. opt_or (deser data) (State ''ODF: failed to deserialize PersistedState: ''))"

end
