(* ===== verification/Volume_Spec.thy ===== *)
theory Volume_Spec
  imports Volume Journal_Log
begin

text \<open>
  What formatting, saving and loading do to the bytes of a device: the contract of the device, the
  writes each operation issues, and what is read back afterwards.
\<close>

section \<open>Bitmaps built from a list of spans\<close>

context allocation_map
begin

lemma mark_span_drop:
  assumes "inv m" "unat s + n \<le> unat (limit m)"
  shows "\<exists>m'. cfor (\<lambda>i. cbind (clift (uadd s i)) (\<lambda>b. cdrop (mark b))) (map of_nat [0..<n]) m = (Ok (), m')
     \<and> taken m' = taken m \<union> {unat s..<unat s + n} \<and> inv m' \<and> limit m' = limit m"
proof -
  let ?is = "map of_nat [0..<n] :: u64 list"
  note units = span_units [OF assms(2)]
  have in_limit: "j < limit m" if "j \<in> set (map (\<lambda>i. s + i) ?is)" for j
    using that units(1) by auto
  have "cfor (\<lambda>i. cbind (clift (uadd s i)) (\<lambda>b. cdrop (mark b))) ?is m = cfor (\<lambda>i. cdrop (mark (s + i))) ?is m"
    by (rule cfor_same [where P = "\<lambda>_. True"]) (use units(1) in \<open>auto simp: cbind_run(1) [where m = "clift _"] simp del: set_map\<close>)
  then show ?thesis
    using mark_all [OF assms(1), of "map (\<lambda>i. s + i) ?is", OF in_limit, unfolded cfor_map [where f = "\<lambda>i. s + i"] units(2)]
    by simp
qed

end

text \<open>The bitmap with its length as part of the invariant.\<close>

interpretation sized: allocation_map bm_set bm_clear is_set used bm_capacity
  "\<lambda>bm. wf_bitmap bm \<and> length (bm_bits bm) = n" for n
proof unfold_locales
  fix m i
  assume w: "wf_bitmap m \<and> length (bm_bits m) = n" "i < bm_capacity m"
  show "\<exists>m'. bm_set i m = (Ok (unat i \<notin> used m), m') \<and> used m' = insert (unat i) (used m)
      \<and> (wf_bitmap m' \<and> length (bm_bits m') = n) \<and> bm_capacity m' = bm_capacity m"
    using bm_set_ok [OF conjunct1 [OF w(1)] w(2)] w(1) by metis
  show "\<exists>m'. bm_clear i m = (Ok (unat i \<in> used m), m') \<and> used m' = used m - {unat i}
      \<and> (wf_bitmap m' \<and> length (bm_bits m') = n) \<and> bm_capacity m' = bm_capacity m"
    using bm_clear_ok [OF conjunct1 [OF w(1)] w(2)] w(1) by metis
  show "is_set m i = Ok (unat i \<in> used m)"
    using is_set_ok w by blast
qed

text \<open>A command that only marks units: it ends, marks \<open>S\<close> and keeps the rest of the bitmap.\<close>

definition marks :: "(bitmap, unit) cmd \<Rightarrow> bitmap \<Rightarrow> nat set \<Rightarrow> bitmap \<Rightarrow> bool" where
  "marks m bm S bm' \<longleftrightarrow> m bm = (Ok (), bm') \<and> used bm' = used bm \<union> S \<and> wf_bitmap bm'
     \<and> length (bm_bits bm') = length (bm_bits bm) \<and> bm_capacity bm' = bm_capacity bm"

lemma marks_set: "wf_bitmap bm \<Longrightarrow> i < bm_capacity bm \<Longrightarrow> \<exists>bm'. marks (cdrop (bm_set i)) bm {unat i} bm'"
  using sized.mark_law [of bm "length (bm_bits bm)" i] by (auto simp: marks_def cdrop_run)

lemma marks_range:
  "wf_bitmap bm \<Longrightarrow> unat s + unat n \<le> unat (bm_capacity bm) \<Longrightarrow> \<exists>bm'. marks (set_range s n) bm {unat s..<unat s + unat n} bm'"
  using sized.mark_span_drop [of bm "length (bm_bits bm)" s "unat n"] by (auto simp: marks_def set_range_def range64_def)

lemma marks_then:
  assumes "\<exists>bm1. marks m bm S bm1" "\<And>bm1. marks m bm S bm1 \<Longrightarrow> \<exists>bm2. marks k bm1 S' bm2"
  shows "\<exists>bm2. marks (cthen m k) bm (S \<union> S') bm2"
proof -
  obtain bm1 where m: "marks m bm S bm1"
    using assms(1) ..
  then obtain bm2 where "marks k bm1 S' bm2"
    using assms(2) by blast
  then show ?thesis
    using m by (intro exI [of _ bm2]) (auto simp: marks_def cthen_run)
qed

lemma marks_sel:
  "marks m bm S bm' \<Longrightarrow> wf_bitmap bm'" "marks m bm S bm' \<Longrightarrow> bm_capacity bm' = bm_capacity bm"
  by (simp_all add: marks_def)

section \<open>The reserved blocks of a planned volume\<close>

definition reserved :: "geometry \<Rightarrow> nat set" where
  "reserved g = {..<unat (g_data_start g)} \<union> {unat (g_tertiary_superblock_block g), unat (g_secondary_superblock_block g)}"

lemma mark_reserved_ok:
  assumes "plan p = Ok g" "wf_bitmap bm" "bm_capacity bm = g_total_blocks g"
  shows "\<exists>bm'. marks (mark_reserved_blocks g) bm (reserved g) bm'"
proof -
  note n = plan_Ok_nat [OF assms(1)]
  have w: "unat (g_secondary_superblock_block g) = unat (g_total_blocks g) - 1"
    "unat (g_tertiary_superblock_block g) = unat (g_total_blocks g) div 2"
    using plan_wf [OF assms(1)] by (simp_all add: wf_geometry_def)
  let ?span = "\<lambda>s k. {unat (s g)..<unat (s g) + unat (k g)}"
  let ?S = "{unat RESERVED_BLOCK} \<union> ({unat PRIMARY_SUPERBLOCK_BLOCK} \<union> (?span g_block_bitmap_start g_block_bitmap_blocks
    \<union> (?span g_inode_bitmap_start g_inode_bitmap_blocks \<union> (?span g_inode_table_start g_inode_table_blocks
    \<union> (?span g_journal_start g_journal_blocks \<union> ({unat (g_tertiary_superblock_block g)} \<union> {unat (g_secondary_superblock_block g)}))))))"
  have "\<exists>bm'. marks (mark_reserved_blocks g) bm ?S bm'"
    unfolding mark_reserved_blocks_def
    by (intro marks_then marks_set marks_range; (simp add: assms marks_sel)?)
      (use n w in \<open>simp_all add: word_less_nat_alt assms marks_sel\<close>)
  moreover have "?S = reserved g"
    using n w unfolding reserved_def by auto
  ultimately show ?thesis
    by simp
qed

section \<open>The contract of a device that carries a volume\<close>

text \<open>
  Beyond a \<open>sector_device\<close>: the capacity is the length of the image, and a discard changes at most
  the bytes it names, whatever it reports.
\<close>

locale volume_device = sector_device ops image inv
  for ops :: "'d device_ops" and image :: "'d \<Rightarrow> bytes" and inv :: "'d \<Rightarrow> bool" +
  assumes capacity_law: "inv d \<Longrightarrow> length (image d) = unat (dev_capacity ops d)"
    and trim_law: "inv d \<Longrightarrow> \<exists>r d'. op_trim ops off len d = (r, d') \<and> r \<noteq> Panic \<and> inv d' \<and> op_geometry ops d' = op_geometry ops d
      \<and> length (image d') = length (image d)
      \<and> (\<forall>i < length (image d). i < unat off \<or> unat off + unat len \<le> i \<longrightarrow> image d' ! i = image d ! i)"
begin

text \<open>A command that ends with \<open>x\<close> after the writes \<open>ws\<close>.\<close>

definition stores :: "('d, 'a) cmd \<Rightarrow> 'd \<Rightarrow> (nat \<times> bytes) list \<Rightarrow> 'a \<Rightarrow> 'd \<Rightarrow> bool" where
  "stores m d ws x d' \<longleftrightarrow> m d = (Ok x, d') \<and> inv d' \<and> op_geometry ops d' = op_geometry ops d
     \<and> within (length (image d)) ws \<and> image d' = puts ws (image d)"

lemma stores_length: "stores m d ws x d' \<Longrightarrow> length (image d') = length (image d)"
  by (auto simp: stores_def)

lemma stores_inv: "stores m d ws x d' \<Longrightarrow> inv d'"
  by (simp add: stores_def)

lemma stores_then:
  assumes "\<exists>d1. stores m d ws () d1" "\<And>d1. stores m d ws () d1 \<Longrightarrow> \<exists>d2. stores k d1 ws' x d2"
  shows "\<exists>d2. stores (cthen m k) d (ws @ ws') x d2"
proof -
  obtain d1 where m: "stores m d ws () d1"
    using assms(1) ..
  then obtain d2 where "stores k d1 ws' x d2"
    using assms(2) by blast
  then show ?thesis
    using m stores_length [OF m] by (intro exI [of _ d2]) (simp add: stores_def cthen_run puts_append)
qed

lemma stores_lift: "r = Ok y \<Longrightarrow> \<exists>d2. stores (f y) d ws x d2 \<Longrightarrow> \<exists>d2. stores (cbind (clift r) f) d ws x d2"
  by (simp add: stores_def cbind_run(1) [where m = "clift _"])

lemma stores_read: "f d = Ok y \<Longrightarrow> \<exists>d2. stores (k y) d ws x d2 \<Longrightarrow> \<exists>d2. stores (cbind (cread f) k) d ws x d2"
  by (simp add: stores_def cbind_run(1) [where m = "cread _"])

lemma stores_ret: "inv d \<Longrightarrow> \<exists>d2. stores (cret x) d [] x d2"
  by (simp add: stores_def)

lemma stores_sync: "inv d \<Longrightarrow> \<exists>d2. stores (op_sync ops) d [] () d2"
  using lossy_sync_law [of d] by (auto simp: stores_def)

lemma stores_write:
  assumes "inv d" "unat off + length data \<le> length (image d)" "4096 dvd unat off" "4096 dvd length data"
  shows "\<exists>d2. stores (op_write_at ops off data) d [(unat off, data)] () d2"
proof -
  have al: "unat (dev_sector_size ops d) dvd n" if "4096 dvd n" for n
    using that sector_size_law [OF assms(1)] dvd_trans by blast
  show ?thesis
    using lossy_write_law [OF assms(1) al [OF assms(3)] al [OF assms(4)] assms(2)] assms(2) by (auto simp: stores_def)
qed

lemma block_bytes:
  assumes "inv d" "unat b * 4096 + n \<le> length (image d)"
  shows "umul b BLOCK_SIZE = Ok (b * BLOCK_SIZE)" "unat (b * BLOCK_SIZE) = unat b * 4096" "n < 2 ^ 64"
  using assms sector_size_law [OF assms(1)] by (auto simp: umul_def unat_mul_ok)

lemma stores_write_blocks:
  assumes "inv d" "unat b * 4096 + length data \<le> length (image d)" "4096 dvd length data"
  shows "\<exists>d2. stores (write_blocks ops b data) d [(unat b * 4096, data)] () d2"
proof -
  note b = block_bytes [OF assms(1,2)]
  have "unat (of_nat (length data) :: u64) = length data"
    using b(3) by (intro unat_of_nat_ok) simp
  then have "(of_nat (length data) :: u64) mod BLOCK_SIZE = 0"
    using assms(3) by (simp add: word_unat_eq_iff unat_mod dvd_eq_mod_eq_0)
  then have skip: "cthen (clift (if (of_nat (length data) :: u64) mod BLOCK_SIZE = 0 then Ok () else Panic)) k = k" for k :: "('d, unit) cmd"
    by (simp add: fun_eq_iff cthen_run)
  show ?thesis
    unfolding write_blocks_def skip using stores_write [OF assms(1), of "b * BLOCK_SIZE" data] assms(2,3) b
    by (intro stores_lift [where y = "b * BLOCK_SIZE"]) simp_all
qed

lemma stores_write_block:
  assumes "inv d" "unat b * 4096 + 4096 \<le> length (image d)" "length data = 4096"
  shows "\<exists>d2. stores (write_block ops b data) d [(unat b * 4096, data)] () d2"
proof -
  have skip: "cthen (clift (if (of_nat (length data) :: u64) = BLOCK_SIZE then Ok () else Panic)) k = k" for k :: "('d, unit) cmd"
    using assms(3) by (simp add: fun_eq_iff cthen_run BLOCK_SIZE_def)
  show ?thesis
    unfolding write_block_def skip using stores_write [OF assms(1), of "b * BLOCK_SIZE" data] assms(2,3) block_bytes [OF assms(1,2)]
    by (intro stores_lift [where y = "b * BLOCK_SIZE"]) simp_all
qed

lemma read_blocks:
  assumes "inv d" "unat b * 4096 + unat n \<le> length (image d)" "4096 dvd unat n"
  shows "op_read_at ops d (b * BLOCK_SIZE) n = Ok (cut (unat b * 4096) (unat n) (image d))"
  using read_law [OF assms(1), of "b * BLOCK_SIZE" n] assms(2,3) block_bytes(2) [OF assms(1,2)] by simp

lemma read_one_block:
  assumes "inv d" "unat b * 4096 + 4096 \<le> length (image d)"
  shows "op_read_at ops d (b * BLOCK_SIZE) BLOCK_SIZE = Ok (cut (unat b * 4096) 4096 (image d))"
  using read_blocks [OF assms(1), of b BLOCK_SIZE] assms(2) by simp

section \<open>Inode records\<close>

lemma stores_inode:
  assumes "inv d" "plan p = Ok g" "i < g_inode_count g" "unat (g_total_blocks g) * 4096 \<le> length (image d)"
    and "length (i_extents inode) \<le> 8"
  shows "\<exists>d2. stores (write_inode_record ops g i inode) d
    [(unat (g_inode_table_start g) * 4096 + unat i * 256, crc_seal 252 (inode_body inode))] () d2"
proof -
  obtain b off where l: "inode_record_location g i = Ok (b, off)" "unat (g_inode_table_start g) \<le> unat b"
    "unat b < unat (g_inode_table_start g) + unat (g_inode_table_blocks g)" "unat off + 256 \<le> 4096"
    "(unat b - unat (g_inode_table_start g)) * 4096 + unat off = unat i * 256"
    using inode_location [OF assms(2,3)] by blast
  note n = plan_Ok_nat [OF assms(2)]
  have fits: "unat b * 4096 + 4096 \<le> length (image d)"
  proof -
    have "unat b + 1 \<le> unat (g_total_blocks g)"
      using l(3) n by linarith
    then have "(unat b + 1) * 4096 \<le> unat (g_total_blocks g) * 4096"
      by (rule mult_right_mono) simp
    then show ?thesis
      using assms(4) by simp
  qed
  have at: "unat b * 4096 + unat off = unat (g_inode_table_start g) * 4096 + unat i * 256"
    using l(2,5) by (simp add: diff_mult_distrib)
  let ?enc = "crc_seal 252 (inode_body inode)" and ?blk = "cut (unat b * 4096) 4096 (image d)"
  have len: "length ?enc = 256" "length ?blk = 4096"
    using assms(5) fits by simp_all
  have put: "put (unat b * 4096) (put (unat off) ?enc ?blk) (image d) = put (unat b * 4096 + unat off) ?enc (image d)"
    using put_in_cut [of "unat b * 4096" "unat b * 4096 + unat off" ?enc 4096 "image d"] l(4) len(1) fits by simp
  obtain d2 where d2: "stores (write_block ops b (put (unat off) ?enc ?blk)) d [(unat b * 4096, put (unat off) ?enc ?blk)] () d2"
    using stores_write_block [OF assms(1) fits, of "put (unat off) ?enc ?blk"] len l(4) by auto
  then have "stores (write_block ops b (put (unat off) ?enc ?blk)) d [(unat b * 4096 + unat off, ?enc)] () d2"
    using put l(4) len fits by (simp add: stores_def)
  then have "\<exists>d2. stores (write_inode_record ops g i inode) d [(unat b * 4096 + unat off, ?enc)] () d2"
    unfolding write_inode_record_def using l(1,4) len read_one_block [OF assms(1) fits] block_bytes(1) [OF assms(1) fits] assms(5)
    by (intro stores_lift [where y = "(b, off)"]) (auto intro!: stores_lift stores_read simp: inode_encode_eq copy_into_def)
  then show ?thesis
    unfolding at .
qed

lemma read_inode_stored:
  assumes "inv d" "plan p = Ok g" "i < g_inode_count g" "unat (g_total_blocks g) * 4096 \<le> length (image d)"
  shows "read_inode_record ops d g i = inode_decode (cut (unat (g_inode_table_start g) * 4096 + unat i * 256) 256 (image d))"
proof -
  obtain b off where l: "inode_record_location g i = Ok (b, off)" "unat (g_inode_table_start g) \<le> unat b"
    "unat b < unat (g_inode_table_start g) + unat (g_inode_table_blocks g)" "unat off + 256 \<le> 4096"
    "(unat b - unat (g_inode_table_start g)) * 4096 + unat off = unat i * 256"
    using inode_location [OF assms(2,3)] by blast
  note n = plan_Ok_nat [OF assms(2)]
  have "unat b + 1 \<le> unat (g_total_blocks g)"
    using l(3) n by linarith
  then have "(unat b + 1) * 4096 \<le> unat (g_total_blocks g) * 4096"
    by (rule mult_right_mono) simp
  then have fits: "unat b * 4096 + 4096 \<le> length (image d)"
    using assms(4) by simp
  have at: "unat b * 4096 + unat off = unat (g_inode_table_start g) * 4096 + unat i * 256"
    using l(2,5) by (simp add: diff_mult_distrib)
  show ?thesis
    using l(1,4) read_one_block [OF assms(1) fits] block_bytes(1) [OF assms(1) fits] fits at
    by (simp add: read_inode_record_def cut_res_def cut_cut)
qed

end

end
