(* ===== verification/Volume_Save.thy ===== *)
theory Volume_Save
  imports Volume_Spec
begin

text \<open>
  The writes of \<open>save_state\<close> and what loading finds after them.
\<close>

section \<open>The bitmaps of a save\<close>

lemma total_small:
  assumes "plan p = Ok g" "unat (g_total_blocks g) * 4096 < 2 ^ 64"
  shows "unat (g_total_blocks g) < 2 ^ 60" "unat (g_inode_count g) < 2 ^ 60" "0 < unat (g_inode_count g)"
proof -
  have w: "unat (g_inode_count g) \<le> unat (g_inode_table_blocks g) * 16" "0 < unat (g_inode_count g)"
    using plan_wf [OF assms(1)] by (simp_all add: wf_geometry_def)
  have "unat (g_inode_table_blocks g) \<le> unat (g_total_blocks g)"
    using plan_Ok_nat [OF assms(1)] by linarith
  then show "unat (g_inode_count g) < 2 ^ 60"
    using w assms(2) by simp
  show "unat (g_total_blocks g) < 2 ^ 60" "0 < unat (g_inode_count g)"
    using w assms(2) by simp_all
qed

lemma length_new:
  assumes "unat capacity < 2 ^ 60" "capacity \<noteq> 0"
  shows "length (bm_bits (bitmap_new capacity)) = (unat capacity + 32767) div 32768 * 4096"
proof -
  have "4096 dvd length (bm_bits (bitmap_new capacity))"
    using bitmap_new_ok(1) [OF assms(1)] by (simp add: wf_bitmap_def)
  then have "length (bm_bits (bitmap_new capacity)) = block_count (bitmap_new capacity) * 4096"
    by (simp add: block_count_def)
  moreover have "0 < unat capacity"
    using assms(2) by (simp add: unat_gt_0)
  then have "1 \<le> (unat capacity + 32767) div 32768"
    by linarith
  ultimately show ?thesis
    using bitmap_new_ok(4) [OF assms(1)] by (simp add: max_def)
qed

lemma clocal_marks: "marks m bm S bm' \<Longrightarrow> clocal m bm = Ok bm'"
  by (simp add: clocal_def marks_def)

lemma save_bitmap:
  assumes "plan p = Ok g" "unat (g_total_blocks g) * 4096 < 2 ^ 64" "unat (g_data_start g) + unat needed \<le> unat (g_total_blocks g)"
  shows "\<exists>bm. clocal (cthen (mark_reserved_blocks g) (set_range (g_data_start g) needed)) (bitmap_new (g_total_blocks g)) = Ok bm
    \<and> used bm = reserved g \<union> {unat (g_data_start g)..<unat (g_data_start g) + unat needed} \<and> wf_bitmap bm
    \<and> length (bm_bits bm) = unat (g_block_bitmap_blocks g) * 4096 \<and> bm_capacity bm = g_total_blocks g"
proof -
  let ?bm = "bitmap_new (g_total_blocks g)"
  note s = total_small [OF assms(1,2)] and n = plan_Ok_nat [OF assms(1)] and f = plan_Ok_fields [OF assms(1)]
  note new = bitmap_new_ok [OF s(1)]
  have "\<exists>bm'. marks (cthen (mark_reserved_blocks g) (set_range (g_data_start g) needed)) ?bm
      (reserved g \<union> {unat (g_data_start g)..<unat (g_data_start g) + unat needed}) bm'"
    using new assms(3)
    by (intro marks_then mark_reserved_ok [OF assms(1)] marks_range) (simp_all add: marks_sel)
  then obtain bm' where m: "marks (cthen (mark_reserved_blocks g) (set_range (g_data_start g) needed)) ?bm
      (reserved g \<union> {unat (g_data_start g)..<unat (g_data_start g) + unat needed}) bm'" ..
  have "g_total_blocks g \<noteq> 0"
    using n(8) by auto
  then have "length (bm_bits ?bm) = unat (g_block_bitmap_blocks g) * 4096"
    using length_new [OF s(1)] f(1,4) by simp
  then show ?thesis
    using clocal_marks [OF m] m new by (intro exI [of _ bm']) (simp add: marks_def)
qed

lemma save_inode_bitmap:
  assumes "plan p = Ok g" "unat (g_total_blocks g) * 4096 < 2 ^ 64"
  shows "\<exists>bm. clocal (cdrop (bm_set 0)) (bitmap_new (g_inode_count g)) = Ok bm
    \<and> used bm = {0} \<and> wf_bitmap bm \<and> length (bm_bits bm) = unat (g_inode_bitmap_blocks g) * 4096
    \<and> bm_capacity bm = g_inode_count g"
proof -
  let ?bm = "bitmap_new (g_inode_count g)"
  note s = total_small [OF assms(1,2)] and f = plan_Ok_fields [OF assms(1)]
  note new = bitmap_new_ok [OF s(2)]
  have "(0 :: u64) < bm_capacity ?bm"
    using s(3) new(3) by (simp add: word_less_nat_alt)
  then obtain bm' where m: "marks (cdrop (bm_set 0)) ?bm {unat (0 :: u64)} bm'"
    using marks_set [OF new(1)] by blast
  have "length (bm_bits ?bm) = unat (g_inode_bitmap_blocks g) * 4096"
    using length_new [OF s(2)] f(2,5,9) by simp
  then show ?thesis
    using clocal_marks [OF m] m new by (intro exI [of _ bm']) (simp add: marks_def)
qed

lemma count_allocated_card:
  assumes "wf_bitmap bm" "unat to' \<le> unat (bm_capacity bm)"
  shows "\<exists>n. count_allocated bm from to' = Ok n \<and> unat n \<le> unat to' - unat from"
proof -
  let ?step = "\<lambda>(b :: u64) n. if unat b \<in> used bm then n + 1 else (n :: u64)"
  have "count_allocated bm from to' = Ok (fold ?step (range64 from to') 0)"
    unfolding count_allocated_def
  proof (rule rfor_fold)
    fix b n
    assume "b \<in> set (range64 from to')"
    then have "b < bm_capacity bm"
      using assms(2) by (auto simp: set_range64 word_less_nat_alt)
    then show "rbind (unwrap_or (is_set bm b) True) (\<lambda>x. Ok (if x then n + 1 else n)) = Ok (?step b n)"
      by (simp add: is_set_ok [OF assms(1)] unwrap_or_def)
  qed
  moreover have "unat (fold ?step bs n) \<le> unat n + length bs" for bs n
  proof (induction bs arbitrary: n)
    case (Cons b bs)
    have "unat (?step b n) \<le> unat n + 1"
      by (simp add: unat_word_ariths)
    then show ?case
      using Cons [of "?step b n"] by simp
  qed simp
  from this [of "range64 from to'" 0] have "unat (fold ?step (range64 from to') 0) \<le> unat to' - unat from"
    by simp
  ultimately show ?thesis
    by blast
qed

section \<open>The previous payload is discarded\<close>

lemma kind_from_u16_no_panic: "kind_from_u16 v \<noteq> Panic"
  by (simp add: kind_from_u16_def)

lemma inode_decode_no_panic: "inode_decode r \<noteq> Panic"
  using kind_from_u16_no_panic by (auto simp: inode_decode_def Let_def rbind_Panic_iff split: if_splits)

text \<open>The extents the discard goes over.\<close>

definition old_extents :: "'d device_ops \<Rightarrow> 'd \<Rightarrow> superblock \<Rightarrow> extent list" where
  "old_extents ops d sb =
    (case read_inode_record ops d (sb_geometry sb) (sb_payload_inode sb) of
       Ok old \<Rightarrow> if i_kind old = SystemPayload then i_extents old else []
     | _ \<Rightarrow> [])"

definition addressable :: "extent \<Rightarrow> bool" where
  "addressable e \<longleftrightarrow> unat (ext_physical_block e) * 4096 < 2 ^ 64"

context volume_device
begin

text \<open>The device after some discards: same size and geometry, any bytes.\<close>

definition discarded :: "'d \<Rightarrow> 'd \<Rightarrow> bool" where
  "discarded d d' \<longleftrightarrow> inv d' \<and> op_geometry ops d' = op_geometry ops d \<and> length (image d') = length (image d)"

lemma trim_extent_ok:
  assumes "inv d" "addressable e"
  shows "\<exists>d'. trim_extent ops e d = (Ok (), d') \<and> discarded d d'"
proof (cases "ext_length_blocks e = 0")
  case True
  then show ?thesis
    using assms(1) by (simp add: trim_extent_def discarded_def)
next
  case False
  have "umul (ext_physical_block e) BLOCK_SIZE = Ok (ext_physical_block e * BLOCK_SIZE)"
    using assms(2) by (simp add: umul_def addressable_def)
  moreover have "unat (ext_length_blocks e) * 4096 < 2 ^ 64"
    using unat_lt [of "ext_length_blocks e"] by simp
  then have "umul (ucast (ext_length_blocks e)) BLOCK_SIZE = Ok (ucast (ext_length_blocks e) * BLOCK_SIZE)"
    by (simp add: umul_def unat_ucast_u32)
  moreover obtain r d' where t: "op_trim ops (ext_physical_block e * BLOCK_SIZE) (ucast (ext_length_blocks e) * BLOCK_SIZE) d = (r, d')"
    "r \<noteq> Panic" "discarded d d'"
    using trim_law [OF assms(1), of "ext_physical_block e * BLOCK_SIZE" "ucast (ext_length_blocks e) * BLOCK_SIZE"]
    by (auto simp: discarded_def)
  then have "cignore (op_trim ops (ext_physical_block e * BLOCK_SIZE) (ucast (ext_length_blocks e) * BLOCK_SIZE)) d = (Ok (), d')"
    by (cases r) (auto simp: cignore_def)
  ultimately show ?thesis
    using False t(3) by (simp add: trim_extent_def cbind_run(1) [where m = "clift _"])
qed

lemma discarded_trans: "discarded d d' \<Longrightarrow> discarded d' d'' \<Longrightarrow> discarded d d''"
  by (simp add: discarded_def)

lemma trim_list_ok:
  "inv d \<Longrightarrow> \<forall>e \<in> set es. addressable e \<Longrightarrow> \<exists>d'. cfor (trim_extent ops) es d = (Ok (), d') \<and> discarded d d'"
proof (induction es arbitrary: d)
  case (Cons e es)
  obtain d1 where d1: "trim_extent ops e d = (Ok (), d1)" "discarded d d1"
    using trim_extent_ok Cons.prems by (meson list.set_intros(1))
  then obtain d2 where "cfor (trim_extent ops) es d1 = (Ok (), d2)" "discarded d1 d2"
    using Cons.IH [of d1] Cons.prems by (auto simp: discarded_def)
  then show ?case
    using d1 discarded_trans by (auto simp: cthen_run)
qed (simp add: discarded_def)

lemma read_inode_no_panic:
  assumes "inv d" "plan p = Ok g" "unat (g_total_blocks g) * 4096 \<le> length (image d)"
  shows "read_inode_record ops d g i \<noteq> Panic"
proof (cases "i < g_inode_count g")
  case True
  then show ?thesis
    using read_inode_stored [OF assms(1,2) _ assms(3)] inode_decode_no_panic by simp
qed (simp add: read_inode_record_def inode_record_location_def linorder_not_less)

lemma trim_old_ok:
  assumes "inv d" "plan p = Ok (sb_geometry sb)" "unat (sb_total_blocks sb) * 4096 \<le> length (image d)"
    and "\<forall>e \<in> set (old_extents ops d sb). addressable e"
  shows "\<exists>d'. trim_old_payload ops sb d = (Ok (), d') \<and> discarded d d'"
proof -
  have "read_inode_record ops d (sb_geometry sb) (sb_payload_inode sb) \<noteq> Panic"
    using assms(3) by (intro read_inode_no_panic [OF assms(1,2)]) (simp add: sb_geometry_def)
  moreover have "discarded d d"
    using assms(1) by (simp add: discarded_def)
  moreover have "\<exists>d'. cfor (trim_extent ops) es d = (Ok (), d') \<and> discarded d d'" if "\<forall>e \<in> set es. addressable e" for es
    by (rule trim_list_ok [OF assms(1) that])
  ultimately show ?thesis
    using assms(4) by (auto simp: trim_old_payload_def trim_extents_def old_extents_def split: result.splits if_splits)
qed

section \<open>The writes of a save\<close>

lemma stores_superblocks:
  assumes "inv d" "plan p = Ok g" "unat (g_total_blocks g) * 4096 \<le> length (image d)" "length b = 4096"
  shows "\<exists>d2. stores (write_superblocks ops g b) d
    [(4096, b), (unat (g_tertiary_superblock_block g) * 4096, b), (unat (g_secondary_superblock_block g) * 4096, b)] () d2"
proof -
  have w: "unat (g_secondary_superblock_block g) = unat (g_total_blocks g) - 1" "64 \<le> unat (g_total_blocks g)"
    "unat (g_tertiary_superblock_block g) = unat (g_total_blocks g) div 2"
    using plan_wf [OF assms(2)] plan_Ok_nat(8) [OF assms(2)] by (simp_all add: wf_geometry_def)
  have k: "k * 4096 + 4096 \<le> length (image d)" if "k < unat (g_total_blocks g)" for k
    using that assms(3) by linarith
  have fits: "unat PRIMARY_SUPERBLOCK_BLOCK * 4096 + 4096 \<le> length (image d)"
    "unat (g_tertiary_superblock_block g) * 4096 + 4096 \<le> length (image d)"
    "unat (g_secondary_superblock_block g) * 4096 + 4096 \<le> length (image d)"
    using k [of 1] k [of "unat (g_tertiary_superblock_block g)"] k [of "unat (g_secondary_superblock_block g)"] w by simp_all
  have "\<exists>d2. stores (write_superblocks ops g b) d ([(unat PRIMARY_SUPERBLOCK_BLOCK * 4096, b)] @
      [(unat (g_tertiary_superblock_block g) * 4096, b)] @ [(unat (g_secondary_superblock_block g) * 4096, b)]) () d2"
    unfolding write_superblocks_def using assms(1,4) fits
    by (intro stores_then stores_write_block) (auto simp: stores_inv stores_length)
  then show ?thesis
    by simp
qed

end

text \<open>The writes, in order: both bitmaps, the payload, the system inode and the three superblocks.\<close>

definition save_writes :: "geometry \<Rightarrow> bitmap \<Rightarrow> bitmap \<Rightarrow> bytes \<Rightarrow> on_disk_inode \<Rightarrow> bytes \<Rightarrow> (nat \<times> bytes) list" where
  "save_writes g bb ib buf ino b =
     [(unat (g_block_bitmap_start g) * 4096, bm_bits bb), (unat (g_inode_bitmap_start g) * 4096, bm_bits ib),
      (unat (g_data_start g) * 4096, buf), (unat (g_inode_table_start g) * 4096, crc_seal 252 (inode_body ino)),
      (4096, b), (unat (g_tertiary_superblock_block g) * 4096, b), (unat (g_secondary_superblock_block g) * 4096, b)]"

text \<open>The payload as it is stored: the data, its checksum, and zeros up to the next block.\<close>

definition sealed_payload :: "bytes \<Rightarrow> bytes" where
  "sealed_payload data = data @ le_bytes 4 (crc_hash data)"

definition payload_blocks :: "bytes \<Rightarrow> nat" where
  "payload_blocks data = (length data + 4 + 4095) div 4096"

definition padded_payload :: "bytes \<Rightarrow> bytes" where
  "padded_payload data = sealed_payload data @ zeros (payload_blocks data * 4096 - (length data + 4))"

lemma payload_fits: "length data + 4 \<le> payload_blocks data * 4096"
  using ceil_ge [of 4096 "length data + 4"] by (simp add: payload_blocks_def)

lemma payload_lengths [simp]:
  "length (sealed_payload data) = length data + 4" "length (padded_payload data) = payload_blocks data * 4096"
  using payload_fits [of data] by (simp_all add: sealed_payload_def padded_payload_def)

lemma payload_words:
  assumes "length data < 2 ^ 63"
  shows "unat (div_ceil (of_nat (length (sealed_payload data))) BLOCK_SIZE) = payload_blocks data"
    "unat (of_nat (length (sealed_payload data)) :: u64) = length data + 4"
proof -
  show l: "unat (of_nat (length (sealed_payload data)) :: u64) = length data + 4"
    using assms by (subst unat_of_nat_ok) simp_all
  then show "unat (div_ceil (of_nat (length (sealed_payload data))) BLOCK_SIZE) = payload_blocks data"
    by (subst unat_div_ceil) (simp_all add: payload_blocks_def del: payload_lengths of_nat_add)
qed

context volume_device
begin

text \<open>One write of a save, and the rest on the device after it.\<close>

lemma stores_next:
  assumes "inv d" "length (image d) = n" "\<And>d1. inv d1 \<Longrightarrow> length (image d1) = n \<Longrightarrow> \<exists>d2. stores k d1 ws' x d2"
    and "\<exists>d1. stores m d ws () d1"
  shows "\<exists>d2. stores (cthen m k) d (ws @ ws') x d2"
  by (rule stores_then [OF assms(4)], rule assms(3)) (use assms(1,2) stores_inv stores_length in \<open>metis+\<close>)

lemma stores_next_blocks:
  assumes "unat b * 4096 + length data \<le> n" "4096 dvd length data" "inv d" "length (image d) = n"
    and "\<And>d1. inv d1 \<Longrightarrow> length (image d1) = n \<Longrightarrow> \<exists>d2. stores k d1 ws x d2"
  shows "\<exists>d2. stores (cthen (write_blocks ops b data) k) d ((unat b * 4096, data) # ws) x d2"
  using stores_next [OF assms(3-5) stores_write_blocks] assms(1-4) by simp

lemma stores_next_inode:
  assumes "plan p = Ok g" "0 < g_inode_count g" "length (i_extents ino) \<le> 8" "unat (g_total_blocks g) * 4096 = n" "inv d" "length (image d) = n"
    and "\<And>d1. inv d1 \<Longrightarrow> length (image d1) = n \<Longrightarrow> \<exists>d2. stores k d1 ws x d2"
  shows "\<exists>d2. stores (cthen (write_inode_record ops g 0 ino) k) d
    ((unat (g_inode_table_start g) * 4096, crc_seal 252 (inode_body ino)) # ws) x d2"
  using stores_next [OF assms(5-7) stores_inode [OF assms(5,1,2)], of ino] assms(3,4,6) by simp

lemma stores_next_superblocks:
  assumes "plan p = Ok g" "length b = 4096" "unat (g_total_blocks g) * 4096 = n" "inv d" "length (image d) = n"
    and "\<And>d1. inv d1 \<Longrightarrow> length (image d1) = n \<Longrightarrow> \<exists>d2. stores k d1 ws x d2"
  shows "\<exists>d2. stores (cthen (write_superblocks ops g b) k) d
    ((4096, b) # (unat (g_tertiary_superblock_block g) * 4096, b) # (unat (g_secondary_superblock_block g) * 4096, b) # ws) x d2"
  using stores_next [OF assms(4-6) stores_superblocks [OF assms(4,1)], of b] assms(2,3,5) by simp

lemma stores_last:
  assumes "inv d" "length (image d) = n"
  shows "\<exists>d2. stores (cthen (op_sync ops) (cret x)) d [] x d2"
  using stores_then [OF stores_sync [OF assms(1)] stores_ret] stores_inv by fastforce

lemma save_payload_stores:
  fixes sb :: superblock and now :: u64 and data :: bytes
  defines "g \<equiv> sb_geometry sb" and "needed \<equiv> div_ceil (of_nat (length (sealed_payload data))) BLOCK_SIZE"
  assumes d: "inv d" "length (image d) = unat (sb_total_blocks sb) * 4096"
    and sb: "plan p = Ok g" "wf_superblock sb" "supported sb" "unat (sb_generation sb) + 1 < 2 ^ 64"
    and fits: "length data < 2 ^ 63" "payload_blocks data \<le> unat (g_data_blocks g)"
  shows "\<exists>bb ib sb' rep d2. stores (save_payload ops sb now data) d
      (save_writes g bb ib (padded_payload data)
        (payload_inode sb now (sealed_payload data) needed (sb_generation sb + 1)) (crc_seal 508 (sb_body sb'))) rep d2
    \<and> sr_generation rep = sb_generation sb + 1
    \<and> wf_superblock sb' \<and> supported sb' \<and> sb_geometry sb' = g \<and> sb_payload_inode sb' = 0
    \<and> sb_block_bitmap_crc sb' = crc_hash (bm_bits bb) \<and> sb_inode_bitmap_crc sb' = crc_hash (bm_bits ib)
    \<and> length (bm_bits bb) = unat (g_block_bitmap_blocks g) * 4096 \<and> length (bm_bits ib) = unat (g_inode_bitmap_blocks g) * 4096
    \<and> used bb = reserved g \<union> {unat (g_data_start g)..<unat (g_data_start g) + payload_blocks data}"
proof -
  note n = plan_Ok_nat [OF sb(1)] and w = payload_words [OF fits(1)]
  have G: "unat (g_total_blocks g) * 4096 = length (image d)" "g_data_start g = sb_data_start sb"
    using d(2) by (simp_all add: g_def sb_geometry_def)
  have small: "unat (g_total_blocks g) * 4096 < 2 ^ 64"
    using sector_size_law [OF d(1)] G by simp
  have nd: "unat needed = payload_blocks data"
    using w(1) by (simp add: needed_def)
  have room: "unat (g_data_start g) + payload_blocks data \<le> unat (g_total_blocks g)"
    using fits(2) n(6,7) by simp
  obtain bb where bb: "clocal (cthen (mark_reserved_blocks g) (set_range (g_data_start g) needed)) (bitmap_new (g_total_blocks g)) = Ok bb"
    "used bb = reserved g \<union> {unat (g_data_start g)..<unat (g_data_start g) + payload_blocks data}" "wf_bitmap bb"
    "length (bm_bits bb) = unat (g_block_bitmap_blocks g) * 4096" "bm_capacity bb = g_total_blocks g"
    using save_bitmap [OF sb(1) small, of needed] room nd by auto
  obtain ib where ib: "clocal (cdrop (bm_set 0)) (bitmap_new (g_inode_count g)) = Ok ib"
    "length (bm_bits ib) = unat (g_inode_bitmap_blocks g) * 4096"
    using save_inode_bitmap [OF sb(1) small] by auto
  have mul: "umul needed BLOCK_SIZE = Ok (needed * BLOCK_SIZE)" "unat (needed * BLOCK_SIZE) = payload_blocks data * 4096"
  proof -
    have "payload_blocks data * 4096 \<le> unat (g_total_blocks g) * 4096"
      using room by simp
    then have "payload_blocks data * 4096 < 2 ^ 64"
      using small by simp
    then show "umul needed BLOCK_SIZE = Ok (needed * BLOCK_SIZE)" "unat (needed * BLOCK_SIZE) = payload_blocks data * 4096"
      using nd by (simp_all add: umul_def unat_mul_ok)
  qed
  have copy: "copy_into 0 (sealed_payload data) (zeros (unat (needed * BLOCK_SIZE))) = Ok (padded_payload data)"
    using payload_fits [of data] mul(2) by (simp add: copy_into_def padded_payload_def put_def zeros_def)
  have gen: "uadd (sb_generation sb) 1 = Ok (sb_generation sb + 1)"
    using sb(4) by (simp add: uadd_def)
  obtain k where k: "count_allocated bb (g_data_start g) (g_total_blocks g) = Ok k" "unat k \<le> unat (g_total_blocks g) - unat (g_data_start g)"
    using count_allocated_card [OF bb(3), of "g_total_blocks g" "g_data_start g"] bb(5) by auto
  have free: "usub (g_data_blocks g) k = Ok (g_data_blocks g - k)" "usub (g_inode_count g) 1 = Ok (g_inode_count g - 1)"
    using k(2) n(7) total_small(3) [OF sb(1) small] by (simp_all add: usub_def word_le_nat_alt)
  let ?sb' = "saved_superblock sb now (sb_generation sb + 1) (g_data_blocks g - k) (g_inode_count g - 1) bb ib"
  have sb': "wf_superblock ?sb'" "supported ?sb'" "sb_geometry ?sb' = g"
    using sb(2,3) by (simp_all add: saved_superblock_def wf_superblock_def supported_def g_def sb_geometry_def)
  let ?ino = "payload_inode sb now (sealed_payload data) needed (sb_generation sb + 1)" and ?b = "crc_seal 508 (sb_body ?sb')"
  let ?rep = "\<lparr>sr_generation = sb_generation sb + 1, sr_payload_bytes = of_nat (length (sealed_payload data)), sr_payload_blocks = needed\<rparr>"
  have enc: "sb_encode_block ?sb' = Ok ?b" "length ?b = 4096"
    using sb'(1) by (simp_all add: sb_encode_eq)
  have ok: "\<not> g_data_blocks g < needed"
    using fits(2) nd by (simp add: word_less_nat_alt)
  have at: "unat (g_block_bitmap_start g) * 4096 + length (bm_bits bb) \<le> length (image d)"
    "unat (g_inode_bitmap_start g) * 4096 + length (bm_bits ib) \<le> length (image d)"
    "unat (g_data_start g) * 4096 + length (padded_payload data) \<le> length (image d)"
    "4096 dvd length (bm_bits bb)" "4096 dvd length (bm_bits ib)" "4096 dvd length (padded_payload data)"
  proof -
    have span: "a * 4096 + k * 4096 \<le> length (image d)" if "a + k \<le> unat (g_total_blocks g)" for a k
      using mult_right_mono [OF that, of 4096] unfolding G(1) [symmetric] by (simp add: add_mult_distrib)
    have fit: "unat (g_block_bitmap_start g) + unat (g_block_bitmap_blocks g) \<le> unat (g_total_blocks g)"
      "unat (g_inode_bitmap_start g) + unat (g_inode_bitmap_blocks g) \<le> unat (g_total_blocks g)"
      using n by linarith+
    show "unat (g_block_bitmap_start g) * 4096 + length (bm_bits bb) \<le> length (image d)"
      "unat (g_inode_bitmap_start g) * 4096 + length (bm_bits ib) \<le> length (image d)"
      "unat (g_data_start g) * 4096 + length (padded_payload data) \<le> length (image d)"
      unfolding bb(4) ib(2) payload_lengths using span [OF fit(1)] span [OF fit(2)] span [OF room] .
  qed (simp_all add: bb(4) ib(2))
  have zero: "0 < g_inode_count g" "length (i_extents ?ino) \<le> 8"
    using total_small(3) [OF sb(1) small] by (simp_all add: word_less_nat_alt payload_inode_def)
  have "\<exists>d2. stores (save_payload ops sb now data) d (save_writes g bb ib (padded_payload data) ?ino ?b) ?rep d2"
    unfolding save_payload_def Let_def sealed_payload_def [symmetric] needed_def [symmetric] g_def [symmetric] if_not_P [OF ok]
      save_writes_def
    by (rule stores_lift [OF bb(1)], rule stores_next_blocks [OF at(1,4) d(1) refl],
        rule stores_lift [OF ib(1)], rule stores_next_blocks [OF at(2,5)], assumption, assumption,
        rule stores_lift [OF mul(1)], rule stores_lift [OF copy], rule stores_next_blocks [OF at(3,6)], assumption, assumption,
        rule stores_lift [OF gen], rule stores_next_inode [OF sb(1) zero G(1)], assumption, assumption,
        rule stores_lift [OF k(1)], rule stores_lift [OF free(1)], rule stores_lift [OF free(2)], rule stores_lift [OF enc(1)],
        rule stores_next_superblocks [OF sb(1) enc(2) G(1)], assumption, assumption, rule stores_last)
  then obtain d2 where "stores (save_payload ops sb now data) d (save_writes g bb ib (padded_payload data) ?ino ?b) ?rep d2" ..
  then show ?thesis
    using sb' bb(2,4) ib(2) by (intro exI [of _ bb] exI [of _ ib] exI [of _ ?sb']) (auto simp: saved_superblock_def)
qed

end

end
