(* ===== verification/Volume_Load.thy ===== *)
theory Volume_Load
  imports Volume_Save
begin

text \<open>
  What loading reads after a save: every region the save wrote comes back, unless the payload reaches
  the copy of the superblock in the middle of the device.
\<close>

section \<open>Reading back one of several writes\<close>

lemma cut_written:
  assumes "within (length buf) (xs @ (a, src) # ys)"
    and "\<And>off s. (off, s) \<in> set ys \<Longrightarrow> a + length src \<le> off \<or> off + length s \<le> a"
  shows "cut a (length src) (puts (xs @ (a, src) # ys) buf) = src"
proof -
  have w: "within (length (puts xs buf)) xs" "length (puts xs buf) = length buf" "a + length src \<le> length buf" "within (length buf) ys"
    using assms(1) by (simp_all add: length_puts_within)
  have "cut a (length src) (puts ys (put a src (puts xs buf))) = cut a (length src) (put a src (puts xs buf))"
    using w assms(2) by (intro cut_puts_outside) simp_all
  then show ?thesis
    using w by (simp add: puts_append)
qed

section \<open>A decoded superblock is well formed\<close>

lemma sb_decode_Ok:
  assumes "sb_decode_block b = Ok sb"
  shows "wf_superblock sb" "supported sb"
proof -
  have len: "length b = 4096"
    using assms by (auto simp: sb_decode_block_def split: if_splits)
  have "sum_list sb_field_sizes = 276"
    by (simp add: sb_field_sizes_def)
  then obtain fs where fs: "take_fields sb_field_sizes b 0 = Ok fs" "map length fs = sb_field_sizes"
    using take_fields_no_panic [of 0 sb_field_sizes b] len by auto
  have l: "length (fs ! i) = sb_field_sizes ! i" if "i < 35" for i
  proof -
    have "length fs = 35"
      using arg_cong [OF fs(2), of length] by (simp add: sb_field_sizes_def)
    then show ?thesis
      using that fs(2) by (metis nth_map)
  qed
  have "length (fs ! 22) = 16" "length (fs ! 23) = 32"
    using l [of 22] l [of 23] by (simp_all add: sb_field_sizes_def)
  moreover have "sb_uuid sb = fs ! 22 \<and> sb_label sb = fs ! 23 \<and> supported sb"
    using assms unfolding sb_decode_block_def fs(1) by (auto simp: supported_def split: if_splits)
  ultimately show "wf_superblock sb" "supported sb"
    by (simp_all add: wf_superblock_def)
qed

lemma read_sb_Ok:
  assumes "read_sb_with_fallbacks ops d = Ok sb"
  shows "wf_superblock sb" "supported sb"
proof -
  have at: "wf_superblock sb \<and> supported sb" if "read_superblock_at ops d k = Ok sb" for k
    using that sb_decode_Ok by (auto simp: read_superblock_at_def rbind_Ok_iff)
  have "\<exists>k. read_superblock_at ops d k = Ok sb"
    using assms by (auto simp: read_sb_with_fallbacks_def Let_def split: result.splits if_splits)
  then show "wf_superblock sb" "supported sb"
    using at by blast+
qed

section \<open>The memory device carries a volume\<close>

lemma mem_trim_law:
  assumes "mem_ok d"
  shows "\<exists>r d'. mem_trim off len d = (r, d') \<and> r \<noteq> Panic \<and> mem_ok d' \<and> md_geometry d' = md_geometry d
    \<and> length (md_data d') = length (md_data d)
    \<and> (\<forall>i < length (md_data d). i < unat off \<or> unat off + unat len \<le> i \<longrightarrow> md_data d' ! i = md_data d ! i)"
proof -
  have "check_alignment off len (dg_sector_size (md_geometry d)) \<noteq> Panic"
    using assms check_alignment_no_panic by (simp add: mem_ok_def)
  moreover have "unat off + unat len \<le> length (md_data d)" if "check_bounds off len (dg_capacity_bytes (md_geometry d)) = Ok ()"
    using that assms by (simp add: check_bounds_Ok_iff mem_ok_def)
  moreover note check_bounds_no_panic [of off len "dg_capacity_bytes (md_geometry d)"]
  ultimately show ?thesis
    using assms
    by (cases "check_alignment off len (dg_sector_size (md_geometry d))";
        cases "check_bounds off len (dg_capacity_bytes (md_geometry d))")
      (auto simp: mem_trim_def mem_ok_def cthen_run nth_put)
qed

interpretation memvol: volume_device mem_ops md_data mem_ok
proof unfold_locales
  fix d :: memory_device and off len :: u64
  assume i: "mem_ok d"
  show "length (md_data d) = unat (dev_capacity mem_ops d)"
    using i by (simp add: mem_ok_def dev_capacity_def)
  show "\<exists>r d'. op_trim mem_ops off len d = (r, d') \<and> r \<noteq> Panic \<and> mem_ok d' \<and> op_geometry mem_ops d' = op_geometry mem_ops d
      \<and> length (md_data d') = length (md_data d)
      \<and> (\<forall>i < length (md_data d). i < unat off \<or> unat off + unat len \<le> i \<longrightarrow> md_data d' ! i = md_data d ! i)"
    using mem_trim_law [OF i] by simp
qed

section \<open>Loading what was saved\<close>

context volume_device
begin

lemma load_reads:
  fixes g :: geometry and bb ib :: bitmap and data img :: bytes and now gen needed :: u64 and sb sb' :: superblock
  defines "ino \<equiv> payload_inode sb now (sealed_payload data) needed gen"
  defines "ws \<equiv> save_writes g bb ib (padded_payload data) ino (crc_seal 508 (sb_body sb'))"
  assumes d: "inv d" "image d = puts ws img" "length img = unat (g_total_blocks g) * 4096" "within (length img) ws"
    and g: "plan p = Ok g" "wf_superblock sb'" "supported sb'" "sb_geometry sb' = g" "sb_payload_inode sb' = 0" "sb_data_start sb = g_data_start g"
    and crc: "sb_block_bitmap_crc sb' = crc_hash (bm_bits bb)" "sb_inode_bitmap_crc sb' = crc_hash (bm_bits ib)"
    and len: "length (bm_bits bb) = unat (g_block_bitmap_blocks g) * 4096" "length (bm_bits ib) = unat (g_inode_bitmap_blocks g) * 4096"
    and fits: "unat needed = payload_blocks data" "payload_blocks data < 2 ^ 32" "unat (g_data_start g) + payload_blocks data \<le> unat (g_total_blocks g)"
    and mid: "unat (g_data_start g) \<le> unat (g_tertiary_superblock_block g)"
  defines "raw \<equiv> take (length data + 4) (cut (unat (g_data_start g) * 4096) (payload_blocks data * 4096) (image d))"
  shows "load_payload ops d = (if from_le (drop (length data) raw) \<noteq> crc_hash (take (length data) raw)
      then Err (State ''ODF: payload CRC mismatch (stored=0x'') else Ok (take (length data) raw))"
    and "cut (unat (g_tertiary_superblock_block g) * 4096) 4096 (image d) = crc_seal 508 (sb_body sb')"
    and "unat (g_data_start g) + payload_blocks data \<le> unat (g_tertiary_superblock_block g) \<Longrightarrow>
      cut (unat (g_data_start g) * 4096) (payload_blocks data * 4096) (image d) = padded_payload data"
proof -
  note n = plan_Ok_nat [OF g(1)]
  have t: "unat (g_secondary_superblock_block g) = unat (g_total_blocks g) - 1"
    "unat (g_tertiary_superblock_block g) = unat (g_total_blocks g) div 2"
    using plan_wf [OF g(1)] by (simp_all add: wf_geometry_def)
  have img: "length (image d) = unat (g_total_blocks g) * 4096"
    using d(2-4) by (simp add: length_puts_within)
  let ?b = "crc_seal 508 (sb_body sb')" and ?enc = "crc_seal 252 (inode_body ino)"
  have lens: "length ?b = 4096" "length ?enc = 256" "length (i_extents ino) \<le> 8"
    using g(2) by (simp_all add: ino_def payload_inode_def)
  have reads: "cut a (length s) (image d) = s"
    if "ws = xs @ (a, s) # ys" "\<forall>(off, s') \<in> set ys. a + length s \<le> off \<or> off + length s' \<le> a" for xs a s ys
    using cut_written [of img xs a s ys] that(2) d(2,4) that(1) by auto
  have tbl: "1 \<le> unat (g_inode_table_blocks g)"
    using total_small(3) [OF g(1)] sector_size_law [OF d(1)] img plan_wf [OF g(1)] by (auto simp: wf_geometry_def)
  have "unat (g_tertiary_superblock_block g) + 1 \<le> unat (g_secondary_superblock_block g)"
    using t n(8) by linarith
  note order = n(1-5) mid fits(3) this tbl
  have o: "8192 \<le> unat (g_block_bitmap_start g) * 4096"
    "unat (g_block_bitmap_start g) * 4096 + length (bm_bits bb) \<le> unat (g_inode_bitmap_start g) * 4096"
    "unat (g_inode_bitmap_start g) * 4096 + length (bm_bits ib) \<le> unat (g_inode_table_start g) * 4096"
    "unat (g_inode_table_start g) * 4096 + 256 \<le> unat (g_data_start g) * 4096"
    "unat (g_data_start g) * 4096 \<le> unat (g_tertiary_superblock_block g) * 4096"
    "unat (g_tertiary_superblock_block g) * 4096 + 4096 \<le> unat (g_secondary_superblock_block g) * 4096"
    unfolding len payload_lengths using order by linarith+
  let ?sup = "[(unat (g_tertiary_superblock_block g) * 4096, ?b), (unat (g_secondary_superblock_block g) * 4096, ?b)]"
  let ?enc_w = "(unat (g_inode_table_start g) * 4096, ?enc)" and ?pad_w = "(unat (g_data_start g) * 4096, padded_payload data)"
  let ?bb_w = "(unat (g_block_bitmap_start g) * 4096, bm_bits bb)" and ?ib_w = "(unat (g_inode_bitmap_start g) * 4096, bm_bits ib)"
  note ws = ws_def [unfolded save_writes_def]
  have sup: "cut 4096 4096 (image d) = ?b"
    using reads [of "[?bb_w, ?ib_w, ?pad_w, ?enc_w]" 4096 ?b ?sup] o lens by (auto simp: ws)
  have enc: "cut (unat (g_inode_table_start g) * 4096) 256 (image d) = ?enc"
    using reads [of "[?bb_w, ?ib_w, ?pad_w]" _ ?enc "(4096, ?b) # ?sup"] o lens by (auto simp: ws)
  have ibm: "cut (unat (g_inode_bitmap_start g) * 4096) (length (bm_bits ib)) (image d) = bm_bits ib"
    using reads [of "[?bb_w]" _ "bm_bits ib" "?pad_w # ?enc_w # (4096, ?b) # ?sup"] o lens by (auto simp: ws)
  have bbm: "cut (unat (g_block_bitmap_start g) * 4096) (length (bm_bits bb)) (image d) = bm_bits bb"
    using reads [of "[]" _ "bm_bits bb" "?ib_w # ?pad_w # ?enc_w # (4096, ?b) # ?sup"] o lens by (auto simp: ws)
  have sz: "unat (g_block_bitmap_start g) * 4096 + unat (g_block_bitmap_blocks g) * 4096 \<le> length (image d)"
    "unat (g_inode_bitmap_start g) * 4096 + unat (g_inode_bitmap_blocks g) * 4096 \<le> length (image d)"
    "unat (g_data_start g) * 4096 + payload_blocks data * 4096 \<le> length (image d)"
    "8192 \<le> length (image d)"
    unfolding img using order t(1) n(8) by linarith+
  have "read_superblock_at ops d PRIMARY_SUPERBLOCK_BLOCK = Ok sb'"
    using read_one_block [OF d(1), of PRIMARY_SUPERBLOCK_BLOCK] block_bytes(1) [OF d(1), of PRIMARY_SUPERBLOCK_BLOCK 4096]
      sb_roundtrip [OF g(2,3)] sup sz(4) by (simp add: read_superblock_at_def PRIMARY_SUPERBLOCK_BLOCK_def)
  then have read: "read_sb_with_fallbacks ops d = Ok sb'"
    by (simp add: read_sb_with_fallbacks_def)
  have verify: "verify_bitmap ops d s k crc msg = Ok ()"
    if "unat s * 4096 + unat k * 4096 \<le> length (image d)" "crc_hash (cut (unat s * 4096) (unat k * 4096) (image d)) = crc" for s k crc msg
  proof -
    have k: "unat (k * BLOCK_SIZE) = unat k * 4096" "umul k BLOCK_SIZE = Ok (k * BLOCK_SIZE)"
      using block_bytes [OF d(1), of k 0] that(1) by simp_all
    show ?thesis
      using read_blocks [OF d(1), of s "k * BLOCK_SIZE"] block_bytes(1) [OF d(1) that(1)] k that by (simp add: verify_bitmap_def)
  qed
  have geo: "sb_block_bitmap_start sb' = g_block_bitmap_start g" "sb_block_bitmap_blocks sb' = g_block_bitmap_blocks g"
    "sb_inode_bitmap_start sb' = g_inode_bitmap_start g" "sb_inode_bitmap_blocks sb' = g_inode_bitmap_blocks g"
    using g(4) by (auto simp: sb_geometry_def)
  have bitmaps: "verify_bitmap_integrity ops d sb' = Ok ()"
    unfolding verify_bitmap_integrity_def geo using verify sz bbm ibm len crc by simp
  have "0 < g_inode_count g"
    using total_small(3) [OF g(1)] sector_size_law [OF d(1)] img by (simp add: word_less_nat_alt)
  then have inode: "read_inode_record ops d g 0 = Ok ino"
    using read_inode_stored [OF d(1) g(1), of 0] enc inode_roundtrip [OF lens(3)] img by simp
  have one: "i_extents ino = [\<lparr>ext_logical_block = 0, ext_length_blocks = ucast needed, ext_physical_block = g_data_start g\<rparr>]"
    "i_kind ino = SystemPayload" "i_size_bytes ino = of_nat (length (sealed_payload data))"
    using g(6) by (simp_all add: ino_def payload_inode_def)
  have small: "length data < 2 ^ 63"
    using payload_fits [of data] fits(2) by simp
  have size: "unat (i_size_bytes ino) = length data + 4"
    unfolding one(3) by (rule payload_words(2) [OF small])
  show mid: "cut (unat (g_tertiary_superblock_block g) * 4096) 4096 (image d) = ?b"
    using reads [of "[?bb_w, ?ib_w, ?pad_w, ?enc_w, (4096, ?b)]" _ ?b "[(unat (g_secondary_superblock_block g) * 4096, ?b)]"] o lens
    by (auto simp: ws)
  show "cut (unat (g_data_start g) * 4096) (payload_blocks data * 4096) (image d) = padded_payload data"
    if "unat (g_data_start g) + payload_blocks data \<le> unat (g_tertiary_superblock_block g)"
  proof -
    have "unat (g_data_start g) * 4096 + length (padded_payload data) \<le> unat (g_tertiary_superblock_block g) * 4096"
      unfolding payload_lengths using that by linarith
    then show ?thesis
      using reads [of "[?bb_w, ?ib_w]" _ "padded_payload data" "?enc_w # (4096, ?b) # ?sup"] o lens by (auto simp: ws)
  qed
  let ?n = "ucast (ucast needed :: u32) :: u64"
  have n: "unat ?n = payload_blocks data"
    using fits(1,2) by (simp only: unat_ucast_u32) (simp add: unsigned_ucast_eq take_bit_nat_eq_self)
  have blk: "umul (g_data_start g) BLOCK_SIZE = Ok (g_data_start g * BLOCK_SIZE)" "umul ?n BLOCK_SIZE = Ok (?n * BLOCK_SIZE)"
    "unat (?n * BLOCK_SIZE) = payload_blocks data * 4096"
    using block_bytes [OF d(1), of "g_data_start g" "payload_blocks data * 4096"] block_bytes [OF d(1), of ?n 0] sz(3) n by simp_all
  let ?img = "cut (unat (g_data_start g) * 4096) (payload_blocks data * 4096) (image d)"
  have read_data: "op_read_at ops d (g_data_start g * BLOCK_SIZE) (?n * BLOCK_SIZE) = Ok ?img"
    using read_blocks [OF d(1), of "g_data_start g" "?n * BLOCK_SIZE"] blk(3) sz(3) by simp
  have l: "length ?img = payload_blocks data * 4096" "length raw = length data + 4"
    using sz(3) payload_fits [of data] by (simp_all add: raw_def)
  have raw: "read_extents ops d (sort_key ext_logical_block (i_extents ino)) (length data + 4) [] = Ok raw"
    using payload_fits [of data] by (simp add: one(1) blk(1,2) read_data l(1) min_absorb1 raw_def)
  show "load_payload ops d = (if from_le (drop (length data) raw) \<noteq> crc_hash (take (length data) raw)
      then Err (State ''ODF: payload CRC mismatch (stored=0x'') else Ok (take (length data) raw))"
    unfolding load_payload_def using read bitmaps inode g(4,5) one(1,2) raw
    by (simp add: size PAYLOAD_CRC_TRAILER_BYTES_def l(2))
qed

end

text \<open>A payload that ends below the middle superblock copy is returned as it was given.\<close>

lemma padded_take: "take (length data + 4) (padded_payload data) = sealed_payload data"
  by (simp add: padded_payload_def)

context volume_device
begin

lemma save_state_stores:
  fixes sb :: superblock and now :: u64 and ser :: "'p \<Rightarrow> bytes option"
  defines "g \<equiv> sb_geometry sb"
  assumes d: "inv d" "read_sb_with_fallbacks ops d = Ok sb" "length (image d) = unat (g_total_blocks g) * 4096"
    and sb: "plan p = Ok g" "unat (sb_generation sb) + 1 < 2 ^ 64" "\<forall>e \<in> set (old_extents ops d sb). addressable e"
    and data: "ser st = Some data" "payload_blocks data \<le> unat (g_data_blocks g)" "payload_blocks data < 2 ^ 32"
    and mid: "unat (g_data_start g) \<le> unat (g_tertiary_superblock_block g)"
  shows "\<exists>rep d' sb' raw. save_state ser ops now st d = (Ok rep, d') \<and> sr_generation rep = sb_generation sb + 1
    \<and> raw = cut (unat (g_data_start g) * 4096) (payload_blocks data * 4096) (image d') \<and> length raw = payload_blocks data * 4096
    \<and> load_payload ops d' =
        (if from_le (drop (length data) (take (length data + 4) raw)) \<noteq> crc_hash (take (length data) raw)
         then Err (State ''ODF: payload CRC mismatch (stored=0x'') else Ok (take (length data) raw))
    \<and> wf_superblock sb' \<and> cut (unat (g_tertiary_superblock_block g) * 4096) 4096 (image d') = crc_seal 508 (sb_body sb')
    \<and> unat (g_tertiary_superblock_block g) * 4096 + 4096 \<le> length (image d')
    \<and> (unat (g_data_start g) + payload_blocks data \<le> unat (g_tertiary_superblock_block g) \<longrightarrow> raw = padded_payload data)"
proof -
  have tot: "g_total_blocks g = sb_total_blocks sb"
    by (simp add: g_def sb_geometry_def)
  obtain d1 where d1: "trim_old_payload ops sb d = (Ok (), d1)" "discarded d d1"
    using trim_old_ok [OF d(1) sb(1)[unfolded g_def] _ sb(3)] d(3) tot by auto
  have d1': "inv d1" "length (image d1) = unat (sb_total_blocks sb) * 4096"
    using d1(2) d(3) tot by (simp_all add: discarded_def)
  have small: "length data < 2 ^ 63"
    using payload_fits [of data] data(3) by simp
  note n = plan_Ok_nat [OF sb(1)]
  have t: "unat (g_tertiary_superblock_block g) + 1 \<le> unat (g_total_blocks g)"
    using plan_wf [OF sb(1)] n(8) by (simp add: wf_geometry_def)
  have room: "unat (g_data_start g) + payload_blocks data \<le> unat (g_total_blocks g)"
    using data(2) n(6,7) by simp
  let ?needed = "div_ceil (of_nat (length (sealed_payload data))) BLOCK_SIZE :: u64"
  let ?ino = "payload_inode sb now (sealed_payload data) ?needed (sb_generation sb + 1)"
  obtain bb ib sb' rep d2 where st: "stores (save_payload ops sb now data) d1
      (save_writes g bb ib (padded_payload data) ?ino (crc_seal 508 (sb_body sb'))) rep d2"
    and sb': "wf_superblock sb'" "supported sb'" "sb_geometry sb' = g" "sb_payload_inode sb' = 0"
      "sb_block_bitmap_crc sb' = crc_hash (bm_bits bb)" "sb_inode_bitmap_crc sb' = crc_hash (bm_bits ib)"
      "length (bm_bits bb) = unat (g_block_bitmap_blocks g) * 4096" "length (bm_bits ib) = unat (g_inode_bitmap_blocks g) * 4096"
    and rep: "sr_generation rep = sb_generation sb + 1"
    using save_payload_stores [OF d1' sb(1)[unfolded g_def] read_sb_Ok [OF d(2)] sb(2) small data(2)[unfolded g_def], of now]
    unfolding g_def [symmetric] by blast
  have run: "save_payload ops sb now data d1 = (Ok rep, d2)" "inv d2" "image d2 = puts (save_writes g bb ib (padded_payload data) ?ino (crc_seal 508 (sb_body sb'))) (image d1)"
    "within (length (image d1)) (save_writes g bb ib (padded_payload data) ?ino (crc_seal 508 (sb_body sb')))"
    using st by (simp_all add: stores_def)
  have len: "length (image d1) = unat (g_total_blocks g) * 4096" "length (image d2) = unat (g_total_blocks g) * 4096"
    using d1'(2) tot stores_length [OF st] by simp_all
  have start: "sb_data_start sb = g_data_start g"
    by (simp add: g_def sb_geometry_def)
  note reads = load_reads [OF run(2,3) len(1) run(4) sb(1) sb'(1-4) start sb'(5-8) payload_words(1) [OF small] data(3) room mid]
  have whole: "save_state ser ops now st d = (Ok rep, d2)"
    using d(2) d1(1) data(1) run(1) by (simp add: save_state_def cbind_run cthen_run)
  let ?raw = "cut (unat (g_data_start g) * 4096) (payload_blocks data * 4096) (image d2)"
  have span: "a * 4096 + k * 4096 \<le> length (image d2)" if "a + k \<le> unat (g_total_blocks g)" for a k
    using mult_right_mono [OF that, of 4096] unfolding len(2) by (simp add: add_mult_distrib)
  have "take (length data) (take (length data + 4) ?raw) = take (length data) ?raw"
    by (simp add: min_def)
  then show ?thesis
    using whole rep sb'(1) reads span [OF room] span [OF t]
    by (intro exI [of _ rep] exI [of _ d2] exI [of _ sb'] exI [of _ ?raw]) simp
qed

lemma save_state_loads:
  fixes sb :: superblock and now :: u64 and ser :: "'p \<Rightarrow> bytes option"
  defines "g \<equiv> sb_geometry sb"
  assumes d: "inv d" "read_sb_with_fallbacks ops d = Ok sb" "length (image d) = unat (g_total_blocks g) * 4096"
    and sb: "plan p = Ok g" "unat (sb_generation sb) + 1 < 2 ^ 64" "\<forall>e \<in> set (old_extents ops d sb). addressable e"
    and data: "ser st = Some data" "payload_blocks data < 2 ^ 32"
      "unat (g_data_start g) + payload_blocks data \<le> unat (g_tertiary_superblock_block g)"
  shows "\<exists>rep d'. save_state ser ops now st d = (Ok rep, d') \<and> sr_generation rep = sb_generation sb + 1
    \<and> load_payload ops d' = Ok data"
proof -
  have "unat (g_tertiary_superblock_block g) \<le> unat (g_total_blocks g)"
    using plan_wf [OF sb(1)] by (simp add: wf_geometry_def)
  then have blocks: "payload_blocks data \<le> unat (g_data_blocks g)" "unat (g_data_start g) \<le> unat (g_tertiary_superblock_block g)"
    using data(3) plan_Ok_nat(7) [OF sb(1)] by simp_all
  have "take (length data) (padded_payload data) = data" "drop (length data) (sealed_payload data) = le_bytes 4 (crc_hash data)"
    by (simp_all add: padded_payload_def sealed_payload_def)
  then show ?thesis
    using save_state_stores [where ser = ser and st = st and now = now, OF d(1,2) d(3)[unfolded g_def] sb(1)[unfolded g_def] sb(2,3) data(1) blocks(1)[unfolded g_def] data(2)
        blocks(2)[unfolded g_def]] data(3) unfolding g_def [symmetric] by (auto simp: padded_take)
qed

end

text \<open>The bytes of a superblock block after the record are zero.\<close>

lemma superblock_tail: "wf_superblock sb \<Longrightarrow> cut 512 3584 (crc_seal 508 (sb_body sb)) = zeros 3584"
  by (simp add: crc_seal_def sb_body_def sb_chunks_length)

context volume_device
begin

text \<open>A payload that covers that copy is saved without an error, and is not returned.\<close>

lemma save_state_loses:
  fixes sb :: superblock and now :: u64 and ser :: "'p \<Rightarrow> bytes option"
  defines "g \<equiv> sb_geometry sb"
  assumes d: "inv d" "read_sb_with_fallbacks ops d = Ok sb" "length (image d) = unat (g_total_blocks g) * 4096"
    and sb: "plan p = Ok g" "unat (sb_generation sb) + 1 < 2 ^ 64" "\<forall>e \<in> set (old_extents ops d sb). addressable e"
    and data: "ser st = Some data" "payload_blocks data \<le> unat (g_data_blocks g)" "payload_blocks data < 2 ^ 32"
    and mid: "unat (g_data_start g) \<le> unat (g_tertiary_superblock_block g)"
      "(unat (g_tertiary_superblock_block g) - unat (g_data_start g)) * 4096 + 4096 \<le> length data"
      "cut ((unat (g_tertiary_superblock_block g) - unat (g_data_start g)) * 4096 + 512) 3584 data \<noteq> zeros 3584"
  shows "\<exists>rep d'. save_state ser ops now st d = (Ok rep, d') \<and> load_payload ops d' \<noteq> Ok data"
proof -
  let ?a = "(unat (g_tertiary_superblock_block g) - unat (g_data_start g)) * 4096"
  let ?img = "\<lambda>d'. cut (unat (g_data_start g) * 4096) (payload_blocks data * 4096) (image d')"
  obtain rep d' sb' raw where r: "save_state ser ops now st d = (Ok rep, d')" "raw = ?img d'" "length raw = payload_blocks data * 4096"
    and l: "load_payload ops d' =
        (if from_le (drop (length data) (take (length data + 4) raw)) \<noteq> crc_hash (take (length data) raw)
         then Err (State ''ODF: payload CRC mismatch (stored=0x'') else Ok (take (length data) raw))"
    and t: "wf_superblock sb'" "cut (unat (g_tertiary_superblock_block g) * 4096) 4096 (image d') = crc_seal 508 (sb_body sb')"
      "unat (g_tertiary_superblock_block g) * 4096 + 4096 \<le> length (image d')"
    using save_state_stores [where ser = ser and st = st and now = now, OF d(1,2) d(3)[unfolded g_def] sb(1)[unfolded g_def] sb(2,3) data(1) data(2)[unfolded g_def] data(3)
        mid(1)[unfolded g_def]] unfolding g_def [symmetric] by (elim exE conjE) blast
  have eq: "data = take (length data) raw" if "load_payload ops d' = Ok data"
    using that unfolding l by (simp split: if_splits)
  have "cut ?a 4096 (take (length data) raw) = cut ?a 4096 raw"
    using mid(2) by (simp add: cut_def drop_take min_def)
  also have "\<dots> = cut (unat (g_tertiary_superblock_block g) * 4096) 4096 (image d')"
    using mid(1,2) payload_fits [of data] t(3) by (simp add: r(2) cut_cut diff_mult_distrib)
  also note t(2)
  finally have "cut 512 3584 (cut ?a 4096 (take (length data) raw)) = zeros 3584"
    using superblock_tail [OF t(1)] by simp
  then have "cut (?a + 512) 3584 (take (length data) raw) = zeros 3584"
    using mid(2) r(3) payload_fits [of data] by (simp add: cut_cut)
  then have "load_payload ops d' \<noteq> Ok data"
    using eq mid(3) by metis
  then show ?thesis
    using r(1) by blast
qed

end

end
