(* ===== verification/Volume_Props.thy ===== *)
theory Volume_Props
  imports Volume_Load
begin

text \<open>
  The properties of the volume driver on the in-memory device: what is saved is loaded, the limit
  of that, and the superblock copies.
\<close>

section \<open>A concrete volume\<close>

definition tiny_geometry :: geometry where
  "tiny_geometry =
    \<lparr>g_total_blocks = 1024, g_block_bitmap_start = 2, g_block_bitmap_blocks = 1,
     g_inode_bitmap_start = 3, g_inode_bitmap_blocks = 1, g_inode_table_start = 4,
     g_inode_table_blocks = 4, g_inode_count = 64, g_journal_start = 8, g_journal_blocks = 8,
     g_data_start = 16, g_data_blocks = 1008, g_secondary_superblock_block = 1023,
     g_tertiary_superblock_block = 512\<rparr>"

definition tiny_sb :: superblock where
  "tiny_sb = for_new_volume tiny_geometry (zeros 16) [] 0"

definition tiny_device :: memory_device where
  "tiny_device =
    \<lparr>md_data = puts [(4096, crc_seal 508 (sb_body tiny_sb)), (16384, crc_seal 252 (inode_body inode_unused))] (zeros 4194304),
     md_geometry = \<lparr>dg_sector_size = 4096, dg_sector_count = 1024, dg_capacity_bytes = 4194304, dg_read_only = False\<rparr>,
     md_trim_supported = True, md_trimmed_ranges = []\<rparr>"

lemmas tiny_plan = plan_1024 [folded tiny_geometry_def]

lemma tiny_sb_sel:
  "sb_geometry tiny_sb = tiny_geometry" "wf_superblock tiny_sb" "supported tiny_sb" "sb_generation tiny_sb = 1" "sb_payload_inode tiny_sb = 0"
  using geometry_new [OF tiny_plan] wf_new [of "zeros 16"] supported_new
  by (simp_all add: tiny_sb_def) (simp_all add: for_new_volume_def Let_def)

lemma tiny_length: "length (md_data tiny_device) = 4194304"
  by (simp add: tiny_device_def tiny_sb_sel inode_unused_def)

lemma tiny_ok: "mem_ok tiny_device"
proof -
  have "4096 dvd (4194304 :: nat)"
    by (simp add: dvd_eq_mod_eq_0)
  then show ?thesis
    using tiny_length by (simp add: mem_ok_def) (simp add: tiny_device_def)
qed

lemma tiny_read: "read_sb_with_fallbacks mem_ops tiny_device = Ok tiny_sb"
proof -
  have "cut 4096 4096 (md_data tiny_device) = crc_seal 508 (sb_body tiny_sb)"
    by (simp add: tiny_device_def tiny_sb_sel inode_unused_def)
  then have "read_superblock_at mem_ops tiny_device PRIMARY_SUPERBLOCK_BLOCK = Ok tiny_sb"
    using memvol.read_one_block [OF tiny_ok, of PRIMARY_SUPERBLOCK_BLOCK] memvol.block_bytes(1) [OF tiny_ok, of PRIMARY_SUPERBLOCK_BLOCK 4096]
      sb_roundtrip [OF tiny_sb_sel(2,3)] tiny_length by (simp add: read_superblock_at_def PRIMARY_SUPERBLOCK_BLOCK_def)
  then show ?thesis
    by (simp add: read_sb_with_fallbacks_def)
qed

lemma tiny_old: "old_extents mem_ops tiny_device tiny_sb = []"
proof -
  have "cut 16384 256 (md_data tiny_device) = crc_seal 252 (inode_body inode_unused)"
    by (simp add: tiny_device_def tiny_sb_sel inode_unused_def)
  then have "read_inode_record mem_ops tiny_device tiny_geometry 0 = Ok inode_unused"
    using memvol.read_inode_stored [OF tiny_ok tiny_plan, of 0] inode_roundtrip [of inode_unused] tiny_length
    by (simp add: tiny_geometry_def inode_unused_def)
  then show ?thesis
    by (simp add: old_extents_def tiny_sb_sel inode_unused_def)
qed

section \<open>Decoding a superblock does not panic\<close>

lemma sb_decode_no_panic:
  assumes "length b = 4096"
  shows "sb_decode_block b \<noteq> Panic"
proof -
  have "sum_list sb_field_sizes = 276"
    by (simp add: sb_field_sizes_def)
  then obtain fs where "take_fields sb_field_sizes b 0 = Ok fs"
    using take_fields_no_panic [of 0 sb_field_sizes b] assms by auto
  then show ?thesis
    by (simp add: sb_decode_block_def)
qed

section \<open>Properties\<close>

text \<open>
  C6: on an in-memory volume with a planned geometry, a payload that ends below the superblock copy in
  the middle of the device is saved, under the next generation, and loading returns the saved state.
\<close>

theorem saved_state_is_loaded:
  fixes sb :: superblock and ser :: "'p \<Rightarrow> bytes option" and deser :: "bytes \<Rightarrow> 'p option"
  assumes "mem_ok d" "read_sb_with_fallbacks mem_ops d = Ok sb" "plan p = Ok (sb_geometry sb)"
    and "length (md_data d) = unat (g_total_blocks (sb_geometry sb)) * 4096" "unat (sb_generation sb) + 1 < 2 ^ 64"
    and "\<forall>e \<in> set (old_extents mem_ops d sb). addressable e"
    and "ser st = Some data" "deser data = Some st" "payload_blocks data < 2 ^ 32"
    and "unat (g_data_start (sb_geometry sb)) + payload_blocks data \<le> unat (g_tertiary_superblock_block (sb_geometry sb))"
  shows "\<exists>rep d'. save_state ser mem_ops now st d = (Ok rep, d') \<and> sr_generation rep = sb_generation sb + 1
    \<and> load_state deser mem_ops d' = Ok st"
proof -
  obtain rep d' where "save_state ser mem_ops now st d = (Ok rep, d')" "sr_generation rep = sb_generation sb + 1" "load_payload mem_ops d' = Ok data"
    using memvol.save_state_loads [where ser = ser and st = st and now = now, OF assms(1,2,4,3,5,6,7,9,10)] by blast
  then show ?thesis
    using assms(8) by (auto simp: load_state_def)
qed

theorem saved_state_is_loaded_witness:
  "\<exists>rep d'. save_state Some mem_ops 5 [1, 2, 3] tiny_device = (Ok rep, d') \<and> load_state Some mem_ops d' = Ok [1, 2, 3]"
  using saved_state_is_loaded [OF tiny_ok tiny_read, where ser = Some and deser = Some and st = "[1, 2, 3]" and data = "[1, 2, 3]" and now = 5,
      unfolded tiny_sb_sel tiny_old tiny_length, OF tiny_plan]
  by (auto simp: tiny_geometry_def payload_blocks_def)

text \<open>
  C7: a payload that reaches over the superblock copy in the middle of the device is saved without
  an error, although loading does not return it: \<open>save_state\<close> writes the copy over the payload.
\<close>

theorem large_payload_is_destroyed:
  fixes sb :: superblock and ser :: "'p \<Rightarrow> bytes option"
  assumes "mem_ok d" "read_sb_with_fallbacks mem_ops d = Ok sb" "plan p = Ok (sb_geometry sb)"
    and "length (md_data d) = unat (g_total_blocks (sb_geometry sb)) * 4096" "unat (sb_generation sb) + 1 < 2 ^ 64"
    and "\<forall>e \<in> set (old_extents mem_ops d sb). addressable e"
    and "ser st = Some data" "payload_blocks data \<le> unat (g_data_blocks (sb_geometry sb))" "payload_blocks data < 2 ^ 32"
    and "unat (g_data_start (sb_geometry sb)) \<le> unat (g_tertiary_superblock_block (sb_geometry sb))"
    and "(unat (g_tertiary_superblock_block (sb_geometry sb)) - unat (g_data_start (sb_geometry sb))) * 4096 + 4096 \<le> length data"
    and "cut ((unat (g_tertiary_superblock_block (sb_geometry sb)) - unat (g_data_start (sb_geometry sb))) * 4096 + 512) 3584 data \<noteq> zeros 3584"
  shows "\<exists>rep d'. save_state ser mem_ops now st d = (Ok rep, d') \<and> load_payload mem_ops d' \<noteq> Ok data"
  by (rule memvol.save_state_loses [where ser = ser and st = st and now = now, OF assms(1,2,4,3,5-12)])

lemma ones_not_zero: "512 + off + 3584 \<le> n \<Longrightarrow> cut (off + 512) 3584 (replicate n 1) \<noteq> zeros 3584"
proof -
  assume "512 + off + 3584 \<le> n"
  then have "cut (off + 512) 3584 (replicate n (1 :: u8)) = replicate 3584 1"
    by (simp add: cut_def)
  then show ?thesis
    unfolding zeros_def by (metis list.set_intros(1) replicate_eq_replicate zero_neq_numeral zero_neq_one)
qed

theorem large_payload_is_destroyed_witness:
  "\<exists>rep d'. save_state Some mem_ops 5 (replicate 2035712 1) tiny_device = (Ok rep, d') \<and> load_payload mem_ops d' \<noteq> Ok (replicate 2035712 1)"
proof -
  let ?d = "replicate 2035712 1 :: bytes"
  have b: "payload_blocks ?d = 498"
    by (simp add: payload_blocks_def)
  have "cut (2031616 + 512) 3584 ?d \<noteq> zeros 3584"
    by (rule ones_not_zero) simp
  then show ?thesis
    using large_payload_is_destroyed [OF tiny_ok tiny_read, where ser = Some and st = ?d and data = ?d and now = 5,
        unfolded tiny_sb_sel tiny_old tiny_length b length_replicate, OF tiny_plan]
    by (simp add: tiny_geometry_def)
qed

text \<open>The superblock copies in the order they are tried, for a device of \<open>t\<close> blocks.\<close>

lemma read_copies:
  fixes t :: nat and d :: memory_device
  defines "D \<equiv> \<lambda>j. sb_decode_block (cut (j * 4096) 4096 (md_data d))"
  assumes "mem_ok d" "length (md_data d) = t * 4096" "2 \<le> t"
  shows "read_sb_with_fallbacks mem_ops d =
    (case D 1 of Ok sb \<Rightarrow> Ok sb | Panic \<Rightarrow> Panic
     | Err _ \<Rightarrow> (case D (t div 2) of Ok sb \<Rightarrow> Ok sb | Panic \<Rightarrow> Panic
         | Err _ \<Rightarrow> (case D (t - 1) of Ok sb \<Rightarrow> Ok sb | Panic \<Rightarrow> Panic
             | Err _ \<Rightarrow> Err (State ''all superblock copies are unreadable; last error: ''))))"
proof -
  let ?t = "dev_capacity mem_ops d div BLOCK_SIZE"
  have t: "unat ?t = t" "unat (?t div 2) = t div 2" "unat (?t - 1) = t - 1"
  proof -
    show t: "unat ?t = t" "unat (?t div 2) = t div 2"
      using memvol.capacity_law [OF assms(2)] assms(3) by (simp_all add: unat_div)
    then have "(1 :: u64) \<le> ?t"
      using assms(4) by (simp only: word_le_nat_alt) simp
    then show "unat (?t - 1) = t - 1"
      using t(1) by (simp add: unat_sub)
  qed
  have read: "read_superblock_at mem_ops d b = D (unat b)" if "unat b < t" for b
  proof -
    have "unat b * 4096 + 4096 \<le> length (md_data d)"
      using that unfolding assms(3) by linarith
    then show ?thesis
      using memvol.read_one_block [OF assms(2)] memvol.block_bytes(1) [OF assms(2)] by (simp add: read_superblock_at_def D_def)
  qed
  have three: "read_superblock_at mem_ops d PRIMARY_SUPERBLOCK_BLOCK = D 1"
    "read_superblock_at mem_ops d (?t div 2) = D (t div 2)" "read_superblock_at mem_ops d (?t - 1) = D (t - 1)"
    using read [of PRIMARY_SUPERBLOCK_BLOCK] read [of "?t div 2"] read [of "?t - 1"] assms(4) t by (simp_all add: PRIMARY_SUPERBLOCK_BLOCK_def)
  have "\<not> ?t < 2"
    using t(1) assms(4) by (simp add: word_less_nat_alt)
  then show ?thesis
    unfolding read_sb_with_fallbacks_def Let_def three by simp
qed

text \<open>
  C8: the superblock is found as long as one of its three copies decodes and no copy decodes to
  anything else, whatever the other copies hold.
\<close>

theorem superblock_survives_damage:
  fixes t :: nat and sb :: superblock
  defines "copies \<equiv> {1, t div 2, t - 1}"
  assumes "mem_ok d" "length (md_data d) = t * 4096" "2 \<le> t"
    and "k \<in> copies" "sb_decode_block (cut (k * 4096) 4096 (md_data d)) = Ok sb"
    and "\<forall>j \<in> copies. \<forall>other. sb_decode_block (cut (j * 4096) 4096 (md_data d)) = Ok other \<longrightarrow> other = sb"
  shows "read_sb_with_fallbacks mem_ops d = Ok sb"
proof -
  let ?D = "\<lambda>j. sb_decode_block (cut (j * 4096) 4096 (md_data d))"
  have out: "?D j = Ok sb \<or> (\<exists>e. ?D j = Err e)" if "j \<in> copies" for j
  proof -
    have "j * 4096 + 4096 \<le> length (md_data d)"
      using that assms(3,4) by (auto simp: copies_def)
    then have "?D j \<noteq> Panic"
      by (intro sb_decode_no_panic) simp
    then show ?thesis
      using assms(7) that by (cases "?D j") auto
  qed
  have "?D 1 = Ok sb \<or> ?D (t div 2) = Ok sb \<or> ?D (t - 1) = Ok sb"
    using assms(5,6) unfolding copies_def by blast
  moreover have "?D 1 = Ok sb \<or> (\<exists>e. ?D 1 = Err e)" "?D (t div 2) = Ok sb \<or> (\<exists>e. ?D (t div 2) = Err e)"
    by (rule out, simp add: copies_def)+
  ultimately show ?thesis
    unfolding read_copies [OF assms(2-4)] by (elim disjE exE) simp_all
qed

text \<open>A device with one copy left: the two blocks read first are blank.\<close>

definition worn_device :: memory_device where
  "worn_device = tiny_device\<lparr>md_data := put (1023 * 4096) (crc_seal 508 (sb_body tiny_sb)) (zeros 4194304)\<rparr>"

lemma blank_superblock: "sb_decode_block (zeros 4096) \<noteq> Ok sb"
proof
  assume "sb_decode_block (zeros 4096) = Ok sb"
  then obtain fs where "take_fields sb_field_sizes (zeros 4096) 0 = Ok fs" "from_le (fs ! 0) = ODF_MAGIC"
    by (auto simp: sb_decode_block_def rbind_Ok_iff split: if_splits)
  then have "from_le (cut 0 8 (zeros 4096)) = ODF_MAGIC"
    by (auto simp: sb_field_sizes_def rbind_Ok_iff cut_res_def)
  moreover have "cut 0 8 (zeros 4096) = zeros 8" "from_le (zeros 8) = (0 :: u64)"
    by (simp add: cut_def zeros_def, code_simp)
  moreover have "ODF_MAGIC \<noteq> 0"
    by code_simp
  ultimately show False
    by simp
qed

theorem superblock_survives_damage_witness:
  "read_sb_with_fallbacks mem_ops worn_device = Ok tiny_sb"
proof -
  have blank: "cut a 4096 (put (1023 * 4096) (crc_seal 508 (sb_body tiny_sb)) (zeros 4194304)) = zeros 4096" if "a \<le> 1022 * 4096" for a
  proof -
    have "cut a 4096 (zeros 4194304) = zeros 4096"
      using that by (simp add: cut_def zeros_def)
    then show ?thesis
      using that by (simp add: tiny_sb_sel)
  qed
  have len: "length (md_data worn_device) = 1024 * 4096"
    by (simp add: worn_device_def tiny_sb_sel)
  have "mem_ok worn_device"
  proof -
    have "md_geometry worn_device = md_geometry tiny_device" "length (md_data worn_device) = length (md_data tiny_device)"
      using len tiny_length by (simp_all add: worn_device_def)
    then show ?thesis
      using tiny_ok by (simp add: mem_ok_def)
  qed
  moreover have "cut (1023 * 4096) 4096 (md_data worn_device) = crc_seal 508 (sb_body tiny_sb)"
    by (simp add: worn_device_def tiny_sb_sel)
  moreover have "cut (512 * 4096) 4096 (md_data worn_device) = zeros 4096" "cut (1 * 4096) 4096 (md_data worn_device) = zeros 4096"
    using blank [of "512 * 4096"] blank [of 4096] by (simp_all add: worn_device_def)
  ultimately show ?thesis
    using superblock_survives_damage [of worn_device 1024 1023 tiny_sb] len sb_roundtrip [OF tiny_sb_sel(2,3)] blank_superblock
    by simp
qed

end
