(* ===== verification/Resize.thy ===== *)
theory Resize
  imports Volume_Props
begin

text \<open>
  Growing a volume, \<open>corefs-core/src/storage/ondisk/resize.rs\<close>: the bitmap is re-read for the larger
  capacity, the new places of the superblock copies are marked, and bitmap and superblocks are written.
\<close>

section \<open>The operation\<close>

definition checked_mul :: "u64 \<Rightarrow> u64 \<Rightarrow> u64 option" where
  "checked_mul a b = (if unat a * unat b < 2 ^ 64 then Some (a * b) else None)"

record grow_report =
  gr_old_total_blocks :: u64
  gr_new_total_blocks :: u64
  gr_added_blocks :: u64

definition grown_superblock :: "superblock \<Rightarrow> u64 \<Rightarrow> u32 \<Rightarrow> superblock" where
  "grown_superblock sb new_capacity_blocks bitmap_crc =
     sb\<lparr>sb_total_blocks := new_capacity_blocks,
        sb_free_blocks := sat_add (sb_free_blocks sb) (new_capacity_blocks - sb_total_blocks sb),
        sb_secondary_superblock_block := new_capacity_blocks - 1,
        sb_tertiary_superblock_block := new_capacity_blocks div 2,
        sb_block_bitmap_crc := bitmap_crc\<rparr>"

definition write_at_block :: "'d device_ops \<Rightarrow> u64 \<Rightarrow> bytes \<Rightarrow> ('d, unit) cmd" where
  "write_at_block ops block data = cbind (clift (umul block BLOCK_SIZE)) (\<lambda>off. op_write_at ops off data)"

definition grow_device :: "'d device_ops \<Rightarrow> u64 \<Rightarrow> ('d, grow_report) cmd" where
  "grow_device ops new_capacity_blocks =
     cbind (cread (read_sb_with_fallbacks ops)) (\<lambda>sb.
     let old_total = sb_total_blocks sb in
     if new_capacity_blocks \<le> old_total then cfail (InvalidInput ''grow: new_capacity_blocks '')
     else
     cbind (clift (opt_or (checked_mul new_capacity_blocks BLOCK_SIZE) (InvalidInput ''grow: capacity overflow''))) (\<lambda>required_bytes.
     cbind (cread (\<lambda>d. Ok (dev_capacity ops d))) (\<lambda>capacity.
     if required_bytes > capacity then cfail (InvalidInput ''grow: device physical capacity '')
     else
     cbind (clift (umul (sb_block_bitmap_blocks sb) BITS_PER_BITMAP_BLOCK)) (\<lambda>bitmap_capacity_bits.
     if new_capacity_blocks > bitmap_capacity_bits then cfail (State ''grow: block bitmap holds '')
     else
     cbind (clift (umul (sb_block_bitmap_start sb) BLOCK_SIZE)) (\<lambda>off.
     cbind (clift (umul (sb_block_bitmap_blocks sb) BLOCK_SIZE)) (\<lambda>n.
     cbind (cread (\<lambda>d. op_read_at ops d off n)) (\<lambda>bitmap_bytes.
     cbind (clift (bitmap_from_bytes bitmap_bytes new_capacity_blocks)) (\<lambda>bitmap.
     cbind (clift (usub new_capacity_blocks 1)) (\<lambda>new_secondary.
     cbind (clift (clocal (cthen (cdrop (bm_set new_secondary)) (cdrop (bm_set (new_capacity_blocks div 2)))) bitmap)) (\<lambda>bitmap.
     cthen (write_at_block ops (sb_block_bitmap_start sb) (bm_bits bitmap))
    (let sb = grown_superblock sb new_capacity_blocks (crc_hash (bm_bits bitmap)) in
     cbind (clift (sb_encode_block sb)) (\<lambda>sb_block.
     cthen (write_at_block ops PRIMARY_SUPERBLOCK_BLOCK sb_block)
    (cthen (write_at_block ops (new_capacity_blocks div 2) sb_block)
    (cthen (write_at_block ops new_secondary sb_block)
    (cthen (op_sync ops)
       (cret \<lparr>gr_old_total_blocks = old_total, gr_new_total_blocks = new_capacity_blocks,
              gr_added_blocks = new_capacity_blocks - old_total\<rparr>))))))))))))))))"

section \<open>What growing writes\<close>

lemma marks_two:
  assumes "wf_bitmap bm" "i < bm_capacity bm" "j < bm_capacity bm"
  shows "\<exists>bm'. clocal (cthen (cdrop (bm_set i)) (cdrop (bm_set j))) bm = Ok bm' \<and> used bm' = used bm \<union> {unat i, unat j}
    \<and> length (bm_bits bm') = length (bm_bits bm) \<and> bm_capacity bm' = bm_capacity bm \<and> wf_bitmap bm'"
proof -
  obtain bm' where m: "marks (cthen (cdrop (bm_set i)) (cdrop (bm_set j))) bm ({unat i} \<union> {unat j}) bm'"
    using marks_then [of "cdrop (bm_set i)" bm "{unat i}" "cdrop (bm_set j)" "{unat j}"] marks_set [OF assms(1,2)]
      marks_set [of _ j] assms(3) marks_sel by (metis (no_types, lifting))
  then show ?thesis
    using clocal_marks [OF m] by (intro exI [of _ bm']) (auto simp: marks_def)
qed

definition grow_writes :: "geometry \<Rightarrow> nat \<Rightarrow> bitmap \<Rightarrow> bytes \<Rightarrow> (nat \<times> bytes) list" where
  "grow_writes g n bm b =
     [(unat (g_block_bitmap_start g) * 4096, bm_bits bm), (4096, b), (n div 2 * 4096, b), ((n - 1) * 4096, b)]"

text \<open>The bitmap of a volume as a device holds it, read for \<open>n\<close> blocks.\<close>

definition stored_bitmap :: "geometry \<Rightarrow> u64 \<Rightarrow> bytes \<Rightarrow> bitmap" where
  "stored_bitmap g n img =
    \<lparr>bm_bits = cut (unat (g_block_bitmap_start g) * 4096) (unat (g_block_bitmap_blocks g) * 4096) img, bm_capacity = n\<rparr>"

context volume_device
begin

lemma stores_next_at:
  assumes "unat b * 4096 + length data \<le> n" "4096 dvd length data" "inv d" "length (image d) = n"
    and "\<And>d1. inv d1 \<Longrightarrow> length (image d1) = n \<Longrightarrow> \<exists>d2. stores k d1 ws x d2"
  shows "\<exists>d2. stores (cthen (write_at_block ops b data) k) d ((unat b * 4096, data) # ws) x d2"
proof -
  have fits: "unat b * 4096 + length data \<le> length (image d)"
    using assms(1,4) by simp
  have "\<exists>d1. stores (write_at_block ops b data) d [(unat b * 4096, data)] () d1"
    unfolding write_at_block_def using stores_write [OF assms(3), of "b * BLOCK_SIZE" data] assms(2) fits block_bytes [OF assms(3) fits]
    by (intro stores_lift [where y = "b * BLOCK_SIZE"]) simp_all
  then show ?thesis
    using stores_next [OF assms(3-5)] by fastforce
qed

lemma grow_stores:
  fixes sb :: superblock and n :: u64
  defines "g \<equiv> sb_geometry sb"
  assumes d: "inv d" "read_sb_with_fallbacks ops d = Ok sb" "plan p = Ok g"
    and n: "unat (g_total_blocks g) < unat n" "unat n * 4096 \<le> length (image d)" "unat n \<le> unat (g_block_bitmap_blocks g) * 32768"
  shows "\<exists>bm d'. stores (grow_device ops n) d
      (grow_writes g (unat n) bm (crc_seal 508 (sb_body (grown_superblock sb n (crc_hash (bm_bits bm))))))
      \<lparr>gr_old_total_blocks = g_total_blocks g, gr_new_total_blocks = n, gr_added_blocks = n - g_total_blocks g\<rparr> d'
    \<and> used bm = used (stored_bitmap g n (image d)) \<union> {unat n - 1, unat n div 2}
    \<and> length (bm_bits bm) = unat (g_block_bitmap_blocks g) * 4096 \<and> bm_capacity bm = n"
proof -
  note pn = plan_Ok_nat [OF d(3)]
  let ?bb = "unat (g_block_bitmap_start g)" and ?k = "unat (g_block_bitmap_blocks g)"
  have geo: "sb_block_bitmap_start sb = g_block_bitmap_start g" "sb_block_bitmap_blocks sb = g_block_bitmap_blocks g"
    "sb_total_blocks sb = g_total_blocks g"
    by (simp_all add: g_def sb_geometry_def)
  have len: "length (image d) < 2 ^ 64" "unat (dev_capacity ops d) = length (image d)"
    using sector_size_law [OF d(1)] capacity_law [OF d(1)] by simp_all
  have bb: "?bb + ?k \<le> unat (g_total_blocks g)"
    using pn by linarith
  have bmfit: "?bb * 4096 + ?k * 4096 \<le> length (image d)"
    using bb n(1,2) by linarith
  have req: "opt_or (checked_mul n BLOCK_SIZE) e = Ok (n * BLOCK_SIZE)" "unat (n * BLOCK_SIZE) = unat n * 4096" for e
    using n(2) len(1) by (simp_all add: checked_mul_def unat_mul_ok)
  have "?k \<le> unat (g_total_blocks g)"
    using bb by simp
  then have "?k * 32768 < 2 ^ 64"
    using n(1,2) len(1) plan_Ok_fields(1,4) [OF d(3)] by simp
  then have bits: "umul (g_block_bitmap_blocks g) BITS_PER_BITMAP_BLOCK = Ok (g_block_bitmap_blocks g * BITS_PER_BITMAP_BLOCK)"
    "unat (g_block_bitmap_blocks g * BITS_PER_BITMAP_BLOCK) = ?k * 32768"
    by (simp_all add: umul_def unat_mul_ok BITS_PER_BITMAP_BLOCK_def)
  let ?old = "stored_bitmap g n (image d)" and ?len = "g_block_bitmap_blocks g * BLOCK_SIZE"
  have l: "umul (g_block_bitmap_blocks g) BLOCK_SIZE = Ok ?len" "unat ?len = ?k * 4096"
    using block_bytes [OF d(1), of "g_block_bitmap_blocks g" 0] bmfit by simp_all
  have rd: "op_read_at ops d (g_block_bitmap_start g * BLOCK_SIZE) ?len = Ok (bm_bits ?old)"
    using read_blocks [OF d(1), of "g_block_bitmap_start g" ?len] l(2) bmfit by (simp add: stored_bitmap_def)
  have old: "bitmap_from_bytes (bm_bits ?old) n = Ok ?old" "length (bm_bits ?old) = ?k * 4096" "bm_capacity ?old = n"
    using bmfit n(3) by (simp_all add: bitmap_from_bytes_Ok_iff stored_bitmap_def)
  have pos: "0 < unat n"
    using n(1) by simp
  have half: "n div 2 < n" "unat (n div 2) = unat n div 2"
    using pos by (simp_all add: word_less_nat_alt unat_div)
  have last: "usub n 1 = Ok (n - 1)" "n - 1 < n" "unat (n - 1) = unat n - 1"
  proof -
    have "(1 :: u64) \<le> n"
      using pos by (simp only: word_le_nat_alt) simp
    then show "unat (n - 1) = unat n - 1" "usub n 1 = Ok (n - 1)"
      by (simp_all add: unat_sub usub_def)
    then show "n - 1 < n"
      using pos by (simp add: word_less_nat_alt)
  qed
  obtain bm where bm: "clocal (cthen (cdrop (bm_set (n - 1))) (cdrop (bm_set (n div 2)))) ?old = Ok bm"
    "used bm = used ?old \<union> {unat n - 1, unat n div 2}" "length (bm_bits bm) = ?k * 4096" "bm_capacity bm = n"
    using marks_two [OF bitmap_from_bytes_wf [OF old(1)], of "n - 1" "n div 2"] half last(2,3) old(2,3) by auto
  let ?sb = "grown_superblock sb n (crc_hash (bm_bits bm))"
  have wf: "wf_superblock ?sb"
    using read_sb_Ok(1) [OF d(2)] by (simp add: wf_superblock_def grown_superblock_def)
  note enc = sb_encode_eq [OF wf]
  let ?b = "crc_seal 508 (sb_body ?sb)"
  have b: "length ?b = 4096"
    using wf by simp
  have at: "?bb * 4096 + length (bm_bits bm) \<le> length (image d)" "4096 dvd length (bm_bits bm)"
    "unat PRIMARY_SUPERBLOCK_BLOCK * 4096 + length ?b \<le> length (image d)" "4096 dvd length ?b"
    "unat (n div 2) * 4096 + length ?b \<le> length (image d)" "unat (n - 1) * 4096 + length ?b \<le> length (image d)"
  proof -
    have fit: "j * 4096 + 4096 \<le> length (image d)" if "j < unat n" for j
      using that n(2) by linarith
    have lt: "unat PRIMARY_SUPERBLOCK_BLOCK < unat n" "unat (n div 2) < unat n" "unat (n - 1) < unat n"
      using half(1) last(2) n(1) pn(8) by (simp_all add: word_less_nat_alt)
    show "unat PRIMARY_SUPERBLOCK_BLOCK * 4096 + length ?b \<le> length (image d)"
      "unat (n div 2) * 4096 + length ?b \<le> length (image d)" "unat (n - 1) * 4096 + length ?b \<le> length (image d)"
      unfolding b by (rule fit [OF lt(1)], rule fit [OF lt(2)], rule fit [OF lt(3)])
  qed (use bmfit bm(3) b in simp_all)
  have ok: "\<not> n \<le> g_total_blocks g" "\<not> dev_capacity ops d < n * BLOCK_SIZE" "\<not> g_block_bitmap_blocks g * BITS_PER_BITMAP_BLOCK < n"
    using n req(2) len(2) bits(2) by (simp_all add: word_le_nat_alt word_less_nat_alt)
  have "\<exists>d'. stores (grow_device ops n) d
      ((?bb * 4096, bm_bits bm) # (unat PRIMARY_SUPERBLOCK_BLOCK * 4096, ?b) # (unat (n div 2) * 4096, ?b) # (unat (n - 1) * 4096, ?b) # [])
      \<lparr>gr_old_total_blocks = g_total_blocks g, gr_new_total_blocks = n, gr_added_blocks = n - g_total_blocks g\<rparr> d'"
    unfolding grow_device_def Let_def
    by (rule stores_read, rule d(2)) (simp only: geo if_not_P [OF ok(1)],
        rule stores_lift [OF req(1)], rule stores_read, rule refl, simp only: if_not_P [OF ok(2)],
        rule stores_lift [OF bits(1)], simp only: if_not_P [OF ok(3)],
        rule stores_lift [OF block_bytes(1) [OF d(1) bmfit]], rule stores_lift [OF l(1)], rule stores_read, simp only: rd,
        rule stores_lift [OF old(1)], rule stores_lift [OF last(1)], rule stores_lift [OF bm(1)],
        rule stores_next_at [OF at(1,2) d(1) refl], rule stores_lift [OF enc],
        rule stores_next_at [OF at(3,4)], assumption, assumption, rule stores_next_at [OF at(5,4)], assumption, assumption,
        rule stores_next_at [OF at(6,4)], assumption, assumption, rule stores_last)
  then show ?thesis
    using bm(2-4) by (intro exI [of _ bm]) (simp add: grow_writes_def half(2) last(3))
qed

end

section \<open>A grown volume\<close>

text \<open>The regions written, read back.\<close>

lemma grow_reads:
  fixes g :: geometry and n :: nat
  defines "bb \<equiv> unat (g_block_bitmap_start g) * 4096"
  assumes ws: "ws = grow_writes g n bm b" "within (length img) ws" "length b = 4096"
    and bm: "length (bm_bits bm) = unat (g_block_bitmap_blocks g) * 4096"
    and g: "plan p = Ok g" "unat (g_total_blocks g) < n" "unat (g_data_start g) \<le> n div 2"
  shows "cut 4096 4096 (puts ws img) = b" "cut (n div 2 * 4096) 4096 (puts ws img) = b"
    "cut bb (length (bm_bits bm)) (puts ws img) = bm_bits bm"
proof -
  note pn = plan_Ok_nat [OF g(1)]
  have o: "8192 \<le> bb" "bb + length (bm_bits bm) \<le> n div 2 * 4096" "n div 2 * 4096 + 4096 \<le> (n - 1) * 4096"
  proof -
    show "8192 \<le> bb"
      by (simp add: bb_def pn(1))
    have "2 + unat (g_block_bitmap_blocks g) \<le> n div 2"
      using pn(2-5) g(3) by linarith
    then have "(2 + unat (g_block_bitmap_blocks g)) * 4096 \<le> n div 2 * 4096"
      by (rule mult_right_mono) simp
    then show "bb + length (bm_bits bm) \<le> n div 2 * 4096"
      by (simp add: bb_def bm pn(1))
    have "n div 2 + 1 \<le> n - 1"
      using g(2) pn(8) by linarith
    then have "(n div 2 + 1) * 4096 \<le> (n - 1) * 4096"
      by (rule mult_right_mono) simp
    then show "n div 2 * 4096 + 4096 \<le> (n - 1) * 4096"
      by simp
  qed
  have reads: "cut a (length s) (puts ws img) = s"
    if "ws = xs @ (a, s) # ys" "\<forall>(off, s') \<in> set ys. a + length s \<le> off \<or> off + length s' \<le> a" for xs a s ys
    using cut_written [of img xs a s ys] that(2) ws(2) that(1) by auto
  note w = ws(1) [unfolded grow_writes_def, folded bb_def]
  show "cut 4096 4096 (puts ws img) = b"
    using reads [of "[(bb, bm_bits bm)]" 4096 b "[(n div 2 * 4096, b), ((n - 1) * 4096, b)]"] o ws(3) by (auto simp: w)
  show "cut (n div 2 * 4096) 4096 (puts ws img) = b"
    using reads [of "[(bb, bm_bits bm), (4096, b)]" "n div 2 * 4096" b "[((n - 1) * 4096, b)]"] o ws(3) by (auto simp: w)
  show "cut bb (length (bm_bits bm)) (puts ws img) = bm_bits bm"
    using reads [of "[]" bb "bm_bits bm" "[(4096, b), (n div 2 * 4096, b), ((n - 1) * 4096, b)]"] o ws(3) by (auto simp: w)
qed

lemma grow_mem:
  fixes sb :: superblock and n :: u64
  defines "g \<equiv> sb_geometry sb"
  assumes "mem_ok d" "read_sb_with_fallbacks mem_ops d = Ok sb" "plan p = Ok g"
    and "unat (g_total_blocks g) < unat n" "unat n * 4096 \<le> length (md_data d)" "unat n \<le> unat (g_block_bitmap_blocks g) * 32768"
    and "unat (g_data_start g) \<le> unat n div 2"
  shows "\<exists>rep d' sb'. grow_device mem_ops n d = (Ok rep, d') \<and> gr_added_blocks rep = n - g_total_blocks g
    \<and> read_sb_with_fallbacks mem_ops d' = Ok sb' \<and> sb_total_blocks sb' = n
    \<and> wf_superblock sb' \<and> cut (unat n div 2 * 4096) 4096 (md_data d') = crc_seal 508 (sb_body sb')
    \<and> used (stored_bitmap g n (md_data d')) = used (stored_bitmap g n (md_data d)) \<union> {unat n - 1, unat n div 2}"
proof -
  obtain bm d' where st: "memvol.stores (grow_device mem_ops n) d
      (grow_writes g (unat n) bm (crc_seal 508 (sb_body (grown_superblock sb n (crc_hash (bm_bits bm))))))
      \<lparr>gr_old_total_blocks = g_total_blocks g, gr_new_total_blocks = n, gr_added_blocks = n - g_total_blocks g\<rparr> d'"
    and bm: "used bm = used (stored_bitmap g n (md_data d)) \<union> {unat n - 1, unat n div 2}"
      "length (bm_bits bm) = unat (g_block_bitmap_blocks g) * 4096" "bm_capacity bm = n"
    using memvol.grow_stores [OF assms(2,3) assms(4-7) [unfolded g_def]] unfolding g_def [symmetric] by blast
  let ?sb = "grown_superblock sb n (crc_hash (bm_bits bm))"
  have sb: "wf_superblock ?sb" "supported ?sb" "sb_total_blocks ?sb = n"
    using read_sb_Ok [OF assms(3)] by (simp_all add: wf_superblock_def supported_def grown_superblock_def)
  have b: "length (crc_seal 508 (sb_body ?sb)) = 4096"
    using sb(1) by simp
  have d': "md_data d' = puts (grow_writes g (unat n) bm (crc_seal 508 (sb_body ?sb))) (md_data d)" "mem_ok d'"
    "within (length (md_data d)) (grow_writes g (unat n) bm (crc_seal 508 (sb_body ?sb)))" "length (md_data d') = length (md_data d)"
    using st memvol.stores_length [OF st] by (simp_all add: memvol.stores_def)
  note r = grow_reads [OF refl d'(3) b bm(2) assms(4,5,8), folded d'(1)]
  have "8192 \<le> length (md_data d')"
    using assms(5,6) plan_Ok_nat(8) [OF assms(4)] d'(4) by linarith
  then have "read_superblock_at mem_ops d' PRIMARY_SUPERBLOCK_BLOCK = Ok ?sb"
    using memvol.read_one_block [OF d'(2), of PRIMARY_SUPERBLOCK_BLOCK] memvol.block_bytes(1) [OF d'(2), of PRIMARY_SUPERBLOCK_BLOCK 4096]
      sb_roundtrip [OF sb(1,2)] r(1) by (simp add: read_superblock_at_def PRIMARY_SUPERBLOCK_BLOCK_def)
  then have "read_sb_with_fallbacks mem_ops d' = Ok ?sb"
    by (simp add: read_sb_with_fallbacks_def)
  moreover have "stored_bitmap g n (md_data d') = bm"
    using r(3) bm(2,3) by (simp add: stored_bitmap_def)
  ultimately show ?thesis
    using st sb(1,3) r(2) bm(1) by (auto simp: memvol.stores_def)
qed

section \<open>Properties\<close>

text \<open>
  growing a planned volume that its bitmap region can address writes superblocks with the new size;
  the volume mounts with them, and the stored bitmap keeps every mark it had and gains the two new
  places of the superblock copies.
\<close>

theorem grown_volume_mounts:
  assumes "mem_ok d" "read_sb_with_fallbacks mem_ops d = Ok sb" "plan p = Ok (sb_geometry sb)"
    and "unat (g_total_blocks (sb_geometry sb)) < unat n" "unat n * 4096 \<le> length (md_data d)"
    and "unat n \<le> unat (g_block_bitmap_blocks (sb_geometry sb)) * 32768" "unat (g_data_start (sb_geometry sb)) \<le> unat n div 2"
  shows "\<exists>rep d' sb'. grow_device mem_ops n d = (Ok rep, d') \<and> gr_added_blocks rep = n - g_total_blocks (sb_geometry sb)
    \<and> read_sb_with_fallbacks mem_ops d' = Ok sb' \<and> sb_total_blocks sb' = n
    \<and> used (stored_bitmap (sb_geometry sb) n (md_data d')) = used (stored_bitmap (sb_geometry sb) n (md_data d)) \<union> {unat n - 1, unat n div 2}"
  using grow_mem [OF assms] by blast

text \<open>
  A volume of 1024 blocks on a device of 1100, with every bit of its bitmap set and data in block 550.
\<close>

definition crowded_device :: memory_device where
  "crowded_device =
    \<lparr>md_data = puts [(4096, crc_seal 508 (sb_body tiny_sb)), (8192, replicate 4096 255), (2252800, replicate 4096 1)] (zeros 4505600),
     md_geometry = \<lparr>dg_sector_size = 4096, dg_sector_count = 1100, dg_capacity_bytes = 4505600, dg_read_only = False\<rparr>,
     md_trim_supported = True, md_trimmed_ranges = []\<rparr>"

lemma crowded_cuts:
  "length (md_data crowded_device) = 4505600" "cut 4096 4096 (md_data crowded_device) = crc_seal 508 (sb_body tiny_sb)"
  "cut 8192 4096 (md_data crowded_device) = replicate 4096 255" "cut 2252800 4096 (md_data crowded_device) = replicate 4096 1"
  by (simp_all add: crowded_device_def tiny_sb_sel)

lemma crowded_ok: "mem_ok crowded_device"
proof -
  have "4096 dvd (4505600 :: nat)"
    by (simp add: dvd_eq_mod_eq_0)
  then show ?thesis
    using crowded_cuts(1) by (simp add: mem_ok_def) (simp add: crowded_device_def)
qed

lemma crowded_read: "read_sb_with_fallbacks mem_ops crowded_device = Ok tiny_sb"
proof -
  have "read_superblock_at mem_ops crowded_device PRIMARY_SUPERBLOCK_BLOCK = Ok tiny_sb"
    using memvol.read_one_block [OF crowded_ok, of PRIMARY_SUPERBLOCK_BLOCK] memvol.block_bytes(1) [OF crowded_ok, of PRIMARY_SUPERBLOCK_BLOCK 4096]
      sb_roundtrip [OF tiny_sb_sel(2,3)] crowded_cuts(1,2) by (simp add: read_superblock_at_def PRIMARY_SUPERBLOCK_BLOCK_def)
  then show ?thesis
    by (simp add: read_sb_with_fallbacks_def)
qed

theorem grown_volume_mounts_witness:
  "\<exists>rep d' sb'. grow_device mem_ops 1100 crowded_device = (Ok rep, d') \<and> read_sb_with_fallbacks mem_ops d' = Ok sb' \<and> sb_total_blocks sb' = 1100"
  using grown_volume_mounts [OF crowded_ok crowded_read, of _ 1100, unfolded tiny_sb_sel crowded_cuts(1), OF tiny_plan]
  by (auto simp: tiny_geometry_def)

text \<open>
  C9: growing does not look at the block that is half the new size.  When the bitmap has that block in use, growing
  succeeds all the same and puts a copy of the new superblock there, which decodes and is not what the block held;
  the only new mark in the bitmap is the one of the last block, so nothing records the loss.
\<close>

theorem grow_overwrites_block_in_use:
  assumes "mem_ok d" "read_sb_with_fallbacks mem_ops d = Ok sb" "plan p = Ok (sb_geometry sb)"
    and "unat (g_total_blocks (sb_geometry sb)) < unat n" "unat n * 4096 \<le> length (md_data d)"
    and "unat n \<le> unat (g_block_bitmap_blocks (sb_geometry sb)) * 32768" "unat (g_data_start (sb_geometry sb)) \<le> unat n div 2"
    and "unat n div 2 \<in> used (stored_bitmap (sb_geometry sb) n (md_data d))"
    and "cut 512 3584 (cut (unat n div 2 * 4096) 4096 (md_data d)) \<noteq> zeros 3584"
  shows "\<exists>rep d' sb'. grow_device mem_ops n d = (Ok rep, d')
    \<and> read_sb_with_fallbacks mem_ops d' = Ok sb' \<and> sb_total_blocks sb' = n
    \<and> sb_decode_block (cut (unat n div 2 * 4096) 4096 (md_data d')) = Ok sb'
    \<and> cut (unat n div 2 * 4096) 4096 (md_data d') \<noteq> cut (unat n div 2 * 4096) 4096 (md_data d)
    \<and> used (stored_bitmap (sb_geometry sb) n (md_data d')) = used (stored_bitmap (sb_geometry sb) n (md_data d)) \<union> {unat n - 1}"
proof -
  obtain rep d' sb' where g: "grow_device mem_ops n d = (Ok rep, d')" "read_sb_with_fallbacks mem_ops d' = Ok sb'" "sb_total_blocks sb' = n"
    "wf_superblock sb'" "cut (unat n div 2 * 4096) 4096 (md_data d') = crc_seal 508 (sb_body sb')"
    "used (stored_bitmap (sb_geometry sb) n (md_data d')) = used (stored_bitmap (sb_geometry sb) n (md_data d)) \<union> {unat n - 1, unat n div 2}"
    using grow_mem [OF assms(1-7)] by blast
  have "sb_decode_block (cut (unat n div 2 * 4096) 4096 (md_data d')) = Ok sb'"
    unfolding g(5) using read_sb_Ok [OF g(2)] by (intro sb_roundtrip) simp_all
  moreover have "cut (unat n div 2 * 4096) 4096 (md_data d') \<noteq> cut (unat n div 2 * 4096) 4096 (md_data d)"
    using g(4,5) assms(9) superblock_tail by metis
  moreover have "used (stored_bitmap (sb_geometry sb) n (md_data d')) = used (stored_bitmap (sb_geometry sb) n (md_data d)) \<union> {unat n - 1}"
    unfolding g(6) using assms(8) by auto
  ultimately show ?thesis
    using g(1-3) by blast
qed

theorem grow_overwrites_block_in_use_witness:
  "\<exists>rep d' sb'. grow_device mem_ops 1100 crowded_device = (Ok rep, d') \<and> sb_total_blocks sb' = 1100
    \<and> cut 2252800 4096 (md_data crowded_device) = replicate 4096 1
    \<and> sb_decode_block (cut 2252800 4096 (md_data d')) = Ok sb' \<and> cut 2252800 4096 (md_data d') \<noteq> replicate 4096 1"
proof -
  have "bm_bit (stored_bitmap tiny_geometry 1100 (md_data crowded_device)) 550"
    using crowded_cuts(3) by (simp add: bm_bit_def stored_bitmap_def tiny_geometry_def)
  then have "550 \<in> used (stored_bitmap tiny_geometry 1100 (md_data crowded_device))"
    by (simp add: used_def) (simp add: stored_bitmap_def)
  moreover have "cut 512 3584 (replicate 4096 (1 :: u8)) \<noteq> zeros 3584"
    using ones_not_zero [of 0 4096] by simp
  ultimately have "\<exists>rep d' sb'. grow_device mem_ops 1100 crowded_device = (Ok rep, d')
    \<and> read_sb_with_fallbacks mem_ops d' = Ok sb' \<and> sb_total_blocks sb' = 1100
    \<and> sb_decode_block (cut 2252800 4096 (md_data d')) = Ok sb'
    \<and> cut 2252800 4096 (md_data d') \<noteq> cut 2252800 4096 (md_data crowded_device)
    \<and> used (stored_bitmap tiny_geometry 1100 (md_data d')) = used (stored_bitmap tiny_geometry 1100 (md_data crowded_device)) \<union> {1099}"
    using grow_overwrites_block_in_use [OF crowded_ok crowded_read, of _ 1100, unfolded tiny_sb_sel crowded_cuts(1), OF tiny_plan] crowded_cuts(4)
    by (simp add: tiny_geometry_def)
  then show ?thesis
    unfolding crowded_cuts(4) by blast
qed

end
