(* ===== verification/Ordered_Map.thy ===== *)
theory Ordered_Map
  imports Prelude
begin

text \<open>
  The ordered maps of the code (\<open>BTreeMap\<close>, and \<open>HashMap\<close> where the order of iteration does not show):
  a list of pairs in ascending key order.  \<open>lookup_map\<close> states what a client relies on.
\<close>

type_synonym ('k, 'v) omap = "('k \<times> 'v) list"

abbreviation om_get :: "('k, 'v) omap \<Rightarrow> 'k \<Rightarrow> 'v option" where
  "om_get \<equiv> map_of"

fun om_insert :: "'k::linorder \<Rightarrow> 'v \<Rightarrow> ('k, 'v) omap \<Rightarrow> ('k, 'v) omap" where
  "om_insert k v [] = [(k, v)]"
| "om_insert k v ((l, w) # m) =
    (if k < l then (k, v) # (l, w) # m
     else if k = l then (k, v) # m
     else (l, w) # om_insert k v m)"

definition om_remove :: "'k \<Rightarrow> ('k, 'v) omap \<Rightarrow> ('k, 'v) omap" where
  "om_remove k m = filter (\<lambda>(l, _). l \<noteq> k) m"

definition om_ok :: "('k::linorder, 'v) omap \<Rightarrow> bool" where
  "om_ok m \<longleftrightarrow> sorted_wrt (<) (map fst m)"

locale lookup_map =
  fixes get :: "'m \<Rightarrow> 'k \<Rightarrow> 'v option" and insert_at :: "'k \<Rightarrow> 'v \<Rightarrow> 'm \<Rightarrow> 'm" and remove_at :: "'k \<Rightarrow> 'm \<Rightarrow> 'm" and ok :: "'m \<Rightarrow> bool"
  assumes insert_law: "ok m \<Longrightarrow> ok (insert_at k v m) \<and> get (insert_at k v m) = (get m)(k \<mapsto> v)"
    and remove_law: "ok m \<Longrightarrow> ok (remove_at k m) \<and> get (remove_at k m) = (get m)(k := None)"
begin

lemma reinsert: "ok m \<Longrightarrow> get (insert_at k v (remove_at k m)) = (get m)(k \<mapsto> v)"
  using insert_law remove_law by simp

lemma get_insert: "ok m \<Longrightarrow> get (insert_at k v m) l = (if l = k then Some v else get m l)"
  using insert_law by simp

lemma get_remove: "ok m \<Longrightarrow> get (remove_at k m) l = (if l = k then None else get m l)"
  using remove_law by simp

lemma keys_insert: "ok m \<Longrightarrow> dom (get (insert_at k v m)) = insert k (dom (get m))"
  using insert_law by simp

end

lemma om_keys_insert: "fst ` set (om_insert k v m) = insert k (fst ` set m)"
  by (induction k v m rule: om_insert.induct) auto

lemma om_ok_insert: "om_ok m \<Longrightarrow> om_ok (om_insert k v m)"
proof (induction k v m rule: om_insert.induct)
  case (2 k v l w m)
  have "\<forall>x \<in> set (map fst (om_insert k v m)). l < x" if "l < k" "\<forall>x \<in> set (map fst m). l < x"
    using that om_keys_insert [of k v m] by auto
  then show ?case
    using 2 by (auto simp: om_ok_def)
qed (simp add: om_ok_def)

lemma om_get_insert: "om_ok m \<Longrightarrow> om_get (om_insert k v m) = (om_get m)(k \<mapsto> v)"
proof (induction k v m rule: om_insert.induct)
  case (2 k v l w m)
  then show ?case
    by (auto simp: om_ok_def fun_eq_iff)
qed simp

lemma om_get_remove: "om_get (om_remove k m) = (om_get m)(k := None)"
  by (induction m) (auto simp: om_remove_def fun_eq_iff)

lemma om_ok_remove: "om_ok m \<Longrightarrow> om_ok (om_remove k m)"
  unfolding om_ok_def om_remove_def sorted_wrt_map by (rule sorted_wrt_filter)

interpretation om: lookup_map om_get om_insert om_remove om_ok
  by unfold_locales (simp_all add: om_get_insert om_get_remove om_ok_insert om_ok_remove)

lemma om_ok_Nil [simp]: "om_ok []"
  by (simp add: om_ok_def)

lemma om_ok_distinct: "om_ok m \<Longrightarrow> distinct (map fst m)"
  unfolding om_ok_def by (metis strict_sorted_iff)

lemma om_mem_iff: "om_ok m \<Longrightarrow> (k, v) \<in> set m \<longleftrightarrow> om_get m k = Some v"
  using om_ok_distinct map_of_eq_Some_iff by metis

text \<open>The values in key order (\<open>values()\<close>).\<close>

abbreviation om_values :: "('k, 'v) omap \<Rightarrow> 'v list" where
  "om_values m \<equiv> map snd m"

end
