(* ===== verification/Block_Store.thy ===== *)
theory Block_Store
  imports Ordered_Map Block_Device Checksum
begin

text \<open>
  The extent-based block store, \<open>corefs-core/src/storage/block_store.rs\<close>: file contents as extents on a
  device, a list of free extents below a high-water mark, and a table counting equal checksums.

  \<open>usize\<close> is 64 bits wide.  The field \<open>compat_device\<close> is the internal memory device of the operations
  that take no device.
\<close>

section \<open>Data\<close>

definition MAX_RMW_BYTES :: u64 where "MAX_RMW_BYTES = 16 * 1024 * 1024"

definition COMPAT_DEVICE_BYTES :: u64 where "COMPAT_DEVICE_BYTES = 64 * 1024 * 1024"

definition align_down_u64 :: "u64 \<Rightarrow> u64 \<Rightarrow> u64" where
  "align_down_u64 v alignment = (if alignment = 0 then v else v - v mod alignment)"

definition align_up_u64 :: "u64 \<Rightarrow> u64 \<Rightarrow> u64 result" where
  "align_up_u64 v alignment =
    (if alignment = 0 \<or> v mod alignment = 0 then Ok v else uadd v (alignment - v mod alignment))"

type_synonym inode_id = u64

record extent_ref =
  er_logical_block :: u32
  er_logical_len :: u32
  er_physical_block :: u64
  er_length_blocks :: u32
  er_physical_len :: u32
  er_content_crc :: u32
  er_flags :: u32

record block_record =
  br_inode :: inode_id
  br_logical_size :: u64
  br_extents :: "extent_ref list"
  br_content_crc :: u32
  br_flags :: u32

record range_write_outcome =
  rw_size :: u64
  rw_changed :: bool

definition total_blocks :: "block_record \<Rightarrow> u64 result" where
  "total_blocks r = rfor (\<lambda>e n. uadd n (ucast (er_length_blocks e))) (br_extents r) 0"

definition first_physical_block :: "block_record \<Rightarrow> u64" where
  "first_physical_block r = (case br_extents r of [] \<Rightarrow> 0 | e # _ \<Rightarrow> er_physical_block e)"

record old_block_record =
  ob_inode :: inode_id
  ob_bytes :: bytes
  ob_checksum :: u64
  ob_device_block :: u64
  ob_allocated_blocks :: u64

definition fnv_checksum :: "bytes \<Rightarrow> u64" where
  "fnv_checksum bs = foldl (\<lambda>acc b. acc * 16777619 + ucast b) 0 bs"

definition from_record_and_bytes :: "block_record \<Rightarrow> bytes \<Rightarrow> old_block_record result" where
  "from_record_and_bytes r bs =
     rbind (total_blocks r) (\<lambda>n.
       Ok \<lparr>ob_inode = br_inode r, ob_bytes = bs, ob_checksum = fnv_checksum bs,
           ob_device_block = first_physical_block r, ob_allocated_blocks = n\<rparr>)"

record free_extent_record =
  fe_device_block :: u64
  fe_allocated_blocks :: u64

datatype store_strategy = StoreBestFit | StoreFirstFit

record allocator_policy =
  ap_strategy :: store_strategy
  ap_split_threshold_blocks :: u64
  ap_coalesce_on_release :: bool
  ap_tail_trim_enabled :: bool
  ap_background_compaction_enabled :: bool
  ap_fragmentation_threshold_percent :: u8

definition allocator_policy_default :: allocator_policy where
  "allocator_policy_default =
    \<lparr>ap_strategy = StoreBestFit, ap_split_threshold_blocks = 1, ap_coalesce_on_release = True,
     ap_tail_trim_enabled = True, ap_background_compaction_enabled = False, ap_fragmentation_threshold_percent = 25\<rparr>"

record freed_extent =
  fx_device_block :: u64
  fx_block_count :: u64

record dedup_entry =
  dd_physical_block :: u64
  dd_length_blocks :: u32
  dd_physical_len :: u32
  dd_ref_count :: u32

record block_store =
  st_block_size :: u64
  st_next_device_block :: u64
  st_policy :: allocator_policy
  st_free_extents :: "free_extent_record list"
  st_records :: "(inode_id, block_record) omap"
  st_dedup_table :: "(u32, dedup_entry) omap"
  st_pending_trims :: "freed_extent list"
  st_compat_device :: memory_device

text \<open>
  The sector size of the internal device: 1 doubled until it reaches \<open>n\<close>.  The shift drops the top bit, so
  beyond 2 GiB the loop of the code never ends.
\<close>

partial_function (option) sector_loop :: "u64 \<Rightarrow> u32 \<Rightarrow> u32 option" where
  "sector_loop n s = (if ucast s < n then sector_loop n (push_bit 1 s) else Some s)"

definition expect_ok :: "'a result \<Rightarrow> 'a result" where
  "expect_ok r = (case r of Ok x \<Rightarrow> Ok x | Err e \<Rightarrow> Panic | Panic \<Rightarrow> Panic)"

text \<open>\<open>None\<close>: the constructor does not return.\<close>

definition with_block_size_and_policy :: "u64 \<Rightarrow> allocator_policy \<Rightarrow> block_store result option" where
  "with_block_size_and_policy block_size policy =
    (case sector_loop (max block_size 4) 1 of
       None \<Rightarrow> None
     | Some sector_size \<Rightarrow>
         let cap = max ((COMPAT_DEVICE_BYTES div ucast sector_size) * ucast sector_size) (ucast sector_size) in
         Some (rbind (expect_ok (mem_new cap sector_size)) (\<lambda>compat_device.
           Ok \<lparr>st_block_size = max block_size 1, st_next_device_block = 0, st_policy = policy, st_free_extents = [],
               st_records = [], st_dedup_table = [], st_pending_trims = [], st_compat_device = compat_device\<rparr>)))"

section \<open>The list of free extents\<close>

definition fe_end :: "free_extent_record \<Rightarrow> u64" where
  "fe_end e = sat_add (fe_device_block e) (fe_allocated_blocks e)"

text \<open>\<open>while let Some(last) = free_extents.last()\<close>: extents that end at the high-water mark are given back to it.\<close>

function trim_tail :: "free_extent_record list \<Rightarrow> u64 \<Rightarrow> free_extent_record list \<times> u64" where
  "trim_tail fs next_device_block =
    (if fs = [] \<or> fe_end (last fs) \<noteq> next_device_block then (fs, next_device_block)
     else trim_tail (butlast fs) (fe_device_block (last fs)))"
  by pat_completeness auto

termination trim_tail
  by (relation "measure (\<lambda>(fs, _). length fs)") auto

declare trim_tail.simps [simp del]

definition trim_free_tail :: "block_store \<Rightarrow> block_store" where
  "trim_free_tail s =
    (let (fs, n) = trim_tail (st_free_extents s) (st_next_device_block s) in
     s\<lparr>st_free_extents := fs, st_next_device_block := n\<rparr>)"

text \<open>One step of the merge: the extent either extends the last merged one or starts a new one.\<close>

definition merge_extent :: "free_extent_record list \<Rightarrow> free_extent_record \<Rightarrow> free_extent_record list" where
  "merge_extent merged e =
    (if merged \<noteq> [] \<and> fe_device_block e \<le> fe_end (last merged)
     then butlast merged @ [(last merged)\<lparr>fe_allocated_blocks := sat_sub (fe_end e) (fe_device_block (last merged))\<rparr>]
     else merged @ [e])"

definition normalize_free_extents :: "block_store \<Rightarrow> block_store" where
  "normalize_free_extents s =
    (let s = s\<lparr>st_free_extents := foldl merge_extent [] (sort_key fe_device_block (st_free_extents s))\<rparr> in
     if ap_tail_trim_enabled (st_policy s) then trim_free_tail s else s)"

text \<open>The tail of \<open>insert_free_extent\<close>, \<open>adopt_free_extents\<close> and \<open>set_allocator_policy\<close>.\<close>

definition settle_free_extents :: "block_store \<Rightarrow> block_store" where
  "settle_free_extents s =
    (if ap_coalesce_on_release (st_policy s) then normalize_free_extents s
     else
       let s = s\<lparr>st_free_extents := sort_key fe_device_block (st_free_extents s)\<rparr> in
       if ap_tail_trim_enabled (st_policy s) then trim_free_tail s else s)"

definition insert_free_extent :: "free_extent_record \<Rightarrow> block_store \<Rightarrow> block_store" where
  "insert_free_extent e s =
    (if fe_allocated_blocks e = 0 then s
     else settle_free_extents (s\<lparr>st_free_extents := st_free_extents s @ [e]\<rparr>))"

text \<open>\<open>min_by_key\<close> keeps the first of several smallest extents; \<open>i\<close> is the index of the head.\<close>

fun best_index :: "u64 \<Rightarrow> nat \<Rightarrow> free_extent_record list \<Rightarrow> (nat \<times> u64) option \<Rightarrow> (nat \<times> u64) option" where
  "best_index req i [] best = best"
| "best_index req i (e # es) best =
     best_index req (Suc i) es
      (if fe_allocated_blocks e \<ge> req
       then (case best of None \<Rightarrow> Some (i, fe_allocated_blocks e)
             | Some (j, n) \<Rightarrow> if fe_allocated_blocks e < n then Some (i, fe_allocated_blocks e) else best)
       else best)"

fun first_index :: "u64 \<Rightarrow> nat \<Rightarrow> free_extent_record list \<Rightarrow> nat option" where
  "first_index req i [] = None"
| "first_index req i (e # es) = (if fe_allocated_blocks e \<ge> req then Some i else first_index req (Suc i) es)"

definition remove_at :: "nat \<Rightarrow> 'a list \<Rightarrow> 'a list" where
  "remove_at i xs = take i xs @ drop (Suc i) xs"

definition allocate_extent :: "u64 \<Rightarrow> block_store \<Rightarrow> (u64 \<times> u64) \<times> block_store" where
  "allocate_extent required_blocks s =
    (let index = (case ap_strategy (st_policy s) of
           StoreBestFit \<Rightarrow> map_option fst (best_index required_blocks 0 (st_free_extents s) None)
         | StoreFirstFit \<Rightarrow> first_index required_blocks 0 (st_free_extents s)) in
     case index of
       Some i \<Rightarrow>
         let e = st_free_extents s ! i;
             s = s\<lparr>st_free_extents := remove_at i (st_free_extents s)\<rparr>;
             remainder = sat_sub (fe_allocated_blocks e) required_blocks in
         if remainder \<ge> max (ap_split_threshold_blocks (st_policy s)) 1
         then ((fe_device_block e, required_blocks),
               insert_free_extent \<lparr>fe_device_block = sat_add (fe_device_block e) required_blocks,
                                   fe_allocated_blocks = remainder\<rparr> s)
         else ((fe_device_block e, fe_allocated_blocks e), s)
     | None \<Rightarrow>
         ((st_next_device_block s, required_blocks),
          s\<lparr>st_next_device_block := sat_add (st_next_device_block s) required_blocks\<rparr>))"

section \<open>The table of checksums\<close>

definition dedup_insert :: "u32 \<Rightarrow> u64 \<Rightarrow> u32 \<Rightarrow> u32 \<Rightarrow> (block_store, unit) cmd" where
  "dedup_insert crc physical_block length_blocks physical_len s =
    (case om_get (st_dedup_table s) crc of
       Some entry \<Rightarrow>
         cbind (clift (uadd (dd_ref_count entry) 1)) (\<lambda>n.
           cmod (\<lambda>s. s\<lparr>st_dedup_table := om_insert crc (entry\<lparr>dd_ref_count := n\<rparr>) (st_dedup_table s)\<rparr>)) s
     | None \<Rightarrow>
         (Ok (), s\<lparr>st_dedup_table := om_insert crc
            \<lparr>dd_physical_block = physical_block, dd_length_blocks = length_blocks,
             dd_physical_len = physical_len, dd_ref_count = 1\<rparr> (st_dedup_table s)\<rparr>))"

definition dedup_release :: "u32 \<Rightarrow> block_store \<Rightarrow> block_store" where
  "dedup_release crc s =
    (case om_get (st_dedup_table s) crc of
       Some entry \<Rightarrow>
         let n = sat_sub (dd_ref_count entry) 1 in
         if n = 0 then s\<lparr>st_dedup_table := om_remove crc (st_dedup_table s)\<rparr>
         else s\<lparr>st_dedup_table := om_insert crc (entry\<lparr>dd_ref_count := n\<rparr>) (st_dedup_table s)\<rparr>
     | None \<Rightarrow> s)"

section \<open>Blocks given back\<close>

text \<open>A range goes to the pending discards and to the free list.\<close>

definition release_span :: "u64 \<Rightarrow> u64 \<Rightarrow> block_store \<Rightarrow> block_store" where
  "release_span device_block n s =
     insert_free_extent \<lparr>fe_device_block = device_block, fe_allocated_blocks = n\<rparr>
      (s\<lparr>st_pending_trims := st_pending_trims s @ [\<lparr>fx_device_block = device_block, fx_block_count = n\<rparr>]\<rparr>)"

text \<open>What every replacement or removal of a record does with the blocks of the old one.\<close>

definition release_record :: "block_record \<Rightarrow> (block_store, unit) cmd" where
  "release_record r =
     cbind (clift (total_blocks r)) (\<lambda>n.
       cmod (\<lambda>s. release_span (first_physical_block r) n (dedup_release (br_content_crc r) s)))"

section \<open>The internal device\<close>

abbreviation compat_capacity :: "block_store \<Rightarrow> u64" where
  "compat_capacity s \<equiv> dev_capacity mem_ops (st_compat_device s)"

abbreviation on_compat :: "(memory_device, 'a) cmd \<Rightarrow> (block_store, 'a) cmd" where
  "on_compat \<equiv> czoom st_compat_device (\<lambda>d s. s\<lparr>st_compat_device := d\<rparr>)"

definition udiv_ceil :: "u64 \<Rightarrow> u64 \<Rightarrow> u64 result" where
  "udiv_ceil a b = (if b = 0 then Panic else Ok (div_ceil a b))"

text \<open>The device doubles, or grows to \<open>end'\<close>, whichever is more; a failure to grow is ignored.\<close>

definition grow_compat :: "u64 \<Rightarrow> (block_store, unit) cmd" where
  "grow_compat end' s =
    (if end' > compat_capacity s then
       let target = max (sat_mul (compat_capacity s) 2) end';
           ss = ucast (dev_sector_size mem_ops (st_compat_device s)) in
       cbind (clift (rbind (udiv_ceil target ss) (\<lambda>k. umul k ss))) (\<lambda>aligned.
         cignore (on_compat (mem_resize aligned))) s
     else (Ok (), s))"

definition pad_to :: "u64 \<Rightarrow> bytes \<Rightarrow> bytes" where
  "pad_to n bs = take (unat n) bs @ zeros (unat n - length bs)"

text \<open>The bytes of an extent, padded to its blocks, if they fit after growing; a failing write is ignored.\<close>

definition store_compat :: "u64 \<Rightarrow> u64 \<Rightarrow> bytes \<Rightarrow> (block_store, unit) cmd" where
  "store_compat phys_block allocated_blocks bs s =
     cbind (clift (umul phys_block (st_block_size s))) (\<lambda>byte_offset.
     cbind (clift (umul allocated_blocks (st_block_size s))) (\<lambda>padded_len.
     let end_offset = sat_add byte_offset padded_len in
     cthen (grow_compat end_offset)
       (\<lambda>s. if end_offset \<le> compat_capacity s
            then cignore (on_compat (mem_write_at byte_offset (pad_to padded_len bs))) s
            else (Ok (), s)))) s"

definition read_extent_compat :: "extent_ref \<Rightarrow> block_store \<Rightarrow> bytes result" where
  "read_extent_compat e s =
     rbind (umul (er_physical_block e) (st_block_size s)) (\<lambda>byte_offset.
     rbind (umul (ucast (er_length_blocks e)) (st_block_size s)) (\<lambda>read_len.
     rbind (uadd byte_offset read_len) (\<lambda>e_end.
     if e_end \<le> compat_capacity s then
       (case mem_read_at (st_compat_device s) byte_offset read_len of
          Ok buf \<Rightarrow> Ok (take (unat (er_logical_len e)) buf)
        | Err _ \<Rightarrow> Ok []
        | Panic \<Rightarrow> Panic)
     else Ok [])))"

definition read_bytes_internal :: "block_record \<Rightarrow> block_store \<Rightarrow> bytes result" where
  "read_bytes_internal r s =
    (if br_extents r = [] \<or> br_logical_size r = 0 then Ok []
     else
       rbind (rfor (\<lambda>e out. rbind (read_extent_compat e s) (\<lambda>b. Ok (out @ b))) (br_extents r) []) (\<lambda>out.
         Ok (take (unat (br_logical_size r)) out)))"

section \<open>Writing and reading through the internal device\<close>

definition callocate :: "u64 \<Rightarrow> (block_store, u64 \<times> u64) cmd" where
  "callocate n s = (case allocate_extent n s of (x, t) \<Rightarrow> (Ok x, t))"

abbreviation put_record :: "inode_id \<Rightarrow> block_record \<Rightarrow> (block_store, unit) cmd" where
  "put_record inode r \<equiv> cmod (\<lambda>s. s\<lparr>st_records := om_insert inode r (st_records s)\<rparr>)"

abbreviation drop_record :: "inode_id \<Rightarrow> (block_store, unit) cmd" where
  "drop_record inode \<equiv> cmod (\<lambda>s. s\<lparr>st_records := om_remove inode (st_records s)\<rparr>)"

definition content_crc :: "bytes \<Rightarrow> u32" where
  "content_crc bs = (if bs = [] then 0 else crc_hash bs)"

text \<open>The record of a file in one extent.\<close>

definition whole_record :: "inode_id \<Rightarrow> u64 \<Rightarrow> u64 \<Rightarrow> u64 \<Rightarrow> u32 \<Rightarrow> block_record" where
  "whole_record inode phys_block allocated_blocks len crc =
    \<lparr>br_inode = inode, br_logical_size = len,
     br_extents = (if len = 0 then [] else
       [\<lparr>er_logical_block = 0, er_logical_len = ucast len, er_physical_block = phys_block,
         er_length_blocks = ucast allocated_blocks, er_physical_len = ucast len, er_content_crc = crc, er_flags = 0\<rparr>]),
     br_content_crc = crc, br_flags = 0\<rparr>"

definition needed_blocks :: "u64 \<Rightarrow> u64 \<Rightarrow> u64 result" where
  "needed_blocks len bs = (if len = 0 then Ok 1 else udiv_ceil len bs)"

text \<open>The blocks of a full write: those of the old record when it has enough, else new ones.\<close>

definition place_write :: "inode_id \<Rightarrow> u64 \<Rightarrow> (block_store, u64 \<times> u64) cmd" where
  "place_write inode needed s =
    (case om_get (st_records s) inode of
       Some r \<Rightarrow>
         cbind (clift (total_blocks r)) (\<lambda>n.
         if n \<ge> needed then
           cthen (cmod (\<lambda>s.
             let s = dedup_release (br_content_crc r) s in
             if n > needed then release_span (sat_add (first_physical_block r) needed) (n - needed) s else s))
            (cret (first_physical_block r, needed))
         else cthen (release_record r) (callocate (max needed 1))) s
     | None \<Rightarrow> callocate (max needed 1) s)"

definition st_write :: "inode_id \<Rightarrow> bytes \<Rightarrow> (block_store, u64) cmd" where
  "st_write inode bs s =
    (let len = of_nat (length bs); crc = content_crc bs in
     cbind (clift (needed_blocks len (st_block_size s))) (\<lambda>needed.
     cbind (place_write inode needed) (\<lambda>(phys_block, allocated_blocks).
     cthen (drop_record inode)
    (cthen (store_compat phys_block allocated_blocks bs)
    (cthen (dedup_insert crc phys_block (ucast allocated_blocks) (ucast len))
    (cthen (put_record inode (whole_record inode phys_block allocated_blocks len crc))
       (cret len)))))) s)"

definition st_read :: "inode_id \<Rightarrow> block_store \<Rightarrow> old_block_record option result" where
  "st_read inode s =
    (case om_get (st_records s) inode of
       None \<Rightarrow> Ok None
     | Some r \<Rightarrow> rbind (read_bytes_internal r s) (\<lambda>b. map_result Some (from_record_and_bytes r b)))"

text \<open>The part of one extent a range covers; an unreadable extent contributes nothing.\<close>

definition read_part :: "extent_ref \<Rightarrow> u64 \<Rightarrow> u64 \<Rightarrow> block_store \<Rightarrow> bytes result" where
  "read_part e in_ext_start in_ext_end s =
     rbind (umul (er_physical_block e) (st_block_size s)) (\<lambda>base.
     rbind (uadd base in_ext_start) (\<lambda>byte_offset.
     rbind (usub in_ext_end in_ext_start) (\<lambda>read_len.
     let sector = ucast (dev_sector_size mem_ops (st_compat_device s));
         aligned_start = align_down_u64 byte_offset sector in
     rbind (align_up_u64 (sat_add byte_offset read_len) sector) (\<lambda>aligned_end.
     if aligned_end \<le> compat_capacity s then
       rbind (usub aligned_end aligned_start) (\<lambda>n.
       (case mem_read_at (st_compat_device s) aligned_start n of
          Ok buf \<Rightarrow> rbind (usub byte_offset aligned_start) (\<lambda>start. cut_res (unat start) (unat read_len) buf)
        | Err _ \<Rightarrow> Ok []
        | Panic \<Rightarrow> Panic))
     else Ok []))))"

fun read_range_loop :: "extent_ref list \<Rightarrow> u64 \<Rightarrow> u64 \<Rightarrow> u64 \<Rightarrow> bytes \<Rightarrow> block_store \<Rightarrow> bytes result" where
  "read_range_loop [] offset requested_end cursor out s = Ok out"
| "read_range_loop (e # es) offset requested_end cursor out s =
    (let ext_end = sat_add cursor (ucast (er_logical_len e)) in
     if requested_end \<le> cursor then Ok out
     else if offset \<ge> ext_end then read_range_loop es offset requested_end ext_end out s
     else
       let in_ext_start = sat_sub offset cursor; in_ext_end = sat_sub (min requested_end ext_end) cursor in
       if in_ext_end \<le> in_ext_start then read_range_loop es offset requested_end ext_end out s
       else rbind (read_part e in_ext_start in_ext_end s) (\<lambda>b.
            read_range_loop es offset requested_end ext_end (out @ b) s))"

definition read_range :: "inode_id \<Rightarrow> u64 \<Rightarrow> u64 \<Rightarrow> block_store \<Rightarrow> bytes option result" where
  "read_range inode offset n s =
    (case om_get (st_records s) inode of
       None \<Rightarrow> Ok None
     | Some r \<Rightarrow>
         if n = 0 \<or> offset \<ge> br_logical_size r then Ok (Some [])
         else map_result Some
           (read_range_loop (br_extents r) offset (min (sat_add offset n) (br_logical_size r)) 0 [] s))"

definition plain_record :: "block_record \<Rightarrow> bool" where
  "plain_record r \<longleftrightarrow> br_flags r = 0 \<and> list_all (\<lambda>e. er_flags e = 0) (br_extents r)"

definition record_size :: "inode_id \<Rightarrow> block_store \<Rightarrow> u64" where
  "record_size inode s = (case om_get (st_records s) inode of None \<Rightarrow> 0 | Some r \<Rightarrow> br_logical_size r)"

definition logical_blocks :: "block_record \<Rightarrow> u32 result" where
  "logical_blocks r = rfor (\<lambda>e n. uadd n (er_length_blocks e)) (br_extents r) 0"

definition appended_record :: "block_record \<Rightarrow> u32 \<Rightarrow> u64 \<Rightarrow> u64 \<Rightarrow> bytes \<Rightarrow> block_record" where
  "appended_record r logical_block phys_block allocated_blocks extra =
     r\<lparr>br_extents := br_extents r @
         [\<lparr>er_logical_block = logical_block, er_logical_len = of_nat (length extra), er_physical_block = phys_block,
           er_length_blocks = ucast allocated_blocks, er_physical_len = of_nat (length extra),
           er_content_crc = crc_hash extra, er_flags = 0\<rparr>],
       br_logical_size := sat_add (br_logical_size r) (of_nat (length extra)),
       br_content_crc := NOT (crc_update (NOT (br_content_crc r)) extra)\<rparr>"

definition append_to_inode :: "inode_id \<Rightarrow> bytes \<Rightarrow> (block_store, u64) cmd" where
  "append_to_inode inode extra s =
    (if extra = [] then (Ok (record_size inode s), s)
     else
       case om_get (st_records s) inode of
         None \<Rightarrow> st_write inode extra s
       | Some r \<Rightarrow>
           if br_extents r = [] \<or> br_logical_size r = 0 then st_write inode extra s
           else if \<not> plain_record r then
             cbind (cread (read_bytes_internal r)) (\<lambda>b. st_write inode (b @ extra)) s
           else
             cbind (clift (udiv_ceil (of_nat (length extra)) (st_block_size s))) (\<lambda>needed.
             cbind (callocate needed) (\<lambda>(new_phys, new_alloc).
             cthen (store_compat new_phys new_alloc extra)
            (cbind (clift (logical_blocks r)) (\<lambda>logical_block.
             cthen (cmod (dedup_release (br_content_crc r)))
            (let rec' = appended_record r logical_block new_phys new_alloc extra in
             cthen (put_record inode rec') (cret (br_logical_size rec'))))))) s)"

definition st_remove :: "inode_id \<Rightarrow> (block_store, old_block_record option) cmd" where
  "st_remove inode s =
    (case om_get (st_records s) inode of
       None \<Rightarrow> (Ok None, s)
     | Some r \<Rightarrow>
         cbind (cread (read_bytes_internal r)) (\<lambda>b.
         cthen (drop_record inode)
        (cthen (release_record r)
        (cbind (clift (from_record_and_bytes r b)) (\<lambda>x. cret (Some x))))) s)"

definition verify :: "inode_id \<Rightarrow> block_store \<Rightarrow> bool result" where
  "verify inode s =
    (case om_get (st_records s) inode of
       None \<Rightarrow> Ok False
     | Some r \<Rightarrow> rbind (read_bytes_internal r s) (\<lambda>b. Ok (content_crc b = br_content_crc r)))"

end
