(* ===== verification/Block_Store_Space.thy ===== *)
theory Block_Store_Space
  imports Block_Store
begin

text \<open>
  The free list of the block store and its high-water mark, against the set of blocks they make
  available.
\<close>

section \<open>Lists of extents\<close>

definition span :: "u64 \<Rightarrow> u64 \<Rightarrow> nat set" where
  "span a n = {unat a..<unat a + unat n}"

definition fe_span :: "free_extent_record \<Rightarrow> nat set" where
  "fe_span e = span (fe_device_block e) (fe_allocated_blocks e)"

definition fe_cover :: "free_extent_record list \<Rightarrow> nat set" where
  "fe_cover fs = (\<Union>e \<in> set fs. fe_span e)"

definition fe_before :: "free_extent_record \<Rightarrow> free_extent_record \<Rightarrow> bool" where
  "fe_before a b \<longleftrightarrow> unat (fe_device_block a) + unat (fe_allocated_blocks a) \<le> unat (fe_device_block b)"

text \<open>Every extent is non-empty and ends at \<open>n\<close> at the latest.\<close>

definition fe_within :: "nat \<Rightarrow> free_extent_record list \<Rightarrow> bool" where
  "fe_within n fs \<longleftrightarrow> (\<forall>e \<in> set fs. 0 < unat (fe_allocated_blocks e) \<and> unat (fe_device_block e) + unat (fe_allocated_blocks e) \<le> n)"

lemma span_simps [simp]: "x \<in> span a n \<longleftrightarrow> unat a \<le> x \<and> x < unat a + unat n"
  by (simp add: span_def)

lemma fe_cover_simps [simp]:
  "fe_cover [] = {}" "fe_cover (e # fs) = fe_span e \<union> fe_cover fs" "fe_cover (fs @ gs) = fe_cover fs \<union> fe_cover gs"
  by (auto simp: fe_cover_def)

lemma fe_within_simps [simp]:
  "fe_within n []" "fe_within n (fs @ gs) \<longleftrightarrow> fe_within n fs \<and> fe_within n gs"
  "fe_within n (e # fs) \<longleftrightarrow> 0 < unat (fe_allocated_blocks e) \<and> unat (fe_device_block e) + unat (fe_allocated_blocks e) \<le> n \<and> fe_within n fs"
  by (auto simp: fe_within_def)

lemma fe_end_nat: "unat (fe_device_block e) + unat (fe_allocated_blocks e) < 2 ^ 64 \<Longrightarrow>
   unat (fe_end e) = unat (fe_device_block e) + unat (fe_allocated_blocks e)"
  by (simp add: fe_end_def sat_add_def unat_add_ok)

text \<open>Two non-empty extents without a common block: one is before the other.\<close>

lemma disjoint_before:
  assumes "0 < unat (fe_allocated_blocks a)" "0 < unat (fe_allocated_blocks b)" "fe_span a \<inter> fe_span b = {}"
  shows "fe_before a b \<or> fe_before b a"
proof (rule ccontr)
  assume "\<not> ?thesis"
  then have "max (unat (fe_device_block a)) (unat (fe_device_block b)) \<in> fe_span a \<inter> fe_span b"
    using assms(1,2) by (auto simp: fe_before_def fe_span_def max_def)
  then show False
    using assms(3) by blast
qed

lemma before_disjoint: "fe_before a b \<Longrightarrow> fe_span a \<inter> fe_span b = {}"
  by (auto simp: fe_before_def fe_span_def)

lemma insort_before:
  assumes "sorted_wrt fe_before ys" "\<forall>y \<in> set ys. fe_span x \<inter> fe_span y = {}" "fe_within n (x # ys)"
  shows "sorted_wrt fe_before (insort_key fe_device_block x ys)"
  using assms
proof (induction ys)
  case (Cons y ys)
  have xy: "fe_before x y \<or> fe_before y x"
    using Cons.prems by (intro disjoint_before) auto
  show ?case
  proof (cases "fe_device_block x \<le> fe_device_block y")
    case True
    then have "fe_before x y"
      using xy Cons.prems(3) by (auto simp: fe_before_def word_le_nat_alt)
    moreover have "fe_before x z" if "z \<in> set ys" for z
      using Cons.prems(1) that \<open>fe_before x y\<close> by (auto simp: fe_before_def)
    ultimately show ?thesis
      using True Cons.prems(1) by auto
  next
    case False
    then have "fe_before y x"
      using xy by (auto simp: fe_before_def word_le_nat_alt)
    then show ?thesis
      using False Cons by (auto simp: set_insort_key)
  qed
qed simp

lemma sort_before:
  assumes "fe_within n fs" "sorted_wrt (\<lambda>a b. fe_span a \<inter> fe_span b = {}) fs"
  shows "sorted_wrt fe_before (sort_key fe_device_block fs)"
  using assms
proof (induction fs)
  case (Cons e fs)
  have "fe_within n (e # sort_key fe_device_block fs)"
    using Cons.prems(1) by (simp add: fe_within_def)
  then show ?case
    using Cons insort_before [of "sort_key fe_device_block fs" e n] by simp
qed simp

section \<open>Merging neighbours\<close>

lemma merge_extent_ok:
  assumes "sorted_wrt fe_before (acc @ [e])" "fe_within n (acc @ [e])" "n < 2 ^ 64"
  shows "fe_cover (merge_extent acc e) = fe_cover acc \<union> fe_span e \<and> fe_within n (merge_extent acc e)
    \<and> (sorted_wrt fe_before (acc @ e # es) \<longrightarrow> sorted_wrt fe_before (merge_extent acc e @ es))"
proof (cases "acc \<noteq> [] \<and> fe_device_block e \<le> fe_end (last acc)")
  case True
  then obtain xs l where acc: "acc = xs @ [l]"
    by (metis append_butlast_last_id)
  have le: "fe_before l e" and en: "unat (fe_end l) = unat (fe_device_block l) + unat (fe_allocated_blocks l)"
    "unat (fe_end e) = unat (fe_device_block e) + unat (fe_allocated_blocks e)"
    using assms acc by (auto simp: sorted_wrt_append intro!: fe_end_nat)
  have touch: "unat (fe_device_block e) = unat (fe_device_block l) + unat (fe_allocated_blocks l)"
    using True le en(1) by (auto simp: acc fe_before_def word_le_nat_alt)
  let ?m = "l\<lparr>fe_allocated_blocks := sat_sub (fe_end e) (fe_device_block l)\<rparr>"
  have m: "unat (fe_allocated_blocks ?m) = unat (fe_allocated_blocks l) + unat (fe_allocated_blocks e)"
    using touch en(2) by (auto simp: sat_sub_def word_le_nat_alt unat_sub_ok)
  have merged: "merge_extent acc e = xs @ [?m]"
    using True by (simp add: merge_extent_def acc)
  have "fe_span ?m = fe_span l \<union> fe_span e"
    using m touch by (auto simp: fe_span_def)
  moreover have "sorted_wrt fe_before (xs @ ?m # es)" if "sorted_wrt fe_before (acc @ e # es)"
    using that m touch by (auto simp: acc sorted_wrt_append fe_before_def)
  ultimately show "fe_cover (merge_extent acc e) = fe_cover acc \<union> fe_span e \<and> fe_within n (merge_extent acc e)
    \<and> (sorted_wrt fe_before (acc @ e # es) \<longrightarrow> sorted_wrt fe_before (merge_extent acc e @ es))"
    unfolding merged using assms(2) m touch acc by auto
next
  case False
  then have "merge_extent acc e = acc @ [e]"
    by (auto simp: merge_extent_def)
  then show "fe_cover (merge_extent acc e) = fe_cover acc \<union> fe_span e \<and> fe_within n (merge_extent acc e)
    \<and> (sorted_wrt fe_before (acc @ e # es) \<longrightarrow> sorted_wrt fe_before (merge_extent acc e @ es))"
    using assms(2) by simp
qed

lemma merge_all_ok:
  assumes "sorted_wrt fe_before (acc @ es)" "fe_within n (acc @ es)" "n < 2 ^ 64"
  shows "fe_cover (foldl merge_extent acc es) = fe_cover acc \<union> fe_cover es \<and> fe_within n (foldl merge_extent acc es)
    \<and> sorted_wrt fe_before (foldl merge_extent acc es)"
  using assms
proof (induction es arbitrary: acc)
  case (Cons e es)
  have "sorted_wrt fe_before (acc @ [e])" "fe_within n (acc @ [e])"
    using Cons.prems by (auto simp: sorted_wrt_append)
  note m = merge_extent_ok [OF this Cons.prems(3), of es]
  show ?case
    using Cons.IH [of "merge_extent acc e"] m Cons.prems by auto
qed simp

lemma trim_tail_ok:
  assumes "sorted_wrt fe_before fs" "fe_within (unat n) fs" "trim_tail fs n = (fs', n')"
  shows "sorted_wrt fe_before fs' \<and> fe_within (unat n') fs' \<and> unat n' \<le> unat n
    \<and> fe_cover fs' \<union> {unat n'..} = fe_cover fs \<union> {unat n..}"
  using assms
proof (induction fs n arbitrary: fs' n' rule: trim_tail.induct)
  case (1 fs n)
  show ?case
  proof (cases "fs = [] \<or> fe_end (last fs) \<noteq> n")
    case True
    then show ?thesis
      using 1 trim_tail.simps [of fs n] by auto
  next
    case False
    then obtain xs l where fs: "fs = xs @ [l]"
      by (metis append_butlast_last_id)
    have "unat (fe_device_block l) + unat (fe_allocated_blocks l) < 2 ^ 64"
      using 1(3) fs unat_u64_lt [of n] by simp
    then have n: "unat n = unat (fe_device_block l) + unat (fe_allocated_blocks l)"
      using False fs fe_end_nat [of l] by auto
    have xs: "sorted_wrt fe_before xs" "fe_within (unat (fe_device_block l)) xs"
    proof -
      have "\<forall>x \<in> set xs. fe_before x l" "fe_within (unat n) xs"
        using 1(2,3) fs by (simp_all add: sorted_wrt_append)
      then show "fe_within (unat (fe_device_block l)) xs"
        by (auto simp: fe_within_def fe_before_def)
    qed (use 1(2) fs in \<open>simp add: sorted_wrt_append\<close>)
    have "trim_tail xs (fe_device_block l) = (fs', n')"
      using 1(4) False fs trim_tail.simps [of fs n] by auto
    then have "sorted_wrt fe_before fs' \<and> fe_within (unat n') fs' \<and> unat n' \<le> unat (fe_device_block l)
        \<and> fe_cover fs' \<union> {unat n'..} = fe_cover xs \<union> {unat (fe_device_block l)..}"
      using 1(1) [of fs' n'] False fs xs by auto
    moreover have "fe_cover fs \<union> {unat n..} = fe_cover xs \<union> {unat (fe_device_block l)..}"
      unfolding fs fe_cover_simps fe_span_def span_def n by auto
    ultimately show ?thesis
      using n by (metis le_add1 order_trans)
  qed
qed

section \<open>The pool of available blocks\<close>

definition available :: "block_store \<Rightarrow> nat set" where
  "available s = fe_cover (st_free_extents s) \<union> {unat (st_next_device_block s)..}"

definition wf_space :: "block_store \<Rightarrow> bool" where
  "wf_space s \<longleftrightarrow> sorted_wrt fe_before (st_free_extents s) \<and> fe_within (unat (st_next_device_block s)) (st_free_extents s)"

text \<open>Two stores that differ at most in their free list and high-water mark.\<close>

definition same_files :: "block_store \<Rightarrow> block_store \<Rightarrow> bool" where
  "same_files s t \<longleftrightarrow> st_block_size t = st_block_size s \<and> st_policy t = st_policy s \<and> st_records t = st_records s
     \<and> st_dedup_table t = st_dedup_table s \<and> st_compat_device t = st_compat_device s"

lemma same_files_refl [simp]: "same_files s s"
  by (simp add: same_files_def)

lemma same_files_trans: "same_files s t \<Longrightarrow> same_files t u \<Longrightarrow> same_files s u"
  by (simp add: same_files_def)

text \<open>The same, with a high-water mark that has not risen.\<close>

definition shrinks :: "block_store \<Rightarrow> block_store \<Rightarrow> bool" where
  "shrinks s t \<longleftrightarrow> same_files s t \<and> unat (st_next_device_block t) \<le> unat (st_next_device_block s)"

lemma shrinks_trans: "shrinks s t \<Longrightarrow> shrinks t u \<Longrightarrow> shrinks s u"
  using same_files_trans by (auto simp: shrinks_def)

lemma trim_free_tail_ok:
  assumes "wf_space s"
  shows "wf_space (trim_free_tail s)" "available (trim_free_tail s) = available s" "shrinks s (trim_free_tail s)"
  using assms trim_tail_ok [of "st_free_extents s" "st_next_device_block s"]
  by (auto simp: wf_space_def available_def same_files_def shrinks_def trim_free_tail_def Let_def split: prod.splits)

lemma settle_ok:
  assumes "fe_within (unat (st_next_device_block s)) (st_free_extents s)"
    and "sorted_wrt (\<lambda>a b. fe_span a \<inter> fe_span b = {}) (st_free_extents s)"
  shows "wf_space (settle_free_extents s) \<and> available (settle_free_extents s) = available s \<and> shrinks s (settle_free_extents s)"
proof -
  let ?fs = "sort_key fe_device_block (st_free_extents s)"
  have fs: "sorted_wrt fe_before ?fs" "fe_within (unat (st_next_device_block s)) ?fs" "fe_cover ?fs = fe_cover (st_free_extents s)"
    using sort_before [OF assms] assms(1) by (simp_all add: fe_within_def fe_cover_def)
  have sorted: "wf_space (s\<lparr>st_free_extents := ?fs\<rparr>) \<and> available (s\<lparr>st_free_extents := ?fs\<rparr>) = available s
      \<and> shrinks s (s\<lparr>st_free_extents := ?fs\<rparr>)"
    using fs by (simp add: wf_space_def available_def same_files_def shrinks_def)
  have merged: "wf_space (s\<lparr>st_free_extents := foldl merge_extent [] ?fs\<rparr>)
      \<and> available (s\<lparr>st_free_extents := foldl merge_extent [] ?fs\<rparr>) = available s
      \<and> shrinks s (s\<lparr>st_free_extents := foldl merge_extent [] ?fs\<rparr>)"
    using merge_all_ok [of "[]" ?fs "unat (st_next_device_block s)"] fs unat_u64_lt [of "st_next_device_block s"]
    by (simp add: wf_space_def available_def same_files_def shrinks_def)
  have trimmed: "wf_space (trim_free_tail t) \<and> available (trim_free_tail t) = available s \<and> shrinks s (trim_free_tail t)"
    if "wf_space t \<and> available t = available s \<and> shrinks s t" for t
    using that trim_free_tail_ok [of t] shrinks_trans by blast
  show ?thesis
  proof (cases "ap_coalesce_on_release (st_policy s)")
    case True
    then show ?thesis
      using merged trimmed [OF merged] by (simp add: settle_free_extents_def normalize_free_extents_def Let_def)
  next
    case False
    then show ?thesis
      using sorted trimmed [OF sorted] by (simp add: settle_free_extents_def Let_def)
  qed
qed

lemma before_sorted_disjoint: "sorted_wrt fe_before fs \<Longrightarrow> sorted_wrt (\<lambda>a b. fe_span a \<inter> fe_span b = {}) fs"
  by (rule sorted_wrt_mono_rel [OF _ ]) (auto dest: before_disjoint)

lemma insert_free_extent_ok:
  assumes "wf_space s" "fe_span e \<inter> available s = {}"
  shows "wf_space (insert_free_extent e s) \<and> available (insert_free_extent e s) = available s \<union> fe_span e \<and> shrinks s (insert_free_extent e s)"
proof (cases "fe_allocated_blocks e = 0")
  case True
  then show ?thesis
    using assms by (simp add: insert_free_extent_def fe_span_def span_def shrinks_def)
next
  case False
  then have pos: "0 < unat (fe_allocated_blocks e)"
    by (simp add: unat_gt_0)
  let ?n = "unat (st_next_device_block s)"
  have "unat (fe_device_block e) + unat (fe_allocated_blocks e) \<le> ?n"
  proof (rule ccontr)
    assume "\<not> ?thesis"
    then have "unat (fe_device_block e) + unat (fe_allocated_blocks e) - 1 \<in> fe_span e \<inter> available s"
      using pos by (auto simp: fe_span_def available_def)
    then show False
      using assms(2) by blast
  qed
  then have w: "fe_within ?n (st_free_extents s @ [e])"
    using assms(1) pos by (simp add: wf_space_def)
  have d: "sorted_wrt (\<lambda>a b. fe_span a \<inter> fe_span b = {}) (st_free_extents s @ [e])"
    using assms before_sorted_disjoint by (auto simp: wf_space_def sorted_wrt_append available_def fe_cover_def)
  have "available (s\<lparr>st_free_extents := st_free_extents s @ [e]\<rparr>) = available s \<union> fe_span e"
    by (auto simp: available_def)
  then show ?thesis
    using settle_ok [of "s\<lparr>st_free_extents := st_free_extents s @ [e]\<rparr>"] w d False
    by (simp add: insert_free_extent_def same_files_def shrinks_def)
qed

section \<open>Allocation\<close>

lemma best_index_Some:
  "best_index req i fs best = Some (j, n) \<Longrightarrow> best = Some (j, n) \<or>
     (i \<le> j \<and> j < i + length fs \<and> n = fe_allocated_blocks (fs ! (j - i)) \<and> req \<le> n)"
proof (induction req i fs best rule: best_index.induct)
  case (2 req i e es best)
  then show ?case
    by (auto simp: nth_Cons' split: if_splits option.splits prod.splits)
qed simp

lemma first_index_Some:
  "first_index req i fs = Some j \<Longrightarrow> i \<le> j \<and> j < i + length fs \<and> req \<le> fe_allocated_blocks (fs ! (j - i))"
proof (induction req i fs rule: first_index.induct)
  case (2 req i e es)
  then show ?case
    by (auto simp: nth_Cons' split: if_splits)
qed simp

text \<open>The index the policy chooses, if an extent is large enough.\<close>

definition chosen_index :: "u64 \<Rightarrow> block_store \<Rightarrow> nat option" where
  "chosen_index req s =
    (case ap_strategy (st_policy s) of
       StoreBestFit \<Rightarrow> map_option fst (best_index req 0 (st_free_extents s) None)
     | StoreFirstFit \<Rightarrow> first_index req 0 (st_free_extents s))"

lemma chosen_index_Some:
  "chosen_index req s = Some i \<Longrightarrow> i < length (st_free_extents s) \<and> req \<le> fe_allocated_blocks (st_free_extents s ! i)"
  using best_index_Some [of req 0 "st_free_extents s" None] first_index_Some [of req 0 "st_free_extents s" i]
  by (auto simp: chosen_index_def split: store_strategy.splits)

lemma remove_at_ok:
  assumes "i < length fs" "sorted_wrt fe_before fs" "fe_within n fs"
  shows "sorted_wrt fe_before (remove_at i fs) \<and> fe_within n (remove_at i fs) \<and> fe_cover (remove_at i fs) = fe_cover fs - fe_span (fs ! i)"
proof -
  have fs: "fs = take i fs @ fs ! i # drop (Suc i) fs"
    by (rule id_take_nth_drop [OF assms(1)])
  let ?xs = "take i fs" and ?e = "fs ! i" and ?ys = "drop (Suc i) fs"
  have s: "sorted_wrt fe_before (?xs @ ?e # ?ys)" "fe_within n (?xs @ ?e # ?ys)"
    using assms(2,3) fs by simp_all
  have "fe_span ?e \<inter> fe_span x = {}" if "x \<in> set ?xs \<union> set ?ys" for x
    using s(1) that before_disjoint by (auto simp: sorted_wrt_append)
  then have "fe_span ?e \<inter> (fe_cover ?xs \<union> fe_cover ?ys) = {}"
    by (auto simp: fe_cover_def)
  moreover have "fe_cover fs = fe_cover ?xs \<union> fe_span ?e \<union> fe_cover ?ys"
    by (subst fs) (simp only: fe_cover_simps Un_assoc)
  ultimately show ?thesis
    using s by (auto simp: remove_at_def sorted_wrt_append)
qed

lemma take_extent_ok:
  assumes "wf_space s" "chosen_index req s = Some i" "0 < unat req"
    and "e = st_free_extents s ! i" "s1 = s\<lparr>st_free_extents := remove_at i (st_free_extents s)\<rparr>"
  shows "wf_space s1 \<and> same_files s s1 \<and> available s1 = available s - fe_span e \<and> fe_span e \<subseteq> available s
    \<and> unat req \<le> unat (fe_allocated_blocks e) \<and> unat (fe_device_block e) + unat (fe_allocated_blocks e) \<le> unat (st_next_device_block s)"
proof -
  have i: "i < length (st_free_extents s)" "unat req \<le> unat (fe_allocated_blocks e)"
    using chosen_index_Some [OF assms(2)] by (simp_all add: assms(4) word_le_nat_alt)
  have e: "e \<in> set (st_free_extents s)"
    using i(1) by (simp add: assms(4))
  then have lim: "unat (fe_device_block e) + unat (fe_allocated_blocks e) \<le> unat (st_next_device_block s)"
    using assms(1) by (auto simp: wf_space_def fe_within_def)
  have r: "sorted_wrt fe_before (remove_at i (st_free_extents s))" "fe_within (unat (st_next_device_block s)) (remove_at i (st_free_extents s))"
    "fe_cover (remove_at i (st_free_extents s)) = fe_cover (st_free_extents s) - fe_span e"
    using remove_at_ok [OF i(1), of "unat (st_next_device_block s)"] assms(1,4) by (auto simp: wf_space_def)
  have "fe_span e \<subseteq> fe_cover (st_free_extents s)" "fe_span e \<inter> {unat (st_next_device_block s)..} = {}"
    using e lim by (auto simp: fe_cover_def fe_span_def)
  then have "available s1 = available s - fe_span e" "fe_span e \<subseteq> available s"
    using r(3) by (auto simp: assms(5) available_def)
  then show ?thesis
    using r i(2) lim by (simp add: assms(5) wf_space_def same_files_def)
qed

lemma allocate_extent_ok:
  assumes "wf_space s" "0 < unat req" "unat (st_next_device_block s) + unat req < 2 ^ 64"
  shows "\<exists>a n t. allocate_extent req s = ((a, n), t) \<and> wf_space t \<and> same_files s t \<and> unat req \<le> unat n
    \<and> span a n \<subseteq> available s \<and> available t = available s - span a n
    \<and> unat a + unat n \<le> unat (st_next_device_block s) + unat req"
proof (cases "chosen_index req s")
  case None
  let ?t = "s\<lparr>st_next_device_block := sat_add (st_next_device_block s) req\<rparr>"
  have n: "unat (sat_add (st_next_device_block s) req) = unat (st_next_device_block s) + unat req"
    using assms(3) by (simp add: sat_add_def unat_add_ok)
  have run: "allocate_extent req s = ((st_next_device_block s, req), ?t)"
    using None by (simp add: allocate_extent_def chosen_index_def Let_def)
  have "fe_cover (st_free_extents s) \<inter> span (st_next_device_block s) req = {}"
    using assms(1) by (auto simp: wf_space_def fe_within_def fe_cover_def fe_span_def)
  then have "available ?t = available s - span (st_next_device_block s) req"
    using n by (auto simp: available_def)
  moreover have "wf_space ?t"
    using assms(1) n by (auto simp: wf_space_def fe_within_def)
  moreover have "same_files s ?t" "span (st_next_device_block s) req \<subseteq> available s"
    by (auto simp: same_files_def available_def)
  ultimately show ?thesis
    unfolding run by blast
next
  case (Some i)
  define e where "e = st_free_extents s ! i"
  define s1 where "s1 = s\<lparr>st_free_extents := remove_at i (st_free_extents s)\<rparr>"
  note t = take_extent_ok [OF assms(1) Some assms(2) e_def s1_def]
  let ?rem = "sat_sub (fe_allocated_blocks e) req"
  have rem: "unat ?rem = unat (fe_allocated_blocks e) - unat req"
    using t by (simp add: sat_sub_def word_le_nat_alt unat_sub_ok)
  show ?thesis
  proof (cases "?rem \<ge> max (ap_split_threshold_blocks (st_policy s)) 1")
    case True
    let ?r = "\<lparr>fe_device_block = sat_add (fe_device_block e) req, fe_allocated_blocks = ?rem\<rparr>"
    have "unat (fe_device_block e) + unat req < 2 ^ 64"
      using t unat_u64_lt [of "st_next_device_block s"] by simp
    then have start: "unat (sat_add (fe_device_block e) req) = unat (fe_device_block e) + unat req"
      by (simp add: sat_add_def unat_add_ok)
    have split: "fe_span e = span (fe_device_block e) req \<union> fe_span ?r" "span (fe_device_block e) req \<inter> fe_span ?r = {}"
      using t rem start by (auto simp: fe_span_def)
    have run: "allocate_extent req s = ((fe_device_block e, req), insert_free_extent ?r s1)"
      using Some True by (simp add: allocate_extent_def chosen_index_def Let_def e_def s1_def)
    have "wf_space (insert_free_extent ?r s1) \<and> available (insert_free_extent ?r s1) = available s1 \<union> fe_span ?r
        \<and> shrinks s1 (insert_free_extent ?r s1)"
      using insert_free_extent_ok [of s1 ?r] t split by auto
    moreover have "available s1 \<union> fe_span ?r = available s - span (fe_device_block e) req"
      using t split by auto
    ultimately have "wf_space (insert_free_extent ?r s1) \<and> same_files s (insert_free_extent ?r s1)
        \<and> available (insert_free_extent ?r s1) = available s - span (fe_device_block e) req"
      using t same_files_trans unfolding shrinks_def by blast
    moreover have "span (fe_device_block e) req \<subseteq> available s"
      using t split(1) by blast
    moreover have "unat (fe_device_block e) + unat req \<le> unat (st_next_device_block s) + unat req"
      using t by linarith
    ultimately show ?thesis
      unfolding run by blast
  next
    case False
    then have run: "allocate_extent req s = ((fe_device_block e, fe_allocated_blocks e), s1)"
      using Some False by (simp add: allocate_extent_def chosen_index_def Let_def e_def s1_def del: max.bounded_iff)
    then show ?thesis
      using t by (auto simp: fe_span_def)
  qed
qed

section \<open>The pool as an interface\<close>

text \<open>
  A pool hands out ranges of the blocks that are available and takes them back.
\<close>

locale space_pool =
  fixes avail :: "'s \<Rightarrow> nat set" and ok :: "'s \<Rightarrow> bool" and room :: "nat \<Rightarrow> 's \<Rightarrow> bool"
    and take_range :: "u64 \<Rightarrow> 's \<Rightarrow> (u64 \<times> u64) \<times> 's" and give_range :: "u64 \<Rightarrow> u64 \<Rightarrow> 's \<Rightarrow> 's"
  assumes take_law: "ok s \<Longrightarrow> 0 < unat n \<Longrightarrow> room (unat n) s \<Longrightarrow> take_range n s = ((a, k), t) \<Longrightarrow>
      ok t \<and> unat n \<le> unat k \<and> span a k \<subseteq> avail s \<and> avail t = avail s - span a k"
    and give_law: "ok s \<Longrightarrow> span a k \<inter> avail s = {} \<Longrightarrow> ok (give_range a k s) \<and> avail (give_range a k s) = avail s \<union> span a k"
begin

lemma take_give: "ok s \<Longrightarrow> 0 < unat n \<Longrightarrow> room (unat n) s \<Longrightarrow> take_range n s = ((a, k), t) \<Longrightarrow>
   ok (give_range a k t) \<and> avail (give_range a k t) = avail s"
  using take_law [of s n a k t] give_law [of t a k] by auto

lemma takes_disjoint:
  assumes "ok s" "0 < unat n" "room (unat n) s" "take_range n s = ((a, k), t)"
    and "0 < unat m" "room (unat m) t" "take_range m t = ((b, l), u)"
  shows "span a k \<inter> span b l = {}"
  using take_law [OF assms(1-4)] take_law [of t m b l u] assms(5-7) by auto

end

lemma release_span_ok:
  assumes "wf_space s" "span a n \<inter> available s = {}"
  shows "wf_space (release_span a n s) \<and> available (release_span a n s) = available s \<union> span a n \<and> shrinks s (release_span a n s)"
proof -
  let ?s = "s\<lparr>st_pending_trims := st_pending_trims s @ [\<lparr>fx_device_block = a, fx_block_count = n\<rparr>]\<rparr>"
  have "wf_space ?s" "available ?s = available s" "shrinks s ?s"
    using assms(1) by (simp_all add: wf_space_def available_def same_files_def shrinks_def)
  then show ?thesis
    using insert_free_extent_ok [of ?s "\<lparr>fe_device_block = a, fe_allocated_blocks = n\<rparr>"] assms(2) shrinks_trans
    by (auto simp: release_span_def fe_span_def)
qed

interpretation pool: space_pool available wf_space "\<lambda>n s. unat (st_next_device_block s) + n < 2 ^ 64" allocate_extent release_span
proof unfold_locales
  fix s t :: block_store and n a k :: u64
  assume "wf_space s" "0 < unat n" "unat (st_next_device_block s) + unat n < 2 ^ 64" "allocate_extent n s = ((a, k), t)"
  then show "wf_space t \<and> unat n \<le> unat k \<and> span a k \<subseteq> available s \<and> available t = available s - span a k"
    using allocate_extent_ok [of s n] by auto
next
  fix s :: block_store and a k :: u64
  assume "wf_space s" "span a k \<inter> available s = {}"
  then show "wf_space (release_span a k s) \<and> available (release_span a k s) = available s \<union> span a k"
    using release_span_ok by blast
qed

end
