(* ===== verification/Block_Store_Files.thy ===== *)
theory Block_Store_Files
  imports Block_Store_Space
begin

text \<open>
  The contents of the files a block store holds, as a map from inodes to bytes.
\<close>

section \<open>Contents\<close>

definition er_span :: "extent_ref \<Rightarrow> nat set" where
  "er_span e = span (er_physical_block e) (ucast (er_length_blocks e))"

definition rec_span :: "block_record \<Rightarrow> nat set" where
  "rec_span r = (\<Union>e \<in> set (br_extents r). er_span e)"

definition ext_content :: "nat \<Rightarrow> bytes \<Rightarrow> extent_ref \<Rightarrow> bytes" where
  "ext_content B img e = cut (unat (er_physical_block e) * B) (unat (er_logical_len e)) img"

definition rec_bytes :: "nat \<Rightarrow> bytes \<Rightarrow> block_record \<Rightarrow> bytes" where
  "rec_bytes B img r = concat (map (ext_content B img) (br_extents r))"

abbreviation block_bytes_of :: "block_store \<Rightarrow> nat" where
  "block_bytes_of s \<equiv> unat (st_block_size s)"

abbreviation compat_image :: "block_store \<Rightarrow> bytes" where
  "compat_image s \<equiv> md_data (st_compat_device s)"

definition files :: "block_store \<Rightarrow> inode_id \<Rightarrow> bytes option" where
  "files s i = map_option (rec_bytes (block_bytes_of s) (compat_image s)) (om_get (st_records s) i)"

text \<open>An extent holds its bytes inside its blocks, and its blocks inside the device.\<close>

definition wf_extent :: "nat \<Rightarrow> nat \<Rightarrow> extent_ref \<Rightarrow> bool" where
  "wf_extent B n e \<longleftrightarrow> 0 < unat (er_logical_len e) \<and> unat (er_logical_len e) \<le> unat (er_length_blocks e) * B
     \<and> (unat (er_physical_block e) + unat (er_length_blocks e)) * B \<le> n"

definition wf_record :: "nat \<Rightarrow> nat \<Rightarrow> block_record \<Rightarrow> bool" where
  "wf_record B n r \<longleftrightarrow> (\<forall>e \<in> set (br_extents r). wf_extent B n e)
     \<and> sorted_wrt (\<lambda>a b. er_span a \<inter> er_span b = {}) (br_extents r)
     \<and> unat (br_logical_size r) = (\<Sum>e\<leftarrow>br_extents r. unat (er_logical_len e))"

definition wf_device :: "block_store \<Rightarrow> bool" where
  "wf_device s \<longleftrightarrow> mem_ok (st_compat_device s) \<and> 0 < block_bytes_of s
     \<and> unat (dg_sector_size (md_geometry (st_compat_device s))) dvd block_bytes_of s"

definition wf_files :: "block_store \<Rightarrow> bool" where
  "wf_files s \<longleftrightarrow> om_ok (st_records s)
     \<and> (\<forall>i r. om_get (st_records s) i = Some r \<longrightarrow> wf_record (block_bytes_of s) (length (compat_image s)) r
          \<and> rec_span r \<inter> available s = {}
          \<and> (\<forall>j q. om_get (st_records s) j = Some q \<longrightarrow> i \<noteq> j \<longrightarrow> rec_span r \<inter> rec_span q = {}))"

definition wf_store :: "block_store \<Rightarrow> bool" where
  "wf_store s \<longleftrightarrow> wf_space s \<and> wf_device s \<and> wf_files s"

section \<open>Reading\<close>

lemma wf_device_mem:
  assumes "wf_device s"
  shows "mem_ok (st_compat_device s)" "unat (compat_capacity s) = length (compat_image s)" "length (compat_image s) < 2 ^ 64"
    and "unat (dg_sector_size (md_geometry (st_compat_device s))) dvd n * block_bytes_of s"
  using assms unat_u64_lt [of "dg_capacity_bytes (md_geometry (st_compat_device s))"]
  by (auto simp: wf_device_def mem_ok_def dev_capacity_def)

lemma compat_read:
  assumes "wf_device s" "unat a = k * block_bytes_of s" "unat n = l * block_bytes_of s" "unat a + unat n \<le> length (compat_image s)"
  shows "mem_read_at (st_compat_device s) a n = Ok (cut (unat a) (unat n) (compat_image s))"
  using assms wf_device_mem [OF assms(1)] by (subst mem_read_eq) (auto simp: mem_ok_def)

lemma read_extent_ok:
  assumes "wf_device s" "wf_extent (block_bytes_of s) (length (compat_image s)) e"
  shows "read_extent_compat e s = Ok (ext_content (block_bytes_of s) (compat_image s) e)"
proof -
  let ?B = "block_bytes_of s" and ?p = "er_physical_block e" and ?n = "ucast (er_length_blocks e) :: u64"
  have e: "unat (er_logical_len e) \<le> unat (er_length_blocks e) * ?B" "(unat ?p + unat (er_length_blocks e)) * ?B \<le> length (compat_image s)"
    using assms(2) by (simp_all add: wf_extent_def)
  have fit: "unat ?p * ?B + unat ?n * ?B \<le> length (compat_image s)" "unat ?p * ?B + unat ?n * ?B < 2 ^ 64"
    using e(2) wf_device_mem(3) [OF assms(1)] by (simp_all add: unat_ucast_u32 add_mult_distrib)
  have m: "umul ?p (st_block_size s) = Ok (?p * st_block_size s)" "unat (?p * st_block_size s) = unat ?p * ?B"
    "umul ?n (st_block_size s) = Ok (?n * st_block_size s)" "unat (?n * st_block_size s) = unat ?n * ?B"
    using fit(2) by (simp_all add: umul_def unat_mul_ok)
  have a: "uadd (?p * st_block_size s) (?n * st_block_size s) = Ok (?p * st_block_size s + ?n * st_block_size s)"
    "unat (?p * st_block_size s + ?n * st_block_size s) = unat ?p * ?B + unat ?n * ?B"
    using fit(2) m by (simp_all add: uadd_def unat_add_ok)
  have le: "?p * st_block_size s + ?n * st_block_size s \<le> compat_capacity s"
    using a(2) fit(1) wf_device_mem(2) [OF assms(1)] by (simp add: word_le_nat_alt)
  have r: "mem_read_at (st_compat_device s) (?p * st_block_size s) (?n * st_block_size s) = Ok (cut (unat ?p * ?B) (unat ?n * ?B) (compat_image s))"
    using compat_read [OF assms(1) m(2) m(4)] m fit(1) by simp
  have "take (unat (er_logical_len e)) (cut (unat ?p * ?B) (unat ?n * ?B) (compat_image s)) = ext_content ?B (compat_image s) e"
    using e(1) by (simp add: ext_content_def cut_def min_absorb1 unat_ucast_u32)
  then show ?thesis
    unfolding read_extent_compat_def using m a le r by simp
qed

lemma read_record_ok:
  assumes "wf_device s" "wf_record (block_bytes_of s) (length (compat_image s)) r"
  shows "read_bytes_internal r s = Ok (rec_bytes (block_bytes_of s) (compat_image s) r)"
    and "length (rec_bytes (block_bytes_of s) (compat_image s) r) = unat (br_logical_size r)"
proof -
  let ?B = "block_bytes_of s" and ?img = "compat_image s"
  have e: "\<forall>e \<in> set (br_extents r). wf_extent ?B (length ?img) e"
    using assms(2) by (simp add: wf_record_def)
  have len: "length (ext_content ?B ?img e) = unat (er_logical_len e)" if "e \<in> set (br_extents r)" for e
  proof -
    have "unat (er_logical_len e) \<le> unat (er_length_blocks e) * ?B" "unat (er_physical_block e) * ?B + unat (er_length_blocks e) * ?B \<le> length ?img"
      using e that by (simp_all add: wf_extent_def add_mult_distrib)
    then show ?thesis
      by (simp add: ext_content_def)
  qed
  then have "length (rec_bytes ?B ?img r) = (\<Sum>e\<leftarrow>br_extents r. unat (er_logical_len e))"
    by (simp add: rec_bytes_def length_concat comp_def cong: map_cong)
  then show size: "length (rec_bytes ?B ?img r) = unat (br_logical_size r)"
    using assms(2) by (simp add: wf_record_def)
  have "rfor (\<lambda>e out. rbind (read_extent_compat e s) (\<lambda>b. Ok (out @ b))) (br_extents r) []
      = Ok (fold (\<lambda>e out. out @ ext_content ?B ?img e) (br_extents r) [])"
    using read_extent_ok [OF assms(1)] e by (intro rfor_fold) simp
  moreover have "fold (\<lambda>e out. out @ ext_content ?B ?img e) es acc = acc @ concat (map (ext_content ?B ?img) es)" for es acc
    by (induction es arbitrary: acc) simp_all
  ultimately have loop: "rfor (\<lambda>e out. rbind (read_extent_compat e s) (\<lambda>b. Ok (out @ b))) (br_extents r) [] = Ok (rec_bytes ?B ?img r)"
    by (simp add: rec_bytes_def)
  show "read_bytes_internal r s = Ok (rec_bytes ?B ?img r)"
  proof (cases "br_extents r = [] \<or> br_logical_size r = 0")
    case True
    then have "rec_bytes ?B ?img r = []"
      using size by (auto simp: rec_bytes_def)
    then show ?thesis
      using True by (simp add: read_bytes_internal_def)
  next
    case False
    then show ?thesis
      using loop size by (simp add: read_bytes_internal_def)
  qed
qed

section \<open>Writing an extent\<close>

text \<open>The device has only grown: it is longer and what was there before is unchanged.\<close>

definition extends :: "block_store \<Rightarrow> block_store \<Rightarrow> bool" where
  "extends s t \<longleftrightarrow> t = s\<lparr>st_compat_device := st_compat_device t\<rparr> \<and> wf_device t
     \<and> length (compat_image s) \<le> length (compat_image t) \<and> take (length (compat_image s)) (compat_image t) = compat_image s"

lemma div_ceil_mult:
  assumes "0 < unat ss" "unat t + unat ss \<le> 2 ^ 64"
  shows "rbind (udiv_ceil t ss) (\<lambda>k. umul k ss) = Ok (div_ceil t ss * ss)"
    and "unat t \<le> unat (div_ceil t ss * ss)" "unat ss dvd unat (div_ceil t ss * ss)" "unat (div_ceil t ss * ss) < unat t + unat ss"
proof -
  have c: "unat (div_ceil t ss) = (unat t + unat ss - 1) div unat ss"
    by (rule unat_div_ceil [OF assms(1)])
  have up: "unat (div_ceil t ss) * unat ss \<le> unat t + unat ss - 1"
    unfolding c by (metis div_mod_decomp le_add1 mult.commute times_div_less_eq_dividend)
  with assms(1) have lt: "unat (div_ceil t ss) * unat ss < 2 ^ 64"
    using assms by linarith
  moreover have "ss \<noteq> 0"
    using assms(1) by auto
  ultimately show "rbind (udiv_ceil t ss) (\<lambda>k. umul k ss) = Ok (div_ceil t ss * ss)"
    by (simp add: udiv_ceil_def umul_def)
  have m: "unat (div_ceil t ss * ss) = unat (div_ceil t ss) * unat ss"
    using lt by (simp add: unat_mul_ok)
  show "unat ss dvd unat (div_ceil t ss * ss)"
    by (simp add: m)
  show "unat t \<le> unat (div_ceil t ss * ss)"
    unfolding m c using ceil_ge [OF assms(1), of "unat t"] by simp
  show "unat (div_ceil t ss * ss) < unat t + unat ss"
    unfolding m using up assms(1) by linarith
qed

lemma resize_grows:
  assumes "mem_ok d" "length (md_data d) \<le> unat cap" "unat (dg_sector_size (md_geometry d)) dvd unat cap"
  shows "\<exists>d'. mem_resize cap d = (Ok (), d') \<and> mem_ok d' \<and> md_data d' = md_data d @ zeros (unat cap - length (md_data d))
    \<and> dg_sector_size (md_geometry d') = dg_sector_size (md_geometry d)"
proof -
  have z: "(ucast (dg_sector_size (md_geometry d)) :: u64) \<noteq> 0"
    using assms(1) by (metis less_numeral_extra(3) mem_ok_def unat_0 unat_ucast_u32)
  have "urem cap (ucast (dg_sector_size (md_geometry d))) = Ok 0"
    using z assms(3) by (simp add: urem_def word_unat_eq_iff unat_mod unat_ucast_u32 dvd_eq_mod_eq_0)
  then show ?thesis
    using assms by (simp add: mem_resize_def Let_def vec_resize_def mem_ok_def)
qed

lemma grow_compat_ok:
  assumes "wf_device s" "length (compat_image s) < 2 ^ 62" "unat e < 2 ^ 62"
  shows "\<exists>t. grow_compat e s = (Ok (), t) \<and> extends s t \<and> unat e \<le> length (compat_image t)
    \<and> length (compat_image t) \<le> 2 * max (length (compat_image s)) (unat e) + 4096"
proof (cases "e > compat_capacity s")
  case False
  then show ?thesis
    using assms(1) wf_device_mem(2) [OF assms(1)] by (simp add: grow_compat_def extends_def word_less_nat_alt)
next
  case True
  let ?d = "st_compat_device s" and ?ss = "ucast (dev_sector_size mem_ops (st_compat_device s)) :: u64"
  let ?target = "max (sat_mul (compat_capacity s) 2) e"
  note mem = wf_device_mem [OF assms(1)]
  have ss: "unat ?ss = unat (dg_sector_size (md_geometry ?d))" "0 < unat ?ss" "unat ?ss \<le> 4096"
    using mem(1) by (auto simp: dev_sector_size_def unat_ucast_u32 mem_ok_def dvd_imp_le)
  have t: "unat ?target < 2 ^ 63" "length (compat_image s) \<le> unat ?target" "unat e \<le> unat ?target"
    "unat ?target \<le> 2 * max (length (compat_image s)) (unat e)"
    using mem(2) assms(2,3) True by (auto simp: max_def sat_mul_def unat_mul_ok word_le_nat_alt word_less_nat_alt)
  have "unat ?target + unat ?ss \<le> 2 ^ 64"
    using t(1) ss(3) by simp
  note a = div_ceil_mult [OF ss(2) this]
  let ?cap = "div_ceil ?target ?ss * ?ss"
  obtain d' where d': "mem_resize ?cap ?d = (Ok (), d')" "mem_ok d'" "md_data d' = md_data ?d @ zeros (unat ?cap - length (md_data ?d))"
    "dg_sector_size (md_geometry d') = dg_sector_size (md_geometry ?d)"
    using resize_grows [OF mem(1), of ?cap] a(2,3) t(2) ss(1) by auto
  let ?t = "s\<lparr>st_compat_device := d'\<rparr>"
  have "grow_compat e s = (Ok (), ?t)"
    using True a(1) d'(1) by (simp add: grow_compat_def Let_def cbind_run(1) [where m = "clift _"] cignore_def czoom_simp)
  moreover have "extends s ?t" "unat e \<le> length (compat_image ?t)"
    using d' assms(1) a(2) t by (simp_all add: extends_def wf_device_def)
  moreover have "length (compat_image ?t) \<le> 2 * max (length (compat_image s)) (unat e) + 4096"
    using d'(3) a(4) t(2,4) ss(3) by simp
  ultimately show ?thesis
    by blast
qed

lemma extends_cut:
  assumes "extends s t" "off + n \<le> length (compat_image s)"
  shows "cut off n (compat_image t) = cut off n (compat_image s)"
proof -
  have "compat_image s = take (length (compat_image s)) (compat_image t)"
    using assms(1) by (simp add: extends_def)
  then have "cut off n (compat_image s) = cut off n (take (length (compat_image s)) (compat_image t))"
    by simp
  also have "\<dots> = cut off n (compat_image t)"
    using assms(2) by (simp add: cut_def drop_take min_absorb1)
  finally show ?thesis
    by simp
qed

lemma extends_device: "extends s t \<Longrightarrow> t\<lparr>st_compat_device := d\<rparr> = s\<lparr>st_compat_device := d\<rparr>"
proof -
  assume "extends s t"
  then obtain x where "t = s\<lparr>st_compat_device := x\<rparr>"
    unfolding extends_def by blast
  then show ?thesis
    by simp
qed

lemma store_compat_ok:
  fixes a n :: u64
  assumes "wf_device s" "length (compat_image s) < 2 ^ 62" "(unat a + unat n) * block_bytes_of s < 2 ^ 62"
    and "length bs \<le> unat n * block_bytes_of s"
  shows "\<exists>t. store_compat a n bs s = (Ok (), t) \<and> t = s\<lparr>st_compat_device := st_compat_device t\<rparr> \<and> wf_device t
    \<and> length (compat_image s) \<le> length (compat_image t) \<and> (unat a + unat n) * block_bytes_of s \<le> length (compat_image t)
    \<and> cut (unat a * block_bytes_of s) (length bs) (compat_image t) = bs
    \<and> (\<forall>off k. off + k \<le> length (compat_image s) \<longrightarrow> off + k \<le> unat a * block_bytes_of s \<or> (unat a + unat n) * block_bytes_of s \<le> off
         \<longrightarrow> cut off k (compat_image t) = cut off k (compat_image s))
    \<and> length (compat_image t) \<le> 2 * max (length (compat_image s)) ((unat a + unat n) * block_bytes_of s) + 4096"
proof -
  let ?B = "block_bytes_of s"
  have lim: "unat a * ?B + unat n * ?B < 2 ^ 62"
    using assms(3) by (simp add: add_mult_distrib)
  have m: "umul a (st_block_size s) = Ok (a * st_block_size s)" "unat (a * st_block_size s) = unat a * ?B"
    "umul n (st_block_size s) = Ok (n * st_block_size s)" "unat (n * st_block_size s) = unat n * ?B"
    using lim by (simp_all add: umul_def unat_mul_ok)
  let ?off = "a * st_block_size s" and ?len = "n * st_block_size s"
  have e: "unat (sat_add ?off ?len) = unat a * ?B + unat n * ?B"
    using m lim by (simp add: sat_add_def unat_add_ok)
  obtain t where t: "grow_compat (sat_add ?off ?len) s = (Ok (), t)" "extends s t" "unat (sat_add ?off ?len) \<le> length (compat_image t)"
    "length (compat_image t) \<le> 2 * max (length (compat_image s)) (unat (sat_add ?off ?len)) + 4096"
    using grow_compat_ok [OF assms(1,2), of "sat_add ?off ?len"] e lim by auto
  have wt: "wf_device t" "block_bytes_of t = ?B"
    using t(2) by (simp_all add: extends_def) (metis block_store.select_convs(1) block_store.surjective block_store.update_convs(8))
  note mem = wf_device_mem [OF wt(1), unfolded wt(2)]
  let ?bs = "pad_to ?len bs"
  have pad: "length ?bs = unat n * ?B" "take (length bs) ?bs = bs"
    using assms(4) m(4) by (simp_all add: pad_to_def)
  let ?u = "t\<lparr>st_compat_device := (st_compat_device t)\<lparr>md_data := put (unat a * ?B) ?bs (compat_image t)\<rparr>\<rparr>"
  have "mem_write_at ?off ?bs (st_compat_device t) = (Ok (), (st_compat_device t)\<lparr>md_data := put (unat ?off) ?bs (compat_image t)\<rparr>)"
    using mem(1) mem(4) [of "unat a"] mem(4) [of "unat n"] t(3) e pad(1) m(2) by (intro mem_write_eq) (simp_all add: mem_ok_def)
  moreover have "sat_add ?off ?len \<le> compat_capacity t"
    using t(3) mem(2) by (simp add: word_le_nat_alt)
  ultimately have "store_compat a n bs s = (Ok (), ?u)"
    unfolding store_compat_def Let_def using m t(1)
    by (simp add: cbind_run(1) [where m = "clift _"] cthen_run(1) [where m = "grow_compat _"] cignore_def czoom_simp)
  moreover have "wf_device ?u"
    using wt(1) pad(1) t(3) e by (simp add: wf_device_def mem_ok_def)
  moreover have "cut (unat a * ?B) (length bs) (put (unat a * ?B) ?bs (compat_image t)) = bs"
    using pad t(3) e assms(4) by (subst cut_put_inside) (simp_all add: cut_def)
  moreover have "cut off k (put (unat a * ?B) ?bs (compat_image t)) = cut off k (compat_image s)"
    if "off + k \<le> length (compat_image s)" "off + k \<le> unat a * ?B \<or> (unat a + unat n) * ?B \<le> off" for off k
    using that t(3) e pad(1) extends_cut [OF t(2) that(1)] by (auto simp: add_mult_distrib)
  ultimately show ?thesis
    using t(3,4) e pad(1) extends_device [OF t(2)] t(2) [unfolded extends_def]
    by (intro exI [of _ ?u]) (simp add: add_mult_distrib)
qed

end
