(* ===== verification/Block_Store_Write.thy ===== *)
theory Block_Store_Write
  imports Block_Store_Files
begin

text \<open>
  A full write, an append and a removal against the map of file contents.
\<close>

section \<open>What the operations need\<close>

text \<open>Room for \<open>k\<close> more blocks at the end, far from the limits of the integers.\<close>

definition roomy :: "block_store \<Rightarrow> nat \<Rightarrow> bool" where
  "roomy s k \<longleftrightarrow> unat (st_next_device_block s) + k < 2 ^ 32 \<and> (unat (st_next_device_block s) + k) * block_bytes_of s < 2 ^ 62
     \<and> length (compat_image s) < 2 ^ 62"

definition counts_below :: "block_store \<Rightarrow> bool" where
  "counts_below s \<longleftrightarrow> om_ok (st_dedup_table s)
     \<and> (\<forall>crc e. om_get (st_dedup_table s) crc = Some e \<longrightarrow> unat (dd_ref_count e) + 1 < 2 ^ 32)"

text \<open>The blocks of the record are one range.\<close>

definition one_extent :: "block_store \<Rightarrow> inode_id \<Rightarrow> bool" where
  "one_extent s i \<longleftrightarrow> (\<forall>r. om_get (st_records s) i = Some r \<longrightarrow> length (br_extents r) \<le> 1)"

definition old_span :: "block_store \<Rightarrow> inode_id \<Rightarrow> nat set" where
  "old_span s i = (case om_get (st_records s) i of None \<Rightarrow> {} | Some r \<Rightarrow> rec_span r)"

lemma one_extent_span:
  assumes "length (br_extents r) \<le> 1"
  shows "\<exists>n. total_blocks r = Ok n \<and> span (first_physical_block r) n = rec_span r"
proof (cases "br_extents r")
  case Nil
  then show ?thesis
    by (simp add: total_blocks_def rec_span_def span_def)
next
  case (Cons e es)
  then have e: "br_extents r = [e]"
    using assms by (cases es) simp_all
  have "uadd 0 (ucast (er_length_blocks e)) = Ok (ucast (er_length_blocks e) :: u64)"
    by (simp add: uadd_def unat_u64_lt [simplified])
  then show ?thesis
    by (simp add: total_blocks_def rec_span_def er_span_def first_physical_block_def e)
qed

section \<open>The table of checksums plays no part\<close>

text \<open>Two stores that differ at most in the checksum table and the pending discards.\<close>

definition same_space :: "block_store \<Rightarrow> block_store \<Rightarrow> bool" where
  "same_space s t \<longleftrightarrow> st_block_size t = st_block_size s \<and> st_policy t = st_policy s \<and> st_records t = st_records s
     \<and> st_compat_device t = st_compat_device s \<and> st_free_extents t = st_free_extents s
     \<and> st_next_device_block t = st_next_device_block s"

lemma dedup_release_same: "same_space s (dedup_release crc s)"
  by (simp add: dedup_release_def same_space_def Let_def split: option.split)

lemma dedup_release_counts:
  assumes "counts_below s"
  shows "counts_below (dedup_release crc s)"
proof -
  have "unat (sat_sub n 1) + 1 < 2 ^ 32" if "unat n + 1 < 2 ^ 32" for n :: u32
    using that by (auto simp: sat_sub_def unat_sub_ok)
  then show ?thesis
    using assms om.insert_law [of "st_dedup_table s"] om.remove_law [of "st_dedup_table s"]
    by (auto simp: dedup_release_def counts_below_def Let_def split: option.split if_splits)
qed

lemma same_space_sel:
  assumes "same_space s t"
  shows "available t = available s" "wf_space t = wf_space s" "wf_device t = wf_device s" "wf_files t = wf_files s" "files t = files s"
    "roomy t k = roomy s k" "one_extent t i = one_extent s i" "old_span t i = old_span s i"
  using assms
  by (simp_all add: same_space_def available_def wf_space_def wf_device_def wf_files_def files_def roomy_def one_extent_def old_span_def fun_eq_iff)

lemma dedup_insert_ok:
  assumes "counts_below s"
  shows "\<exists>t. dedup_insert crc a n k s = (Ok (), t) \<and> same_space s t"
proof (cases "om_get (st_dedup_table s) crc")
  case (Some e)
  then have "uadd (dd_ref_count e) 1 = Ok (dd_ref_count e + 1)"
    using assms by (auto simp: counts_below_def uadd_def)
  then show ?thesis
    using Some by (simp add: dedup_insert_def same_space_def cbind_run(1) [where m = "clift _"])
qed (simp add: dedup_insert_def same_space_def)

section \<open>Where a full write goes\<close>

lemma same_files_counts: "same_files s t \<Longrightarrow> counts_below t = counts_below s"
  by (simp add: same_files_def counts_below_def)

text \<open>Everything but the space and the checksum table is unchanged.\<close>

definition same_records :: "block_store \<Rightarrow> block_store \<Rightarrow> bool" where
  "same_records s t \<longleftrightarrow> st_block_size t = st_block_size s \<and> st_policy t = st_policy s \<and> st_records t = st_records s
     \<and> st_compat_device t = st_compat_device s"

lemma same_records_simps:
  "same_files s t \<Longrightarrow> same_records s t" "same_space s t \<Longrightarrow> same_records s t"
  "same_records s t \<Longrightarrow> same_records t u \<Longrightarrow> same_records s u"
  by (simp_all add: same_files_def same_space_def same_records_def)

lemma span_below:
  assumes "wf_space s" "x \<in> A" "A \<inter> available s = {}"
  shows "x < unat (st_next_device_block s)"
  using assms by (auto simp: available_def not_le)

lemma span_split:
  assumes "unat k \<le> unat n" "unat f + unat k < 2 ^ 64"
  shows "span f n = span f k \<union> span (sat_add f k) (n - k)" "span f k \<inter> span (sat_add f k) (n - k) = {}"
proof -
  have "unat (sat_add f k) = unat f + unat k" "unat (n - k) = unat n - unat k"
    using assms by (simp_all add: sat_add_def unat_add_ok unat_sub_if')
  then show "span f n = span f k \<union> span (sat_add f k) (n - k)" "span f k \<inter> span (sat_add f k) (n - k) = {}"
    using assms(1) by (auto simp: set_eq_iff)
qed

lemma callocate_ok:
  assumes "wf_space s" "0 < unat k" "unat (st_next_device_block s) + unat k < 2 ^ 64"
  shows "\<exists>a n t. callocate k s = (Ok (a, n), t) \<and> wf_space t \<and> same_files s t \<and> unat k \<le> unat n
    \<and> span a n \<subseteq> available s \<and> available t = available s - span a n
    \<and> unat a + unat n \<le> unat (st_next_device_block s) + unat k"
proof -
  obtain a n t where "allocate_extent k s = ((a, n), t)" "wf_space t \<and> same_files s t \<and> unat k \<le> unat n
      \<and> span a n \<subseteq> available s \<and> available t = available s - span a n
      \<and> unat a + unat n \<le> unat (st_next_device_block s) + unat k"
    using allocate_extent_ok [OF assms] by blast
  moreover from this have "callocate k s = (Ok (a, n), t)"
    by (simp add: callocate_def)
  ultimately show ?thesis
    by blast
qed

lemma release_record_ok:
  assumes "wf_space s" "length (br_extents r) \<le> 1" "rec_span r \<inter> available s = {}" "counts_below s"
  shows "\<exists>t. release_record r s = (Ok (), t) \<and> wf_space t \<and> same_records s t \<and> counts_below t
    \<and> available t = available s \<union> rec_span r \<and> unat (st_next_device_block t) \<le> unat (st_next_device_block s)"
proof -
  obtain n where n: "total_blocks r = Ok n" "span (first_physical_block r) n = rec_span r"
    using one_extent_span [OF assms(2)] by blast
  let ?s = "dedup_release (br_content_crc r) s" and ?t = "release_span (first_physical_block r) n (dedup_release (br_content_crc r) s)"
  have s: "wf_space ?s" "available ?s = available s" "same_records s ?s" "st_next_device_block ?s = st_next_device_block s"
  proof -
    note d = dedup_release_same [of s "br_content_crc r"]
    show "wf_space ?s" "available ?s = available s"
      using same_space_sel(1,2) [OF d] assms(1) by simp_all
    show "same_records s ?s" "st_next_device_block ?s = st_next_device_block s"
      using same_records_simps(2) [OF d] d by (simp_all add: same_space_def)
  qed
  have t: "wf_space ?t" "available ?t = available s \<union> rec_span r" "shrinks ?s ?t"
    using release_span_ok [OF s(1), of "first_physical_block r" n] n(2) s(2) assms(3) by simp_all
  have "same_records s ?t" "counts_below ?t"
    using t(3) s(3) same_records_simps(1,3) same_files_counts dedup_release_counts [OF assms(4)] unfolding shrinks_def by blast+
  then show ?thesis
    using n(1) t s(4) by (simp add: release_record_def cbind_run(1) [where m = "clift _"] shrinks_def)
qed

lemma old_span_free:
  assumes "wf_files s"
  shows "old_span s i \<inter> available s = {}"
  using assms by (auto simp: old_span_def wf_files_def split: option.splits)

lemma place_write_ok:
  assumes "wf_store s" "one_extent s i" "counts_below s" "0 < unat k" "unat (st_next_device_block s) + unat k < 2 ^ 64"
  shows "\<exists>a n t. place_write i k s = (Ok (a, n), t) \<and> wf_space t \<and> same_records s t \<and> counts_below t
    \<and> unat k \<le> unat n \<and> span a n \<subseteq> available s \<union> old_span s i \<and> available t = (available s \<union> old_span s i) - span a n
    \<and> unat a + unat n \<le> unat (st_next_device_block s) + unat k"
proof -
  have w: "wf_space s" "wf_files s"
    using assms(1) by (simp_all add: wf_store_def)
  have "1 \<le> k"
    by (simp only: word_le_nat_alt) (use assms(4) in simp)
  then have mx: "max k 1 = k"
    by (simp add: max_absorb1)
  have fresh: "\<exists>a n u. callocate k t = (Ok (a, n), u) \<and> wf_space u \<and> same_records s u \<and> counts_below u \<and> unat k \<le> unat n
      \<and> span a n \<subseteq> available t \<and> available u = available t - span a n \<and> unat a + unat n \<le> unat (st_next_device_block s) + unat k"
    if t: "wf_space t" "same_records s t" "counts_below t" "unat (st_next_device_block t) \<le> unat (st_next_device_block s)" for t
  proof -
    have "unat (st_next_device_block t) + unat k < 2 ^ 64"
      using t(4) assms(5) by simp
    then obtain a n u where u: "callocate k t = (Ok (a, n), u)" "wf_space u" "same_files t u" "unat k \<le> unat n"
      "span a n \<subseteq> available t" "available u = available t - span a n" "unat a + unat n \<le> unat (st_next_device_block t) + unat k"
      using callocate_ok [OF t(1) assms(4)] by blast
    moreover have "same_records s u" "counts_below u"
      using same_records_simps(1,3) t(2,3) u(3) same_files_counts by blast+
    ultimately show ?thesis
      using t(4) by (meson add_le_mono1 order_trans)
  qed
  show ?thesis
  proof (cases "om_get (st_records s) i")
    case None
    then have old: "old_span s i = {}"
      by (simp add: old_span_def)
    have run: "place_write i k s = callocate k s"
      using None mx by (simp add: place_write_def)
    show ?thesis
      unfolding run old Un_empty_right
      by (rule fresh) (use w(1) assms(3) in \<open>simp_all add: same_records_def\<close>)
  next
    case (Some r)
    then have old: "old_span s i = rec_span r" and one: "length (br_extents r) \<le> 1"
      using assms(2) by (simp_all add: old_span_def one_extent_def)
    have free: "rec_span r \<inter> available s = {}"
      using old_span_free [OF w(2), of i] old by simp
    obtain n where n: "total_blocks r = Ok n" "span (first_physical_block r) n = rec_span r"
      using one_extent_span [OF one] by blast
    show ?thesis
    proof (cases "n \<ge> k")
      case False
      obtain t where t: "release_record r s = (Ok (), t)" "wf_space t" "same_records s t" "counts_below t"
        "available t = available s \<union> rec_span r" "unat (st_next_device_block t) \<le> unat (st_next_device_block s)"
        using release_record_ok [OF w(1) one free assms(3)] by blast
      have run: "place_write i k s = callocate k t"
        using Some n(1) False mx t(1) by (simp add: place_write_def cbind_run(1) [where m = "clift _"] cthen_run(1))
      show ?thesis
        unfolding run old t(5) [symmetric] using fresh [OF t(2-4) t(6)] by blast
    next
      case True
      then have kn: "unat k \<le> unat n"
        by (simp add: word_le_nat_alt)
      let ?f = "first_physical_block r" and ?s = "dedup_release (br_content_crc r) s"
      let ?t = "if n > k then release_span (sat_add ?f k) (n - k) ?s else ?s"
      note d = dedup_release_same [of s "br_content_crc r"]
      have s: "wf_space ?s" "available ?s = available s" "same_records s ?s" "counts_below ?s"
        using same_space_sel(1,2) [OF d] w(1) same_records_simps(2) [OF d] dedup_release_counts [OF assms(3)] by simp_all
      have "unat ?f + unat n - 1 \<in> span ?f n"
        using kn assms(4) by simp
      then have "unat ?f + unat n - 1 < unat (st_next_device_block s)"
        using span_below [OF w(1) _ free] n(2) by blast
      then have below: "unat ?f + unat n \<le> unat (st_next_device_block s)"
        by linarith
      then have "unat ?f + unat k < 2 ^ 64"
        using kn assms(5) by linarith
      note split = span_split [OF kn this, unfolded n(2)]
      have t: "wf_space ?t \<and> same_records s ?t \<and> counts_below ?t \<and> available ?t = (available s \<union> rec_span r) - span ?f k"
      proof (cases "n > k")
        case True
        have "span (sat_add ?f k) (n - k) \<inter> available ?s = {}"
          using split free s(2) by blast
        note r = release_span_ok [OF s(1) this]
        have "same_files ?s (release_span (sat_add ?f k) (n - k) ?s)"
          using r by (simp add: shrinks_def)
        moreover have "available s \<union> span (sat_add ?f k) (n - k) = (available s \<union> rec_span r) - span ?f k"
          using split free by blast
        ultimately show ?thesis
          using True r s(4) same_records_simps(3) [OF s(3) same_records_simps(1)] same_files_counts s(2) by (simp add: shrinks_def)
      next
        case False
        then have "n = k"
          using \<open>n \<ge> k\<close> by simp
        then have "(available s \<union> rec_span r) - span ?f k = available s"
          using n(2) free by blast
        then show ?thesis
          using False s by simp
      qed
      have run: "place_write i k s = (Ok (?f, k), ?t)"
        using Some n(1) True by (simp add: place_write_def cbind_run(1) [where m = "clift _"] cthen_run(1) [where m = "cmod _"] Let_def)
      have "span ?f k \<subseteq> available s \<union> rec_span r" "unat ?f + unat k \<le> unat (st_next_device_block s) + unat k"
        using split(1) below by auto
      then show ?thesis
        unfolding run old using t by blast
    qed
  qed
qed

section \<open>One file replaced\<close>

lemma bytes_apart:
  assumes "wf_extent B m e" "er_span e \<inter> span a n = {}" "0 < unat n"
  shows "unat (er_physical_block e) * B + unat (er_logical_len e) \<le> unat a * B
    \<or> (unat a + unat n) * B \<le> unat (er_physical_block e) * B"
proof -
  let ?p = "unat (er_physical_block e)" and ?l = "unat (er_length_blocks e)" and ?k = "unat (er_logical_len e)"
  have w: "0 < ?k" "?k \<le> ?l * B"
    using assms(1) by (simp_all add: wf_extent_def)
  have in_span: "x \<in> er_span e" if "?p \<le> x" "x < ?p + ?l" for x
    using that by (simp add: er_span_def unat_ucast_u32)
  have "0 < ?l"
    using w by (cases "?l = 0") simp_all
  have "?p + ?l \<le> unat a \<or> unat a + unat n \<le> ?p"
  proof (rule ccontr)
    assume "\<not> ?thesis"
    then have "max ?p (unat a) \<in> er_span e \<inter> span a n"
      using in_span [of "max ?p (unat a)"] \<open>0 < ?l\<close> assms(3) by simp
    then show False
      using assms(2) by simp
  qed
  then show ?thesis
  proof
    assume "?p + ?l \<le> unat a"
    then have "(?p + ?l) * B \<le> unat a * B"
      by (rule mult_right_mono) simp
    then show ?thesis
      using w(2) by (simp add: add_mult_distrib)
  next
    assume "unat a + unat n \<le> ?p"
    then show ?thesis
      using mult_right_mono by blast
  qed
qed

lemma extent_inside: "wf_extent B m e \<Longrightarrow> unat (er_physical_block e) * B + unat (er_logical_len e) \<le> m"
  by (simp add: wf_extent_def add_mult_distrib)

lemma kept_bytes:
  assumes "wf_record B (length img) r" "rec_span r \<inter> span a n = {}" "0 < unat n"
    and "\<forall>off k. off + k \<le> length img \<longrightarrow> off + k \<le> unat a * B \<or> (unat a + unat n) * B \<le> off \<longrightarrow> cut off k img' = cut off k img"
  shows "rec_bytes B img' r = rec_bytes B img r"
proof -
  have "ext_content B img' e = ext_content B img e" if e: "e \<in> set (br_extents r)" for e
  proof -
    have "wf_extent B (length img) e" "er_span e \<inter> span a n = {}"
      using assms(1,2) e by (auto simp: wf_record_def rec_span_def)
    then show ?thesis
      unfolding ext_content_def using assms(4) bytes_apart [OF _ _ assms(3)] extent_inside by blast
  qed
  then show ?thesis
    unfolding rec_bytes_def by (metis (mono_tags, lifting) map_eq_conv)
qed

lemma wf_record_mono: "wf_record B n r \<Longrightarrow> n \<le> m \<Longrightarrow> wf_record B m r"
  unfolding wf_record_def wf_extent_def using order_trans by blast

lemma wf_files_D:
  assumes "wf_files s" "om_get (st_records s) j = Some q"
  shows "wf_record (block_bytes_of s) (length (compat_image s)) q" "rec_span q \<inter> available s = {}"
    "i \<noteq> j \<Longrightarrow> rec_span q \<inter> old_span s i = {}"
  using assms by (fastforce simp: wf_files_def old_span_def split: option.splits)+

lemma replace_file:
  assumes "wf_store s" "wf_space t" "wf_device t" "block_bytes_of t = block_bytes_of s"
    and recs: "om_ok (st_records t)" "om_get (st_records t) = (om_get (st_records s))(i := x)"
    and av: "available t \<subseteq> available s \<union> old_span s i"
    and len: "length (compat_image s) \<le> length (compat_image t)"
    and kept: "\<forall>j q. j \<noteq> i \<longrightarrow> om_get (st_records s) j = Some q \<longrightarrow>
      rec_bytes (block_bytes_of s) (compat_image t) q = rec_bytes (block_bytes_of s) (compat_image s) q"
    and new: "\<forall>r. x = Some r \<longrightarrow> wf_record (block_bytes_of s) (length (compat_image t)) r \<and> rec_span r \<inter> available t = {}
      \<and> rec_span r \<subseteq> available s \<union> old_span s i"
  shows "wf_store t" "files t = (files s)(i := map_option (rec_bytes (block_bytes_of s) (compat_image t)) x)"
proof -
  have w: "wf_files s"
    using assms(1) by (simp add: wf_store_def)
  have one: "wf_record (block_bytes_of s) (length (compat_image t)) r" "rec_span r \<inter> available t = {}"
    if "om_get (st_records t) j = Some r" for j r
  proof -
    show "wf_record (block_bytes_of s) (length (compat_image t)) r"
      using that recs(2) new wf_record_mono [OF wf_files_D(1) [OF w] len] by (cases "j = i") auto
    show "rec_span r \<inter> available t = {}"
    proof (cases "j = i")
      case False
      then have q: "om_get (st_records s) j = Some r"
        using that recs(2) by simp
      have "rec_span r \<inter> old_span s i = {}"
        using wf_files_D(3) [OF w q] False by metis
      then show ?thesis
        using wf_files_D(2) [OF w q] av by blast
    qed (use that recs(2) new in simp)
  qed
  have apart: "rec_span r \<inter> rec_span q = {}" if "x = Some r" "om_get (st_records s) j = Some q" "j \<noteq> i" for j r q
  proof -
    have "rec_span r \<subseteq> available s \<union> old_span s i" "rec_span q \<inter> available s = {}" "rec_span q \<inter> old_span s i = {}"
      using new that wf_files_D(2,3) [OF w that(2)] by metis+
    then show ?thesis
      by blast
  qed
  have "rec_span r \<inter> rec_span q = {}" if "om_get (st_records t) j = Some r" "om_get (st_records t) k = Some q" "j \<noteq> k" for j k r q
  proof -
    consider "j = i" "k \<noteq> i" | "k = i" "j \<noteq> i" | "j \<noteq> i" "k \<noteq> i"
      using \<open>j \<noteq> k\<close> by blast
    then show ?thesis
    proof cases
      case 1
      then show ?thesis
        using apart [of r k q] that recs(2) by simp
    next
      case 2
      then show ?thesis
        using apart [of q j r] that recs(2) by (simp add: Int_commute)
    next
      case 3
      then have "om_get (st_records s) j = Some r" "om_get (st_records s) k = Some q"
        using that recs(2) by simp_all
      then show ?thesis
        using w \<open>j \<noteq> k\<close> unfolding wf_files_def by blast
    qed
  qed
  then have "wf_files t"
    unfolding wf_files_def assms(4) using recs(1) one by blast
  then show "wf_store t"
    using assms(2,3) by (simp add: wf_store_def)
  show "files t = (files s)(i := map_option (rec_bytes (block_bytes_of s) (compat_image t)) x)"
  proof
    fix j
    show "files t j = ((files s)(i := map_option (rec_bytes (block_bytes_of s) (compat_image t)) x)) j"
      using kept recs(2) assms(4) by (cases "j = i"; cases "om_get (st_records s) j") (simp_all add: files_def)
  qed
qed

section \<open>A full write\<close>

lemma wf_whole_record:
  assumes "length bs \<le> unat n * B" "(unat a + unat n) * B \<le> m" "unat n < 2 ^ 32" "length bs < 2 ^ 32"
    and "cut (unat a * B) (length bs) img = bs"
  shows "wf_record B m (whole_record i a n (of_nat (length bs)) crc)"
    "rec_span (whole_record i a n (of_nat (length bs)) crc) \<subseteq> span a n"
    "rec_bytes B img (whole_record i a n (of_nat (length bs)) crc) = bs"
proof -
  have l: "unat (of_nat (length bs) :: u64) = length bs" "unat (of_nat (length bs) :: u32) = length bs"
    and u: "unat (ucast n :: u32) = unat n"
    using assms(3,4) by (simp_all add: unat_of_nat_ok unsigned_ucast_eq take_bit_nat_eq_self)
  have z: "of_nat (length bs) = (0 :: u64) \<longleftrightarrow> bs = []"
    by (simp only: word_unat_eq_iff unat_0 l(1) length_0_conv)
  have c: "(ucast (of_nat (length bs) :: u64) :: u32) = of_nat (length bs)"
    using assms(4) by (simp only: word_unat_eq_iff unsigned_ucast_eq l) (simp add: take_bit_nat_eq_self)
  show "wf_record B m (whole_record i a n (of_nat (length bs)) crc)"
    using assms(1,2) l u by (cases "bs = []") (simp_all add: wf_record_def wf_extent_def whole_record_def z c)
  show "rec_span (whole_record i a n (of_nat (length bs)) crc) \<subseteq> span a n"
    using u by (auto simp: rec_span_def er_span_def whole_record_def z unat_ucast_u32)
  show "rec_bytes B img (whole_record i a n (of_nat (length bs)) crc) = bs"
    using assms(5) l by (cases "bs = []") (simp_all add: rec_bytes_def ext_content_def whole_record_def z c)
qed

definition put_file :: "inode_id \<Rightarrow> u64 \<Rightarrow> u64 \<Rightarrow> bytes \<Rightarrow> (block_store, u64) cmd" where
  "put_file i a n bs =
    cthen (drop_record i)
   (cthen (store_compat a n bs)
   (cthen (dedup_insert (content_crc bs) a (ucast n) (ucast (of_nat (length bs) :: u64)))
   (cthen (put_record i (whole_record i a n (of_nat (length bs)) (content_crc bs))) (cret (of_nat (length bs))))))"

lemma put_file_ok:
  fixes a n :: u64
  assumes "wf_store s" "wf_space t" "same_records s t" "counts_below t"
    and sp: "span a n \<subseteq> available s \<union> old_span s i" "available t = (available s \<union> old_span s i) - span a n"
    and n: "0 < unat n" "unat n < 2 ^ 32" "length bs \<le> unat n * block_bytes_of s" "length bs < 2 ^ 32"
    and lim: "length (compat_image s) < 2 ^ 62" "(unat a + unat n) * block_bytes_of s < 2 ^ 62"
  shows "\<exists>u. put_file i a n bs t = (Ok (of_nat (length bs)), u) \<and> wf_store u \<and> files u = (files s)(i \<mapsto> bs) \<and> available u = available t"
proof -
  let ?B = "block_bytes_of s" and ?t = "t\<lparr>st_records := om_remove i (st_records t)\<rparr>"
    and ?r = "whole_record i a n (of_nat (length bs)) (content_crc bs)"
  have same: "st_block_size t = st_block_size s" "st_records t = st_records s" "st_compat_device t = st_compat_device s"
    using assms(3) by (simp_all add: same_records_def)
  have wt: "wf_device ?t" "wf_files s"
    using assms(1) same by (simp_all add: wf_store_def wf_device_def)
  obtain v where v: "store_compat a n bs ?t = (Ok (), v)" "v = ?t\<lparr>st_compat_device := st_compat_device v\<rparr>" "wf_device v"
    "length (compat_image s) \<le> length (compat_image v)" "(unat a + unat n) * ?B \<le> length (compat_image v)"
    "cut (unat a * ?B) (length bs) (compat_image v) = bs"
    "\<forall>off k. off + k \<le> length (compat_image s) \<longrightarrow> off + k \<le> unat a * ?B \<or> (unat a + unat n) * ?B \<le> off
         \<longrightarrow> cut off k (compat_image v) = cut off k (compat_image s)"
    using store_compat_ok [OF wt(1), of a n bs] n(3) lim same by auto
  have vs: "st_records v = om_remove i (st_records s)" "st_dedup_table v = st_dedup_table t" "st_block_size v = st_block_size s"
    "st_free_extents v = st_free_extents t" "st_next_device_block v = st_next_device_block t"
    by (subst v(2), simp add: same)+
  have "counts_below v"
    using assms(4) by (simp add: counts_below_def vs)
  then obtain x where x: "dedup_insert (content_crc bs) a (ucast n) (ucast (of_nat (length bs) :: u64)) v = (Ok (), x)" "same_space v x"
    using dedup_insert_ok by blast
  let ?u = "x\<lparr>st_records := om_insert i ?r (st_records x)\<rparr>"
  have xs: "st_records x = om_remove i (st_records s)" "st_compat_device x = st_compat_device v" "st_block_size x = st_block_size s"
    "st_free_extents x = st_free_extents t" "st_next_device_block x = st_next_device_block t"
    using x(2) vs by (simp_all add: same_space_def)
  have run: "put_file i a n bs t = (Ok (of_nat (length bs)), ?u)"
    unfolding put_file_def using v(1) x(1)
    by (simp add: cthen_run(1) [where m = "cmod _"] cthen_run(1) [where m = "store_compat _ _ _"] cthen_run(1) [where m = "dedup_insert _ _ _ _"])
  have av: "available ?u = available t" "wf_space ?u" "wf_device ?u"
    using assms(2) v(3) by (simp_all add: available_def wf_space_def wf_device_def xs vs)
  have ok: "om_ok (st_records s)"
    using wt(2) by (simp add: wf_files_def)
  have r: "wf_record ?B (length (compat_image ?u)) ?r" "rec_span ?r \<subseteq> span a n" "rec_bytes ?B (compat_image ?u) ?r = bs"
    using wf_whole_record [of bs n ?B a "length (compat_image v)" "compat_image v" i "content_crc bs"] n v(5,6) xs(2) by simp_all
  have kept: "rec_bytes ?B (compat_image ?u) q = rec_bytes ?B (compat_image s) q"
    if "j \<noteq> i" "om_get (st_records s) j = Some q" for j q
  proof (rule kept_bytes)
    show "wf_record ?B (length (compat_image s)) q"
      by (rule wf_files_D(1) [OF wt(2) that(2)])
    have "rec_span q \<inter> old_span s i = {}"
      using wf_files_D(3) [OF wt(2) that(2)] that(1) by metis
    then show "rec_span q \<inter> span a n = {}"
      using wf_files_D(2) [OF wt(2) that(2)] sp(1) by blast
  qed (use n(1) v(7) xs(2) in simp_all)
  note rep = replace_file [OF assms(1) av(2,3), where i = i and x = "Some ?r"]
  have "wf_store ?u" "files ?u = (files s)(i := map_option (rec_bytes ?B (compat_image ?u)) (Some ?r))"
    using kept r v(4) sp av(1) ok om.insert_law [of "om_remove i (st_records s)"] om.remove_law [OF ok]
    by (intro rep; auto simp: xs)+
  then show ?thesis
    using run av(1) r(3) by (intro exI [of _ ?u]) simp
qed

definition blocks_for :: "block_store \<Rightarrow> bytes \<Rightarrow> nat" where
  "blocks_for s bs = (if bs = [] then 1 else (length bs + block_bytes_of s - 1) div block_bytes_of s)"

lemma blocks_for_ok:
  assumes "wf_device s"
  shows "0 < blocks_for s bs" "length bs \<le> blocks_for s bs * block_bytes_of s"
proof -
  have B: "0 < block_bytes_of s"
    using assms by (simp add: wf_device_def)
  show "length bs \<le> blocks_for s bs * block_bytes_of s"
    using ceil_ge [OF B, of "length bs"] by (simp add: blocks_for_def)
  then show "0 < blocks_for s bs"
    by (cases "bs = []") (auto simp: blocks_for_def intro: gr0I)
qed

lemma needed_blocks_ok:
  assumes "wf_device s" "length bs < 2 ^ 32"
  shows "\<exists>k. needed_blocks (of_nat (length bs)) (st_block_size s) = Ok k \<and> unat k = blocks_for s bs"
    and "bs \<noteq> [] \<Longrightarrow> \<exists>k. udiv_ceil (of_nat (length bs)) (st_block_size s) = Ok k \<and> unat k = blocks_for s bs"
proof -
  have B: "0 < block_bytes_of s" "st_block_size s \<noteq> 0"
    using assms(1) by (auto simp: wf_device_def)
  have l: "unat (of_nat (length bs) :: u64) = length bs"
    using assms(2) by (simp add: unat_of_nat_ok)
  have z: "of_nat (length bs) = (0 :: u64) \<longleftrightarrow> bs = []"
    by (simp only: word_unat_eq_iff unat_0 l length_0_conv)
  note c = unat_div_ceil [OF B(1), of "of_nat (length bs)", unfolded l]
  show "\<exists>k. needed_blocks (of_nat (length bs)) (st_block_size s) = Ok k \<and> unat k = blocks_for s bs"
    using c B(2) by (simp add: needed_blocks_def z udiv_ceil_def blocks_for_def)
  show "\<exists>k. udiv_ceil (of_nat (length bs)) (st_block_size s) = Ok k \<and> unat k = blocks_for s bs" if "bs \<noteq> []"
    using c B(2) that by (simp add: udiv_ceil_def blocks_for_def)
qed

lemma st_write_ok:
  assumes "wf_store s" "one_extent s i" "counts_below s" "length bs < 2 ^ 32" "roomy s (blocks_for s bs)"
  shows "\<exists>t. st_write i bs s = (Ok (of_nat (length bs)), t) \<and> wf_store t \<and> files t = (files s)(i \<mapsto> bs)"
proof -
  have wd: "wf_device s"
    using assms(1) by (simp add: wf_store_def)
  obtain k where k: "needed_blocks (of_nat (length bs)) (st_block_size s) = Ok k" "unat k = blocks_for s bs"
    using needed_blocks_ok(1) [OF wd assms(4)] by blast
  have lim: "unat (st_next_device_block s) + unat k < 2 ^ 32" "(unat (st_next_device_block s) + unat k) * block_bytes_of s < 2 ^ 62"
    "length (compat_image s) < 2 ^ 62" "0 < unat k" "length bs \<le> unat k * block_bytes_of s"
    using assms(5) blocks_for_ok [OF wd, of bs] k(2) by (simp_all add: roomy_def)
  obtain a n t where t: "place_write i k s = (Ok (a, n), t)" "wf_space t" "same_records s t" "counts_below t"
    "unat k \<le> unat n" "span a n \<subseteq> available s \<union> old_span s i" "available t = (available s \<union> old_span s i) - span a n"
    "unat a + unat n \<le> unat (st_next_device_block s) + unat k"
    using place_write_ok [OF assms(1-3) lim(4)] lim(1) by auto
  have n: "0 < unat n" "unat n < 2 ^ 32" "length bs \<le> unat n * block_bytes_of s" "(unat a + unat n) * block_bytes_of s < 2 ^ 62"
  proof -
    show "0 < unat n" "unat n < 2 ^ 32"
      using lim(1,4) t(5,8) by linarith+
    show "length bs \<le> unat n * block_bytes_of s"
      using lim(5) mult_right_mono [OF t(5), of "block_bytes_of s"] by linarith
    show "(unat a + unat n) * block_bytes_of s < 2 ^ 62"
      using lim(2) mult_right_mono [OF t(8), of "block_bytes_of s"] by linarith
  qed
  obtain u where "put_file i a n bs t = (Ok (of_nat (length bs)), u)" "wf_store u" "files u = (files s)(i \<mapsto> bs)"
    using put_file_ok [OF assms(1) t(2-4) t(6,7) n(1-3) assms(4) lim(3) n(4)] by blast
  moreover have "st_write i bs s = put_file i a n bs t"
    using k(1) t(1) by (simp add: st_write_def Let_def put_file_def cbind_run(1) [where m = "clift _"] cbind_run(1) [where m = "place_write _ _"])
  ultimately show ?thesis
    by auto
qed

end
