(* ===== verification/Block_Store_Append.thy ===== *)
theory Block_Store_Append
  imports Block_Store_Write
begin

text \<open>
  An append, a removal and the reads, against the map of file contents.
\<close>

section \<open>An append\<close>

lemma rec_bytes_append: "rec_bytes B img (r\<lparr>br_extents := es\<rparr>) = concat (map (ext_content B img) es)"
  by (simp add: rec_bytes_def)

lemma logical_blocks_ok:
  assumes "(\<Sum>e\<leftarrow>br_extents r. unat (er_length_blocks e)) < 2 ^ 32"
  shows "\<exists>n. logical_blocks r = Ok n"
proof -
  have run: "\<exists>n. rfor (\<lambda>e n. uadd n (er_length_blocks e)) es m = Ok n"
    if "unat m + (\<Sum>e\<leftarrow>es. unat (er_length_blocks e)) < 2 ^ 32" for es and m :: u32
    using that
  proof (induction es arbitrary: m)
    case (Cons e es)
    then have "uadd m (er_length_blocks e) = Ok (m + er_length_blocks e)" "unat (m + er_length_blocks e) = unat m + unat (er_length_blocks e)"
      by (simp_all add: uadd_def unat_add_ok)
    then show ?case
      using Cons by (simp add: add.assoc)
  qed simp
  show ?thesis
    using run [of 0 "br_extents r"] assms by (simp add: logical_blocks_def)
qed

text \<open>The blocks of a record are below the high-water mark, and so is their number.\<close>

lemma sum_blocks:
  assumes "sorted_wrt (\<lambda>a b. er_span a \<inter> er_span b = {}) es"
  shows "finite (\<Union>e \<in> set es. er_span e) \<and> card (\<Union>e \<in> set es. er_span e) = (\<Sum>e\<leftarrow>es. unat (er_length_blocks e))"
  using assms
proof (induction es)
  case (Cons e es)
  have e: "er_span e = {unat (er_physical_block e)..<unat (er_physical_block e) + unat (er_length_blocks e)}"
    by (auto simp: er_span_def unat_ucast_u32)
  have "er_span e \<inter> (\<Union>e \<in> set es. er_span e) = {}"
    using Cons.prems by auto
  then show ?case
    using Cons e by (simp add: card_Un_disjoint)
qed simp

lemma record_limits:
  assumes "wf_store s" "om_get (st_records s) i = Some r"
  shows "(\<Sum>e\<leftarrow>br_extents r. unat (er_length_blocks e)) \<le> unat (st_next_device_block s)"
    "unat (br_logical_size r) \<le> unat (st_next_device_block s) * block_bytes_of s"
proof -
  have w: "wf_space s" "wf_record (block_bytes_of s) (length (compat_image s)) r" "rec_span r \<inter> available s = {}"
    using assms wf_files_D [of s i r] by (simp_all add: wf_store_def)
  have "rec_span r \<subseteq> {..<unat (st_next_device_block s)}"
    using span_below [OF w(1) _ w(3)] by blast
  then have "card (rec_span r) \<le> unat (st_next_device_block s)"
    by (metis card_lessThan card_mono finite_lessThan)
  moreover have "card (rec_span r) = (\<Sum>e\<leftarrow>br_extents r. unat (er_length_blocks e))"
    using w(2) sum_blocks unfolding wf_record_def rec_span_def by blast
  ultimately show sum: "(\<Sum>e\<leftarrow>br_extents r. unat (er_length_blocks e)) \<le> unat (st_next_device_block s)"
    by simp
  have le: "(\<Sum>e\<leftarrow>es. unat (er_logical_len e)) \<le> (\<Sum>e\<leftarrow>es. unat (er_length_blocks e)) * block_bytes_of s"
    if "\<forall>e \<in> set es. unat (er_logical_len e) \<le> unat (er_length_blocks e) * block_bytes_of s" for es
    using that by (induction es) (auto simp: add_mult_distrib add_mono)
  have "unat (br_logical_size r) \<le> (\<Sum>e\<leftarrow>br_extents r. unat (er_length_blocks e)) * block_bytes_of s"
    using w(2) le [of "br_extents r"] by (simp add: wf_record_def wf_extent_def)
  then show "unat (br_logical_size r) \<le> unat (st_next_device_block s) * block_bytes_of s"
    using mult_right_mono [OF sum, of "block_bytes_of s"] by linarith
qed

lemma wf_appended_record:
  assumes "wf_record B m r" "span a n \<inter> rec_span r = {}" "0 < length extra" "length extra \<le> unat n * B"
    "(unat a + unat n) * B \<le> m" "unat n < 2 ^ 32" "length extra < 2 ^ 32" "unat (br_logical_size r) + length extra < 2 ^ 64"
    "cut (unat a * B) (length extra) img = extra"
  shows "wf_record B m (appended_record r lb a n extra)" "rec_span (appended_record r lb a n extra) = rec_span r \<union> span a n"
    "rec_bytes B img (appended_record r lb a n extra) = rec_bytes B img r @ extra"
    "unat (br_logical_size (appended_record r lb a n extra)) = unat (br_logical_size r) + length extra"
proof -
  have l: "unat (of_nat (length extra) :: u64) = length extra" "unat (of_nat (length extra) :: u32) = length extra"
    and u: "unat (ucast n :: u32) = unat n"
    using assms(6,7) by (simp_all add: unat_of_nat_ok unsigned_ucast_eq take_bit_nat_eq_self)
  show size: "unat (br_logical_size (appended_record r lb a n extra)) = unat (br_logical_size r) + length extra"
    using assms(8) l(1) by (simp add: appended_record_def sat_add_def unat_add_ok)
  have sp: "span a (ucast (ucast n :: u32)) = span a n"
    using u by (auto simp: unat_ucast_u32)
  show "rec_span (appended_record r lb a n extra) = rec_span r \<union> span a n"
    using sp by (auto simp: rec_span_def er_span_def appended_record_def)
  show "rec_bytes B img (appended_record r lb a n extra) = rec_bytes B img r @ extra"
    using assms(9) l by (simp add: rec_bytes_def ext_content_def appended_record_def)
  have "er_span e \<inter> span a n = {}" if "e \<in> set (br_extents r)" for e
    using assms(2) that by (auto simp: rec_span_def)
  then show "wf_record B m (appended_record r lb a n extra)"
    using assms size l u sp
    by (simp add: wf_record_def wf_extent_def appended_record_def sorted_wrt_append
        er_span_def [of "\<lparr>er_logical_block = _, er_logical_len = _, er_physical_block = _, er_length_blocks = _,
          er_physical_len = _, er_content_crc = _, er_flags = _\<rparr>"])
qed

lemma empty_record: "wf_record B n r \<Longrightarrow> br_logical_size r = 0 \<Longrightarrow> br_extents r = []"
  by (cases "br_extents r") (auto simp: wf_record_def wf_extent_def)

text \<open>The append takes its blocks from the allocator and adds them to the record as one more extent.\<close>

lemma append_extent_ok:
  assumes "wf_store s" "counts_below s" "om_get (st_records s) i = Some r" "br_extents r \<noteq> []" "plain_record r"
    and "extra \<noteq> []" "length extra < 2 ^ 32" "roomy s (blocks_for s extra)"
  shows "\<exists>t k a n v lb. append_to_inode i extra s = (Ok (br_logical_size r + of_nat (length extra)), t) \<and> wf_store t
    \<and> files t = (files s)(i \<mapsto> rec_bytes (block_bytes_of s) (compat_image s) r @ extra)
    \<and> counts_below t \<and> st_block_size t = st_block_size s
    \<and> unat k = blocks_for s extra \<and> callocate k s = (Ok (a, n), v) \<and> st_free_extents t = st_free_extents v
    \<and> st_next_device_block t = st_next_device_block v
    \<and> st_records t = om_insert i (appended_record r lb a n extra) (st_records s)
    \<and> length (compat_image t) \<le> 2 * max (length (compat_image s)) ((unat (st_next_device_block s) + unat k) * block_bytes_of s) + 4096"
proof -
  let ?B = "block_bytes_of s"
  have w: "wf_space s" "wf_device s" "wf_files s"
    using assms(1) by (simp_all add: wf_store_def)
  note old = wf_files_D [OF w(3) assms(3)] and lim = record_limits [OF assms(1,3)]
  obtain k where k: "udiv_ceil (of_nat (length extra)) (st_block_size s) = Ok k" "unat k = blocks_for s extra"
    using needed_blocks_ok(2) [OF w(2) assms(7,6)] by blast
  have room: "unat (st_next_device_block s) + unat k < 2 ^ 32" "(unat (st_next_device_block s) + unat k) * ?B < 2 ^ 62"
    "length (compat_image s) < 2 ^ 62" "0 < unat k" "length extra \<le> unat k * ?B"
    using assms(8) blocks_for_ok [OF w(2), of extra] k(2) by (simp_all add: roomy_def)
  obtain a n t where t: "callocate k s = (Ok (a, n), t)" "wf_space t" "same_files s t" "unat k \<le> unat n"
    "span a n \<subseteq> available s" "available t = available s - span a n" "unat a + unat n \<le> unat (st_next_device_block s) + unat k"
    using callocate_ok [OF w(1) room(4)] room(1) by auto
  have n: "0 < unat n" "unat n < 2 ^ 32" "length extra \<le> unat n * ?B" "(unat a + unat n) * ?B < 2 ^ 62"
    using room(1,2,4,5) t(4,7) mult_right_mono [OF t(4), of ?B] mult_right_mono [OF t(7), of ?B] by linarith+
  have same: "st_block_size t = st_block_size s" "st_records t = st_records s" "st_compat_device t = st_compat_device s"
    "st_dedup_table t = st_dedup_table s"
    using t(3) by (simp_all add: same_files_def)
  have "wf_device t"
    using w(2) same by (simp add: wf_device_def)
  then obtain v where v: "store_compat a n extra t = (Ok (), v)" "v = t\<lparr>st_compat_device := st_compat_device v\<rparr>" "wf_device v"
    "length (compat_image s) \<le> length (compat_image v)" "(unat a + unat n) * ?B \<le> length (compat_image v)"
    "cut (unat a * ?B) (length extra) (compat_image v) = extra"
    "\<forall>off k. off + k \<le> length (compat_image s) \<longrightarrow> off + k \<le> unat a * ?B \<or> (unat a + unat n) * ?B \<le> off
         \<longrightarrow> cut off k (compat_image v) = cut off k (compat_image s)"
    "length (compat_image v) \<le> 2 * max (length (compat_image s)) ((unat a + unat n) * ?B) + 4096"
    using store_compat_ok [of t a n extra] n(3,4) room(3) same by auto
  have vs: "st_records v = st_records s" "st_block_size v = st_block_size s"
    "st_free_extents v = st_free_extents t" "st_next_device_block v = st_next_device_block t"
    by (subst v(2), simp add: same)+
  obtain lb where lb: "logical_blocks r = Ok lb"
    using logical_blocks_ok lim(1) room(1) by (meson le_less_trans add_lessD1)
  let ?x = "dedup_release (br_content_crc r) v" and ?r = "appended_record r lb a n extra"
  let ?u = "?x\<lparr>st_records := om_insert i ?r (st_records ?x)\<rparr>"
  have xs: "st_records ?x = st_records s" "st_compat_device ?x = st_compat_device v" "st_block_size ?x = st_block_size s"
    "st_free_extents ?x = st_free_extents t" "st_next_device_block ?x = st_next_device_block t"
    using dedup_release_same [of v "br_content_crc r"] vs by (simp_all add: same_space_def)
  have av: "available ?u = available t" "wf_space ?u" "wf_device ?u"
    using t(2) v(3) by (simp_all add: available_def wf_space_def wf_device_def xs vs)
  have bytes: "rec_bytes ?B (compat_image v) q = rec_bytes ?B (compat_image s) q"
    if "om_get (st_records s) j = Some q" for j q
    by (rule kept_bytes) (use wf_files_D(1,2) [OF w(3) that] t(5) n(1) v(7) in auto)
  have size: "unat (br_logical_size r) + length extra < 2 ^ 63"
    using lim(2) room(2) assms(7) by (simp add: add_mult_distrib)
  have "span a n \<inter> rec_span r = {}"
    using old(2) t(5) by blast
  note r = wf_appended_record [where img = "compat_image v" and lb = lb, OF wf_record_mono [OF old(1) v(4)] this _ n(3) v(5) n(2) assms(7) _ v(6)]
  have rs: "wf_record ?B (length (compat_image ?u)) ?r" "rec_span ?r = rec_span r \<union> span a n"
    "rec_bytes ?B (compat_image ?u) ?r = rec_bytes ?B (compat_image s) r @ extra"
    using r size assms(6) bytes [OF assms(3)] xs(2) by simp_all
  have run: "append_to_inode i extra s = (Ok (br_logical_size ?r), ?u)"
  proof -
    have "br_logical_size r \<noteq> 0"
      using empty_record [OF old(1)] assms(4) by blast
    then show ?thesis
      using assms(3-6) k(1) t(1) v(1) lb
      by (simp add: append_to_inode_def Let_def cbind_run(1) [where m = "clift _"] cbind_run(1) [where m = "callocate _"]
          cthen_run(1) [where m = "store_compat _ _ _"] cthen_run(1) [where m = "cmod _"])
  qed
  have ok: "om_ok (st_records s)"
    using w(3) by (simp add: wf_files_def)
  have osp: "old_span s i = rec_span r"
    using assms(3) by (simp add: old_span_def)
  note rep = replace_file [OF assms(1) av(2,3), where i = i and x = "Some ?r"]
  have "wf_store ?u" "files ?u = (files s)(i := map_option (rec_bytes ?B (compat_image ?u)) (Some ?r))"
    using bytes rs old(2) v(4) t(5,6) av(1) osp om.insert_law [OF ok]
    by (intro rep; auto simp: xs)+
  moreover have "br_logical_size ?r = br_logical_size r + of_nat (length extra)"
    using size by (simp add: appended_record_def sat_add_def unat_of_nat_ok)
  moreover have "counts_below ?u"
  proof -
    have "counts_below v"
      using assms(2) same by (subst v(2)) (simp add: counts_below_def)
    then show ?thesis
      using dedup_release_counts by (simp add: counts_below_def)
  qed
  moreover have "st_free_extents ?u = st_free_extents t" "st_next_device_block ?u = st_next_device_block t"
    "st_block_size ?u = st_block_size s" "st_records ?u = om_insert i ?r (st_records s)"
    by (simp_all add: xs)
  moreover have "length (compat_image ?u) \<le> 2 * max (length (compat_image s)) ((unat (st_next_device_block s) + unat k) * ?B) + 4096"
  proof -
    have "(unat a + unat n) * ?B \<le> (unat (st_next_device_block s) + unat k) * ?B"
      by (rule mult_right_mono [OF t(7)]) simp
    then have "length (compat_image v) \<le> 2 * max (length (compat_image s)) ((unat (st_next_device_block s) + unat k) * ?B) + 4096"
      using v(8) by linarith
    moreover have "st_compat_device ?u = st_compat_device v"
      by (simp add: xs)
    ultimately show ?thesis
      by (simp only:)
  qed
  ultimately show ?thesis
    using run rs(3) k(2) t(1) by (intro exI [of _ ?u] exI [of _ k] exI [of _ a] exI [of _ n] exI [of _ t] exI [of _ lb]) simp
qed

lemma record_bytes: "om_get (st_records s) i = Some r \<Longrightarrow> files s i = Some (rec_bytes (block_bytes_of s) (compat_image s) r)"
  by (simp add: files_def)

definition appended :: "bytes option \<Rightarrow> bytes \<Rightarrow> bytes" where
  "appended old extra = (case old of None \<Rightarrow> extra | Some b \<Rightarrow> b @ extra)"

lemma append_ok:
  assumes "wf_store s" "counts_below s" "\<forall>r. om_get (st_records s) i = Some r \<longrightarrow> plain_record r"
    and "extra \<noteq> []" "length extra < 2 ^ 32" "roomy s (blocks_for s extra)"
  shows "\<exists>t. append_to_inode i extra s = (Ok (of_nat (length (appended (files s i) extra))), t) \<and> wf_store t
    \<and> files t = (files s)(i \<mapsto> appended (files s i) extra)"
proof -
  have fresh: ?thesis if "one_extent s i" "append_to_inode i extra s = st_write i extra s" "appended (files s i) extra = extra"
    using st_write_ok [OF assms(1) that(1) assms(2,5,6)] that(2,3) by simp
  show ?thesis
  proof (cases "om_get (st_records s) i")
    case None
    then show ?thesis
      using assms(4) by (intro fresh) (simp_all add: one_extent_def append_to_inode_def appended_def files_def)
  next
    case (Some r)
    have w: "wf_device s" "wf_record (block_bytes_of s) (length (compat_image s)) r"
      using assms(1) wf_files_D(1) [OF _ Some] by (simp_all add: wf_store_def)
    show ?thesis
    proof (cases "br_extents r = []")
      case True
      then show ?thesis
        using assms(4) Some by (intro fresh) (simp_all add: one_extent_def append_to_inode_def appended_def files_def rec_bytes_def)
    next
      case False
      have len: "of_nat (length (rec_bytes (block_bytes_of s) (compat_image s) r)) = br_logical_size r"
        using read_record_ok(2) [OF w] by simp
      obtain t where "append_to_inode i extra s = (Ok (br_logical_size r + of_nat (length extra)), t)" "wf_store t"
        "files t = (files s)(i \<mapsto> rec_bytes (block_bytes_of s) (compat_image s) r @ extra)"
        using append_extent_ok [OF assms(1,2) Some False _ assms(4-6)] assms(3) Some by blast
      then show ?thesis
        using len by (simp add: record_bytes [OF Some] appended_def)
    qed
  qed
qed

section \<open>A removal\<close>

lemma st_remove_ok:
  assumes "wf_store s" "one_extent s i" "counts_below s" "om_get (st_records s) i = Some r"
  shows "\<exists>t x. st_remove i s = (map_result Some x, t) \<and> wf_store t \<and> files t = (files s)(i := None)
    \<and> available t = available s \<union> rec_span r \<and> x = from_record_and_bytes r (the (files s i))"
proof -
  have w: "wf_space s" "wf_device s" "wf_files s"
    using assms(1) by (simp_all add: wf_store_def)
  note old = wf_files_D [OF w(3) assms(4)]
  let ?t = "s\<lparr>st_records := om_remove i (st_records s)\<rparr>"
  have one: "length (br_extents r) \<le> 1"
    using assms(2,4) by (simp add: one_extent_def)
  have ts: "wf_space ?t" "available ?t = available s" "counts_below ?t"
    using w(1) assms(3) by (simp_all add: wf_space_def available_def counts_below_def)
  obtain u where u: "release_record r ?t = (Ok (), u)" "wf_space u" "same_records ?t u" "counts_below u"
    "available u = available s \<union> rec_span r"
    using release_record_ok [OF ts(1) one _ ts(3)] old(2) unfolding ts(2) by blast
  have us: "st_records u = om_remove i (st_records s)" "st_compat_device u = st_compat_device s" "st_block_size u = st_block_size s"
    using u(3) by (simp_all add: same_records_def)
  have ok: "om_ok (st_records s)"
    using w(3) by (simp add: wf_files_def)
  have "wf_device u" "old_span s i = rec_span r"
    using w(2) assms(4) by (simp_all add: wf_device_def us old_span_def)
  then have "wf_store u" "files u = (files s)(i := map_option (rec_bytes (block_bytes_of s) (compat_image u)) None)"
    using u(5) om.remove_law [OF ok] by (intro replace_file [OF assms(1) u(2), where i = i and x = None]; simp add: us)+
  moreover have "st_remove i s = (map_result Some (from_record_and_bytes r (the (files s i))), u)"
    using assms(4) u(1) read_record_ok(1) [OF w(2) old(1)] record_bytes [OF assms(4)]
    by (simp add: st_remove_def cbind_run(1) [where m = "cread _"] cthen_run(1) [where m = "cmod _"] cthen_run(1) [where m = "release_record _"]
        cbind_def split: result.split)
  ultimately show ?thesis
    using u(5) by (intro exI [of _ u] exI [of _ "from_record_and_bytes r (the (files s i))"]) simp
qed

end
