(* ===== verification/Block_Store_Range.thy ===== *)
theory Block_Store_Range
  imports Block_Store_Append
begin

text \<open>
  A range read through whole sectors is the slice of the file.
\<close>

section \<open>Alignment\<close>

lemma align_down_ok:
  assumes "0 < unat g"
  shows "unat g dvd unat (align_down_u64 v g)" "unat (align_down_u64 v g) \<le> unat v"
proof -
  have "unat (v mod g) \<le> unat v"
    by (simp add: unat_mod)
  then have "unat (align_down_u64 v g) = unat v - unat v mod unat g"
    using assms by (auto simp: align_down_u64_def unat_sub_if' unat_mod)
  then show "unat g dvd unat (align_down_u64 v g)" "unat (align_down_u64 v g) \<le> unat v"
    by (simp_all add: minus_mod_eq_mult_div)
qed

lemma multiple_above:
  fixes g v m :: nat
  assumes "0 < g" "g dvd m" "v \<le> m" "v mod g \<noteq> 0"
  shows "v + (g - v mod g) \<le> m"
proof -
  obtain k where k: "m = g * k"
    using assms(2) by blast
  have "v div g < k"
  proof (rule ccontr)
    assume "\<not> v div g < k"
    then have "g * k \<le> g * (v div g)"
      by simp
    then show False
      using assms(3,4) k mult_div_mod_eq [of g v] by linarith
  qed
  then have "g * (v div g + 1) \<le> g * k"
    by (intro mult_left_mono) simp_all
  moreover have "v + (g - v mod g) = g * (v div g) + g"
    using mult_div_mod_eq [of g v] mod_less_divisor [OF assms(1), of v] by linarith
  ultimately show ?thesis
    using k by simp
qed

lemma align_up_ok:
  assumes "0 < unat g" "unat g dvd m" "unat v \<le> m" "m < 2 ^ 64"
  shows "\<exists>w. align_up_u64 v g = Ok w \<and> unat g dvd unat w \<and> unat v \<le> unat w \<and> unat w \<le> m"
proof (cases "unat v mod unat g = 0")
  case True
  then have "v mod g = 0"
    by (simp add: word_unat_eq_iff unat_mod)
  then show ?thesis
    using True assms by (simp add: align_up_u64_def dvd_eq_mod_eq_0)
next
  case False
  let ?w = "v + (g - v mod g)"
  have g: "g \<noteq> 0" "v mod g \<noteq> 0"
    using assms(1) False by (auto simp: word_unat_eq_iff unat_mod)
  have d: "unat (g - v mod g) = unat g - unat v mod unat g"
    using mod_less_divisor [OF assms(1), of "unat v"] by (simp add: unat_sub_if' unat_mod)
  have le: "unat v + (unat g - unat v mod unat g) \<le> m"
    by (rule multiple_above [OF assms(1-3) False])
  then have w: "unat ?w = unat v + (unat g - unat v mod unat g)"
    using assms(4) d by (simp add: unat_add_ok)
  have "align_up_u64 v g = Ok ?w"
    using g le d assms(4) by (simp add: align_up_u64_def uadd_def)
  moreover have "unat v + (unat g - unat v mod unat g) = unat g * (unat v div unat g) + unat g"
    using mult_div_mod_eq [of "unat g" "unat v"] mod_less_divisor [OF assms(1), of "unat v"] by linarith
  ultimately show ?thesis
    using le w by simp
qed

lemma sat_add_nat:
  fixes a b :: u64
  shows "unat (sat_add a b) = min (unat a + unat b) (2 ^ 64 - 1)"
  using unat_add_ok [of a b] by (auto simp: sat_add_def unsigned_minus_1_eq_mask mask_eq_exp_minus_1)

section \<open>Part of an extent\<close>

lemma read_part_ok:
  assumes "wf_device s" "wf_extent (block_bytes_of s) (length (compat_image s)) e"
    and "unat a \<le> unat b" "unat b \<le> unat (er_logical_len e)"
  shows "read_part e a b s = Ok (cut (unat a) (unat b - unat a) (ext_content (block_bytes_of s) (compat_image s) e))"
proof -
  let ?B = "block_bytes_of s" and ?p = "er_physical_block e" and ?img = "compat_image s"
  let ?ss = "ucast (dev_sector_size mem_ops (st_compat_device s)) :: u64"
  note mem = wf_device_mem [OF assms(1)]
  have fit: "unat ?p * ?B + unat b \<le> length ?img"
    using assms(2,4) by (simp add: wf_extent_def add_mult_distrib)
  let ?base = "?p * st_block_size s"
  have base: "umul ?p (st_block_size s) = Ok ?base" "unat ?base = unat ?p * ?B"
    using fit mem(3) by (simp_all add: umul_def unat_mul_ok)
  let ?off = "?base + a" and ?n = "b - a"
  have off: "uadd ?base a = Ok ?off" "unat ?off = unat ?p * ?B + unat a"
    using fit mem(3) base(2) assms(3) by (simp_all add: uadd_def unat_add_ok)
  have n: "usub b a = Ok ?n" "unat ?n = unat b - unat a"
    using assms(3) by (simp_all add: usub_def unat_sub_if' word_le_nat_alt)
  have stop: "unat (sat_add ?off ?n) = unat ?p * ?B + unat b"
    unfolding sat_add_nat off(2) n(2) using fit mem(3) assms(3) by simp
  have ss: "0 < unat ?ss" "unat ?ss dvd length ?img" "unat ?ss = unat (dg_sector_size (md_geometry (st_compat_device s)))"
    using mem(1) by (auto simp: dev_sector_size_def unat_ucast_u32 mem_ok_def)
  let ?lo = "align_down_u64 ?off ?ss"
  note lo = align_down_ok [OF ss(1), of ?off]
  obtain hi where hi: "align_up_u64 (sat_add ?off ?n) ?ss = Ok hi" "unat ?ss dvd unat hi" "unat (sat_add ?off ?n) \<le> unat hi" "unat hi \<le> length ?img"
    using align_up_ok [OF ss(1,2) _ mem(3), of "sat_add ?off ?n"] stop fit by auto
  have w: "usub hi ?lo = Ok (hi - ?lo)" "unat (hi - ?lo) = unat hi - unat ?lo" "unat ?lo \<le> unat hi"
    using lo(2) hi(3) stop off(2) assms(3) by (simp_all add: usub_def unat_sub_if' word_le_nat_alt)
  have cap: "hi \<le> compat_capacity s"
    using hi(4) mem(2) by (simp add: word_le_nat_alt)
  have r: "mem_read_at (st_compat_device s) ?lo (hi - ?lo) = Ok (cut (unat ?lo) (unat hi - unat ?lo) ?img)"
    using mem(1) lo(1) hi(2,4) w(2,3) ss(3) by (subst mem_read_eq) (auto simp: mem_ok_def)
  have d: "usub ?off ?lo = Ok (?off - ?lo)" "unat (?off - ?lo) = unat ?off - unat ?lo"
    using lo(2) by (simp_all add: usub_def unat_sub_if' word_le_nat_alt)
  have "cut_res (unat ?off - unat ?lo) (unat b - unat a) (cut (unat ?lo) (unat hi - unat ?lo) ?img) = Ok (cut (unat ?off) (unat b - unat a) ?img)"
  proof -
    have "unat ?off - unat ?lo + (unat b - unat a) \<le> unat hi - unat ?lo"
      using hi(3) stop off(2) assms(3) lo(2) by linarith
    then show ?thesis
      using hi(4) lo(2) w(3) by (simp add: cut_res_def cut_cut)
  qed
  moreover have "cut (unat ?off) (unat b - unat a) ?img = cut (unat a) (unat b - unat a) (ext_content ?B ?img e)"
    unfolding ext_content_def using assms(3,4) off(2) by (subst cut_cut) simp_all
  ultimately show ?thesis
    using base(1) off(1) n hi(1) cap w(1) r d by (simp add: read_part_def Let_def)
qed

section \<open>The loop over the extents\<close>

text \<open>The slice \<open>[lo, hi)\<close> of a list that starts at position \<open>c\<close>.\<close>

definition slice :: "nat \<Rightarrow> nat \<Rightarrow> nat \<Rightarrow> 'a list \<Rightarrow> 'a list" where
  "slice c lo hi xs = cut (lo - c) (hi - max lo c) xs"

lemma slice_simps:
  "hi \<le> c \<Longrightarrow> slice c lo hi xs = []"
  "slice c lo hi [] = []"
  by (simp_all add: slice_def cut_def)

lemma slice_append:
  "slice c lo hi (xs @ ys) = slice c lo (min hi (c + length xs)) xs @ slice (c + length xs) lo hi ys"
proof (cases "lo \<le> c + length xs")
  case True
  then have "min (hi - max lo c) (length xs - (lo - c)) = min hi (c + length xs) - max lo c"
    by (auto simp: max_def min_def)
  moreover have "take (hi - (max lo c + (length xs - (lo - c)))) ys = take (hi - (c + length xs)) ys"
    by (rule arg_cong [where f = "\<lambda>n. take (hi - n) ys"]) (use True in \<open>auto simp: max_def\<close>)
  moreover have "take (hi - max lo c) (drop (lo - c) xs) = take (min hi (c + length xs) - max lo c) (drop (lo - c) xs)"
    by (rule take_equalityI) (auto simp: min_def max_def)
  ultimately show ?thesis
    using True by (simp add: slice_def cut_def max_absorb2)
next
  case False
  then show ?thesis
    by (simp add: slice_def cut_def max_def)
qed

lemma ext_content_length:
  "wf_extent B (length img) e \<Longrightarrow> length (ext_content B img e) = unat (er_logical_len e)"
  by (auto simp: wf_extent_def ext_content_def add_mult_distrib)

lemma read_range_loop_ok:
  assumes "wf_device s" "\<forall>e \<in> set es. wf_extent (block_bytes_of s) (length (compat_image s)) e"
    and "unat cur + (\<Sum>e\<leftarrow>es. unat (er_logical_len e)) < 2 ^ 64" "unat off < unat req"
  shows "read_range_loop es off req cur out s
    = Ok (out @ slice (unat cur) (unat off) (unat req) (concat (map (ext_content (block_bytes_of s) (compat_image s)) es)))"
  using assms(2,3)
proof (induction es arbitrary: cur out)
  case Nil
  show ?case
    by (simp add: slice_simps)
next
  case (Cons e es)
  let ?bytes = "ext_content (block_bytes_of s) (compat_image s)"
  let ?fin = "sat_add cur (ucast (er_logical_len e))"
  have e: "unat ?fin = unat cur + unat (er_logical_len e)"
    using Cons.prems(2) by (simp add: sat_add_def unat_add_ok unat_ucast_u32)
  have len: "length (?bytes e) = unat (er_logical_len e)"
    using ext_content_length Cons.prems(1) by simp
  have IH: "read_range_loop es off req ?fin out' s = Ok (out' @ slice (unat ?fin) (unat off) (unat req) (concat (map ?bytes es)))" for out'
    by (rule Cons.IH) (use Cons.prems e in simp_all)
  have split: "slice (unat cur) (unat off) (unat req) (concat (map ?bytes (e # es)))
      = slice (unat cur) (unat off) (min (unat req) (unat ?fin)) (?bytes e) @ slice (unat ?fin) (unat off) (unat req) (concat (map ?bytes es))"
    using slice_append [of "unat cur" "unat off" "unat req" "?bytes e"] len e by simp
  consider "req \<le> cur" | "\<not> req \<le> cur" "off \<ge> ?fin" | "\<not> req \<le> cur" "\<not> off \<ge> ?fin"
    by blast
  then show ?case
  proof cases
    case 1
    then show ?thesis
      by (simp add: slice_simps(1) word_le_nat_alt)
  next
    case 2
    then have "slice (unat cur) (unat off) (min (unat req) (unat ?fin)) (?bytes e) = []"
      by (simp add: slice_def cut_def word_le_nat_alt)
    then show ?thesis
      unfolding split using 2 IH by (simp add: Let_def)
  next
    case 3
    let ?a = "sat_sub off cur" and ?b = "sat_sub (min req ?fin) cur"
    have m: "unat (min req ?fin) = min (unat req) (unat ?fin)"
      by (simp add: min_def word_le_nat_alt)
    have a: "unat ?a = unat off - unat cur"
      by (auto simp: sat_sub_def unat_sub_if' word_le_nat_alt)
    have b: "unat ?b = min (unat req) (unat ?fin) - unat cur"
      unfolding m [symmetric] by (auto simp: sat_sub_def unat_sub_if' word_le_nat_alt)
    have lt: "unat ?a < unat ?b" "unat ?b \<le> unat (er_logical_len e)"
      using 3 a b e assms(4) Cons.prems(1) by (auto simp: word_le_nat_alt wf_extent_def)
    then have "\<not> ?b \<le> ?a"
      by (simp add: word_le_nat_alt)
    moreover have "read_part e ?a ?b s = Ok (cut (unat ?a) (unat ?b - unat ?a) (?bytes e))"
      using Cons.prems(1) lt by (intro read_part_ok assms(1)) simp_all
    moreover have "cut (unat ?a) (unat ?b - unat ?a) (?bytes e) = slice (unat cur) (unat off) (min (unat req) (unat ?fin)) (?bytes e)"
      unfolding slice_def a b by (rule arg_cong [where f = "\<lambda>n. cut (unat off - unat cur) n (?bytes e)"]) (simp add: max_def)
    ultimately show ?thesis
      unfolding split using 3 IH by (simp add: Let_def)
  qed
qed

lemma read_range_ok:
  assumes "wf_store s" "files s i = Some b"
  shows "read_range i off n s = Ok (Some (cut (unat off) (unat n) b))"
proof -
  obtain r where r: "om_get (st_records s) i = Some r" "b = rec_bytes (block_bytes_of s) (compat_image s) r"
    using assms(2) by (auto simp: files_def)
  have w: "wf_device s" "wf_record (block_bytes_of s) (length (compat_image s)) r"
    using assms(1) wf_files_D(1) [OF _ r(1)] by (simp_all add: wf_store_def)
  have len: "length b = unat (br_logical_size r)"
    using read_record_ok(2) [OF w] r(2) by simp
  show ?thesis
  proof (cases "n = 0 \<or> off \<ge> br_logical_size r")
    case True
    then have "cut (unat off) (unat n) b = []"
      using len by (auto simp: cut_def word_le_nat_alt)
    then show ?thesis
      using True r(1) by (simp add: read_range_def)
  next
    case False
    let ?req = "min (sat_add off n) (br_logical_size r)"
    have n0: "0 < unat n"
      using False by (simp add: unat_gt_0)
    have req: "unat ?req = min (unat off + unat n) (length b)"
      using len unat_u64_lt [of "br_logical_size r"] sat_add_nat [of off n] by (auto simp: min_def word_le_nat_alt)
    have "read_range_loop (br_extents r) off ?req 0 [] s = Ok ([] @ slice (unat (0 :: u64)) (unat off) (unat ?req) b)"
      unfolding r(2) rec_bytes_def using w False n0 req len unat_u64_lt [of "br_logical_size r"]
      by (intro read_range_loop_ok) (auto simp: wf_record_def word_le_nat_alt not_le)
    moreover have "slice (unat (0 :: u64)) (unat off) (unat ?req) b = cut (unat off) (unat n) b"
      unfolding req by (simp add: slice_def cut_def min_def)
    ultimately show ?thesis
      using False r(1) by (simp add: read_range_def)
  qed
qed

end
