(* ===== verification/Block_Store_Ops.thy ===== *)
theory Block_Store_Ops
  imports Block_Store
begin

text \<open>
  The other operations of the block store: writes of a range, the operations on a device of the caller, the
  constructors from saved records, clones, the checksum table's reports and the compaction.
\<close>

section \<open>Writing a range of the internal device\<close>

text \<open>\<open>write_compat_extent_range\<close>: the sectors around the range are read, patched and written if they changed.\<close>

definition grow_aligned :: "u64 \<Rightarrow> u64 \<Rightarrow> (block_store, unit) cmd" where
  "grow_aligned aligned_end sector s =
    (if aligned_end > compat_capacity s then
       cbind (clift (align_up_u64 (max (sat_mul (compat_capacity s) 2) aligned_end) sector)) (\<lambda>aligned.
         on_compat (mem_resize aligned)) s
     else (Ok (), s))"

definition write_compat_extent_range :: "extent_ref \<Rightarrow> u64 \<Rightarrow> bytes \<Rightarrow> (block_store, bool) cmd" where
  "write_compat_extent_range e in_extent_start dat s =
    (if dat = [] then (Ok False, s)
     else
       let physical_start = sat_add (sat_mul (er_physical_block e) (st_block_size s)) in_extent_start;
           physical_end = sat_add physical_start (of_nat (length dat));
           sector = ucast (dev_sector_size mem_ops (st_compat_device s));
           aligned_start = align_down_u64 physical_start sector in
       cbind (clift (align_up_u64 physical_end sector)) (\<lambda>aligned_end.
       cthen (grow_aligned aligned_end sector)
      (cbind (clift (usub aligned_end aligned_start)) (\<lambda>n.
       cbind (cread (\<lambda>s. mem_read_at (st_compat_device s) aligned_start n)) (\<lambda>block.
       cbind (clift (usub physical_start aligned_start)) (\<lambda>start.
       if unat start + length dat > length block then clift Panic
       else if cut (unat start) (length dat) block = dat then cret False
       else cthen (on_compat (mem_write_at aligned_start (put (unat start) dat block))) (cret True)))))) s)"

definition compat_extent_crc :: "extent_ref \<Rightarrow> block_store \<Rightarrow> u32 result" where
  "compat_extent_crc e s =
    (if er_physical_len e = 0 then Ok 0
     else
       rbind (mem_read_at (st_compat_device s) (sat_mul (er_physical_block e) (st_block_size s))
                (sat_mul (ucast (er_length_blocks e)) (st_block_size s))) (\<lambda>bs.
         Ok (crc_hash (take (unat (er_physical_len e)) bs))))"

definition compat_record_crc :: "block_record \<Rightarrow> block_store \<Rightarrow> u32 result" where
  "compat_record_crc r s = rbind (read_bytes_internal r s) (\<lambda>b. Ok (content_crc b))"

text \<open>
  The loop over the extents from position \<open>cursor\<close>: the extents with their new checksums, the number of bytes
  written and whether any sector changed.
\<close>

primrec write_range_loop :: "extent_ref list \<Rightarrow> u64 \<Rightarrow> u64 \<Rightarrow> bytes \<Rightarrow> u64 \<Rightarrow> u64 \<Rightarrow> bool
    \<Rightarrow> (block_store, extent_ref list \<times> u64 \<times> bool) cmd" where
  "write_range_loop [] offset write_end dat cursor written changed = cret ([], written, changed)"
| "write_range_loop (e # es) offset write_end dat cursor written changed =
    (let ext_end = sat_add cursor (ucast (er_logical_len e));
         skip = cbind (write_range_loop es offset write_end dat ext_end written changed)
                  (\<lambda>(es', n, ch). cret (e # es', n, ch));
         overlap_start = max offset cursor; overlap_end = min write_end ext_end in
     if write_end \<le> cursor then cret (e # es, written, changed)
     else if offset \<ge> ext_end then skip
     else if overlap_start \<ge> overlap_end then skip
     else
       let src_start = overlap_start - offset; src_len = overlap_end - overlap_start in
       cbind (clift (cut_res (unat src_start) (unat src_len) dat)) (\<lambda>src.
       cbind (write_compat_extent_range e (overlap_start - cursor) src) (\<lambda>ch.
       cbind (if ch then cread (compat_extent_crc e) else cret (er_content_crc e)) (\<lambda>crc.
       cbind (clift (uadd written src_len)) (\<lambda>written'.
       cbind (write_range_loop es offset write_end dat ext_end written' (changed \<or> ch)) (\<lambda>(es', n, ch').
         cret (e\<lparr>er_content_crc := crc\<rparr> # es', n, ch')))))))"

abbreviation range_outcome :: "bool \<Rightarrow> u64 \<Rightarrow> range_write_outcome" where
  "range_outcome changed n \<equiv> \<lparr>rw_size = n, rw_changed = changed\<rparr>"

definition changed_size :: "(block_store, u64) cmd \<Rightarrow> (block_store, range_write_outcome) cmd" where
  "changed_size m = cbind m (\<lambda>n. cret (range_outcome True n))"

definition overflow_checked :: "u64 \<Rightarrow> u64 \<Rightarrow> u64 result" where
  "overflow_checked a b =
    (case checked_add a b of None \<Rightarrow> Err (InvalidInput ''block store write offset overflow'') | Some n \<Rightarrow> Ok n)"

definition write_range_fallback :: "inode_id \<Rightarrow> u64 \<Rightarrow> bytes \<Rightarrow> (block_store, range_write_outcome) cmd" where
  "write_range_fallback inode offset dat =
     cbind (cread (st_read inode)) (\<lambda>found.
     let existing = (case found of None \<Rightarrow> [] | Some r \<Rightarrow> ob_bytes r) in
     cbind (clift (overflow_checked offset (of_nat (length dat)))) (\<lambda>write_end.
     let new_size = max write_end (of_nat (length existing)) in
     if new_size > MAX_RMW_BYTES then cfail (InvalidInput ''block store random write would materialize bytes'')
     else
       let bs = put (unat offset) dat (existing @ zeros (unat new_size - length existing)) in
       if existing = bs then cret (range_outcome False (of_nat (length existing)))
       else changed_size (st_write inode bs)))"

definition write_range_in_place :: "inode_id \<Rightarrow> block_record \<Rightarrow> u64 \<Rightarrow> u64 \<Rightarrow> bytes \<Rightarrow> (block_store, range_write_outcome) cmd" where
  "write_range_in_place inode r offset write_end dat =
     cbind (write_range_loop (br_extents r) offset write_end dat 0 0 False) (\<lambda>(es, written, changed).
     if written \<noteq> of_nat (length dat) then write_range_fallback inode offset dat
     else if \<not> changed then cret (range_outcome False (br_logical_size r))
     else
       cthen (if es = [] then cret () else cmod (dedup_release (br_content_crc r)))
      (cbind (cread (compat_record_crc (r\<lparr>br_extents := es\<rparr>))) (\<lambda>crc.
       cthen (case es of [e] \<Rightarrow> dedup_insert crc (er_physical_block e) (er_length_blocks e) (er_physical_len e) | _ \<Rightarrow> cret ())
      (cthen (put_record inode (r\<lparr>br_extents := es, br_content_crc := crc\<rparr>))
             (cret (range_outcome True (br_logical_size r)))))))"

definition write_range_report :: "inode_id \<Rightarrow> u64 \<Rightarrow> bytes \<Rightarrow> (block_store, range_write_outcome) cmd" where
  "write_range_report inode offset dat s =
    (if dat = [] then (Ok (range_outcome False (record_size inode s)), s)
     else
       case om_get (st_records s) inode of
         None \<Rightarrow> if offset = 0 then changed_size (st_write inode dat) s else write_range_fallback inode offset dat s
       | Some r \<Rightarrow>
           let current_size = br_logical_size r in
           cbind (clift (overflow_checked offset (of_nat (length dat)))) (\<lambda>write_end.
             if offset = current_size then changed_size (append_to_inode inode dat)
             else if offset = 0 \<and> write_end \<ge> current_size then changed_size (st_write inode dat)
             else if offset > current_size \<or> write_end > current_size then write_range_fallback inode offset dat
             else if \<not> plain_record r then write_range_fallback inode offset dat
             else write_range_in_place inode r offset write_end dat) s)"

definition write_range :: "inode_id \<Rightarrow> u64 \<Rightarrow> bytes \<Rightarrow> (block_store, u64) cmd" where
  "write_range inode offset dat = cbind (write_range_report inode offset dat) (\<lambda>x. cret (rw_size x))"

definition resize_inode :: "inode_id \<Rightarrow> u64 \<Rightarrow> (block_store, u64) cmd" where
  "resize_inode inode new_size s =
    (let current_size = record_size inode s in
     if new_size = current_size then (Ok new_size, s)
     else if new_size > current_size then append_to_inode inode (zeros (unat (new_size - current_size))) s
     else if new_size > MAX_RMW_BYTES then (Err (InvalidInput ''block store truncate would materialize bytes''), s)
     else
       cbind (cread (read_range inode 0 new_size)) (\<lambda>prefix.
         st_write inode (case prefix of None \<Rightarrow> [] | Some b \<Rightarrow> b)) s)"

section \<open>The operations on a device of the caller\<close>

text \<open>The store and the device; blocks are \<open>BLOCK_SIZE\<close> bytes whatever the store's own block size.\<close>

abbreviation on_store :: "(block_store, 'a) cmd \<Rightarrow> (block_store \<times> 'd, 'a) cmd" where
  "on_store \<equiv> czoom fst (\<lambda>s x. (s, snd x))"

abbreviation on_device :: "('d, 'a) cmd \<Rightarrow> (block_store \<times> 'd, 'a) cmd" where
  "on_device \<equiv> czoom snd (\<lambda>d x. (fst x, d))"

abbreviation device_block :: u64 where "device_block \<equiv> BLOCK_SIZE"

definition read_extent_device :: "'d device_ops \<Rightarrow> 'd \<Rightarrow> extent_ref \<Rightarrow> bytes result" where
  "read_extent_device ops d e =
     rbind (umul (er_physical_block e) device_block) (\<lambda>byte_offset.
     rbind (umul (ucast (er_length_blocks e)) device_block) (\<lambda>read_len.
     rbind (op_read_at ops d byte_offset read_len) (\<lambda>buf. Ok (take (unat (er_logical_len e)) buf))))"

definition read_all_from_device :: "'d device_ops \<Rightarrow> 'd \<Rightarrow> block_record \<Rightarrow> bytes result" where
  "read_all_from_device ops d r =
    (if br_extents r = [] \<or> br_logical_size r = 0 then Ok []
     else rbind (rfor (\<lambda>e out. rbind (read_extent_device ops d e) (\<lambda>b. Ok (out @ b))) (br_extents r) [])
            (\<lambda>out. Ok (take (unat (br_logical_size r)) out)))"

definition read_all :: "'d device_ops \<Rightarrow> 'd \<Rightarrow> inode_id \<Rightarrow> block_store \<Rightarrow> bytes result" where
  "read_all ops d inode s =
    (case om_get (st_records s) inode of None \<Rightarrow> Ok [] | Some r \<Rightarrow> read_all_from_device ops d r)"

text \<open>\<open>unwrap_or_default\<close>: an unreadable file counts as empty.\<close>

definition read_all_or_empty :: "'d device_ops \<Rightarrow> inode_id \<Rightarrow> (block_store \<times> 'd, bytes) cmd" where
  "read_all_or_empty ops inode =
     cread (\<lambda>(s, d). case read_all ops d inode s of Ok b \<Rightarrow> Ok b | Err _ \<Rightarrow> Ok [] | Panic \<Rightarrow> Panic)"

definition write_blocks_device :: "'d device_ops \<Rightarrow> u64 \<Rightarrow> u64 \<Rightarrow> bytes \<Rightarrow> (block_store \<times> 'd, unit) cmd" where
  "write_blocks_device ops phys_block allocated_blocks bs =
     cbind (clift (umul allocated_blocks device_block)) (\<lambda>padded_len.
     cbind (clift (umul phys_block device_block)) (\<lambda>byte_offset.
       on_device (op_write_at ops byte_offset (pad_to padded_len bs))))"

definition release_old :: "inode_id \<Rightarrow> (block_store, unit) cmd" where
  "release_old inode s =
    (case om_get (st_records s) inode of
       None \<Rightarrow> (Ok (), s)
     | Some r \<Rightarrow> cthen (drop_record inode) (release_record r) s)"

definition write_device :: "'d device_ops \<Rightarrow> inode_id \<Rightarrow> bytes \<Rightarrow> (block_store \<times> 'd, unit) cmd" where
  "write_device ops inode bs =
    (let len = of_nat (length bs); crc = content_crc bs in
     cbind (clift (needed_blocks len device_block)) (\<lambda>needed.
     cthen (on_store (release_old inode))
    (cbind (on_store (callocate needed)) (\<lambda>(phys_block, allocated_blocks).
     cthen (if len > 0 then write_blocks_device ops phys_block allocated_blocks bs else cret ())
    (cthen (on_store (dedup_insert crc phys_block (ucast allocated_blocks) (ucast len)))
           (on_store (put_record inode (whole_record inode phys_block allocated_blocks len crc))))))))"

text \<open>The end of an append when the last extent has room in its blocks.\<close>

definition fill_last :: "'d device_ops \<Rightarrow> bytes \<Rightarrow> extent_ref \<Rightarrow> (block_store \<times> 'd, extent_ref \<times> bytes) cmd" where
  "fill_last ops remaining l =
    (let capacity = sat_mul (ucast (er_length_blocks l)) device_block; used = ucast (er_physical_len l);
         tail_len = min (length remaining) (unat (capacity - used)) in
     if er_flags l = 0 \<and> used < capacity \<and> tail_len > 0 then
       cbind (clift (umul (er_physical_block l) device_block)) (\<lambda>block_offset.
       cbind (clift (umul (ucast (er_length_blocks l)) device_block)) (\<lambda>block_len.
       cbind (cread (\<lambda>x. op_read_at ops (snd x) block_offset block_len)) (\<lambda>block.
       if unat used + tail_len > length block then clift Panic
       else
         let block' = put (unat used) (take tail_len remaining) block;
             n = sat_add (er_physical_len l) (of_nat tail_len) in
         cthen (on_device (op_write_at ops block_offset block'))
        (cbind (clift (cut_res 0 (unat n) block')) (\<lambda>written.
           cret (l\<lparr>er_logical_len := sat_add (er_logical_len l) (of_nat tail_len), er_physical_len := n,
                    er_content_crc := crc_hash written\<rparr>,
                 drop tail_len remaining))))))
     else cret (l, remaining))"

definition append_rest :: "'d device_ops \<Rightarrow> extent_ref list \<Rightarrow> bytes \<Rightarrow> (block_store \<times> 'd, extent_ref list) cmd" where
  "append_rest ops es remaining =
    (if remaining = [] then cret es
     else
       cbind (clift (udiv_ceil (of_nat (length remaining)) device_block)) (\<lambda>needed.
       cbind (on_store (callocate (max needed 1))) (\<lambda>(new_phys, new_alloc).
       cthen (write_blocks_device ops new_phys new_alloc remaining)
      (cbind (clift (rfor (\<lambda>e n. uadd n (er_length_blocks e)) es 0)) (\<lambda>logical_block.
         cret (es @ [\<lparr>er_logical_block = logical_block, er_logical_len = of_nat (length remaining),
                      er_physical_block = new_phys, er_length_blocks = ucast new_alloc,
                      er_physical_len = of_nat (length remaining), er_content_crc = crc_hash remaining, er_flags = 0\<rparr>]))))))"

definition append_device :: "'d device_ops \<Rightarrow> inode_id \<Rightarrow> bytes \<Rightarrow> (block_store \<times> 'd, u64) cmd" where
  "append_device ops inode extra x =
    (if extra = [] then (Ok (record_size inode (fst x)), x)
     else
       case om_get (st_records (fst x)) inode of
         None \<Rightarrow> cthen (write_device ops inode extra) (cret (of_nat (length extra))) x
       | Some r \<Rightarrow>
           if br_extents r = [] \<or> br_logical_size r = 0
           then cthen (write_device ops inode extra) (cret (of_nat (length extra))) x
           else if \<not> plain_record r then
             cbind (cread (\<lambda>(s, d). read_all_from_device ops d r)) (\<lambda>b.
               cthen (write_device ops inode (b @ extra)) (cret (of_nat (length (b @ extra))))) x
           else
             cthen (on_store (cmod (dedup_release (br_content_crc r))))
            (cbind (fill_last ops extra (last (br_extents r))) (\<lambda>(l, remaining).
             cbind (append_rest ops (butlast (br_extents r) @ [l]) remaining) (\<lambda>es.
             let rec' = r\<lparr>br_extents := es, br_logical_size := sat_add (br_logical_size r) (of_nat (length extra)),
                          br_content_crc := NOT (crc_update (NOT (br_content_crc r)) extra)\<rparr> in
             cthen (on_store (put_record inode rec')) (cret (br_logical_size rec'))))) x)"

definition write_at :: "'d device_ops \<Rightarrow> inode_id \<Rightarrow> u64 \<Rightarrow> bytes \<Rightarrow> (block_store \<times> 'd, unit) cmd" where
  "write_at ops inode offset dat x =
    (let current_size = record_size inode (fst x) in
     if dat = [] then (Ok (), x)
     else if offset = 0 \<and> of_nat (length dat) \<ge> current_size then write_device ops inode dat x
     else if offset = current_size then cthen (cdrop (append_device ops inode dat)) (cret ()) x
     else
       cbind (read_all_or_empty ops inode) (\<lambda>existing.
       cbind (clift (overflow_checked offset (of_nat (length dat)))) (\<lambda>write_end.
       let new_size = max write_end (of_nat (length existing)) in
       if new_size > MAX_RMW_BYTES then cfail (InvalidInput ''block store random write would materialize bytes'')
       else
         write_device ops inode (put (unat offset) dat (existing @ zeros (unat new_size - length existing))))) x)"

text \<open>A range read: the destination and how much of it is filled.\<close>

definition read_part_device :: "'d device_ops \<Rightarrow> 'd \<Rightarrow> extent_ref \<Rightarrow> u64 \<Rightarrow> u64 \<Rightarrow> bytes result" where
  "read_part_device ops d e inside_extent n =
    (let sector = ucast (dev_sector_size ops d);
         physical_start = sat_add (sat_mul (er_physical_block e) device_block) inside_extent;
         aligned_start = align_down_u64 physical_start sector in
     rbind (align_up_u64 (sat_add physical_start n) sector) (\<lambda>aligned_end.
     rbind (usub aligned_end aligned_start) (\<lambda>read_len.
     rbind (op_read_at ops d aligned_start read_len) (\<lambda>buf.
     rbind (usub physical_start aligned_start) (\<lambda>slice_start. cut_res (unat slice_start) (unat n) buf)))))"

definition put_res :: "nat \<Rightarrow> bytes \<Rightarrow> bytes \<Rightarrow> bytes result" where
  "put_res off src buf = (if off + length src \<le> length buf then Ok (put off src buf) else Panic)"

primrec read_bytes_loop :: "'d device_ops \<Rightarrow> 'd \<Rightarrow> extent_ref list \<Rightarrow> u64 \<Rightarrow> u64 \<Rightarrow> u64 \<Rightarrow> bytes \<Rightarrow> u64 \<Rightarrow> (bytes \<times> u64) result" where
  "read_bytes_loop ops d [] offset wanted_end cursor out copied = Ok (out, copied)"
| "read_bytes_loop ops d (e # es) offset wanted_end cursor out copied =
    (let ext_len = min (ucast (er_logical_len e)) (ucast (er_physical_len e));
         ext_end = sat_add cursor ext_len;
         overlap_start = max offset cursor; overlap_end = min wanted_end ext_end in
     if ext_len = 0 \<or> ext_end \<le> offset then read_bytes_loop ops d es offset wanted_end ext_end out copied
     else if cursor \<ge> wanted_end then Ok (out, copied)
     else if overlap_start \<ge> overlap_end then read_bytes_loop ops d es offset wanted_end ext_end out copied
     else
       let n = overlap_end - overlap_start; out_start = overlap_start - offset in
       rbind (read_part_device ops d e (overlap_start - cursor) n) (\<lambda>part.
       rbind (put_res (unat out_start) part out) (\<lambda>out'.
         read_bytes_loop ops d es offset wanted_end ext_end out' (max copied (out_start + n)))))"

definition read_bytes_device :: "'d device_ops \<Rightarrow> 'd \<Rightarrow> inode_id \<Rightarrow> u64 \<Rightarrow> bytes \<Rightarrow> block_store \<Rightarrow> (bytes \<times> u64) result" where
  "read_bytes_device ops d inode offset out s =
    (case om_get (st_records s) inode of
       None \<Rightarrow> Ok (out, 0)
     | Some r \<Rightarrow>
         if out = [] \<or> offset \<ge> br_logical_size r then Ok (out, 0)
         else read_bytes_loop ops d (br_extents r) offset
                (min (sat_add offset (of_nat (length out))) (br_logical_size r)) 0 out 0)"

definition remove_inode :: "inode_id \<Rightarrow> (block_store, block_record option) cmd" where
  "remove_inode inode s =
    (case om_get (st_records s) inode of
       None \<Rightarrow> (Ok None, s)
     | Some r \<Rightarrow> cthen (drop_record inode) (cthen (release_record r) (cret (Some r))) s)"

definition truncate :: "'d device_ops \<Rightarrow> inode_id \<Rightarrow> u64 \<Rightarrow> (block_store \<times> 'd, unit) cmd" where
  "truncate ops inode new_size =
     cbind (read_all_or_empty ops inode) (\<lambda>existing.
       write_device ops inode (take (unat new_size) existing @ zeros (unat new_size - length existing)))"

definition verify_device :: "'d device_ops \<Rightarrow> 'd \<Rightarrow> inode_id \<Rightarrow> block_store \<Rightarrow> bool result" where
  "verify_device ops d inode s =
    (case om_get (st_records s) inode of
       None \<Rightarrow> Ok False
     | Some r \<Rightarrow>
         (case read_all_from_device ops d r of
            Ok b \<Rightarrow> Ok (content_crc b = br_content_crc r)
          | Err _ \<Rightarrow> Ok False
          | Panic \<Rightarrow> Panic))"

end
