(* ===== verification/Block_Store_Patch.thy ===== *)
theory Block_Store_Patch
  imports Block_Store_Range Block_Store_Ops
begin

text \<open>
  A write inside a file changes the bytes of its range and nothing else, whatever extents the file has.
\<close>

section \<open>Patched lists\<close>

text \<open>A list that starts at position \<open>c\<close>, with the bytes of \<open>d\<close> from position \<open>lo\<close> on where they overlap.\<close>

definition patch :: "nat \<Rightarrow> nat \<Rightarrow> 'a list \<Rightarrow> 'a list \<Rightarrow> 'a list" where
  "patch c lo d xs = map (\<lambda>k. if lo \<le> c + k \<and> c + k < lo + length d then d ! (c + k - lo) else xs ! k) [0..<length xs]"

definition overlap :: "nat \<Rightarrow> nat \<Rightarrow> nat \<Rightarrow> nat \<Rightarrow> nat" where
  "overlap lo hi c n = min hi (c + n) - max lo c"

lemma patch_append: "patch c lo d (xs @ ys) = patch c lo d xs @ patch (c + length xs) lo d ys"
  by (rule nth_equalityI) (auto simp: patch_def nth_append)

lemma patch_outside: "lo + length d \<le> c \<or> c + length xs \<le> lo \<Longrightarrow> patch c lo d xs = xs"
  by (rule nth_equalityI) (auto simp: patch_def)

lemma put_nth:
  assumes "off + length src \<le> length buf" "k < length buf"
  shows "put off src buf ! k = (if off \<le> k \<and> k < off + length src then src ! (k - off) else buf ! k)"
  using assms by (auto simp: put_def nth_append min_def)

lemma cut_nth: "k < n \<Longrightarrow> off + n \<le> length xs \<Longrightarrow> cut off n xs ! k = xs ! (off + k)"
  by (simp add: cut_def)

lemma patch_put:
  assumes "max lo c < min (lo + length d) (c + length xs)"
  shows "patch c lo d xs = put (max lo c - c) (cut (max lo c - lo) (min (lo + length d) (c + length xs) - max lo c) d) xs"
    (is "_ = put ?a (cut ?b ?n d) xs")
proof -
  have fit: "?b + ?n \<le> length d" "?a + ?n \<le> length xs"
    using assms by (auto simp: max_def min_def)
  then have len: "length (cut ?b ?n d) = ?n"
    by simp
  show ?thesis
  proof (rule nth_equalityI)
    fix k
    assume k: "k < length (patch c lo d xs)"
    then have "k < length xs"
      by (simp add: patch_def)
    then show "patch c lo d xs ! k = put ?a (cut ?b ?n d) xs ! k"
      using fit len by (subst put_nth) (auto simp: patch_def cut_nth max_def min_def add.commute split: if_splits)
  qed (use fit len in \<open>simp add: patch_def\<close>)
qed

lemma patch_whole: "lo + length d \<le> length xs \<Longrightarrow> patch 0 lo d xs = put lo d xs"
  by (rule nth_equalityI) (auto simp: patch_def put_nth)

lemma overlap_add: "lo \<le> hi \<Longrightarrow> overlap lo hi c (m + n) = overlap lo hi c m + overlap lo hi (c + m) n"
  by (auto simp: overlap_def min_def max_def)

lemma put_same: "off + length d \<le> length buf \<Longrightarrow> cut off (length d) buf = d \<Longrightarrow> put off d buf = buf"
  using buf_split [of off buf "length d"] by (simp add: put_def)

lemma put_put:
  assumes "lo \<le> off" "off + length d \<le> lo + n" "lo + n \<le> length buf"
  shows "put lo (put (off - lo) d (cut lo n buf)) buf = put off d buf"
proof (rule nth_equalityI)
  fix k
  assume "k < length (put lo (put (off - lo) d (cut lo n buf)) buf)"
  then have k: "k < length buf"
    using assms by simp
  show "put lo (put (off - lo) d (cut lo n buf)) buf ! k = put off d buf ! k"
  proof (cases "lo \<le> k \<and> k < lo + n")
    case True
    then have "put lo (put (off - lo) d (cut lo n buf)) buf ! k = put (off - lo) d (cut lo n buf) ! (k - lo)"
      using assms k by (subst put_nth) simp_all
    also have "\<dots> = put off d buf ! k"
      using True assms k by (subst put_nth, simp, simp, subst put_nth) (auto simp: cut_nth)
    finally show ?thesis .
  next
    case False
    then show ?thesis
      using assms k by (auto simp: put_nth)
  qed
qed (use assms in simp)

section \<open>The sectors of one extent\<close>

abbreviation with_image :: "block_store \<Rightarrow> bytes \<Rightarrow> block_store" where
  "with_image s img \<equiv> s\<lparr>st_compat_device := (st_compat_device s)\<lparr>md_data := img\<rparr>\<rparr>"

lemma with_image_same: "with_image s (compat_image s) = s"
  by simp

lemma write_compat_ok:
  assumes "wf_device s" "wf_extent (block_bytes_of s) (length (compat_image s)) e"
    and "dat \<noteq> []" "unat a + length dat \<le> unat (er_logical_len e)"
  shows "\<exists>ch. write_compat_extent_range e a dat s
    = (Ok ch, with_image s (put (unat (er_physical_block e) * block_bytes_of s + unat a) dat (compat_image s)))"
proof -
  let ?B = "block_bytes_of s" and ?p = "er_physical_block e" and ?img = "compat_image s"
  let ?ss = "ucast (dev_sector_size mem_ops (st_compat_device s)) :: u64"
  note mem = wf_device_mem [OF assms(1)]
  have fit: "unat ?p * ?B + unat a + length dat \<le> length ?img"
    using assms(2,4) by (simp add: wf_extent_def add_mult_distrib)
  let ?off = "sat_add (sat_mul ?p (st_block_size s)) a"
  have off: "unat ?off = unat ?p * ?B + unat a"
    unfolding sat_add_nat using fit mem(3) by (simp add: sat_mul_def unat_mul_ok)
  have len: "unat (of_nat (length dat) :: u64) = length dat"
    using fit mem(3) by (simp add: unat_of_nat_ok)
  have stop: "unat (sat_add ?off (of_nat (length dat))) = unat ?p * ?B + unat a + length dat"
    unfolding sat_add_nat [of ?off] off len using fit mem(3) by simp
  have ss: "0 < unat ?ss" "unat ?ss dvd length ?img" "unat ?ss = unat (dg_sector_size (md_geometry (st_compat_device s)))"
    using mem(1) by (auto simp: dev_sector_size_def unat_ucast_u32 mem_ok_def)
  let ?lo = "align_down_u64 ?off ?ss"
  note lo = align_down_ok [OF ss(1), of ?off]
  obtain hi where hi: "align_up_u64 (sat_add ?off (of_nat (length dat))) ?ss = Ok hi" "unat ?ss dvd unat hi"
    "unat (sat_add ?off (of_nat (length dat))) \<le> unat hi" "unat hi \<le> length ?img"
    using align_up_ok [OF ss(1,2) _ mem(3), of "sat_add ?off (of_nat (length dat))"] stop fit by auto
  have w: "usub hi ?lo = Ok (hi - ?lo)" "unat (hi - ?lo) = unat hi - unat ?lo" "unat ?lo \<le> unat hi"
    using lo(2) hi(3) stop off by (simp_all add: usub_def unat_sub_if' word_le_nat_alt)
  have cap: "grow_aligned hi ?ss s = (Ok (), s)"
    using hi(4) mem(2) by (simp add: grow_aligned_def word_less_nat_alt)
  let ?block = "cut (unat ?lo) (unat hi - unat ?lo) ?img"
  have r: "mem_read_at (st_compat_device s) ?lo (hi - ?lo) = Ok ?block"
    using mem(1) lo(1) hi(2,4) w(2,3) ss(3) by (subst mem_read_eq) (auto simp: mem_ok_def)
  have d: "usub ?off ?lo = Ok (?off - ?lo)" "unat (?off - ?lo) = unat ?off - unat ?lo"
    using lo(2) by (simp_all add: usub_def unat_sub_if' word_le_nat_alt)
  have inb: "unat ?off - unat ?lo + length dat \<le> unat hi - unat ?lo" "length ?block = unat hi - unat ?lo"
    using hi(3,4) stop off lo(2) w(3) by auto
  have whole: "put (unat ?lo) (put (unat ?off - unat ?lo) dat ?block) ?img = put (unat ?off) dat ?img"
    using inb lo(2) w(3) hi(4) hi(3) stop off by (intro put_put) linarith+
  have run: "write_compat_extent_range e a dat s
      = (if cut (unat ?off - unat ?lo) (length dat) ?block = dat then cret False
         else cthen (on_compat (mem_write_at ?lo (put (unat ?off - unat ?lo) dat ?block))) (cret True)) s"
    using assms(3) hi(1) cap w(1) r d inb
    by (simp add: write_compat_extent_range_def Let_def cbind_run(1) [where m = "clift _"] cbind_run(1) [where m = "cread _"]
        cthen_run(1) [where m = "grow_aligned _ _"])
  show ?thesis
  proof (cases "cut (unat ?off - unat ?lo) (length dat) ?block = dat")
    case True
    then have "cut (unat ?off) (length dat) ?img = dat"
      using inb(1) lo(2) by (simp add: cut_cut)
    then have "put (unat ?off) dat ?img = ?img"
      using fit off by (intro put_same) simp_all
    then show ?thesis
      using run True off by (intro exI [of _ False]) (simp add: cret_def)
  next
    case False
    have "mem_write_at ?lo (put (unat ?off - unat ?lo) dat ?block) (st_compat_device s)
        = (Ok (), (st_compat_device s)\<lparr>md_data := put (unat ?lo) (put (unat ?off - unat ?lo) dat ?block) ?img\<rparr>)"
      using mem(1) lo(1) hi(2,4) w(3) ss(3) inb by (intro mem_write_eq) (auto simp: mem_ok_def)
    then have "on_compat (mem_write_at ?lo (put (unat ?off - unat ?lo) dat ?block)) s = (Ok (), with_image s (put (unat ?off) dat ?img))"
      unfolding whole by (simp add: czoom_simp)
    then show ?thesis
      using run False off by (intro exI [of _ True]) (simp add: cthen_run(1) cret_def)
  qed
qed

section \<open>The loop over the extents\<close>

text \<open>The same extents up to their checksums.\<close>

definition same_extent :: "extent_ref \<Rightarrow> extent_ref \<Rightarrow> bool" where
  "same_extent e e' \<longleftrightarrow> e' = e\<lparr>er_content_crc := er_content_crc e'\<rparr>"

lemma same_extent_D:
  assumes "same_extent e e'"
  shows "er_span e' = er_span e" "ext_content B img e' = ext_content B img e" "wf_extent B m e' = wf_extent B m e"
    "er_logical_len e' = er_logical_len e"
proof -
  obtain c where "e' = e\<lparr>er_content_crc := c\<rparr>"
    using assms unfolding same_extent_def by blast
  then show "er_span e' = er_span e" "ext_content B img e' = ext_content B img e" "wf_extent B m e' = wf_extent B m e"
    "er_logical_len e' = er_logical_len e"
    by (simp_all add: er_span_def ext_content_def wf_extent_def)
qed

lemma same_extents_D:
  assumes "list_all2 same_extent es es'"
  shows "map (ext_content B img) es' = map (ext_content B img) es" "(\<Union>e \<in> set es'. er_span e) = (\<Union>e \<in> set es. er_span e)"
    "(\<forall>e \<in> set es'. wf_extent B m e) = (\<forall>e \<in> set es. wf_extent B m e)"
    "sorted_wrt (\<lambda>a b. er_span a \<inter> er_span b = {}) es' = sorted_wrt (\<lambda>a b. er_span a \<inter> er_span b = {}) es"
    "(\<Sum>e\<leftarrow>es'. unat (er_logical_len e)) = (\<Sum>e\<leftarrow>es. unat (er_logical_len e))"
proof -
  show all: "map (ext_content B img) es' = map (ext_content B img) es" "(\<Union>e \<in> set es'. er_span e) = (\<Union>e \<in> set es. er_span e)"
    "(\<forall>e \<in> set es'. wf_extent B m e) = (\<forall>e \<in> set es. wf_extent B m e)"
    "(\<Sum>e\<leftarrow>es'. unat (er_logical_len e)) = (\<Sum>e\<leftarrow>es. unat (er_logical_len e))"
    using assms by (induction rule: list_all2_induct) (auto simp: same_extent_D)
  have spans: "map er_span es' = map er_span es"
    using assms by (induction rule: list_all2_induct) (auto simp: same_extent_D)
  have "sorted_wrt (\<lambda>a b. er_span a \<inter> er_span b = {}) xs = sorted_wrt (\<lambda>a b. a \<inter> b = {}) (map er_span xs)" for xs
    by (simp add: sorted_wrt_map)
  then show "sorted_wrt (\<lambda>a b. er_span a \<inter> er_span b = {}) es' = sorted_wrt (\<lambda>a b. er_span a \<inter> er_span b = {}) es"
    using spans by simp
qed

lemma with_image_device: "wf_device s \<Longrightarrow> length img = length (compat_image s) \<Longrightarrow> wf_device (with_image s img)"
  by (simp add: wf_device_def mem_ok_def)

lemma compat_extent_crc_ok:
  assumes "wf_device s" "wf_extent (block_bytes_of s) (length (compat_image s)) e"
  shows "\<exists>crc. compat_extent_crc e s = Ok crc"
proof -
  let ?B = "block_bytes_of s" and ?p = "er_physical_block e" and ?n = "ucast (er_length_blocks e) :: u64"
  have fit: "unat ?p * ?B + unat ?n * ?B \<le> length (compat_image s)" "unat ?p * ?B + unat ?n * ?B < 2 ^ 64"
    using assms(2) wf_device_mem(3) [OF assms(1)] by (simp_all add: wf_extent_def unat_ucast_u32 add_mult_distrib)
  have "unat (sat_mul ?p (st_block_size s)) = unat ?p * ?B" "unat (sat_mul ?n (st_block_size s)) = unat ?n * ?B"
    using fit(2) by (simp_all add: sat_mul_def unat_mul_ok)
  then show ?thesis
    using compat_read [OF assms(1), of "sat_mul ?p (st_block_size s)" "unat ?p" "sat_mul ?n (st_block_size s)" "unat ?n"] fit(1)
    by (simp add: compat_extent_crc_def)
qed

lemma extent_apart:
  assumes "wf_extent B m e" "wf_extent B m x" "er_span e \<inter> er_span x = {}" "a + length d \<le> unat (er_logical_len x)" "m = length img"
  shows "ext_content B (put (unat (er_physical_block x) * B + a) d img) e = ext_content B img e"
proof -
  let ?p = "unat (er_physical_block x)"
  have x: "unat (er_logical_len x) \<le> unat (er_length_blocks x) * B" "0 < unat (er_logical_len x)" "(?p + unat (er_length_blocks x)) * B \<le> m"
    using assms(2) by (simp_all add: wf_extent_def)
  then have "0 < unat (er_length_blocks x)"
    by (cases "unat (er_length_blocks x) = 0") simp_all
  then have "unat (er_physical_block e) * B + unat (er_logical_len e) \<le> ?p * B
      \<or> (?p + unat (er_length_blocks x)) * B \<le> unat (er_physical_block e) * B"
    using bytes_apart [OF assms(1), of "er_physical_block x" "ucast (er_length_blocks x)"] assms(3)
    unfolding er_span_def [of x] by (simp add: unat_ucast_u32)
  then show ?thesis
    unfolding ext_content_def using x assms(4,5)
    by (elim disjE) (simp_all add: add_mult_distrib)
qed

lemma cut_put_within:
  assumes "a + length d \<le> n" "off + n \<le> length buf"
  shows "cut off n (put (off + a) d buf) = put a d (cut off n buf)"
  by (rule nth_equalityI) (use assms in \<open>auto simp: cut_nth put_nth\<close>)

text \<open>What the loop does to the image and to the extents it runs over.\<close>

definition loop_result :: "block_store \<Rightarrow> extent_ref list \<Rightarrow> nat \<Rightarrow> nat \<Rightarrow> bytes \<Rightarrow> extent_ref list \<Rightarrow> bytes \<Rightarrow> bool" where
  "loop_result s es c lo d es' img \<longleftrightarrow> list_all2 same_extent es es' \<and> length img = length (compat_image s)
     \<and> concat (map (ext_content (block_bytes_of s) img) es)
         = patch c lo d (concat (map (ext_content (block_bytes_of s) (compat_image s)) es))
     \<and> (\<forall>e. wf_extent (block_bytes_of s) (length (compat_image s)) e \<longrightarrow> (\<forall>x \<in> set es. er_span e \<inter> er_span x = {})
          \<longrightarrow> ext_content (block_bytes_of s) img e = ext_content (block_bytes_of s) (compat_image s) e)"

lemma length_contents:
  "\<forall>e \<in> set es. wf_extent B (length img) e \<Longrightarrow> length (concat (map (ext_content B img) es)) = (\<Sum>e\<leftarrow>es. unat (er_logical_len e))"
  by (induction es) (simp_all add: ext_content_length)

lemma loop_result_here:
  assumes "\<forall>e \<in> set es. wf_extent (block_bytes_of s) (length (compat_image s)) e" "lo + length d \<le> c"
  shows "loop_result s es c lo d es (compat_image s)"
  using assms(2) by (auto simp: loop_result_def patch_outside same_extent_def list_all2_same)

lemma loop_result_Cons:
  assumes wf: "\<forall>x \<in> set (e # es). wf_extent (block_bytes_of s) (length (compat_image s)) x"
    and sorted: "sorted_wrt (\<lambda>a b. er_span a \<inter> er_span b = {}) (e # es)"
    and first: "length mid = length (compat_image s)"
      "ext_content (block_bytes_of s) mid e = patch c lo d (ext_content (block_bytes_of s) (compat_image s) e)"
      "\<forall>x. wf_extent (block_bytes_of s) (length (compat_image s)) x \<longrightarrow> er_span x \<inter> er_span e = {}
        \<longrightarrow> ext_content (block_bytes_of s) mid x = ext_content (block_bytes_of s) (compat_image s) x"
    and IH: "loop_result (with_image s mid) es (c + unat (er_logical_len e)) lo d es' img'"
  shows "loop_result s (e # es) c lo d (e\<lparr>er_content_crc := crc\<rparr> # es') img'"
proof -
  let ?B = "block_bytes_of s" and ?img = "compat_image s"
  have ih: "list_all2 same_extent es es'" "length img' = length ?img"
    "concat (map (ext_content ?B img') es) = patch (c + unat (er_logical_len e)) lo d (concat (map (ext_content ?B mid) es))"
    "\<And>x. wf_extent ?B (length ?img) x \<Longrightarrow> \<forall>y \<in> set es. er_span x \<inter> er_span y = {} \<Longrightarrow> ext_content ?B img' x = ext_content ?B mid x"
    using IH first(1) by (simp_all add: loop_result_def)
  have e: "ext_content ?B img' e = ext_content ?B mid e"
    using ih(4) wf sorted by simp
  have "ext_content ?B mid x = ext_content ?B ?img x" if "x \<in> set es" for x
    using first(3) wf sorted that by (auto simp: Int_commute)
  then have rest: "map (ext_content ?B mid) es = map (ext_content ?B ?img) es"
    by simp
  have len: "length (ext_content ?B ?img e) = unat (er_logical_len e)"
    using wf by (intro ext_content_length) simp
  have "concat (map (ext_content ?B img') (e # es)) = patch c lo d (concat (map (ext_content ?B ?img) (e # es)))"
    using e first(2) ih(3) by (simp add: patch_append len rest)
  moreover have "same_extent e (e\<lparr>er_content_crc := crc\<rparr>)"
    by (simp add: same_extent_def)
  moreover have "ext_content ?B img' x = ext_content ?B ?img x"
    if "wf_extent ?B (length ?img) x" "\<forall>y \<in> set (e # es). er_span x \<inter> er_span y = {}" for x
    using ih(4) [OF that(1)] first(3) that by simp
  ultimately show ?thesis
    unfolding loop_result_def using ih(1,2) by simp
qed

lemma write_range_loop_ok:
  assumes "wf_device s" "\<forall>e \<in> set es. wf_extent (block_bytes_of s) (length (compat_image s)) e"
    and "sorted_wrt (\<lambda>a b. er_span a \<inter> er_span b = {}) es" "unat cur + (\<Sum>e\<leftarrow>es. unat (er_logical_len e)) < 2 ^ 64"
    and "dat \<noteq> []" "unat wend = unat off + length dat"
    and "unat w + overlap (unat off) (unat wend) (unat cur) (\<Sum>e\<leftarrow>es. unat (er_logical_len e)) < 2 ^ 64"
  shows "\<exists>es' ch img' n. write_range_loop es off wend dat cur w c0 s = (Ok (es', n, ch), with_image s img')
    \<and> unat n = unat w + overlap (unat off) (unat wend) (unat cur) (\<Sum>e\<leftarrow>es. unat (er_logical_len e))
    \<and> loop_result s es (unat cur) (unat off) dat es' img'"
  using assms(1-4,7)
proof (induction es arbitrary: cur w c0 s)
  case Nil
  show ?case
    by (intro exI [of _ "[]"] exI [of _ c0] exI [of _ "compat_image s"] exI [of _ w])
      (simp add: cret_def overlap_def loop_result_def patch_def)
next
  case (Cons e es)
  let ?B = "block_bytes_of s" and ?img = "compat_image s" and ?fin = "sat_add cur (ucast (er_logical_len e))"
  let ?lo = "unat off" and ?hi = "unat wend"
  have end_nat: "unat ?fin = unat cur + unat (er_logical_len e)"
    unfolding sat_add_nat using Cons.prems(4) by (simp add: unat_ucast_u32)
  have lt: "?lo < ?hi"
    using assms(5,6) by simp
  have e: "wf_extent ?B (length ?img) e" "0 < unat (er_logical_len e)"
    using Cons.prems(2) by (simp_all add: wf_extent_def)
  have sum: "overlap ?lo ?hi (unat cur) (\<Sum>e\<leftarrow>e # es. unat (er_logical_len e))
      = overlap ?lo ?hi (unat cur) (unat (er_logical_len e)) + overlap ?lo ?hi (unat ?fin) (\<Sum>e\<leftarrow>es. unat (er_logical_len e))"
    using lt by (simp add: end_nat overlap_add)
  consider "wend \<le> cur" | "\<not> wend \<le> cur" "off \<ge> ?fin" | "\<not> wend \<le> cur" "\<not> off \<ge> ?fin"
    by blast
  then show ?case
  proof cases
    case 1
    then have le: "?lo + length dat \<le> unat cur"
      using assms(6) by (simp add: word_le_nat_alt)
    have n: "unat w = unat w + overlap ?lo ?hi (unat cur) (\<Sum>e\<leftarrow>e # es. unat (er_logical_len e))"
      using 1 by (simp add: overlap_def word_le_nat_alt min_def max_def)
    have "write_range_loop (e # es) off wend dat cur w c0 s = (Ok (e # es, w, c0), with_image s ?img)"
      using 1 by (simp add: cret_def)
    then show ?thesis
      using n loop_result_here [OF Cons.prems(2) le] by blast
  next
    case 2
    then have off: "unat cur + unat (er_logical_len e) \<le> ?lo"
      using end_nat by (simp add: word_le_nat_alt)
    then have o0: "overlap ?lo ?hi (unat cur) (unat (er_logical_len e)) = 0"
      by (simp add: overlap_def)
    obtain es' ch img' n where r: "write_range_loop es off wend dat ?fin w c0 s = (Ok (es', n, ch), with_image s img')"
      "unat n = unat w + overlap ?lo ?hi (unat ?fin) (\<Sum>e\<leftarrow>es. unat (er_logical_len e))"
      "loop_result s es (unat ?fin) ?lo dat es' img'"
      using Cons.IH [of s ?fin w c0] Cons.prems sum end_nat by auto
    have "loop_result s (e # es) (unat cur) ?lo dat (e\<lparr>er_content_crc := er_content_crc e\<rparr> # es') img'"
      using Cons.prems(2,3) r(3) off end_nat ext_content_length [OF e(1)]
      by (intro loop_result_Cons [where mid = ?img]) (simp_all add: patch_outside)
    moreover have "write_range_loop (e # es) off wend dat cur w c0 s
        = (Ok (e\<lparr>er_content_crc := er_content_crc e\<rparr> # es', n, ch), with_image s img')"
      using 2 r(1) by (simp add: Let_def cbind_run(1) [where m = "write_range_loop _ _ _ _ _ _ _"] cret_def)
    moreover have "unat n = unat w + overlap ?lo ?hi (unat cur) (\<Sum>e\<leftarrow>e # es. unat (er_logical_len e))"
      unfolding sum using r(2) o0 by simp
    ultimately show ?thesis
      by blast
  next
    case 3
    define a b where a: "a = max off cur" and b: "b = min wend ?fin"
    have ab: "unat a = max ?lo (unat cur)" "unat b = min ?hi (unat cur + unat (er_logical_len e))"
      unfolding end_nat [symmetric] a b by (simp_all add: max_def min_def word_le_nat_alt)
    have lt_ab: "unat a < unat b"
      unfolding ab using 3 e(2) lt end_nat by (simp add: word_le_nat_alt)
    have sub: "unat (a - off) = unat a - ?lo" "unat (b - a) = unat b - unat a" "unat (a - cur) = unat a - unat cur"
      using lt_ab ab by (simp_all add: unat_sub_if')
    define src where src: "src = cut (unat a - ?lo) (unat b - unat a) dat"
    have fit: "unat a - ?lo + (unat b - unat a) \<le> length dat" "unat a - unat cur + (unat b - unat a) \<le> unat (er_logical_len e)"
      using ab(1,2) lt_ab assms(6) by linarith+
    have src_len: "length src = unat b - unat a"
      unfolding src by (rule length_cut) (rule fit(1))
    have src_ok: "cut_res (unat (a - off)) (unat (b - a)) dat = Ok src"
      unfolding sub cut_res_def src using fit(1) by (rule if_P)
    have "0 < length src"
      unfolding src_len using lt_ab by linarith
    then have src_ne: "src \<noteq> []"
      by (rule length_greater_0_conv [THEN iffD1])
    note part = src_ok src_len src_ne
    let ?img1 = "put (unat (er_physical_block e) * ?B + (unat a - unat cur)) src ?img"
    obtain ch where ch: "write_compat_extent_range e (a - cur) src s = (Ok ch, with_image s ?img1)"
      using write_compat_ok [OF Cons.prems(1) e(1) part(3), of "a - cur"] fit(2) part(2) sub(3) by auto
    have len1: "length ?img1 = length ?img"
      using fit(2) part(2) extent_inside [OF e(1)] by simp
    let ?s1 = "with_image s ?img1"
    have s1: "wf_device ?s1"
      by (rule with_image_device [OF Cons.prems(1) len1])
    have e1: "wf_extent (block_bytes_of ?s1) (length (compat_image ?s1)) e"
      using e(1) len1 by simp
    obtain crc where crc: "(if ch then cread (compat_extent_crc e) else cret (er_content_crc e)) ?s1 = (Ok crc, ?s1)"
      using compat_extent_crc_ok [OF s1 e1] by (cases ch) (auto simp: cread_def cret_def)
    have ov: "unat b - unat a = overlap ?lo ?hi (unat cur) (unat (er_logical_len e))"
      using ab by (simp add: overlap_def)
    have w: "uadd w (b - a) = Ok (w + (b - a))" "unat (w + (b - a)) = unat w + (unat b - unat a)"
      using Cons.prems(5) sum ov sub(2) by (simp_all add: uadd_def unat_add_ok)
    obtain es' ch' img' n where r: "write_range_loop es off wend dat ?fin (w + (b - a)) (c0 \<or> ch) ?s1 = (Ok (es', n, ch'), with_image ?s1 img')"
      "unat n = unat (w + (b - a)) + overlap ?lo ?hi (unat ?fin) (\<Sum>e\<leftarrow>es. unat (er_logical_len e))"
      "loop_result ?s1 es (unat ?fin) ?lo dat es' img'"
      using Cons.IH [of ?s1 ?fin "w + (b - a)" "c0 \<or> ch"] Cons.prems(2-5) s1 sum end_nat len1 w(2) ov by auto
    have "ext_content ?B ?img1 e = put (unat a - unat cur) src (ext_content ?B ?img e)"
      unfolding ext_content_def using fit(2) part(2) extent_inside [OF e(1)] by (intro cut_put_within) simp_all
    also have "\<dots> = patch (unat cur) ?lo dat (ext_content ?B ?img e)"
      using ab lt_ab assms(6) ext_content_length [OF e(1)] unfolding src by (subst patch_put) simp_all
    finally have patched: "ext_content ?B ?img1 e = patch (unat cur) ?lo dat (ext_content ?B ?img e)" .
    have "ext_content ?B ?img1 x = ext_content ?B ?img x"
      if "wf_extent ?B (length ?img) x" "er_span x \<inter> er_span e = {}" for x
      using fit(2) part(2) by (intro extent_apart [OF that(1) e(1) that(2)]) simp_all
    then have "loop_result s (e # es) (unat cur) ?lo dat (e\<lparr>er_content_crc := crc\<rparr> # es') img'"
      using r(3) end_nat patched len1 Cons.prems(2,3) by (intro loop_result_Cons [where mid = ?img1]) simp_all
    moreover have "write_range_loop (e # es) off wend dat cur w c0 s
        = (Ok (e\<lparr>er_content_crc := crc\<rparr> # es', n, ch'), with_image s img')"
    proof -
      have "\<not> a \<ge> b"
        using lt_ab by (simp add: word_le_nat_alt)
      then show ?thesis
        using 3 part(1) ch crc w(1) r(1)
        by (simp add: Let_def a [symmetric] b [symmetric] cbind_run(1) [where m = "clift _"] cbind_run(1) [where m = "write_compat_extent_range _ _ _"]
            cbind_run(1) [where m = "if _ then _ else _"] cbind_run(1) [where m = "write_range_loop _ _ _ _ _ _ _"] cret_def)
    qed
    moreover have "unat n = unat w + overlap ?lo ?hi (unat cur) (\<Sum>e\<leftarrow>e # es. unat (er_logical_len e))"
      unfolding sum using r(2) w(2) ov by simp
    ultimately show ?thesis
      by blast
  qed
qed

section \<open>A write inside a file\<close>

lemma dedup_insert_if:
  assumes "counts_below s"
  shows "\<exists>t. (case es of [e] \<Rightarrow> dedup_insert crc (er_physical_block e) (er_length_blocks e) (er_physical_len e) | _ \<Rightarrow> cret ()) s
    = (Ok (), t) \<and> same_space s t"
  using dedup_insert_ok [OF assms] by (auto simp: cret_def same_space_def split: list.split)

lemma write_in_place_ok:
  assumes "wf_store s" "counts_below s" "om_get (st_records s) i = Some r"
    and "dat \<noteq> []" "unat wend = unat off + length dat" "wend \<le> br_logical_size r"
  shows "\<exists>ch t. write_range_in_place i r off wend dat s = (Ok \<lparr>rw_size = br_logical_size r, rw_changed = ch\<rparr>, t)
    \<and> wf_store t \<and> files t = (files s)(i \<mapsto> put (unat off) dat (rec_bytes (block_bytes_of s) (compat_image s) r))"
proof -
  let ?B = "block_bytes_of s" and ?img = "compat_image s"
  have w: "wf_space s" "wf_device s" "wf_files s"
    using assms(1) by (simp_all add: wf_store_def)
  note old = wf_files_D [OF w(3) assms(3)]
  have size: "(\<Sum>e\<leftarrow>br_extents r. unat (er_logical_len e)) = unat (br_logical_size r)"
    and es: "\<forall>e \<in> set (br_extents r). wf_extent ?B (length ?img) e" "sorted_wrt (\<lambda>a b. er_span a \<inter> er_span b = {}) (br_extents r)"
    using old(1) by (simp_all add: wf_record_def)
  have inside: "unat off + length dat \<le> unat (br_logical_size r)"
    using assms(5,6) by (simp add: word_le_nat_alt)
  then have ov: "overlap (unat off) (unat wend) 0 (unat (br_logical_size r)) = length dat"
    using assms(5) by (simp add: overlap_def)
  obtain es' ch img' n where loop: "write_range_loop (br_extents r) off wend dat 0 0 False s = (Ok (es', n, ch), with_image s img')"
    "unat n = length dat" "loop_result s (br_extents r) 0 (unat off) dat es' img'"
    using write_range_loop_ok [OF w(2) es, of 0 dat wend off 0 False] assms(4,5) size ov inside unat_u64_lt [of "br_logical_size r"] by auto
  have n: "n = of_nat (length dat)"
    unfolding loop(2) [symmetric] by simp
  have res: "list_all2 same_extent (br_extents r) es'" "length img' = length ?img"
    "concat (map (ext_content ?B img') (br_extents r)) = put (unat off) dat (rec_bytes ?B ?img r)"
    "\<And>e. wf_extent ?B (length ?img) e \<Longrightarrow> \<forall>x \<in> set (br_extents r). er_span e \<inter> er_span x = {}
      \<Longrightarrow> ext_content ?B img' e = ext_content ?B ?img e"
    using loop(3) inside read_record_ok(2) [OF w(2) old(1)] by (simp_all add: loop_result_def rec_bytes_def patch_whole)
  let ?s = "with_image s img'"
  have ws: "wf_device ?s" "wf_space ?s" "available ?s = available s" "counts_below ?s"
    using with_image_device [OF w(2) res(2)] w(1) assms(2) by (simp_all add: wf_space_def available_def counts_below_def)
  have kept: "rec_bytes ?B img' q = rec_bytes ?B ?img q" if "om_get (st_records s) j = Some q" "j \<noteq> i" for j q
  proof -
    have apart: "rec_span q \<inter> rec_span r = {}"
      using wf_files_D(3) [OF w(3) that(1), of i] that(2) assms(3) by (simp add: old_span_def)
    have "ext_content ?B img' e = ext_content ?B ?img e" if "e \<in> set (br_extents q)" for e
    proof (rule res(4))
      show "wf_extent ?B (length ?img) e"
        using wf_files_D(1) [OF w(3) \<open>om_get (st_records s) j = Some q\<close>] that by (simp add: wf_record_def)
      show "\<forall>x \<in> set (br_extents r). er_span e \<inter> er_span x = {}"
        using apart that unfolding rec_span_def by blast
    qed
    then show ?thesis
      unfolding rec_bytes_def by (metis (mono_tags, lifting) map_eq_conv)
  qed
  have osp: "old_span s i = rec_span r"
    using assms(3) by (simp add: old_span_def)
  have ok: "om_ok (st_records s)"
    using w(3) by (simp add: wf_files_def)
  have step: "wf_store t \<and> files t = (files s)(i \<mapsto> put (unat off) dat (rec_bytes ?B ?img r))"
    if t: "same_space (?s\<lparr>st_records := st_records t\<rparr>) t" "om_ok (st_records t)" "om_get (st_records t) = (om_get (st_records s))(i \<mapsto> q)"
      and q: "br_extents q = br_extents r \<or> br_extents q = es'" "br_logical_size q = br_logical_size r" for t q
  proof -
    note same = same_space_sel [OF t(1)]
    have dev: "st_compat_device t = (st_compat_device s)\<lparr>md_data := img'\<rparr>" "st_block_size t = st_block_size s"
      using t(1) by (simp_all add: same_space_def)
    have wt: "wf_space t" "wf_device t" "available t = available s"
      using same(1-3) ws by (simp_all add: wf_space_def wf_device_def available_def)
    have shape: "list_all2 same_extent (br_extents r) (br_extents q)"
      using q(1) res(1) by (auto simp: list_all2_same same_extent_def)
    have qs: "wf_record ?B (length img') q" "rec_span q = rec_span r" "rec_bytes ?B img' q = put (unat off) dat (rec_bytes ?B ?img r)"
      using same_extents_D [OF shape] es size q(2) res(2,3) by (simp_all add: wf_record_def rec_span_def rec_bytes_def)
    note rep = replace_file [OF assms(1) wt(1,2), where i = i and x = "Some q"]
    have "wf_store t" "files t = (files s)(i := map_option (rec_bytes ?B (compat_image t)) (Some q))"
      using kept qs old(2) wt(3) osp t(2,3) res(2) by (intro rep; simp add: dev)+
    then show ?thesis
      using qs(3) by (simp add: dev)
  qed
  show ?thesis
  proof (cases ch)
    case False
    have "write_range_in_place i r off wend dat s = (Ok \<lparr>rw_size = br_logical_size r, rw_changed = False\<rparr>, ?s)"
      using loop(1) n False by (simp add: write_range_in_place_def cbind_run(1) cret_def)
    then show ?thesis
      using step [of ?s r] ok assms(3) by (auto simp: same_space_def fun_upd_idem)
  next
    case True
    let ?u = "dedup_release (br_content_crc r) ?s"
    have ne: "es' \<noteq> []"
    proof
      assume "es' = []"
      then have "br_extents r = []"
        using res(1) by simp
      then show False
        using size inside assms(4) by simp
    qed
    have u: "same_space ?s ?u" "counts_below ?u"
      using dedup_release_same [of ?s] dedup_release_counts [OF ws(4)] ws(4) by (simp_all add: same_space_def)
    have dev: "wf_device ?u" "st_block_size ?u = st_block_size s" "compat_image ?u = img'"
      using same_space_sel(3) [OF u(1)] ws(1) u(1) by (simp_all add: same_space_def)
    have "wf_record ?B (length img') (r\<lparr>br_extents := es'\<rparr>)"
      using same_extents_D [OF res(1)] es size res(2) by (simp add: wf_record_def)
    then obtain crc where crc: "compat_record_crc (r\<lparr>br_extents := es'\<rparr>) ?u = Ok crc"
      using read_record_ok(1) [OF dev(1), of "r\<lparr>br_extents := es'\<rparr>"] unfolding dev by (simp add: compat_record_crc_def)
    obtain v where v: "(case es' of [e] \<Rightarrow> dedup_insert crc (er_physical_block e) (er_length_blocks e) (er_physical_len e) | _ \<Rightarrow> cret ()) ?u
        = (Ok (), v)" "same_space ?u v"
      using dedup_insert_if [OF u(2)] by blast
    let ?q = "r\<lparr>br_extents := es', br_content_crc := crc\<rparr>"
    let ?t = "v\<lparr>st_records := om_insert i ?q (st_records v)\<rparr>"
    have "write_range_in_place i r off wend dat s = (Ok \<lparr>rw_size = br_logical_size r, rw_changed = True\<rparr>, ?t)"
      using loop(1) n True crc v(1) ne
      by (simp add: write_range_in_place_def cbind_run(1) [where m = "write_range_loop _ _ _ _ _ _ _"] cthen_run(1) [where m = "cmod _"]
          cbind_run(1) [where m = "cread _"] cthen_run(1) [where m = "case_list _ _ _"])
    moreover have "st_records v = st_records s" "same_space (?s\<lparr>st_records := st_records ?t\<rparr>) ?t"
      using u(1) v(2) by (simp_all add: same_space_def)
    ultimately show ?thesis
      using step [of ?t ?q] om.insert_law [OF ok] by (intro exI [of _ True] exI [of _ ?t]) simp
  qed
qed

end
