(* ===== verification/Block_Store_Props.thy ===== *)
theory Block_Store_Props
  imports Block_Store_Patch
begin

text \<open>
  What the block store promises: exclusive blocks, and full writes, appends, writes inside a file, range
  reads and removals that act on the map of file contents.
\<close>

section \<open>Small stores\<close>

text \<open>Blocks of four bytes on a device of the given bytes; every block of the device is in use or free.\<close>

definition tiny_memory :: "bytes \<Rightarrow> memory_device" where
  "tiny_memory bs =
    \<lparr>md_data = bs,
     md_geometry = \<lparr>dg_sector_size = 4, dg_sector_count = of_nat (length bs) div 4,
                    dg_capacity_bytes = of_nat (length bs), dg_read_only = False\<rparr>,
     md_trim_supported = True, md_trimmed_ranges = []\<rparr>"

definition tiny_store :: "(inode_id, block_record) omap \<Rightarrow> free_extent_record list \<Rightarrow> u64 \<Rightarrow> bytes \<Rightarrow> block_store" where
  "tiny_store rs fs n bs =
    \<lparr>st_block_size = 4, st_next_device_block = n, st_policy = allocator_policy_default, st_free_extents = fs,
     st_records = rs, st_dedup_table = [], st_pending_trims = [], st_compat_device = tiny_memory bs\<rparr>"

abbreviation tiny_extent :: "u32 \<Rightarrow> u64 \<Rightarrow> u32 \<Rightarrow> extent_ref" where
  "tiny_extent len block blocks \<equiv>
    \<lparr>er_logical_block = 0, er_logical_len = len, er_physical_block = block, er_length_blocks = blocks,
     er_physical_len = len, er_content_crc = 0, er_flags = 0\<rparr>"

abbreviation tiny_record :: "inode_id \<Rightarrow> u64 \<Rightarrow> extent_ref list \<Rightarrow> block_record" where
  "tiny_record i len es \<equiv> \<lparr>br_inode = i, br_logical_size = len, br_extents = es, br_content_crc = 0, br_flags = 0\<rparr>"

lemma tiny_store_sel [simp]:
  "st_block_size (tiny_store rs fs n bs) = 4" "st_next_device_block (tiny_store rs fs n bs) = n"
  "st_policy (tiny_store rs fs n bs) = allocator_policy_default" "st_free_extents (tiny_store rs fs n bs) = fs"
  "st_records (tiny_store rs fs n bs) = rs" "st_dedup_table (tiny_store rs fs n bs) = []"
  "st_pending_trims (tiny_store rs fs n bs) = []" "st_compat_device (tiny_store rs fs n bs) = tiny_memory bs"
  "md_data (tiny_memory bs) = bs" "dg_sector_size (md_geometry (tiny_memory bs)) = 4"
  "dg_capacity_bytes (md_geometry (tiny_memory bs)) = of_nat (length bs)"
  by (simp_all add: tiny_store_def tiny_memory_def)

lemma tiny_wf:
  assumes "length bs = 4 * k" "k < 2 ^ 61"
  shows "wf_device (tiny_store rs fs n bs)" "counts_below (tiny_store rs fs n bs)"
  using assms unat_of_nat_ok [of "4 * k", where 'a = 64]
  by (simp_all add: wf_device_def mem_ok_def counts_below_def tiny_memory_def)

text \<open>Two files: four bytes in block 0, four bytes in block 1; the first has four more in block 2.\<close>

definition two_files :: block_store where
  "two_files = tiny_store [(1, tiny_record 1 8 [tiny_extent 4 0 1, tiny_extent 4 2 1]), (2, tiny_record 2 4 [tiny_extent 4 1 1])]
     [] 3 [11, 12, 13, 14, 21, 22, 23, 24, 15, 16, 17, 18]"

lemma two_files_wf: "wf_store two_files" "counts_below two_files"
    "files two_files = [1 \<mapsto> [11, 12, 13, 14, 15, 16, 17, 18], 2 \<mapsto> [21, 22, 23, 24]]"
proof -
  show "counts_below two_files"
    unfolding two_files_def by (rule tiny_wf [where k = 3]) simp_all
  have "wf_space two_files"
    by (simp add: two_files_def wf_space_def)
  moreover have "wf_device two_files"
    unfolding two_files_def by (rule tiny_wf [where k = 3]) simp_all
  moreover have "wf_files two_files"
    by (auto simp: two_files_def wf_files_def om_ok_def wf_record_def wf_extent_def rec_span_def er_span_def available_def fe_cover_def
        split: if_splits)
  ultimately show "wf_store two_files"
    by (simp add: wf_store_def)
  show "files two_files = [1 \<mapsto> [11, 12, 13, 14, 15, 16, 17, 18], 2 \<mapsto> [21, 22, 23, 24]]"
    by (rule ext) (simp add: files_def two_files_def rec_bytes_def ext_content_def cut_def)
qed

lemma tiny_device_limits [simp]:
  "dev_capacity mem_ops (tiny_memory bs) = of_nat (length bs)" "dev_sector_size mem_ops (tiny_memory bs) = 4"
  by (simp_all add: dev_capacity_def dev_sector_size_def)

lemma tiny_transfer:
  assumes "length bs = 4 * k" "k < 2 ^ 61" "unat off = 4 * m" "length d = 4 * j" "m + j \<le> k"
  shows "mem_write_at off d (tiny_memory bs) = (Ok (), tiny_memory (put (4 * m) d bs))"
    and "unat n = 4 * j \<Longrightarrow> mem_read_at (tiny_memory bs) off n = Ok (cut (4 * m) (4 * j) bs)"
proof -
  have len: "unat (of_nat (length bs) :: u64) = length bs"
    by (rule unat_of_nat_ok) (use assms in simp)
  have "mem_write_at off d (tiny_memory bs) = (Ok (), (tiny_memory bs)\<lparr>md_data := put (unat off) d (md_data (tiny_memory bs))\<rparr>)"
    using len by (intro mem_write_eq) (use assms in \<open>simp_all add: tiny_memory_def\<close>)
  moreover have "(tiny_memory bs)\<lparr>md_data := put (4 * m) d bs\<rparr> = tiny_memory (put (4 * m) d bs)"
    using assms by (simp add: tiny_memory_def)
  ultimately show "mem_write_at off d (tiny_memory bs) = (Ok (), tiny_memory (put (4 * m) d bs))"
    by (simp add: assms(3))
  assume n: "unat n = 4 * j"
  have "mem_read_at (tiny_memory bs) off n = Ok (cut (unat off) (unat n) (md_data (tiny_memory bs)))"
    using len n by (intro mem_read_eq) (use assms in simp_all)
  then show "mem_read_at (tiny_memory bs) off n = Ok (cut (4 * m) (4 * j) bs)"
    by (simp add: assms(3) n)
qed

section \<open>The pool of blocks\<close>

text \<open>
  C14: an allocation returns at least the blocks asked for, all of them free before and none of them free
  afterwards; the rest of the free space, the files and the table are unchanged, and the free list stays sorted,
  disjoint and below the high-water mark.
\<close>

lemma block_allocation_is_exclusive:
  assumes "wf_space s" "0 < unat k" "unat (st_next_device_block s) + unat k < 2 ^ 64"
  shows "case allocate_extent k s of ((a, n), t) \<Rightarrow> wf_space t \<and> same_files s t \<and> unat k \<le> unat n
    \<and> span a n \<subseteq> available s \<and> available t = available s - span a n"
  using allocate_extent_ok [OF assms] by auto

lemma block_allocation_is_exclusive_witness:
  "case allocate_extent 3 (tiny_store [] [\<lparr>fe_device_block = 2, fe_allocated_blocks = 5\<rparr>] 9 []) of ((a, n), t) \<Rightarrow>
     wf_space t \<and> 3 \<le> unat n \<and> available t = available (tiny_store [] [\<lparr>fe_device_block = 2, fe_allocated_blocks = 5\<rparr>] 9 []) - span a n"
  using block_allocation_is_exclusive [of "tiny_store [] [\<lparr>fe_device_block = 2, fe_allocated_blocks = 5\<rparr>] 9 []" 3]
  by (simp add: wf_space_def split: prod.splits)

text \<open>
  blocks that are not free can be given back: exactly they become free, whether they are merged with their
  neighbours, handed to the high-water mark or kept as an entry of their own, under every policy.
\<close>

lemma released_blocks_are_free:
  assumes "wf_space s" "span a n \<inter> available s = {}"
  shows "wf_space (release_span a n s) \<and> available (release_span a n s) = available s \<union> span a n
    \<and> same_files s (release_span a n s)"
  using pool.give_law [OF assms] release_span_ok [OF assms] by (simp add: shrinks_def)

lemma released_blocks_are_free_witness:
  "available (release_span 4 2 (tiny_store [] [\<lparr>fe_device_block = 2, fe_allocated_blocks = 2\<rparr>] 9 [])) = {2, 3} \<union> {4, 5} \<union> {9..}"
proof -
  let ?s = "tiny_store [] [\<lparr>fe_device_block = 2, fe_allocated_blocks = 2\<rparr>] 9 []"
  have s: "wf_space ?s" "available ?s = {2, 3} \<union> {9..}" "span 4 2 = {4, 5}"
    by (auto simp: wf_space_def available_def fe_cover_def fe_span_def)
  then show ?thesis
    using released_blocks_are_free [of ?s 4 2] by auto
qed

section \<open>Files\<close>

lemma st_read_ok:
  assumes "wf_store s" "files s i = Some b"
  shows "\<exists>x. st_read i s = Ok (Some x) \<and> ob_bytes x = b"
proof -
  obtain r where r: "om_get (st_records s) i = Some r" "b = rec_bytes (block_bytes_of s) (compat_image s) r"
    using assms(2) by (auto simp: files_def)
  have w: "wf_device s" "wf_record (block_bytes_of s) (length (compat_image s)) r"
    using assms(1) wf_files_D(1) [OF _ r(1)] by (simp_all add: wf_store_def)
  have lim: "(\<Sum>e\<leftarrow>br_extents r. unat (er_length_blocks e)) < 2 ^ 64"
    using record_limits(1) [OF assms(1) r(1)] unat_u64_lt [of "st_next_device_block s"] by simp
  have "\<exists>n. rfor (\<lambda>e n. uadd n (ucast (er_length_blocks e))) es m = Ok n"
    if "unat m + (\<Sum>e\<leftarrow>es. unat (er_length_blocks e)) < 2 ^ 64" for es and m :: u64
    using that
  proof (induction es arbitrary: m)
    case (Cons e es)
    then have "uadd m (ucast (er_length_blocks e)) = Ok (m + ucast (er_length_blocks e))"
      "unat (m + ucast (er_length_blocks e)) = unat m + unat (er_length_blocks e)"
      by (simp_all add: uadd_def unat_add_ok unat_ucast_u32)
    then show ?case
      using Cons by (simp add: add.assoc)
  qed simp
  from this [of 0 "br_extents r"] lim obtain n where "total_blocks r = Ok n"
    by (auto simp: total_blocks_def)
  then show ?thesis
    using r read_record_ok(1) [OF w] by (simp add: st_read_def from_record_and_bytes_def)
qed

text \<open>
  C10: a full write of a new file or of one whose blocks form one range succeeds, leaves the store well formed,
  changes the content of that inode to the bytes written and no other file, and the file reads back in full.
\<close>

lemma full_write_replaces_one_file:
  assumes "wf_store s" "one_extent s i" "counts_below s" "length bs < 2 ^ 32" "roomy s (blocks_for s bs)"
  shows "\<exists>t x. st_write i bs s = (Ok (of_nat (length bs)), t) \<and> wf_store t \<and> files t = (files s)(i \<mapsto> bs)
    \<and> st_read i t = Ok (Some x) \<and> ob_bytes x = bs"
proof -
  obtain t where t: "st_write i bs s = (Ok (of_nat (length bs)), t)" "wf_store t" "files t = (files s)(i \<mapsto> bs)"
    using st_write_ok [OF assms] by blast
  then show ?thesis
    using st_read_ok [OF t(2), of i bs] by auto
qed

lemma full_write_replaces_one_file_witness:
  "\<exists>t. st_write 2 [1, 2, 3, 4, 5] two_files = (Ok 5, t) \<and> files t = [1 \<mapsto> [11, 12, 13, 14, 15, 16, 17, 18], 2 \<mapsto> [1, 2, 3, 4, 5]]"
proof -
  have "one_extent two_files 2" "roomy two_files (blocks_for two_files [1, 2, 3, 4, 5])"
    by (simp_all add: two_files_def one_extent_def roomy_def blocks_for_def)
  then show ?thesis
    using full_write_replaces_one_file [OF two_files_wf(1) _ two_files_wf(2), of 2 "[1, 2, 3, 4, 5]"] two_files_wf(3) by auto
qed

text \<open>
  C11: an append to a plain file, in however many extents it already is, leaves its content followed by the
  new bytes and every other file unchanged; an append to a missing or empty file writes it.
\<close>

lemma append_extends_one_file:
  assumes "wf_store s" "counts_below s" "\<forall>r. om_get (st_records s) i = Some r \<longrightarrow> plain_record r"
    and "extra \<noteq> []" "length extra < 2 ^ 32" "roomy s (blocks_for s extra)"
  shows "\<exists>t. append_to_inode i extra s = (Ok (of_nat (length (appended (files s i) extra))), t) \<and> wf_store t
    \<and> files t = (files s)(i \<mapsto> appended (files s i) extra)"
  by (rule append_ok [OF assms])

lemma append_extends_one_file_witness:
  "\<exists>t. append_to_inode 1 [19, 20] two_files = (Ok 10, t)
    \<and> files t = [2 \<mapsto> [21, 22, 23, 24], 1 \<mapsto> [11, 12, 13, 14, 15, 16, 17, 18, 19, 20]]"
proof -
  have "\<forall>r. om_get (st_records two_files) 1 = Some r \<longrightarrow> plain_record r" "roomy two_files (blocks_for two_files [19, 20])"
    by (simp_all add: two_files_def plain_record_def roomy_def blocks_for_def)
  then show ?thesis
    using append_extends_one_file [OF two_files_wf(1,2), of 1 "[19, 20]"] by (auto simp: two_files_wf(3) appended_def)
qed

lemma write_range_inside_ok:
  assumes "wf_store s" "counts_below s" "om_get (st_records s) i = Some r" "plain_record r"
    and "dat \<noteq> []" "unat off + length dat \<le> unat (br_logical_size r)" "off = 0 \<Longrightarrow> length dat < unat (br_logical_size r)"
  shows "\<exists>ch t. write_range_report i off dat s = (Ok \<lparr>rw_size = br_logical_size r, rw_changed = ch\<rparr>, t)
    \<and> wf_store t \<and> files t = (files s)(i \<mapsto> put (unat off) dat (rec_bytes (block_bytes_of s) (compat_image s) r))"
proof -
  have lim: "unat off + length dat < 2 ^ 64" "unat (of_nat (length dat) :: u64) = length dat"
    using assms(6) unat_u64_lt [of "br_logical_size r"] by (simp_all add: unat_of_nat_ok)
  let ?fin = "off + of_nat (length dat)"
  have e: "overflow_checked off (of_nat (length dat)) = Ok ?fin" "unat ?fin = unat off + length dat"
    using lim by (simp_all add: overflow_checked_def checked_add_def unat_add_ok)
  have c: "(off = br_logical_size r) = False" "(off = 0 \<and> ?fin \<ge> br_logical_size r) = False"
    "(off > br_logical_size r \<or> ?fin > br_logical_size r) = False"
    using assms(5-7) e(2) by (auto simp: word_le_nat_alt word_less_nat_alt)
  have run: "write_range_report i off dat s = write_range_in_place i r off ?fin dat s"
    using assms(4,5) by (simp only: write_range_report_def Let_def assms(3) option.case cbind_def clift_def e(1) prod.case result.case c
        if_False not_True_eq_False)
  show ?thesis
    unfolding run using e(2) assms(6) by (intro write_in_place_ok assms(1-3,5)) (simp_all add: word_le_nat_alt)
qed

text \<open>
  C12: a write inside a plain file (not of the whole file), in however many extents it is, reports the size of
  the file, replaces exactly the bytes of the range and changes no other file, although it rewrites whole sectors
  and skips those that do not change.
\<close>

lemma write_inside_patches_one_file:
  assumes "wf_store s" "counts_below s" "om_get (st_records s) i = Some r" "plain_record r" "files s i = Some b"
    and "dat \<noteq> []" "unat off + length dat \<le> length b" "off = 0 \<Longrightarrow> length dat < length b"
  shows "\<exists>ch t. write_range_report i off dat s = (Ok \<lparr>rw_size = of_nat (length b), rw_changed = ch\<rparr>, t)
    \<and> wf_store t \<and> files t = (files s)(i \<mapsto> put (unat off) dat b)"
proof -
  have b: "b = rec_bytes (block_bytes_of s) (compat_image s) r"
    using assms(3,5) by (simp add: files_def)
  have "length b = unat (br_logical_size r)"
    unfolding b using assms(1) wf_files_D(1) [OF _ assms(3)] by (intro read_record_ok(2)) (simp_all add: wf_store_def)
  then show ?thesis
    using write_range_inside_ok [OF assms(1-4,6), of off] assms(7,8) b by simp
qed

lemma write_inside_patches_one_file_witness:
  "\<exists>ch t. write_range_report 1 3 [1, 2] two_files = (Ok \<lparr>rw_size = 8, rw_changed = ch\<rparr>, t)
    \<and> files t = [2 \<mapsto> [21, 22, 23, 24], 1 \<mapsto> [11, 12, 13, 1, 2, 16, 17, 18]]"
proof -
  have "om_get (st_records two_files) 1 = Some (tiny_record 1 8 [tiny_extent 4 0 1, tiny_extent 4 2 1])"
    by (simp add: two_files_def)
  then show ?thesis
    using write_inside_patches_one_file [OF two_files_wf(1,2), of 1 _ "[11, 12, 13, 14, 15, 16, 17, 18]" "[1, 2]" 3]
    by (auto simp: two_files_wf(3) plain_record_def put_def)
qed

text \<open>
  C13: a range read, done in whole sectors extent by extent, returns the bytes of the file in that range,
  shortened at its end.
\<close>

lemma range_read_is_slice:
  assumes "wf_store s" "files s i = Some b"
  shows "read_range i off n s = Ok (Some (cut (unat off) (unat n) b))"
  by (rule read_range_ok [OF assms])

lemma range_read_is_slice_witness: "read_range 1 3 4 two_files = Ok (Some [14, 15, 16, 17])"
  using range_read_is_slice [OF two_files_wf(1), of 1 "[11, 12, 13, 14, 15, 16, 17, 18]" 3 4] by (simp add: two_files_wf(3) cut_def)

text \<open>
  removing a file whose blocks form one range succeeds, leaves the other files and makes exactly its
  blocks free again.
\<close>

lemma removal_frees_the_blocks:
  assumes "wf_store s" "one_extent s i" "counts_below s" "om_get (st_records s) i = Some r"
  shows "\<exists>t x. st_remove i s = (Ok (Some x), t) \<and> ob_bytes x = the (files s i) \<and> wf_store t
    \<and> files t = (files s)(i := None) \<and> available t = available s \<union> rec_span r"
proof -
  obtain t where t: "st_remove i s = (map_result Some (from_record_and_bytes r (the (files s i))), t)" "wf_store t"
    "files t = (files s)(i := None)" "available t = available s \<union> rec_span r"
    using st_remove_ok [OF assms] by blast
  obtain n where "total_blocks r = Ok n"
    using one_extent_span [of r] assms(2,4) by (auto simp: one_extent_def)
  then show ?thesis
    using t by (simp add: from_record_and_bytes_def)
qed

lemma removal_frees_the_blocks_witness:
  "\<exists>t x. st_remove 2 two_files = (Ok (Some x), t) \<and> ob_bytes x = [21, 22, 23, 24] \<and> available t = available two_files \<union> {1}"
proof -
  have r: "om_get (st_records two_files) 2 = Some (tiny_record 2 4 [tiny_extent 4 1 1])" "one_extent two_files 2"
    by (simp_all add: two_files_def one_extent_def)
  have "rec_span (tiny_record 2 4 [tiny_extent 4 1 1]) = {1}"
    by (auto simp: rec_span_def er_span_def)
  then show ?thesis
    using removal_frees_the_blocks [OF two_files_wf(1) r(2) two_files_wf(2) r(1)] by (auto simp: two_files_wf(3))
qed

end
