(* ===== verification/Block_Store_Split.thy ===== *)
theory Block_Store_Split
  imports Block_Store_Props
begin

text \<open>
  What happens to a file that an append has split: the record then has two ranges of blocks, but a rewrite and
  a removal treat the blocks counted from its first one as the file's.
\<close>

section \<open>An append into a full pool\<close>

text \<open>The extents and blocks of a record of one extent after an append of \<open>k\<close> blocks at \<open>a\<close>.\<close>

lemma appended_blocks:
  fixes k :: u64
  assumes "br_extents r = [e]" "unat k < 2 ^ 32" "unat (er_length_blocks e) + unat k < 2 ^ 64"
  shows "first_physical_block (appended_record r lb a k extra) = er_physical_block e"
    "\<exists>n. total_blocks (appended_record r lb a k extra) = Ok n \<and> unat n = unat (er_length_blocks e) + unat k"
    "rec_span (appended_record r lb a k extra) = er_span e \<union> span a k"
proof -
  have u: "unat (ucast k :: u32) = unat k"
    using assms(2) by (simp add: unsigned_ucast_eq take_bit_nat_eq_self)
  then have c: "(ucast (ucast k :: u32) :: u64) = k"
    by (simp add: word_unat_eq_iff unat_ucast_u32)
  show "first_physical_block (appended_record r lb a k extra) = er_physical_block e"
    using assms(1) by (simp add: appended_record_def first_physical_block_def)
  show "\<exists>n. total_blocks (appended_record r lb a k extra) = Ok n \<and> unat n = unat (er_length_blocks e) + unat k"
    using assms(1,3) c u by (simp add: appended_record_def total_blocks_def uadd_def unat_add_ok unat_ucast_u32)
  show "rec_span (appended_record r lb a k extra) = er_span e \<union> span a k"
    using assms(1) c by (auto simp: appended_record_def rec_span_def er_span_def)
qed

lemma append_splits:
  assumes "wf_store s" "counts_below s" "st_free_extents s = []" "om_get (st_records s) i = Some r" "br_extents r = [e]" "plain_record r"
    and "extra \<noteq> []" "length extra < 2 ^ 32" "roomy s (blocks_for s extra)"
  shows "\<exists>t r' n. append_to_inode i extra s = (Ok (br_logical_size r + of_nat (length extra)), t) \<and> wf_store t \<and> counts_below t
    \<and> st_block_size t = st_block_size s \<and> files t = (files s)(i \<mapsto> the (files s i) @ extra)
    \<and> st_records t = om_insert i r' (st_records s) \<and> br_inode r' = br_inode r
    \<and> om_get (st_records t) i = Some r' \<and> (\<forall>j. j \<noteq> i \<longrightarrow> om_get (st_records t) j = om_get (st_records s) j)
    \<and> first_physical_block r' = er_physical_block e \<and> total_blocks r' = Ok n
    \<and> unat n = unat (er_length_blocks e) + blocks_for s extra
    \<and> rec_span r' = er_span e \<union> {unat (st_next_device_block s)..<unat (st_next_device_block s) + blocks_for s extra}
    \<and> unat (st_next_device_block t) = unat (st_next_device_block s) + blocks_for s extra
    \<and> available t = {unat (st_next_device_block s) + blocks_for s extra..}
    \<and> length (compat_image t) \<le> 2 * max (length (compat_image s))
         ((unat (st_next_device_block s) + blocks_for s extra) * block_bytes_of s) + 4096"
proof -
  have "br_extents r \<noteq> []"
    using assms(5) by simp
  from append_extent_ok [OF assms(1,2,4) this assms(6-9)] obtain t k a n v lb where
    t: "append_to_inode i extra s = (Ok (br_logical_size r + of_nat (length extra)), t)" "wf_store t"
    "files t = (files s)(i \<mapsto> rec_bytes (block_bytes_of s) (compat_image s) r @ extra)" "counts_below t" "st_block_size t = st_block_size s"
    and k: "unat k = blocks_for s extra" and v: "callocate k s = (Ok (a, n), v)"
    and tv: "st_free_extents t = st_free_extents v" "st_next_device_block t = st_next_device_block v"
    "st_records t = om_insert i (appended_record r lb a n extra) (st_records s)"
    and im: "length (compat_image t) \<le> 2 * max (length (compat_image s)) ((unat (st_next_device_block s) + unat k) * block_bytes_of s) + 4096"
    by blast
  have room: "unat (st_next_device_block s) + unat k < 2 ^ 32"
    using assms(9) k by (simp add: roomy_def)
  have next': "unat (sat_add (st_next_device_block s) k) = unat (st_next_device_block s) + unat k"
    using room by (simp add: sat_add_def unat_add_ok)
  have av: "(a, n) = (st_next_device_block s, k)" "v = s\<lparr>st_next_device_block := sat_add (st_next_device_block s) k\<rparr>"
    using v assms(3) by (auto simp: callocate_def allocate_extent_def Let_def split: store_strategy.splits)
  let ?r = "appended_record r lb (st_next_device_block s) k extra"
  have "unat (er_length_blocks e) < 2 ^ 32"
    using unsigned_less [of "er_length_blocks e", where 'a = nat] by simp
  then have lim: "unat k < 2 ^ 32" "unat (er_length_blocks e) + unat k < 2 ^ 64"
    using room by simp_all
  note b = appended_blocks [OF assms(5) lim, of lb "st_next_device_block s" extra]
  obtain m where m: "total_blocks ?r = Ok m" "unat m = unat (er_length_blocks e) + blocks_for s extra"
    using b(2) k by auto
  have ok: "om_ok (st_records s)"
    using assms(1) by (simp add: wf_store_def wf_files_def)
  have rec: "st_records t = om_insert i ?r (st_records s)" "br_inode ?r = br_inode r"
    using tv(3) av(1) by (simp_all add: appended_record_def)
  have "om_get (st_records t) i = Some ?r" "\<forall>j. j \<noteq> i \<longrightarrow> om_get (st_records t) j = om_get (st_records s) j"
    using om.insert_law [OF ok] av(1) by (simp_all add: tv(3))
  moreover have "available t = {unat (st_next_device_block s) + blocks_for s extra..}"
    using assms(3) next' k av(2) tv by (simp add: available_def fe_cover_def)
  moreover have "files t = (files s)(i \<mapsto> the (files s i) @ extra)"
    using t(3) record_bytes [OF assms(4)] by simp
  moreover have "rec_span ?r = er_span e \<union> {unat (st_next_device_block s)..<unat (st_next_device_block s) + blocks_for s extra}"
    using b(3) k by (auto simp: set_eq_iff)
  moreover have "unat (st_next_device_block t) = unat (st_next_device_block s) + blocks_for s extra"
    using next' k tv(2) av(2) by simp
  ultimately show ?thesis
    using t(1,2,4,5) b(1) m im [unfolded k] rec by (intro exI [of _ t] exI [of _ ?r] exI [of _ m]) blast
qed

section \<open>Two neighbours\<close>

text \<open>Two files of four bytes in the blocks 0 and 1, nothing else.\<close>

abbreviation neighbours :: block_store where
  "neighbours \<equiv> tiny_store [(1, tiny_record 1 4 [tiny_extent 4 0 1]), (2, tiny_record 2 4 [tiny_extent 4 1 1])] [] 2
     [11, 12, 13, 14, 21, 22, 23, 24]"

lemma neighbours_ok:
  "wf_store neighbours" "counts_below neighbours" "files neighbours = [1 \<mapsto> [11, 12, 13, 14], 2 \<mapsto> [21, 22, 23, 24]]"
proof -
  show "counts_below neighbours"
    by (rule tiny_wf [where k = 2]) simp_all
  have "wf_space neighbours"
    by (simp add: wf_space_def)
  moreover have "wf_device neighbours"
    by (rule tiny_wf [where k = 2]) simp_all
  moreover have "wf_files neighbours"
    by (auto simp: wf_files_def om_ok_def wf_record_def wf_extent_def rec_span_def er_span_def available_def fe_cover_def
        split: if_splits)
  ultimately show "wf_store neighbours"
    by (simp add: wf_store_def)
  show "files neighbours = [1 \<mapsto> [11, 12, 13, 14], 2 \<mapsto> [21, 22, 23, 24]]"
    by (rule ext) (simp add: files_def rec_bytes_def ext_content_def cut_def)
qed

section \<open>A rewrite after an append\<close>

text \<open>The second half of a full write, wherever the blocks come from.\<close>

lemma put_file_writes:
  fixes a n :: u64
  assumes "wf_device t" "counts_below t" "om_ok (st_records t)" "length bs \<le> unat n * block_bytes_of t"
    and "length (compat_image t) < 2 ^ 62" "(unat a + unat n) * block_bytes_of t < 2 ^ 62"
  shows "\<exists>u. put_file i a n bs t = (Ok (of_nat (length bs)), u) \<and> st_block_size u = st_block_size t
    \<and> (\<forall>j. j \<noteq> i \<longrightarrow> om_get (st_records u) j = om_get (st_records t) j)
    \<and> length (compat_image t) \<le> length (compat_image u) \<and> cut (unat a * block_bytes_of t) (length bs) (compat_image u) = bs"
proof -
  let ?t = "t\<lparr>st_records := om_remove i (st_records t)\<rparr>" and ?r = "whole_record i a n (of_nat (length bs)) (content_crc bs)"
  have "wf_device ?t"
    using assms(1) by (simp add: wf_device_def)
  then obtain v where v: "store_compat a n bs ?t = (Ok (), v)" "v = ?t\<lparr>st_compat_device := st_compat_device v\<rparr>"
    "length (compat_image t) \<le> length (compat_image v)" "cut (unat a * block_bytes_of t) (length bs) (compat_image v) = bs"
    using store_compat_ok [of ?t a n bs] assms(4-6) by auto
  have vs: "st_records v = om_remove i (st_records t)" "st_dedup_table v = st_dedup_table t" "st_block_size v = st_block_size t"
    by (subst v(2), simp)+
  have "counts_below v"
    using assms(2) by (simp add: counts_below_def vs)
  then obtain x where x: "dedup_insert (content_crc bs) a (ucast n) (ucast (of_nat (length bs) :: u64)) v = (Ok (), x)" "same_space v x"
    using dedup_insert_ok by blast
  let ?u = "x\<lparr>st_records := om_insert i ?r (st_records x)\<rparr>"
  have xs: "st_records x = om_remove i (st_records t)" "st_compat_device x = st_compat_device v" "st_block_size x = st_block_size t"
    using x(2) vs by (simp_all add: same_space_def)
  have "put_file i a n bs t = (Ok (of_nat (length bs)), ?u)"
    unfolding put_file_def using v(1) x(1)
    by (simp add: cthen_run(1) [where m = "cmod _"] cthen_run(1) [where m = "store_compat _ _ _"] cthen_run(1) [where m = "dedup_insert _ _ _ _"])
  moreover have "om_get (st_records ?u) j = om_get (st_records t) j" if "j \<noteq> i" for j
    using that om.insert_law [of "om_remove i (st_records t)"] om.remove_law [OF assms(3)] by (simp add: xs)
  ultimately show ?thesis
    using v(3,4) xs by (intro exI [of _ ?u]) simp
qed

text \<open>A rewrite that fits into the blocks of the record goes to as many blocks counted from its first one.\<close>

lemma st_write_reuses:
  assumes "wf_device t" "counts_below t" "om_ok (st_records t)" "om_get (st_records t) i = Some r" "total_blocks r = Ok n"
    and "blocks_for t bs \<le> unat n" "length bs < 2 ^ 32" "wf_space t"
    and "length (compat_image t) < 2 ^ 62" "(unat (first_physical_block r) + unat n) * block_bytes_of t < 2 ^ 62"
    and "span (sat_add (first_physical_block r) (of_nat (blocks_for t bs))) (n - of_nat (blocks_for t bs)) \<inter> available t = {}"
  shows "\<exists>u. st_write i bs t = (Ok (of_nat (length bs)), u) \<and> st_block_size u = st_block_size t
    \<and> (\<forall>j. j \<noteq> i \<longrightarrow> om_get (st_records u) j = om_get (st_records t) j) \<and> length (compat_image t) \<le> length (compat_image u)
    \<and> cut (unat (first_physical_block r) * block_bytes_of t) (length bs) (compat_image u) = bs"
proof -
  obtain k where k: "needed_blocks (of_nat (length bs)) (st_block_size t) = Ok k" "unat k = blocks_for t bs"
    using needed_blocks_ok(1) [OF assms(1,7)] by blast
  have kn: "k \<le> n" "of_nat (blocks_for t bs) = k"
  proof -
    show "k \<le> n"
      using assms(6) k(2) by (simp add: word_le_nat_alt)
    show "of_nat (blocks_for t bs) = k"
      unfolding k(2) [symmetric] by simp
  qed
  let ?f = "first_physical_block r" and ?d = "dedup_release (br_content_crc r) t"
  let ?v = "if n > k then release_span (sat_add ?f k) (n - k) ?d else ?d"
  have d: "wf_space ?d" "available ?d = available t" "same_records t ?d" "counts_below ?d"
    using same_space_sel(1,2) [OF dedup_release_same] same_records_simps(2) [OF dedup_release_same] dedup_release_counts [OF assms(2)]
      assms(8) by simp_all
  have "span (sat_add ?f k) (n - k) \<inter> available ?d = {}"
    using assms(11) unfolding kn(2) d(2) .
  then have "same_files ?d (release_span (sat_add ?f k) (n - k) ?d)"
    using release_span_ok [OF d(1)] by (simp add: shrinks_def)
  then have v: "same_records t ?v" "counts_below ?v"
    using d(3,4) same_records_simps(1,3) same_files_counts by auto
  then have vs: "st_block_size ?v = st_block_size t" "st_records ?v = st_records t" "st_compat_device ?v = st_compat_device t"
    by (simp_all only: same_records_def)
  have w: "wf_device ?v" "om_ok (st_records ?v)"
    using assms(1,3) unfolding wf_device_def vs .
  have "(unat ?f + blocks_for t bs) * block_bytes_of t \<le> (unat ?f + unat n) * block_bytes_of t"
    by (rule mult_right_mono) (use assms(6) in simp_all)
  then have "(unat ?f + blocks_for t bs) * block_bytes_of t < 2 ^ 62"
    using assms(10) by (rule le_less_trans)
  then have "length bs \<le> unat k * block_bytes_of ?v" "(unat ?f + unat k) * block_bytes_of ?v < 2 ^ 62"
    unfolding vs k(2) using blocks_for_ok(2) [OF assms(1)] by simp_all
  from put_file_writes [OF w(1) v(2) w(2) this(1) _ this(2), unfolded vs, OF assms(9)] obtain u where
    u: "put_file i ?f k bs ?v = (Ok (of_nat (length bs)), u)" "st_block_size u = st_block_size t"
    "\<forall>j. j \<noteq> i \<longrightarrow> om_get (st_records u) j = om_get (st_records t) j" "length (compat_image t) \<le> length (compat_image u)"
    "cut (unat ?f * block_bytes_of t) (length bs) (compat_image u) = bs"
    by blast
  have "place_write i k t = (Ok (?f, k), ?v)"
    using assms(4,5) kn(1) by (simp add: place_write_def cbind_run(1) [where m = "clift _"] cthen_run(1) [where m = "cmod _"] Let_def)
  then have "st_write i bs t = put_file i ?f k bs ?v"
    using k(1) by (simp add: st_write_def Let_def put_file_def cbind_run(1) [where m = "clift _"] cbind_run(1) [where m = "place_write _ _"])
  then show ?thesis
    using u by (intro exI [of _ u]) simp
qed



section \<open>A removal after an append\<close>

text \<open>
  C16: a file of one extent whose next block belongs to another file, in a pool without free extents: after an append
  to it and its removal, that block of the other file is available while the other file still uses it,
  and the last block of the removed file belongs to no file and is not available.
\<close>

lemma removal_after_append_frees_neighbour:
  assumes "wf_store s" "counts_below s" "st_free_extents s = []"
    and "om_get (st_records s) i = Some r" "br_extents r = [e]" "plain_record r"
    and "om_get (st_records s) j = Some q" "j \<noteq> i" "unat (er_physical_block e) + unat (er_length_blocks e) \<in> rec_span q"
    and "extra \<noteq> []" "length extra < 2 ^ 32" "roomy s (blocks_for s extra)"
  defines "last_block \<equiv> unat (st_next_device_block s) + blocks_for s extra - 1"
  shows "\<exists>t x u. append_to_inode i extra s = (Ok (br_logical_size r + of_nat (length extra)), t)
    \<and> last_block \<in> rec_span (the (om_get (st_records t) i))
    \<and> st_remove i t = (Ok (Some x), u) \<and> ob_bytes x = the (files s i) @ extra \<and> files u = (files s)(i := None)
    \<and> om_get (st_records u) j = Some q \<and> unat (er_physical_block e) + unat (er_length_blocks e) \<in> available u
    \<and> last_block \<notin> available u \<and> (\<forall>h p. om_get (st_records u) h = Some p \<longrightarrow> last_block \<notin> rec_span p)"
proof -
  let ?next = "unat (st_next_device_block s)" and ?k = "blocks_for s extra"
    and ?y = "unat (er_physical_block e) + unat (er_length_blocks e)"
  obtain t r' n where t: "append_to_inode i extra s = (Ok (br_logical_size r + of_nat (length extra)), t)" "wf_store t" "counts_below t"
    "files t = (files s)(i \<mapsto> the (files s i) @ extra)" "om_get (st_records t) i = Some r'"
    "\<forall>j. j \<noteq> i \<longrightarrow> om_get (st_records t) j = om_get (st_records s) j"
    and r': "first_physical_block r' = er_physical_block e" "total_blocks r' = Ok n" "unat n = unat (er_length_blocks e) + ?k"
    "rec_span r' = er_span e \<union> {?next..<?next + ?k}" and av: "available t = {?next + ?k..}"
    using append_splits [OF assms(1-6,10-12)] by blast
  have w: "wf_space s" "wf_device s" "wf_files s" "wf_space t" "wf_device t" "wf_files t"
    using assms(1) t(2) by (simp_all add: wf_store_def)
  have kp: "0 < ?k"
    using blocks_for_ok [OF w(2), of extra] by simp
  have y: "?y < ?next"
    using span_below [OF w(1) assms(9)] wf_files_D(2) [OF w(3) assms(7)] by blast
  let ?t = "t\<lparr>st_records := om_remove i (st_records t)\<rparr>" and ?c = "br_content_crc r'"
  let ?d = "dedup_release ?c ?t"
  let ?u = "release_span (er_physical_block e) n ?d"
  note d = dedup_release_same [of ?t ?c]
  have ds: "wf_space ?d" "available ?d = {?next + ?k..}" "same_records ?t ?d"
    using same_space_sel(1,2) [OF d] same_records_simps(2) [OF d] w(4) av by (simp_all add: wf_space_def available_def)
  have "span (er_physical_block e) n \<inter> available ?d = {}"
    using y r'(3) by (auto simp: ds(2))
  from release_span_ok [OF ds(1) this] have u: "available ?u = {?next + ?k..} \<union> span (er_physical_block e) n" "same_files ?d ?u"
    by (simp_all add: ds(2) shrinks_def)
  have us: "same_records ?t ?u"
    using same_records_simps(1,3) ds(3) u(2) by blast
  then have recs: "st_records ?u = om_remove i (st_records t)" and dev: "st_compat_device ?u = st_compat_device t" "st_block_size ?u = st_block_size t"
    by (simp_all add: same_records_def)
  have ok: "om_ok (st_records t)"
    using w(6) by (simp add: wf_files_def)
  have get: "om_get (st_records ?u) h = (if h = i then None else om_get (st_records t) h)" for h
    unfolding recs using om.remove_law [OF ok] by simp
  have "read_bytes_internal r' t = Ok (the (files t i))"
    using read_record_ok(1) [OF w(5) wf_files_D(1) [OF w(6) t(5)]] record_bytes [OF t(5)] by simp
  moreover have "release_record r' ?t = (Ok (), ?u)"
    by (simp add: release_record_def cbind_run(1) [where m = "clift _"] r'(1,2))
  ultimately have "\<exists>x. st_remove i t = (Ok (Some x), ?u) \<and> ob_bytes x = the (files s i) @ extra"
    using t(4,5) r'(2) by (simp add: st_remove_def cbind_run(1) [where m = "cread _"] cthen_run(1) [where m = "cmod _"]
        cthen_run(1) [where m = "release_record _"] cbind_run(1) [where m = "clift _"] from_record_and_bytes_def)
  then obtain x where x: "st_remove i t = (Ok (Some x), ?u)" "ob_bytes x = the (files s i) @ extra"
    by blast
  have files_u: "files ?u = (files s)(i := None)"
  proof (rule ext)
    fix h
    have "files ?u h = (if h = i then None else files t h)"
      by (simp add: files_def get dev)
    then show "files ?u h = ((files s)(i := None)) h"
      using t(4) by simp
  qed
  have last: "last_block \<in> rec_span r'" "last_block \<notin> available ?u"
    using kp y r'(3,4) by (auto simp: last_block_def u(1))
  have nowhere: "last_block \<notin> rec_span p" if "om_get (st_records ?u) h = Some p" for h p
  proof -
    have "h \<noteq> i" "om_get (st_records t) h = Some p"
      using that get [of h] by (auto split: if_splits)
    then show ?thesis
      using wf_files_D(3) [OF w(6), of h p i] t(5) last(1) by (auto simp: old_span_def)
  qed
  have "om_get (st_records ?u) j = Some q" "?y \<in> available ?u"
    using get [of j] t(6) assms(7,8) r'(3) kp by (simp_all add: u(1))
  then show ?thesis
    using t(1,5) x files_u last nowhere by (intro exI [of _ t] exI [of _ x] exI [of _ ?u] conjI allI impI) simp_all
qed

lemma removal_after_append_frees_neighbour_witness:
  "\<exists>t x u. append_to_inode 1 [15, 16, 17, 18] neighbours = (Ok 8, t) \<and> st_remove 1 t = (Ok (Some x), u)
    \<and> ob_bytes x = [11, 12, 13, 14, 15, 16, 17, 18] \<and> om_get (st_records u) 2 = Some (tiny_record 2 4 [tiny_extent 4 1 1])
    \<and> 1 \<in> available u \<and> 2 \<notin> available u"
proof -
  have "1 \<in> rec_span (tiny_record 2 4 [tiny_extent 4 1 1])"
    by (simp add: rec_span_def er_span_def)
  moreover have "blocks_for neighbours [15, 16, 17, 18] = 1"
    by (simp add: blocks_for_def)
  moreover have "roomy neighbours 1"
    by (simp add: roomy_def)
  ultimately have "\<exists>t x u. append_to_inode 1 [15, 16, 17, 18] neighbours = (Ok (4 + of_nat (length [15, 16, 17, 18 :: u8])), t)
    \<and> (2 + 1 - 1 :: nat) \<in> rec_span (the (om_get (st_records t) 1))
    \<and> st_remove 1 t = (Ok (Some x), u) \<and> ob_bytes x = the (files neighbours 1) @ [15, 16, 17, 18] \<and> files u = (files neighbours)(1 := None)
    \<and> om_get (st_records u) 2 = Some (tiny_record 2 4 [tiny_extent 4 1 1]) \<and> 1 \<in> available u
    \<and> 2 + 1 - 1 \<notin> available u \<and> (\<forall>h p. om_get (st_records u) h = Some p \<longrightarrow> (2 + 1 - 1 :: nat) \<notin> rec_span p)"
    using removal_after_append_frees_neighbour [OF neighbours_ok(1,2), of 1 "tiny_record 1 4 [tiny_extent 4 0 1]" "tiny_extent 4 0 1" 2
        "tiny_record 2 4 [tiny_extent 4 1 1]" "[15, 16, 17, 18]"]
    by (simp add: plain_record_def)
  then show ?thesis
    by (auto simp: neighbours_ok(3))
qed

end
