(* ===== verification/Block_Store_Maint.thy ===== *)
theory Block_Store_Maint
  imports Block_Store_Ops
begin

text \<open>
  Clones, the checksum table's reports, the constructors from saved records and the compaction of the block
  store.  Counts of list elements (\<open>usize\<close>) are \<open>nat\<close>.
\<close>

section \<open>Rebuilding the allocator\<close>

text \<open>The blocks of a record as the allocator sees them: from its first block, as many as all its extents have.\<close>

definition occupied_range :: "block_record \<Rightarrow> (u64 \<times> u64) result" where
  "occupied_range r =
     rbind (total_blocks r) (\<lambda>n.
       Ok (first_physical_block r, sat_add (first_physical_block r) (max n 1)))"

definition occupied_ranges :: "block_store \<Rightarrow> (u64 \<times> u64) list result" where
  "occupied_ranges s =
     rbind (rfor (\<lambda>r acc. rbind (occupied_range r) (\<lambda>x. Ok (acc @ [x]))) (om_values (st_records s)) [])
       (\<lambda>xs. Ok (sort_key fst xs))"

text \<open>The gaps between the ranges, and the end of the last.\<close>

fun gaps :: "(u64 \<times> u64) list \<Rightarrow> u64 \<Rightarrow> free_extent_record list \<times> u64" where
  "gaps [] cursor = ([], cursor)"
| "gaps ((start, stop) # xs) cursor =
    (let (fs, n) = gaps xs (max cursor stop) in
     (if start > cursor then \<lparr>fe_device_block = cursor, fe_allocated_blocks = start - cursor\<rparr> # fs else fs, n))"

definition rebuild_free_extents :: "(block_store, unit) cmd" where
  "rebuild_free_extents =
     cbind (cread occupied_ranges) (\<lambda>occupied.
       cmod (\<lambda>s.
         let (fs, cursor) = gaps occupied 0;
             s = s\<lparr>st_free_extents := fs, st_next_device_block := max (st_next_device_block s) cursor\<rparr> in
         if ap_tail_trim_enabled (st_policy s) then trim_free_tail s else s))"

definition ingest_record :: "block_record \<Rightarrow> (block_store, unit) cmd" where
  "ingest_record r =
     cbind (clift (total_blocks r)) (\<lambda>n.
     cthen (cmod (\<lambda>s. s\<lparr>st_next_device_block :=
              max (st_next_device_block s) (sat_add (first_physical_block r) (max n 1))\<rparr>))
    (cthen (dedup_insert (br_content_crc r) (first_physical_block r) (ucast n) (ucast (br_logical_size r)))
           (put_record (br_inode r) r)))"

definition ingest_records :: "block_record list \<Rightarrow> (block_store, unit) cmd" where
  "ingest_records rs = cthen (cfor ingest_record rs) rebuild_free_extents"

definition free_overlaps :: "free_extent_record list \<Rightarrow> bool" where
  "free_overlaps fs \<longleftrightarrow> list_ex (\<lambda>(l, r). fe_end l > fe_device_block r) (zip fs (tl fs))"

text \<open>\<open>validate_allocator_state\<close>: \<open>Ok False\<close> is its \<open>Err(())\<close>.\<close>

definition validate_allocator_state :: "(block_store, bool) cmd" where
  "validate_allocator_state =
     cbind (cread occupied_ranges) (\<lambda>occupied.
     cbind (cread (\<lambda>s. Ok (sort_key fe_device_block (st_free_extents s)))) (\<lambda>free.
     if free_overlaps free
       \<or> list_ex (\<lambda>e. list_ex (\<lambda>(start, stop). fe_device_block e < stop \<and> start < fe_end e) occupied) free
     then cret False
     else
       let max_free_end = fold max (map fe_end free) 0; max_occ_end = fold max (map snd occupied) 0 in
       cthen (cmod (\<lambda>s. s\<lparr>st_next_device_block := max (st_next_device_block s) (max max_free_end max_occ_end)\<rparr>))
         (cret True)))"

definition adopt_free_extents :: "free_extent_record list \<Rightarrow> (block_store, bool) cmd" where
  "adopt_free_extents fs =
     cthen (cmod (\<lambda>s. settle_free_extents (s\<lparr>st_free_extents := filter (\<lambda>e. fe_allocated_blocks e > 0) fs\<rparr>)))
       validate_allocator_state"

text \<open>The released ranges that have not been handed out for discarding yet; taking them clears the list.\<close>

definition drain_freed_extents :: "(block_store, freed_extent list) cmd" where
  "drain_freed_extents s = (Ok (st_pending_trims s), s\<lparr>st_pending_trims := []\<rparr>)"

definition set_allocator_policy :: "allocator_policy \<Rightarrow> block_store \<Rightarrow> block_store" where
  "set_allocator_policy policy s = settle_free_extents (s\<lparr>st_policy := policy\<rparr>)"

section \<open>The constructors\<close>

text \<open>\<open>None\<close>: the constructor does not return.\<close>

definition constructed :: "block_store result option \<Rightarrow> (block_store, unit) cmd \<Rightarrow> block_store result option" where
  "constructed made m = map_option (\<lambda>r. rbind r (\<lambda>s. case m s of
     (Ok (), t) \<Rightarrow> Ok t | (Err e, t) \<Rightarrow> Err e | (Panic, t) \<Rightarrow> Panic)) made"

definition adopt_or_rebuild :: "free_extent_record list \<Rightarrow> (block_store, unit) cmd" where
  "adopt_or_rebuild fs = cbind (adopt_free_extents fs) (\<lambda>ok. if ok then cret () else rebuild_free_extents)"

definition with_block_size :: "u64 \<Rightarrow> block_store result option" where
  "with_block_size block_size = with_block_size_and_policy block_size allocator_policy_default"

definition from_records :: "block_record list \<Rightarrow> block_store result option" where
  "from_records rs = constructed (with_block_size 4096) (ingest_records rs)"

definition from_records_with_block_size :: "block_record list \<Rightarrow> u64 \<Rightarrow> block_store result option" where
  "from_records_with_block_size rs block_size = constructed (with_block_size block_size) (ingest_records rs)"

definition from_records_with_allocator ::
    "block_record list \<Rightarrow> u64 \<Rightarrow> allocator_policy \<Rightarrow> free_extent_record list \<Rightarrow> block_store result option" where
  "from_records_with_allocator rs block_size policy fs =
     constructed (with_block_size_and_policy block_size policy) (cthen (ingest_records rs) (adopt_or_rebuild fs))"

definition from_records_with_allocator_and_start ::
    "block_record list \<Rightarrow> u64 \<Rightarrow> allocator_policy \<Rightarrow> free_extent_record list \<Rightarrow> u64 \<Rightarrow> block_store result option" where
  "from_records_with_allocator_and_start rs block_size policy fs first_data_block =
     constructed (with_block_size_and_policy block_size policy)
      (cthen (cmod (\<lambda>s. s\<lparr>st_next_device_block := first_data_block\<rparr>))
      (cthen (ingest_records rs) (adopt_or_rebuild fs)))"

section \<open>Clones\<close>

definition is_shared :: "inode_id \<Rightarrow> block_store \<Rightarrow> bool" where
  "is_shared inode s =
    (case om_get (st_records s) inode of
       None \<Rightarrow> False
     | Some r \<Rightarrow>
         (case om_get (st_dedup_table s) (br_content_crc r) of None \<Rightarrow> False | Some e \<Rightarrow> dd_ref_count e > 1))"

definition blob_checksum :: "inode_id \<Rightarrow> block_store \<Rightarrow> u64 option" where
  "blob_checksum inode s = map_option (\<lambda>r. ucast (br_content_crc r)) (om_get (st_records s) inode)"

definition share_entry :: "u32 \<Rightarrow> u64 \<Rightarrow> u32 \<Rightarrow> u32 \<Rightarrow> (block_store, unit) cmd" where
  "share_entry crc physical_block length_blocks physical_len s =
    (case om_get (st_dedup_table s) crc of
       Some entry \<Rightarrow> dedup_insert crc physical_block length_blocks physical_len s
     | None \<Rightarrow>
         (Ok (), s\<lparr>st_dedup_table := om_insert crc
            \<lparr>dd_physical_block = physical_block, dd_length_blocks = length_blocks,
             dd_physical_len = physical_len, dd_ref_count = 2\<rparr> (st_dedup_table s)\<rparr>))"

definition clone_for_inode :: "inode_id \<Rightarrow> inode_id \<Rightarrow> (block_store, bool) cmd" where
  "clone_for_inode source target s =
    (case om_get (st_records s) source of
       None \<Rightarrow> (Ok False, s)
     | Some r \<Rightarrow>
         cbind (cread (read_bytes_internal r)) (\<lambda>bs.
         let len = of_nat (length bs); crc = br_content_crc r in
         cbind (clift (needed_blocks len (st_block_size s))) (\<lambda>needed.
         cbind (callocate (max needed 1)) (\<lambda>(phys_block, allocated_blocks).
         cthen (if len > 0 then store_compat phys_block allocated_blocks bs else cret ())
        (cthen (share_entry crc phys_block (ucast allocated_blocks) (ucast len))
        (cthen (put_record target (whole_record target phys_block allocated_blocks len crc))
               (cret True)))))) s)"

section \<open>Reports\<close>

record cow_stats =
  cs_shared_blobs :: nat
  cs_shared_logical_bytes :: u64
  cs_bytes_saved_by_sharing :: u64
  cs_exclusive_blobs :: nat
  cs_max_ref_count :: u64

definition count_entry :: "dedup_entry \<Rightarrow> cow_stats \<Rightarrow> cow_stats" where
  "count_entry e c =
    (let rc = ucast (dd_ref_count e); n = ucast (dd_physical_len e);
         c = c\<lparr>cs_max_ref_count := max (cs_max_ref_count c) rc\<rparr> in
     if rc > 1 then
       c\<lparr>cs_shared_blobs := cs_shared_blobs c + 1,
         cs_shared_logical_bytes := sat_add (cs_shared_logical_bytes c) (sat_mul n rc),
         cs_bytes_saved_by_sharing := sat_add (cs_bytes_saved_by_sharing c) (sat_mul n (rc - 1))\<rparr>
     else if rc = 1 then c\<lparr>cs_exclusive_blobs := cs_exclusive_blobs c + 1\<rparr> else c)"

definition cow_stats_of :: "block_store \<Rightarrow> cow_stats" where
  "cow_stats_of s = fold count_entry (om_values (st_dedup_table s))
     \<lparr>cs_shared_blobs = 0, cs_shared_logical_bytes = 0, cs_bytes_saved_by_sharing = 0, cs_exclusive_blobs = 0, cs_max_ref_count = 0\<rparr>"

record dedupe_stats =
  ds_logical_blocks :: nat
  ds_unique_blobs :: nat
  ds_deduplicated_blocks :: nat

definition dedupe_stats_of :: "block_store \<Rightarrow> dedupe_stats" where
  "dedupe_stats_of s =
    \<lparr>ds_logical_blocks = length (st_records s), ds_unique_blobs = length (st_dedup_table s),
     ds_deduplicated_blocks = length (st_records s) - length (st_dedup_table s)\<rparr>"

record dedupe_pass_report =
  dp_blobs_scanned :: nat
  dp_bytes_scanned :: u64
  dp_duplicates_consolidated :: nat
  dp_bytes_reclaimed :: nat
  dp_hash_collisions :: nat
  dp_ref_count_mismatches :: nat

definition expected_refs :: "block_store \<Rightarrow> u32 \<Rightarrow> u32 result" where
  "expected_refs s crc =
     rfor (\<lambda>r n. if br_content_crc r = crc then uadd n 1 else Ok n) (om_values (st_records s)) 0"

definition recounted :: "block_store \<Rightarrow> (u32, dedup_entry) omap result" where
  "recounted s = rfor (\<lambda>(crc, e) acc. rbind (expected_refs s crc) (\<lambda>n. Ok (acc @ [(crc, e\<lparr>dd_ref_count := n\<rparr>)])))
     (st_dedup_table s) []"

definition dedup_pass :: "(block_store, dedupe_pass_report) cmd" where
  "dedup_pass s =
    cbind (clift (rfor (\<lambda>e n. uadd n (ucast (dd_physical_len e))) (om_values (st_dedup_table s)) 0)) (\<lambda>bytes_scanned.
    cbind (cread recounted) (\<lambda>table.
    cthen (cmod (\<lambda>s. s\<lparr>st_dedup_table := filter (\<lambda>(crc, e). dd_ref_count e > 0) table\<rparr>))
      (cret \<lparr>dp_blobs_scanned = length (st_dedup_table s), dp_bytes_scanned = bytes_scanned,
             dp_duplicates_consolidated = 0, dp_bytes_reclaimed = 0, dp_hash_collisions = 0,
             dp_ref_count_mismatches =
               length (filter (\<lambda>((_, e), (_, e')). dd_ref_count e \<noteq> dd_ref_count e') (zip (st_dedup_table s) table))\<rparr>))) s"

record fragmentation_report =
  fr_free_extents :: nat
  fr_total_free_blocks :: u64
  fr_largest_free_extent :: u64
  fr_fragmented_free_blocks :: u64
  fr_fragmentation_percent :: u8
  fr_needs_compaction :: bool

definition fragmentation_percent :: "u64 \<Rightarrow> u64 \<Rightarrow> u8" where
  "fragmentation_percent fragmented total_free =
    (if total_free = 0 then 0 else ucast (min (sat_mul fragmented 100 div total_free) 100))"

definition fragmentation_threshold :: "block_store \<Rightarrow> u8" where
  "fragmentation_threshold s = min (ap_fragmentation_threshold_percent (st_policy s)) 100"

definition fragmentation_report_of :: "block_store \<Rightarrow> fragmentation_report result" where
  "fragmentation_report_of s =
     rbind (rfor (\<lambda>e n. uadd n (fe_allocated_blocks e)) (st_free_extents s) 0) (\<lambda>total_free.
     let largest = fold max (map fe_allocated_blocks (st_free_extents s)) 0;
         fragmented = sat_sub total_free largest;
         percent = fragmentation_percent fragmented total_free in
     Ok \<lparr>fr_free_extents = length (st_free_extents s), fr_total_free_blocks = total_free,
         fr_largest_free_extent = largest, fr_fragmented_free_blocks = fragmented,
         fr_fragmentation_percent = percent,
         fr_needs_compaction = (ap_background_compaction_enabled (st_policy s)
           \<and> percent \<ge> fragmentation_threshold s \<and> length (st_free_extents s) > 1)\<rparr>)"

section \<open>Compaction\<close>

text \<open>One range copied inside the internal device, if both ends fit; a failure is ignored.\<close>

definition move_blocks :: "u64 \<Rightarrow> u64 \<Rightarrow> u64 \<Rightarrow> (block_store, unit) cmd" where
  "move_blocks source dest blocks s =
    (if blocks = 0 then (Ok (), s)
     else
       cbind (clift (umul source (st_block_size s))) (\<lambda>from_offset.
       cbind (clift (umul blocks (st_block_size s))) (\<lambda>len.
       cbind (clift (uadd from_offset len)) (\<lambda>from_end.
       if from_end > compat_capacity s then cret ()
       else
         cbind (clift (umul dest (st_block_size s))) (\<lambda>to_offset.
         cbind (clift (uadd to_offset len)) (\<lambda>to_end.
         if to_end > compat_capacity s then cret ()
         else
           (case mem_read_at (st_compat_device s) from_offset len of
              Ok bs \<Rightarrow> cignore (on_compat (mem_write_at to_offset bs))
            | Err _ \<Rightarrow> cret ()
            | Panic \<Rightarrow> clift Panic)))))) s)"

text \<open>Every extent of a moved record gets the same block.\<close>

definition relocated :: "u64 \<Rightarrow> block_record \<Rightarrow> block_record" where
  "relocated cursor r = r\<lparr>br_extents := map (\<lambda>e. e\<lparr>er_physical_block := cursor\<rparr>) (br_extents r)\<rparr>"

text \<open>The records in their new order, the new high-water mark and the number of records moved.\<close>

primrec defragment_loop :: "(inode_id \<times> block_record) list \<Rightarrow> u64 \<Rightarrow> nat
    \<Rightarrow> (block_store, (inode_id \<times> block_record) list \<times> u64 \<times> nat) cmd" where
  "defragment_loop [] cursor moved = cret ([], cursor, moved)"
| "defragment_loop (x # xs) cursor moved =
     cbind (clift (total_blocks (snd x))) (\<lambda>blocks.
     let misplaced = first_physical_block (snd x) \<noteq> cursor in
     cthen (if misplaced then move_blocks (first_physical_block (snd x)) cursor blocks else cret ())
    (cbind (defragment_loop xs (sat_add cursor (max blocks 1)) (if misplaced then moved + 1 else moved)) (\<lambda>(ys, c, m).
       cret ((fst x, if misplaced then relocated cursor (snd x) else snd x) # ys, c, m))))"

record defragmentation_report =
  df_moved_entries :: nat
  df_reclaimed_gaps :: nat
  df_final_device_blocks :: u64

definition om_collect :: "('k::linorder \<times> 'v) list \<Rightarrow> ('k, 'v) omap" where
  "om_collect xs = fold (\<lambda>(k, v). om_insert k v) xs []"

definition compacted :: "(inode_id \<times> block_record) list \<Rightarrow> u64 \<Rightarrow> block_store \<Rightarrow> block_store" where
  "compacted entries cursor s = s\<lparr>st_records := om_collect entries, st_free_extents := [], st_next_device_block := cursor\<rparr>"

definition defragment :: "(block_store, defragmentation_report) cmd" where
  "defragment s =
     cbind (defragment_loop (sort_key (\<lambda>x. first_physical_block (snd x)) (st_records s)) 0 0) (\<lambda>(entries, cursor, moved).
       cthen (cmod (compacted entries cursor))
         (cret \<lparr>df_moved_entries = moved, df_reclaimed_gaps = length (st_free_extents s), df_final_device_blocks = cursor\<rparr>)) s"

record heat_reallocation_report =
  hr_prioritized_inodes :: nat
  hr_promoted_hot_inodes :: nat
  hr_moved_entries :: nat
  hr_final_device_blocks :: u64

text \<open>The last position of an inode that has a record; the greatest number for the others.\<close>

definition priority_map :: "inode_id list \<Rightarrow> block_store \<Rightarrow> (inode_id, nat) omap" where
  "priority_map prioritized s =
     fold (\<lambda>(k, inode) m. if om_get (st_records s) inode = None then m else om_insert inode k m)
       (enumerate 0 prioritized) []"

definition priority_rank :: "(inode_id, nat) omap \<Rightarrow> inode_id \<Rightarrow> nat" where
  "priority_rank m inode = (case om_get m inode of None \<Rightarrow> 2 ^ 64 - 1 | Some k \<Rightarrow> k)"

primrec reallocate_loop :: "(inode_id, nat) omap \<Rightarrow> (inode_id \<times> block_record) list \<Rightarrow> u64 \<Rightarrow> nat \<Rightarrow> nat
    \<Rightarrow> (block_store, (inode_id \<times> block_record) list \<times> u64 \<times> nat \<times> nat) cmd" where
  "reallocate_loop m [] cursor moved promoted = cret ([], cursor, moved, promoted)"
| "reallocate_loop m (x # xs) cursor moved promoted =
     cbind (clift (total_blocks (snd x))) (\<lambda>n.
     let original = first_physical_block (snd x); blocks = max n 1; misplaced = original \<noteq> cursor;
         hot = (om_get m (fst x) \<noteq> None \<and> cursor < original) in
     cthen (if misplaced then move_blocks original cursor blocks else cret ())
    (cbind (reallocate_loop m xs (sat_add cursor blocks) (if misplaced then moved + 1 else moved)
              (if misplaced \<and> hot then promoted + 1 else promoted)) (\<lambda>(ys, c, k, p).
       cret ((fst x, if misplaced then relocated cursor (snd x) else snd x) # ys, c, k, p))))"

definition reallocate_prioritized_extents :: "inode_id list \<Rightarrow> (block_store, heat_reallocation_report) cmd" where
  "reallocate_prioritized_extents prioritized s =
    (let m = priority_map prioritized s;
         entries = sort_key (\<lambda>x. priority_rank m (fst x)) (sort_key (\<lambda>x. first_physical_block (snd x)) (st_records s)) in
     cbind (reallocate_loop m entries 0 0 0) (\<lambda>(entries, cursor, moved, promoted).
       cthen (cmod (compacted entries cursor))
         (cret \<lparr>hr_prioritized_inodes = length m, hr_promoted_hot_inodes = promoted, hr_moved_entries = moved,
                hr_final_device_blocks = cursor\<rparr>)) s)"

definition has_misplaced_priorities :: "inode_id list \<Rightarrow> block_store \<Rightarrow> bool" where
  "has_misplaced_priorities prioritized s =
    (let entries = sort_key first_physical_block (om_values (st_records s));
         wanted = filter (\<lambda>i. om_get (st_records s) i \<noteq> None) prioritized in
     wanted \<noteq> [] \<and> map br_inode (take (length wanted) entries) \<noteq> wanted)"

record optimization_report =
  op_before :: fragmentation_report
  op_after :: fragmentation_report
  op_heat_reallocation :: "heat_reallocation_report option"
  op_defragmentation :: "defragmentation_report option"

definition fragmented_enough :: "fragmentation_report \<Rightarrow> u8 \<Rightarrow> bool" where
  "fragmented_enough r threshold \<longleftrightarrow> fr_fragmentation_percent r \<ge> threshold \<and> fr_free_extents r > 1"

definition optimize_with_priorities :: "inode_id list \<Rightarrow> (block_store, optimization_report) cmd" where
  "optimize_with_priorities prioritized s =
    (let threshold = fragmentation_threshold s in
     cbind (cread fragmentation_report_of) (\<lambda>before.
     cbind (if prioritized \<noteq> [] \<and> (fragmented_enough before threshold \<or> has_misplaced_priorities prioritized s)
            then cbind (reallocate_prioritized_extents prioritized) (\<lambda>r. cret (Some r)) else cret None) (\<lambda>heat.
     cbind (cread fragmentation_report_of) (\<lambda>after_heat.
     cbind (if heat = None \<and> fragmented_enough after_heat threshold
            then cbind defragment (\<lambda>r. cret (Some r)) else cret None) (\<lambda>defrag.
     cbind (cread fragmentation_report_of) (\<lambda>after.
       cret \<lparr>op_before = before, op_after = after, op_heat_reallocation = heat, op_defragmentation = defrag\<rparr>))))) s)"

definition optimize :: "(block_store, optimization_report) cmd" where
  "optimize = optimize_with_priorities []"

end
