(* ===== verification/Block_Store_Faults.thy ===== *)
theory Block_Store_Faults
  imports Block_Store_Props Block_Store_Maint
begin

text \<open>
  The maintenance operations: the sector size of the internal device, the recount of the checksum table, the
  check of a saved free list, and what compaction, a remount and a failing device do to files.
\<close>

section \<open>The sector size of the internal device\<close>

lemma sector_loop_power:
  assumes "sector_loop n s = Some y"
  shows "n \<le> ucast y \<and> (\<exists>k. y = push_bit k s)"
proof (rule sector_loop.raw_induct [where P = "\<lambda>n s y. n \<le> ucast y \<and> (\<exists>k. y = push_bit k s)", OF _ assms])
  fix loop :: "u64 \<Rightarrow> u32 \<Rightarrow> u32 option" and n :: u64 and s y :: u32
  assume IH: "\<And>m s y. loop m s = Some y \<Longrightarrow> m \<le> ucast y \<and> (\<exists>k. y = push_bit k s)"
    and run: "(if ucast s < n then loop n (push_bit 1 s) else Some s) = Some y"
  show "n \<le> ucast y \<and> (\<exists>k. y = push_bit k s)"
  proof (cases "ucast s < n")
    case True
    then have "n \<le> ucast y \<and> (\<exists>k. y = push_bit k (push_bit 1 s))"
      using run by (intro IH) simp
    moreover have "push_bit k (push_bit 1 s) = push_bit (k + 1) s" for k
      by simp
    ultimately show ?thesis
      by metis
  next
    case False
    then have "y = push_bit 0 s"
      using run by simp
    then show ?thesis
      using run False by (metis not_less option.inject)
  qed
qed

lemma unat_push_bit_one: "unat (push_bit k (1 :: u32)) = (if k < 32 then 2 ^ k else 0)"
proof -
  have "unat (push_bit k (1 :: u32)) = unat (of_nat (2 ^ k) :: u32)"
    by simp
  also have "\<dots> = take_bit 32 (2 ^ k)"
    unfolding unsigned_of_nat by simp
  also have "\<dots> = (if k < 32 then 2 ^ k else 0)"
    unfolding take_bit_of_exp by simp
  finally show ?thesis .
qed

lemma unat_push_bit_one_le: "unat (push_bit k (1 :: u32)) \<le> 2 ^ 31"
proof (cases "k < 32")
  case True
  then have "(2 :: nat) ^ k \<le> 2 ^ 31"
    by (intro power_increasing) simp_all
  then show ?thesis
    unfolding unat_push_bit_one using True by simp
qed (simp add: unat_push_bit_one del: push_bit_of_1)

lemma sector_loop_returns:
  assumes "unat n \<le> 2 ^ 31" "k \<le> 31"
  shows "\<exists>y. sector_loop n (push_bit k 1) = Some y"
  using assms(2)
proof (induction "31 - k" arbitrary: k)
  case 0
  then have "\<not> ucast (push_bit k (1 :: u32)) < n"
    using assms(1) by (simp add: word_less_nat_alt unat_ucast_u32 unat_push_bit_one)
  then show ?case
    by (subst sector_loop.simps) simp
next
  case (Suc j)
  show ?case
  proof (cases "ucast (push_bit k (1 :: u32)) < n")
    case True
    have "\<exists>y. sector_loop n (push_bit (k + 1) 1) = Some y"
      by (rule Suc.hyps(1)) (use Suc.hyps(2) in simp_all)
    moreover have "push_bit 1 (push_bit k (1 :: u32)) = push_bit (k + 1) 1"
      by simp
    ultimately show ?thesis
      using True by (subst sector_loop.simps) metis
  next
    case False
    then show ?thesis
      by (subst sector_loop.simps) simp
  qed
qed

lemma power_of_two_test: "push_bit k (1 :: u32) AND (push_bit k 1 - 1) = 0"
proof -
  have "push_bit k (1 :: u32) - 1 = mask k"
    by (simp add: mask_eq_exp_minus_1)
  moreover have "push_bit k (1 :: u32) AND mask k = 0"
    by (rule bit_eqI) (auto simp: bit_simps)
  ultimately show ?thesis
    by (simp only: )
qed

text \<open>The internal device of a constructor has a whole number of its sectors.\<close>

lemma compat_device_new:
  fixes y :: u32
  assumes "y = push_bit k 1" "0 < unat y"
  defines "cap \<equiv> max ((COMPAT_DEVICE_BYTES div ucast y) * ucast y) (ucast y)"
  shows "\<exists>d. mem_new cap y = Ok d \<and> dg_sector_size (md_geometry d) = y \<and> 0 < length (md_data d) \<and> unat y dvd length (md_data d)
    \<and> length (md_data d) = unat (dg_capacity_bytes (md_geometry d))"
proof -
  let ?y = "ucast y :: u64"
  have u: "unat ?y = unat y" "unat (COMPAT_DEVICE_BYTES div ?y) * unat ?y \<le> unat COMPAT_DEVICE_BYTES"
    by (simp_all add: unat_ucast_u32 unat_div)
  have "unat ((COMPAT_DEVICE_BYTES div ?y) * ?y) = unat (COMPAT_DEVICE_BYTES div ?y) * unat y"
    using unat_mul_ok [of "COMPAT_DEVICE_BYTES div ?y" ?y] u unat_u64_lt [of COMPAT_DEVICE_BYTES] by simp
  then have "unat cap = max (unat (COMPAT_DEVICE_BYTES div ?y) * unat y) (unat y)"
    unfolding cap_def by (simp add: max_def word_le_nat_alt u(1))
  then have cap: "unat y dvd unat cap" "0 < unat cap"
    using assms(2) by (auto simp: max_def)
  then have "urem cap ?y = Ok 0"
    using assms(2) u(1) by (simp add: urem_def word_unat_eq_iff unat_mod dvd_eq_mod_eq_0)
  moreover have "y \<noteq> 0" "cap \<noteq> 0"
    using assms(2) cap(2) by auto
  moreover have "y AND (y - 1) = 0"
    unfolding assms(1) by (rule power_of_two_test)
  ultimately show ?thesis
    using cap by (simp add: mem_new_def zeros_def)
qed

text \<open>
  C21: for the block sizes up to 2 GiB the constructor returns, without a panic, an empty store with that block size
  whose internal device has sectors of a power of two that hold a block; beyond 2 GiB the sector size
  shifts to zero and the loop that computes it never ends.
\<close>

lemma constructor_returns_up_to_two_gib:
  "case with_block_size_and_policy block_size policy of
     None \<Rightarrow> 2 ^ 31 < unat block_size
   | Some r \<Rightarrow> unat block_size \<le> 2 ^ 31
       \<and> (\<exists>s k. r = Ok s \<and> st_block_size s = max block_size 1 \<and> st_policy s = policy \<and> st_records s = []
            \<and> available s = UNIV \<and> dg_sector_size (md_geometry (st_compat_device s)) = push_bit k 1
            \<and> unat (max block_size 4) \<le> unat (push_bit k (1 :: u32)) \<and> 0 < length (compat_image s)
            \<and> unat (push_bit k (1 :: u32)) dvd length (compat_image s))"
proof -
  let ?m = "max block_size 4"
  have m: "2 ^ 31 < unat ?m \<longleftrightarrow> 2 ^ 31 < unat block_size"
    by (simp add: max_def word_le_nat_alt)
  show ?thesis
  proof (cases "sector_loop ?m 1")
    case None
    then have "\<not> unat ?m \<le> 2 ^ 31"
      using sector_loop_returns [of ?m 0] by auto
    then show ?thesis
      using None m by (simp add: with_block_size_and_policy_def)
  next
    case (Some y)
    then obtain k where y: "?m \<le> ucast y" "y = push_bit k 1"
      using sector_loop_power by blast
    then have le: "unat ?m \<le> unat y"
      by (simp only: word_le_nat_alt unat_ucast_u32)
    moreover have "unat (4 :: u64) \<le> unat ?m"
      by (simp only: word_le_nat_alt [symmetric]) simp
    ultimately have "0 < unat y"
      by simp
    from compat_device_new [OF y(2) this] obtain d where d:
      "mem_new (max ((COMPAT_DEVICE_BYTES div ucast y) * ucast y) (ucast y)) y = Ok d"
      "dg_sector_size (md_geometry d) = y" "0 < length (md_data d)" "unat y dvd length (md_data d)"
      by blast
    let ?s = "\<lparr>st_block_size = max block_size 1, st_next_device_block = 0, st_policy = policy, st_free_extents = [],
               st_records = [], st_dedup_table = [], st_pending_trims = [], st_compat_device = d\<rparr>"
    have run: "with_block_size_and_policy block_size policy = Some (Ok ?s)"
      by (simp add: with_block_size_and_policy_def Some Let_def d(1) expect_ok_def)
    have "unat block_size \<le> 2 ^ 31"
      using m le unat_push_bit_one_le [of k] unfolding y(2) by linarith
    moreover have "available ?s = UNIV"
      by (simp add: available_def)
    ultimately show ?thesis
      unfolding run using d(2-4) le unfolding y(2) by (intro option.case(2) [THEN iffD2] conjI exI [of _ ?s] exI [of _ k]) simp_all
  qed
qed

section \<open>The check of a saved free list\<close>

lemma total_blocks_one:
  assumes "length (br_extents r) \<le> 1"
  shows "\<exists>n. total_blocks r = Ok n \<and> rec_span r = span (first_physical_block r) n"
  using one_extent_span [OF assms] by blast

lemma rfor_collect:
  "rfor (\<lambda>r acc. rbind (f r) (\<lambda>x. Ok (acc @ [x]))) rs acc = Ok ys \<Longrightarrow> \<exists>zs. ys = acc @ zs \<and> list_all2 (\<lambda>r x. f r = Ok x) rs zs"
proof (induction rs arbitrary: acc)
  case (Cons r rs)
  then obtain x where x: "f r = Ok x" "rfor (\<lambda>r acc. rbind (f r) (\<lambda>x. Ok (acc @ [x]))) rs (acc @ [x]) = Ok ys"
    by (auto simp: result_iff)
  then obtain zs where "ys = (acc @ [x]) @ zs" "list_all2 (\<lambda>r x. f r = Ok x) rs zs"
    using Cons.IH by blast
  then show ?case
    using x(1) by (intro exI [of _ "x # zs"]) simp
qed simp

lemma list_all2_mem: "list_all2 P xs ys \<Longrightarrow> x \<in> set xs \<Longrightarrow> \<exists>y \<in> set ys. P x y"
  by (induction rule: list_all2_induct) auto

lemma occupied_ranges_mem:
  assumes "occupied_ranges s = Ok xs" "r \<in> set (om_values (st_records s))"
  shows "\<exists>x \<in> set xs. occupied_range r = Ok x"
proof -
  obtain ys where "rfor (\<lambda>r acc. rbind (occupied_range r) (\<lambda>x. Ok (acc @ [x]))) (om_values (st_records s)) [] = Ok ys" "xs = sort_key fst ys"
    using assms(1) by (auto simp: occupied_ranges_def result_iff)
  then show ?thesis
    using rfor_collect [of occupied_range "om_values (st_records s)" "[]" ys] list_all2_mem [OF _ assms(2)] by fastforce
qed

lemma le_fold_max: "(b :: 'a::linorder) \<le> fold max zs b"
proof (induction zs arbitrary: b)
  case (Cons z zs)
  have "b \<le> max z b"
    by simp
  also have "\<dots> \<le> fold max zs (max z b)"
    by (rule Cons.IH)
  finally show ?case
    by simp
qed simp

lemma fold_max_ge: "x \<in> set xs \<Longrightarrow> x \<le> fold max xs (a :: 'a::linorder)"
proof (induction xs arbitrary: a)
  case (Cons y xs)
  have "y \<le> fold max xs (max y a)"
    using le_fold_max [of "max y a" xs] by (meson max.cobounded1 order_trans)
  then show ?case
    using Cons by auto
qed simp

text \<open>
  C20: when the check accepts a saved free list, none of the blocks it leaves available belongs to a file
  whose blocks form one range (below the greatest block number).
\<close>

lemma adopted_free_list_spares_files:
  assumes "adopt_free_extents fs s = (Ok True, t)" "om_get (st_records s) i = Some r" "length (br_extents r) \<le> 1"
    and "\<forall>e \<in> set (br_extents r). unat (er_physical_block e) + unat (er_length_blocks e) < 2 ^ 64"
  shows "rec_span r \<inter> available t = {}"
proof -
  let ?s = "settle_free_extents (s\<lparr>st_free_extents := filter (\<lambda>e. fe_allocated_blocks e > 0) fs\<rparr>)"
  have recs: "st_records ?s = st_records s"
    by (simp add: settle_free_extents_def normalize_free_extents_def trim_free_tail_def Let_def split: prod.split)
  have run: "validate_allocator_state ?s = (Ok True, t)"
    using assms(1) by (simp add: adopt_free_extents_def cthen_run(1) [where m = "cmod _"])
  obtain xs where xs: "occupied_ranges ?s = Ok xs"
    using run by (auto simp: validate_allocator_state_def result_iff)
  define free where "free = sort_key fe_device_block (st_free_extents ?s)"
  have val: "\<not> list_ex (\<lambda>e. list_ex (\<lambda>(start, stop). fe_device_block e < stop \<and> start < fe_end e) xs) free"
    "t = ?s\<lparr>st_next_device_block := max (st_next_device_block ?s) (max (fold max (map fe_end free) 0) (fold max (map snd xs) 0))\<rparr>"
    using run xs by (auto simp: validate_allocator_state_def result_iff free_def [symmetric] Let_def split: if_splits)
  obtain n where n: "total_blocks r = Ok n" "rec_span r = span (first_physical_block r) n"
    using total_blocks_one [OF assms(3)] by blast
  let ?f = "first_physical_block r" and ?stop = "sat_add (first_physical_block r) (max n 1)"
  have "r \<in> set (om_values (st_records s))"
    using map_of_SomeD [OF assms(2)] by force
  then obtain x where "x \<in> set xs" "occupied_range r = Ok x"
    using occupied_ranges_mem [OF xs] unfolding recs by blast
  then have x: "(?f, ?stop) \<in> set xs"
    using n(1) by (simp add: occupied_range_def)
  have lim: "unat ?f + unat n < 2 ^ 64"
  proof (cases "br_extents r")
    case Nil
    then show ?thesis
      using n(1) by (simp add: total_blocks_def first_physical_block_def)
  next
    case (Cons e es)
    then have "br_extents r = [e]"
      using assms(3) by (cases es) simp_all
    then show ?thesis
      using n(1) assms(4) by (auto simp: total_blocks_def first_physical_block_def uadd_def unat_ucast_u32 split: if_splits)
  qed
  have stop: "unat ?f + unat n \<le> unat ?stop"
    unfolding sat_add_nat using lim by (auto simp: max_def word_le_nat_alt)
  have "y \<notin> fe_span e" if "y \<in> rec_span r" "e \<in> set free" for y e
  proof
    assume y: "y \<in> fe_span e"
    have apart: "\<not> (fe_device_block e < ?stop \<and> ?f < fe_end e)"
      using val(1) x that(2) by (auto simp: list_ex_iff)
    have "unat ?f \<le> y" "y < unat ?f + unat n" "unat (fe_device_block e) \<le> y" "y < unat (fe_device_block e) + unat (fe_allocated_blocks e)"
      using that(1) n(2) y by (simp_all add: fe_span_def)
    then have "unat (fe_device_block e) < unat ?stop" "unat ?f < unat (fe_end e)"
      using stop lim by (simp_all add: fe_end_def sat_add_nat)
    then show False
      using apart by (simp add: word_less_nat_alt)
  qed
  then have "rec_span r \<inter> fe_cover (st_free_extents ?s) = {}"
    by (auto simp: fe_cover_def free_def)
  moreover have "y < unat (st_next_device_block t)" if "y \<in> rec_span r" for y
  proof -
    have "?stop \<le> fold max (map snd xs) 0"
      by (rule fold_max_ge) (use x in force)
    then have "?stop \<le> st_next_device_block t"
      unfolding val(2) by (simp add: le_max_iff_disj)
    then show ?thesis
      using that n(2) stop by (simp add: word_le_nat_alt)
  qed
  moreover have "st_free_extents t = st_free_extents ?s"
    by (subst val(2)) simp
  ultimately show ?thesis
    unfolding available_def by fastforce
qed

lemma adopted_free_list_spares_files_witness:
  "rec_span (tiny_record 2 4 [tiny_extent 4 1 1]) \<inter> available (snd (adopt_free_extents [\<lparr>fe_device_block = 3, fe_allocated_blocks = 2\<rparr>]
     (tiny_store [(2, tiny_record 2 4 [tiny_extent 4 1 1])] [] 6 []))) = {}"
proof -
  let ?s = "tiny_store [(2, tiny_record 2 4 [tiny_extent 4 1 1])] [] 6 []" and ?fs = "[\<lparr>fe_device_block = 3, fe_allocated_blocks = 2\<rparr>]"
  have set: "settle_free_extents (?s\<lparr>st_free_extents := ?fs\<rparr>) = ?s\<lparr>st_free_extents := ?fs\<rparr>"
    by (simp add: settle_free_extents_def normalize_free_extents_def trim_free_tail_def Let_def allocator_policy_default_def
        merge_extent_def trim_tail.simps fe_end_def sat_add_def)
  have "occupied_ranges (?s\<lparr>st_free_extents := ?fs\<rparr>) = Ok [(1, 2)]"
    by (simp add: occupied_ranges_def occupied_range_def total_blocks_def uadd_def first_physical_block_def sat_add_def)
  then have "fst (adopt_free_extents ?fs ?s) = Ok True"
    using set by (simp add: adopt_free_extents_def cthen_run(1) [where m = "cmod _"] validate_allocator_state_def cbind_run(1) [where m = "cread _"]
        free_overlaps_def fe_end_def sat_add_def Let_def)
  then have run: "adopt_free_extents ?fs ?s = (Ok True, snd (adopt_free_extents ?fs ?s))"
    by (cases "adopt_free_extents ?fs ?s") simp
  show ?thesis
    using adopted_free_list_spares_files [OF run, of 2 "tiny_record 2 4 [tiny_extent 4 1 1]"] by simp
qed

section \<open>Compaction\<close>

lemma tiny_blocks:
  "total_blocks (tiny_record i len []) = Ok 0" "first_physical_block (tiny_record i len []) = 0"
  "total_blocks (tiny_record i len [tiny_extent k b 1]) = Ok 1" "first_physical_block (tiny_record i len [tiny_extent k b 1]) = b"
  "relocated c (tiny_record i len [tiny_extent k b 1]) = tiny_record i len [tiny_extent k c 1]"
  by (simp_all add: total_blocks_def uadd_def first_physical_block_def relocated_def)

lemma defragment_three:
  assumes "move_blocks 0 1 1 s = (Ok (), t)" "move_blocks 1 2 1 t = (Ok (), u)"
  shows "defragment_loop [(1, tiny_record 1 0 []), (2, tiny_record 2 4 [tiny_extent 4 0 1]), (3, tiny_record 3 4 [tiny_extent 4 1 1])] 0 0 s
    = (Ok ([(1, tiny_record 1 0 []), (2, tiny_record 2 4 [tiny_extent 4 1 1]), (3, tiny_record 3 4 [tiny_extent 4 2 1])], 3, 2), u)"
proof -
  have "defragment_loop [(3, tiny_record 3 4 [tiny_extent 4 1 1])] 2 1 t = (Ok ([(3, tiny_record 3 4 [tiny_extent 4 2 1])], 3, 2), u)"
    using assms(2) by (simp add: tiny_blocks clift_def cbind_def cthen_def cret_def sat_add_def)
  then have "defragment_loop [(2, tiny_record 2 4 [tiny_extent 4 0 1]), (3, tiny_record 3 4 [tiny_extent 4 1 1])] 1 0 s
      = (Ok ([(2, tiny_record 2 4 [tiny_extent 4 1 1]), (3, tiny_record 3 4 [tiny_extent 4 2 1])], 3, 2), u)"
    using assms(1) by (subst defragment_loop.simps) (simp add: tiny_blocks clift_def cbind_def cthen_def cret_def sat_add_def del: defragment_loop.simps)
  then show ?thesis
    by (subst defragment_loop.simps) (simp add: tiny_blocks clift_def cbind_def cthen_def cret_def sat_add_def del: defragment_loop.simps)
qed

text \<open>An empty file, and a file of four bytes in each of the blocks 0 and 1.\<close>

definition three_files :: block_store where
  "three_files = tiny_store [(1, tiny_record 1 0 []), (2, tiny_record 2 4 [tiny_extent 4 0 1]), (3, tiny_record 3 4 [tiny_extent 4 1 1])]
     [] 2 [11, 12, 13, 14, 21, 22, 23, 24, 0, 0, 0, 0]"

text \<open>
  C17: compaction takes the files in the order of their first blocks, an empty file first, and moves each to
  the next place before the file there has been moved: the content of the second file is copied over the third.
\<close>

lemma defragment_overwrites_file:
  "wf_store three_files \<and> files three_files = [1 \<mapsto> [], 2 \<mapsto> [11, 12, 13, 14], 3 \<mapsto> [21, 22, 23, 24]]
   \<and> (\<exists>x t. defragment three_files = (Ok x, t) \<and> files t = [1 \<mapsto> [], 2 \<mapsto> [11, 12, 13, 14], 3 \<mapsto> [11, 12, 13, 14]])"
proof (intro conjI)
  have "wf_device three_files"
    unfolding three_files_def by (rule tiny_wf [where k = 3]) simp_all
  moreover have "wf_space three_files"
    by (simp add: three_files_def wf_space_def)
  moreover have "wf_files three_files"
    by (auto simp: three_files_def wf_files_def om_ok_def wf_record_def wf_extent_def rec_span_def er_span_def available_def fe_cover_def
        split: if_splits)
  ultimately show "wf_store three_files"
    by (simp add: wf_store_def)
  show "files three_files = [1 \<mapsto> [], 2 \<mapsto> [11, 12, 13, 14], 3 \<mapsto> [21, 22, 23, 24]]"
    by (rule ext) (simp add: files_def three_files_def rec_bytes_def ext_content_def cut_def)
  let ?dev = "\<lambda>bs. three_files\<lparr>st_compat_device := tiny_memory bs\<rparr>"
  let ?A = "[11, 12, 13, 14, 21, 22, 23, 24, 0, 0, 0, 0] :: bytes" and ?B = "[11, 12, 13, 14, 11, 12, 13, 14, 0, 0, 0, 0] :: bytes"
    and ?C = "[11, 12, 13, 14, 11, 12, 13, 14, 11, 12, 13, 14] :: bytes"
  have io: "mem_read_at (tiny_memory ?A) 0 4 = Ok [11, 12, 13, 14]" "mem_read_at (tiny_memory ?B) 4 4 = Ok [11, 12, 13, 14]"
    "mem_write_at 4 [11, 12, 13, 14] (tiny_memory ?A) = (Ok (), tiny_memory ?B)"
    "mem_write_at 8 [11, 12, 13, 14] (tiny_memory ?B) = (Ok (), tiny_memory ?C)"
    using tiny_transfer(2) [of ?A 3 0 0 "[0, 0, 0, 0]" 1 4] tiny_transfer(2) [of ?B 3 4 1 "[0, 0, 0, 0]" 1 4]
      tiny_transfer(1) [of ?A 3 4 1 "[11, 12, 13, 14]" 1] tiny_transfer(1) [of ?B 3 8 2 "[11, 12, 13, 14]" 1]
    by (simp_all add: cut_def put_def)
  have sel: "st_block_size (?dev bs) = 4" "st_compat_device (?dev bs) = tiny_memory bs" for bs
    by (simp_all add: three_files_def)
  have start: "three_files = ?dev ?A"
    by (simp add: three_files_def)
  have moves: "move_blocks 0 1 1 (?dev ?A) = (Ok (), ?dev ?B)" "move_blocks 1 2 1 (?dev ?B) = (Ok (), ?dev ?C)"
    unfolding move_blocks_def sel by (simp_all add: umul_def uadd_def cbind_def clift_def cignore_def czoom_simp io sel)
  let ?es = "[(1, tiny_record 1 0 []), (2, tiny_record 2 4 [tiny_extent 4 0 1]), (3, tiny_record 3 4 [tiny_extent 4 1 1])]"
    and ?fs = "[(1, tiny_record 1 0 []), (2, tiny_record 2 4 [tiny_extent 4 1 1]), (3, tiny_record 3 4 [tiny_extent 4 2 1])]"
  have sorted: "sort_key (\<lambda>x. first_physical_block (snd x)) (st_records three_files) = ?es"
    by (simp add: three_files_def first_physical_block_def)
  have "defragment_loop ?es 0 0 three_files = (Ok (?fs, 3, 2), ?dev ?C)"
    using defragment_three [OF moves] unfolding start [symmetric] .
  then have "\<exists>x. defragment three_files = (Ok x, compacted ?fs 3 (?dev ?C))"
    by (simp add: defragment_def sorted cbind_run(1) [where m = "defragment_loop _ _ _"] cthen_run(1) [where m = "cmod _"] cret_def del: defragment_loop.simps)
  moreover have "files (compacted ?fs 3 (?dev ?C)) = [1 \<mapsto> [], 2 \<mapsto> [11, 12, 13, 14], 3 \<mapsto> [11, 12, 13, 14]]"
    by (rule ext) (simp add: files_def compacted_def om_collect_def sel rec_bytes_def ext_content_def cut_def three_files_def)
  ultimately show "\<exists>x t. defragment three_files = (Ok x, t) \<and> files t = [1 \<mapsto> [], 2 \<mapsto> [11, 12, 13, 14], 3 \<mapsto> [11, 12, 13, 14]]"
    by blast
qed

section \<open>A device that fails\<close>

lemma release_old_ok:
  assumes "wf_store s" "one_extent s i" "counts_below s" "om_get (st_records s) i = Some r"
  shows "\<exists>t. release_old i s = (Ok (), t) \<and> wf_space t \<and> st_records t = om_remove i (st_records s)
    \<and> available t = available s \<union> rec_span r \<and> unat (st_next_device_block t) \<le> unat (st_next_device_block s)"
proof -
  have w: "wf_space s" "wf_files s"
    using assms(1) by (simp_all add: wf_store_def)
  let ?s = "s\<lparr>st_records := om_remove i (st_records s)\<rparr>"
  have s: "wf_space ?s" "available ?s = available s" "counts_below ?s"
    using w(1) assms(3) by (simp_all add: wf_space_def available_def counts_below_def)
  have "length (br_extents r) \<le> 1"
    using assms(2,4) by (simp add: one_extent_def)
  then obtain t where t: "release_record r ?s = (Ok (), t)" "wf_space t" "same_records ?s t"
    "available t = available s \<union> rec_span r" "unat (st_next_device_block t) \<le> unat (st_next_device_block s)"
    using release_record_ok [OF s(1) _ _ s(3), of r] wf_files_D(2) [OF w(2) assms(4)] s(2) by auto
  then show ?thesis
    using assms(4) by (simp add: release_old_def cthen_run(1) [where m = "cmod _"] same_records_def)
qed



section \<open>The recount of the checksum table\<close>

lemma expected_refs_ok:
  assumes "length (st_records s) < 2 ^ 32"
  shows "\<exists>n. expected_refs s crc = Ok n \<and> unat n = length (filter (\<lambda>r. br_content_crc r = crc) (om_values (st_records s)))"
proof -
  have "\<exists>n. rfor (\<lambda>r n. if br_content_crc r = crc then uadd n 1 else Ok n) rs m = Ok n
      \<and> unat n = unat m + length (filter (\<lambda>r. br_content_crc r = crc) rs)"
    if "unat m + length rs < 2 ^ 32" for rs and m :: u32
    using that
  proof (induction rs arbitrary: m)
    case (Cons r rs)
    have "uadd m 1 = Ok (m + 1)" "unat (m + 1) = unat m + 1"
      using Cons.prems by (simp_all add: uadd_def unat_add_ok)
    then show ?case
      using Cons.IH [of m] Cons.IH [of "m + 1"] Cons.prems by auto
  qed simp
  from this [of 0 "om_values (st_records s)"] assms show ?thesis
    by (simp add: expected_refs_def)
qed

lemma rfor_collect_ok:
  "\<forall>r \<in> set rs. \<exists>x. f r = Ok x \<Longrightarrow> \<exists>ys. rfor (\<lambda>r acc. rbind (f r) (\<lambda>x. Ok (acc @ [x]))) rs acc = Ok ys"
  by (induction rs arbitrary: acc) auto

text \<open>
  C22: after the deduplication pass every entry of the checksum table counts exactly the records with its
  checksum, and no entry counts none.
\<close>

lemma dedup_pass_counts_records:
  assumes "length (st_records s) < 2 ^ 32" "length (st_dedup_table s) < 2 ^ 32"
  shows "\<exists>x t. dedup_pass s = (Ok x, t) \<and> st_records t = st_records s
    \<and> (\<forall>(crc, e) \<in> set (st_dedup_table t). 0 < unat (dd_ref_count e)
        \<and> unat (dd_ref_count e) = length (filter (\<lambda>r. br_content_crc r = crc) (om_values (st_records s))))"
proof -
  have sum: "\<exists>n. rfor (\<lambda>e n. uadd n (ucast (dd_physical_len e))) es m = Ok n"
    if "unat m + length es * 2 ^ 32 < 2 ^ 64" for es and m :: u64
    using that
  proof (induction es arbitrary: m)
    case (Cons e es)
    have "unat (dd_physical_len e) < 2 ^ 32"
      using unsigned_less [of "dd_physical_len e", where 'a = nat] by simp
    then have "uadd m (ucast (dd_physical_len e)) = Ok (m + ucast (dd_physical_len e))"
      "unat (m + ucast (dd_physical_len e)) + length es * 2 ^ 32 < 2 ^ 64"
      using Cons.prems by (simp_all add: uadd_def unat_add_ok unat_ucast_u32)
    then show ?case
      using Cons.IH by simp
  qed simp
  obtain n where n: "rfor (\<lambda>e n. uadd n (ucast (dd_physical_len e))) (om_values (st_dedup_table s)) (0 :: u64) = Ok n"
    using sum [of 0 "om_values (st_dedup_table s)"] assms(2) by auto
  let ?f = "\<lambda>(crc, e). rbind (expected_refs s crc) (\<lambda>n. Ok (crc, e\<lparr>dd_ref_count := n\<rparr>))"
  have rec: "recounted s = rfor (\<lambda>x acc. rbind (?f x) (\<lambda>y. Ok (acc @ [y]))) (st_dedup_table s) []"
    unfolding recounted_def by (rule arg_cong [where f = "\<lambda>body. rfor body (st_dedup_table s) []"]) (auto simp: fun_eq_iff rbind_assoc split: prod.split)
  have "\<forall>x \<in> set (st_dedup_table s). \<exists>y. ?f x = Ok y"
    using expected_refs_ok [OF assms(1)] by (auto split: prod.split) (metis rbind.simps(1))
  then obtain table where table: "recounted s = Ok table"
    unfolding rec using rfor_collect_ok by blast
  then have "list_all2 (\<lambda>x y. ?f x = Ok y) (st_dedup_table s) table"
    using rfor_collect [of ?f] unfolding rec by fastforce
  then have counts: "unat (dd_ref_count e) = length (filter (\<lambda>r. br_content_crc r = crc) (om_values (st_records s)))"
    if "(crc, e) \<in> set table" for crc e
    using that
  proof (induction rule: list_all2_induct)
    case (Cons x xs y ys)
    show ?case
    proof (cases "(crc, e) = y")
      case True
      then show ?thesis
        using Cons.hyps(1) expected_refs_ok [OF assms(1), of crc] by (auto simp: result_iff split: prod.splits)
    next
      case False
      then show ?thesis
        using Cons by auto
    qed
  qed simp
  have "\<exists>x. dedup_pass s = (Ok x, s\<lparr>st_dedup_table := filter (\<lambda>(crc, e). dd_ref_count e > 0) table\<rparr>)"
    using n table by (simp add: dedup_pass_def cbind_run(1) [where m = "clift _"] cbind_run(1) [where m = "cread _"]
        cthen_run(1) [where m = "cmod _"] cret_def)
  moreover have "\<forall>(crc, e) \<in> set (filter (\<lambda>(crc, e). dd_ref_count e > 0) table). 0 < unat (dd_ref_count e)
        \<and> unat (dd_ref_count e) = length (filter (\<lambda>r. br_content_crc r = crc) (om_values (st_records s)))"
    using counts by (auto simp: unat_gt_0 word_gt_0)
  ultimately show ?thesis
    by fastforce
qed

lemma dedup_pass_counts_records_witness:
  "\<exists>x t. dedup_pass (two_files\<lparr>st_dedup_table := [(0, \<lparr>dd_physical_block = 0, dd_length_blocks = 2, dd_physical_len = 8, dd_ref_count = 7\<rparr>)]\<rparr>)
      = (Ok x, t) \<and> (\<forall>(crc, e) \<in> set (st_dedup_table t). crc = 0 \<longrightarrow> unat (dd_ref_count e) = 2)"
proof -
  let ?s = "two_files\<lparr>st_dedup_table := [(0, \<lparr>dd_physical_block = 0, dd_length_blocks = 2, dd_physical_len = 8, dd_ref_count = 7\<rparr>)]\<rparr>"
  have l: "length (st_records ?s) < 2 ^ 32" "length (st_dedup_table ?s) < 2 ^ 32"
    "length (filter (\<lambda>r. br_content_crc r = 0) (om_values (st_records ?s))) = 2"
    by (simp_all add: two_files_def)
  show ?thesis
    using dedup_pass_counts_records [OF l(1,2)] l(3) by fastforce
qed

end
