(* ===== verification/Block_Store_Remount.thy ===== *)
theory Block_Store_Remount
  imports Block_Store_Split Block_Store_Faults
begin

text \<open>
  The constructors that take saved records: what they do to a file that an append has split.
\<close>

section \<open>The ranges a constructor counts\<close>

text \<open>The range of blocks that a constructor counts for a record ends at or below \<open>m\<close>.\<close>

definition range_below :: "nat \<Rightarrow> block_record \<Rightarrow> bool" where
  "range_below m r \<longleftrightarrow> (\<exists>x. occupied_range r = Ok x \<and> unat (snd x) \<le> m)"

lemma range_below_iff:
  "range_below m r \<longleftrightarrow> (\<exists>n. total_blocks r = Ok n \<and> unat (sat_add (first_physical_block r) (max n 1)) \<le> m)"
  by (auto simp: range_below_def occupied_range_def result_iff)

lemma range_below_one:
  assumes "wf_space s" "rec_span r \<inter> available s = {}" "wf_record B k r" "length (br_extents r) \<le> 1"
    and "0 < unat (st_next_device_block s)"
  shows "range_below (unat (st_next_device_block s)) r"
proof (cases "br_extents r")
  case Nil
  then show ?thesis
    using assms(5) by (simp add: range_below_iff total_blocks_def first_physical_block_def sat_add_def)
next
  case (Cons e es)
  then have r: "br_extents r = [e]" and e: "wf_extent B k e"
    using assms(3,4) by (simp_all add: wf_record_def)
  have l: "0 < unat (er_length_blocks e)"
    using e by (cases "unat (er_length_blocks e) = 0") (simp_all add: wf_extent_def)
  then have "unat (er_physical_block e) + unat (er_length_blocks e) - 1 \<in> rec_span r"
    using r by (simp add: rec_span_def er_span_def unat_ucast_u32)
  then have "unat (er_physical_block e) + unat (er_length_blocks e) - 1 < unat (st_next_device_block s)"
    using span_below [OF assms(1) _ assms(2)] by blast
  moreover have "max (ucast (er_length_blocks e)) 1 = (ucast (er_length_blocks e) :: u64)"
    using l by (intro max_absorb1) (simp add: word_le_nat_alt unat_ucast_u32)
  moreover have "unat (er_length_blocks e) < 2 ^ 32"
    using unsigned_less [of "er_length_blocks e", where 'a = nat] by simp
  ultimately show ?thesis
    using r l by (simp add: range_below_iff total_blocks_def first_physical_block_def uadd_def sat_add_nat unat_ucast_u32)
qed

lemma trim_tail_below: "unat (snd (trim_tail fs n)) \<le> unat n"
proof (induction fs n rule: trim_tail.induct)
  case (1 fs n)
  show ?case
  proof (cases "fs = [] \<or> fe_end (last fs) \<noteq> n")
    case True
    then show ?thesis
      by (subst trim_tail.simps) simp
  next
    case False
    then have "unat (fe_device_block (last fs)) \<le> unat n"
      using unat_u64_lt [of "fe_device_block (last fs)"] by (auto simp: fe_end_def sat_add_nat)
    then show ?thesis
      using 1 False by (subst trim_tail.simps) simp
  qed
qed

lemma gaps_below: "\<forall>x \<in> set xs. unat (snd x) \<le> m \<Longrightarrow> unat c \<le> m \<Longrightarrow> unat (snd (gaps xs c)) \<le> m"
proof (induction xs c rule: gaps.induct)
  case (2 start stop xs cursor)
  then have "unat (snd (gaps xs (max cursor stop))) \<le> m"
    by (intro "2.IH") (auto simp: max_def)
  then show ?case
    by (cases "gaps xs (max cursor stop)") simp
qed simp

lemma list_all2_mem_right: "list_all2 P xs ys \<Longrightarrow> y \<in> set ys \<Longrightarrow> \<exists>x \<in> set xs. P x y"
  by (induction rule: list_all2_induct) auto

lemma rebuild_below:
  assumes "\<forall>r \<in> set (om_values (st_records s)). range_below m r" "unat (st_next_device_block s) \<le> m"
  shows "\<exists>t. rebuild_free_extents s = (Ok (), t) \<and> unat (st_next_device_block t) \<le> m \<and> st_records t = st_records s"
proof -
  have "\<forall>r \<in> set (om_values (st_records s)). \<exists>x. occupied_range r = Ok x"
    using assms(1) by (auto simp: range_below_def)
  from rfor_collect_ok [OF this, of "[]"] obtain ys where
    ys: "rfor (\<lambda>r acc. rbind (occupied_range r) (\<lambda>x. Ok (acc @ [x]))) (om_values (st_records s)) [] = Ok ys"
    by blast
  then have all: "list_all2 (\<lambda>r x. occupied_range r = Ok x) (om_values (st_records s)) ys"
    using rfor_collect by fastforce
  have "\<forall>x \<in> set ys. unat (snd x) \<le> m"
  proof
    fix x assume "x \<in> set ys"
    then obtain r where "r \<in> set (om_values (st_records s))" "occupied_range r = Ok x"
      using list_all2_mem_right [OF all] by blast
    then show "unat (snd x) \<le> m"
      using assms(1) by (fastforce simp: range_below_def)
  qed
  then have "unat (snd (gaps (sort_key fst ys) 0)) \<le> m"
    by (intro gaps_below) simp_all
  moreover obtain fs c where g: "gaps (sort_key fst ys) 0 = (fs, c)"
    by (cases "gaps (sort_key fst ys) 0")
  ultimately have c: "unat (max (st_next_device_block s) c) \<le> m"
    using assms(2) by (simp add: max_def)
  have "unat (snd (trim_tail fs (max (st_next_device_block s) c))) \<le> m"
    using trim_tail_below c by (rule order_trans)
  moreover obtain gs k where "trim_tail fs (max (st_next_device_block s) c) = (gs, k)"
    by (cases "trim_tail fs (max (st_next_device_block s) c)")
  ultimately show ?thesis
    using ys g c by (simp add: rebuild_free_extents_def cbind_run(1) [where m = "cread _"] occupied_ranges_def trim_free_tail_def Let_def split: prod.split)
qed

text \<open>At most \<open>n\<close> references are counted for each checksum.\<close>

definition counts_at_most :: "nat \<Rightarrow> block_store \<Rightarrow> bool" where
  "counts_at_most n s \<longleftrightarrow> om_ok (st_dedup_table s) \<and> (\<forall>crc e. om_get (st_dedup_table s) crc = Some e \<longrightarrow> unat (dd_ref_count e) \<le> n)"

lemma dedup_insert_counts:
  assumes "counts_at_most n s" "n + 1 < 2 ^ 32"
  shows "\<exists>t. dedup_insert crc a b c s = (Ok (), t) \<and> same_space s t \<and> counts_at_most (n + 1) t"
proof -
  have ok: "om_ok (st_dedup_table s)"
    using assms(1) by (simp add: counts_at_most_def)
  note ins = om.insert_law [OF ok]
  show ?thesis
  proof (cases "om_get (st_dedup_table s) crc")
    case None
    then show ?thesis
      using assms ins by (auto simp: dedup_insert_def same_space_def counts_at_most_def intro: le_SucI)
  next
    case (Some e)
    then have e: "unat (dd_ref_count e) \<le> n"
      using assms(1) by (auto simp: counts_at_most_def)
    then have "uadd (dd_ref_count e) 1 = Ok (dd_ref_count e + 1)" "unat (dd_ref_count e + 1) \<le> n + 1"
      using assms(2) by (simp_all add: uadd_def unat_add_ok)
    then show ?thesis
      using Some assms(1) ins
      by (auto simp: dedup_insert_def same_space_def counts_at_most_def cbind_run(1) [where m = "clift _"] intro: le_SucI)
  qed
qed

lemma ingest_record_below:
  assumes "range_below m r" "unat (st_next_device_block s) \<le> m" "counts_at_most n s" "n + 1 < 2 ^ 32"
  shows "\<exists>t. ingest_record r s = (Ok (), t) \<and> unat (st_next_device_block t) \<le> m \<and> counts_at_most (n + 1) t
    \<and> st_records t = om_insert (br_inode r) r (st_records s)"
proof -
  obtain k where k: "total_blocks r = Ok k" "unat (sat_add (first_physical_block r) (max k 1)) \<le> m"
    using assms(1) by (auto simp: range_below_iff)
  let ?s = "s\<lparr>st_next_device_block := max (st_next_device_block s) (sat_add (first_physical_block r) (max k 1))\<rparr>"
  have "counts_at_most n ?s"
    using assms(3) by (simp add: counts_at_most_def)
  then obtain t where t: "dedup_insert (br_content_crc r) (first_physical_block r) (ucast k) (ucast (br_logical_size r)) ?s = (Ok (), t)"
    "same_space ?s t" "counts_at_most (n + 1) t"
    using dedup_insert_counts assms(4) by blast
  let ?t = "t\<lparr>st_records := om_insert (br_inode r) r (st_records t)\<rparr>"
  have "ingest_record r s = (Ok (), ?t)"
    using k(1) t(1) by (simp add: ingest_record_def cbind_run(1) [where m = "clift _"] cthen_run(1) [where m = "cmod _"]
        cthen_run(1) [where m = "dedup_insert _ _ _ _"])
  moreover have "unat (st_next_device_block ?t) \<le> m"
    using t(2) assms(2) k(2) by (simp add: same_space_def max_def)
  moreover have "counts_at_most (n + 1) ?t" "st_records ?t = om_insert (br_inode r) r (st_records s)"
    using t(2,3) by (simp_all add: counts_at_most_def same_space_def)
  ultimately show ?thesis
    by blast
qed

lemma ingest_all_below:
  assumes "\<forall>r \<in> set rs. range_below m r" "unat (st_next_device_block s) \<le> m" "counts_at_most n s" "n + length rs < 2 ^ 32"
  shows "\<exists>t. cfor ingest_record rs s = (Ok (), t) \<and> unat (st_next_device_block t) \<le> m
    \<and> st_records t = fold (\<lambda>r. om_insert (br_inode r) r) rs (st_records s)"
  using assms
proof (induction rs arbitrary: s n)
  case (Cons r rs)
  then obtain t where t: "ingest_record r s = (Ok (), t)" "unat (st_next_device_block t) \<le> m" "counts_at_most (n + 1) t"
    "st_records t = om_insert (br_inode r) r (st_records s)"
    using ingest_record_below [of m r s n] by auto
  moreover have "(n + 1) + length rs < 2 ^ 32" "\<forall>r \<in> set rs. range_below m r"
    using Cons.prems(1,4) by simp_all
  ultimately show ?case
    using Cons.IH [of t "n + 1"] by (simp add: cthen_run(1) [where m = "ingest_record _"])
qed simp

text \<open>Records inserted in the order of a map rebuild the map.\<close>

lemma om_insert_last: "\<forall>l \<in> set (map fst m). l < k \<Longrightarrow> om_insert k v m = m @ [(k, v)]"
  by (induction m) auto

lemma om_refill:
  assumes "om_ok (acc @ m)" "\<forall>(j, r) \<in> set m. br_inode r = j"
  shows "fold (\<lambda>r. om_insert (br_inode r) r) (om_values m) acc = acc @ m"
  using assms
proof (induction m arbitrary: acc)
  case (Cons x m)
  obtain j r where x: "x = (j, r)" "br_inode r = j"
    using Cons.prems(2) by (cases x) simp
  have "om_insert j r acc = acc @ [x]"
    unfolding x(1) using Cons.prems(1) by (intro om_insert_last) (auto simp: om_ok_def x sorted_wrt_append)
  then show ?case
    using Cons.IH [of "acc @ [x]"] Cons.prems x by simp
qed simp

lemma length_om_insert: "length (om_insert k v m) \<le> Suc (length m)"
  by (induction k v m rule: om_insert.induct) auto

lemma om_mem_insert: "x \<in> set (om_insert k v m) \<Longrightarrow> x = (k, v) \<or> x \<in> set m"
  by (induction k v m rule: om_insert.induct) (auto split: if_splits)

section \<open>A remount after an append\<close>

text \<open>
  C18: a file of one extent whose next block belongs to another file, in a pool without free extents where every
  other file has at most one extent too: after an append to it, a constructor that takes the saved records keeps
  them all, and the last block of the appended file is available although its record still lists it.
\<close>

lemma remount_forgets_appended_block:
  assumes "wf_store s" "counts_below s" "st_free_extents s = []" "\<forall>j. one_extent s j" "\<forall>(j, p) \<in> set (st_records s). br_inode p = j"
    and "om_get (st_records s) i = Some r" "br_extents r = [e]" "plain_record r"
    and "om_get (st_records s) j = Some q" "unat (er_physical_block e) + unat (er_length_blocks e) \<in> rec_span q"
    and "extra \<noteq> []" "length extra < 2 ^ 32" "roomy s (blocks_for s extra)" "length (st_records s) + 1 < 2 ^ 32"
    and "st_records w = []" "st_dedup_table w = []" "st_next_device_block w = 0"
  defines "last_block \<equiv> unat (st_next_device_block s) + blocks_for s extra - 1"
  shows "\<exists>t v. append_to_inode i extra s = (Ok (br_logical_size r + of_nat (length extra)), t)
    \<and> ingest_records (om_values (st_records t)) w = (Ok (), v) \<and> st_records v = st_records t
    \<and> last_block \<in> rec_span (the (om_get (st_records v) i)) \<and> last_block \<in> available v"
proof -
  let ?next = "unat (st_next_device_block s)" and ?k = "blocks_for s extra"
    and ?y = "unat (er_physical_block e) + unat (er_length_blocks e)"
  obtain t r' n where t: "append_to_inode i extra s = (Ok (br_logical_size r + of_nat (length extra)), t)" "wf_store t"
    "om_get (st_records t) i = Some r'" "\<forall>j. j \<noteq> i \<longrightarrow> om_get (st_records t) j = om_get (st_records s) j"
    and tr: "st_records t = om_insert i r' (st_records s)" "br_inode r' = br_inode r"
    and r': "first_physical_block r' = er_physical_block e" "total_blocks r' = Ok n" "unat n = unat (er_length_blocks e) + ?k"
    "rec_span r' = er_span e \<union> {?next..<?next + ?k}"
    using append_splits [OF assms(1-3,6-8,11-13)] by blast
  have w: "wf_space s" "wf_device s" "wf_files s" "om_ok (st_records t)"
    using assms(1) t(2) by (simp_all add: wf_store_def wf_files_def)
  have kp: "0 < ?k"
    using blocks_for_ok [OF w(2), of extra] by simp
  have y: "?y < ?next"
    using span_below [OF w(1) assms(10)] wf_files_D(2) [OF w(3) assms(9)] by blast
  have "range_below last_block r'"
  proof -
    have "unat (max n 1) = unat n"
      using r'(3) kp by (simp add: max_def word_le_nat_alt)
    then have "unat (sat_add (er_physical_block e) (max n 1)) \<le> last_block"
      using r'(3) y kp by (simp add: sat_add_nat last_block_def)
    then show ?thesis
      using r'(1,2) by (simp add: range_below_iff)
  qed
  moreover have "range_below last_block p" if "(h, p) \<in> set (st_records s)" for h p
  proof -
    have p: "om_get (st_records s) h = Some p"
      using that om_mem_iff [of "st_records s"] w(3) by (simp add: wf_files_def)
    then have "range_below ?next p"
      using assms(4) y by (intro range_below_one [OF w(1) wf_files_D(2,1) [OF w(3) p]]) (auto simp: one_extent_def)
    then show ?thesis
      using kp by (auto simp: range_below_def last_block_def)
  qed
  ultimately have below: "\<forall>p \<in> set (om_values (st_records t)). range_below last_block p"
    unfolding tr(1) using om_mem_insert by fastforce
  have "length (om_values (st_records t)) < 2 ^ 32"
    using length_om_insert [of i r' "st_records s"] assms(14) unfolding tr(1) by simp
  moreover have "counts_at_most 0 w"
    using assms(16) by (simp add: counts_at_most_def)
  ultimately obtain x where x: "cfor ingest_record (om_values (st_records t)) w = (Ok (), x)" "unat (st_next_device_block x) \<le> last_block"
    "st_records x = fold (\<lambda>r. om_insert (br_inode r) r) (om_values (st_records t)) []"
    using ingest_all_below [OF below, of w 0] assms(15,17) by auto
  have "\<forall>(j, p) \<in> set (st_records t). br_inode p = j"
    using assms(5) om_mem_insert [of _ i r' "st_records s"] map_of_SomeD [OF assms(6)] tr by fastforce
  then have xr: "st_records x = st_records t"
    using om_refill [of "[]" "st_records t"] w(4) x(3) by simp
  then obtain v where v: "rebuild_free_extents x = (Ok (), v)" "unat (st_next_device_block v) \<le> last_block" "st_records v = st_records t"
    using rebuild_below [of x last_block] below x(2) by auto
  have "ingest_records (om_values (st_records t)) w = (Ok (), v)"
    using x(1) v(1) by (simp add: ingest_records_def cthen_run(1) [where m = "cfor _ _"])
  moreover have "last_block \<in> available v" "last_block \<in> rec_span (the (om_get (st_records v) i))"
    using v(2,3) t(3) r'(4) kp by (auto simp: available_def last_block_def)
  ultimately show ?thesis
    using t(1) v(3) by blast
qed

lemma remount_forgets_appended_block_witness:
  "\<exists>t v. append_to_inode 1 [15, 16, 17, 18] neighbours = (Ok 8, t)
    \<and> ingest_records (om_values (st_records t)) (tiny_store [] [] 0 []) = (Ok (), v) \<and> st_records v = st_records t
    \<and> 2 \<in> rec_span (the (om_get (st_records v) 1)) \<and> 2 \<in> available v"
proof -
  have "1 \<in> rec_span (tiny_record 2 4 [tiny_extent 4 1 1])"
    by (simp add: rec_span_def er_span_def)
  moreover have "blocks_for neighbours [15, 16, 17, 18] = 1" "roomy neighbours 1" "\<forall>j. one_extent neighbours j"
    by (simp_all add: blocks_for_def roomy_def one_extent_def)
  moreover have "unat (2 :: u64) + 1 - 1 = 2"
    by simp
  ultimately show ?thesis
    using remount_forgets_appended_block [OF neighbours_ok(1,2), of 1 "tiny_record 1 4 [tiny_extent 4 0 1]" "tiny_extent 4 0 1" 2
        "tiny_record 2 4 [tiny_extent 4 1 1]" "[15, 16, 17, 18]" "tiny_store [] [] 0 []"]
    by (simp add: plain_record_def)
qed

end
