(* ===== verification/Journaled.thy ===== *)
theory Journaled
  imports Volume_Load Journal_Safety
begin

text \<open>
  Crash-consistent saves on top of the journal, \<open>corefs-core/src/storage/ondisk/journaled.rs\<close>:
  the save session and the recovery that runs when a volume is mounted.
\<close>

section \<open>The parts shared with the capturing device\<close>

text \<open>A journal opened on the device for the duration of one command.\<close>

definition on_journal :: "'d device_ops \<Rightarrow> superblock \<Rightarrow> ('d journal, 'a) cmd \<Rightarrow> ('d, 'a) cmd" where
  "on_journal ops sb m d =
    (case journal_open ops d sb of
       Ok j \<Rightarrow> (case m j of (r, j') \<Rightarrow> (r, jn_device j'))
     | Err e \<Rightarrow> (Err e, d)
     | Panic \<Rightarrow> (Panic, d))"

text \<open>Begin, push every operation, commit.\<close>

definition write_transaction :: "'d device_ops \<Rightarrow> journal_op list \<Rightarrow> ('d journal, u64) cmd" where
  "write_transaction ops qs =
     cbind journal_begin (\<lambda>txn.
     cthen (cdrop (txn_commit ops (fold txn_push qs txn)))
       (cret (tb_txn_id txn)))"

definition replay_and_checkpoint :: "'d device_ops \<Rightarrow> ('d journal, replayed_txn list) cmd" where
  "replay_and_checkpoint ops =
     cbind (replay ops) (\<lambda>applied.
     cthen (checkpoint ops)
       (cret applied))"

definition apply_transaction :: "'d device_ops \<Rightarrow> journal_op list \<Rightarrow> ('d journal, u64 \<times> replayed_txn list) cmd" where
  "apply_transaction ops qs =
     cbind (write_transaction ops qs) (\<lambda>txn_id.
     cbind (replay_and_checkpoint ops) (\<lambda>applied.
       cret (txn_id, applied)))"

section \<open>The save session\<close>

record 'd save_session =
  js_device :: 'd
  js_sb :: superblock
  js_ops :: "journal_op list"

record journaled_report =
  jr_ops_applied :: nat
  jr_txn_id :: u64

definition js_open :: "'d device_ops \<Rightarrow> 'd \<Rightarrow> 'd save_session result" where
  "js_open ops d =
     rbind (read_sb_with_fallbacks ops d) (\<lambda>sb.
       Ok \<lparr>js_device = d, js_sb = sb, js_ops = []\<rparr>)"

definition js_write_data :: "'d device_ops \<Rightarrow> u64 \<Rightarrow> bytes \<Rightarrow> ('d save_session, unit) cmd" where
  "js_write_data ops block dat =
     cbind (clift (umul block BLOCK_SIZE)) (\<lambda>off.
       czoom js_device (\<lambda>d s. s\<lparr>js_device := d\<rparr>) (op_write_at ops off dat))"

definition js_stage_metadata_block :: "u64 \<Rightarrow> bytes \<Rightarrow> ('d save_session, unit) cmd" where
  "js_stage_metadata_block block dat =
    (if (of_nat (length dat) :: u64) \<noteq> BLOCK_SIZE
     then cfail (InvalidInput ''journaled save: metadata block payload must be '')
     else cmod (\<lambda>s. s\<lparr>js_ops := js_ops s @ [BlockWrite block dat]\<rparr>))"

definition js_stage_inode_update :: "u64 \<Rightarrow> bytes \<Rightarrow> ('d save_session, unit) cmd" where
  "js_stage_inode_update slot rec =
    (if length rec \<noteq> INODE_RECORD_SIZE
     then cfail (InvalidInput ''journaled save: inode record must be '')
     else cmod (\<lambda>s. s\<lparr>js_ops := js_ops s @ [InodeUpdate slot rec]\<rparr>))"

definition js_staged_ops :: "'d save_session \<Rightarrow> nat" where
  "js_staged_ops s = length (js_ops s)"

definition js_abort :: "'d save_session \<Rightarrow> unit result \<times> 'd" where
  "js_abort s = (Ok (), js_device s)"

definition js_commit :: "'d device_ops \<Rightarrow> 'd save_session \<Rightarrow> journaled_report result \<times> 'd" where
  "js_commit ops s =
    (if length (js_ops s) = 0
     then (Err (InvalidInput ''journaled save: no metadata ops staged - use abort() instead''), js_device s)
     else
       cthen (op_sync ops)
         (on_journal ops (js_sb s)
           (cbind (apply_transaction ops (js_ops s)) (\<lambda>(txn_id, applied).
              cret \<lparr>jr_ops_applied = sum_list (map rt_ops applied), jr_txn_id = txn_id\<rparr>)))
         (js_device s))"

definition js_commit_without_apply :: "'d device_ops \<Rightarrow> 'd save_session \<Rightarrow> u64 result \<times> 'd" where
  "js_commit_without_apply ops s =
    (if js_ops s = []
     then (Err (InvalidInput ''journaled save: no metadata ops staged''), js_device s)
     else
       cthen (op_sync ops)
         (on_journal ops (js_sb s) (write_transaction ops (js_ops s)))
         (js_device s))"

record recovery_report =
  rr_txns_replayed :: "u64 list"
  rr_ops_applied :: nat

definition recover_pending_transactions :: "'d device_ops \<Rightarrow> ('d, recovery_report) cmd" where
  "recover_pending_transactions ops =
     cbind (cread (read_sb_with_fallbacks ops)) (\<lambda>sb.
     cbind (on_journal ops sb (replay_and_checkpoint ops)) (\<lambda>applied.
       cret \<lparr>rr_txns_replayed = map rt_txn_id applied, rr_ops_applied = sum_list (map rt_ops applied)\<rparr>))"

end
