(* ===== verification/Journaled_Crash.thy ===== *)
theory Journaled_Crash
  imports Journaled
begin

text \<open>
  What a journaled save leaves on the medium when power is lost after any of its writes, and that
  recovery, itself interrupted any number of times, ends in the old state or the new one.
\<close>

section \<open>Devices that stay dead\<close>

text \<open>A command that keeps a predicate of the state, whatever it returns.\<close>

definition preserves :: "('s \<Rightarrow> bool) \<Rightarrow> ('s, 'a) cmd \<Rightarrow> bool" where
  "preserves P m \<longleftrightarrow> (\<forall>s. P s \<longrightarrow> P (snd (m s)))"

named_theorems preserve \<open>introduction rules for preserves\<close>

lemma preserves_pure [preserve]:
  "preserves P (cret x)" "preserves P (cfail e)" "preserves P (clift r)" "preserves P (cread f)"
  by (simp_all add: preserves_def)

lemma preserves_cbind [preserve]: "preserves P m \<Longrightarrow> (\<And>x. preserves P (f x)) \<Longrightarrow> preserves P (cbind m f)"
  by (fastforce simp: preserves_def cbind_def split: prod.split result.split)

lemma preserves_cthen [preserve]: "preserves P m \<Longrightarrow> preserves P k \<Longrightarrow> preserves P (cthen m k)"
  unfolding cthen_def by (rule preserves_cbind)

lemma preserves_cfor [preserve]: "(\<And>i. preserves P (body i)) \<Longrightarrow> preserves P (cfor body is)"
  by (induction "is") (simp_all add: preserve)

lemma preserves_jdev: "preserves P m \<Longrightarrow> preserves (\<lambda>j. P (jn_device j)) (jdev m)"
  by (simp add: preserves_def jdev_def czoom_simp)

lemma preserves_jset: "preserves (\<lambda>j. P (jn_device j)) (jset f)"
  by (simp add: preserves_def jset_def)

lemma preserves_apply_op:
  assumes "\<And>off dat. preserves P (op_write_at ops off dat)"
  shows "preserves (\<lambda>j. P (jn_device j)) (apply_op ops q)"
  by (cases q) (auto simp: apply_op_def split: prod.split intro!: preserve preserves_jdev assms)

lemma preserves_replay_loop:
  assumes "\<And>off dat. preserves P (op_write_at ops off dat)"
  shows "preserves (\<lambda>j. P (jn_device j)) (replay_loop ops tail cursor pending applied)"
proof -
  have r: "preserves (\<lambda>j. P (jn_device j)) (replay_record ops r p a)" for r p a
    by (cases "dr_kind r"; cases "p (dr_txn_id r)")
      (simp_all add: replay_record_def preserve preserves_apply_op assms)
  have "P (jn_device (snd (replay_loop ops tail cursor pending applied j)))" if "P (jn_device j)" for j
    using that r
  proof (induction ops tail cursor pending applied j rule: replay_loop.induct)
    case (1 ops tail cursor pending applied j)
    have k: "P (jn_device j')" if "replay_record ops r pending applied j = (x, j')" for r x j'
      using "1.prems" that unfolding preserves_def by (metis snd_conv)
    note unfold = replay_loop.simps [of ops tail cursor pending applied j]
    show ?case
    proof (cases "\<exists>r c p a j'. cursor < tail \<and> read_record_at ops j cursor = Ok (Some r)
        \<and> uadd cursor (dr_encoded_len r) = Ok c \<and> replay_record ops r pending applied j = (Ok (p, a), j')")
      case True
      then obtain r c p a j' where s: "cursor < tail" "read_record_at ops j cursor = Ok (Some r)"
        "uadd cursor (dr_encoded_len r) = Ok c" "replay_record ops r pending applied j = (Ok (p, a), j')"
        by blast
      then have "P (jn_device (snd (replay_loop ops tail c p a j')))"
        by (intro "1.IH" [OF _ s(2) refl s(3) _ refl refl _ "1.prems"(2)]) (auto intro: k)
      then show ?thesis
        using s by (simp add: unfold)
    next
      case False
      then show ?thesis
        using "1.prems"(1) k by (auto simp: unfold split: result.split option.split prod.split)
    qed
  qed
  then show ?thesis
    by (simp add: preserves_def)
qed


text \<open>A lossy device whose dead state is final: no command reaches the medium any more.\<close>

locale mortal_device = lossy_device ops image inv live
  for ops :: "'d device_ops" and image :: "'d \<Rightarrow> bytes" and inv live :: "'d \<Rightarrow> bool" +
  assumes dead_write_law: "inv d \<Longrightarrow> \<not> live d \<Longrightarrow>
      inv (snd (op_write_at ops off dat d)) \<and> \<not> live (snd (op_write_at ops off dat d))
      \<and> image (snd (op_write_at ops off dat d)) = image d"
begin

definition dead_at :: "bytes \<Rightarrow> 'd \<Rightarrow> bool" where
  "dead_at img d \<longleftrightarrow> inv d \<and> \<not> live d \<and> image d = img"

lemma dead_write: "preserves (dead_at img) (op_write_at ops off dat)"
  using dead_write_law by (auto simp: preserves_def dead_at_def)

lemma dead_sync: "preserves (dead_at img) (op_sync ops)"
  using lossy_sync_law by (fastforce simp: preserves_def dead_at_def)

lemmas dead_device = preserve preserves_jdev preserves_jset dead_write dead_sync

lemma dead_replay_and_checkpoint: "preserves (\<lambda>j. dead_at img (jn_device j)) (replay_and_checkpoint ops)"
  unfolding replay_and_checkpoint_def replay_def checkpoint_def flush_header_def
  by (auto intro!: dead_device preserves_replay_loop)

end

interpretation mortal_mem: mortal_device mem_ops md_data mem_ok "\<lambda>_. True"
  by unfold_locales simp

interpretation mortal_power: mortal_device "fault_ops mem_ops" "\<lambda>d. md_data (fd_inner d)"
  "\<lambda>d. fd_plan d = power_loss_plan n \<and> mem_ok (fd_inner d)" "powered n" for n
  by unfold_locales (auto simp: power_loss_write Let_def powered_def)

section \<open>The states a crash can leave\<close>

definition settled :: "superblock \<Rightarrow> (u64 \<times> log_item) list \<Rightarrow> bytes \<Rightarrow> bytes" where
  "settled sb es img = puts (committed_writes sb (committed (map snd es) (\<lambda>_. None))) img"

text \<open>The first half of a checkpoint: the records are wiped, the header still lists them.\<close>

definition wiped_volume :: "superblock \<Rightarrow> journal_header \<Rightarrow> bytes \<Rightarrow> bool" where
  "wiped_volume sb h img \<longleftrightarrow> cut (journal_lo sb) 4096 img = jh_encode_block h \<and> jh_magic h = JOURNAL_MAGIC
     \<and> jh_head_offset h = 0 \<and> 4096 \<le> unat (jh_record_area_bytes h) \<and> journal_hi sb h \<le> length img
     \<and> cut (journal_lo sb + 4096) 4096 img = zeros 4096 \<and> 2 \<le> unat (sb_journal_start sb)
     \<and> same_volume sb (cut 4096 4096 img)"

text \<open>A journal as \<open>format\<close> and \<open>checkpoint\<close> leave it: the records start at the front of the area.\<close>

definition front_volume :: "superblock \<Rightarrow> (u64 \<times> log_item) list \<Rightarrow> journal_header \<Rightarrow> bytes \<Rightarrow> bool" where
  "front_volume sb es h img \<longleftrightarrow> logged_volume sb es h img \<and> jh_head_offset h = 0 \<and> 4096 \<le> unat (jh_record_area_bytes h)"

text \<open>Recovery of the image ends in the state \<open>S\<close> outside the journal region.\<close>

definition recovers_to :: "superblock \<Rightarrow> u64 \<Rightarrow> bytes \<Rightarrow> bytes \<Rightarrow> bool" where
  "recovers_to sb A img S \<longleftrightarrow> (\<exists>h. jh_record_area_bytes h = A \<and>
     ((\<exists>es. front_volume sb es h img \<and> agree_outside (journal_lo sb) (journal_hi sb h) (settled sb es img) S)
      \<or> wiped_volume sb h img \<and> agree_outside (journal_lo sb) (journal_hi sb h) img S))"

definition idle_at :: "superblock \<Rightarrow> u64 \<Rightarrow> bytes \<Rightarrow> bytes \<Rightarrow> bool" where
  "idle_at sb A img S \<longleftrightarrow> (\<exists>h. jh_record_area_bytes h = A \<and> front_volume sb [] h img
     \<and> agree_outside (journal_lo sb) (journal_hi sb h) img S)"

definition clean_header :: "journal_header \<Rightarrow> journal_header" where
  "clean_header h = h\<lparr>jh_head_offset := 0, jh_tail_offset := 0, jh_state := JSTATE_CLEAN\<rparr>"

definition checkpoint_writes :: "superblock \<Rightarrow> journal_header \<Rightarrow> (nat \<times> bytes) list" where
  "checkpoint_writes sb h = [(journal_lo sb + 4096, zeros 4096), (journal_lo sb, jh_encode_block (clean_header h))]"

lemma length_checkpoint_writes: "length (checkpoint_writes sb h) = 2"
  by (simp add: checkpoint_writes_def)

lemma settled_Nil [simp]: "settled sb [] img = img"
  by (simp add: settled_def)

lemma agree_outside_trans: "agree_outside lo hi a b \<Longrightarrow> agree_outside lo hi b c \<Longrightarrow> agree_outside lo hi a c"
  by (simp add: agree_outside_def)

lemma agree_outside_put: "lo \<le> p \<Longrightarrow> p + length src \<le> hi \<Longrightarrow> hi \<le> length img \<Longrightarrow> agree_outside lo hi (put p src img) img"
  by (auto simp: agree_outside_def nth_put)

lemma wiped_volume_front:
  assumes "front_volume sb es h img" "length img < 2 ^ 64"
  shows "wiped_volume sb h (put (journal_lo sb + 4096) (zeros 4096) img)"
proof -
  have L: "log_on sb es h img" "jh_head_offset h = 0" "4096 \<le> unat (jh_record_area_bytes h)"
    "2 \<le> unat (sb_journal_start sb)" "same_volume sb (cut 4096 4096 img)"
    using assms(1) by (simp_all add: front_volume_def logged_volume_def)
  note b = log_on_bounds [OF L(1) assms(2)]
  have "8192 \<le> journal_lo sb" "journal_lo sb + 8192 \<le> length img"
    using L(3,4) b(4) by (simp_all add: journal_lo_def journal_hi_def)
  then show ?thesis
    using L b(4,5,9) by (simp add: wiped_volume_def)
qed

lemma idle_after_wipe:
  assumes "wiped_volume sb h img" "agree_outside (journal_lo sb) (journal_hi sb h) img S"
  shows "idle_at sb (jh_record_area_bytes h) (put (journal_lo sb) (jh_encode_block (clean_header h)) img) S"
proof -
  let ?img = "put (journal_lo sb) (jh_encode_block (clean_header h)) img"
  have W: "jh_magic h = JOURNAL_MAGIC" "4096 \<le> unat (jh_record_area_bytes h)" "journal_hi sb h \<le> length img"
    "2 \<le> unat (sb_journal_start sb)" "same_volume sb (cut 4096 4096 img)"
    using assms(1) by (simp_all add: wiped_volume_def)
  have lo: "8192 \<le> journal_lo sb" "journal_lo sb + 8192 \<le> length img" "journal_hi sb (clean_header h) = journal_hi sb h"
    using W by (simp_all add: journal_lo_def journal_hi_def clean_header_def)
  have "front_volume sb [] (clean_header h) ?img"
    using W lo by (simp add: front_volume_def logged_volume_def log_on_def Let_def clean_header_def valid_items_def
        journal_lo_def journal_hi_def) (simp add: cut_def)
  moreover have "agree_outside (journal_lo sb) (journal_hi sb h) ?img S"
    using agree_outside_trans [OF agree_outside_put assms(2)] W lo by (simp add: journal_hi_def)
  ultimately show ?thesis
    unfolding idle_at_def using lo(3) by (intro exI [of _ "clean_header h"]) (simp add: clean_header_def)
qed


lemma idle_recovers: "idle_at sb A img S \<Longrightarrow> recovers_to sb A img S"
  unfolding idle_at_def recovers_to_def by (metis settled_Nil)

lemma wiped_recovers:
  "wiped_volume sb h img \<Longrightarrow> agree_outside (journal_lo sb) (journal_hi sb h) img S \<Longrightarrow> recovers_to sb (jh_record_area_bytes h) img S"
  unfolding recovers_to_def by blast

lemma rewipe: "wiped_volume sb h img \<Longrightarrow> put (journal_lo sb + 4096) (zeros 4096) img = img"
  using put_cut [of "journal_lo sb + 4096" 4096 img]
  by (simp add: wiped_volume_def journal_hi_def)

text \<open>Any prefix of the writes of a checkpoint, then of a replay followed by a checkpoint.\<close>

lemma checkpoint_prefix:
  assumes "wiped_volume sb h img \<or> wiped_volume sb h (put (journal_lo sb + 4096) (zeros 4096) img)
      \<and> recovers_to sb (jh_record_area_bytes h) img S"
    and "agree_outside (journal_lo sb) (journal_hi sb h) img S" "journal_hi sb h \<le> length img"
  shows "recovers_to sb (jh_record_area_bytes h) (puts (take k (checkpoint_writes sb h)) img) S"
    and "2 \<le> k \<Longrightarrow> idle_at sb (jh_record_area_bytes h) (puts (take k (checkpoint_writes sb h)) img) S"
proof -
  let ?w = "put (journal_lo sb + 4096) (zeros 4096) img"
  have w: "wiped_volume sb h ?w"
    using assms(1) rewipe by auto
  then have hi: "4096 \<le> unat (jh_record_area_bytes h)" "journal_hi sb h \<le> length img"
    using assms(3) by (auto simp: wiped_volume_def)
  then have a: "agree_outside (journal_lo sb) (journal_hi sb h) ?w S"
    using agree_outside_trans [OF agree_outside_put assms(2)] by (simp add: journal_hi_def)
  show idle: "idle_at sb (jh_record_area_bytes h) (puts (take k (checkpoint_writes sb h)) img) S" if "2 \<le> k"
    using idle_after_wipe [OF w a] that by (simp add: checkpoint_writes_def)
  have "recovers_to sb (jh_record_area_bytes h) img S"
    using assms wiped_recovers by blast
  moreover have "recovers_to sb (jh_record_area_bytes h) ?w S"
    by (rule wiped_recovers [OF w a])
  ultimately show "recovers_to sb (jh_record_area_bytes h) (puts (take k (checkpoint_writes sb h)) img) S"
    using idle idle_recovers by (cases "2 \<le> k"; cases "k = 0") (auto simp: checkpoint_writes_def not_le less_2_cases_iff)
qed

definition recovery_writes :: "superblock \<Rightarrow> (u64 \<times> log_item) list \<Rightarrow> journal_header \<Rightarrow> (nat \<times> bytes) list" where
  "recovery_writes sb es h = committed_writes sb (committed (map snd es) (\<lambda>_. None)) @ checkpoint_writes sb h"

lemma recovery_prefix:
  assumes "front_volume sb es h img" "length img < 2 ^ 64"
    and "agree_outside (journal_lo sb) (journal_hi sb h) (settled sb es img) S"
  shows "recovers_to sb (jh_record_area_bytes h) (puts (take k (recovery_writes sb es h)) img) S"
    and "length (recovery_writes sb es h) \<le> k \<Longrightarrow> idle_at sb (jh_record_area_bytes h) (puts (take k (recovery_writes sb es h)) img) S"
proof -
  let ?ws = "committed_writes sb (committed (map snd es) (\<lambda>_. None))"
  have L: "logged_volume sb es h img"
    using assms(1) by (simp add: front_volume_def)
  have redo: "recovers_to sb (jh_record_area_bytes h) (puts (take k ?ws) img) S" for k
    using logged_redo(1,2) [OF L assms(2), of k] assms(1,3)
    unfolding recovers_to_def front_volume_def settled_def by (intro exI [of _ h]) auto
  note within = logged_redo(3) [OF L assms(2)]
  have "front_volume sb es h (settled sb es img)"
    using logged_redo(1) [OF L assms(2), of "length ?ws"] assms(1) by (simp add: front_volume_def settled_def)
  then have w: "wiped_volume sb h (put (journal_lo sb + 4096) (zeros 4096) (settled sb es img))"
    by (rule wiped_volume_front) (use within assms(2) in \<open>simp add: settled_def\<close>)
  have r: "recovers_to sb (jh_record_area_bytes h) (settled sb es img) S"
    using redo [of "length ?ws"] by (simp add: settled_def)
  have "journal_hi sb h \<le> length (settled sb es img)"
    using within log_on_bounds(4) [OF _ assms(2), of sb es h] L by (simp add: settled_def logged_volume_def)
  note c = checkpoint_prefix [OF disjI2 [OF conjI [OF w r]] assms(3) this]
  show "recovers_to sb (jh_record_area_bytes h) (puts (take k (recovery_writes sb es h)) img) S"
    using redo [of k] c(1) [of "k - length ?ws"]
    by (cases "k \<le> length ?ws") (simp_all add: recovery_writes_def puts_append settled_def)
  show "idle_at sb (jh_record_area_bytes h) (puts (take k (recovery_writes sb es h)) img) S" if "length (recovery_writes sb es h) \<le> k"
    using c(2) [of 2] that by (simp add: recovery_writes_def puts_append settled_def checkpoint_writes_def)
qed


section \<open>Running recovery\<close>

lemma journal_open_same:
  "sb_journal_start sb' = sb_journal_start sb \<Longrightarrow> journal_open ops d sb' = journal_open ops d sb"
  by (simp add: journal_open_def)

context lossy_device
begin

lemma read_same_volume:
  assumes "inv d" "same_volume sb (cut 4096 4096 (image d))" "8192 \<le> length (image d)"
  shows "\<exists>sb'. read_sb_with_fallbacks ops d = Ok sb' \<and> sb_journal_start sb' = sb_journal_start sb"
proof -
  have "unat (1 :: u64) * 4096 + 4096 \<le> length (image d)"
    using assms(3) by simp
  then have "read_superblock_at ops d PRIMARY_SUPERBLOCK_BLOCK = sb_decode_block (cut 4096 4096 (image d))"
    using read_whole_block [OF assms(1), of 1] block_aligned(1) [OF assms(1), of 1]
    by (simp add: read_superblock_at_def PRIMARY_SUPERBLOCK_BLOCK_def)
  moreover obtain sb' where s: "sb_decode_block (cut 4096 4096 (image d)) = Ok sb'" "sb_geometry sb' = sb_geometry sb"
    using assms(2) by (auto simp: same_volume_def)
  moreover have "sb_journal_start sb' = sb_journal_start sb"
    using arg_cong [OF s(2), of g_journal_start] by (simp add: sb_geometry_def)
  ultimately show ?thesis
    by (intro exI [of _ sb']) (simp add: read_sb_with_fallbacks_def)
qed

lemma open_block:
  assumes "inv d" "journal_lo sb + 4096 \<le> length (image d)" "cut (journal_lo sb) 4096 (image d) = jh_encode_block h"
    and "jh_magic h = JOURNAL_MAGIC"
  shows "journal_open ops d sb = Ok (opened sb h d)" "area_start (opened sb h d) = journal_lo sb + 4096"
proof -
  have lt: "length (image d) < 2 ^ 64" and b: "unat (sb_journal_start sb) * 4096 + 4096 \<le> length (image d)"
    using sector_size_law [OF assms(1)] assms(2) by (simp_all add: journal_lo_def)
  have "op_read_at ops d (sb_journal_start sb * BLOCK_SIZE) BLOCK_SIZE = Ok (jh_encode_block h)"
    using read_whole_block [OF assms(1) b] assms(3) by (simp add: journal_lo_def)
  moreover have s: "unat (sb_journal_start sb) + unat (1 :: u64) < 2 ^ LENGTH(64)"
    using b lt by simp
  ultimately show "journal_open ops d sb = Ok (opened sb h d)"
    using block_aligned(1) [OF assms(1) b] assms(4) by (simp add: journal_open_def jh_roundtrip opened_def uadd_def)
  show "area_start (opened sb h d) = journal_lo sb + 4096"
    using unat_add_ok [OF s] by (simp add: area_start_def opened_def journal_lo_def)
qed

lemma checkpoint_wrote:
  assumes "inv d" "journal_lo sb + 8192 \<le> length (image d)" "area_start (opened sb h d) = journal_lo sb + 4096"
  shows "\<exists>d'. checkpoint ops (opened sb h d) = (Ok (), opened sb (clean_header h) d') \<and> wrote d (checkpoint_writes sb h) d'"
proof -
  let ?j = "opened sb (clean_header h) d" and ?r = "sb_journal_start sb + 1"
  have r: "unat ?r * 4096 = journal_lo sb + 4096"
    using assms(3) by (simp add: area_start_def opened_def)
  then have rb: "unat ?r * 4096 + 4096 \<le> length (image d)"
    using assms(2) by simp
  obtain d1 where d1: "op_write_at ops (?r * BLOCK_SIZE) (zeros 4096) d = (Ok (), d1)"
      "wrote d [(journal_lo sb + 4096, zeros 4096)] d1"
    using wrote_block [OF assms(1) rb, of "zeros 4096"] r by auto
  have "length (image d1) = length (image d)"
    using wrote_length [OF d1(2)] assms(2) by simp
  then obtain d2 where d2: "flush_header ops (opened sb (clean_header h) d1) = (Ok (), opened sb (clean_header h) d2)"
      "wrote d1 [(journal_lo sb, jh_encode_block (clean_header h))] d2"
    using flush_header_wrote [of "opened sb (clean_header h) d1"] wrote_inv [OF d1(2)] assms(2)
    by (auto simp: journal_lo_def) (auto simp: opened_def)
  have "checkpoint ops (opened sb h d) = (Ok (), opened sb (clean_header h) d2)"
    using d1(1) d2(1) block_aligned(1) [OF assms(1) rb]
    by (simp add: checkpoint_def jset_def cthen_run(1) [where m = "cmod _"] cbind_run(1) [where m = "cread _"]
        cthen_run(1) [where m = "jdev _"] jdev_def czoom_simp cthen_run(1) [where m = "czoom _ _ _"] opened_def clean_header_def)
  then show ?thesis
    using wrote_trans [OF d1(2) d2(2)] by (auto simp: checkpoint_writes_def)
qed

lemma replay_wiped:
  assumes "inv d" "wiped_volume sb h (image d)"
  shows "replay ops (opened sb h d) = (Ok [], opened sb h d)"
proof -
  let ?j = "opened sb h d"
  have W: "cut (journal_lo sb) 4096 (image d) = jh_encode_block h" "jh_magic h = JOURNAL_MAGIC" "jh_head_offset h = 0"
    "journal_lo sb + 8192 \<le> length (image d)" "cut (journal_lo sb + 4096) 4096 (image d) = zeros 4096"
    using assms(2) by (auto simp: wiped_volume_def journal_hi_def)
  have a: "area_start ?j = journal_lo sb + 4096"
    using open_block(2) [OF assms(1) _ W(1,2)] W(4) by simp
  have "cut (journal_lo sb + 4096) 40 (image d) = cut 0 40 (cut (journal_lo sb + 4096) 4096 (image d))"
    by (simp add: cut_cut)
  then have z: "cut (journal_lo sb + 4096) 40 (image d) = zeros 40"
    unfolding W(5) by (simp add: cut_def zeros_def)
  have "read_bytes ops ?j 0 40 = Ok (zeros 40)"
    using read_bytes_Ok [of ?j 0 40] assms(1) a W(4) z by simp
  then have "read_record_at ops ?j 0 = Ok None"
    by (simp add: read_record_at_def zeros_def list_all_iff)
  then have "replay_loop ops (jh_tail_offset h) (jh_head_offset h) (\<lambda>_. None) [] ?j = (Ok [], ?j)"
    by (simp add: replay_loop.simps [of ops _ _ _ _ ?j] W(3))
  then show ?thesis
    by (simp add: replay_def cbind_run(1) [where m = "cread _"] cbind_run(1) [where m = "replay_loop _ _ _ _ _"]
        cthen_run(1) [where m = "cret _"])
qed

lemma replay_and_checkpoint_log:
  assumes "inv d" "front_volume sb es h (image d)"
  shows "\<exists>d'. replay_and_checkpoint ops (opened sb h d)
      = (Ok (summary (committed (map snd es) (\<lambda>_. None))), opened sb (clean_header h) d')
    \<and> wrote d (recovery_writes sb es h) d'"
proof -
  have F: "logged_volume sb es h (image d)" "log_on sb es h (image d)" "4096 \<le> unat (jh_record_area_bytes h)"
    using assms(2) by (simp_all add: front_volume_def logged_volume_def)
  have lt: "length (image d) < 2 ^ 64"
    using sector_size_law [OF assms(1)] by blast
  obtain d1 where d1: "replay ops (opened sb h d) = (Ok (summary (committed (map snd es) (\<lambda>_. None))), opened sb h d1)"
    "wrote d (committed_writes sb (committed (map snd es) (\<lambda>_. None))) d1"
    using replay_log [OF assms(1) F(1)] by blast
  have "journal_lo sb + 8192 \<le> length (image d1)"
    using log_on_bounds(4) [OF F(2) lt] F(3) wrote_length [OF d1(2) logged_redo(3) [OF F(1) lt]] by (simp add: journal_hi_def)
  moreover have "area_start (opened sb h d1) = journal_lo sb + 4096"
    by (rule area_start_opened [OF F(2) lt])
  ultimately obtain d2 where d2: "checkpoint ops (opened sb h d1) = (Ok (), opened sb (clean_header h) d2)"
      "wrote d1 (checkpoint_writes sb h) d2"
    using checkpoint_wrote [OF wrote_inv [OF d1(2)], of sb h] by blast
  show ?thesis
    using d1(1) d2(1) wrote_trans [OF d1(2) d2(2)]
    by (auto simp: replay_and_checkpoint_def cbind_run(1) [where m = "replay _"] cthen_run(1) [where m = "checkpoint _"]
        recovery_writes_def)
qed

lemma wrote_image:
  assumes "wrote d ws d'"
  shows "\<exists>k. image d' = puts (take k ws) (image d) \<and> (live d' \<longrightarrow> length ws \<le> k)"
  using assms unfolding wrote_def by (metis not_le)

lemma recover_run:
  assumes "inv d" "recovers_to sb A (image d) S"
  shows "\<exists>rep d'. recover_pending_transactions ops d = (Ok rep, d') \<and> inv d'
    \<and> recovers_to sb A (image d') S \<and> (live d' \<longrightarrow> idle_at sb A (image d') S)"
proof -
  have lt: "length (image d) < 2 ^ 64"
    using sector_size_law [OF assms(1)] by blast
  obtain h where A: "jh_record_area_bytes h = A" and
    "(\<exists>es. front_volume sb es h (image d) \<and> agree_outside (journal_lo sb) (journal_hi sb h) (settled sb es (image d)) S)
     \<or> wiped_volume sb h (image d) \<and> agree_outside (journal_lo sb) (journal_hi sb h) (image d) S"
    using assms(2) unfolding recovers_to_def by blast
  then consider es where "front_volume sb es h (image d)"
      "agree_outside (journal_lo sb) (journal_hi sb h) (settled sb es (image d)) S"
    | "wiped_volume sb h (image d)" "agree_outside (journal_lo sb) (journal_hi sb h) (image d) S"
    by blast
  then have "\<exists>applied d'. journal_open ops d sb = Ok (opened sb h d)
      \<and> replay_and_checkpoint ops (opened sb h d) = (Ok applied, opened sb (clean_header h) d') \<and> inv d'
      \<and> recovers_to sb A (image d') S \<and> (live d' \<longrightarrow> idle_at sb A (image d') S)
      \<and> same_volume sb (cut 4096 4096 (image d)) \<and> 8192 \<le> length (image d)"
  proof cases
    case (1 es)
    have F: "log_on sb es h (image d)" "same_volume sb (cut 4096 4096 (image d))" "2 \<le> unat (sb_journal_start sb)"
      using 1(1) by (simp_all add: front_volume_def logged_volume_def)
    obtain d' where d': "replay_and_checkpoint ops (opened sb h d)
        = (Ok (summary (committed (map snd es) (\<lambda>_. None))), opened sb (clean_header h) d')"
      "wrote d (recovery_writes sb es h) d'"
      using replay_and_checkpoint_log [OF assms(1) 1(1)] by blast
    obtain k where k: "image d' = puts (take k (recovery_writes sb es h)) (image d)"
        "live d' \<longrightarrow> length (recovery_writes sb es h) \<le> k"
      using wrote_image [OF d'(2)] by blast
    note p = recovery_prefix [OF 1(1) lt 1(2), of k, folded k(1), unfolded A]
    show ?thesis
      using open_log [OF assms(1) F(1)] d'(1) wrote_inv [OF d'(2)] p k(2) F log_on_bounds(1) [OF F(1) lt] by auto
  next
    case 2
    have W: "cut (journal_lo sb) 4096 (image d) = jh_encode_block h" "jh_magic h = JOURNAL_MAGIC"
      "journal_lo sb + 8192 \<le> length (image d)" "journal_hi sb h \<le> length (image d)"
      "same_volume sb (cut 4096 4096 (image d))"
      using 2(1) by (auto simp: wiped_volume_def journal_hi_def)
    have o: "journal_open ops d sb = Ok (opened sb h d)" "area_start (opened sb h d) = journal_lo sb + 4096"
      using open_block [OF assms(1) _ W(1,2)] W(3) by simp_all
    obtain d' where d': "checkpoint ops (opened sb h d) = (Ok (), opened sb (clean_header h) d')" "wrote d (checkpoint_writes sb h) d'"
      using checkpoint_wrote [OF assms(1) W(3) o(2)] by blast
    obtain k where k: "image d' = puts (take k (checkpoint_writes sb h)) (image d)" "live d' \<longrightarrow> 2 \<le> k"
      using wrote_image [OF d'(2)] unfolding length_checkpoint_writes by blast
    have "replay_and_checkpoint ops (opened sb h d) = (Ok [], opened sb (clean_header h) d')"
      using replay_wiped [OF assms(1) 2(1)] d'(1)
      by (simp add: replay_and_checkpoint_def cbind_run(1) [where m = "replay _"] cthen_run(1) [where m = "checkpoint _"])
    then show ?thesis
      using o(1) wrote_inv [OF d'(2)] k(2) W checkpoint_prefix [OF disjI1 [OF 2(1)] 2(2) W(4), of k, folded k(1), unfolded A]
      by auto
  qed
  then obtain applied d' sb' where r: "journal_open ops d sb' = Ok (opened sb h d)"
      "replay_and_checkpoint ops (opened sb h d) = (Ok applied, opened sb (clean_header h) d')" "inv d'"
      "recovers_to sb A (image d') S" "live d' \<longrightarrow> idle_at sb A (image d') S" "read_sb_with_fallbacks ops d = Ok sb'"
    using read_same_volume [OF assms(1)] journal_open_same by metis
  have "on_journal ops sb' (replay_and_checkpoint ops) d = (Ok applied, d')"
    using r(1,2) by (simp add: on_journal_def)
  then show ?thesis
    using r(3-6) by (simp add: recover_pending_transactions_def cbind_run(1) [where m = "cread _"]
        cbind_run(1) [where m = "on_journal _ _ _"])
qed

lemma write_transaction_log:
  assumes "inv d" "log_on sb es h (image d)" "qs \<noteq> []"
    and "unat (jh_tail_offset h) + length (log_bytes (number (jh_next_seq h) (txn_items (jh_next_txn_id h) qs)))
       \<le> unat (jh_record_area_bytes h)"
    and "unat (jh_next_seq h) + length qs + 1 < 2 ^ 64"
  shows "\<exists>d'. write_transaction ops qs (opened sb h d) = (Ok (jh_next_txn_id h), opened sb (committed_header h qs) d')
    \<and> wrote d (commit_writes (journal_lo sb) (journal_lo sb + 4096) (dirty_header h) (txn_items (jh_next_txn_id h) qs)) d'"
proof -
  let ?t = "jh_next_txn_id h"
  obtain d' where d': "journal_begin (opened sb h d) = (Ok \<lparr>tb_txn_id = ?t, tb_ops = []\<rparr>, opened sb (begun_header h) d)"
    "txn_commit ops \<lparr>tb_txn_id = ?t, tb_ops = qs\<rparr> (opened sb (begun_header h) d) = (Ok ?t, opened sb (committed_header h qs) d')"
    "wrote d (commit_writes (journal_lo sb) (journal_lo sb + 4096) (dirty_header h) (txn_items ?t qs)) d'"
    using commit_log_exact [OF assms(1-4)] assms(5) by (auto simp: txn_items_def)
  have push: "fold txn_push qs \<lparr>tb_txn_id = t, tb_ops = ps\<rparr> = \<lparr>tb_txn_id = t, tb_ops = ps @ qs\<rparr>" for qs t ps
    by (induction qs arbitrary: ps) (simp_all add: txn_push_def)
  show ?thesis
    using d' by (intro exI [of _ d']) (simp add: write_transaction_def cbind_run(1) [where m = journal_begin] push
        cthen_run(1) [where m = "cdrop _"] cdrop_run(1))
qed

end

section \<open>A journaled save cut short\<close>

text \<open>The state a save of the operations \<open>qs\<close> is to reach.\<close>

definition saved_state :: "superblock \<Rightarrow> (u64 \<times> log_item) list \<Rightarrow> journal_header \<Rightarrow> journal_op list \<Rightarrow> bytes \<Rightarrow> bytes" where
  "saved_state sb es h qs img = settled sb (es @ number (jh_next_seq h) (txn_items (jh_next_txn_id h) qs)) img"

text \<open>A save that fits in the journal.\<close>

definition save_fits :: "superblock \<Rightarrow> journal_header \<Rightarrow> nat \<Rightarrow> journal_op list \<Rightarrow> bool" where
  "save_fits sb h n qs \<longleftrightarrow> qs \<noteq> [] \<and> (\<forall>q \<in> set qs. valid_op sb (journal_lo sb) (journal_hi sb h) n q)
     \<and> unat (jh_tail_offset h) + length (log_bytes (number (jh_next_seq h) (txn_items (jh_next_txn_id h) qs)))
       \<le> unat (jh_record_area_bytes h)
     \<and> unat (jh_next_seq h) + length qs + 1 < 2 ^ 64"

lemma committed_header_sel:
  "jh_record_area_bytes (committed_header h qs) = jh_record_area_bytes h"
  "jh_head_offset (committed_header h qs) = jh_head_offset h"
  by (simp_all add: committed_header_def Let_def dirty_header_def begun_header_def)

context mortal_device
begin

lemma apply_transaction_run:
  assumes "inv d" "front_volume sb es h (image d)" "save_fits sb h (length (image d)) qs"
  shows "\<exists>r j'. apply_transaction ops qs (opened sb h d) = (r, j') \<and> inv (jn_device j')
    \<and> (recovers_to sb (jh_record_area_bytes h) (image (jn_device j')) (settled sb es (image d)) \<and> \<not> live (jn_device j')
       \<or> recovers_to sb (jh_record_area_bytes h) (image (jn_device j')) (saved_state sb es h qs (image d)))
    \<and> (live (jn_device j') \<longrightarrow> idle_at sb (jh_record_area_bytes h) (image (jn_device j')) (saved_state sb es h qs (image d))
         \<and> r = Ok (jh_next_txn_id h, summary (committed (map snd es @ txn_items (jh_next_txn_id h) qs) (\<lambda>_. None))))"
proof -
  let ?t = "jh_next_txn_id h" and ?A = "jh_record_area_bytes h" and ?h2 = "committed_header h qs"
  let ?es2 = "es @ number (jh_next_seq h) (txn_items ?t qs)" and ?new = "saved_state sb es h qs (image d)"
  have F: "logged_volume sb es h (image d)" "log_on sb es h (image d)" "jh_head_offset h = 0" "4096 \<le> unat ?A"
    using assms(2) by (simp_all add: front_volume_def logged_volume_def)
  have Q: "qs \<noteq> []" "\<And>q. q \<in> set qs \<Longrightarrow> valid_op sb (journal_lo sb) (journal_hi sb h) (length (image d)) q"
    "unat (jh_tail_offset h) + length (log_bytes (number (jh_next_seq h) (txn_items ?t qs))) \<le> unat ?A"
    "unat (jh_next_seq h) + length qs + 1 < 2 ^ 64"
    using assms(3) by (simp_all add: save_fits_def)
  have lt: "length (image d) < 2 ^ 64"
    using sector_size_law [OF assms(1)] by blast
  obtain d2 where d2: "write_transaction ops qs (opened sb h d) = (Ok ?t, opened sb ?h2 d2)"
    "wrote d (commit_writes (journal_lo sb) (journal_lo sb + 4096) (dirty_header h) (txn_items ?t qs)) d2"
    using write_transaction_log [OF assms(1) F(2) Q(1,3,4)] by blast
  have n: "length (txn_items ?t qs) + 2 = length qs + 3"
    by (simp add: txn_items_def)
  obtain k where k: "k \<le> length qs + 3" "k < length qs + 3 \<longrightarrow> \<not> live d2"
    "image d2 = puts (take k (commit_writes (journal_lo sb) (journal_lo sb + 4096) (dirty_header h) (txn_items ?t qs))) (image d)"
    using d2(2) [unfolded wrote_def length_commit_writes n] by (elim conjE exE) (rule that, assumption+)
  have c: "agree_outside (journal_lo sb) (journal_hi sb h) (image d2) (image d)"
    "k < length qs + 3 \<Longrightarrow> \<exists>h'. same_log h' h \<and> logged_volume sb es h' (image d2)"
    "k = length qs + 3 \<Longrightarrow> logged_volume sb ?es2 ?h2 (image d2)"
    by (rule commit_prefix [OF F(1) lt Q(2,3) k(1,3)]; assumption)+
  have lt2: "length (image d2) < 2 ^ 64"
    using sector_size_law [OF wrote_inv [OF d2(2)]] by blast
  have hi: "journal_hi sb g = journal_hi sb h" if "jh_record_area_bytes g = ?A" for g
    using that by (simp add: journal_hi_def)
  have agree: "agree_outside (journal_lo sb) (journal_hi sb h) (settled sb es' (image d2)) (settled sb es' (image d))"
    if "logged_volume sb es' g (image d2)" for es' g
    unfolding settled_def by (rule agree_outside_puts [OF c(1) logged_redo(3) [OF that(1) lt2]])
  have new: "front_volume sb ?es2 ?h2 (image d2)"
    "agree_outside (journal_lo sb) (journal_hi sb ?h2) (settled sb ?es2 (image d2)) ?new" if "k = length qs + 3"
    using c(3) [OF that] F(3,4) agree [OF c(3) [OF that]]
    unfolding front_volume_def committed_header_sel saved_state_def hi [OF committed_header_sel(1)] by blast+
  have run: "apply_transaction ops qs (opened sb h d)
      = cbind (replay_and_checkpoint ops) (\<lambda>applied. cret (?t, applied)) (opened sb ?h2 d2)"
    by (simp add: apply_transaction_def cbind_run(1) [where m = "write_transaction _ _", OF d2(1)])
  show ?thesis
  proof (cases "live d2")
    case True
    then have full: "k = length qs + 3"
      using k(1,2) by linarith
    obtain d3 where d3: "replay_and_checkpoint ops (opened sb ?h2 d2)
        = (Ok (summary (committed (map snd ?es2) (\<lambda>_. None))), opened sb (clean_header ?h2) d3)"
      "wrote d2 (recovery_writes sb ?es2 ?h2) d3"
      using replay_and_checkpoint_log [OF wrote_inv [OF d2(2)] new(1) [OF full]] by blast
    obtain l where l: "image d3 = puts (take l (recovery_writes sb ?es2 ?h2)) (image d2)"
        "live d3 \<longrightarrow> length (recovery_writes sb ?es2 ?h2) \<le> l"
      using wrote_image [OF d3(2)] by blast
    note p = recovery_prefix [OF new(1) [OF full] lt2 new(2) [OF full], of l, folded l(1), unfolded committed_header_sel]
    show ?thesis
      using run d3(1) wrote_inv [OF d3(2)] p l(2)
      by (simp add: cbind_run(1) [where m = "replay_and_checkpoint _"])
  next
    case False
    let ?j = "snd (apply_transaction ops qs (opened sb h d))"
    have "preserves (\<lambda>j. dead_at (image d2) (jn_device j)) (cbind (replay_and_checkpoint ops) (\<lambda>applied. cret (?t, applied)))"
      by (intro preserve dead_replay_and_checkpoint)
    moreover have "dead_at (image d2) (jn_device (opened sb ?h2 d2))"
      using False wrote_inv [OF d2(2)] by (simp add: dead_at_def)
    ultimately have dead: "inv (jn_device ?j)" "\<not> live (jn_device ?j)" "image (jn_device ?j) = image d2"
      unfolding run preserves_def dead_at_def by blast+
    have "recovers_to sb ?A (image d2) (settled sb es (image d)) \<or> recovers_to sb ?A (image d2) ?new"
    proof (cases "k = length qs + 3")
      case True
      then show ?thesis
        using new by (metis committed_header_sel(1) recovers_to_def)
    next
      case False
      then obtain g where g: "same_log g h" "logged_volume sb es g (image d2)"
        using c(2) k(1) by (metis le_neq_implies_less)
      then have "front_volume sb es g (image d2)" "jh_record_area_bytes g = ?A"
        using F(3,4) by (simp_all add: front_volume_def same_log_def)
      then show ?thesis
        using agree [OF g(2)] hi unfolding recovers_to_def by metis
    qed
    then show ?thesis
      using dead by (intro exI [of _ "fst (apply_transaction ops qs (opened sb h d))"] exI [of _ ?j]) auto
  qed
qed

text \<open>The same through a journal opened for the occasion, after a sync.\<close>

lemma on_journal_apply:
  assumes "inv d" "front_volume sb es h (image d)" "save_fits sb h (length (image d)) qs"
    and "sb_journal_start sb' = sb_journal_start sb"
  shows "\<exists>r d'. on_journal ops sb' (apply_transaction ops qs) d = (r, d') \<and> inv d'
    \<and> (recovers_to sb (jh_record_area_bytes h) (image d') (settled sb es (image d)) \<and> \<not> live d'
       \<or> recovers_to sb (jh_record_area_bytes h) (image d') (saved_state sb es h qs (image d)))
    \<and> (live d' \<longrightarrow> idle_at sb (jh_record_area_bytes h) (image d') (saved_state sb es h qs (image d))
         \<and> r = Ok (jh_next_txn_id h, summary (committed (map snd es @ txn_items (jh_next_txn_id h) qs) (\<lambda>_. None))))"
proof -
  have "log_on sb es h (image d)"
    using assms(2) by (simp add: front_volume_def logged_volume_def)
  then have "journal_open ops d sb' = Ok (opened sb h d)"
    using open_log [OF assms(1)] journal_open_same [OF assms(4)] by metis
  then show ?thesis
    using apply_transaction_run [OF assms(1-3)] by (auto simp: on_journal_def split: prod.split)
qed

end

lemma on_journal_cbind_cret:
  "on_journal ops sb (cbind m (\<lambda>x. cret (f x))) d = cbind (on_journal ops sb m) (\<lambda>x. cret (f x)) d"
  by (auto simp: on_journal_def cbind_def split: result.split prod.split)

lemma committed_first: "committed (txn_items t qs) (\<lambda>_. None) = (if qs = [] then [] else [(t, qs)])"
  using committed_append_txn [of qs t "[]" "\<lambda>_. None"] by (cases "qs = []") (simp_all add: txn_items_def)

lemma saved_state_idle: "qs \<noteq> [] \<Longrightarrow> saved_state sb [] h qs img = puts (map (op_write sb) qs) img"
  by (simp add: saved_state_def settled_def committed_first committed_writes_def)

text \<open>A save from an idle journal: what \<open>commit\<close> of a session leaves.\<close>

lemma summary_first: "qs \<noteq> [] \<Longrightarrow> summary (committed (txn_items t qs) (\<lambda>_. None)) = [\<lparr>rt_txn_id = t, rt_ops = length qs\<rparr>]"
  by (simp add: committed_first)

end
