(* ===== verification/Journal_Capture.thy ===== *)
theory Journal_Capture
  imports Journaled_Crash Ordered_Map
begin

text \<open>
  The capturing device of \<open>corefs-core/src/storage/ondisk/journal_capture.rs\<close>: block-aligned writes
  are buffered in a map, reads see the buffered blocks over the device, and a commit writes them
  as one journal transaction.
\<close>

section \<open>The capturing device\<close>

record 'd capture =
  jc_inner :: 'd
  jc_captured :: "(u64, bytes) omap"

definition jc_new :: "'d \<Rightarrow> 'd capture" where
  "jc_new d = \<lparr>jc_inner = d, jc_captured = []\<rparr>"

definition jc_staged_blocks :: "'d capture \<Rightarrow> nat" where
  "jc_staged_blocks c = length (jc_captured c)"

text \<open>One turn of the merge loop of \<open>read_at\<close>.\<close>

definition jc_merge_block :: "(u64, bytes) omap \<Rightarrow> u64 \<Rightarrow> u64 \<Rightarrow> u64 \<Rightarrow> bytes \<Rightarrow> bytes result" where
  "jc_merge_block captured offset end_byte block out =
    (case om_get captured block of
       None \<Rightarrow> Ok out
     | Some buf \<Rightarrow>
         rbind (umul block BLOCK_SIZE) (\<lambda>block_byte_start.
         let copy_start_abs = max block_byte_start offset in
         rbind (uadd block_byte_start BLOCK_SIZE) (\<lambda>block_byte_end.
         let copy_end_abs = min block_byte_end end_byte in
         if copy_end_abs \<le> copy_start_abs then Ok out
         else
           let dst_off = unat (copy_start_abs - offset);
               src_off = unat (copy_start_abs - block_byte_start);
               copy_len = unat (copy_end_abs - copy_start_abs) in
           rbind (cut_res src_off copy_len buf) (\<lambda>src. copy_into dst_off src out))))"

definition jc_read_at :: "'d device_ops \<Rightarrow> 'd capture \<Rightarrow> u64 \<Rightarrow> u64 \<Rightarrow> bytes result" where
  "jc_read_at ops c offset len =
     rbind (op_read_at ops (jc_inner c) offset len) (\<lambda>out.
     if jc_captured c = [] then Ok out
     else
       let start_block = offset div BLOCK_SIZE in
       rbind (uadd offset len) (\<lambda>end_byte.
       let end_block = div_ceil end_byte BLOCK_SIZE in
       rfor (jc_merge_block (jc_captured c) offset end_byte) (range64 start_block end_block) out))"

text \<open>The buffered blocks of a block-sized write, in ascending order.\<close>

definition jc_capture_block :: "u64 \<Rightarrow> bytes \<Rightarrow> u64 \<Rightarrow> ('d capture, unit) cmd" where
  "jc_capture_block start_block dat i =
     cbind (clift (uadd start_block i)) (\<lambda>block.
     cbind (clift (umul i BLOCK_SIZE)) (\<lambda>from'.
     cbind (clift (cut_res (unat from') (unat BLOCK_SIZE) dat)) (\<lambda>buf.
       cmod (\<lambda>c. c\<lparr>jc_captured := om_insert block buf (jc_captured c)\<rparr>))))"

definition jc_inner_cmd :: "('d, 'a) cmd \<Rightarrow> ('d capture, 'a) cmd" where
  "jc_inner_cmd m = czoom jc_inner (\<lambda>d c. c\<lparr>jc_inner := d\<rparr>) m"

definition jc_write_at :: "'d device_ops \<Rightarrow> u64 \<Rightarrow> bytes \<Rightarrow> ('d capture, unit) cmd" where
  "jc_write_at ops offset dat =
    (let block_sized = (of_nat (length dat) :: u64) mod BLOCK_SIZE = 0;
         block_aligned = offset mod BLOCK_SIZE = 0 in
     if \<not> block_sized \<or> \<not> block_aligned then jc_inner_cmd (op_write_at ops offset dat)
     else
       let start_block = offset div BLOCK_SIZE; num_blocks = of_nat (length dat) div BLOCK_SIZE in
       cfor (jc_capture_block start_block dat) (range64 0 num_blocks))"

definition capture_ops :: "'d device_ops \<Rightarrow> 'd capture device_ops" where
  "capture_ops ops =
    \<lparr>op_geometry = (\<lambda>c. op_geometry ops (jc_inner c)), op_read_at = jc_read_at ops,
     op_write_at = jc_write_at ops, op_sync = jc_inner_cmd (op_sync ops),
     op_trim = (\<lambda>offset len. jc_inner_cmd (op_trim ops offset len)),
     op_supports_trim = (\<lambda>c. op_supports_trim ops (jc_inner c)),
     op_resize = (\<lambda>n. jc_inner_cmd (op_resize ops n))\<rparr>"

definition jc_commit_journaled :: "'d device_ops \<Rightarrow> 'd capture \<Rightarrow> nat result \<times> 'd" where
  "jc_commit_journaled ops c =
    (if jc_captured c = [] then (Ok 0, jc_inner c)
     else
       cthen (op_sync ops)
      (cbind (cread (read_sb_with_fallbacks ops)) (\<lambda>sb.
       cbind (on_journal ops sb (apply_transaction ops (map (\<lambda>(block, dat). BlockWrite block dat) (jc_captured c)))) (\<lambda>_.
         cret (length (jc_captured c))))) (jc_inner c))"

definition jc_abort :: "'d capture \<Rightarrow> 'd" where
  "jc_abort c = jc_inner c"

lemma capture_ops_sel [simp]:
  "op_geometry (capture_ops ops) = (\<lambda>c. op_geometry ops (jc_inner c))" "op_read_at (capture_ops ops) = jc_read_at ops"
  "op_write_at (capture_ops ops) = jc_write_at ops" "op_sync (capture_ops ops) = jc_inner_cmd (op_sync ops)"
  by (simp_all add: capture_ops_def)

section \<open>What a reader of the captured device sees\<close>

definition overlay :: "(u64, bytes) omap \<Rightarrow> bytes \<Rightarrow> bytes" where
  "overlay m img = puts (map (\<lambda>(b, dat). (unat b * 4096, dat)) m) img"

definition capture_ok :: "nat \<Rightarrow> (u64, bytes) omap \<Rightarrow> bool" where
  "capture_ok n m \<longleftrightarrow> om_ok m \<and> (\<forall>(b, dat) \<in> set m. length dat = 4096 \<and> unat b * 4096 + 4096 \<le> n)"

text \<open>The byte at position \<open>p\<close>.\<close>

definition seen :: "(u64, bytes) omap \<Rightarrow> bytes \<Rightarrow> nat \<Rightarrow> u8" where
  "seen m img p = (case om_get m (of_nat (p div 4096)) of None \<Rightarrow> img ! p | Some dat \<Rightarrow> dat ! (p mod 4096))"

lemma capture_within: "capture_ok n m \<Longrightarrow> within n (map (\<lambda>(b, dat). (unat b * 4096, dat)) m)"
  by (auto simp: capture_ok_def within_def)

lemma length_overlay [simp]: "capture_ok (length img) m \<Longrightarrow> length (overlay m img) = length img"
  by (simp add: overlay_def capture_within)

lemma in_block: "p div 4096 = k \<longleftrightarrow> k * 4096 \<le> p \<and> p < k * 4096 + (4096 :: nat)"
proof
  assume "p div 4096 = k"
  then show "k * 4096 \<le> p \<and> p < k * 4096 + 4096"
    using div_mult_mod_eq [of p 4096] mod_less_divisor [of 4096 p] by linarith
next
  assume "k * 4096 \<le> p \<and> p < k * 4096 + 4096"
  then show "p div 4096 = k"
    by (intro div_nat_eqI) simp_all
qed

lemma nth_overlay:
  assumes "capture_ok (length img) m" "p < length img" "length img < 2 ^ 64"
  shows "overlay m img ! p = seen m img p"
proof -
  have u: "unat (of_nat (p div 4096) :: u64) = p div 4096"
    using assms(2,3) by (intro unat_of_nat_ok) (simp add: less_mult_imp_div_less)
  have "puts (map (\<lambda>(b, dat). (unat b * 4096, dat)) m) img' ! p
      = (case map_of m (of_nat (p div 4096)) of None \<Rightarrow> img' ! p | Some dat \<Rightarrow> dat ! (p mod 4096))"
    if "distinct (map fst m)" "\<forall>(b, dat) \<in> set m. length dat = 4096 \<and> unat b * 4096 + 4096 \<le> length img'" "p < length img'" for m :: "(u64, bytes) omap" and img'
    using that
  proof (induction m arbitrary: img')
    case (Cons e m)
    obtain b dat where e: "e = (b, dat)" by (cases e)
    let ?img = "put (unat b * 4096) dat img'"
    have bd: "length dat = 4096" "unat b * 4096 + 4096 \<le> length img'"
      using Cons.prems(2) by (simp_all add: e)
    have IH: "puts (map (\<lambda>(b, dat). (unat b * 4096, dat)) m) ?img ! p
        = (case map_of m (of_nat (p div 4096)) of None \<Rightarrow> ?img ! p | Some dat \<Rightarrow> dat ! (p mod 4096))"
      using Cons.prems bd by (intro Cons.IH) (auto simp: e)
    have here: "b = of_nat (p div 4096) \<longleftrightarrow> unat b * 4096 \<le> p \<and> p < unat b * 4096 + 4096"
    proof -
      have "b = of_nat (p div 4096) \<longleftrightarrow> p div 4096 = unat b"
        unfolding word_unat_eq_iff u by (rule eq_commute)
      then show ?thesis
        using in_block [of p "unat b"] by metis
    qed
    show ?case
    proof (cases "b = of_nat (p div 4096)")
      case True
      then have "map_of m (of_nat (p div 4096)) = None"
        using Cons.prems(1) by (simp add: e map_of_eq_None_iff)
      moreover have "?img ! p = dat ! (p mod 4096)"
        using here True bd u by (simp add: nth_put) (simp add: minus_div_mult_eq_mod)
      ultimately show ?thesis
        using IH True by (simp add: e)
    next
      case False
      then have "?img ! p = img' ! p"
        using here bd Cons.prems(3) by (auto simp: nth_put)
      then show ?thesis
        using IH False by (auto simp: e split: option.split)
    qed
  qed simp
  then show ?thesis
    using assms om_ok_distinct by (auto simp: overlay_def seen_def capture_ok_def)
qed

section \<open>Reads\<close>

lemma length_seen: "length (map (seen m img) [a..<b]) = b - a"
  by simp

text \<open>One turn of the merge loop fills in one block of the range.\<close>

definition merged :: "(u64, bytes) omap \<Rightarrow> bytes \<Rightarrow> nat set \<Rightarrow> nat \<Rightarrow> u8" where
  "merged m img K p = (if p div 4096 \<in> K then seen m img p else img ! p)"

lemma put_part:
  assumes "length buf = n" "a = max s k" "z = min (s + n) (k + l)" "a < (z :: nat)"
    and "\<And>p. g p = (if s \<le> p \<and> p < s + n then buf ! (p - s) else f p)"
  shows "put (a - k) (cut (a - s) (z - a) buf) (map f [k..<k + l]) = map g [k..<k + l]"
proof (rule nth_equalityI)
  have fit: "a - s + (z - a) \<le> length buf" "a - k + (z - a) \<le> l" "s \<le> a" "k \<le> a" "z \<le> s + n"
    using assms(1-4) by auto
  then show "length (put (a - k) (cut (a - s) (z - a) buf) (map f [k..<k + l])) = length (map g [k..<k + l])"
    by simp
  fix i
  assume "i < length (put (a - k) (cut (a - s) (z - a) buf) (map f [k..<k + l]))"
  then have i: "i < l"
    using fit by simp
  have part: "cut (a - s) (z - a) buf ! (i - (a - k)) = buf ! (k + i - s)" if "a \<le> k + i" "k + i < z"
  proof -
    have "a - s + (i - (a - k)) = k + i - s"
      using that fit by linarith
    then show ?thesis
      using that fit by (simp add: nth_cut)
  qed
  have "put (a - k) (cut (a - s) (z - a) buf) (map f [k..<k + l]) ! i
      = (if a \<le> k + i \<and> k + i < z then buf ! (k + i - s) else f (k + i))"
    using fit i part by (auto simp: nth_put)
  moreover have "a \<le> k + i \<and> k + i < z \<longleftrightarrow> s \<le> k + i \<and> k + i < s + n"
    using assms(2,3) i by auto
  ultimately show "put (a - k) (cut (a - s) (z - a) buf) (map f [k..<k + l]) ! i = map g [k..<k + l] ! i"
    using i by (simp add: assms(5))
qed

lemma merge_block_ok:
  assumes "capture_ok (length img) m" "length img < 2 ^ 64" "unat off + unat len \<le> length img"
    and "unat b * 4096 < unat off + unat len"
  shows "jc_merge_block m off (off + len) b (map (merged m img K) [unat off..<unat off + unat len])
    = Ok (map (merged m img (insert (unat b) K)) [unat off..<unat off + unat len])"
proof (cases "om_get m b")
  case None
  then have "merged m img (insert (unat b) K) = merged m img K"
    by (auto simp: merged_def seen_def fun_eq_iff)
  then show ?thesis
    using None by (simp add: jc_merge_block_def)
next
  case (Some buf)
  let ?o = "unat off" and ?l = "unat len" and ?s = "unat b * 4096"
  let ?out = "map (merged m img K) [?o..<?o + ?l]"
  have buf: "length buf = 4096" "?s + 4096 \<le> length img"
    using Some assms(1) map_of_SomeD by (force simp: capture_ok_def)+
  have e: "unat (off + len) = ?o + ?l"
    using assms(2,3) by (intro unat_add_ok) simp
  have s: "umul b BLOCK_SIZE = Ok (b * BLOCK_SIZE)" "unat (b * BLOCK_SIZE) = ?s"
    using buf(2) assms(2) by (simp_all add: umul_def unat_mul_ok)
  have t: "uadd (b * BLOCK_SIZE) BLOCK_SIZE = Ok (b * BLOCK_SIZE + BLOCK_SIZE)" "unat (b * BLOCK_SIZE + BLOCK_SIZE) = ?s + 4096"
    using buf(2) assms(2) s(2) by (simp_all add: uadd_def unat_add_ok)
  define a where "a = max (b * BLOCK_SIZE) off"
  define z where "z = min (b * BLOCK_SIZE + BLOCK_SIZE) (off + len)"
  have az: "unat a = max ?s ?o" "unat z = min (?s + 4096) (?o + ?l)"
    using s(2) t(2) e by (simp_all add: a_def z_def max_def min_def word_le_nat_alt)
  have here: "merged m img (insert (unat b) K) p = (if ?s \<le> p \<and> p < ?s + 4096 then buf ! (p - ?s) else merged m img K p)" for p
  proof -
    have "seen m img p = buf ! (p - ?s)" if "p div 4096 = unat b"
      using that Some minus_div_mult_eq_mod [of p 4096] by (simp add: seen_def)
    then show ?thesis
      using in_block [of p "unat b"] by (auto simp: merged_def)
  qed
  have run: "jc_merge_block m off (off + len) b ?out = (if z \<le> a then Ok ?out
      else rbind (cut_res (unat (a - b * BLOCK_SIZE)) (unat (z - a)) buf) (\<lambda>src. copy_into (unat (a - off)) src ?out))"
    unfolding jc_merge_block_def Some a_def z_def by (simp add: s(1) t(1) Let_def)
  show ?thesis
  proof (cases "z \<le> a")
    case True
    then have "\<not> (?s \<le> p \<and> p < ?s + 4096)" if "?o \<le> p" "p < ?o + ?l" for p
      using az that by (auto simp: word_le_nat_alt)
    then show ?thesis
      using True by (auto simp: run here)
  next
    case False
    then have lt: "unat a < unat z"
      by (simp add: word_less_nat_alt not_le)
    have "b * BLOCK_SIZE \<le> a" "off \<le> a"
      by (simp_all add: a_def)
    moreover have "a \<le> z"
      using False by simp
    ultimately have d: "unat (a - b * BLOCK_SIZE) = unat a - ?s" "unat (z - a) = unat z - unat a" "unat (a - off) = unat a - ?o"
      using s(2) by (simp_all add: unat_sub)
    have "cut_res (unat a - ?s) (unat z - unat a) buf = Ok (cut (unat a - ?s) (unat z - unat a) buf)"
      using az buf(1) lt by (simp add: cut_res_def)
    moreover have "copy_into (unat a - ?o) (cut (unat a - ?s) (unat z - unat a) buf) ?out
        = Ok (put (unat a - ?o) (cut (unat a - ?s) (unat z - unat a) buf) ?out)"
      using az buf(1) lt by (simp add: copy_into_def)
    moreover have "put (unat a - ?o) (cut (unat a - ?s) (unat z - unat a) buf) ?out
        = map (merged m img (insert (unat b) K)) [?o..<?o + ?l]"
      by (rule put_part [OF buf(1) az lt here])
    ultimately show ?thesis
      using False by (simp add: run d)
  qed
qed

lemma merge_blocks_ok:
  assumes "capture_ok (length img) m" "length img < 2 ^ 64" "unat off + unat len \<le> length img"
    and "\<forall>b \<in> set bs. unat b * 4096 < unat off + unat len"
  shows "rfor (jc_merge_block m off (off + len)) bs (map (merged m img K) [unat off..<unat off + unat len])
    = Ok (map (merged m img (unat ` set bs \<union> K)) [unat off..<unat off + unat len])"
  using assms(4)
proof (induction bs arbitrary: K)
  case (Cons b bs)
  then show ?case
    using merge_block_ok [OF assms(1-3), of b K] Cons.IH [of "insert (unat b) K"] by simp
qed simp

lemma cut_as_map: "off + n \<le> length img \<Longrightarrow> cut off n img = map ((!) img) [off..<off + n]"
  by (intro nth_equalityI) (simp_all add: nth_cut)

lemma jc_read_ok:
  assumes "op_read_at ops (jc_inner c) off len = Ok (cut (unat off) (unat len) img)"
    and "capture_ok (length img) (jc_captured c)" "length img < 2 ^ 64" "unat off + unat len \<le> length img"
  shows "jc_read_at ops c off len = Ok (cut (unat off) (unat len) (overlay (jc_captured c) img))"
proof -
  let ?m = "jc_captured c" and ?o = "unat off" and ?l = "unat len"
  have e: "uadd off len = Ok (off + len)" "unat (off + len) = ?o + ?l"
    using assms(3,4) by (simp_all add: uadd_def unat_add_ok)
  let ?bs = "range64 (off div BLOCK_SIZE) (div_ceil (off + len) BLOCK_SIZE)"
  have c: "unat (div_ceil (off + len) BLOCK_SIZE) = (?o + ?l + 4096 - 1) div 4096" "unat (off div BLOCK_SIZE) = ?o div 4096"
    using unat_div_ceil [of BLOCK_SIZE "off + len"] e(2) by (simp_all add: unat_div)
  have mem: "unat ` set ?bs = {?o div 4096..<(?o + ?l + 4096 - 1) div 4096}"
  proof -
    have "unat (of_nat i :: u64) = i" if "i < (?o + ?l + 4096 - 1) div 4096" for i
      using that assms(3,4) by (intro unat_of_nat_ok) (auto dest: less_mult_imp_div_less)
    then show ?thesis
      unfolding range64_def c by (force simp: image_iff)
  qed
  have "\<forall>b \<in> set ?bs. unat b * 4096 < ?o + ?l"
  proof
    fix b
    assume "b \<in> set ?bs"
    then have "unat b < (?o + ?l + 4096 - 1) div 4096"
      using mem by auto
    then show "unat b * 4096 < ?o + ?l"
      by (simp add: Suc_le_eq [symmetric] less_eq_div_iff_mult_less_eq)
  qed
  note m = merge_blocks_ok [OF assms(2,3,4) this, of "{}"]
  have seen: "merged ?m img (unat ` set ?bs \<union> {}) p = seen ?m img p" if "?o \<le> p" "p < ?o + ?l" for p
  proof -
    have "?o div 4096 \<le> p div 4096"
      using that(1) by (rule div_le_mono)
    moreover have "p div 4096 < (?o + ?l + 4096 - 1) div 4096"
      using that(2) in_block [of p "p div 4096"] by (simp add: Suc_le_eq [symmetric] less_eq_div_iff_mult_less_eq)
    ultimately show ?thesis
      by (simp add: merged_def mem)
  qed
  have "map (merged ?m img {}) [?o..<?o + ?l] = cut ?o ?l img"
    unfolding cut_as_map [OF assms(4)] by (simp add: merged_def)
  moreover have "map (merged ?m img (unat ` set ?bs \<union> {})) [?o..<?o + ?l] = cut ?o ?l (overlay ?m img)"
    using assms(2-4) seen by (simp add: cut_as_map nth_overlay)
  moreover have "overlay [] img = img"
    by (simp add: overlay_def)
  ultimately show ?thesis
    using assms(1) m e by (auto simp: jc_read_at_def Let_def)
qed

section \<open>Writes\<close>

definition captured_after :: "u64 \<Rightarrow> bytes \<Rightarrow> nat \<Rightarrow> (u64, bytes) omap \<Rightarrow> (u64, bytes) omap" where
  "captured_after start dat n m = fold (\<lambda>i. om_insert (start + of_nat i) (cut (i * 4096) 4096 dat)) [0..<n] m"

lemma capture_blocks_ok:
  fixes c :: "'d capture"
  assumes "n * 4096 \<le> length dat" "(unat start + n) * 4096 < 2 ^ 64"
  shows "cfor (jc_capture_block start dat) (map of_nat [0..<n]) c
    = (Ok (), c\<lparr>jc_captured := captured_after start dat n (jc_captured c)\<rparr>)"
  using assms
proof (induction n)
  case 0
  then show ?case by (simp add: captured_after_def)
next
  case (Suc n)
  have n: "unat (of_nat n :: u64) = n"
    using Suc.prems(2) by (intro unat_of_nat_ok) simp
  have "uadd start (of_nat n) = Ok (start + of_nat n)" "umul (of_nat n) BLOCK_SIZE = Ok (of_nat n * BLOCK_SIZE)"
    "unat (of_nat n * BLOCK_SIZE) = n * 4096"
    using Suc.prems(2) n by (simp_all add: uadd_def umul_def unat_mul_ok)
  then have "jc_capture_block start dat (of_nat n) c'
      = (Ok (), c'\<lparr>jc_captured := om_insert (start + of_nat n) (cut (n * 4096) 4096 dat) (jc_captured c')\<rparr>)" for c' :: "'d capture"
    using Suc.prems(1) by (simp add: jc_capture_block_def cbind_run(1) [where m = "clift _"] cut_res_def)
  moreover have "cfor (jc_capture_block start dat) (map of_nat [0..<n]) c
      = (Ok (), c\<lparr>jc_captured := captured_after start dat n (jc_captured c)\<rparr>)"
    using Suc by simp
  ultimately show ?case
    by (simp add: cfor_append cthen_run(1) [where m = "cfor _ _"] cthen_run(1) [where m = "jc_capture_block _ _ _"]
        captured_after_def)
qed

lemma captured_after_get:
  assumes "om_ok m" "unat start + n < 2 ^ 64"
  shows "om_ok (captured_after start dat n m)
    \<and> (\<forall>b. om_get (captured_after start dat n m) b =
        (if unat start \<le> unat b \<and> unat b < unat start + n then Some (cut ((unat b - unat start) * 4096) 4096 dat)
         else om_get m b))"
  using assms(2)
proof (induction n)
  case 0
  then show ?case using assms(1) by (auto simp: captured_after_def)
next
  case (Suc n)
  have u: "unat (start + of_nat n) = unat start + n"
    using Suc.prems by (intro unat_add_of_nat) simp
  have b: "b = start + of_nat n \<longleftrightarrow> unat b = unat start + n" for b
    unfolding word_unat_eq_iff u ..
  have "om_get (captured_after start dat (Suc n) m) b
      = (if b = start + of_nat n then Some (cut (n * 4096) 4096 dat) else om_get (captured_after start dat n m) b)" for b
    using om_get_insert [of "captured_after start dat n m"] Suc by (simp add: captured_after_def)
  then show ?case
    using Suc om_ok_insert by (auto simp: b) (simp_all add: captured_after_def om_ok_insert)
qed

lemma jc_write_ok:
  assumes "capture_ok (length img) (jc_captured c)" "length img < 2 ^ 64"
    and "4096 dvd unat off" "4096 dvd length dat" "unat off + length dat \<le> length img"
  shows "\<exists>m. jc_write_at ops off dat c = (Ok (), c\<lparr>jc_captured := m\<rparr>) \<and> capture_ok (length img) m
    \<and> overlay m img = put (unat off) dat (overlay (jc_captured c) img)"
proof -
  let ?m = "jc_captured c" and ?start = "off div BLOCK_SIZE"
  obtain s k where sk: "unat off = 4096 * s" "length dat = 4096 * k"
    using assms(3,4) by (auto elim!: dvdE)
  have l: "unat (of_nat (length dat) :: u64) = length dat"
    using assms(2,5) by (intro unat_of_nat_ok) simp
  have al: "(of_nat (length dat) :: u64) mod BLOCK_SIZE = 0" "off mod BLOCK_SIZE = 0"
    using sk l by (simp_all only: word_unat_eq_iff unat_mod unat_0) simp_all
  have st: "unat ?start = s" "unat (of_nat (length dat) div BLOCK_SIZE :: u64) = k"
    using sk l by (simp_all add: unat_div)
  have bound: "(s + k) * 4096 \<le> length img" "(unat ?start + k) * 4096 < 2 ^ 64" "unat ?start + k < 2 ^ 64"
    using assms(2,5) sk st by simp_all
  let ?n = "captured_after ?start dat k ?m"
  have run: "jc_write_at ops off dat c = (Ok (), c\<lparr>jc_captured := ?n\<rparr>)"
    using capture_blocks_ok [of k dat ?start c] sk bound(2) al st(2)
    by (simp add: jc_write_at_def Let_def range64_def)
  have ok: "om_ok ?m" "\<forall>(b, dat) \<in> set ?m. length dat = 4096 \<and> unat b * 4096 + 4096 \<le> length img"
    using assms(1) by (simp_all add: capture_ok_def)
  note g0 = captured_after_get [OF ok(1) bound(3), of dat, unfolded st(1)]
  note gom = conjunct1 [OF g0] and g = conjunct2 [OF g0, rule_format]
  have cap: "capture_ok (length img) ?n"
    unfolding capture_ok_def
  proof (intro conjI gom, clarify)
    fix b d
    assume "(b, d) \<in> set ?n"
    then have "om_get ?n b = Some d"
      by (simp only: om_mem_iff [OF gom])
    then consider "s \<le> unat b" "unat b < s + k" "d = cut ((unat b - s) * 4096) 4096 dat" | "om_get ?m b = Some d"
      unfolding g [of b] by (cases "s \<le> unat b \<and> unat b < s + k") simp_all
    then show "length d = 4096 \<and> unat b * 4096 + 4096 \<le> length img"
    proof cases
      case 1
      then have "(unat b - s) * 4096 + 4096 \<le> length dat" "unat b * 4096 + 4096 \<le> (s + k) * 4096"
        using sk(2) by auto
      then show ?thesis
        using 1 bound(1) by simp
    next
      case 2
      then show ?thesis
        using ok map_of_SomeD by fastforce
    qed
  qed
  have "overlay ?n img = put (unat off) dat (overlay ?m img)"
  proof (rule nth_equalityI)
    show "length (overlay ?n img) = length (put (unat off) dat (overlay ?m img))"
      using cap assms(1,5) by simp
    fix p
    assume "p < length (overlay ?n img)"
    then have p: "p < length img"
      using cap by simp
    have u: "unat (of_nat (p div 4096) :: u64) = p div 4096"
      using p assms(2) by (intro unat_of_nat_ok) (simp add: less_mult_imp_div_less)
    have "overlay ?n img ! p = (if s \<le> p div 4096 \<and> p div 4096 < s + k
        then cut ((p div 4096 - s) * 4096) 4096 dat ! (p mod 4096) else seen ?m img p)"
      using g [of "of_nat (p div 4096)", unfolded u] by (simp add: nth_overlay [OF cap p assms(2)] seen_def)
    also have "\<dots> = put (unat off) dat (overlay ?m img) ! p"
    proof (cases "s \<le> p div 4096 \<and> p div 4096 < s + k")
      case True
      then have "(p div 4096 - s) * 4096 + 4096 \<le> length dat" "p = p div 4096 * 4096 + p mod 4096"
        using sk(2) by auto
      moreover have "4096 * s \<le> p" "p - 4096 * s = (p div 4096 - s) * 4096 + p mod 4096"
        using True div_mult_mod_eq [of p 4096] by (auto simp: algebra_simps diff_mult_distrib)
      ultimately show ?thesis
        using True assms(1,5) sk(1) p by (auto simp: nth_put nth_cut)
    next
      case False
      then have "\<not> (unat off \<le> p \<and> p < unat off + length dat)"
        using less_mult_imp_div_less [of p "s + k" 4096] sk by (auto simp: less_eq_div_iff_mult_less_eq algebra_simps)
      then have "put (unat off) dat (overlay ?m img) ! p = overlay ?m img ! p"
        using assms(1,5) p by (auto simp: nth_put)
      then show ?thesis
        unfolding if_not_P [OF False] nth_overlay [OF assms(1) p assms(2)] by simp
    qed
    finally show "overlay ?n img ! p = put (unat off) dat (overlay ?m img) ! p" .
  qed
  then show ?thesis
    using run cap by blast
qed

section \<open>A captured device is a block device\<close>

abbreviation captured_view :: "('d \<Rightarrow> bytes) \<Rightarrow> 'd capture \<Rightarrow> bytes" where
  "captured_view view c \<equiv> overlay (jc_captured c) (view (jc_inner c))"

abbreviation captured_inv :: "('d \<Rightarrow> bytes) \<Rightarrow> ('d \<Rightarrow> bool) \<Rightarrow> 'd capture \<Rightarrow> bool" where
  "captured_inv view ok c \<equiv> ok (jc_inner c) \<and> capture_ok (length (view (jc_inner c))) (jc_captured c)"

text \<open>Code written for a block device runs on the capture unchanged and sees its own writes.\<close>

sublocale sector_device \<subseteq> captured: block_device "capture_ops ops" "captured_view image" "captured_inv image inv"
proof unfold_locales
  fix c :: "'d capture" and off len :: u64 and dat :: bytes
  assume i: "captured_inv image inv c"
  then have lt: "length (image (jc_inner c)) < 2 ^ 64" and l: "length (captured_view image c) = length (image (jc_inner c))"
    using sector_size_law by auto
  show "op_read_at (capture_ops ops) c off len = Ok (cut (unat off) (unat len) (captured_view image c))"
    if "4096 dvd unat off" "4096 dvd unat len" "unat off + unat len \<le> length (captured_view image c)"
    using jc_read_ok [OF read_law] that i lt l by simp
  show "\<exists>c'. op_write_at (capture_ops ops) off dat c = (Ok (), c')
      \<and> captured_view image c' = put (unat off) dat (captured_view image c) \<and> captured_inv image inv c'"
    if "4096 dvd unat off" "4096 dvd length dat" "unat off + length dat \<le> length (captured_view image c)"
    using jc_write_ok [of "image (jc_inner c)" c off dat ops] that i lt l by auto
  show "\<exists>c'. op_sync (capture_ops ops) c = (Ok (), c') \<and> captured_view image c' = captured_view image c \<and> captured_inv image inv c'"
  proof -
    obtain d' where "op_sync ops (jc_inner c) = (Ok (), d')" "image d' = image (jc_inner c)" "inv d'"
      using sync_law i by blast
    then show ?thesis
      using i by (simp add: jc_inner_cmd_def czoom_simp)
  qed
  show "length (captured_view image c) < 2 ^ 64"
    using lt l by simp
qed

section \<open>Committing the captured blocks\<close>

definition block_ops :: "(u64, bytes) omap \<Rightarrow> journal_op list" where
  "block_ops m = map (\<lambda>(block, dat). BlockWrite block dat) m"

lemma overlay_block_ops: "capture_ok n m \<Longrightarrow> puts (map (op_write sb) (block_ops m)) img = overlay m img"
proof -
  assume "capture_ok n m"
  then have "map (op_write sb) (block_ops m) = map (\<lambda>(b, dat). (unat b * 4096, dat)) m"
    by (auto simp: capture_ok_def block_ops_def op_write_def)
  then show ?thesis
    by (simp add: overlay_def)
qed

context mortal_device
begin

lemma capture_commit_run:
  assumes "inv d" "front_volume sb [] h (image d)" "capture_ok (length (image d)) m" "m \<noteq> []"
    and "save_fits sb h (length (image d)) (block_ops m)"
  shows "\<exists>r d'. jc_commit_journaled ops \<lparr>jc_inner = d, jc_captured = m\<rparr> = (r, d') \<and> inv d'
    \<and> (recovers_to sb (jh_record_area_bytes h) (image d') (image d) \<and> \<not> live d'
       \<or> recovers_to sb (jh_record_area_bytes h) (image d') (overlay m (image d)))
    \<and> (live d' \<longrightarrow> idle_at sb (jh_record_area_bytes h) (image d') (overlay m (image d)) \<and> r = Ok (length m))"
proof -
  obtain d0 where d0: "op_sync ops d = (Ok (), d0)" "inv d0" "image d0 = image d"
    using lossy_sync_law [OF assms(1)] by blast
  have vol: "same_volume sb (cut 4096 4096 (image d0))" "8192 \<le> length (image d0)"
    using assms(2) log_on_bounds(1) [of sb "[]" h "image d0"] sector_size_law [OF d0(2)] d0(3)
    by (simp_all add: front_volume_def logged_volume_def)
  obtain sb' where sb': "read_sb_with_fallbacks ops d0 = Ok sb'" "sb_journal_start sb' = sb_journal_start sb"
    using read_same_volume [OF d0(2) vol] by blast
  have new: "saved_state sb [] h (block_ops m) (image d) = overlay m (image d)"
    using overlay_block_ops [OF assms(3)] assms(4) by (subst saved_state_idle) (simp_all add: block_ops_def)
  obtain r d' where r: "on_journal ops sb' (apply_transaction ops (block_ops m)) d0 = (r, d')" "inv d'"
    "recovers_to sb (jh_record_area_bytes h) (image d') (image d) \<and> \<not> live d'
     \<or> recovers_to sb (jh_record_area_bytes h) (image d') (overlay m (image d))"
    "live d' \<longrightarrow> idle_at sb (jh_record_area_bytes h) (image d') (overlay m (image d)) \<and> is_ok r"
    using on_journal_apply [OF d0(2) _ _ sb'(2), of "[]" h "block_ops m"] assms(2,5) d0(3) new by auto
  let ?res = "case r of Ok _ \<Rightarrow> Ok (length m) | Err e \<Rightarrow> Err e | Panic \<Rightarrow> Panic"
  have "jc_commit_journaled ops \<lparr>jc_inner = d, jc_captured = m\<rparr> = (?res, d')"
    using assms(4) d0(1) sb'(1) r(1)
    by (cases r) (simp_all add: jc_commit_journaled_def block_ops_def cthen_run(1) [where m = "op_sync _"]
        cbind_run(1) [where m = "cread _"] cbind_run [where m = "on_journal _ _ _"])
  then show ?thesis
    using r(2-4) by (intro exI [of _ ?res] exI [of _ d']) (auto simp: is_ok_iff)
qed

end

end
