(* ===== verification/Journaled_Props.thy ===== *)
theory Journaled_Props
  imports Journal_Capture
begin

text \<open>The properties of the journaled save session and of the capturing device.\<close>

section \<open>Recoveries that lose power themselves\<close>

definition interrupted_recoveries :: "nat list \<Rightarrow> memory_device \<Rightarrow> memory_device" where
  "interrupted_recoveries ms d =
     fold (\<lambda>m d. fd_inner (snd (recover_pending_transactions (fault_ops mem_ops) (power_cut m d)))) ms d"

lemma interrupted_recoveries_keep:
  assumes "mem_ok d" "recovers_to sb A (md_data d) S"
  shows "mem_ok (interrupted_recoveries ms d) \<and> recovers_to sb A (md_data (interrupted_recoveries ms d)) S"
  using assms
proof (induction ms arbitrary: d)
  case (Cons m ms)
  obtain rep d' where "recover_pending_transactions (fault_ops mem_ops) (power_cut m d) = (Ok rep, d')"
    "mem_ok (fd_inner d')" "recovers_to sb A (md_data (fd_inner d')) S"
    using power_mem.recover_run [where n = m and d = "power_cut m d" and sb = sb and A = A and S = S] Cons.prems by auto
  then show ?case
    using Cons.IH [of "fd_inner d'"] by (simp add: interrupted_recoveries_def)
qed (simp add: interrupted_recoveries_def)

lemma recovery_ends:
  assumes "mem_ok d" "recovers_to sb A (md_data d) S"
  shows "\<exists>rep e. recover_pending_transactions mem_ops (interrupted_recoveries ms d) = (Ok rep, e) \<and> idle_at sb A (md_data e) S"
  using interrupted_recoveries_keep [OF assms, of ms] mem.recover_run by blast

section \<open>Properties\<close>

text \<open>
  C4: a journaled save is atomic under power loss, whenever the power goes.  The session commits
  its operations (log, replay, checkpoint) on a device that silently loses power after any number
  of writes; the surviving medium is then recovered, with any number of recoveries cut short the
  same way.  The last recovery succeeds and leaves an idle journal and, outside the journal
  region, either the old image or the image with every operation applied; if the device still has
  power when the save returns, the save succeeded and it is the new image.
\<close>

theorem journaled_save_is_atomic:
  assumes "mem_ok d" "front_volume sb [] h (md_data d)" "save_fits sb h (length (md_data d)) qs"
  shows "\<exists>r d' S. js_commit (fault_ops mem_ops) \<lparr>js_device = power_cut n d, js_sb = sb, js_ops = qs\<rparr> = (r, d')
    \<and> (S = md_data d \<or> S = puts (map (op_write sb) qs) (md_data d))
    \<and> (powered n d' \<longrightarrow> r = Ok \<lparr>jr_ops_applied = length qs, jr_txn_id = jh_next_txn_id h\<rparr>
         \<and> S = puts (map (op_write sb) qs) (md_data d))
    \<and> (\<forall>ms. \<exists>rep e. recover_pending_transactions mem_ops (interrupted_recoveries ms (fd_inner d')) = (Ok rep, e)
         \<and> idle_at sb (jh_record_area_bytes h) (md_data e) S)"
proof -
  let ?A = "jh_record_area_bytes h" and ?new = "puts (map (op_write sb) qs) (md_data d)"
  have qs: "qs \<noteq> []"
    using assms(3) by (simp add: save_fits_def)
  obtain d0 where d0: "op_sync (fault_ops mem_ops) (power_cut n d) = (Ok (), d0)" "mem_ok (fd_inner d0)"
    "md_data (fd_inner d0) = md_data d" "fd_plan d0 = power_loss_plan n"
    using power_mem.lossy_sync_law [where n = n and d = "power_cut n d"] assms(1) by auto
  obtain r d' where r: "on_journal (fault_ops mem_ops) sb (apply_transaction (fault_ops mem_ops) qs) d0 = (r, d')"
    "mem_ok (fd_inner d')"
    "recovers_to sb ?A (md_data (fd_inner d')) (md_data d) \<and> \<not> powered n d' \<or> recovers_to sb ?A (md_data (fd_inner d')) ?new"
    "powered n d' \<longrightarrow> r = Ok (jh_next_txn_id h, [\<lparr>rt_txn_id = jh_next_txn_id h, rt_ops = length qs\<rparr>])"
    using mortal_power.on_journal_apply [where n = n and d = d0 and sb = sb and es = "[]" and h = h and qs = qs and sb' = sb]
      assms d0 qs by (auto simp: saved_state_idle summary_first)
  define rep :: "u64 \<times> replayed_txn list \<Rightarrow> journaled_report" where "rep = (\<lambda>(txn_id, applied). \<lparr>jr_ops_applied = sum_list (map rt_ops applied), jr_txn_id = txn_id\<rparr>)"
  have "js_commit (fault_ops mem_ops) \<lparr>js_device = power_cut n d, js_sb = sb, js_ops = qs\<rparr>
      = on_journal (fault_ops mem_ops) sb (cbind (apply_transaction (fault_ops mem_ops) qs) (\<lambda>x. cret (rep x))) d0"
    using qs d0(1) by (simp add: js_commit_def cthen_run(1) [where m = "op_sync _"] cthen_run(1) [where m = "fault_sync _"]
        rep_def case_prod_unfold)
  then have run: "js_commit (fault_ops mem_ops) \<lparr>js_device = power_cut n d, js_sb = sb, js_ops = qs\<rparr> = (map_result rep r, d')"
    unfolding on_journal_cbind_cret using r(1) by (cases r) (simp_all add: cbind_run [where m = "on_journal _ _ _"])
  obtain S where S: "S = md_data d \<and> \<not> powered n d' \<or> S = ?new" "recovers_to sb ?A (md_data (fd_inner d')) S"
    using r(3) by blast
  then show ?thesis
    using run r(4) recovery_ends [OF r(2) S(2)]
    by (intro exI [of _ "map_result rep r"] exI [of _ d'] exI [of _ S]) (auto simp: rep_def)
qed

lemma demo_front: "front_volume demo_sb [] (jh_fresh 8192) (md_data demo_device)"
  using demo_logged by (simp add: front_volume_def) (simp add: jh_fresh_def)

lemma demo_save_fits: "save_fits demo_sb (jh_fresh 8192) (length (md_data demo_device)) demo_ops"
proof -
  have h: "jh_tail_offset (jh_fresh 8192) = 0" "jh_next_seq (jh_fresh 8192) = 0"
    "jh_record_area_bytes (jh_fresh 8192) = 8192" "jh_next_txn_id (jh_fresh 8192) = 1"
    by (simp_all add: jh_fresh_def)
  show ?thesis
    using demo_valid by (simp add: save_fits_def h demo_fits) (simp add: demo_ops_def)
qed

theorem journaled_save_is_atomic_witness:
  "\<exists>r d' S rep e. js_commit (fault_ops mem_ops) \<lparr>js_device = power_cut 5 demo_device, js_sb = demo_sb, js_ops = demo_ops\<rparr> = (r, d')
    \<and> (S = md_data demo_device \<or> S = puts (map (op_write demo_sb) demo_ops) (md_data demo_device))
    \<and> recover_pending_transactions mem_ops (interrupted_recoveries [1, 2] (fd_inner d')) = (Ok rep, e)
    \<and> idle_at demo_sb (jh_record_area_bytes (jh_fresh 8192)) (md_data e) S"
  using journaled_save_is_atomic [OF demo_mem_ok demo_front demo_save_fits, of 5] by blast

text \<open>
  C23: a capture behaves like the device with the writes applied, while the device is untouched:
  after any list of block-aligned writes, every sector-aligned read through the capture returns
  the bytes of the image with these writes in place.
\<close>

theorem capture_reads_its_own_writes:
  assumes "mem_ok d"
    and "\<forall>(off, dat) \<in> set ws. 4096 dvd unat off \<and> 4096 dvd length dat \<and> unat off + length dat \<le> length (md_data d)"
  shows "\<exists>m. cfor (\<lambda>(off, dat). jc_write_at mem_ops off dat) ws (jc_new d) = (Ok (), \<lparr>jc_inner = d, jc_captured = m\<rparr>)
    \<and> overlay m (md_data d) = puts (map (\<lambda>(off, dat). (unat off, dat)) ws) (md_data d)
    \<and> (\<forall>off len. unat (dg_sector_size (md_geometry d)) dvd unat off \<and> unat (dg_sector_size (md_geometry d)) dvd unat len
         \<and> unat off + unat len \<le> length (md_data d) \<longrightarrow>
       jc_read_at mem_ops \<lparr>jc_inner = d, jc_captured = m\<rparr> off len
         = Ok (cut (unat off) (unat len) (puts (map (\<lambda>(off, dat). (unat off, dat)) ws) (md_data d))))"
proof -
  have lt: "length (md_data d) < 2 ^ 64"
    using mem.sector_size_law [OF assms(1)] by blast
  have "\<exists>m. cfor (\<lambda>(off, dat). jc_write_at mem_ops off dat) ws \<lparr>jc_inner = d, jc_captured = m0\<rparr> = (Ok (), \<lparr>jc_inner = d, jc_captured = m\<rparr>)
      \<and> capture_ok (length (md_data d)) m
      \<and> overlay m (md_data d) = puts (map (\<lambda>(off, dat). (unat off, dat)) ws) (overlay m0 (md_data d))"
    if "capture_ok (length (md_data d)) m0" for m0
    using that assms(2)
  proof (induction ws arbitrary: m0)
    case (Cons w ws)
    obtain off dat where w: "w = (off, dat)" by (cases w)
    obtain m1 where m1: "jc_write_at mem_ops off dat \<lparr>jc_inner = d, jc_captured = m0\<rparr> = (Ok (), \<lparr>jc_inner = d, jc_captured = m1\<rparr>)"
      "capture_ok (length (md_data d)) m1" "overlay m1 (md_data d) = put (unat off) dat (overlay m0 (md_data d))"
      using jc_write_ok [of "md_data d" "\<lparr>jc_inner = d, jc_captured = m0\<rparr>" off dat mem_ops] Cons.prems lt w by auto
    then show ?case
      using Cons.IH [OF m1(2)] Cons.prems(2) w by (auto simp: cthen_run(1) [where m = "jc_write_at _ _ _"])
  qed auto
  from this [of "[]"] obtain m where m: "cfor (\<lambda>(off, dat). jc_write_at mem_ops off dat) ws (jc_new d)
      = (Ok (), \<lparr>jc_inner = d, jc_captured = m\<rparr>)" "capture_ok (length (md_data d)) m"
    "overlay m (md_data d) = puts (map (\<lambda>(off, dat). (unat off, dat)) ws) (md_data d)"
    by (auto simp: jc_new_def capture_ok_def overlay_def)
  have "jc_read_at mem_ops \<lparr>jc_inner = d, jc_captured = m\<rparr> off len = Ok (cut (unat off) (unat len) (overlay m (md_data d)))"
    if "unat (dg_sector_size (md_geometry d)) dvd unat off" "unat (dg_sector_size (md_geometry d)) dvd unat len"
      "unat off + unat len \<le> length (md_data d)" for off len
    using jc_read_ok [of mem_ops "\<lparr>jc_inner = d, jc_captured = m\<rparr>" off len "md_data d"]
      mem.sector_read_law [OF assms(1), of off len] that m(2) lt by (simp add: dev_sector_size_def)
  then show ?thesis
    using m by (intro exI [of _ m]) simp
qed

theorem capture_reads_its_own_writes_witness:
  "\<exists>m. cfor (\<lambda>(off, dat). jc_write_at mem_ops off dat) [(24576, replicate 4096 7)] (jc_new demo_device)
      = (Ok (), \<lparr>jc_inner = demo_device, jc_captured = m\<rparr>)
    \<and> jc_read_at mem_ops \<lparr>jc_inner = demo_device, jc_captured = m\<rparr> 25088 512 = Ok (replicate 512 7)"
proof -
  have s: "dg_sector_size (md_geometry demo_device) = 512"
    by (simp add: demo_device_def)
  have "cut 25088 512 (put 24576 (replicate 4096 7) (md_data demo_device)) = replicate 512 (7 :: u8)"
    by (simp add: cut_put_inside demo_length) (simp add: cut_def)
  then show ?thesis
    using capture_reads_its_own_writes [OF demo_mem_ok, of "[(24576, replicate 4096 7)]"]
    by (auto simp: s demo_length dvd_eq_mod_eq_0)
qed

text \<open>
  C5: committing a capture is atomic under power loss.  The captured blocks, which may include the
  superblock, become one journal transaction; wherever power is lost during the commit, and
  whatever happens to the recoveries, the final recovery leaves the image without any of the
  captured blocks or with all of them, which is the image the capture showed its readers.
\<close>

theorem capture_commit_is_atomic:
  assumes "mem_ok d" "front_volume sb [] h (md_data d)" "capture_ok (length (md_data d)) m" "m \<noteq> []"
    and "save_fits sb h (length (md_data d)) (block_ops m)"
  shows "\<exists>r d' S. jc_commit_journaled (fault_ops mem_ops) \<lparr>jc_inner = power_cut n d, jc_captured = m\<rparr> = (r, d')
    \<and> (S = md_data d \<or> S = overlay m (md_data d))
    \<and> (powered n d' \<longrightarrow> r = Ok (length m) \<and> S = overlay m (md_data d))
    \<and> (\<forall>ms. \<exists>rep e. recover_pending_transactions mem_ops (interrupted_recoveries ms (fd_inner d')) = (Ok rep, e)
         \<and> idle_at sb (jh_record_area_bytes h) (md_data e) S)"
proof -
  obtain r d' where r: "jc_commit_journaled (fault_ops mem_ops) \<lparr>jc_inner = power_cut n d, jc_captured = m\<rparr> = (r, d')"
    "mem_ok (fd_inner d')"
    "recovers_to sb (jh_record_area_bytes h) (md_data (fd_inner d')) (md_data d) \<and> \<not> powered n d'
     \<or> recovers_to sb (jh_record_area_bytes h) (md_data (fd_inner d')) (overlay m (md_data d))"
    "powered n d' \<longrightarrow> r = Ok (length m)"
    using mortal_power.capture_commit_run [where n = n and d = "power_cut n d" and sb = sb and h = h and m = m] assms by auto
  then obtain S where S: "S = md_data d \<and> \<not> powered n d' \<or> S = overlay m (md_data d)"
      "recovers_to sb (jh_record_area_bytes h) (md_data (fd_inner d')) S"
    by blast
  then show ?thesis
    using r(1,4) recovery_ends [OF r(2) S(2)] by (intro exI [of _ r] exI [of _ d'] exI [of _ S]) auto
qed

text \<open>A capture of the demo volume that rewrites its superblock.\<close>

definition demo_new_sb :: superblock where
  "demo_new_sb = demo_sb\<lparr>sb_free_inodes := 7\<rparr>"

definition demo_capture :: "(u64, bytes) omap" where
  "demo_capture = [(1, crc_seal 508 (sb_body demo_new_sb))]"

lemma demo_capture_ok:
  "capture_ok (length (md_data demo_device)) demo_capture"
  "save_fits demo_sb (jh_fresh 8192) (length (md_data demo_device)) (block_ops demo_capture)"
proof -
  have wf: "wf_superblock demo_new_sb" "supported demo_new_sb"
    using demo_sb_sel(3,4) by (simp_all add: demo_new_sb_def wf_superblock_def supported_def)
  then have len: "length (crc_seal 508 (sb_body demo_new_sb)) = 4096"
    by (simp add: length_crc_seal length_sb_body)
  have "sb_decode_block (crc_seal 508 (sb_body demo_new_sb)) = Ok demo_new_sb"
    using wf by (intro sb_roundtrip)
  moreover have "sb_geometry demo_new_sb = sb_geometry demo_sb"
    by (simp add: demo_new_sb_def sb_geometry_def)
  ultimately have "same_volume demo_sb (crc_seal 508 (sb_body demo_new_sb))"
    by (auto simp: same_volume_def)
  moreover have h: "jh_tail_offset (jh_fresh 8192) = 0" "jh_next_seq (jh_fresh 8192) = 0"
    "jh_record_area_bytes (jh_fresh 8192) = 8192" "jh_next_txn_id (jh_fresh 8192) = 1"
    by (simp_all add: jh_fresh_def)
  ultimately show "save_fits demo_sb (jh_fresh 8192) (length (md_data demo_device)) (block_ops demo_capture)"
    by (simp add: save_fits_def block_ops_def demo_capture_def valid_op_def demo_lo_hi demo_length h txn_items_def len)
  show "capture_ok (length (md_data demo_device)) demo_capture"
    by (simp add: capture_ok_def demo_capture_def om_ok_def demo_length len)
qed

theorem capture_commit_is_atomic_witness:
  "\<exists>r d' S rep e. jc_commit_journaled (fault_ops mem_ops) \<lparr>jc_inner = power_cut 4 demo_device, jc_captured = demo_capture\<rparr> = (r, d')
    \<and> (S = md_data demo_device \<or> S = overlay demo_capture (md_data demo_device))
    \<and> recover_pending_transactions mem_ops (interrupted_recoveries [2] (fd_inner d')) = (Ok rep, e)
    \<and> idle_at demo_sb (jh_record_area_bytes (jh_fresh 8192)) (md_data e) S"
proof -
  have "demo_capture \<noteq> []"
    by (simp add: demo_capture_def)
  then show ?thesis
    using capture_commit_is_atomic [OF demo_mem_ok demo_front demo_capture_ok(1) _ demo_capture_ok(2), of 4] by blast
qed

text \<open>
  C24: a write smaller than a block into a captured block is lost.  The capture passes it through to
  the device and reports success, but neither the bytes the capture shows nor the ones its commit
  writes change: the stale captured block hides the write.
\<close>

theorem small_write_into_captured_block_is_lost:
  assumes "mem_ok d" "capture_ok (length (md_data d)) m" "om_get m b = Some buf"
    and "unat (dg_sector_size (md_geometry d)) dvd unat off" "unat (dg_sector_size (md_geometry d)) dvd length dat"
    and "unat b * 4096 \<le> unat off" "unat off + length dat \<le> unat b * 4096 + 4096" "0 < length dat" "length dat < 4096"
  shows "\<exists>d'. jc_write_at mem_ops off dat \<lparr>jc_inner = d, jc_captured = m\<rparr> = (Ok (), \<lparr>jc_inner = d', jc_captured = m\<rparr>)
    \<and> md_data d' = put (unat off) dat (md_data d) \<and> overlay m (md_data d') = overlay m (md_data d)
    \<and> jc_read_at mem_ops \<lparr>jc_inner = d', jc_captured = m\<rparr> off (of_nat (length dat))
        = jc_read_at mem_ops \<lparr>jc_inner = d, jc_captured = m\<rparr> off (of_nat (length dat))"
proof -
  let ?img = "md_data d" and ?img' = "put (unat off) dat (md_data d)"
  have lt: "length ?img < 2 ^ 64"
    using mem.sector_size_law [OF assms(1)] by blast
  have b: "unat b * 4096 + 4096 \<le> length ?img"
    using assms(2,3) map_of_SomeD by (fastforce simp: capture_ok_def)
  then have fits: "unat off + length dat \<le> length ?img"
    using assms(7) by simp
  have l: "unat (of_nat (length dat) :: u64) = length dat"
    using assms(9) by (intro unat_of_nat_ok) simp
  let ?d' = "d\<lparr>md_data := ?img'\<rparr>"
  have "mem_write_at off dat d = (Ok (), ?d')"
    using assms(1,4,5) fits by (intro mem_write_eq) (simp_all add: mem_ok_def)
  moreover have "(of_nat (length dat) :: u64) mod BLOCK_SIZE \<noteq> 0"
    using assms(8,9) l by (simp only: word_unat_eq_iff unat_mod unat_0) simp
  ultimately have run: "jc_write_at mem_ops off dat \<lparr>jc_inner = d, jc_captured = m\<rparr> = (Ok (), \<lparr>jc_inner = ?d', jc_captured = m\<rparr>)"
    by (simp add: jc_write_at_def Let_def jc_inner_cmd_def czoom_simp)
  have ok': "mem_ok ?d'" "capture_ok (length ?img') m"
    using assms(1,2) fits by (simp_all add: mem_ok_def)
  have same: "overlay m ?img' = overlay m ?img"
  proof (rule nth_equalityI)
    show "length (overlay m ?img') = length (overlay m ?img)"
      using assms(2) ok'(2) fits by simp
    fix p
    assume "p < length (overlay m ?img')"
    then have p: "p < length ?img" "p < length ?img'"
      using ok'(2) fits by simp_all
    have "seen m ?img' p = seen m ?img p"
    proof (cases "p div 4096 = unat b")
      case True
      then show ?thesis
        using assms(3) by (simp add: seen_def)
    next
      case False
      then have "\<not> (unat off \<le> p \<and> p < unat off + length dat)"
        using in_block [of p "unat b"] assms(6,7) by auto
      then show ?thesis
        using fits p(1) by (auto simp: seen_def nth_put split: option.split)
    qed
    then show "overlay m ?img' ! p = overlay m ?img ! p"
      using assms(2) ok'(2) p lt fits by (simp add: nth_overlay)
  qed
  have read: "jc_read_at mem_ops \<lparr>jc_inner = e, jc_captured = m\<rparr> off (of_nat (length dat))
      = Ok (cut (unat off) (length dat) (overlay m (md_data e)))"
    if "mem_ok e" "capture_ok (length (md_data e)) m" "length (md_data e) = length ?img"
      "dg_sector_size (md_geometry e) = dg_sector_size (md_geometry d)" for e
    using jc_read_ok [of mem_ops "\<lparr>jc_inner = e, jc_captured = m\<rparr>" off "of_nat (length dat)" "md_data e"]
      mem.sector_read_law [OF that(1), of off "of_nat (length dat)"] that assms(4,5) fits l lt by (simp add: dev_sector_size_def)
  show ?thesis
    using run same read [OF assms(1,2)] read [OF ok'(1)] ok'(2) fits by (intro exI [of _ ?d']) simp
qed

theorem small_write_into_captured_block_is_lost_witness:
  "\<exists>d'. jc_write_at mem_ops 24576 (replicate 512 9) \<lparr>jc_inner = demo_device, jc_captured = [(6, replicate 4096 7)]\<rparr>
      = (Ok (), \<lparr>jc_inner = d', jc_captured = [(6, replicate 4096 7)]\<rparr>)
    \<and> overlay [(6, replicate 4096 7)] (md_data d') = overlay [(6, replicate 4096 7)] (md_data demo_device)"
proof -
  have s: "dg_sector_size (md_geometry demo_device) = 512"
    by (simp add: demo_device_def)
  have "capture_ok (length (md_data demo_device)) [(6, replicate 4096 7)]"
    by (simp add: capture_ok_def om_ok_def demo_length)
  from small_write_into_captured_block_is_lost [OF demo_mem_ok this, of 6 "replicate 4096 7" 24576 "replicate 512 9"]
  show ?thesis
    by (auto simp: s dvd_eq_mod_eq_0)
qed

end
