(* ===== verification/Sha256.thy ===== *)
theory Sha256
  imports Prelude
begin

text \<open>
  SHA-256 and HMAC, \<open>corefs-core/src/security/sha256.rs\<close>: the incremental hasher with its block
  buffer, next to the one-shot definition of the standard (FIPS 180-4: pad, cut into blocks, fold
  the compression function) and of RFC 2104.
\<close>

definition DIGEST_BYTES :: nat where "DIGEST_BYTES = 32"
definition BLOCK_BYTES :: nat where "BLOCK_BYTES = 64"

definition SHA_K :: "u32 list" where
  "SHA_K =
    [0x428a2f98, 0x71374491, 0xb5c0fbcf, 0xe9b5dba5, 0x3956c25b, 0x59f111f1, 0x923f82a4, 0xab1c5ed5,
     0xd807aa98, 0x12835b01, 0x243185be, 0x550c7dc3, 0x72be5d74, 0x80deb1fe, 0x9bdc06a7, 0xc19bf174,
     0xe49b69c1, 0xefbe4786, 0x0fc19dc6, 0x240ca1cc, 0x2de92c6f, 0x4a7484aa, 0x5cb0a9dc, 0x76f988da,
     0x983e5152, 0xa831c66d, 0xb00327c8, 0xbf597fc7, 0xc6e00bf3, 0xd5a79147, 0x06ca6351, 0x14292967,
     0x27b70a85, 0x2e1b2138, 0x4d2c6dfc, 0x53380d13, 0x650a7354, 0x766a0abb, 0x81c2c92e, 0x92722c85,
     0xa2bfe8a1, 0xa81a664b, 0xc24b8b70, 0xc76c51a3, 0xd192e819, 0xd6990624, 0xf40e3585, 0x106aa070,
     0x19a4c116, 0x1e376c08, 0x2748774c, 0x34b0bcb5, 0x391c0cb3, 0x4ed8aa4a, 0x5b9cca4f, 0x682e6ff3,
     0x748f82ee, 0x78a5636f, 0x84c87814, 0x8cc70208, 0x90befffa, 0xa4506ceb, 0xbef9a3f7, 0xc67178f2]"

definition SHA_H_INIT :: "u32 list" where
  "SHA_H_INIT = [0x6a09e667, 0xbb67ae85, 0x3c6ef372, 0xa54ff53a, 0x510e527f, 0x9b05688c, 0x1f83d9ab, 0x5be0cd19]"

text \<open>\<open>to_be_bytes\<close> and \<open>from_be_bytes\<close>.\<close>

definition be_bytes :: "nat \<Rightarrow> 'a::len word \<Rightarrow> bytes" where
  "be_bytes n w = rev (le_bytes n w)"

definition from_be :: "bytes \<Rightarrow> 'a::len word" where
  "from_be bs = from_le (rev bs)"

section \<open>The compression function\<close>

text \<open>The message schedule of a block: 16 words of the block, then 48 computed ones.\<close>

definition schedule_step :: "nat \<Rightarrow> u32 list \<Rightarrow> u32 list" where
  "schedule_step i w =
    (let s0 = word_rotr 7 (w ! (i - 15)) XOR word_rotr 18 (w ! (i - 15)) XOR drop_bit 3 (w ! (i - 15));
         s1 = word_rotr 17 (w ! (i - 2)) XOR word_rotr 19 (w ! (i - 2)) XOR drop_bit 10 (w ! (i - 2)) in
     w[i := w ! (i - 16) + s0 + w ! (i - 7) + s1])"

definition schedule :: "bytes \<Rightarrow> u32 list" where
  "schedule block =
     fold schedule_step [16..<64] (map (\<lambda>i. from_be (cut (i * 4) 4 block)) [0..<16] @ replicate 48 0)"

type_synonym sha_vars = "u32 \<times> u32 \<times> u32 \<times> u32 \<times> u32 \<times> u32 \<times> u32 \<times> u32"

definition sha_round :: "u32 list \<Rightarrow> nat \<Rightarrow> sha_vars \<Rightarrow> sha_vars" where
  "sha_round w i = (\<lambda>(a, b, c, d, e, f, g, h).
    (let s1 = word_rotr 6 e XOR word_rotr 11 e XOR word_rotr 25 e;
         ch = (e AND f) XOR (NOT e AND g);
         temp1 = h + s1 + ch + SHA_K ! i + w ! i;
         s0 = word_rotr 2 a XOR word_rotr 13 a XOR word_rotr 22 a;
         maj = (a AND b) XOR (a AND c) XOR (b AND c);
         temp2 = s0 + maj in
     (temp1 + temp2, a, b, c, d + temp1, e, f, g)))"

definition compress_words :: "bytes \<Rightarrow> u32 list \<Rightarrow> u32 list" where
  "compress_words block hs =
    (let w = schedule block in
     case fold (sha_round w) [0..<64] (hs ! 0, hs ! 1, hs ! 2, hs ! 3, hs ! 4, hs ! 5, hs ! 6, hs ! 7) of
       (a, b, c, d, e, f, g, h) \<Rightarrow>
         [hs ! 0 + a, hs ! 1 + b, hs ! 2 + c, hs ! 3 + d, hs ! 4 + e, hs ! 5 + f, hs ! 6 + g, hs ! 7 + h])"

section \<open>The incremental hasher\<close>

record sha256_state =
  sh_h :: "u32 list"
  sh_buffer :: bytes
  sh_buffered :: nat
  sh_len :: u64

definition sha_new :: sha256_state where
  "sha_new = \<lparr>sh_h = SHA_H_INIT, sh_buffer = zeros BLOCK_BYTES, sh_buffered = 0, sh_len = 0\<rparr>"

definition sha_compress :: "bytes \<Rightarrow> sha256_state \<Rightarrow> sha256_state" where
  "sha_compress block s = s\<lparr>sh_h := compress_words block (sh_h s)\<rparr>"

text \<open>\<open>buffer[from..from + src.len()].copy_from_slice(src)\<close>.\<close>

definition sha_fill :: "nat \<Rightarrow> bytes \<Rightarrow> sha256_state \<Rightarrow> sha256_state result" where
  "sha_fill from' src s =
    (if from' + length src \<le> length (sh_buffer s) then Ok (s\<lparr>sh_buffer := put from' src (sh_buffer s)\<rparr>) else Panic)"

function sha_blocks :: "bytes \<Rightarrow> sha256_state \<Rightarrow> bytes \<times> sha256_state" where
  "sha_blocks dat s =
    (if length dat \<ge> BLOCK_BYTES
     then sha_blocks (drop BLOCK_BYTES dat) (sha_compress (take BLOCK_BYTES dat) s)
     else (dat, s))"
  by pat_completeness auto
termination
  by (relation "measure (\<lambda>(dat, s). length dat)") (auto simp: BLOCK_BYTES_def)

declare sha_blocks.simps [simp del]

text \<open>The part of \<open>update\<close> that completes a partly filled buffer.\<close>

definition sha_top_up :: "bytes \<Rightarrow> sha256_state \<Rightarrow> (bytes \<times> sha256_state) result" where
  "sha_top_up dat s =
    (if sh_buffered s > 0 then
       if sh_buffered s > BLOCK_BYTES then Panic
       else
         let n = min (BLOCK_BYTES - sh_buffered s) (length dat) in
         rbind (sha_fill (sh_buffered s) (take n dat) s) (\<lambda>s.
         let s = s\<lparr>sh_buffered := sh_buffered s + n\<rparr> in
         Ok (drop n dat,
             if sh_buffered s = BLOCK_BYTES then (sha_compress (sh_buffer s) s)\<lparr>sh_buffered := 0\<rparr> else s))
     else Ok (dat, s))"

definition sha_update :: "bytes \<Rightarrow> sha256_state \<Rightarrow> sha256_state result" where
  "sha_update dat s =
     rbind (sha_top_up dat (s\<lparr>sh_len := sh_len s + of_nat (length dat)\<rparr>)) (\<lambda>(dat, s).
     case sha_blocks dat s of
       (dat, s) \<Rightarrow>
         if dat \<noteq> [] then rbind (sha_fill 0 dat s) (\<lambda>s. Ok (s\<lparr>sh_buffered := length dat\<rparr>))
         else Ok s)"

definition sha_finalize :: "sha256_state \<Rightarrow> bytes result" where
  "sha_finalize s =
    (let bit_len = sh_len s * 8;
         pad = 0x80 # zeros (BLOCK_BYTES * 2 - 1);
         pad_len = (if sh_buffered s < 56 then 56 - sh_buffered s else 56 + BLOCK_BYTES - sh_buffered s) in
     rbind (sha_update (take pad_len pad) s) (\<lambda>s.
     rbind (sha_update (be_bytes 8 bit_len) s) (\<lambda>s.
       if sh_buffered s \<noteq> 0 then Panic
       else Ok (concat (map (be_bytes 4) (sh_h s))))))"

definition sha256 :: "bytes \<Rightarrow> bytes result" where
  "sha256 dat = rbind (sha_update dat sha_new) sha_finalize"

section \<open>HMAC\<close>

definition hmac_sha256 :: "bytes \<Rightarrow> bytes \<Rightarrow> bytes result" where
  "hmac_sha256 key dat =
     rbind (if length key > BLOCK_BYTES then map_result (\<lambda>d. put 0 d (zeros BLOCK_BYTES)) (sha256 key)
            else Ok (put 0 key (zeros BLOCK_BYTES))) (\<lambda>k_block.
     let ipad = map (\<lambda>k. k XOR 0x36) k_block; opad = map (\<lambda>k. k XOR 0x5c) k_block in
     rbind (sha_update ipad sha_new) (\<lambda>inner.
     rbind (sha_update dat inner) (\<lambda>inner.
     rbind (sha_finalize inner) (\<lambda>inner_digest.
     rbind (sha_update opad sha_new) (\<lambda>outer.
     rbind (sha_update inner_digest outer) sha_finalize)))))"

definition hmac_sha256_multi :: "bytes \<Rightarrow> bytes list \<Rightarrow> bytes result" where
  "hmac_sha256_multi key chunks = hmac_sha256 key (concat chunks)"

end
