(* ===== verification/Sha256_Props.thy ===== *)
theory Sha256_Props
  imports Sha256
begin

text \<open>
  The incremental hasher computes the one-shot digest of the standard whatever the pieces it is
  fed, and HMAC is the construction of RFC 2104 over it.
\<close>

section \<open>The reference definitions\<close>

text \<open>The chaining value after the complete blocks of a message.\<close>

definition sha_chain :: "bytes \<Rightarrow> u32 list" where
  "sha_chain m = fold (\<lambda>i. compress_words (cut (64 * i) 64 m)) [0..<length m div 64] SHA_H_INIT"

definition sha_padded :: "bytes \<Rightarrow> bytes" where
  "sha_padded m = m @ 0x80 # zeros ((119 - length m mod 64) mod 64) @ be_bytes 8 (of_nat (8 * length m) :: u64)"

definition sha_digest :: "bytes \<Rightarrow> bytes" where
  "sha_digest m = concat (map (be_bytes 4) (sha_chain (sha_padded m)))"

definition hmac_key :: "bytes \<Rightarrow> bytes" where
  "hmac_key key = (let k = if 64 < length key then sha_digest key else key in k @ zeros (64 - length k))"

definition hmac_digest :: "bytes \<Rightarrow> bytes \<Rightarrow> bytes" where
  "hmac_digest key m =
     sha_digest (map (\<lambda>k. k XOR 0x5c) (hmac_key key) @ sha_digest (map (\<lambda>k. k XOR 0x36) (hmac_key key) @ m))"

section \<open>Chaining\<close>

lemma length_be_bytes [simp]: "length (be_bytes n w) = n"
  by (simp add: be_bytes_def)

lemma length_compress_words [simp]: "length (compress_words b hs) = 8"
  by (simp add: compress_words_def Let_def split: prod.split)

lemma sha_chain_Nil [simp]: "sha_chain [] = SHA_H_INIT"
  by (simp add: sha_chain_def)

lemma sha_chain_append:
  "sha_chain (m @ r) = fold (\<lambda>i. compress_words (cut (64 * i) 64 (m @ r))) [length m div 64..<length (m @ r) div 64] (sha_chain m)"
proof -
  have u: "[0..<length (m @ r) div 64] = [0..<length m div 64] @ [length m div 64..<length (m @ r) div 64]"
    using upt_add_eq_append [of 0 "length m div 64" "length (m @ r) div 64 - length m div 64"] by (simp add: div_le_mono)
  have "cut (64 * i) 64 (m @ r) = cut (64 * i) 64 m" if "i < length m div 64" for i
    using that by (simp add: cut_def Suc_le_eq [symmetric] less_eq_div_iff_mult_less_eq)
  then show ?thesis
    unfolding sha_chain_def u fold_append o_apply by (intro arg_cong [of _ _ "fold _ _"] fold_cong) simp_all
qed

lemma sha_chain_rest: "64 dvd length m \<Longrightarrow> length r < 64 \<Longrightarrow> sha_chain (m @ r) = sha_chain m"
  by (subst sha_chain_append) (auto elim!: dvdE)

lemma sha_chain_block:
  assumes "64 dvd length m" "length b = 64"
  shows "sha_chain (m @ b) = compress_words b (sha_chain m)"
proof -
  have "[length m div 64..<length (m @ b) div 64] = [length m div 64]"
    using assms by (auto elim!: dvdE)
  moreover have "cut (64 * (length m div 64)) 64 (m @ b) = b"
    using assms by (simp add: cut_def)
  ultimately show ?thesis
    by (subst sha_chain_append) simp
qed

lemma length_sha_chain: "length (sha_chain m) = 8"
proof -
  have "length (fold (\<lambda>i. compress_words (f i)) is hs) = 8" if "length hs = 8" for f hs and "is" :: "nat list"
    using that by (induction "is" arbitrary: hs) simp_all
  then show ?thesis
    by (simp add: sha_chain_def SHA_H_INIT_def)
qed

lemma length_sha_digest [simp]: "length (sha_digest m) = 32"
proof -
  have "length (concat (map (be_bytes 4) hs)) = 4 * length (hs :: u32 list)" for hs
    by (induction hs) simp_all
  then show ?thesis
    by (simp add: sha_digest_def length_sha_chain)
qed

lemma length_sha_padded: "64 dvd length (sha_padded m)"
proof -
  define r where "r = length m mod 64"
  have "r < 64"
    by (simp add: r_def)
  then have "(119 - r) mod 64 = (if r \<le> 55 then 55 - r else 119 - r)"
    using le_mod_geq [of 64 "119 - r"] by simp
  then have "(r + (9 + (119 - r) mod 64)) mod 64 = 0"
    using \<open>r < 64\<close> by simp
  then have "(length m + (9 + (119 - length m mod 64) mod 64)) mod 64 = 0"
    unfolding r_def by (simp only: mod_add_left_eq)
  moreover have "length (sha_padded m) = length m + (9 + (119 - length m mod 64) mod 64)"
    by (simp add: sha_padded_def)
  ultimately show ?thesis
    by (simp only: dvd_eq_mod_eq_0)
qed

section \<open>The hasher's state\<close>

text \<open>The hasher has taken in exactly the message \<open>m\<close>.\<close>

definition absorbed :: "bytes \<Rightarrow> sha256_state \<Rightarrow> bool" where
  "absorbed m s \<longleftrightarrow> length (sh_buffer s) = 64 \<and> sh_buffered s = length m mod 64 \<and> sh_len s = of_nat (length m)
     \<and> sh_h s = sha_chain m \<and> take (sh_buffered s) (sh_buffer s) = drop (length m div 64 * 64) m"

lemma absorbed_new: "absorbed [] sha_new"
  by (simp add: absorbed_def sha_new_def BLOCK_BYTES_def)

lemma sha_blocks_chain:
  assumes "sh_h s = sha_chain m" "64 dvd length m"
  shows "sha_blocks d s = (drop (length d div 64 * 64) d, s\<lparr>sh_h := sha_chain (m @ d)\<rparr>)"
  using assms
proof (induction d s arbitrary: m rule: sha_blocks.induct)
  case (1 d s)
  show ?case
  proof (cases "64 \<le> length d")
    case True
    then have t: "length (take 64 d) = 64" "64 dvd length (m @ take 64 d)"
      using "1.prems" by simp_all
    have "sh_h (sha_compress (take 64 d) s) = sha_chain (m @ take 64 d)"
      using sha_chain_block [OF "1.prems"(2) t(1)] "1.prems"(1) by (simp add: sha_compress_def)
    from "1.IH" [unfolded BLOCK_BYTES_def, OF True this t(2)]
    have "sha_blocks d s = (drop (length (drop 64 d) div 64 * 64) (drop 64 d), s\<lparr>sh_h := sha_chain (m @ d)\<rparr>)"
      using True by (simp add: sha_blocks.simps [of d] BLOCK_BYTES_def sha_compress_def)
    moreover have "(length d - 64) div 64 * 64 + 64 = length d div 64 * 64"
      using True by (simp add: le_div_geq)
    ultimately show ?thesis
      by simp
  next
    case False
    then show ?thesis
      using sha_chain_rest [OF "1.prems"(2), of d] "1.prems"(1)
      by (simp add: sha_blocks.simps [of d] BLOCK_BYTES_def)
  qed
qed


lemma split_blocks: "take (length m div 64 * 64) m @ drop (length m div 64 * 64) m = m" "length (drop (length m div 64 * 64) m) = length m mod 64"
  by (simp_all add: minus_div_mult_eq_mod)

lemma absorbed_chain:
  assumes "absorbed m s"
  shows "sh_h s = sha_chain (take (length m div 64 * 64) m)"
proof -
  have "sha_chain (take (length m div 64 * 64) m @ drop (length m div 64 * 64) m) = sha_chain (take (length m div 64 * 64) m)"
    using split_blocks(2) [of m] by (intro sha_chain_rest) simp_all
  then show ?thesis
    using assms by (simp add: absorbed_def)
qed

text \<open>What the rest of \<open>update\<close> does once the buffer is empty.\<close>

lemma sha_tail_absorbs:
  assumes "sh_h s = sha_chain m" "64 dvd length m" "sh_buffered s = 0" "length (sh_buffer s) = 64"
    and "sh_len s = of_nat (length m + length d)"
  shows "\<exists>s'. (case sha_blocks d s of (d, s) \<Rightarrow>
      if d \<noteq> [] then rbind (sha_fill 0 d s) (\<lambda>s. Ok (s\<lparr>sh_buffered := length d\<rparr>)) else Ok s) = Ok s' \<and> absorbed (m @ d) s'"
proof -
  let ?r = "drop (length d div 64 * 64) d"
  obtain q where q: "length m = 64 * q"
    using assms(2) by (auto elim: dvdE)
  have r: "length ?r = length d mod 64" "length d mod 64 < 64"
    by (simp_all add: minus_div_mult_eq_mod)
  have md: "length (m @ d) mod 64 = length d mod 64" "length (m @ d) div 64 * 64 = length m + length d div 64 * 64"
    using q by (simp_all add: algebra_simps)
  have e: "?r = [] \<longleftrightarrow> length d mod 64 = 0"
    using r(1) by (metis length_0_conv)
  show ?thesis
    using assms r md e
    by (auto simp: sha_blocks_chain [OF assms(1,2)] sha_fill_def absorbed_def put_def)
qed

lemma sha_update_absorbs:
  assumes "absorbed m s"
  shows "\<exists>s'. sha_update d s = Ok s' \<and> absorbed (m @ d) s'"
proof -
  let ?b = "sh_buffered s" and ?full = "take (length m div 64 * 64) m" and ?rest = "drop (length m div 64 * 64) m"
  let ?s = "s\<lparr>sh_len := sh_len s + of_nat (length d)\<rparr>"
  have "take ?b (sh_buffer s) = ?rest"
    using assms unfolding absorbed_def by blast
  with assms have A: "length (sh_buffer s) = 64" "?b = length m mod 64" "sh_len s = of_nat (length m)" "take ?b (sh_buffer s) = ?rest"
    unfolding absorbed_def by blast+
  have f: "64 dvd length ?full" "length ?rest = ?b" "?b < 64" "?full @ ?rest = m"
    using split_blocks [of m] A(2) by simp_all
  have H: "sh_h s = sha_chain ?full"
    by (rule absorbed_chain [OF assms])
  consider (empty) "?b = 0" | (short) "0 < ?b" "?b + length d < 64" | (full) "0 < ?b" "64 \<le> ?b + length d"
    by linarith
  then show ?thesis
  proof cases
    case empty
    then have m: "?full = m"
      using f(2,4) by simp
    have "\<exists>s'. (case sha_blocks d ?s of (d, s) \<Rightarrow>
        if d \<noteq> [] then rbind (sha_fill 0 d s) (\<lambda>s. Ok (s\<lparr>sh_buffered := length d\<rparr>)) else Ok s) = Ok s' \<and> absorbed (m @ d) s'"
      using H m f(1) A empty by (intro sha_tail_absorbs) simp_all
    then show ?thesis
      using empty by (simp add: sha_update_def sha_top_up_def)
  next
    case short
    let ?t = "?s\<lparr>sh_buffer := put ?b d (sh_buffer s), sh_buffered := ?b + length d\<rparr>"
    have run: "sha_update d s = Ok ?t"
      using short A(1) by (simp add: sha_update_def sha_top_up_def sha_fill_def Let_def BLOCK_BYTES_def sha_blocks.simps [of "[]"])
    have md: "length (m @ d) mod 64 = ?b + length d" "length (m @ d) div 64 = length m div 64"
      using short(2) A(2) by (simp_all add: mod_add_eq [of "length m" 64, symmetric] div_add1_eq [of "length m"])
    have "length (?rest @ d) < 64" "?full @ ?rest @ d = m @ d"
      using f(2,4) short(2) by (simp_all del: append_assoc add: append_assoc [symmetric])
    with sha_chain_rest [OF f(1), of "?rest @ d"] have "sha_chain (m @ d) = sha_chain ?full"
      by simp
    then have "absorbed (m @ d) ?t"
      unfolding absorbed_def using A short(2) md f(2) H by (simp add: put_def)
    with run show ?thesis
      by blast
  next
    case full
    let ?n = "64 - ?b"
    let ?blk = "?rest @ take ?n d"
    let ?t = "?s\<lparr>sh_buffer := ?blk, sh_buffered := 0, sh_h := compress_words ?blk (sh_h s)\<rparr>"
    have n: "min (64 - ?b) (length d) = ?n" "length (take ?n d) = ?n"
      using full by simp_all
    have "put ?b (take ?n d) (sh_buffer s) = ?blk"
      using n(2) full(2) A(1,4) f(3) by (simp add: put_def)
    then have top: "sha_top_up d ?s = Ok (drop ?n d, ?t)"
      using full A(1) n f(3) by (simp add: sha_top_up_def sha_fill_def Let_def BLOCK_BYTES_def sha_compress_def)
    have blk: "length ?blk = 64" "64 dvd length (?full @ ?blk)" "(?full @ ?blk) @ drop ?n d = m @ d"
      using n f by simp_all
    have "length (?full @ ?blk) + length (drop ?n d) = length m + length d"
      by (simp only: length_append [symmetric] blk(3))
    then have len: "(of_nat (length m) + of_nat (length d) :: u64) = of_nat (length (?full @ ?blk) + length (drop ?n d))"
      by (simp only: of_nat_add [symmetric])
    have "\<exists>s'. (case sha_blocks (drop ?n d) ?t of (d, s) \<Rightarrow>
        if d \<noteq> [] then rbind (sha_fill 0 d s) (\<lambda>s. Ok (s\<lparr>sh_buffered := length d\<rparr>)) else Ok s) = Ok s'
        \<and> absorbed ((?full @ ?blk) @ drop ?n d) s'"
    proof (rule sha_tail_absorbs [OF _ blk(2)])
      show "sh_h ?t = sha_chain (?full @ ?blk)"
        using sha_chain_block [OF f(1) blk(1)] H by simp
      show "sh_len ?t = of_nat (length (?full @ ?blk) + length (drop ?n d))"
        unfolding len [symmetric] using A(3) by simp
    qed (use blk(1) in simp_all)
    then show ?thesis
      unfolding blk(3) by (simp add: sha_update_def top)
  qed
qed


lemma sha_updates_absorb:
  "absorbed m s \<Longrightarrow> \<exists>s'. rfor sha_update ds s = Ok s' \<and> absorbed (m @ concat ds) s'"
proof (induction ds arbitrary: m s)
  case (Cons d ds)
  then obtain t where "sha_update d s = Ok t" "absorbed (m @ d) t"
    using sha_update_absorbs by blast
  then show ?case
    using Cons.IH [of "m @ d" t] by simp
qed simp

lemma sha_finalize_digest:
  assumes "absorbed m s"
  shows "sha_finalize s = Ok (sha_digest m)"
proof -
  let ?b = "sh_buffered s" and ?k = "(119 - length m mod 64) mod 64"
  let ?n = "if ?b < 56 then 56 - ?b else 56 + 64 - ?b"
  have b: "?b = length m mod 64" "?b < 64"
    using assms by (simp_all add: absorbed_def)
  have n: "?n = Suc ?k"
    using b le_mod_geq [of 64 "119 - ?b"] by (auto simp: b(1) [symmetric])
  have pad: "take ?n (0x80 # zeros (64 * 2 - 1)) = 0x80 # zeros ?k"
    unfolding n by (simp add: zeros_def)
  obtain s1 where s1: "sha_update (0x80 # zeros ?k) s = Ok s1" "absorbed (m @ 0x80 # zeros ?k) s1"
    using sha_update_absorbs [OF assms] by blast
  have len: "sh_len s * 8 = of_nat (8 * length m)"
    using assms by (simp add: absorbed_def)
  obtain s2 where s2: "sha_update (be_bytes 8 (sh_len s * 8)) s1 = Ok s2" "absorbed (sha_padded m) s2"
    using sha_update_absorbs [OF s1(2), of "be_bytes 8 (sh_len s * 8)"] by (auto simp: sha_padded_def len)
  moreover have "sh_buffered s2 = 0" "sh_h s2 = sha_chain (sha_padded m)"
    using s2(2) length_sha_padded [of m] by (simp_all add: absorbed_def dvd_eq_mod_eq_0)
  ultimately show ?thesis
    unfolding sha_finalize_def Let_def BLOCK_BYTES_def pad using s1(1) by (simp add: sha_digest_def)
qed

lemma sha256_digest: "sha256 m = Ok (sha_digest m)"
  using sha_update_absorbs [OF absorbed_new, of m] sha_finalize_digest by (auto simp: sha256_def)

section \<open>HMAC\<close>

lemma hmac_sha256_digest: "hmac_sha256 key m = Ok (hmac_digest key m)"
proof -
  have k: "(if length key > BLOCK_BYTES then map_result (\<lambda>d. put 0 d (zeros BLOCK_BYTES)) (sha256 key)
      else Ok (put 0 key (zeros BLOCK_BYTES))) = Ok (hmac_key key)"
    by (simp add: hmac_key_def sha256_digest BLOCK_BYTES_def put_def zeros_def Let_def)
  let ?i = "map (\<lambda>k. k XOR 0x36) (hmac_key key)" and ?o = "map (\<lambda>k. k XOR 0x5c) (hmac_key key)"
  obtain s1 s2 where s: "sha_update ?i sha_new = Ok s1" "sha_update m s1 = Ok s2" "absorbed (?i @ m) s2"
    using sha_update_absorbs [OF absorbed_new, of ?i] sha_update_absorbs [of ?i _ m] by (metis append_Nil)
  obtain t1 t2 where t: "sha_update ?o sha_new = Ok t1" "sha_update (sha_digest (?i @ m)) t1 = Ok t2"
    "absorbed (?o @ sha_digest (?i @ m)) t2"
    using sha_update_absorbs [OF absorbed_new, of ?o] sha_update_absorbs [of ?o _ "sha_digest (?i @ m)"] by (metis append_Nil)
  show ?thesis
    unfolding hmac_sha256_def k
    by (simp add: Let_def s(1,2) t(1,2) sha_finalize_digest [OF s(3)] sha_finalize_digest [OF t(3)] hmac_digest_def)
qed

section \<open>Properties\<close>

text \<open>
  C25: the digest does not depend on how the input is cut: feeding any list of pieces to the
  hasher and finishing it gives the one-shot digest of the standard (padding, blocks of 64 bytes,
  fold of the compression function) of the concatenated pieces.
\<close>

theorem incremental_sha256_is_one_shot:
  "rbind (rfor sha_update pieces sha_new) sha_finalize = Ok (sha_digest (concat pieces))"
  using sha_updates_absorb [OF absorbed_new, of pieces] sha_finalize_digest by auto

text \<open>The published digest of \<open>abc\<close> (FIPS 180-4), which checks the constants and the round function.\<close>

lemma sha256_abc:
  "sha256 [0x61, 0x62, 0x63] = Ok
    [0xba, 0x78, 0x16, 0xbf, 0x8f, 0x01, 0xcf, 0xea, 0x41, 0x41, 0x40, 0xde, 0x5d, 0xae, 0x22, 0x23,
     0xb0, 0x03, 0x61, 0xa3, 0x96, 0x17, 0x7a, 0x9c, 0xb4, 0x10, 0xff, 0x61, 0xf2, 0x00, 0x15, 0xad]"
  by code_simp

section \<open>The type of the hasher\<close>

definition wf_sha :: "sha256_state \<Rightarrow> bool" where
  "wf_sha s \<longleftrightarrow> length (sh_h s) = 8 \<and> length (sh_buffer s) = 64 \<and> sh_buffered s < 64"

lemma wf_sha_blocks: "wf_sha s \<Longrightarrow> wf_sha (snd (sha_blocks d s)) \<and> length (fst (sha_blocks d s)) < 64
   \<and> sh_buffered (snd (sha_blocks d s)) = sh_buffered s \<and> length (fst (sha_blocks d s)) = length d mod 64"
proof (induction d s rule: sha_blocks.induct)
  case (1 d s)
  then show ?case
    by (cases "64 \<le> length d")
      (simp_all add: sha_blocks.simps [of d] BLOCK_BYTES_def wf_sha_def sha_compress_def le_mod_geq)
qed

lemma wf_sha_update:
  assumes "wf_sha s"
  shows "\<exists>s'. sha_update d s = Ok s' \<and> wf_sha s' \<and> sh_buffered s' = (sh_buffered s + length d) mod 64"
proof -
  let ?s = "s\<lparr>sh_len := sh_len s + of_nat (length d)\<rparr>"
  have W: "length (sh_h s) = 8" "length (sh_buffer s) = 64" "sh_buffered s < 64"
    using assms by (simp_all add: wf_sha_def)
  have top: "\<exists>e t. sha_top_up d ?s = Ok (e, t) \<and> wf_sha t
      \<and> (sh_buffered t = 0 \<and> length e mod 64 = (sh_buffered s + length d) mod 64
         \<or> e = [] \<and> sh_buffered t = sh_buffered s + length d)"
  proof (cases "sh_buffered s + length d < 64")
    case True
    then show ?thesis
      using W by (auto simp: sha_top_up_def sha_fill_def Let_def BLOCK_BYTES_def wf_sha_def)
  next
    case False
    then have "min (64 - sh_buffered s) (length d) = 64 - sh_buffered s"
      "length d - (64 - sh_buffered s) = (sh_buffered s + length d) - 64"
      using W by auto
    then show ?thesis
      using False W by (auto simp: sha_top_up_def sha_fill_def Let_def BLOCK_BYTES_def wf_sha_def sha_compress_def le_mod_geq)
  qed
  then obtain e t where t: "sha_top_up d ?s = Ok (e, t)" "wf_sha t"
      "sh_buffered t = 0 \<and> length e mod 64 = (sh_buffered s + length d) mod 64 \<or> e = [] \<and> sh_buffered t = sh_buffered s + length d"
    by blast
  obtain r u where r: "sha_blocks e t = (r, u)"
    by (cases "sha_blocks e t")
  have u: "wf_sha u" "length r < 64" "sh_buffered u = sh_buffered t" "length r = length e mod 64"
    using wf_sha_blocks [OF t(2), of e] r by simp_all
  show ?thesis
    using t u r by (cases "r = []") (auto simp: sha_update_def sha_fill_def wf_sha_def)
qed

text \<open>
  C26: the hasher keeps its type: from every state with an eight-word chaining value, a 64-byte
  buffer and fewer than 64 buffered bytes, \<open>update\<close> returns such a state and \<open>finalize\<close> a digest of
  32 bytes; no index is out of range.
\<close>

theorem sha256_state_well_typed:
  assumes "wf_sha s"
  shows "(\<exists>s'. sha_update d s = Ok s' \<and> wf_sha s') \<and> (\<exists>digest. sha_finalize s = Ok digest \<and> length digest = 32)"
proof -
  have digest: "length (concat (map (be_bytes 4) hs)) = 4 * length (hs :: u32 list)" for hs
    by (induction hs) simp_all
  let ?b = "sh_buffered s"
  define pad where "pad = take (if ?b < 56 then 56 - ?b else 56 + 64 - ?b) (0x80 # zeros (64 * 2 - 1) :: bytes)"
  have b: "?b < 64"
    using assms by (simp add: wf_sha_def)
  then have pad: "(?b + length pad) mod 64 = 56"
    using le_mod_geq [of 64 120] by (auto simp: pad_def)
  obtain s1 where s1: "sha_update pad s = Ok s1" "wf_sha s1" "sh_buffered s1 = 56"
    using wf_sha_update [OF assms, of pad] pad by auto
  obtain s2 where s2: "sha_update (be_bytes 8 (sh_len s * 8)) s1 = Ok s2" "wf_sha s2" "sh_buffered s2 = 0"
    using wf_sha_update [OF s1(2), of "be_bytes 8 (sh_len s * 8)"] s1(3) by auto
  have "sha_finalize s = Ok (concat (map (be_bytes 4) (sh_h s2)))"
    unfolding sha_finalize_def Let_def BLOCK_BYTES_def pad_def [symmetric] using s1(1) s2(1,3) by simp
  then show ?thesis
    using wf_sha_update [OF assms, of d] s2(2) digest [of "sh_h s2"] by (auto simp: wf_sha_def)
qed

theorem sha256_state_well_typed_witness:
  "wf_sha sha_new \<and> (\<exists>s'. sha_update [1, 2, 3] sha_new = Ok s' \<and> wf_sha s')"
proof -
  have "wf_sha sha_new"
    by (simp add: wf_sha_def sha_new_def SHA_H_INIT_def BLOCK_BYTES_def)
  with sha256_state_well_typed [OF this, of "[1, 2, 3]"] show ?thesis
    by blast
qed

text \<open>
  HMAC never panics and is the construction of RFC 2104: keys longer than a block are hashed,
  shorter ones padded, and the digest is the outer hash of the inner hash.
\<close>

lemma hmac_is_rfc2104: "hmac_sha256_multi key pieces = Ok (hmac_digest key (concat pieces))"
  by (simp add: hmac_sha256_multi_def hmac_sha256_digest)

end
