(* ===== verification/Hkdf.thy ===== *)
theory Hkdf
  imports Sha256_Props
begin

text \<open>
  HKDF (RFC 5869), \<open>corefs-core/src/security/hkdf.rs\<close>, and the keystore built on it,
  \<open>corefs-core/src/security/keystore.rs\<close>.  The AEAD cipher (the crate \<open>chacha20poly1305\<close>) is a
  parameter; \<open>aead_ok\<close> is the documented law the keystore relies on.
\<close>

section \<open>HKDF\<close>

definition hkdf_extract :: "bytes \<Rightarrow> bytes \<Rightarrow> bytes result" where
  "hkdf_extract salt ikm =
    (if salt = [] then hmac_sha256 (zeros DIGEST_BYTES) ikm else hmac_sha256 salt ikm)"

definition hkdf_turn :: "bytes \<Rightarrow> bytes \<Rightarrow> nat \<Rightarrow> bytes \<times> bytes \<Rightarrow> (bytes \<times> bytes) result" where
  "hkdf_turn prk info i = (\<lambda>(t_prev, out).
    (let counter = [of_nat i] in
     rbind (if i = 1 then hmac_sha256_multi prk [info, counter]
            else hmac_sha256_multi prk [t_prev, info, counter]) (\<lambda>t.
       Ok (t, out @ t))))"

definition hkdf_expand :: "bytes \<Rightarrow> bytes \<Rightarrow> nat \<Rightarrow> bytes result" where
  "hkdf_expand prk info out_len =
    (if \<not> out_len \<le> 255 * DIGEST_BYTES then Panic
     else
       let n = out_len div DIGEST_BYTES + (if out_len mod DIGEST_BYTES > 0 then 1 else 0) in
       rbind (rfor (hkdf_turn prk info) [1..<n + 1] (zeros DIGEST_BYTES, [])) (\<lambda>(t_prev, out).
         Ok (take out_len out)))"

definition hkdf_derive :: "bytes \<Rightarrow> bytes \<Rightarrow> bytes \<Rightarrow> nat \<Rightarrow> bytes result" where
  "hkdf_derive salt ikm info out_len = rbind (hkdf_extract salt ikm) (\<lambda>prk. hkdf_expand prk info out_len)"

text \<open>The output blocks \<open>T(1)\<close>, \<open>T(2)\<close>, ... of the RFC and the first \<open>n\<close> of them joined.\<close>

fun hkdf_T :: "bytes \<Rightarrow> bytes \<Rightarrow> nat \<Rightarrow> bytes" where
  "hkdf_T prk info 0 = []"
| "hkdf_T prk info (Suc i) = hmac_digest prk (hkdf_T prk info i @ info @ [of_nat (Suc i)])"

definition hkdf_stream :: "bytes \<Rightarrow> bytes \<Rightarrow> nat \<Rightarrow> bytes" where
  "hkdf_stream prk info n = concat (map (hkdf_T prk info) [1..<n + 1])"

lemma length_hmac_digest [simp]: "length (hmac_digest key m) = 32"
  by (simp add: hmac_digest_def)

lemma length_hkdf_stream: "length (hkdf_stream prk info n) = 32 * n"
  by (induction n) (simp_all add: hkdf_stream_def)

lemma hkdf_stream_prefix: "m \<le> n \<Longrightarrow> take (32 * m) (hkdf_stream prk info n) = hkdf_stream prk info m"
proof -
  assume "m \<le> n"
  then have "[1..<n + 1] = [1..<m + 1] @ [m + 1..<n + 1]"
    using upt_add_eq_append [of 1 "m + 1" "n - m"] by simp
  then have "hkdf_stream prk info n = hkdf_stream prk info m @ concat (map (hkdf_T prk info) [m + 1..<n + 1])"
    by (simp only: hkdf_stream_def map_append concat_append)
  then show ?thesis
    using length_hkdf_stream [of prk info m] by simp
qed

lemma hkdf_loop:
  "rfor (hkdf_turn prk info) [1..<n + 1] (zeros 32, []) =
     Ok (if n = 0 then zeros 32 else hkdf_T prk info n, hkdf_stream prk info n)"
proof (induction n)
  case 0
  then show ?case by (simp add: hkdf_stream_def)
next
  case (Suc n)
  have u: "[1..<Suc n + 1] = [1..<n + 1] @ [Suc n]"
    by simp
  have t: "hkdf_turn prk info (Suc n) (if n = 0 then zeros 32 else hkdf_T prk info n, out)
      = Ok (hkdf_T prk info (Suc n), out @ hkdf_T prk info (Suc n))" for out
    by (simp add: hkdf_turn_def hmac_sha256_multi_def hmac_sha256_digest Let_def)
  have "hkdf_stream prk info (Suc n) = hkdf_stream prk info n @ hkdf_T prk info (Suc n)"
    unfolding hkdf_stream_def u by simp
  then show ?case
    unfolding u rfor_append Suc rbind.simps rfor.simps t by simp
qed

lemma hkdf_derive_run:
  "hkdf_derive salt ikm info n =
    (if n \<le> 255 * 32 then Ok (take n (hkdf_stream (hmac_digest (if salt = [] then zeros 32 else salt) ikm) info 255)) else Panic)"
proof (cases "n \<le> 255 * 32")
  case True
  let ?prk = "hmac_digest (if salt = [] then zeros 32 else salt) ikm"
  let ?k = "n div 32 + (if n mod 32 > 0 then 1 else 0)"
  have "n div 32 < 255 \<or> n mod 32 = 0 \<and> n div 32 \<le> 255"
  proof -
    have "n div 32 \<le> 255"
      using div_le_mono [OF True, of 32] by simp
    moreover have "n mod 32 = 0" if "n div 32 = 255"
      using div_mult_mod_eq [of n 32] True that by simp
    ultimately show ?thesis
      by linarith
  qed
  then have k: "?k \<le> 255" "n \<le> 32 * ?k"
    by auto
  have ext: "hkdf_extract salt ikm = Ok ?prk"
    by (simp add: hkdf_extract_def hmac_sha256_digest DIGEST_BYTES_def)
  have "hkdf_derive salt ikm info n = Ok (take n (hkdf_stream ?prk info ?k))"
    unfolding hkdf_derive_def ext rbind.simps hkdf_expand_def Let_def DIGEST_BYTES_def hkdf_loop
    by (simp only: True simp_thms if_False if_True rbind.simps prod.case)
  also have "take n (hkdf_stream ?prk info ?k) = take n (hkdf_stream ?prk info 255)"
    unfolding hkdf_stream_prefix [OF k(1), of ?prk info, symmetric] take_take min.absorb1 [OF k(2)] ..
  finally show ?thesis
    using True by simp
qed (simp add: hkdf_derive_def hkdf_extract_def hmac_sha256_digest hkdf_expand_def DIGEST_BYTES_def)

text \<open>
  C27: key derivation is the RFC's: up to 255 digests the output is a prefix of one keystream that
  does not depend on the requested length, beyond that the code panics.
\<close>

theorem hkdf_is_rfc5869:
  "hkdf_derive salt ikm info n =
    (if n \<le> 255 * 32 then Ok (take n (hkdf_stream (hmac_digest (if salt = [] then zeros 32 else salt) ikm) info 255)) else Panic)"
  by (rule hkdf_derive_run)

section \<open>The keystore\<close>

record aead =
  ae_encrypt :: "bytes \<Rightarrow> bytes \<Rightarrow> bytes \<Rightarrow> bytes option"
  ae_decrypt :: "bytes \<Rightarrow> bytes \<Rightarrow> bytes \<Rightarrow> bytes option"

definition KEYSTORE_MAGIC :: u64 where "KEYSTORE_MAGIC = 0x534B534645524F43"
definition KEYSTORE_VERSION :: u16 where "KEYSTORE_VERSION = 1"
definition KEY_BYTES :: nat where "KEY_BYTES = 32"
definition NONCE_BYTES :: nat where "NONCE_BYTES = 12"

record kdf_config =
  kc_algorithm :: bytes
  kc_salt :: bytes
  kc_file_info :: bytes

record keystore =
  ks_volume_key :: bytes
  ks_kdf :: kdf_config
  ks_volume_uuid :: bytes

record 'time keystore_file =
  kf_magic :: u64
  kf_version :: u16
  kf_kdf :: kdf_config
  kf_wrapped_volume_key :: bytes
  kf_volume_uuid :: bytes
  kf_created_at :: 'time

text \<open>The ASCII bytes of \<open>HKDF-SHA256\<close> and \<open>corefs-per-file-key-v1\<close>.\<close>

definition kdf_with_salt :: "bytes \<Rightarrow> kdf_config" where
  "kdf_with_salt salt =
    \<lparr>kc_algorithm = [0x48, 0x4B, 0x44, 0x46, 0x2D, 0x53, 0x48, 0x41, 0x32, 0x35, 0x36], kc_salt = salt,
     kc_file_info = [0x63, 0x6F, 0x72, 0x65, 0x66, 0x73, 0x2D, 0x70, 0x65, 0x72, 0x2D, 0x66, 0x69, 0x6C, 0x65,
                     0x2D, 0x6B, 0x65, 0x79, 0x2D, 0x76, 0x31]\<rparr>"

definition keystore_new :: "bytes \<Rightarrow> bytes \<Rightarrow> bytes \<Rightarrow> keystore" where
  "keystore_new volume_key salt volume_uuid =
    \<lparr>ks_volume_key = volume_key, ks_kdf = kdf_with_salt salt, ks_volume_uuid = volume_uuid\<rparr>"

text \<open>\<open>key.copy_from_slice(&out)\<close> panics unless the lengths agree.\<close>

definition derive_file_key :: "keystore \<Rightarrow> u64 \<Rightarrow> bytes result" where
  "derive_file_key ks inode =
     rbind (hkdf_derive (kc_salt (ks_kdf ks)) (ks_volume_key ks) (kc_file_info (ks_kdf ks) @ be_bytes 8 inode) KEY_BYTES)
       (\<lambda>out. if length out = KEY_BYTES then Ok out else Panic)"

definition encrypt_key :: "aead \<Rightarrow> bytes \<Rightarrow> bytes \<Rightarrow> bytes \<Rightarrow> corefs_error \<Rightarrow> corefs_error \<Rightarrow> bytes result" where
  "encrypt_key A master nonce volume_key bad_length failed =
    (if length master \<noteq> KEY_BYTES then Err bad_length
     else case ae_encrypt A master nonce volume_key of
            None \<Rightarrow> Err failed
          | Some ct \<Rightarrow> Ok (nonce @ ct))"

definition wrap_key :: "aead \<Rightarrow> keystore \<Rightarrow> bytes \<Rightarrow> bytes \<Rightarrow> bytes result" where
  "wrap_key A ks master nonce =
     encrypt_key A master nonce (ks_volume_key ks)
       (State ''keystore: invalid master key length'') (State ''keystore: wrap failed: '')"

definition unwrap_volume_key :: "aead \<Rightarrow> bytes \<Rightarrow> bytes \<Rightarrow> bytes result" where
  "unwrap_volume_key A master wrapped =
    (if length wrapped < NONCE_BYTES + 16 then Err (InvalidInput ''keystore: wrapped blob too short'')
     else if length master \<noteq> KEY_BYTES then Err (State ''keystore: invalid master key length'')
     else
       case ae_decrypt A master (take NONCE_BYTES wrapped) (drop NONCE_BYTES wrapped) of
         None \<Rightarrow> Err (PolicyViolation ''keystore: unwrap failed (wrong master key or tampered blob)'')
       | Some pt \<Rightarrow>
           if length pt \<noteq> KEY_BYTES then Err (State ''keystore: unwrapped key length '') else Ok pt)"

definition rotate_master :: "aead \<Rightarrow> bytes \<Rightarrow> bytes \<Rightarrow> bytes \<Rightarrow> bytes \<Rightarrow> bytes result" where
  "rotate_master A old_master new_master old_wrapped new_nonce =
     rbind (unwrap_volume_key A old_master old_wrapped) (\<lambda>volume_key.
       encrypt_key A new_master new_nonce volume_key
         (State ''keystore: invalid new master key'') (State ''keystore: rewrap failed: ''))"

definition export_file :: "aead \<Rightarrow> keystore \<Rightarrow> bytes \<Rightarrow> bytes \<Rightarrow> 'time \<Rightarrow> 'time keystore_file result" where
  "export_file A ks master wrap_nonce created_at =
     rbind (wrap_key A ks master wrap_nonce) (\<lambda>wrapped.
       Ok \<lparr>kf_magic = KEYSTORE_MAGIC, kf_version = KEYSTORE_VERSION, kf_kdf = ks_kdf ks,
           kf_wrapped_volume_key = wrapped, kf_volume_uuid = ks_volume_uuid ks, kf_created_at = created_at\<rparr>)"

definition import_file :: "aead \<Rightarrow> 'time keystore_file \<Rightarrow> bytes \<Rightarrow> keystore result" where
  "import_file A file master =
    (if kf_magic file \<noteq> KEYSTORE_MAGIC then Err (InvalidInput ''keystore: bad magic 0x'')
     else if kf_version file \<noteq> KEYSTORE_VERSION then Err (InvalidInput ''keystore: unsupported version '')
     else
       rbind (unwrap_volume_key A master (kf_wrapped_volume_key file)) (\<lambda>volume_key.
         Ok \<lparr>ks_volume_key = volume_key, ks_kdf = kf_kdf file, ks_volume_uuid = kf_volume_uuid file\<rparr>))"

text \<open>
  The documented law of the cipher for a 32-byte key, a 12-byte nonce and a 32-byte message: the
  ciphertext is 16 bytes longer and decrypts to the message under the same key and nonce.
\<close>

definition aead_ok :: "aead \<Rightarrow> bool" where
  "aead_ok A \<longleftrightarrow> (\<forall>key nonce pt. length key = 32 \<and> length nonce = 12 \<and> length pt = 32 \<longrightarrow>
     (\<exists>ct. ae_encrypt A key nonce pt = Some ct \<and> length ct = length pt + 16 \<and> ae_decrypt A key nonce ct = Some pt))"

lemma encrypt_key_ok:
  assumes "aead_ok A" "length master = 32" "length nonce = 12" "length key = 32"
  shows "\<exists>w. encrypt_key A master nonce key e e' = Ok w \<and> unwrap_volume_key A master w = Ok key"
proof -
  obtain ct where "ae_encrypt A master nonce key = Some ct" "length ct = 48" "ae_decrypt A master nonce ct = Some key"
    using assms(1) [unfolded aead_ok_def, rule_format, of master nonce key] assms(2-4) by auto
  then show ?thesis
    using assms by (simp add: encrypt_key_def unwrap_volume_key_def KEY_BYTES_def NONCE_BYTES_def)
qed

lemma derive_file_key_ok: "\<exists>key. derive_file_key ks inode = Ok key \<and> length key = 32"
  by (simp add: derive_file_key_def hkdf_derive_run KEY_BYTES_def length_hkdf_stream)

text \<open>
  C28: rotating the master key keeps every file key.  A keystore exported under the old master key,
  whose wrapped blob is rotated, is imported under the new master key unchanged, so each inode's
  derived key is the same 32 bytes as before.
\<close>

theorem master_rotation_keeps_file_keys:
  assumes "aead_ok A" "length old_master = 32" "length new_master = 32" "length nonce = 12" "length new_nonce = 12"
    and "length (ks_volume_key ks) = 32"
  shows "\<exists>file wrapped ks'. export_file A ks old_master nonce now = Ok file
    \<and> rotate_master A old_master new_master (kf_wrapped_volume_key file) new_nonce = Ok wrapped
    \<and> import_file A (file\<lparr>kf_wrapped_volume_key := wrapped\<rparr>) new_master = Ok ks'
    \<and> (\<exists>key. derive_file_key ks inode = Ok key \<and> derive_file_key ks' inode = Ok key \<and> length key = 32)"
proof -
  obtain w where w: "wrap_key A ks old_master nonce = Ok w" "unwrap_volume_key A old_master w = Ok (ks_volume_key ks)"
    using encrypt_key_ok [OF assms(1,2,4,6)] unfolding wrap_key_def by blast
  obtain v where v: "rotate_master A old_master new_master w new_nonce = Ok v"
    "unwrap_volume_key A new_master v = Ok (ks_volume_key ks)"
    using encrypt_key_ok [OF assms(1,3,5,6)] unfolding rotate_master_def w(2) rbind.simps by blast
  let ?file = "\<lparr>kf_magic = KEYSTORE_MAGIC, kf_version = KEYSTORE_VERSION, kf_kdf = ks_kdf ks,
     kf_wrapped_volume_key = w, kf_volume_uuid = ks_volume_uuid ks, kf_created_at = now\<rparr>"
  have "export_file A ks old_master nonce now = Ok ?file"
    by (simp add: export_file_def w(1))
  moreover have "import_file A (?file\<lparr>kf_wrapped_volume_key := v\<rparr>) new_master = Ok ks"
    by (cases ks) (use v(2) in \<open>simp add: import_file_def\<close>)
  ultimately show ?thesis
    using derive_file_key_ok [of ks inode] v(1)
    by (intro exI [of _ ?file] exI [of _ v] exI [of _ ks]) simp
qed

definition plain_aead :: aead where
  "plain_aead = \<lparr>ae_encrypt = (\<lambda>key nonce pt. Some (pt @ zeros 16)), ae_decrypt = (\<lambda>key nonce ct. Some (take (length ct - 16) ct))\<rparr>"

theorem master_rotation_keeps_file_keys_witness:
  "\<exists>file wrapped ks'. export_file plain_aead (keystore_new (replicate 32 7) (zeros 32) (zeros 16)) (replicate 32 1) (zeros 12) (0 :: nat) = Ok file
    \<and> rotate_master plain_aead (replicate 32 1) (replicate 32 2) (kf_wrapped_volume_key file) (replicate 12 9) = Ok wrapped
    \<and> import_file plain_aead (file\<lparr>kf_wrapped_volume_key := wrapped\<rparr>) (replicate 32 2) = Ok ks'"
proof -
  have "aead_ok plain_aead"
    by (simp add: aead_ok_def plain_aead_def)
  with master_rotation_keeps_file_keys [OF this, of "replicate 32 1" "replicate 32 2" "zeros 12" "replicate 12 9"
      "keystore_new (replicate 32 7) (zeros 32) (zeros 16)" "0 :: nat"] show ?thesis
    by (simp add: keystore_new_def) blast
qed

end
