(* ===== verification/Decimal.thy ===== *)
theory Decimal
  imports Prelude
begin

text \<open>
  Numbers in messages: the decimal form that \<open>format!\<close> prints and the pieces of \<open>str\<close> that the repair
  pass parses it with (\<open>find\<close>, \<open>parse::<u64>\<close>).
\<close>

definition digit :: "nat \<Rightarrow> char" where
  "digit n = char_of (48 + n)"

fun dec :: "nat \<Rightarrow> string" where
  "dec n = (if n < 10 then [digit n] else dec (n div 10) @ [digit (n mod 10)])"

declare dec.simps [simp del]

abbreviation dec64 :: "u64 \<Rightarrow> string" where
  "dec64 w \<equiv> dec (unat w)"

definition is_ascii_digit :: "char \<Rightarrow> bool" where
  "is_ascii_digit c \<longleftrightarrow> 48 \<le> (of_char c :: nat) \<and> (of_char c :: nat) \<le> 57"

definition digit_value :: "char \<Rightarrow> nat" where
  "digit_value c = of_char c - 48"

definition parse_u64 :: "string \<Rightarrow> u64 option" where
  "parse_u64 s =
    (let n = foldl (\<lambda>a c. 10 * a + digit_value c) 0 s in
     if s \<noteq> [] \<and> list_all is_ascii_digit s \<and> n < 2 ^ 64 then Some (of_nat n) else None)"

text \<open>The text behind the first occurrence of \<open>needle\<close>.\<close>

fun after :: "string \<Rightarrow> string \<Rightarrow> string option" where
  "after needle [] = (if needle = [] then Some [] else None)"
| "after needle (c # s) =
    (if take (length needle) (c # s) = needle then Some (drop (length needle) (c # s)) else after needle s)"

text \<open>\<open>rest.find(|c| !c.is_ascii_digit())?\<close> and the number before it.\<close>

definition leading_number :: "string \<Rightarrow> u64 option" where
  "leading_number rest =
    (let digits = takeWhile is_ascii_digit rest in
     if digits = rest then None else parse_u64 digits)"

lemma of_char_digit: "n < 10 \<Longrightarrow> of_char (digit n) = 48 + n"
  by (simp add: digit_def of_char_of)

lemma is_ascii_digit_digit [simp]: "n < 10 \<Longrightarrow> is_ascii_digit (digit n)"
  by (simp add: is_ascii_digit_def of_char_digit)

lemma digit_value_digit [simp]: "n < 10 \<Longrightarrow> digit_value (digit n) = n"
  by (simp add: digit_value_def of_char_digit)

lemma dec_not_Nil [simp]: "dec n \<noteq> []"
  by (subst dec.simps) simp

lemma dec_digits: "list_all is_ascii_digit (dec n)"
proof (induction n rule: dec.induct)
  case (1 n)
  then show ?case by (cases "n < 10") (simp_all add: dec.simps [of n])
qed

lemma dec_value: "foldl (\<lambda>a c. 10 * a + digit_value c) 0 (dec n) = n"
proof (induction n rule: dec.induct)
  case (1 n)
  then show ?case by (cases "n < 10") (simp_all add: dec.simps [of n])
qed

lemma parse_dec [simp]: "parse_u64 (dec64 w) = Some w"
  using dec_digits [of "unat w"] unat_u64_lt [of w] by (simp add: parse_u64_def Let_def dec_value)

lemma takeWhile_dec: "\<not> is_ascii_digit c \<Longrightarrow> takeWhile is_ascii_digit (dec n @ c # s) = dec n"
  using dec_digits [of n] by (subst takeWhile_append2) (auto simp: list_all_iff)

lemma leading_number_dec: "\<not> is_ascii_digit c \<Longrightarrow> leading_number (dec64 w @ c # s) = Some w"
  by (simp add: leading_number_def takeWhile_dec Let_def)

text \<open>Skipping the digits of a number.\<close>

lemma after_dec:
  assumes "needle \<noteq> []" "\<not> is_ascii_digit (hd needle)"
  shows "after needle (dec n @ s) = after needle s"
proof -
  have "after needle (xs @ s) = after needle s" if "list_all is_ascii_digit xs" for xs
    using that
  proof (induction xs)
    case (Cons x xs)
    then have "take (length needle) (x # xs @ s) \<noteq> needle"
      using assms by (cases needle) auto
    then show ?case
      using Cons by simp
  qed simp
  then show ?thesis
    using dec_digits by blast
qed

end
