(* ===== verification/Fsck.thy ===== *)
theory Fsck
  imports Volume Extent_Chain Decimal
begin

text \<open>
  The structural check of a volume, \<open>corefs-core/src/storage/ondisk/fsck.rs\<close>.  A message is kept up to
  the first value that is not a number (an error, a hexadecimal checksum); the messages that the
  repair pass parses hold numbers only and are complete.  \<open>kinds_seen\<close> only feeds the text of the last,
  informational issue.
\<close>

datatype severity = Info | Warning | Error

record fsck_issue =
  fi_severity :: severity
  fi_code :: string
  fi_message :: string

record fsck_report =
  fk_issues :: "fsck_issue list"
  fk_inodes_checked :: u64
  fk_extents_checked :: u64
  fk_blocks_referenced :: u64

definition fsck_report_default :: fsck_report where
  "fsck_report_default = \<lparr>fk_issues = [], fk_inodes_checked = 0, fk_extents_checked = 0, fk_blocks_referenced = 0\<rparr>"

definition fsck_is_clean :: "fsck_report \<Rightarrow> bool" where
  "fsck_is_clean r \<longleftrightarrow> \<not> list_ex (\<lambda>i. fi_severity i = Error) (fk_issues r)"

definition fsck_count :: "fsck_report \<Rightarrow> severity \<Rightarrow> nat" where
  "fsck_count r sev = length (filter (\<lambda>i. fi_severity i = sev) (fk_issues r))"

definition add_issue :: "severity \<Rightarrow> string \<Rightarrow> string \<Rightarrow> fsck_report \<Rightarrow> fsck_report" where
  "add_issue sev code msg r =
     r\<lparr>fk_issues := fk_issues r @ [\<lparr>fi_severity = sev, fi_code = code, fi_message = msg\<rparr>]\<rparr>"

definition add_issue_if :: "bool \<Rightarrow> severity \<Rightarrow> string \<Rightarrow> string \<Rightarrow> fsck_report \<Rightarrow> fsck_report" where
  "add_issue_if b sev code msg r = (if b then add_issue sev code msg r else r)"

text \<open>A result kept as a value; a panic stays one.\<close>

definition kept :: "'a result \<Rightarrow> 'a option result" where
  "kept r = (case r of Ok x \<Rightarrow> Ok (Some x) | Err _ \<Rightarrow> Ok None | Panic \<Rightarrow> Panic)"

section \<open>The superblock copies\<close>

text \<open>The superblock to go on with, or \<open>None\<close> when the check ends early.\<close>

definition choose_superblock ::
  "superblock option \<Rightarrow> superblock option \<Rightarrow> superblock option \<Rightarrow> fsck_report \<Rightarrow> superblock option \<times> fsck_report" where
  "choose_superblock primary tertiary secondary r =
    (case primary of
       Some sb \<Rightarrow> (Some sb, r)
     | None \<Rightarrow>
         let r = add_issue Error ''ODF.SB.PRIMARY_UNREADABLE'' ''primary superblock: '' r in
         (case (case tertiary of Some t \<Rightarrow> Some t | None \<Rightarrow> secondary) of
            Some fallback \<Rightarrow> (Some fallback, r)
          | None \<Rightarrow> (None, add_issue Error ''ODF.SB.ALL_UNREADABLE'' ''no superblock copy is readable: '' r)))"

definition check_copy :: "superblock \<Rightarrow> string \<Rightarrow> string \<Rightarrow> string \<Rightarrow> string \<Rightarrow> superblock option \<Rightarrow> fsck_report \<Rightarrow> fsck_report" where
  "check_copy sb stale name unreadable message copy r =
    (case copy of
       Some t \<Rightarrow>
         add_issue_if (sb_generation t \<noteq> sb_generation sb) Warning stale
           (name @ '' superblock generation '' @ dec64 (sb_generation t) @ '' differs from primary '' @ dec64 (sb_generation sb)) r
     | None \<Rightarrow> add_issue Warning unreadable message r)"

definition check_copies :: "superblock \<Rightarrow> superblock option \<Rightarrow> superblock option \<Rightarrow> fsck_report \<Rightarrow> fsck_report" where
  "check_copies sb tertiary secondary r =
     check_copy sb ''ODF.SB.SECONDARY_STALE'' ''secondary'' ''ODF.SB.SECONDARY_UNREADABLE''
       ''secondary (tail) superblock is not decodable'' secondary
    (check_copy sb ''ODF.SB.TERTIARY_STALE'' ''tertiary'' ''ODF.SB.TERTIARY_UNREADABLE''
       ''tertiary (middle) superblock is not decodable'' tertiary r)"

section \<open>The bitmaps and the counters\<close>

definition read_region :: "'d device_ops \<Rightarrow> 'd \<Rightarrow> u64 \<Rightarrow> u64 \<Rightarrow> bytes result" where
  "read_region ops d start blocks =
     rbind (umul start BLOCK_SIZE) (\<lambda>off.
     rbind (umul blocks BLOCK_SIZE) (\<lambda>n. op_read_at ops d off n))"

definition check_bitmap_crc :: "u32 \<Rightarrow> bytes \<Rightarrow> string \<Rightarrow> string \<Rightarrow> fsck_report \<Rightarrow> fsck_report" where
  "check_bitmap_crc crc data code message r =
     add_issue_if (crc \<noteq> 0 \<and> crc_hash data \<noteq> crc) Error code message r"

definition check_counters :: "superblock \<Rightarrow> geometry \<Rightarrow> bitmap \<Rightarrow> bitmap \<Rightarrow> fsck_report \<Rightarrow> fsck_report result" where
  "check_counters sb geom block_bitmap inode_bitmap r =
     rbind (count_allocated block_bitmap (g_data_start geom) (g_total_blocks geom)) (\<lambda>allocated.
     rbind (usub (g_data_blocks geom) allocated) (\<lambda>free_data.
     let r = add_issue_if (sb_free_blocks sb \<noteq> free_data) Warning ''ODF.SB.FREE_BLOCKS''
               (''sb.free_blocks='' @ dec64 (sb_free_blocks sb) @ '' but bitmap reports '' @ dec64 free_data @ '' free data blocks'') r in
     rbind (popcount inode_bitmap) (\<lambda>allocated_inodes.
     rbind (usub (g_inode_count geom) allocated_inodes) (\<lambda>free_inodes.
     Ok (add_issue_if (sb_free_inodes sb \<noteq> free_inodes) Warning ''ODF.SB.FREE_INODES''
           (''sb.free_inodes='' @ dec64 (sb_free_inodes sb) @ '' but bitmap reports '' @ dec64 free_inodes @ '' free slots'') r)))))"

section \<open>The walk over the inode slots\<close>

record fsck_walk =
  wk_report :: fsck_report
  wk_owners :: "u64 \<Rightarrow> u64 option"

definition wk_issue :: "bool \<Rightarrow> string \<Rightarrow> string \<Rightarrow> fsck_walk \<Rightarrow> fsck_walk" where
  "wk_issue b code msg w = w\<lparr>wk_report := add_issue_if b Error code msg (wk_report w)\<rparr>"

text \<open>\<open>if let Some(prev) = blocks_owners.insert(b, slot)\<close> and the issue for another owner.\<close>

definition wk_claim :: "u64 \<Rightarrow> u64 \<Rightarrow> (u64 \<Rightarrow> string) \<Rightarrow> fsck_walk \<Rightarrow> fsck_walk" where
  "wk_claim slot b msg w =
    (let prev = wk_owners w b;
         w = w\<lparr>wk_owners := (wk_owners w)(b \<mapsto> slot)\<rparr> in
     case prev of
       Some p \<Rightarrow> wk_issue (p \<noteq> slot) ''ODF.BLOCK.DOUBLE_ALLOCATED'' (msg p) w
     | None \<Rightarrow> w)"

definition check_attr :: "geometry \<Rightarrow> bitmap \<Rightarrow> u64 \<Rightarrow> u64 \<Rightarrow> fsck_walk \<Rightarrow> fsck_walk result" where
  "check_attr geom block_bitmap slot addr w =
    (if addr \<noteq> 0 then
       rbind (if \<not> is_data_block geom addr
              then Ok (wk_issue True ''ODF.INODE.ATTR_OUT_OF_RANGE''
                     (''slot '' @ dec64 slot @ '' attr block '' @ dec64 addr @ '' not inside data region'') w)
              else
                rbind (is_set block_bitmap addr) (\<lambda>set'.
                Ok (wk_issue (\<not> set') ''ODF.INODE.ATTR_UNALLOCATED''
                     (''slot '' @ dec64 slot @ '' attr block '' @ dec64 addr @ '' not marked allocated'') w))) (\<lambda>w.
       Ok (wk_claim slot addr
             (\<lambda>prev. ''attr block '' @ dec64 addr @ '' claimed by both slot '' @ dec64 prev @ '' and slot '' @ dec64 slot) w))
     else Ok w)"

definition wk_count :: "(u64 \<Rightarrow> fsck_report \<Rightarrow> fsck_report) \<Rightarrow> (fsck_report \<Rightarrow> u64) \<Rightarrow> fsck_walk \<Rightarrow> fsck_walk result" where
  "wk_count upd sel w = rbind (uadd (sel (wk_report w)) 1) (\<lambda>n. Ok (w\<lparr>wk_report := upd n (wk_report w)\<rparr>))"

definition check_extent_block :: "geometry \<Rightarrow> bitmap \<Rightarrow> u64 \<Rightarrow> u64 \<Rightarrow> u64 \<Rightarrow> fsck_walk \<Rightarrow> fsck_walk result" where
  "check_extent_block geom block_bitmap slot start i w =
     rbind (uadd start i) (\<lambda>b.
     if \<not> is_data_block geom b
     then Ok (wk_issue True ''ODF.INODE.EXTENT_OUT_OF_RANGE''
            (''slot '' @ dec64 slot @ '' extent block '' @ dec64 b @ '' outside data region'') w)
     else
       rbind (is_set block_bitmap b) (\<lambda>set'.
       let w = wk_issue (\<not> set') ''ODF.INODE.EXTENT_UNALLOCATED''
             (''slot '' @ dec64 slot @ '' extent block '' @ dec64 b @ '' not marked allocated'') w;
           w = wk_claim slot b
             (\<lambda>prev. ''data block '' @ dec64 b @ '' claimed by both slot '' @ dec64 prev @ '' and slot '' @ dec64 slot) w in
       wk_count (\<lambda>n r. r\<lparr>fk_blocks_referenced := n\<rparr>) fk_blocks_referenced w))"

definition check_extent :: "geometry \<Rightarrow> bitmap \<Rightarrow> u64 \<Rightarrow> extent \<Rightarrow> fsck_walk \<Rightarrow> fsck_walk result" where
  "check_extent geom block_bitmap slot e w =
     rbind (wk_count (\<lambda>n r. r\<lparr>fk_extents_checked := n\<rparr>) fk_extents_checked w) (\<lambda>w.
     if ext_length_blocks e = 0 then Ok w
     else rfor (check_extent_block geom block_bitmap slot (ext_physical_block e)) (range64 0 (ucast (ext_length_blocks e))) w)"

text \<open>The record of a slot, with its decoding kept as a value; reading the block may still fail.\<close>

definition slot_record :: "'d device_ops \<Rightarrow> 'd \<Rightarrow> geometry \<Rightarrow> u64 \<Rightarrow> on_disk_inode option result" where
  "slot_record ops d geom slot =
     rbind (inode_record_location geom slot) (\<lambda>(block, offset).
     rbind (umul block BLOCK_SIZE) (\<lambda>off.
     rbind (op_read_at ops d off BLOCK_SIZE) (\<lambda>raw.
     rbind (cut_res (unat offset) INODE_RECORD_SIZE raw) (\<lambda>rec. kept (inode_decode rec)))))"

text \<open>The direct extents, or the ones of the index chain; \<open>None\<close> when the chain is unreadable.\<close>

definition slot_extents :: "'d device_ops \<Rightarrow> 'd \<Rightarrow> on_disk_inode \<Rightarrow> extent list option result" where
  "slot_extents ops d rec =
    (if i_flags rec AND FLAG_HAS_EXTENT_INDEX \<noteq> 0 then kept (read_chain ops d (i_index_block_addr rec))
     else Ok (Some (i_extents rec)))"

definition check_inode :: "'d device_ops \<Rightarrow> 'd \<Rightarrow> geometry \<Rightarrow> bitmap \<Rightarrow> u64 \<Rightarrow> on_disk_inode \<Rightarrow> fsck_walk \<Rightarrow> fsck_walk result" where
  "check_inode ops d geom block_bitmap slot rec w =
    (if i_kind rec = Unused
     then Ok (wk_issue True ''ODF.INODE.UNUSED_BUT_BITMAP_SET''
            (''slot '' @ dec64 slot @ '' marked allocated but record kind = Unused'') w)
     else
       rbind (check_attr geom block_bitmap slot (i_xattr_block_addr rec) w) (\<lambda>w.
       rbind (slot_extents ops d rec) (\<lambda>extents.
       case extents of
         None \<Rightarrow> Ok (wk_issue True ''ODF.INODE.EXTENT_CHAIN'' (''slot '' @ dec64 slot @ '' extent chain unreadable: '') w)
       | Some es \<Rightarrow> rfor (check_extent geom block_bitmap slot) es w)))"

definition check_slot :: "'d device_ops \<Rightarrow> 'd \<Rightarrow> geometry \<Rightarrow> bitmap \<Rightarrow> bitmap \<Rightarrow> u64 \<Rightarrow> fsck_walk \<Rightarrow> fsck_walk result" where
  "check_slot ops d geom block_bitmap inode_bitmap slot w =
     rbind (is_set inode_bitmap slot) (\<lambda>set'.
     if \<not> set' then Ok w
     else
       rbind (wk_count (\<lambda>n r. r\<lparr>fk_inodes_checked := n\<rparr>) fk_inodes_checked w) (\<lambda>w.
       rbind (slot_record ops d geom slot) (\<lambda>rec.
       case rec of
         None \<Rightarrow> Ok (wk_issue True ''ODF.INODE.DECODE'' (''slot '' @ dec64 slot @ '' inode record undecodable: '') w)
       | Some rec \<Rightarrow> check_inode ops d geom block_bitmap slot rec w)))"

section \<open>The check\<close>

definition check_journal :: "'d device_ops \<Rightarrow> 'd \<Rightarrow> superblock \<Rightarrow> geometry \<Rightarrow> fsck_report \<Rightarrow> fsck_report result" where
  "check_journal ops d sb geom r =
    (if g_journal_blocks geom \<ge> 1 then
       rbind (kept (journal_inspect ops d sb)) (\<lambda>hdr.
       Ok (add_issue_if (hdr = None) Warning ''ODF.JOURNAL.HEADER'' ''journal header undecodable: '' r))
     else Ok r)"

text \<open>The check once a superblock is chosen.\<close>

definition check_volume :: "'d device_ops \<Rightarrow> 'd \<Rightarrow> superblock \<Rightarrow> fsck_report \<Rightarrow> fsck_report result" where
  "check_volume ops d sb r =
    (let geom = sb_geometry sb in
     rbind (read_region ops d (g_block_bitmap_start geom) (g_block_bitmap_blocks geom)) (\<lambda>bbm_bytes.
     let r = check_bitmap_crc (sb_block_bitmap_crc sb) bbm_bytes ''ODF.BBM.CRC'' ''block bitmap CRC mismatch (stored=0x'' r in
     rbind (bitmap_from_bytes bbm_bytes (g_total_blocks geom)) (\<lambda>block_bitmap.
     rbind (read_region ops d (g_inode_bitmap_start geom) (g_inode_bitmap_blocks geom)) (\<lambda>ibm_bytes.
     let r = check_bitmap_crc (sb_inode_bitmap_crc sb) ibm_bytes ''ODF.IBM.CRC'' ''inode bitmap CRC mismatch (stored=0x'' r in
     rbind (bitmap_from_bytes ibm_bytes (g_inode_count geom)) (\<lambda>inode_bitmap.
     rbind (check_counters sb geom block_bitmap inode_bitmap r) (\<lambda>r.
     rbind (rfor (check_slot ops d geom block_bitmap inode_bitmap) (range64 0 (g_inode_count geom))
              \<lparr>wk_report = r, wk_owners = (\<lambda>_. None)\<rparr>) (\<lambda>w.
     rbind (check_journal ops d sb geom (wk_report w)) (\<lambda>r.
     Ok (add_issue Info ''ODF.SUMMARY.KINDS'' (dec64 (fk_inodes_checked r) @ '' inode(s) checked: '') r)))))))))"

definition fsck_check :: "'d device_ops \<Rightarrow> 'd \<Rightarrow> fsck_report result" where
  "fsck_check ops d =
     rbind (kept (read_superblock_at ops d PRIMARY_SUPERBLOCK_BLOCK)) (\<lambda>primary.
     let total_blocks_guess = dev_capacity ops d div BLOCK_SIZE in
     rbind (usub total_blocks_guess 1) (\<lambda>secondary_guess.
     rbind (kept (read_superblock_at ops d (total_blocks_guess div 2))) (\<lambda>tertiary.
     rbind (kept (read_superblock_at ops d secondary_guess)) (\<lambda>secondary.
     case choose_superblock primary tertiary secondary fsck_report_default of
       (None, r) \<Rightarrow> Ok r
     | (Some sb, r) \<Rightarrow> check_volume ops d sb (check_copies sb tertiary secondary r)))))"

end
