(* ===== verification/Fsck_Repair.thy ===== *)
theory Fsck_Repair
  imports Fsck Journaled
begin

text \<open>
  The repair pass, \<open>corefs-core/src/storage/ondisk/fsck_repair.rs\<close>: it turns the report of a check into
  changes of the bitmaps and the superblock, which it commits as one journaled save.  The slot and
  block numbers are parsed out of the messages of the report.
\<close>

record repair_report =
  rp_fixed :: "string list"
  rp_unfixable :: "fsck_issue list"
  rp_ops_committed :: nat

definition repair_report_default :: repair_report where
  "repair_report_default = \<lparr>rp_fixed = [], rp_unfixable = [], rp_ops_committed = 0\<rparr>"

section \<open>The numbers in a message\<close>

definition parse_slot_from_message :: "string \<Rightarrow> u64 option" where
  "parse_slot_from_message msg =
    (case after ''slot '' msg of None \<Rightarrow> None | Some rest \<Rightarrow> leading_number rest)"

definition parse_block_from_message :: "string \<Rightarrow> u64 option" where
  "parse_block_from_message msg =
    (let after_slot =
       (case after ''slot '' msg of
          Some rest \<Rightarrow> (case after '' '' rest of Some s \<Rightarrow> s | None \<Rightarrow> rest)
        | None \<Rightarrow> msg) in
     case after ''block '' after_slot of None \<Rightarrow> None | Some rest \<Rightarrow> leading_number rest)"

section \<open>One issue\<close>

record repair_state =
  rs_block_bitmap :: bitmap
  rs_inode_bitmap :: bitmap
  rs_sb :: superblock
  rs_bitmap_touched :: bool
  rs_inode_bitmap_touched :: bool
  rs_sb_touched :: bool
  rs_rewrite_tertiary :: bool
  rs_rewrite_secondary :: bool
  rs_fixed :: "string list"
  rs_unfixable :: "fsck_issue list"

definition rs_fix :: "fsck_issue \<Rightarrow> repair_state \<Rightarrow> repair_state" where
  "rs_fix issue s = s\<lparr>rs_fixed := rs_fixed s @ [fi_code issue]\<rparr>"

definition rs_refuse :: "fsck_issue \<Rightarrow> repair_state \<Rightarrow> repair_state" where
  "rs_refuse issue s = s\<lparr>rs_unfixable := rs_unfixable s @ [issue]\<rparr>"

text \<open>The free data blocks and the free inodes of a bitmap.\<close>

definition recount_free_blocks :: "geometry \<Rightarrow> bitmap \<Rightarrow> u64 result" where
  "recount_free_blocks geom bm = rbind (count_allocated bm (g_data_start geom) (g_total_blocks geom)) (\<lambda>used. usub (g_data_blocks geom) used)"

definition recount_free_inodes :: "geometry \<Rightarrow> bitmap \<Rightarrow> u64 result" where
  "recount_free_inodes geom bm = rbind (popcount bm) (\<lambda>used. usub (g_inode_count geom) used)"

definition clear_slot :: "fsck_issue \<Rightarrow> u64 \<Rightarrow> repair_state \<Rightarrow> repair_state result" where
  "clear_slot issue slot s =
     rbind (unwrap_or (is_set (rs_inode_bitmap s) slot) False) (\<lambda>set'.
     if set' then
       rbind (clocal (cignore (bm_clear slot)) (rs_inode_bitmap s)) (\<lambda>bm.
       Ok (rs_fix issue (s\<lparr>rs_inode_bitmap := bm, rs_inode_bitmap_touched := True\<rparr>)))
     else Ok (rs_refuse issue s))"

definition mark_block :: "geometry \<Rightarrow> fsck_issue \<Rightarrow> u64 \<Rightarrow> repair_state \<Rightarrow> repair_state result" where
  "mark_block geom issue block s =
    (if is_data_block geom block then
       rbind (clocal (cignore (bm_set block)) (rs_block_bitmap s)) (\<lambda>bm.
       Ok (rs_fix issue (s\<lparr>rs_block_bitmap := bm, rs_bitmap_touched := True\<rparr>)))
     else Ok (rs_refuse issue s))"

definition repair_issue :: "geometry \<Rightarrow> bytes \<Rightarrow> bytes \<Rightarrow> fsck_issue \<Rightarrow> repair_state \<Rightarrow> repair_state result" where
  "repair_issue geom bbm_bytes ibm_bytes issue s =
    (let code = fi_code issue in
     if code = ''ODF.SB.TERTIARY_STALE'' \<or> code = ''ODF.SB.TERTIARY_UNREADABLE''
     then Ok (rs_fix issue (s\<lparr>rs_rewrite_tertiary := True\<rparr>))
     else if code = ''ODF.SB.SECONDARY_STALE'' \<or> code = ''ODF.SB.SECONDARY_UNREADABLE''
     then Ok (rs_fix issue (s\<lparr>rs_rewrite_secondary := True\<rparr>))
     else if code = ''ODF.BBM.CRC''
     then Ok (rs_fix issue (s\<lparr>rs_sb := (rs_sb s)\<lparr>sb_block_bitmap_crc := crc_hash bbm_bytes\<rparr>, rs_sb_touched := True\<rparr>))
     else if code = ''ODF.IBM.CRC''
     then Ok (rs_fix issue (s\<lparr>rs_sb := (rs_sb s)\<lparr>sb_inode_bitmap_crc := crc_hash ibm_bytes\<rparr>, rs_sb_touched := True\<rparr>))
     else if code = ''ODF.SB.FREE_BLOCKS''
     then rbind (recount_free_blocks geom (rs_block_bitmap s)) (\<lambda>n.
            Ok (rs_fix issue (s\<lparr>rs_sb := (rs_sb s)\<lparr>sb_free_blocks := n\<rparr>, rs_sb_touched := True\<rparr>)))
     else if code = ''ODF.SB.FREE_INODES''
     then rbind (recount_free_inodes geom (rs_inode_bitmap s)) (\<lambda>n.
            Ok (rs_fix issue (s\<lparr>rs_sb := (rs_sb s)\<lparr>sb_free_inodes := n\<rparr>, rs_sb_touched := True\<rparr>)))
     else if code = ''ODF.INODE.UNUSED_BUT_BITMAP_SET''
     then (case parse_slot_from_message (fi_message issue) of
             Some slot \<Rightarrow> clear_slot issue slot s
           | None \<Rightarrow> Ok (rs_refuse issue s))
     else if code = ''ODF.INODE.EXTENT_UNALLOCATED'' \<or> code = ''ODF.INODE.ATTR_UNALLOCATED''
     then (case parse_block_from_message (fi_message issue) of
             Some block \<Rightarrow> mark_block geom issue block s
           | None \<Rightarrow> Ok (rs_refuse issue s))
     else Ok (rs_refuse issue s))"

section \<open>The pass\<close>

text \<open>The checksums and counters of bitmaps that were changed, and the new generation.\<close>

definition settle_bitmaps :: "geometry \<Rightarrow> repair_state \<Rightarrow> repair_state result" where
  "settle_bitmaps geom s =
     rbind (if rs_bitmap_touched s then
              rbind (recount_free_blocks geom (rs_block_bitmap s)) (\<lambda>n.
              Ok (s\<lparr>rs_sb := (rs_sb s)\<lparr>sb_block_bitmap_crc := crc_hash (bm_bits (rs_block_bitmap s)), sb_free_blocks := n\<rparr>,
                    rs_sb_touched := True\<rparr>))
            else Ok s) (\<lambda>s.
       if rs_inode_bitmap_touched s then
         rbind (recount_free_inodes geom (rs_inode_bitmap s)) (\<lambda>n.
         Ok (s\<lparr>rs_sb := (rs_sb s)\<lparr>sb_inode_bitmap_crc := crc_hash (bm_bits (rs_inode_bitmap s)), sb_free_inodes := n\<rparr>,
               rs_sb_touched := True\<rparr>))
       else Ok s)"

definition stage_bitmap_writes :: "u64 \<Rightarrow> bytes \<Rightarrow> ('d save_session, unit) cmd" where
  "stage_bitmap_writes start_block bs =
     cthen (clift (if (of_nat (length bs) :: u64) mod BLOCK_SIZE \<noteq> 0 then Panic else Ok ()))
       (cfor (\<lambda>i.
          cbind (clift (umul i BLOCK_SIZE)) (\<lambda>off.
          cbind (clift (cut_res (unat off) (unat BLOCK_SIZE) bs)) (\<lambda>slice.
          cbind (clift (uadd start_block i)) (\<lambda>b.
            js_stage_metadata_block b slice))))
        (range64 0 (of_nat (length bs) div BLOCK_SIZE)))"

definition stage_repair :: "geometry \<Rightarrow> repair_state \<Rightarrow> ('d save_session, unit) cmd" where
  "stage_repair geom s =
     cthen (if rs_bitmap_touched s then stage_bitmap_writes (g_block_bitmap_start geom) (bm_bits (rs_block_bitmap s)) else cret ())
    (cthen (if rs_inode_bitmap_touched s then stage_bitmap_writes (g_inode_bitmap_start geom) (bm_bits (rs_inode_bitmap s)) else cret ())
    (cbind (clift (sb_encode_block (rs_sb s))) (\<lambda>sb_block.
     cthen (js_stage_metadata_block PRIMARY_SUPERBLOCK_BLOCK sb_block)
    (cthen (js_stage_metadata_block (g_tertiary_superblock_block geom) sb_block)
       (js_stage_metadata_block (g_secondary_superblock_block geom) sb_block)))))"

text \<open>A save session opened on the device, staged by \<open>m\<close> and committed; an error while staging drops it.\<close>

definition journaled_save :: "'d device_ops \<Rightarrow> ('d save_session, unit) cmd \<Rightarrow> ('d, nat \<times> journaled_report) cmd" where
  "journaled_save ops m d =
    (case js_open ops d of
       Ok sess \<Rightarrow>
         (case m sess of
            (Ok _, sess) \<Rightarrow>
              (case js_commit ops sess of
                 (Ok commit, d') \<Rightarrow> (Ok (js_staged_ops sess, commit), d')
               | (Err e, d') \<Rightarrow> (Err e, d')
               | (Panic, d') \<Rightarrow> (Panic, d'))
          | (Err e, sess) \<Rightarrow> (Err e, js_device sess)
          | (Panic, sess) \<Rightarrow> (Panic, js_device sess))
     | Err e \<Rightarrow> (Err e, d)
     | Panic \<Rightarrow> (Panic, d))"

definition repair_start :: "superblock \<Rightarrow> bitmap \<Rightarrow> bitmap \<Rightarrow> repair_state" where
  "repair_start sb block_bitmap inode_bitmap =
    \<lparr>rs_block_bitmap = block_bitmap, rs_inode_bitmap = inode_bitmap, rs_sb = sb, rs_bitmap_touched = False,
     rs_inode_bitmap_touched = False, rs_sb_touched = False, rs_rewrite_tertiary = False,
     rs_rewrite_secondary = False, rs_fixed = [], rs_unfixable = []\<rparr>"

definition actionable :: "fsck_report \<Rightarrow> fsck_issue list" where
  "actionable report = filter (\<lambda>i. fi_severity i = Error \<or> fi_severity i = Warning) (fk_issues report)"

text \<open>What the pass decides to do, before anything is written.\<close>

definition repair_plan :: "'d device_ops \<Rightarrow> fsck_report \<Rightarrow> 'd \<Rightarrow> (geometry \<times> repair_state) result" where
  "repair_plan ops report d =
     rbind (read_sb_with_fallbacks ops d) (\<lambda>sb.
     let geom = sb_geometry sb in
     rbind (read_region ops d (g_block_bitmap_start geom) (g_block_bitmap_blocks geom)) (\<lambda>bbm_bytes.
     rbind (read_region ops d (g_inode_bitmap_start geom) (g_inode_bitmap_blocks geom)) (\<lambda>ibm_bytes.
     rbind (bitmap_from_bytes bbm_bytes (g_total_blocks geom)) (\<lambda>block_bitmap.
     rbind (bitmap_from_bytes ibm_bytes (g_inode_count geom)) (\<lambda>inode_bitmap.
     rbind (rfor (repair_issue geom bbm_bytes ibm_bytes) (actionable report) (repair_start sb block_bitmap inode_bitmap)) (\<lambda>s.
     rbind (settle_bitmaps geom s) (\<lambda>s. Ok (geom, s))))))))"

definition repaired_sb :: "u64 \<Rightarrow> superblock \<Rightarrow> superblock" where
  "repaired_sb now sb = sb\<lparr>sb_generation := sat_add (sb_generation sb) 1, sb_last_write_at := now\<rparr>"

definition repair :: "'d device_ops \<Rightarrow> u64 \<Rightarrow> fsck_report \<Rightarrow> ('d, repair_report) cmd" where
  "repair ops now report =
    (if actionable report = [] then cret repair_report_default
     else
       cbind (cread (repair_plan ops report)) (\<lambda>(geom, s).
       if \<not> rs_bitmap_touched s \<and> \<not> rs_inode_bitmap_touched s \<and> \<not> rs_sb_touched s
          \<and> \<not> rs_rewrite_tertiary s \<and> \<not> rs_rewrite_secondary s
       then cret \<lparr>rp_fixed = rs_fixed s, rp_unfixable = rs_unfixable s, rp_ops_committed = 0\<rparr>
       else
         cbind (journaled_save ops (stage_repair geom (s\<lparr>rs_sb := repaired_sb now (rs_sb s)\<rparr>))) (\<lambda>(staged, commit).
         cret \<lparr>rp_fixed = rs_fixed s, rp_unfixable = rs_unfixable s,
               rp_ops_committed = max staged (jr_ops_applied commit)\<rparr>)))"

end
