(* ===== verification/Fsck_Sound.thy ===== *)
theory Fsck_Sound
  imports Fsck
begin

text \<open>
  What a check without errors means: \<open>consistent_volume\<close>, and the proof that the walk finds exactly
  the violations of it.
\<close>

section \<open>Consistency\<close>

definition extent_blocks :: "extent \<Rightarrow> u64 set" where
  "extent_blocks e = {b. unat (ext_physical_block e) \<le> unat b
     \<and> unat b < unat (ext_physical_block e) + unat (ext_length_blocks e)}"

text \<open>The blocks an inode holds: its attribute block and its extents.\<close>

definition claimed :: "on_disk_inode \<Rightarrow> extent list \<Rightarrow> u64 set" where
  "claimed rec es = (if i_xattr_block_addr rec = 0 then {} else {i_xattr_block_addr rec}) \<union> (\<Union>e \<in> set es. extent_blocks e)"

definition slot_holds :: "'d device_ops \<Rightarrow> 'd \<Rightarrow> geometry \<Rightarrow> u64 \<Rightarrow> u64 set \<Rightarrow> bool" where
  "slot_holds ops d geom slot B \<longleftrightarrow> (\<exists>rec es. slot_record ops d geom slot = Ok (Some rec) \<and> i_kind rec \<noteq> Unused
     \<and> slot_extents ops d rec = Ok (Some es) \<and> B = claimed rec es)"

definition block_in_use :: "geometry \<Rightarrow> bitmap \<Rightarrow> u64 \<Rightarrow> bool" where
  "block_in_use geom bm b \<longleftrightarrow> is_data_block geom b \<and> is_set bm b = Ok True"

definition allocated_slots :: "geometry \<Rightarrow> bitmap \<Rightarrow> u64 set" where
  "allocated_slots geom ibm = {s. s < g_inode_count geom \<and> is_set ibm s = Ok True}"

definition slot_in_order :: "'d device_ops \<Rightarrow> 'd \<Rightarrow> geometry \<Rightarrow> bitmap \<Rightarrow> u64 \<Rightarrow> bool" where
  "slot_in_order ops d geom bm s \<longleftrightarrow> (\<exists>B. slot_holds ops d geom s B \<and> (\<forall>b \<in> B. block_in_use geom bm b))"

definition consistent_slots :: "'d device_ops \<Rightarrow> 'd \<Rightarrow> geometry \<Rightarrow> bitmap \<Rightarrow> u64 set \<Rightarrow> bool" where
  "consistent_slots ops d geom bm S \<longleftrightarrow> (\<forall>s \<in> S. slot_in_order ops d geom bm s)
     \<and> (\<forall>s \<in> S. \<forall>t \<in> S. s \<noteq> t \<longrightarrow> (\<forall>B C. slot_holds ops d geom s B \<longrightarrow> slot_holds ops d geom t C \<longrightarrow> B \<inter> C = {}))"

definition consistent_volume :: "'d device_ops \<Rightarrow> 'd \<Rightarrow> bool" where
  "consistent_volume ops d \<longleftrightarrow> (\<exists>sb bbm_bytes ibm_bytes bbm ibm. let geom = sb_geometry sb in
     read_superblock_at ops d PRIMARY_SUPERBLOCK_BLOCK = Ok sb
     \<and> read_region ops d (g_block_bitmap_start geom) (g_block_bitmap_blocks geom) = Ok bbm_bytes
     \<and> read_region ops d (g_inode_bitmap_start geom) (g_inode_bitmap_blocks geom) = Ok ibm_bytes
     \<and> (sb_block_bitmap_crc sb \<noteq> 0 \<longrightarrow> crc_hash bbm_bytes = sb_block_bitmap_crc sb)
     \<and> (sb_inode_bitmap_crc sb \<noteq> 0 \<longrightarrow> crc_hash ibm_bytes = sb_inode_bitmap_crc sb)
     \<and> bitmap_from_bytes bbm_bytes (g_total_blocks geom) = Ok bbm
     \<and> bitmap_from_bytes ibm_bytes (g_inode_count geom) = Ok ibm
     \<and> consistent_slots ops d geom bbm (allocated_slots geom ibm))"

lemma slot_holds_unique: "slot_holds ops d geom s B \<Longrightarrow> slot_holds ops d geom s C \<Longrightarrow> B = C"
  by (auto simp: slot_holds_def)

section \<open>Issues only accumulate\<close>

named_theorems fsck_clean \<open>what keeps a report free of errors\<close>

lemma clean_add [fsck_clean]: "fsck_is_clean (add_issue sev code msg r) \<longleftrightarrow> fsck_is_clean r \<and> sev \<noteq> Error"
  by (auto simp: fsck_is_clean_def add_issue_def)

lemma clean_add_if [fsck_clean]: "fsck_is_clean (add_issue_if b sev code msg r) \<longleftrightarrow> fsck_is_clean r \<and> (b \<longrightarrow> sev \<noteq> Error)"
  by (simp add: add_issue_if_def fsck_clean)

lemma clean_fields [fsck_clean]:
  "fsck_is_clean (r\<lparr>fk_inodes_checked := n\<rparr>) = fsck_is_clean r"
  "fsck_is_clean (r\<lparr>fk_extents_checked := n\<rparr>) = fsck_is_clean r"
  "fsck_is_clean (r\<lparr>fk_blocks_referenced := n\<rparr>) = fsck_is_clean r"
  "fsck_is_clean fsck_report_default"
  by (simp_all add: fsck_is_clean_def fsck_report_default_def)

abbreviation wk_clean :: "fsck_walk \<Rightarrow> bool" where
  "wk_clean w \<equiv> fsck_is_clean (wk_report w)"

text \<open>
  A step of the walk with the claims \<open>B\<close> of slot \<open>s\<close>, which are in order iff \<open>g\<close>: an error-free result
  comes from an error-free state, has the claims of the slot and keeps the other ones; and the step
  adds no error when the claims are in order and nobody else owns them.
\<close>

definition walk_step :: "bool \<Rightarrow> u64 \<Rightarrow> u64 set \<Rightarrow> fsck_walk \<Rightarrow> fsck_walk \<Rightarrow> bool" where
  "walk_step g s B w w' \<longleftrightarrow>
     (\<forall>b. wk_owners w' b = (if b \<in> B then Some s else wk_owners w b))
     \<and> (wk_clean w' \<longleftrightarrow> wk_clean w \<and> g \<and> (\<forall>b \<in> B. \<forall>p. wk_owners w b = Some p \<longrightarrow> p = s))"

lemma walk_step_refl: "walk_step True s {} w w"
  by (simp add: walk_step_def)

lemma walk_step_trans:
  "walk_step g s A w u \<Longrightarrow> walk_step h s B u w' \<Longrightarrow> walk_step (g \<and> h) s (A \<union> B) w w'"
  unfolding walk_step_def by (auto split: if_splits)

lemma walk_rfor:
  assumes "rfor body is w = Ok w'"
    and "\<And>i w w'. i \<in> set is \<Longrightarrow> body i w = Ok w' \<Longrightarrow> walk_step (g i) s (B i) w w'"
  shows "walk_step (\<forall>i \<in> set is. g i) s (\<Union>i \<in> set is. B i) w w'"
  using assms
proof (induction "is" arbitrary: w)
  case Nil
  then show ?case by (simp add: walk_step_refl)
next
  case (Cons i "is")
  then obtain u where u: "body i w = Ok u" "rfor body is u = Ok w'"
    by (auto simp: result_iff)
  have "walk_step (g i) s (B i) w u"
    using Cons.prems(2) u(1) by simp
  moreover have "walk_step (\<forall>i \<in> set is. g i) s (\<Union>i \<in> set is. B i) u w'"
    using Cons.prems(2) by (intro Cons.IH [OF u(2)]) simp
  ultimately show ?case
    using walk_step_trans by fastforce
qed

text \<open>Every turn of a loop that returned has returned.\<close>

lemma rfor_member:
  assumes "i \<in> set is" "rfor body is w = Ok w'" "\<And>i w w'. body i w = Ok w' \<Longrightarrow> Q i"
  shows "Q i"
  using assms(1,2) by (induction "is" arbitrary: w) (auto simp: result_iff intro: assms(3))

lemma wk_count_sel:
  assumes "wk_count upd sel w = Ok w'" "\<And>n r. fsck_is_clean (upd n r) = fsck_is_clean r"
  shows "walk_step True s {} w w'"
  using assms by (auto simp: wk_count_def result_iff walk_step_def)

lemma wk_issue_step: "walk_step (\<not> b) s {} w (wk_issue b code msg w)"
  by (auto simp: wk_issue_def walk_step_def fsck_clean)

lemma wk_issue_fails: "wk_issue True code msg w = w' \<Longrightarrow> walk_step False s {} w w'"
  using wk_issue_step [of True] by auto

lemma wk_claim_step: "walk_step True s {b} w (wk_claim s b msg w)"
  by (auto simp: wk_claim_def Let_def wk_issue_def walk_step_def fsck_clean split: option.split)

section \<open>One slot\<close>

lemma check_extent_block_step:
  assumes "check_extent_block geom bm s start i w = Ok w'"
  shows "unat start + unat i < 2 ^ 64"
    "walk_step (block_in_use geom bm (start + i)) s (if is_data_block geom (start + i) then {start + i} else {}) w w'"
proof -
  show lt: "unat start + unat i < 2 ^ 64"
    using assms by (auto simp: check_extent_block_def result_iff)
  then have b: "uadd start i = Ok (start + i)"
    by (simp add: uadd_def)
  show "walk_step (block_in_use geom bm (start + i)) s (if is_data_block geom (start + i) then {start + i} else {}) w w'"
  proof (cases "is_data_block geom (start + i)")
    case False
    then have "w' = wk_issue True ''ODF.INODE.EXTENT_OUT_OF_RANGE''
            (''slot '' @ dec64 s @ '' extent block '' @ dec64 (start + i) @ '' outside data region'') w"
      using assms by (simp add: check_extent_block_def b)
    then show ?thesis
      using wk_issue_step [of True] False by (simp add: block_in_use_def)
  next
    case True
    then obtain x where x: "is_set bm (start + i) = Ok x"
      using assms by (auto simp: check_extent_block_def b result_iff)
    define u where "u = wk_issue (\<not> x) ''ODF.INODE.EXTENT_UNALLOCATED''
             (''slot '' @ dec64 s @ '' extent block '' @ dec64 (start + i) @ '' not marked allocated'') w"
    define v where "v = wk_claim s (start + i)
             (\<lambda>prev. ''data block '' @ dec64 (start + i) @ '' claimed by both slot '' @ dec64 prev @ '' and slot '' @ dec64 s) u"
    have "wk_count (\<lambda>n r. r\<lparr>fk_blocks_referenced := n\<rparr>) fk_blocks_referenced v = Ok w'"
      using assms True x by (simp add: check_extent_block_def b Let_def u_def v_def)
    then have count: "walk_step True s {} v w'"
      by (rule wk_count_sel) (simp add: fsck_clean)
    have claim: "walk_step (\<not> \<not> x) s {} w u" "walk_step True s {start + i} u v"
      unfolding u_def v_def by (rule wk_issue_step wk_claim_step)+
    show ?thesis
      using walk_step_trans [OF walk_step_trans [OF claim] count] True x by (simp add: block_in_use_def)
  qed
qed

lemma extent_blocks_range:
  assumes "unat (ext_physical_block e) + unat (ext_length_blocks e) \<le> 2 ^ 64"
  shows "(\<lambda>i. ext_physical_block e + i) ` set (range64 0 (ucast (ext_length_blocks e))) = extent_blocks e"
proof (intro equalityI subsetI)
  fix b assume "b \<in> (\<lambda>i. ext_physical_block e + i) ` set (range64 0 (ucast (ext_length_blocks e)))"
  then obtain i where i: "b = ext_physical_block e + i" "i < ucast (ext_length_blocks e)"
    by (auto simp: set_range64)
  have l: "unat i < unat (ext_length_blocks e)"
    using i(2) by (simp add: word_less_nat_alt unat_ucast_u32)
  then have "unat b = unat (ext_physical_block e) + unat i"
    unfolding i(1) using assms by (intro unat_add_ok) simp
  then show "b \<in> extent_blocks e"
    using l by (simp add: extent_blocks_def)
next
  fix b assume b: "b \<in> extent_blocks e"
  let ?i = "b - ext_physical_block e"
  have "unat ?i = unat b - unat (ext_physical_block e)"
    using b by (intro unat_sub_ok) (simp add: extent_blocks_def word_le_nat_alt)
  then have "?i < ucast (ext_length_blocks e)"
    using b by (auto simp: extent_blocks_def word_less_nat_alt unat_ucast_u32)
  then show "b \<in> (\<lambda>i. ext_physical_block e + i) ` set (range64 0 (ucast (ext_length_blocks e)))"
    by (intro image_eqI [of _ _ ?i]) (simp_all add: set_range64)
qed

lemma extent_in_bounds:
  assumes "rfor (check_extent_block geom bm s (ext_physical_block e)) (range64 0 (ucast (ext_length_blocks e))) u = Ok w'"
    and "ext_length_blocks e \<noteq> 0"
  shows "unat (ext_physical_block e) + unat (ext_length_blocks e) \<le> 2 ^ 64"
proof -
  have l: "unat (ucast (ext_length_blocks e) - 1 :: u64) = unat (ext_length_blocks e) - 1"
    using assms(2) by (simp add: unat_sub_ok unat_ucast_u32 word_le_nat_alt unat_gt_0 Suc_le_eq)
  have "ucast (ext_length_blocks e) - 1 \<in> set (range64 0 (ucast (ext_length_blocks e)))"
    using assms(2) l by (simp add: set_range64 word_less_nat_alt unat_ucast_u32 unat_gt_0)
  then have "unat (ext_physical_block e) + unat (ucast (ext_length_blocks e) - 1 :: u64) < 2 ^ 64"
    using assms(1) check_extent_block_step(1) by (rule rfor_member)
  then show ?thesis
    unfolding l by simp
qed

lemma check_extent_step:
  assumes "check_extent geom bm s e w = Ok w'"
  shows "walk_step (\<forall>b \<in> extent_blocks e. block_in_use geom bm b) s {b \<in> extent_blocks e. is_data_block geom b} w w'"
proof -
  obtain u where u: "wk_count (\<lambda>n r. r\<lparr>fk_extents_checked := n\<rparr>) fk_extents_checked w = Ok u"
      "(if ext_length_blocks e = 0 then Ok u
        else rfor (check_extent_block geom bm s (ext_physical_block e)) (range64 0 (ucast (ext_length_blocks e))) u) = Ok w'"
    using assms by (auto simp: check_extent_def result_iff)
  have wu: "walk_step True s {} w u"
    using u(1) by (rule wk_count_sel) (simp add: fsck_clean)
  show ?thesis
  proof (cases "ext_length_blocks e = 0")
    case True
    then have "extent_blocks e = {}"
      by (auto simp: extent_blocks_def)
    then show ?thesis
      using wu u(2) True by simp
  next
    case False
    let ?R = "range64 0 (ucast (ext_length_blocks e))" and ?p = "ext_physical_block e"
    have run: "rfor (check_extent_block geom bm s ?p) ?R u = Ok w'"
      using u(2) False by simp
    have im: "(\<lambda>i. ?p + i) ` set ?R = extent_blocks e"
      using extent_in_bounds [OF run False] by (rule extent_blocks_range)
    have "walk_step (\<forall>i \<in> set ?R. block_in_use geom bm (?p + i)) s
        (\<Union>i \<in> set ?R. if is_data_block geom (?p + i) then {?p + i} else {}) u w'"
      using run by (rule walk_rfor) (rule check_extent_block_step(2))
    moreover have "(\<forall>i \<in> set ?R. block_in_use geom bm (?p + i)) \<longleftrightarrow> (\<forall>b \<in> extent_blocks e. block_in_use geom bm b)"
      unfolding im [symmetric] by blast
    moreover have "(\<Union>i \<in> set ?R. if is_data_block geom (?p + i) then {?p + i} else {}) = {b \<in> extent_blocks e. is_data_block geom b}"
      unfolding im [symmetric] by auto
    ultimately have "walk_step (\<forall>b \<in> extent_blocks e. block_in_use geom bm b) s {b \<in> extent_blocks e. is_data_block geom b} u w'"
      by simp
    from walk_step_trans [OF wu this] show ?thesis
      by simp
  qed
qed

lemma check_attr_step:
  assumes "check_attr geom bm s addr w = Ok w'"
  shows "walk_step (addr = 0 \<or> block_in_use geom bm addr) s (if addr = 0 then {} else {addr}) w w'"
proof (cases "addr = 0")
  case True
  then show ?thesis
    using assms by (simp add: check_attr_def walk_step_refl)
next
  case False
  let ?msg = "\<lambda>prev. ''attr block '' @ dec64 addr @ '' claimed by both slot '' @ dec64 prev @ '' and slot '' @ dec64 s"
  obtain u g where u: "walk_step g s {} w u" "g \<longleftrightarrow> block_in_use geom bm addr" "w' = wk_claim s addr ?msg u"
  proof (cases "is_data_block geom addr")
    case True
    then obtain x where x: "is_set bm addr = Ok x"
      using assms False by (auto simp: check_attr_def result_iff)
    have "walk_step (\<not> \<not> x) s {} w (wk_issue (\<not> x) ''ODF.INODE.ATTR_UNALLOCATED''
        (''slot '' @ dec64 s @ '' attr block '' @ dec64 addr @ '' not marked allocated'') w)"
      by (rule wk_issue_step)
    then show ?thesis
      using that assms False True x by (simp add: check_attr_def block_in_use_def)
  next
    case out: False
    have "walk_step (\<not> True) s {} w (wk_issue True ''ODF.INODE.ATTR_OUT_OF_RANGE''
        (''slot '' @ dec64 s @ '' attr block '' @ dec64 addr @ '' not inside data region'') w)"
      by (rule wk_issue_step)
    then show ?thesis
      using that assms False out by (simp add: check_attr_def block_in_use_def)
  qed
  have "walk_step True s {addr} u w'"
    unfolding u(3) by (rule wk_claim_step)
  from walk_step_trans [OF u(1) this] show ?thesis
    using False u(2) by simp
qed

text \<open>The owners a slot enters: its attribute block and the blocks of its extents in the data region.\<close>

definition entered :: "geometry \<Rightarrow> on_disk_inode \<Rightarrow> extent list \<Rightarrow> u64 set" where
  "entered geom rec es = {b \<in> claimed rec es. b = i_xattr_block_addr rec \<and> b \<noteq> 0 \<or> is_data_block geom b}"

lemma check_inode_step:
  assumes "check_inode ops d geom bm s rec w = Ok w'"
  shows "\<exists>g B. walk_step g s B w w' \<and> (g \<longleftrightarrow> i_kind rec \<noteq> Unused \<and> (\<exists>es. slot_extents ops d rec = Ok (Some es)
      \<and> (\<forall>b \<in> claimed rec es. block_in_use geom bm b)))
    \<and> (\<forall>es. g \<longrightarrow> slot_extents ops d rec = Ok (Some es) \<longrightarrow> B = entered geom rec es)"
proof (cases "i_kind rec = Unused")
  case True
  have "walk_step (\<not> True) s {} w (wk_issue True ''ODF.INODE.UNUSED_BUT_BITMAP_SET''
        (''slot '' @ dec64 s @ '' marked allocated but record kind = Unused'') w)"
    by (rule wk_issue_step)
  then show ?thesis
    using assms True by (intro exI [of _ False] exI [of _ "{}"]) (simp add: check_inode_def)
next
  case False
  let ?a = "i_xattr_block_addr rec"
  obtain u ext where u: "check_attr geom bm s ?a w = Ok u" "slot_extents ops d rec = Ok ext"
      "(case ext of
         None \<Rightarrow> Ok (wk_issue True ''ODF.INODE.EXTENT_CHAIN'' (''slot '' @ dec64 s @ '' extent chain unreadable: '') u)
       | Some es \<Rightarrow> rfor (check_extent geom bm s) es u) = Ok w'"
    using assms False unfolding check_inode_def by (simp only: if_False rbind_Ok_iff) blast
  note attr = check_attr_step [OF u(1)]
  show ?thesis
  proof (cases ext)
    case None
    have "walk_step False s {} u w'"
      using u(3) None by (auto intro: wk_issue_fails)
    from walk_step_trans [OF attr this] show ?thesis
      using None u(2) by (intro exI [of _ False] exI [of _ "if ?a = 0 then {} else {?a}"]) simp
  next
    case (Some es)
    have "walk_step (\<forall>e \<in> set es. \<forall>b \<in> extent_blocks e. block_in_use geom bm b) s
        (\<Union>e \<in> set es. {b \<in> extent_blocks e. is_data_block geom b}) u w'"
      using u(3) Some by (intro walk_rfor [of "check_extent geom bm s"] check_extent_step) simp_all
    note both = walk_step_trans [OF attr this]
    have g: "((?a = 0 \<or> block_in_use geom bm ?a) \<and> (\<forall>e \<in> set es. \<forall>b \<in> extent_blocks e. block_in_use geom bm b))
        \<longleftrightarrow> (\<forall>b \<in> claimed rec es. block_in_use geom bm b)"
      by (auto simp: claimed_def)
    have B: "(if ?a = 0 then {} else {?a}) \<union> (\<Union>e \<in> set es. {b \<in> extent_blocks e. is_data_block geom b}) = entered geom rec es"
      by (auto simp: entered_def claimed_def)
    show ?thesis
      using both [unfolded g B] False u(2) Some
      by (intro exI [of _ "\<forall>b \<in> claimed rec es. block_in_use geom bm b"] exI [of _ "entered geom rec es"]) simp
  qed
qed

lemma check_slot_step:
  assumes "check_slot ops d geom bm ibm s w = Ok w'"
  shows "\<exists>g B. walk_step g s B w w' \<and> (g \<longleftrightarrow> (is_set ibm s = Ok True \<longrightarrow> slot_in_order ops d geom bm s))
    \<and> (g \<longrightarrow> (if is_set ibm s = Ok True then slot_holds ops d geom s B else B = {}))"
proof -
  obtain x where x: "is_set ibm s = Ok x"
    using assms by (auto simp: check_slot_def result_iff)
  show ?thesis
  proof (cases x)
    case False
    then show ?thesis
      using assms x walk_step_refl by (intro exI [of _ True] exI [of _ "{}"]) (simp add: check_slot_def)
  next
    case True
    obtain u r where u: "wk_count (\<lambda>n r. r\<lparr>fk_inodes_checked := n\<rparr>) fk_inodes_checked w = Ok u"
        "slot_record ops d geom s = Ok r"
        "(case r of
           None \<Rightarrow> Ok (wk_issue True ''ODF.INODE.DECODE'' (''slot '' @ dec64 s @ '' inode record undecodable: '') u)
         | Some rec \<Rightarrow> check_inode ops d geom bm s rec u) = Ok w'"
      using assms x True unfolding check_slot_def by (simp only: rbind.simps not_True_eq_False if_False rbind_Ok_iff) blast
    have wu: "walk_step True s {} w u"
      using u(1) by (rule wk_count_sel) (simp add: fsck_clean)
    show ?thesis
    proof (cases r)
      case None
      have "walk_step False s {} u w'"
        using u(3) None by (auto intro: wk_issue_fails)
      from walk_step_trans [OF wu this] show ?thesis
        using None u(2) x True by (intro exI [of _ False] exI [of _ "{}"]) (simp add: slot_in_order_def slot_holds_def)
    next
      case (Some rec)
      have "check_inode ops d geom bm s rec u = Ok w'"
        using u(3) Some by simp
      from check_inode_step [OF this]
      obtain g B where B: "walk_step g s B u w'" "g \<longleftrightarrow> i_kind rec \<noteq> Unused \<and> (\<exists>es. slot_extents ops d rec = Ok (Some es)
          \<and> (\<forall>b \<in> claimed rec es. block_in_use geom bm b))" "\<And>es. g \<Longrightarrow> slot_extents ops d rec = Ok (Some es) \<Longrightarrow> B = entered geom rec es"
        by (elim exE conjE) (rule that, assumption, assumption, blast)
      have whole: "entered geom rec es = claimed rec es" if "\<forall>b \<in> claimed rec es. block_in_use geom bm b" for es
        using that by (auto simp: entered_def block_in_use_def)
      have hold: "slot_holds ops d geom s C \<longleftrightarrow> i_kind rec \<noteq> Unused
          \<and> (\<exists>es. slot_extents ops d rec = Ok (Some es) \<and> C = claimed rec es)" for C
        using u(2) Some by (auto simp: slot_holds_def)
      have "g \<longleftrightarrow> slot_in_order ops d geom bm s"
        unfolding slot_in_order_def hold using B(2) by auto
      moreover have "g \<longrightarrow> slot_holds ops d geom s B"
        unfolding hold using B(2,3) whole by metis
      ultimately show ?thesis
        using walk_step_trans [OF wu B(1)] x True by (intro exI [of _ g] exI [of _ B]) simp
    qed
  qed
qed

section \<open>The whole walk\<close>

lemma consistent_insert:
  assumes "s \<notin> S"
  shows "consistent_slots ops d geom bm (insert s S) \<longleftrightarrow> consistent_slots ops d geom bm S
    \<and> (\<exists>B. slot_holds ops d geom s B \<and> (\<forall>b \<in> B. block_in_use geom bm b)
        \<and> (\<forall>t \<in> S. \<forall>C. slot_holds ops d geom t C \<longrightarrow> B \<inter> C = {}))"
  (is "?L \<longleftrightarrow> ?R")
proof
  assume L: ?L
  then obtain B where "slot_holds ops d geom s B" "\<forall>b \<in> B. block_in_use geom bm b"
    by (auto simp: consistent_slots_def slot_in_order_def)
  moreover have "\<forall>t \<in> S. \<forall>C. slot_holds ops d geom t C \<longrightarrow> B \<inter> C = {}"
    using L assms calculation(1) unfolding consistent_slots_def by (metis insert_iff)
  ultimately show ?R
    using L unfolding consistent_slots_def by blast
next
  assume R: ?R
  then obtain B where B: "slot_holds ops d geom s B" "\<forall>b \<in> B. block_in_use geom bm b"
      "\<forall>t \<in> S. \<forall>C. slot_holds ops d geom t C \<longrightarrow> B \<inter> C = {}"
    by blast
  have apart: "B \<inter> C = {}" "C \<inter> B = {}" if "t \<in> S" "slot_holds ops d geom t C" for t C
    using B(3) that by blast+
  have only: "B' = B" if "slot_holds ops d geom s B'" for B'
    using slot_holds_unique [OF that B(1)] .
  have "slot_in_order ops d geom bm s"
    using B(1,2) by (auto simp: slot_in_order_def)
  moreover have old: "\<forall>t \<in> S. slot_in_order ops d geom bm t" "\<And>t t' C C'. t \<in> S \<Longrightarrow> t' \<in> S \<Longrightarrow> t \<noteq> t' \<Longrightarrow>
      slot_holds ops d geom t C \<Longrightarrow> slot_holds ops d geom t' C' \<Longrightarrow> C \<inter> C' = {}"
    using R unfolding consistent_slots_def by blast+
  moreover have "C \<inter> C' = {}" if "t \<in> insert s S" "t' \<in> insert s S" "t \<noteq> t'" "slot_holds ops d geom t C" "slot_holds ops d geom t' C'" for t t' C C'
  proof (cases "t = s")
    case True
    then show ?thesis
      using that only [of C] apart(1) [of t' C'] by auto
  next
    case False
    then show ?thesis
      using that only [of C'] apart(2) [of t C] old(2) [of t t' C C'] by (cases "t' = s") auto
  qed
  ultimately show ?L
    unfolding consistent_slots_def by (intro conjI ballI impI allI) auto
qed

definition owners_of :: "'d device_ops \<Rightarrow> 'd \<Rightarrow> geometry \<Rightarrow> u64 set \<Rightarrow> (u64 \<Rightarrow> u64 option) \<Rightarrow> bool" where
  "owners_of ops d geom S m \<longleftrightarrow> (\<forall>b s. m b = Some s \<longleftrightarrow> s \<in> S \<and> (\<exists>B. slot_holds ops d geom s B \<and> b \<in> B))"

lemma walk_consistent:
  assumes "rfor (check_slot ops d geom bm ibm) slots w = Ok w'" "distinct slots"
    and "wk_owners w = (\<lambda>_. None)"
  defines "S \<equiv> {s \<in> set slots. is_set ibm s = Ok True}"
  shows "wk_clean w' \<longleftrightarrow> wk_clean w \<and> consistent_slots ops d geom bm S"
    and "wk_clean w' \<Longrightarrow> owners_of ops d geom S (wk_owners w')"
proof -
  have "(wk_clean w' \<longleftrightarrow> wk_clean w \<and> consistent_slots ops d geom bm S) \<and> (wk_clean w' \<longrightarrow> owners_of ops d geom S (wk_owners w'))"
    using assms(1,2) unfolding S_def
  proof (induction slots arbitrary: w' rule: rev_induct)
    case Nil
    then show ?case
      using assms(3) by (simp add: consistent_slots_def owners_of_def)
  next
    case (snoc s slots)
    let ?S = "{s \<in> set slots. is_set ibm s = Ok True}" and ?S' = "{t \<in> set (slots @ [s]). is_set ibm t = Ok True}"
    obtain u where u: "rfor (check_slot ops d geom bm ibm) slots w = Ok u" "check_slot ops d geom bm ibm s u = Ok w'"
      using snoc.prems(1) by (auto simp: rfor_append result_iff)
    have IH: "wk_clean u \<longleftrightarrow> wk_clean w \<and> consistent_slots ops d geom bm ?S" "wk_clean u \<Longrightarrow> owners_of ops d geom ?S (wk_owners u)"
      using snoc.IH [OF u(1)] snoc.prems(2) by simp_all
    obtain g B where g: "walk_step g s B u w'" "g \<longleftrightarrow> (is_set ibm s = Ok True \<longrightarrow> slot_in_order ops d geom bm s)"
        "g \<Longrightarrow> if is_set ibm s = Ok True then slot_holds ops d geom s B else B = {}"
      using check_slot_step [OF u(2)] by (elim exE conjE) (rule that, assumption, assumption, blast)
    show ?case
    proof (cases "is_set ibm s = Ok True")
      case False
      then have "g" "B = {}"
        using g(2,3) by simp_all
      moreover from this have "wk_owners w' = wk_owners u" "wk_clean w' \<longleftrightarrow> wk_clean u"
        using g(1) by (auto simp: walk_step_def)
      moreover have "?S' = ?S"
        using False by auto
      ultimately show ?thesis
        using IH by simp
    next
      case True
      have S: "?S' = insert s ?S" "s \<notin> ?S"
        using True snoc.prems(2) by auto
      have free: "(\<forall>b \<in> B. \<forall>p. wk_owners u b = Some p \<longrightarrow> p = s)
          \<longleftrightarrow> (\<forall>t \<in> ?S. \<forall>C. slot_holds ops d geom t C \<longrightarrow> B \<inter> C = {})" if "wk_clean u"
        using IH(2) [OF that] S(2) unfolding owners_of_def by blast
      have cl: "wk_clean w' \<longleftrightarrow> wk_clean u \<and> g \<and> (\<forall>b \<in> B. \<forall>p. wk_owners u b = Some p \<longrightarrow> p = s)"
        and ow: "\<And>b. wk_owners w' b = (if b \<in> B then Some s else wk_owners u b)"
        using g(1) by (simp_all add: walk_step_def)
      have order: "(\<exists>B. slot_holds ops d geom s B \<and> (\<forall>b \<in> B. block_in_use geom bm b) \<and> Q B) \<longleftrightarrow> g \<and> Q B" for Q
        using g(2,3) True slot_holds_unique unfolding slot_in_order_def by metis
      have "wk_clean w' \<longleftrightarrow> wk_clean w \<and> consistent_slots ops d geom bm ?S'"
        unfolding S(1) consistent_insert [OF S(2)] order using cl free IH(1) by blast
      moreover have "owners_of ops d geom ?S' (wk_owners w')" if c: "wk_clean w'"
      proof -
        have "owners_of ops d geom ?S (wk_owners u)" "slot_holds ops d geom s B"
          using c cl IH(2) g(3) True by simp_all
        then have old: "wk_owners u b = Some p \<longleftrightarrow> p \<in> ?S \<and> (\<exists>C. slot_holds ops d geom p C \<and> b \<in> C)"
          and only: "slot_holds ops d geom s C \<longleftrightarrow> C = B" for b p C
          using slot_holds_unique [of ops d geom s] by (auto simp: owners_of_def)
        have "wk_owners w' b = Some p \<longleftrightarrow> p \<in> insert s ?S \<and> (\<exists>C. slot_holds ops d geom p C \<and> b \<in> C)" for b p
        proof (cases "p = s")
          case True
          then show ?thesis
            using ow [of b] old [of b s] S(2) only by auto
        next
          case False
          then show ?thesis
            using ow [of b] old [of b p] c cl by auto
        qed
        then show ?thesis
          unfolding S(1) owners_of_def by blast
      qed
      ultimately show ?thesis by blast
    qed
  qed
  then show "wk_clean w' \<longleftrightarrow> wk_clean w \<and> consistent_slots ops d geom bm S"
    and "wk_clean w' \<Longrightarrow> owners_of ops d geom S (wk_owners w')"
    by blast+
qed

section \<open>The whole check\<close>

lemma kept_Ok_iff: "kept m = Ok x \<longleftrightarrow> (case x of Some y \<Rightarrow> m = Ok y | None \<Rightarrow> (\<exists>e. m = Err e))"
  by (cases m) (auto simp: kept_def split: option.split)

lemma clean_check_copy: "fsck_is_clean (check_copy sb a b c e copy r) = fsck_is_clean r"
  by (simp add: check_copy_def fsck_clean split: option.split)

lemma clean_counters: "check_counters sb geom bbm ibm r = Ok r' \<Longrightarrow> fsck_is_clean r' = fsck_is_clean r"
  by (auto simp: check_counters_def Let_def rbind_Ok_iff fsck_clean)

lemma clean_journal: "check_journal ops d sb geom r = Ok r' \<Longrightarrow> fsck_is_clean r' = fsck_is_clean r"
  by (auto simp: check_journal_def rbind_Ok_iff fsck_clean split: if_splits)

lemma distinct_range64: "distinct (range64 a b)"
proof -
  have "inj_on (of_nat :: nat \<Rightarrow> u64) {unat a..<unat b}"
  proof (rule inj_on_inverseI [of _ unat])
    fix n assume "n \<in> {unat a..<unat b}"
    then show "unat (of_nat n :: u64) = n"
      using unat_u64_lt [of b] by (intro unat_of_nat_ok) simp
  qed
  then show ?thesis
    by (simp add: range64_def distinct_map)
qed

lemma check_volume_clean:
  assumes "check_volume ops d sb r = Ok r'"
  shows "fsck_is_clean r' \<longleftrightarrow> fsck_is_clean r \<and> (\<exists>bbm_bytes ibm_bytes bbm ibm. let geom = sb_geometry sb in
     read_region ops d (g_block_bitmap_start geom) (g_block_bitmap_blocks geom) = Ok bbm_bytes
     \<and> read_region ops d (g_inode_bitmap_start geom) (g_inode_bitmap_blocks geom) = Ok ibm_bytes
     \<and> (sb_block_bitmap_crc sb \<noteq> 0 \<longrightarrow> crc_hash bbm_bytes = sb_block_bitmap_crc sb)
     \<and> (sb_inode_bitmap_crc sb \<noteq> 0 \<longrightarrow> crc_hash ibm_bytes = sb_inode_bitmap_crc sb)
     \<and> bitmap_from_bytes bbm_bytes (g_total_blocks geom) = Ok bbm
     \<and> bitmap_from_bytes ibm_bytes (g_inode_count geom) = Ok ibm
     \<and> consistent_slots ops d geom bbm (allocated_slots geom ibm))"
proof -
  let ?g = "sb_geometry sb"
  obtain bb bbm ib ibm r1 w r2 where run:
    "read_region ops d (g_block_bitmap_start ?g) (g_block_bitmap_blocks ?g) = Ok bb"
    "bitmap_from_bytes bb (g_total_blocks ?g) = Ok bbm"
    "read_region ops d (g_inode_bitmap_start ?g) (g_inode_bitmap_blocks ?g) = Ok ib"
    "bitmap_from_bytes ib (g_inode_count ?g) = Ok ibm"
    "check_counters sb ?g bbm ibm
       (check_bitmap_crc (sb_inode_bitmap_crc sb) ib ''ODF.IBM.CRC'' ''inode bitmap CRC mismatch (stored=0x''
       (check_bitmap_crc (sb_block_bitmap_crc sb) bb ''ODF.BBM.CRC'' ''block bitmap CRC mismatch (stored=0x'' r)) = Ok r1"
    "rfor (check_slot ops d ?g bbm ibm) (range64 0 (g_inode_count ?g)) \<lparr>wk_report = r1, wk_owners = (\<lambda>_. None)\<rparr> = Ok w"
    "check_journal ops d sb ?g (wk_report w) = Ok r2"
    "r' = add_issue Info ''ODF.SUMMARY.KINDS'' (dec64 (fk_inodes_checked r2) @ '' inode(s) checked: '') r2"
    using assms unfolding check_volume_def Let_def by (simp only: rbind_Ok_iff result.inject) blast
  have S: "{s \<in> set (range64 0 (g_inode_count ?g)). is_set ibm s = Ok True} = allocated_slots ?g ibm"
    by (auto simp: set_range64 allocated_slots_def)
  have "fsck_is_clean r' \<longleftrightarrow> fsck_is_clean r1 \<and> consistent_slots ops d ?g bbm (allocated_slots ?g ibm)"
    using walk_consistent(1) [OF run(6) distinct_range64] clean_journal [OF run(7)] by (simp add: run(8) S clean_add)
  moreover have "fsck_is_clean r1 \<longleftrightarrow> fsck_is_clean r \<and> (sb_block_bitmap_crc sb \<noteq> 0 \<longrightarrow> crc_hash bb = sb_block_bitmap_crc sb)
      \<and> (sb_inode_bitmap_crc sb \<noteq> 0 \<longrightarrow> crc_hash ib = sb_inode_bitmap_crc sb)"
    unfolding clean_counters [OF run(5)] check_bitmap_crc_def clean_add_if by auto
  ultimately show ?thesis
    using run(1-4) by (auto simp: Let_def)
qed


end
