(* ===== verification/Fsck_Cover.thy ===== *)
theory Fsck_Cover
  imports Fsck_Sound
begin

text \<open>
  Which issues a report holds: an issue for every violation the walk meets, with the slot and block
  it is about, and none of the repairable ones without its violation.
\<close>

definition unused_issue :: "u64 \<Rightarrow> fsck_issue" where
  "unused_issue s = \<lparr>fi_severity = Error, fi_code = ''ODF.INODE.UNUSED_BUT_BITMAP_SET'',
     fi_message = ''slot '' @ dec64 s @ '' marked allocated but record kind = Unused''\<rparr>"

definition extent_issue :: "u64 \<Rightarrow> u64 \<Rightarrow> fsck_issue" where
  "extent_issue s b = \<lparr>fi_severity = Error, fi_code = ''ODF.INODE.EXTENT_UNALLOCATED'',
     fi_message = ''slot '' @ dec64 s @ '' extent block '' @ dec64 b @ '' not marked allocated''\<rparr>"

definition attr_issue :: "u64 \<Rightarrow> u64 \<Rightarrow> fsck_issue" where
  "attr_issue s b = \<lparr>fi_severity = Error, fi_code = ''ODF.INODE.ATTR_UNALLOCATED'',
     fi_message = ''slot '' @ dec64 s @ '' attr block '' @ dec64 b @ '' not marked allocated''\<rparr>"

text \<open>The errors the repair pass can fix.\<close>

definition repairable :: "string list" where
  "repairable = [''ODF.BBM.CRC'', ''ODF.IBM.CRC'', ''ODF.INODE.UNUSED_BUT_BITMAP_SET'',
     ''ODF.INODE.EXTENT_UNALLOCATED'', ''ODF.INODE.ATTR_UNALLOCATED'']"

definition only_repairable :: "fsck_report \<Rightarrow> bool" where
  "only_repairable r \<longleftrightarrow> (\<forall>i \<in> set (fk_issues r). fi_severity i = Error \<longrightarrow> fi_code i \<in> set repairable)"

abbreviation issues_of :: "fsck_walk \<Rightarrow> fsck_issue set" where
  "issues_of w \<equiv> set (fk_issues (wk_report w))"

abbreviation wk_repairable :: "fsck_walk \<Rightarrow> bool" where
  "wk_repairable w \<equiv> only_repairable (wk_report w)"

text \<open>
  A step of slot \<open>s\<close> that claims \<open>B\<close>: unless there are errors beyond repair, \<open>g\<close> holds, the new issues
  are \<open>I\<close>, the claims are the slot's alone and the owners before keep theirs.
\<close>

definition covers :: "bool \<Rightarrow> fsck_issue set \<Rightarrow> u64 \<Rightarrow> u64 set \<Rightarrow> fsck_walk \<Rightarrow> fsck_walk \<Rightarrow> bool" where
  "covers g I s B w w' \<longleftrightarrow> (wk_repairable w' \<longrightarrow> wk_repairable w \<and> g \<and> issues_of w' = issues_of w \<union> I
     \<and> (\<forall>b p. wk_owners w b = Some p \<longrightarrow> wk_owners w' b = Some p) \<and> (\<forall>b \<in> B. wk_owners w' b = Some s))"

lemma covers_refl: "covers True {} s {} w w"
  by (simp add: covers_def)

lemma covers_trans: "covers g I s A w u \<Longrightarrow> covers h J s B u w' \<Longrightarrow> covers (g \<and> h) (I \<union> J) s (A \<union> B) w w'"
  unfolding covers_def by blast

text \<open>A step that makes the report unrepairable covers anything.\<close>

lemma covers_beyond: "\<not> wk_repairable w' \<Longrightarrow> covers g I s B w w'"
  by (simp add: covers_def)

lemma covers_rfor:
  assumes "rfor body is w = Ok w'"
    and "\<And>i w w'. i \<in> set is \<Longrightarrow> body i w = Ok w' \<Longrightarrow> covers (g i) (I i) s (B i) w w'"
  shows "covers (\<forall>i \<in> set is. g i) (\<Union>i \<in> set is. I i) s (\<Union>i \<in> set is. B i) w w'"
  using assms
proof (induction "is" arbitrary: w)
  case Nil
  then show ?case by (simp add: covers_refl)
next
  case (Cons i "is")
  then obtain u where u: "body i w = Ok u" "rfor body is u = Ok w'"
    by (auto simp: result_iff)
  have "covers (g i) (I i) s (B i) w u"
    using Cons.prems(2) u(1) by simp
  moreover have "covers (\<forall>i \<in> set is. g i) (\<Union>i \<in> set is. I i) s (\<Union>i \<in> set is. B i) u w'"
    using Cons.prems(2) by (intro Cons.IH [OF u(2)]) simp
  ultimately have "covers (g i \<and> (\<forall>i \<in> set is. g i)) (I i \<union> (\<Union>i \<in> set is. I i)) s (B i \<union> (\<Union>i \<in> set is. B i)) w w'"
    by (rule covers_trans)
  then show ?case
    by simp
qed

lemma repairable_add:
  "only_repairable (add_issue sev code msg r) \<longleftrightarrow> only_repairable r \<and> (sev = Error \<longrightarrow> code \<in> set repairable)"
  "set (fk_issues (add_issue sev code msg r)) = insert \<lparr>fi_severity = sev, fi_code = code, fi_message = msg\<rparr> (set (fk_issues r))"
  by (auto simp: only_repairable_def add_issue_def)

lemma covers_count:
  assumes "wk_count upd sel w = Ok w'" "\<And>n r. fk_issues (upd n r) = fk_issues r"
  shows "covers True {} s {} w w'"
  using assms by (auto simp: wk_count_def result_iff covers_def only_repairable_def)

lemma covers_issue:
  "covers True (if b then {\<lparr>fi_severity = Error, fi_code = code, fi_message = msg\<rparr>} else {}) s {} w (wk_issue b code msg w)"
  by (auto simp: covers_def wk_issue_def add_issue_if_def repairable_add)

lemma beyond_issue: "code \<notin> set repairable \<Longrightarrow> \<not> wk_repairable (wk_issue True code msg w)"
  by (simp add: wk_issue_def add_issue_if_def repairable_add)

lemma covers_claim: "covers True {} s {b} w (wk_claim s b msg w)"
proof -
  have "''ODF.BLOCK.DOUBLE_ALLOCATED'' \<notin> set repairable"
    by (simp add: repairable_def)
  then show ?thesis
    by (auto simp: covers_def wk_claim_def Let_def wk_issue_def add_issue_if_def repairable_add only_repairable_def
        split: option.splits if_splits)
qed

section \<open>One slot\<close>

lemma covers_extent_block:
  assumes "check_extent_block geom bm s start i w = Ok w'"
  shows "covers (is_data_block geom (start + i)) (if is_set bm (start + i) = Ok True then {} else {extent_issue s (start + i)})
    s {start + i} w w'"
proof -
  have b: "uadd start i = Ok (start + i)"
    using assms by (auto simp: check_extent_block_def result_iff)
  show ?thesis
  proof (cases "is_data_block geom (start + i)")
    case False
    then have "w' = wk_issue True ''ODF.INODE.EXTENT_OUT_OF_RANGE''
            (''slot '' @ dec64 s @ '' extent block '' @ dec64 (start + i) @ '' outside data region'') w"
      using assms by (simp add: check_extent_block_def b)
    then have "\<not> wk_repairable w'"
      using beyond_issue [of "''ODF.INODE.EXTENT_OUT_OF_RANGE''"] by (simp add: repairable_def)
    then show ?thesis
      by (simp add: covers_beyond)
  next
    case True
    then obtain x where x: "is_set bm (start + i) = Ok x"
      using assms by (auto simp: check_extent_block_def b result_iff)
    define u where "u = wk_issue (\<not> x) ''ODF.INODE.EXTENT_UNALLOCATED''
             (''slot '' @ dec64 s @ '' extent block '' @ dec64 (start + i) @ '' not marked allocated'') w"
    define v where "v = wk_claim s (start + i)
             (\<lambda>prev. ''data block '' @ dec64 (start + i) @ '' claimed by both slot '' @ dec64 prev @ '' and slot '' @ dec64 s) u"
    have "wk_count (\<lambda>n r. r\<lparr>fk_blocks_referenced := n\<rparr>) fk_blocks_referenced v = Ok w'"
      using assms True x by (simp add: check_extent_block_def b Let_def u_def v_def)
    then have count: "covers True {} s {} v w'"
      by (rule covers_count) simp
    have claim: "covers True (if \<not> x then {extent_issue s (start + i)} else {}) s {} w u" "covers True {} s {start + i} u v"
      unfolding u_def v_def extent_issue_def by (rule covers_issue covers_claim)+
    show ?thesis
      using covers_trans [OF covers_trans [OF claim] count] True x by auto
  qed
qed

lemma covers_attr:
  assumes "check_attr geom bm s addr w = Ok w'"
  shows "covers (addr = 0 \<or> is_data_block geom addr) (if addr = 0 \<or> is_set bm addr = Ok True then {} else {attr_issue s addr})
    s (if addr = 0 then {} else {addr}) w w'"
proof (cases "addr = 0")
  case True
  then show ?thesis
    using assms by (simp add: check_attr_def covers_refl)
next
  case False
  let ?msg = "\<lambda>prev. ''attr block '' @ dec64 addr @ '' claimed by both slot '' @ dec64 prev @ '' and slot '' @ dec64 s"
  show ?thesis
  proof (cases "is_data_block geom addr")
    case True
    then obtain x where x: "is_set bm addr = Ok x"
      using assms False by (auto simp: check_attr_def result_iff)
    define u where "u = wk_issue (\<not> x) ''ODF.INODE.ATTR_UNALLOCATED''
        (''slot '' @ dec64 s @ '' attr block '' @ dec64 addr @ '' not marked allocated'') w"
    have w': "w' = wk_claim s addr ?msg u"
      using assms False True x by (simp add: check_attr_def u_def)
    have "covers True (if \<not> x then {attr_issue s addr} else {}) s {} w u" "covers True {} s {addr} u w'"
      unfolding u_def w' attr_issue_def by (rule covers_issue covers_claim)+
    from covers_trans [OF this] show ?thesis
      using False True x by (auto split: if_splits)
  next
    case out: False
    let ?u = "wk_issue True ''ODF.INODE.ATTR_OUT_OF_RANGE''
        (''slot '' @ dec64 s @ '' attr block '' @ dec64 addr @ '' not inside data region'') w"
    have w': "w' = wk_claim s addr ?msg ?u"
      using assms False out by (simp add: check_attr_def)
    have "covers True {} s {addr} ?u w'"
      unfolding w' by (rule covers_claim)
    moreover have "\<not> wk_repairable ?u"
      by (rule beyond_issue) (simp add: repairable_def)
    ultimately have "\<not> wk_repairable w'"
      by (simp add: covers_def)
    then show ?thesis
      by (simp add: covers_beyond)
  qed
qed

lemma covers_extent:
  assumes "check_extent geom bm s e w = Ok w'"
  shows "covers (\<forall>b \<in> extent_blocks e. is_data_block geom b) (extent_issue s ` {b \<in> extent_blocks e. is_set bm b \<noteq> Ok True})
    s (extent_blocks e) w w'"
proof -
  obtain u where u: "wk_count (\<lambda>n r. r\<lparr>fk_extents_checked := n\<rparr>) fk_extents_checked w = Ok u"
      "(if ext_length_blocks e = 0 then Ok u
        else rfor (check_extent_block geom bm s (ext_physical_block e)) (range64 0 (ucast (ext_length_blocks e))) u) = Ok w'"
    using assms by (auto simp: check_extent_def result_iff)
  have wu: "covers True {} s {} w u"
    using u(1) by (rule covers_count) simp
  show ?thesis
  proof (cases "ext_length_blocks e = 0")
    case True
    then have "extent_blocks e = {}"
      by (auto simp: extent_blocks_def)
    then show ?thesis
      using wu u(2) True by simp
  next
    case False
    let ?R = "range64 0 (ucast (ext_length_blocks e))" and ?p = "ext_physical_block e"
    have run: "rfor (check_extent_block geom bm s ?p) ?R u = Ok w'"
      using u(2) False by simp
    have im: "(\<lambda>i. ?p + i) ` set ?R = extent_blocks e"
      using extent_in_bounds [OF run False] by (rule extent_blocks_range)
    have "covers (\<forall>i \<in> set ?R. is_data_block geom (?p + i))
        (\<Union>i \<in> set ?R. if is_set bm (?p + i) = Ok True then {} else {extent_issue s (?p + i)}) s (\<Union>i \<in> set ?R. {?p + i}) u w'"
      using run by (rule covers_rfor) (rule covers_extent_block)
    moreover have "(\<forall>i \<in> set ?R. is_data_block geom (?p + i)) \<longleftrightarrow> (\<forall>b \<in> extent_blocks e. is_data_block geom b)"
      unfolding im [symmetric] by blast
    moreover have "(\<Union>i \<in> set ?R. {?p + i}) = extent_blocks e"
      unfolding im [symmetric] by auto
    moreover have "(\<Union>i \<in> set ?R. if is_set bm (?p + i) = Ok True then {} else {extent_issue s (?p + i)})
        = extent_issue s ` {b \<in> extent_blocks e. is_set bm b \<noteq> Ok True}"
      unfolding im [symmetric] by auto
    ultimately have "covers (\<forall>b \<in> extent_blocks e. is_data_block geom b)
        (extent_issue s ` {b \<in> extent_blocks e. is_set bm b \<noteq> Ok True}) s (extent_blocks e) u w'"
      by simp
    from covers_trans [OF wu this] show ?thesis
      by simp
  qed
qed

text \<open>The issues of a slot whose blocks \<open>C\<close> are known.\<close>

definition block_issues :: "bitmap \<Rightarrow> u64 \<Rightarrow> on_disk_inode \<Rightarrow> extent list \<Rightarrow> fsck_issue set" where
  "block_issues bm s rec es =
     attr_issue s ` {b. b = i_xattr_block_addr rec \<and> b \<noteq> 0 \<and> is_set bm b \<noteq> Ok True}
     \<union> extent_issue s ` {b \<in> \<Union> (extent_blocks ` set es). is_set bm b \<noteq> Ok True}"

lemma covers_inode:
  assumes "check_inode ops d geom bm s rec w = Ok w'" "i_kind rec \<noteq> Unused" "slot_extents ops d rec = Ok (Some es)"
  shows "covers (\<forall>b \<in> claimed rec es. is_data_block geom b) (block_issues bm s rec es) s (claimed rec es) w w'"
proof -
  let ?a = "i_xattr_block_addr rec"
  obtain u where u: "check_attr geom bm s ?a w = Ok u" "rfor (check_extent geom bm s) es u = Ok w'"
    using assms by (auto simp: check_inode_def result_iff)
  note attr = covers_attr [OF u(1)]
  have "covers (\<forall>e \<in> set es. \<forall>b \<in> extent_blocks e. is_data_block geom b)
      (\<Union>e \<in> set es. extent_issue s ` {b \<in> extent_blocks e. is_set bm b \<noteq> Ok True}) s (\<Union>e \<in> set es. extent_blocks e) u w'"
    using u(2) by (rule covers_rfor) (rule covers_extent)
  note both = covers_trans [OF attr this]
  have g: "((?a = 0 \<or> is_data_block geom ?a) \<and> (\<forall>e \<in> set es. \<forall>b \<in> extent_blocks e. is_data_block geom b))
      \<longleftrightarrow> (\<forall>b \<in> claimed rec es. is_data_block geom b)"
    by (auto simp: claimed_def)
  have I: "(if ?a = 0 \<or> is_set bm ?a = Ok True then {} else {attr_issue s ?a})
      \<union> (\<Union>e \<in> set es. extent_issue s ` {b \<in> extent_blocks e. is_set bm b \<noteq> Ok True}) = block_issues bm s rec es"
    by (auto simp: block_issues_def)
  show ?thesis
    using both unfolding g I by (simp add: claimed_def)
qed

text \<open>What the check enters for a slot in use.\<close>

definition slot_issues :: "'d device_ops \<Rightarrow> 'd \<Rightarrow> geometry \<Rightarrow> bitmap \<Rightarrow> u64 \<Rightarrow> fsck_issue set" where
  "slot_issues ops d geom bm s =
    (case slot_record ops d geom s of
       Ok (Some rec) \<Rightarrow>
         if i_kind rec = Unused then {unused_issue s}
         else (case slot_extents ops d rec of Ok (Some es) \<Rightarrow> block_issues bm s rec es | _ \<Rightarrow> {})
     | _ \<Rightarrow> {})"

definition slot_unused :: "'d device_ops \<Rightarrow> 'd \<Rightarrow> geometry \<Rightarrow> u64 \<Rightarrow> bool" where
  "slot_unused ops d geom s \<longleftrightarrow> (\<exists>rec. slot_record ops d geom s = Ok (Some rec) \<and> i_kind rec = Unused)"

definition slot_blocks :: "'d device_ops \<Rightarrow> 'd \<Rightarrow> geometry \<Rightarrow> u64 \<Rightarrow> u64 set" where
  "slot_blocks ops d geom s = {b. \<exists>B. slot_holds ops d geom s B \<and> b \<in> B}"

lemma slot_blocks_eq:
  assumes "slot_holds ops d geom s B"
  shows "slot_blocks ops d geom s = B"
proof -
  have "slot_holds ops d geom s C \<longleftrightarrow> C = B" for C
  proof
    assume "slot_holds ops d geom s C"
    then show "C = B"
      by (rule slot_holds_unique [OF _ assms])
  qed (simp add: assms)
  then show ?thesis
    by (simp add: slot_blocks_def)
qed

lemma covers_slot:
  assumes "check_slot ops d geom bm ibm s w = Ok w'"
  shows "if is_set ibm s = Ok True
    then covers (slot_unused ops d geom s \<or> (\<exists>B. slot_holds ops d geom s B \<and> (\<forall>b \<in> B. is_data_block geom b)))
      (slot_issues ops d geom bm s) s (slot_blocks ops d geom s) w w'
    else w' = w"
proof -
  obtain x where x: "is_set ibm s = Ok x"
    using assms by (auto simp: check_slot_def result_iff)
  show ?thesis
  proof (cases x)
    case False
    then show ?thesis
      using assms x by (simp add: check_slot_def)
  next
    case True
    obtain u r where u: "wk_count (\<lambda>n r. r\<lparr>fk_inodes_checked := n\<rparr>) fk_inodes_checked w = Ok u"
        "slot_record ops d geom s = Ok r"
        "(case r of
           None \<Rightarrow> Ok (wk_issue True ''ODF.INODE.DECODE'' (''slot '' @ dec64 s @ '' inode record undecodable: '') u)
         | Some rec \<Rightarrow> check_inode ops d geom bm s rec u) = Ok w'"
      using assms x True unfolding check_slot_def by (simp only: rbind.simps not_True_eq_False if_False rbind_Ok_iff) blast
    have wu: "covers True {} s {} w u"
      using u(1) by (rule covers_count) simp
    show ?thesis
    proof (cases r)
      case None
      then have "w' = wk_issue True ''ODF.INODE.DECODE'' (''slot '' @ dec64 s @ '' inode record undecodable: '') u"
        using u(3) by simp
      then have "\<not> wk_repairable w'"
        using beyond_issue [of "''ODF.INODE.DECODE''"] by (simp add: repairable_def)
      then show ?thesis
        using x True by (simp add: covers_beyond)
    next
      case (Some rec)
      then have run: "check_inode ops d geom bm s rec u = Ok w'"
        using u(3) by simp
      have "covers (slot_unused ops d geom s \<or> (\<exists>B. slot_holds ops d geom s B \<and> (\<forall>b \<in> B. is_data_block geom b)))
          (slot_issues ops d geom bm s) s (slot_blocks ops d geom s) u w'"
      proof (cases "i_kind rec = Unused")
        case True
        then have "w' = wk_issue True ''ODF.INODE.UNUSED_BUT_BITMAP_SET''
            (''slot '' @ dec64 s @ '' marked allocated but record kind = Unused'') u"
          using run by (simp add: check_inode_def)
        moreover have "slot_issues ops d geom bm s = {unused_issue s}" "slot_blocks ops d geom s = {}" "slot_unused ops d geom s"
          using u(2) Some True by (simp_all add: slot_issues_def slot_blocks_def slot_holds_def slot_unused_def)
        ultimately show ?thesis
          using covers_issue [of True "''ODF.INODE.UNUSED_BUT_BITMAP_SET''"] by (simp add: unused_issue_def)
      next
        case False
        obtain v ext where v: "check_attr geom bm s (i_xattr_block_addr rec) u = Ok v" "slot_extents ops d rec = Ok ext"
            "(case ext of
               None \<Rightarrow> Ok (wk_issue True ''ODF.INODE.EXTENT_CHAIN'' (''slot '' @ dec64 s @ '' extent chain unreadable: '') v)
             | Some es \<Rightarrow> rfor (check_extent geom bm s) es v) = Ok w'"
          using run False unfolding check_inode_def by (simp only: if_False rbind_Ok_iff) blast
        show ?thesis
        proof (cases ext)
          case None
          then have "w' = wk_issue True ''ODF.INODE.EXTENT_CHAIN'' (''slot '' @ dec64 s @ '' extent chain unreadable: '') v"
            using v(3) by simp
          then have "\<not> wk_repairable w'"
            using beyond_issue [of "''ODF.INODE.EXTENT_CHAIN''"] by (simp add: repairable_def)
          then show ?thesis
            by (rule covers_beyond)
        next
          case (Some es)
          have hold: "slot_holds ops d geom s (claimed rec es)"
            using u(2) \<open>r = Some rec\<close> False v(2) Some by (auto simp: slot_holds_def)
          have "covers (\<forall>b \<in> claimed rec es. is_data_block geom b) (block_issues bm s rec es) s (claimed rec es) u w'"
            using run False v(2) Some by (intro covers_inode) simp_all
          moreover have "slot_issues ops d geom bm s = block_issues bm s rec es"
            using u(2) \<open>r = Some rec\<close> False v(2) Some by (simp add: slot_issues_def)
          ultimately show ?thesis
            using hold unfolding slot_blocks_eq [OF hold] covers_def by blast
        qed
      qed
      from covers_trans [OF wu this] show ?thesis
        using x True by simp
    qed
  qed
qed

section \<open>The whole check\<close>

lemma covers_walk:
  assumes "rfor (check_slot ops d geom bm ibm) slots w = Ok w'" "wk_repairable w'"
  defines "S \<equiv> {s \<in> set slots. is_set ibm s = Ok True}"
  shows "wk_repairable w \<and> issues_of w' = issues_of w \<union> (\<Union>s \<in> S. slot_issues ops d geom bm s)
    \<and> (\<forall>b p. wk_owners w b = Some p \<longrightarrow> wk_owners w' b = Some p)
    \<and> (\<forall>s \<in> S. (slot_unused ops d geom s \<or> (\<exists>B. slot_holds ops d geom s B \<and> (\<forall>b \<in> B. is_data_block geom b)))
        \<and> (\<forall>b \<in> slot_blocks ops d geom s. wk_owners w' b = Some s))"
  using assms(1,2) unfolding S_def
proof (induction slots arbitrary: w)
  case (Cons s slots)
  let ?S = "{t \<in> set slots. is_set ibm t = Ok True}" and ?S' = "{t \<in> set (s # slots). is_set ibm t = Ok True}"
  obtain u where u: "check_slot ops d geom bm ibm s w = Ok u" "rfor (check_slot ops d geom bm ibm) slots u = Ok w'"
    using Cons.prems(1) by (auto simp: result_iff)
  note IH = Cons.IH [OF u(2) Cons.prems(2)]
  show ?case
  proof (cases "is_set ibm s = Ok True")
    case False
    then have "u = w" "?S' = ?S"
      using covers_slot [OF u(1)] by auto
    then show ?thesis
      using IH by simp
  next
    case True
    then have S: "?S' = insert s ?S"
      by auto
    have c: "covers (slot_unused ops d geom s \<or> (\<exists>B. slot_holds ops d geom s B \<and> (\<forall>b \<in> B. is_data_block geom b)))
      (slot_issues ops d geom bm s) s (slot_blocks ops d geom s) w u"
      using covers_slot [OF u(1)] True by simp
    have wu: "wk_repairable w" "slot_unused ops d geom s \<or> (\<exists>B. slot_holds ops d geom s B \<and> (\<forall>b \<in> B. is_data_block geom b))"
      "issues_of u = issues_of w \<union> slot_issues ops d geom bm s"
      "\<And>b p. wk_owners w b = Some p \<Longrightarrow> wk_owners u b = Some p" "\<And>b. b \<in> slot_blocks ops d geom s \<Longrightarrow> wk_owners u b = Some s"
      using c IH unfolding covers_def by blast+
    show ?thesis
      unfolding S using IH wu by (intro conjI) (simp_all add: Un_assoc)
  qed
qed simp

definition slot_codes :: "string set" where
  "slot_codes = {''ODF.INODE.UNUSED_BUT_BITMAP_SET'', ''ODF.INODE.EXTENT_UNALLOCATED'', ''ODF.INODE.ATTR_UNALLOCATED''}"

lemma slot_issue_codes: "i \<in> slot_issues ops d geom bm s \<Longrightarrow> fi_code i \<in> slot_codes \<and> fi_severity i = Error"
  by (auto simp: slot_issues_def block_issues_def slot_codes_def unused_issue_def attr_issue_def extent_issue_def
      split: result.splits option.splits if_splits)

definition has_error :: "string \<Rightarrow> fsck_report \<Rightarrow> bool" where
  "has_error code r \<longleftrightarrow> (\<exists>i \<in> set (fk_issues r). fi_code i = code \<and> fi_severity i = Error)"

text \<open>Steps that only add issues of other codes.\<close>

definition adds_other :: "fsck_report \<Rightarrow> fsck_report \<Rightarrow> bool" where
  "adds_other r r' \<longleftrightarrow> set (fk_issues r) \<subseteq> set (fk_issues r')
     \<and> (\<forall>i \<in> set (fk_issues r'). fi_code i \<in> slot_codes \<longrightarrow> i \<in> set (fk_issues r))"

lemma adds_other_trans: "adds_other q r \<Longrightarrow> adds_other r s \<Longrightarrow> adds_other q s"
  by (auto simp: adds_other_def)

lemma adds_other_refl: "adds_other r r"
  by (simp add: adds_other_def)

lemma adds_other_issue: "code \<notin> slot_codes \<Longrightarrow> adds_other r (add_issue sev code msg r)"
  by (auto simp: adds_other_def add_issue_def)

lemma adds_other_if: "code \<notin> slot_codes \<Longrightarrow> adds_other r (add_issue_if b sev code msg r)"
  by (auto simp: add_issue_if_def adds_other_def add_issue_def)

lemma other_codes:
  "''ODF.SB.FREE_BLOCKS'' \<notin> slot_codes" "''ODF.SB.FREE_INODES'' \<notin> slot_codes" "''ODF.BBM.CRC'' \<notin> slot_codes" "''ODF.IBM.CRC'' \<notin> slot_codes"
  "''ODF.JOURNAL.HEADER'' \<notin> slot_codes" "''ODF.SUMMARY.KINDS'' \<notin> slot_codes" "''ODF.SB.TERTIARY_STALE'' \<notin> slot_codes"
  "''ODF.SB.TERTIARY_UNREADABLE'' \<notin> slot_codes" "''ODF.SB.SECONDARY_STALE'' \<notin> slot_codes" "''ODF.SB.SECONDARY_UNREADABLE'' \<notin> slot_codes"
  by (simp_all add: slot_codes_def)

lemma adds_other_counters: "check_counters sb geom bbm ibm r = Ok r' \<Longrightarrow> adds_other r r'"
  using adds_other_trans [OF adds_other_if [OF other_codes(1)] adds_other_if [OF other_codes(2)]]
  by (auto simp: check_counters_def Let_def rbind_Ok_iff simp del: append.simps)

lemma adds_other_journal: "check_journal ops d sb geom r = Ok r' \<Longrightarrow> adds_other r r'"
  using adds_other_if [OF other_codes(5)] adds_other_refl
  by (auto simp: check_journal_def rbind_Ok_iff simp del: append.simps split: if_splits)

lemma adds_other_copies: "adds_other r (check_copies sb t s r)"
proof -
  have "adds_other r (check_copy sb stale name unreadable m copy r)" if "stale \<notin> slot_codes" "unreadable \<notin> slot_codes"
    for stale name unreadable m copy and r :: fsck_report
    using that adds_other_if adds_other_issue by (simp add: check_copy_def split: option.split)
  from adds_other_trans [OF this this] show ?thesis
    unfolding check_copies_def by (simp add: other_codes)
qed

lemma has_error_mono: "has_error code r \<Longrightarrow> set (fk_issues r) \<subseteq> set (fk_issues r') \<Longrightarrow> has_error code r'"
  by (auto simp: has_error_def)

lemma check_volume_covers:
  assumes "check_volume ops d sb r = Ok r'" "only_repairable r'"
    and "\<forall>i \<in> set (fk_issues r). fi_code i \<notin> slot_codes"
  shows "\<exists>bb ib bbm ibm. let geom = sb_geometry sb; S = allocated_slots geom ibm in
     read_region ops d (g_block_bitmap_start geom) (g_block_bitmap_blocks geom) = Ok bb
     \<and> read_region ops d (g_inode_bitmap_start geom) (g_inode_bitmap_blocks geom) = Ok ib
     \<and> bitmap_from_bytes bb (g_total_blocks geom) = Ok bbm \<and> bitmap_from_bytes ib (g_inode_count geom) = Ok ibm
     \<and> (sb_block_bitmap_crc sb \<noteq> 0 \<and> crc_hash bb \<noteq> sb_block_bitmap_crc sb \<longrightarrow> has_error ''ODF.BBM.CRC'' r')
     \<and> (sb_inode_bitmap_crc sb \<noteq> 0 \<and> crc_hash ib \<noteq> sb_inode_bitmap_crc sb \<longrightarrow> has_error ''ODF.IBM.CRC'' r')
     \<and> {i \<in> set (fk_issues r'). fi_code i \<in> slot_codes} = (\<Union>s \<in> S. slot_issues ops d geom bbm s)
     \<and> (\<forall>s \<in> S. slot_unused ops d geom s \<or> (\<exists>B. slot_holds ops d geom s B \<and> (\<forall>b \<in> B. is_data_block geom b)))
     \<and> (\<forall>s \<in> S. \<forall>t \<in> S. s \<noteq> t \<longrightarrow> slot_blocks ops d geom s \<inter> slot_blocks ops d geom t = {})
     \<and> set (fk_issues r) \<subseteq> set (fk_issues r')"
proof -
  let ?g = "sb_geometry sb"
  obtain bb bbm ib ibm r1 w r2 where run:
    "read_region ops d (g_block_bitmap_start ?g) (g_block_bitmap_blocks ?g) = Ok bb"
    "bitmap_from_bytes bb (g_total_blocks ?g) = Ok bbm"
    "read_region ops d (g_inode_bitmap_start ?g) (g_inode_bitmap_blocks ?g) = Ok ib"
    "bitmap_from_bytes ib (g_inode_count ?g) = Ok ibm"
    "check_counters sb ?g bbm ibm
       (check_bitmap_crc (sb_inode_bitmap_crc sb) ib ''ODF.IBM.CRC'' ''inode bitmap CRC mismatch (stored=0x''
       (check_bitmap_crc (sb_block_bitmap_crc sb) bb ''ODF.BBM.CRC'' ''block bitmap CRC mismatch (stored=0x'' r)) = Ok r1"
    "rfor (check_slot ops d ?g bbm ibm) (range64 0 (g_inode_count ?g)) \<lparr>wk_report = r1, wk_owners = (\<lambda>_. None)\<rparr> = Ok w"
    "check_journal ops d sb ?g (wk_report w) = Ok r2"
    "r' = add_issue Info ''ODF.SUMMARY.KINDS'' (dec64 (fk_inodes_checked r2) @ '' inode(s) checked: '') r2"
    using assms(1) unfolding check_volume_def Let_def by (simp only: rbind_Ok_iff result.inject) blast
  define rb where "rb = check_bitmap_crc (sb_block_bitmap_crc sb) bb ''ODF.BBM.CRC'' ''block bitmap CRC mismatch (stored=0x'' r"
  define ri where "ri = check_bitmap_crc (sb_inode_bitmap_crc sb) ib ''ODF.IBM.CRC'' ''inode bitmap CRC mismatch (stored=0x'' rb"
  have ab: "adds_other r rb" "adds_other rb ri" "adds_other ri r1" "adds_other (wk_report w) r'"
    using adds_other_if other_codes(3,4) adds_other_counters [OF run(5) [folded rb_def, folded ri_def]]
      adds_other_trans [OF adds_other_journal [OF run(7)] adds_other_issue [OF other_codes(6)]]
    unfolding rb_def ri_def check_bitmap_crc_def run(8) by blast+
  have "wk_repairable w"
    using assms(2) ab(4) unfolding only_repairable_def adds_other_def by blast
  note walk = covers_walk [OF run(6) this]
  have S: "{s \<in> set (range64 0 (g_inode_count ?g)). is_set ibm s = Ok True} = allocated_slots ?g ibm"
    by (auto simp: set_range64 allocated_slots_def)
  have sub: "set (fk_issues r1) \<subseteq> set (fk_issues r')"
    using walk ab(4) by (auto simp: adds_other_def)
  have r0: "adds_other r r1"
    using ab(1-3) adds_other_trans by blast
  have crcs: "sb_block_bitmap_crc sb \<noteq> 0 \<and> crc_hash bb \<noteq> sb_block_bitmap_crc sb \<Longrightarrow> has_error ''ODF.BBM.CRC'' rb"
    "sb_inode_bitmap_crc sb \<noteq> 0 \<and> crc_hash ib \<noteq> sb_inode_bitmap_crc sb \<Longrightarrow> has_error ''ODF.IBM.CRC'' ri"
    by (simp_all add: rb_def ri_def check_bitmap_crc_def add_issue_if_def has_error_def add_issue_def)
  let ?U = "\<Union>s \<in> allocated_slots ?g ibm. slot_issues ops d ?g bbm s"
  have "{i \<in> set (fk_issues q'). fi_code i \<in> slot_codes} = {i \<in> set (fk_issues q). fi_code i \<in> slot_codes}" if "adds_other q q'" for q q'
    using that by (auto simp: adds_other_def)
  note same = this [OF ab(4)] this [OF r0]
  have "issues_of w = set (fk_issues r1) \<union> ?U"
    using walk unfolding S by simp
  moreover have "{i \<in> ?U. fi_code i \<in> slot_codes} = ?U"
    by (auto dest: slot_issue_codes)
  moreover have "{i \<in> set (fk_issues r1). fi_code i \<in> slot_codes} = {}"
    unfolding same(2) using assms(3) by blast
  ultimately have "{i \<in> set (fk_issues r'). fi_code i \<in> slot_codes} = ?U"
    unfolding same(1) by auto
  moreover have "\<forall>s \<in> allocated_slots ?g ibm. \<forall>t \<in> allocated_slots ?g ibm. s \<noteq> t \<longrightarrow> slot_blocks ops d ?g s \<inter> slot_blocks ops d ?g t = {}"
  proof (intro ballI impI equals0I)
    fix s t b assume st: "s \<in> allocated_slots ?g ibm" "t \<in> allocated_slots ?g ibm" "s \<noteq> t"
      and b: "b \<in> slot_blocks ops d ?g s \<inter> slot_blocks ops d ?g t"
    have "wk_owners w b = Some s" "wk_owners w b = Some t"
      using walk st b unfolding S by blast+
    then show False
      using st(3) by simp
  qed
  moreover have "has_error ''ODF.BBM.CRC'' rb \<Longrightarrow> has_error ''ODF.BBM.CRC'' r'" "has_error ''ODF.IBM.CRC'' ri \<Longrightarrow> has_error ''ODF.IBM.CRC'' r'"
    using has_error_mono sub ab(2,3) unfolding adds_other_def by (meson subset_trans)+
  then have "sb_block_bitmap_crc sb \<noteq> 0 \<and> crc_hash bb \<noteq> sb_block_bitmap_crc sb \<longrightarrow> has_error ''ODF.BBM.CRC'' r'"
    "sb_inode_bitmap_crc sb \<noteq> 0 \<and> crc_hash ib \<noteq> sb_inode_bitmap_crc sb \<longrightarrow> has_error ''ODF.IBM.CRC'' r'"
    using crcs by blast+
  moreover have "\<forall>s \<in> allocated_slots ?g ibm. slot_unused ops d ?g s \<or> (\<exists>B. slot_holds ops d ?g s B \<and> (\<forall>b \<in> B. is_data_block ?g b))"
    using walk unfolding S by blast
  moreover have "set (fk_issues r) \<subseteq> set (fk_issues r')"
    using r0 sub unfolding adds_other_def by blast
  moreover note run(1-4)
  ultimately show ?thesis
    unfolding Let_def
    by - (rule exI [of _ bb], rule exI [of _ ib], rule exI [of _ bbm], rule exI [of _ ibm], intro conjI, assumption+)
qed

end
