(* ===== verification/Fsck_Repair_Props.thy ===== *)
theory Fsck_Repair_Props
  imports Fsck_Repair Fsck_Cover
begin

text \<open>
  What the repair pass decides: the messages of the check are parsed back to their numbers, and when
  the report has no error beyond repair, the planned bitmaps are consistent with the inodes.
\<close>

section \<open>The messages\<close>

lemma after_prefix: "needle \<noteq> [] \<Longrightarrow> after needle (needle @ s) = Some s"
  by (cases needle) simp_all

lemma space_not_digit: "\<not> is_ascii_digit (CHR '' '')"
  by (simp add: is_ascii_digit_def)

lemma parse_unused: "parse_slot_from_message (fi_message (unused_issue s)) = Some s"
  using after_prefix [of "''slot ''"] leading_number_dec [OF space_not_digit, of s]
  by (simp add: parse_slot_from_message_def unused_issue_def del: after.simps)

lemma after_slot: "after ''slot '' (''slot '' @ t) = Some t"
  by (rule after_prefix) simp

lemma after_space: "after '' '' (dec n @ '' '' @ t) = Some t"
  using after_dec [of "'' ''" n "'' '' @ t"] space_not_digit by simp

lemma parse_block_message:
  assumes "\<And>t. after ''block '' (kind @ t) = Some t"
  shows "parse_block_from_message (''slot '' @ dec64 s @ '' '' @ kind @ dec64 b @ '' '' @ t) = Some b"
  using leading_number_dec [OF space_not_digit, of b t]
  unfolding parse_block_from_message_def after_slot option.case after_space Let_def assms by simp

lemma parse_extent: "parse_block_from_message (fi_message (extent_issue s b)) = Some b"
  using parse_block_message [of "''extent block ''" s b "''not marked allocated''"] by (simp add: extent_issue_def)

lemma parse_attr: "parse_block_from_message (fi_message (attr_issue s b)) = Some b"
  using parse_block_message [of "''attr block ''" s b "''not marked allocated''"] by (simp add: attr_issue_def)

text \<open>
  the repair pass reads back from the messages of the check exactly the slot and block numbers
  that the check printed into them.
\<close>

theorem repair_reads_back_numbers:
  "parse_slot_from_message (''slot '' @ dec64 s @ '' marked allocated but record kind = Unused'') = Some s"
  "parse_block_from_message (''slot '' @ dec64 s @ '' extent block '' @ dec64 b @ '' not marked allocated'') = Some b"
  "parse_block_from_message (''slot '' @ dec64 s @ '' attr block '' @ dec64 b @ '' not marked allocated'') = Some b"
  using parse_unused [of s] parse_extent [of s b] parse_attr [of s b]
  unfolding unused_issue_def extent_issue_def attr_issue_def fsck_issue.select_convs by blast+

section \<open>The effect of the issues\<close>

definition block_codes :: "string set" where
  "block_codes = {''ODF.INODE.EXTENT_UNALLOCATED'', ''ODF.INODE.ATTR_UNALLOCATED''}"

definition marked :: "geometry \<Rightarrow> fsck_issue list \<Rightarrow> nat set" where
  "marked geom js = {unat b | b i. i \<in> set js \<and> fi_code i \<in> block_codes \<and> parse_block_from_message (fi_message i) = Some b
     \<and> is_data_block geom b}"

definition dropped :: "fsck_issue list \<Rightarrow> nat set" where
  "dropped js = {unat s | s i. i \<in> set js \<and> fi_code i = ''ODF.INODE.UNUSED_BUT_BITMAP_SET''
     \<and> parse_slot_from_message (fi_message i) = Some s}"

definition crc_after :: "string \<Rightarrow> bytes \<Rightarrow> u32 \<Rightarrow> fsck_issue list \<Rightarrow> u32" where
  "crc_after code bs crc js = (if code \<in> fi_code ` set js then crc_hash bs else crc)"

lemma marked_snoc [simp]:
  "marked geom (js @ [i]) = marked geom js \<union> (if fi_code i \<in> block_codes
     then (case parse_block_from_message (fi_message i) of Some b \<Rightarrow> if is_data_block geom b then {unat b} else {} | None \<Rightarrow> {}) else {})"
  by (auto simp: marked_def split: option.split)

lemma dropped_snoc [simp]:
  "dropped (js @ [i]) = dropped js \<union> (if fi_code i = ''ODF.INODE.UNUSED_BUT_BITMAP_SET''
     then (case parse_slot_from_message (fi_message i) of Some s \<Rightarrow> {unat s} | None \<Rightarrow> {}) else {})"
  by (auto simp: dropped_def split: option.split)

lemma crc_after_snoc [simp]:
  "crc_after code bs crc (js @ [i]) = (if fi_code i = code then crc_hash bs else crc_after code bs crc js)"
  by (auto simp: crc_after_def)

text \<open>The state of the pass after the issues \<open>js\<close>.\<close>

definition after_issues :: "superblock \<Rightarrow> bytes \<Rightarrow> bytes \<Rightarrow> bitmap \<Rightarrow> bitmap \<Rightarrow> fsck_issue list \<Rightarrow> repair_state \<Rightarrow> bool" where
  "after_issues sb bb ib bbm ibm js s \<longleftrightarrow>
     wf_bitmap (rs_block_bitmap s) \<and> bm_capacity (rs_block_bitmap s) = sb_total_blocks sb
     \<and> used (rs_block_bitmap s) = used bbm \<union> marked (sb_geometry sb) js
     \<and> (\<not> rs_bitmap_touched s \<longrightarrow> rs_block_bitmap s = bbm)
     \<and> wf_bitmap (rs_inode_bitmap s) \<and> bm_capacity (rs_inode_bitmap s) = sb_total_inodes sb
     \<and> used (rs_inode_bitmap s) = used ibm - dropped js
     \<and> (\<not> rs_inode_bitmap_touched s \<longrightarrow> rs_inode_bitmap s = ibm)
     \<and> sb_geometry (rs_sb s) = sb_geometry sb
     \<and> sb_block_bitmap_crc (rs_sb s) = crc_after ''ODF.BBM.CRC'' bb (sb_block_bitmap_crc sb) js
     \<and> sb_inode_bitmap_crc (rs_sb s) = crc_after ''ODF.IBM.CRC'' ib (sb_inode_bitmap_crc sb) js"

lemma mark_block_cases:
  assumes "mark_block geom i b s = Ok s'" "wf_bitmap (rs_block_bitmap s)" "bm_capacity (rs_block_bitmap s) = g_total_blocks geom"
  obtains bm where "s' = rs_fix i (s\<lparr>rs_block_bitmap := bm, rs_bitmap_touched := True\<rparr>)" "wf_bitmap bm"
      "bm_capacity bm = g_total_blocks geom" "used bm = insert (unat b) (used (rs_block_bitmap s))" "is_data_block geom b"
    | "s' = rs_refuse i s" "\<not> is_data_block geom b"
proof (cases "is_data_block geom b")
  case True
  then have "b < bm_capacity (rs_block_bitmap s)"
    using assms(3) by (simp add: is_data_block_def)
  then obtain bm where bm: "bm_set b (rs_block_bitmap s) = (Ok (unat b \<notin> used (rs_block_bitmap s)), bm)"
      "used bm = insert (unat b) (used (rs_block_bitmap s))" "wf_bitmap bm" "bm_capacity bm = bm_capacity (rs_block_bitmap s)"
    using bm_set_ok [OF assms(2)] by blast
  have "s' = rs_fix i (s\<lparr>rs_block_bitmap := bm, rs_bitmap_touched := True\<rparr>)"
    using assms(1) bm(1) True by (simp add: mark_block_def clocal_def cignore_def)
  then show ?thesis
    using that(1) bm assms(3) True by simp
qed (use that(2) assms(1) in \<open>simp add: mark_block_def\<close>)

lemma clear_slot_cases:
  assumes "clear_slot i slot s = Ok s'" "wf_bitmap (rs_inode_bitmap s)"
  obtains bm where "s' = rs_fix i (s\<lparr>rs_inode_bitmap := bm, rs_inode_bitmap_touched := True\<rparr>)" "wf_bitmap bm"
      "bm_capacity bm = bm_capacity (rs_inode_bitmap s)" "used bm = used (rs_inode_bitmap s) - {unat slot}"
    | "s' = rs_refuse i s" "unat slot \<notin> used (rs_inode_bitmap s)"
proof (cases "unat slot \<in> used (rs_inode_bitmap s)")
  case True
  then have lt: "slot < bm_capacity (rs_inode_bitmap s)"
    by (simp add: used_def word_less_nat_alt)
  then obtain bm where bm: "bm_clear slot (rs_inode_bitmap s) = (Ok (unat slot \<in> used (rs_inode_bitmap s)), bm)"
      "used bm = used (rs_inode_bitmap s) - {unat slot}" "wf_bitmap bm" "bm_capacity bm = bm_capacity (rs_inode_bitmap s)"
    using bm_clear_ok [OF assms(2)] by blast
  have "s' = rs_fix i (s\<lparr>rs_inode_bitmap := bm, rs_inode_bitmap_touched := True\<rparr>)"
    using assms(1) bm(1) is_set_ok [OF assms(2) lt] True by (simp add: clear_slot_def clocal_def cignore_def unwrap_or_def)
  then show ?thesis
    using that(1) bm by simp
next
  case False
  have "unwrap_or (is_set (rs_inode_bitmap s) slot) False = Ok False"
    using is_set_ok [OF assms(2)] is_set_err False by (cases "slot < bm_capacity (rs_inode_bitmap s)") (simp_all add: unwrap_or_def)
  then show ?thesis
    using that(2) assms(1) False by (simp add: clear_slot_def)
qed

lemma rs_simps [simp]:
  "rs_block_bitmap (rs_fix i s) = rs_block_bitmap s" "rs_inode_bitmap (rs_fix i s) = rs_inode_bitmap s" "rs_sb (rs_fix i s) = rs_sb s"
  "rs_bitmap_touched (rs_fix i s) = rs_bitmap_touched s" "rs_inode_bitmap_touched (rs_fix i s) = rs_inode_bitmap_touched s"
  "rs_block_bitmap (rs_refuse i s) = rs_block_bitmap s" "rs_inode_bitmap (rs_refuse i s) = rs_inode_bitmap s" "rs_sb (rs_refuse i s) = rs_sb s"
  "rs_bitmap_touched (rs_refuse i s) = rs_bitmap_touched s" "rs_inode_bitmap_touched (rs_refuse i s) = rs_inode_bitmap_touched s"
  by (simp_all add: rs_fix_def rs_refuse_def)

lemma sb_geometry_update [simp]:
  "sb_geometry (x\<lparr>sb_block_bitmap_crc := c\<rparr>) = sb_geometry x" "sb_geometry (x\<lparr>sb_inode_bitmap_crc := c\<rparr>) = sb_geometry x"
  "sb_geometry (x\<lparr>sb_free_blocks := n\<rparr>) = sb_geometry x" "sb_geometry (x\<lparr>sb_free_inodes := n\<rparr>) = sb_geometry x"
  by (simp_all add: sb_geometry_def)

lemma repair_issue_unused:
  "fi_code i = ''ODF.INODE.UNUSED_BUT_BITMAP_SET'' \<Longrightarrow> repair_issue geom bb ib i s =
    (case parse_slot_from_message (fi_message i) of Some slot \<Rightarrow> clear_slot i slot s | None \<Rightarrow> Ok (rs_refuse i s))"
  by (simp add: repair_issue_def)

lemma repair_issue_block:
  "fi_code i \<in> block_codes \<Longrightarrow> repair_issue geom bb ib i s =
    (case parse_block_from_message (fi_message i) of Some b \<Rightarrow> mark_block geom i b s | None \<Rightarrow> Ok (rs_refuse i s))"
  by (auto simp: repair_issue_def block_codes_def)

lemma repair_issue_other:
  assumes "repair_issue geom bb ib i s = Ok s'" "fi_code i \<noteq> ''ODF.INODE.UNUSED_BUT_BITMAP_SET''" "fi_code i \<notin> block_codes"
  shows "rs_block_bitmap s' = rs_block_bitmap s \<and> rs_inode_bitmap s' = rs_inode_bitmap s
    \<and> rs_bitmap_touched s' = rs_bitmap_touched s \<and> rs_inode_bitmap_touched s' = rs_inode_bitmap_touched s
    \<and> sb_geometry (rs_sb s') = sb_geometry (rs_sb s)
    \<and> sb_block_bitmap_crc (rs_sb s') = (if fi_code i = ''ODF.BBM.CRC'' then crc_hash bb else sb_block_bitmap_crc (rs_sb s))
    \<and> sb_inode_bitmap_crc (rs_sb s') = (if fi_code i = ''ODF.IBM.CRC'' then crc_hash ib else sb_inode_bitmap_crc (rs_sb s))"
proof -
  have nb: "fi_code i \<noteq> ''ODF.INODE.EXTENT_UNALLOCATED''" "fi_code i \<noteq> ''ODF.INODE.ATTR_UNALLOCATED''"
    using assms(3) by (simp_all add: block_codes_def)
  consider (tert) "fi_code i = ''ODF.SB.TERTIARY_STALE'' \<or> fi_code i = ''ODF.SB.TERTIARY_UNREADABLE''"
    | (sec) "fi_code i = ''ODF.SB.SECONDARY_STALE'' \<or> fi_code i = ''ODF.SB.SECONDARY_UNREADABLE''"
    | (bcrc) "fi_code i = ''ODF.BBM.CRC''" | (icrc) "fi_code i = ''ODF.IBM.CRC''"
    | (fb) "fi_code i = ''ODF.SB.FREE_BLOCKS''" | (fi) "fi_code i = ''ODF.SB.FREE_INODES''"
    | (rest) "\<not> (fi_code i = ''ODF.SB.TERTIARY_STALE'' \<or> fi_code i = ''ODF.SB.TERTIARY_UNREADABLE'')"
      "\<not> (fi_code i = ''ODF.SB.SECONDARY_STALE'' \<or> fi_code i = ''ODF.SB.SECONDARY_UNREADABLE'')"
      "fi_code i \<noteq> ''ODF.BBM.CRC''" "fi_code i \<noteq> ''ODF.IBM.CRC''" "fi_code i \<noteq> ''ODF.SB.FREE_BLOCKS''" "fi_code i \<noteq> ''ODF.SB.FREE_INODES''"
    by blast
  then show ?thesis
  proof cases
    case rest
    then have "s' = rs_refuse i s"
      using assms(1,2) nb unfolding repair_issue_def Let_def by simp
    then show ?thesis
      using rest by simp
  qed (use assms(1) in \<open>auto simp: repair_issue_def rbind_Ok_iff\<close>)
qed

lemma repair_issue_step:
  assumes "after_issues sb bb ib bbm ibm js s" "repair_issue (sb_geometry sb) bb ib i s = Ok s'"
  shows "after_issues sb bb ib bbm ibm (js @ [i]) s'"
proof -
  have cap: "g_total_blocks (sb_geometry sb) = sb_total_blocks sb"
    by (simp add: sb_geometry_def)
  consider (unused) "fi_code i = ''ODF.INODE.UNUSED_BUT_BITMAP_SET''" | (block) "fi_code i \<in> block_codes"
    | (other) "fi_code i \<noteq> ''ODF.INODE.UNUSED_BUT_BITMAP_SET''" "fi_code i \<notin> block_codes"
    by blast
  then show ?thesis
  proof cases
    case unused
    then have nb: "fi_code i \<notin> block_codes"
      by (simp add: block_codes_def)
    show ?thesis
    proof (cases "parse_slot_from_message (fi_message i)")
      case None
      then show ?thesis
        using assms unused nb by (auto simp: repair_issue_unused after_issues_def)
    next
      case (Some slot)
      then have run: "clear_slot i slot s = Ok s'"
        using assms(2) unused by (simp add: repair_issue_unused)
      have "wf_bitmap (rs_inode_bitmap s)"
        using assms(1) by (simp add: after_issues_def)
      from run this show ?thesis
        by (cases rule: clear_slot_cases) (use assms(1) unused nb Some in \<open>auto simp: after_issues_def\<close>)
    qed
  next
    case block
    then have nu: "fi_code i \<noteq> ''ODF.INODE.UNUSED_BUT_BITMAP_SET''" "fi_code i \<noteq> ''ODF.BBM.CRC''" "fi_code i \<noteq> ''ODF.IBM.CRC''"
      by (auto simp: block_codes_def)
    show ?thesis
    proof (cases "parse_block_from_message (fi_message i)")
      case None
      then show ?thesis
        using assms block nu by (auto simp: repair_issue_block after_issues_def)
    next
      case (Some b)
      then have run: "mark_block (sb_geometry sb) i b s = Ok s'"
        using assms(2) block by (simp add: repair_issue_block)
      have "wf_bitmap (rs_block_bitmap s)" "bm_capacity (rs_block_bitmap s) = g_total_blocks (sb_geometry sb)"
        using assms(1) by (simp_all add: after_issues_def cap)
      from run this show ?thesis
        by (cases rule: mark_block_cases) (use assms(1) block nu Some in \<open>auto simp: after_issues_def cap\<close>)
    qed
  next
    case other
    then show ?thesis
      using assms(1) repair_issue_other [OF assms(2) other] by (auto simp: after_issues_def)
  qed
qed

lemma repair_issues_run:
  assumes "rfor (repair_issue (sb_geometry sb) bb ib) js (repair_start sb bbm ibm) = Ok s"
    and "bitmap_from_bytes bb (sb_total_blocks sb) = Ok bbm" "bitmap_from_bytes ib (sb_total_inodes sb) = Ok ibm"
  shows "after_issues sb bb ib bbm ibm js s"
proof (rule rfor_invariant [OF assms(1)])
  show "after_issues sb bb ib bbm ibm [] (repair_start sb bbm ibm)"
    using bitmap_from_bytes_wf [OF assms(2)] bitmap_from_bytes_wf [OF assms(3)] assms(2,3)
    by (simp add: after_issues_def repair_start_def marked_def dropped_def crc_after_def bitmap_from_bytes_Ok_iff)
qed (rule repair_issue_step)

lemma settle_run:
  assumes "settle_bitmaps geom s = Ok s'"
  shows "rs_block_bitmap s' = rs_block_bitmap s \<and> rs_inode_bitmap s' = rs_inode_bitmap s
    \<and> sb_geometry (rs_sb s') = sb_geometry (rs_sb s)
    \<and> sb_block_bitmap_crc (rs_sb s') = (if rs_bitmap_touched s then crc_hash (bm_bits (rs_block_bitmap s)) else sb_block_bitmap_crc (rs_sb s))
    \<and> sb_inode_bitmap_crc (rs_sb s')
        = (if rs_inode_bitmap_touched s then crc_hash (bm_bits (rs_inode_bitmap s)) else sb_inode_bitmap_crc (rs_sb s))"
proof -
  obtain u where u: "(if rs_bitmap_touched s then
              rbind (recount_free_blocks geom (rs_block_bitmap s)) (\<lambda>n.
              Ok (s\<lparr>rs_sb := (rs_sb s)\<lparr>sb_block_bitmap_crc := crc_hash (bm_bits (rs_block_bitmap s)), sb_free_blocks := n\<rparr>,
                    rs_sb_touched := True\<rparr>))
            else Ok s) = Ok u"
    "(if rs_inode_bitmap_touched u then
         rbind (recount_free_inodes geom (rs_inode_bitmap u)) (\<lambda>n.
         Ok (u\<lparr>rs_sb := (rs_sb u)\<lparr>sb_inode_bitmap_crc := crc_hash (bm_bits (rs_inode_bitmap u)), sb_free_inodes := n\<rparr>,
               rs_sb_touched := True\<rparr>))
       else Ok u) = Ok s'"
    using assms unfolding settle_bitmaps_def by (simp only: rbind_Ok_iff) blast
  have "rs_block_bitmap u = rs_block_bitmap s \<and> rs_inode_bitmap u = rs_inode_bitmap s
    \<and> rs_inode_bitmap_touched u = rs_inode_bitmap_touched s \<and> sb_geometry (rs_sb u) = sb_geometry (rs_sb s)
    \<and> sb_block_bitmap_crc (rs_sb u) = (if rs_bitmap_touched s then crc_hash (bm_bits (rs_block_bitmap s)) else sb_block_bitmap_crc (rs_sb s))
    \<and> sb_inode_bitmap_crc (rs_sb u) = sb_inode_bitmap_crc (rs_sb s)"
    using u(1) by (cases "rs_bitmap_touched s") (auto simp only: rbind_Ok_iff result.inject if_True if_False, simp_all)
  moreover have "rs_block_bitmap s' = rs_block_bitmap u \<and> rs_inode_bitmap s' = rs_inode_bitmap u
    \<and> sb_geometry (rs_sb s') = sb_geometry (rs_sb u) \<and> sb_block_bitmap_crc (rs_sb s') = sb_block_bitmap_crc (rs_sb u)
    \<and> sb_inode_bitmap_crc (rs_sb s')
        = (if rs_inode_bitmap_touched u then crc_hash (bm_bits (rs_inode_bitmap u)) else sb_inode_bitmap_crc (rs_sb u))"
    using u(2) by (cases "rs_inode_bitmap_touched u") (auto simp only: rbind_Ok_iff result.inject if_True if_False, simp_all)
  ultimately show ?thesis
    by (simp only: )
qed

section \<open>The pass returns\<close>

lemma recount_free_blocks_returns:
  assumes "wf_bitmap bm" "bm_capacity bm = g_total_blocks geom"
    and "unat (g_total_blocks geom) \<le> unat (g_data_start geom) + unat (g_data_blocks geom)"
  shows "\<exists>n. recount_free_blocks geom bm = Ok n"
proof -
  obtain n where "count_allocated bm (g_data_start geom) (g_total_blocks geom) = Ok n"
    "unat n \<le> unat (g_total_blocks geom) - unat (g_data_start geom)"
    using count_allocated_card [OF assms(1), of "g_total_blocks geom"] assms(2) by auto
  then show ?thesis
    using assms(3) by (simp add: recount_free_blocks_def usub_def word_le_nat_alt)
qed

lemma recount_free_inodes_returns:
  assumes "wf_bitmap bm" "bm_capacity bm = g_inode_count geom"
  shows "\<exists>n. recount_free_inodes geom bm = Ok n"
proof -
  have "used bm \<subseteq> {..<unat (g_inode_count geom)}"
    using assms(2) by (auto simp: used_def)
  then have "card (used bm) \<le> unat (g_inode_count geom)"
    by (metis card_lessThan card_mono finite_lessThan)
  then have "(of_nat (card (used bm)) :: u64) \<le> g_inode_count geom"
    using unat_u64_lt [of "g_inode_count geom"] by (simp add: word_le_nat_alt unat_of_nat_ok)
  then show ?thesis
    using popcount_card [OF assms(1)] by (simp add: recount_free_inodes_def usub_def)
qed

text \<open>The bitmaps of the pass have the sizes of the volume.\<close>

definition fits :: "geometry \<Rightarrow> repair_state \<Rightarrow> bool" where
  "fits geom s \<longleftrightarrow> wf_bitmap (rs_block_bitmap s) \<and> bm_capacity (rs_block_bitmap s) = g_total_blocks geom
     \<and> wf_bitmap (rs_inode_bitmap s) \<and> bm_capacity (rs_inode_bitmap s) = g_inode_count geom"

lemma mark_block_returns:
  assumes "fits geom s"
  shows "\<exists>s'. mark_block geom i b s = Ok s' \<and> fits geom s'"
proof (cases "is_data_block geom b")
  case True
  then have "b < bm_capacity (rs_block_bitmap s)"
    using assms by (simp add: is_data_block_def fits_def)
  moreover have "wf_bitmap (rs_block_bitmap s)"
    using assms by (simp add: fits_def)
  ultimately obtain bm where "bm_set b (rs_block_bitmap s) = (Ok (unat b \<notin> used (rs_block_bitmap s)), bm)" "wf_bitmap bm"
    "bm_capacity bm = bm_capacity (rs_block_bitmap s)"
    using bm_set_ok by blast
  then show ?thesis
    using True assms by (simp add: mark_block_def clocal_def cignore_def fits_def)
qed (use assms in \<open>simp add: mark_block_def fits_def\<close>)

lemma clear_slot_returns:
  assumes "fits geom s"
  shows "\<exists>s'. clear_slot i slot s = Ok s' \<and> fits geom s'"
proof (cases "unat slot \<in> used (rs_inode_bitmap s)")
  case True
  have wf: "wf_bitmap (rs_inode_bitmap s)"
    using assms by (simp add: fits_def)
  have lt: "slot < bm_capacity (rs_inode_bitmap s)"
    using True by (simp add: used_def word_less_nat_alt)
  obtain bm where "bm_clear slot (rs_inode_bitmap s) = (Ok (unat slot \<in> used (rs_inode_bitmap s)), bm)" "wf_bitmap bm"
    "bm_capacity bm = bm_capacity (rs_inode_bitmap s)"
    using bm_clear_ok [OF wf lt] by blast
  then show ?thesis
    using is_set_ok [OF wf lt] True assms by (simp add: clear_slot_def clocal_def cignore_def unwrap_or_def fits_def)
next
  case False
  have wf: "wf_bitmap (rs_inode_bitmap s)"
    using assms by (simp add: fits_def)
  have "unwrap_or (is_set (rs_inode_bitmap s) slot) False = Ok False"
    using is_set_ok [OF wf] is_set_err False by (cases "slot < bm_capacity (rs_inode_bitmap s)") (simp_all add: unwrap_or_def)
  then show ?thesis
    using assms by (simp add: clear_slot_def fits_def)
qed

lemma repair_issue_returns:
  assumes "fits geom s" "unat (g_total_blocks geom) \<le> unat (g_data_start geom) + unat (g_data_blocks geom)"
  shows "\<exists>s'. repair_issue geom bb ib i s = Ok s' \<and> fits geom s'"
proof -
  obtain n m where "recount_free_blocks geom (rs_block_bitmap s) = Ok n" "recount_free_inodes geom (rs_inode_bitmap s) = Ok m"
    using recount_free_blocks_returns recount_free_inodes_returns assms unfolding fits_def by blast
  then show ?thesis
    using assms(1) mark_block_returns [OF assms(1)] clear_slot_returns [OF assms(1)]
    by (auto simp: repair_issue_def Let_def split: option.split) (auto simp: fits_def)
qed

lemma repair_issues_return:
  assumes "fits geom s" "unat (g_total_blocks geom) \<le> unat (g_data_start geom) + unat (g_data_blocks geom)"
  shows "\<exists>s'. rfor (repair_issue geom bb ib) js s = Ok s' \<and> fits geom s'"
  using assms(1)
proof (induction js arbitrary: s)
  case (Cons i js)
  then obtain u where "repair_issue geom bb ib i s = Ok u" "fits geom u"
    using repair_issue_returns [OF Cons.prems assms(2)] by blast
  then show ?case
    using Cons.IH [of u] by simp
qed simp

lemma settle_returns:
  assumes "fits geom s" "unat (g_total_blocks geom) \<le> unat (g_data_start geom) + unat (g_data_blocks geom)"
  shows "\<exists>s'. settle_bitmaps geom s = Ok s'"
proof -
  obtain n m where "recount_free_blocks geom (rs_block_bitmap s) = Ok n" "recount_free_inodes geom (rs_inode_bitmap s) = Ok m"
    using recount_free_blocks_returns recount_free_inodes_returns assms unfolding fits_def by blast
  then show ?thesis
    by (auto simp: settle_bitmaps_def)
qed

text \<open>What a check that returned has read.\<close>

lemma check_volume_reads:
  assumes "check_volume ops d sb r = Ok rep"
  obtains bb ib bbm ibm where
    "read_region ops d (g_block_bitmap_start (sb_geometry sb)) (g_block_bitmap_blocks (sb_geometry sb)) = Ok bb"
    "bitmap_from_bytes bb (g_total_blocks (sb_geometry sb)) = Ok bbm"
    "read_region ops d (g_inode_bitmap_start (sb_geometry sb)) (g_inode_bitmap_blocks (sb_geometry sb)) = Ok ib"
    "bitmap_from_bytes ib (g_inode_count (sb_geometry sb)) = Ok ibm"
  using assms unfolding check_volume_def Let_def by (simp only: rbind_Ok_iff) blast

lemma repair_plan_returns:
  assumes "read_sb_with_fallbacks ops d = Ok sb" "check_volume ops d sb r = Ok rep"
    and "unat (g_total_blocks (sb_geometry sb)) \<le> unat (g_data_start (sb_geometry sb)) + unat (g_data_blocks (sb_geometry sb))"
  shows "\<exists>s. repair_plan ops rep d = Ok (sb_geometry sb, s)"
proof -
  obtain bb ib bbm ibm where m:
    "read_region ops d (g_block_bitmap_start (sb_geometry sb)) (g_block_bitmap_blocks (sb_geometry sb)) = Ok bb"
    "bitmap_from_bytes bb (g_total_blocks (sb_geometry sb)) = Ok bbm"
    "read_region ops d (g_inode_bitmap_start (sb_geometry sb)) (g_inode_bitmap_blocks (sb_geometry sb)) = Ok ib"
    "bitmap_from_bytes ib (g_inode_count (sb_geometry sb)) = Ok ibm"
    by (rule check_volume_reads [OF assms(2)])
  have "fits (sb_geometry sb) (repair_start sb bbm ibm)"
    using bitmap_from_bytes_wf [OF m(2)] bitmap_from_bytes_wf [OF m(4)] m(2,4)
    by (simp add: fits_def repair_start_def bitmap_from_bytes_Ok_iff)
  then obtain u s where "rfor (repair_issue (sb_geometry sb) bb ib) (actionable rep) (repair_start sb bbm ibm) = Ok u"
    "settle_bitmaps (sb_geometry sb) u = Ok s"
    using repair_issues_return [OF _ assms(3)] settle_returns [OF _ assms(3)] by blast
  then show ?thesis
    by (simp add: repair_plan_def assms(1) m Let_def)
qed

section \<open>The issues of a report and the violations they stand for\<close>

lemma slot_issue_block:
  assumes "i \<in> slot_issues ops d geom bm t" "fi_code i \<in> block_codes"
  shows "\<exists>b \<in> slot_blocks ops d geom t. parse_block_from_message (fi_message i) = Some b \<and> is_set bm b \<noteq> Ok True"
proof -
  obtain rec es where r: "slot_record ops d geom t = Ok (Some rec)" "i_kind rec \<noteq> Unused" "slot_extents ops d rec = Ok (Some es)"
      "i \<in> block_issues bm t rec es"
    using assms by (auto simp: slot_issues_def block_codes_def unused_issue_def split: result.splits option.splits if_splits)
  then have "slot_holds ops d geom t (claimed rec es)"
    by (auto simp: slot_holds_def)
  then have "slot_blocks ops d geom t = claimed rec es"
    by (rule slot_blocks_eq)
  then show ?thesis
    using r(4) parse_attr parse_extent by (auto simp: block_issues_def claimed_def split: if_splits)
qed

lemma block_has_issue:
  assumes "b \<in> slot_blocks ops d geom t" "is_set bm b \<noteq> Ok True"
  shows "\<exists>i \<in> slot_issues ops d geom bm t. fi_code i \<in> block_codes \<and> parse_block_from_message (fi_message i) = Some b"
proof -
  obtain rec es where r: "slot_record ops d geom t = Ok (Some rec)" "i_kind rec \<noteq> Unused" "slot_extents ops d rec = Ok (Some es)"
      "b \<in> claimed rec es"
    using assms(1) by (auto simp: slot_blocks_def slot_holds_def)
  then have "slot_issues ops d geom bm t = block_issues bm t rec es"
    by (simp add: slot_issues_def)
  moreover have "attr_issue t b \<in> block_issues bm t rec es \<or> extent_issue t b \<in> block_issues bm t rec es"
    using r(4) assms(2) by (auto simp: block_issues_def claimed_def split: if_splits)
  moreover have "fi_code (attr_issue t b) \<in> block_codes" "fi_code (extent_issue t b) \<in> block_codes"
    by (simp_all add: attr_issue_def extent_issue_def block_codes_def)
  ultimately show ?thesis
    using parse_attr parse_extent by blast
qed

lemma slot_issue_unused:
  "i \<in> slot_issues ops d geom bm t \<Longrightarrow> fi_code i = ''ODF.INODE.UNUSED_BUT_BITMAP_SET'' \<Longrightarrow> i = unused_issue t \<and> slot_unused ops d geom t"
  by (auto simp: slot_issues_def slot_unused_def block_issues_def attr_issue_def extent_issue_def
      split: result.splits option.splits if_splits)

lemma unused_has_issue: "slot_unused ops d geom t \<Longrightarrow> unused_issue t \<in> slot_issues ops d geom bm t"
  by (auto simp: slot_issues_def slot_unused_def)

lemma unused_holds_nothing: "slot_unused ops d geom t \<Longrightarrow> slot_blocks ops d geom t = {}"
  by (auto simp: slot_unused_def slot_blocks_def slot_holds_def)

lemma is_set_True_iff: "wf_bitmap bm \<Longrightarrow> is_set bm b = Ok True \<longleftrightarrow> unat b \<in> used bm"
  using is_set_ok [of bm b] is_set_err [of b bm] by (cases "b < bm_capacity bm") (auto simp: used_def word_less_nat_alt)

text \<open>The bitmaps after the pass, for a report whose slot issues are those of the slots \<open>S\<close>.\<close>

lemma repaired_bits:
  assumes "{i \<in> set (fk_issues rep). fi_code i \<in> slot_codes} = (\<Union>t \<in> S. slot_issues ops d geom bbm t)"
    and "\<forall>t \<in> S. \<forall>b \<in> slot_blocks ops d geom t. is_data_block geom b" "wf_bitmap bbm"
  shows "dropped (actionable rep) = unat ` {t \<in> S. slot_unused ops d geom t}"
    and "used bbm \<union> marked geom (actionable rep) = used bbm \<union> unat ` (\<Union>t \<in> S. slot_blocks ops d geom t)"
proof -
  have act: "i \<in> set (actionable rep) \<longleftrightarrow> (\<exists>t \<in> S. i \<in> slot_issues ops d geom bbm t)" if "fi_code i \<in> slot_codes" for i
  proof -
    have "i \<in> set (fk_issues rep) \<longleftrightarrow> i \<in> {i \<in> set (fk_issues rep). fi_code i \<in> slot_codes}"
      using that by simp
    then have "i \<in> set (fk_issues rep) \<longleftrightarrow> (\<exists>t \<in> S. i \<in> slot_issues ops d geom bbm t)"
      unfolding assms(1) by simp
    then show ?thesis
      using slot_issue_codes [of i ops d geom bbm] unfolding actionable_def by (simp only: set_filter mem_Collect_eq) blast
  qed
  have u: "''ODF.INODE.UNUSED_BUT_BITMAP_SET'' \<in> slot_codes" and b: "block_codes \<subseteq> slot_codes"
    by (simp_all add: slot_codes_def block_codes_def)
  have code: "fi_code (unused_issue t) = ''ODF.INODE.UNUSED_BUT_BITMAP_SET''" for t
    by (simp add: unused_issue_def)
  have mem: "unused_issue t \<in> set (actionable rep)" if "t \<in> S" "slot_unused ops d geom t" for t
    using act [of "unused_issue t"] that u code [of t] unused_has_issue [OF that(2), of bbm] by auto
  show "dropped (actionable rep) = unat ` {t \<in> S. slot_unused ops d geom t}"
  proof (intro equalityI subsetI)
    fix n assume "n \<in> dropped (actionable rep)"
    then obtain i s where i: "n = unat s" "i \<in> set (actionable rep)" "fi_code i = ''ODF.INODE.UNUSED_BUT_BITMAP_SET''"
        "parse_slot_from_message (fi_message i) = Some s"
      by (auto simp: dropped_def)
    then obtain t where "t \<in> S" "i \<in> slot_issues ops d geom bbm t"
      using act [of i] u by auto
    then show "n \<in> unat ` {t \<in> S. slot_unused ops d geom t}"
      using slot_issue_unused [of i ops d geom bbm t] i parse_unused [of t] by auto
  next
    fix n assume "n \<in> unat ` {t \<in> S. slot_unused ops d geom t}"
    then show "n \<in> dropped (actionable rep)"
      using mem code parse_unused by (fastforce simp: dropped_def)
  qed
  have "marked geom (actionable rep) \<subseteq> unat ` (\<Union>t \<in> S. slot_blocks ops d geom t)"
  proof
    fix n assume "n \<in> marked geom (actionable rep)"
    then obtain i c where i: "n = unat c" "i \<in> set (actionable rep)" "fi_code i \<in> block_codes"
        "parse_block_from_message (fi_message i) = Some c"
      by (auto simp: marked_def)
    then obtain t where "t \<in> S" "i \<in> slot_issues ops d geom bbm t"
      using act [of i] b by auto
    then show "n \<in> unat ` (\<Union>t \<in> S. slot_blocks ops d geom t)"
      using slot_issue_block [of i ops d geom bbm t] i by auto
  qed
  moreover have "unat c \<in> used bbm \<union> marked geom (actionable rep)" if "t \<in> S" "c \<in> slot_blocks ops d geom t" for t c
  proof (cases "is_set bbm c = Ok True")
    case True
    then show ?thesis
      using is_set_True_iff [OF assms(3)] by simp
  next
    case False
    from block_has_issue [OF \<open>c \<in> slot_blocks ops d geom t\<close> False]
    obtain i where i: "i \<in> slot_issues ops d geom bbm t" "fi_code i \<in> block_codes" "parse_block_from_message (fi_message i) = Some c"
      by blast
    moreover have "i \<in> set (actionable rep)"
      using act [of i] b i(1,2) \<open>t \<in> S\<close> by blast
    moreover have "is_data_block geom c"
      using assms(2) that by blast
    ultimately have "unat c \<in> marked geom (actionable rep)"
      unfolding marked_def by blast
    then show ?thesis
      by simp
  qed
  ultimately show "used bbm \<union> marked geom (actionable rep) = used bbm \<union> unat ` (\<Union>t \<in> S. slot_blocks ops d geom t)"
    by blast
qed

text \<open>The report of a whole check, when it has no error beyond repair.\<close>

lemma check_covers:
  assumes "fsck_check ops d = Ok rep" "only_repairable rep"
  obtains sb r where "read_sb_with_fallbacks ops d = Ok sb" "check_volume ops d sb r = Ok rep"
    "\<forall>i \<in> set (fk_issues r). fi_code i \<notin> slot_codes"
proof -
  obtain p t s where pts: "kept (read_superblock_at ops d PRIMARY_SUPERBLOCK_BLOCK) = Ok p"
    "(case choose_superblock p t s fsck_report_default of
       (None, r) \<Rightarrow> Ok r
     | (Some sb, r) \<Rightarrow> check_volume ops d sb (check_copies sb t s r)) = Ok rep"
    using assms unfolding fsck_check_def Let_def by (simp only: rbind_Ok_iff) blast
  define bad where "bad = \<lparr>fi_severity = Error, fi_code = ''ODF.SB.PRIMARY_UNREADABLE'', fi_message = ''primary superblock: ''\<rparr>"
  have badc: "fi_severity bad = Error" "fi_code bad \<notin> set repairable" "fi_code bad \<notin> slot_codes"
    by (simp_all add: bad_def repairable_def slot_codes_def)
  have no: "i \<in> set (fk_issues (check_copies sb t s r)) \<Longrightarrow> fi_code i \<in> slot_codes \<Longrightarrow> i \<in> set (fk_issues r)" for i sb r
    using adds_other_copies [of r sb t s] by (simp add: adds_other_def)
  have sub: "set (fk_issues r) \<subseteq> set (fk_issues (check_copies sb t s r))" for sb r
    using adds_other_copies [of r sb t s] by (simp add: adds_other_def)
  show thesis
  proof (cases p)
    case None
    define r0 where "r0 = add_issue Error ''ODF.SB.PRIMARY_UNREADABLE'' ''primary superblock: '' fsck_report_default"
    have r0: "set (fk_issues r0) = {bad}"
      by (simp add: r0_def bad_def add_issue_def fsck_report_default_def)
    have "bad \<in> set (fk_issues rep)"
    proof (cases "fst (choose_superblock p t s fsck_report_default)")
      case None
      then have "rep = snd (choose_superblock p t s fsck_report_default)"
        using pts(2) by (simp split: prod.splits)
      then show ?thesis
        using \<open>p = None\<close> None r0 by (auto simp: choose_superblock_def Let_def add_issue_def r0_def split: option.splits)
    next
      case (Some sb)
      then have "choose_superblock p t s fsck_report_default = (Some sb, r0)"
        using \<open>p = None\<close> by (auto simp: choose_superblock_def Let_def r0_def split: option.splits)
      then have run: "check_volume ops d sb (check_copies sb t s r0) = Ok rep"
        using pts(2) by simp
      have "\<forall>i \<in> set (fk_issues (check_copies sb t s r0)). fi_code i \<notin> slot_codes"
        using no [of _ sb r0] badc(3) unfolding r0 by blast
      from check_volume_covers [OF run assms(2) this]
      have "set (fk_issues (check_copies sb t s r0)) \<subseteq> set (fk_issues rep)"
        unfolding Let_def by blast
      then show ?thesis
        using sub [of r0 sb] r0 by blast
    qed
    then have "fi_code bad \<in> set repairable"
      using assms(2) badc(1) unfolding only_repairable_def by blast
    with badc(2) show thesis
      by (rule notE)
  next
    case (Some sb)
    then have "read_sb_with_fallbacks ops d = Ok sb"
      using pts(1) by (simp add: kept_Ok_iff read_sb_with_fallbacks_def)
    moreover have "check_volume ops d sb (check_copies sb t s fsck_report_default) = Ok rep"
      using pts(2) Some by (simp add: choose_superblock_def)
    ultimately show thesis
      using that no [of _ sb fsck_report_default] by (auto simp: fsck_report_default_def)
  qed
qed

section \<open>Consistency is restored\<close>

lemma repair_plan_run:
  assumes "repair_plan ops rep d = Ok (geom, s)"
  obtains sb bb ib bbm ibm u where "read_sb_with_fallbacks ops d = Ok sb" "geom = sb_geometry sb"
    "read_region ops d (g_block_bitmap_start geom) (g_block_bitmap_blocks geom) = Ok bb"
    "read_region ops d (g_inode_bitmap_start geom) (g_inode_bitmap_blocks geom) = Ok ib"
    "bitmap_from_bytes bb (g_total_blocks geom) = Ok bbm" "bitmap_from_bytes ib (g_inode_count geom) = Ok ibm"
    "rfor (repair_issue geom bb ib) (actionable rep) (repair_start sb bbm ibm) = Ok u" "settle_bitmaps geom u = Ok s"
  using assms unfolding repair_plan_def Let_def by (simp only: rbind_Ok_iff result.inject prod.inject) blast

lemma crc_after_settled:
  assumes "crc \<noteq> 0 \<and> crc_hash bs \<noteq> crc \<longrightarrow> has_error code rep"
  shows "crc_after code bs crc (actionable rep) \<in> {0, crc_hash bs}"
proof (cases "code \<in> fi_code ` set (actionable rep)")
  case False
  then have "\<not> has_error code rep"
    unfolding has_error_def actionable_def by (simp only: set_filter) blast
  then show ?thesis
    using assms False by (auto simp: crc_after_def)
qed (simp add: crc_after_def)


end
