(* ===== verification/Fsck_Props.thy ===== *)
theory Fsck_Props
  imports Fsck_Repair_Props Volume_Props
begin

text \<open>
  A small volume with one file, on which the check and the repair pass are run: whole, and with a damaged block
  bitmap.
\<close>

section \<open>A volume\<close>

definition sample_geometry :: geometry where
  "sample_geometry = \<lparr>g_total_blocks = 10, g_block_bitmap_start = 2, g_block_bitmap_blocks = 1, g_inode_bitmap_start = 3,
     g_inode_bitmap_blocks = 1, g_inode_table_start = 4, g_inode_table_blocks = 1, g_inode_count = 16,
     g_journal_start = 5, g_journal_blocks = 0, g_data_start = 5, g_data_blocks = 5,
     g_secondary_superblock_block = 9, g_tertiary_superblock_block = 5\<rparr>"

definition sample_sb :: superblock where
  "sample_sb = for_new_volume sample_geometry (zeros 16) [] 0"

text \<open>A file of one block, block 6, in slot 2; the first byte of the block bitmap is a parameter.\<close>

definition sample_inode :: on_disk_inode where
  "sample_inode = inode_unused\<lparr>i_kind := File, i_size_bytes := 5,
     i_extents := [\<lparr>ext_logical_block = 0, ext_length_blocks = 1, ext_physical_block = 6\<rparr>]\<rparr>"

definition sample_image :: "u8 \<Rightarrow> bytes" where
  "sample_image b = puts [(4096, crc_seal 508 (sb_body sample_sb)), (8192, [b, 2]), (12288, [4]),
     (16896, crc_seal 252 (inode_body sample_inode))] (zeros 40960)"

definition sample_device :: "u8 \<Rightarrow> memory_device" where
  "sample_device b = \<lparr>md_data = sample_image b,
     md_geometry = \<lparr>dg_sector_size = 512, dg_sector_count = 80, dg_capacity_bytes = 40960, dg_read_only = False\<rparr>,
     md_trim_supported = True, md_trimmed_ranges = []\<rparr>"


lemma sample_sb_sel:
  "wf_superblock sample_sb" "supported sample_sb"
  by (simp_all add: sample_sb_def wf_new supported_new)

lemma sample_sb_fields:
  "sb_geometry sample_sb = sample_geometry" "sb_block_bitmap_crc sample_sb = 0" "sb_inode_bitmap_crc sample_sb = 0"
  by (simp_all add: sample_sb_def for_new_volume_def Let_def sb_geometry_def sample_geometry_def sat_sub_def)

lemma sample_inode_length: "length (inode_body sample_inode) = 256"
  by (simp add: sample_inode_def inode_unused_def)

lemma sample_length: "length (sample_image b) = 40960"
  by (simp add: sample_image_def sample_sb_sel sample_inode_length)

lemma sample_read:
  assumes "4096 dvd unat off" "unat off + 4096 \<le> 40960"
  shows "mem_read_at (sample_device b) off BLOCK_SIZE = Ok (cut (unat off) 4096 (sample_image b))"
proof -
  have "(512 :: nat) dvd 4096"
    by (simp add: dvd_eq_mod_eq_0)
  then have "512 dvd unat off"
    using assms(1) dvd_trans by blast
  then show ?thesis
    using assms(2) sample_length mem_read_eq [of "sample_device b" off BLOCK_SIZE] by (simp add: sample_device_def BLOCK_SIZE_def dvd_eq_mod_eq_0)
qed

lemma put_zeros: "put 0 xs (zeros n) = xs @ zeros (n - length xs)"
  by (simp add: put_def zeros_def)

lemma cut_of_put: "a \<le> off \<Longrightarrow> off + length src \<le> a + n \<Longrightarrow> a + n \<le> length buf \<Longrightarrow> cut a n (put off src buf) = put (off - a) src (cut a n buf)"
  by (rule buf_eqI) (auto simp: nth_put nth_cut algebra_simps)

lemma sample_blocks:
  "cut 4096 4096 (sample_image b) = crc_seal 508 (sb_body sample_sb)"
  "cut 8192 4096 (sample_image b) = [b, 2] @ zeros 4094" "cut 12288 4096 (sample_image b) = [4] @ zeros 4095"
  "cut 512 256 (cut 16384 4096 (sample_image b)) = crc_seal 252 (inode_body sample_inode)"
  "cut 20480 4096 (sample_image b) = zeros 4096" "cut 36864 4096 (sample_image b) = zeros 4096"
  by (simp_all add: sample_image_def sample_sb_sel sample_inode_length cut_cut cut_of_put put_zeros)

definition sample_bbm :: "u8 \<Rightarrow> bitmap" where
  "sample_bbm b = \<lparr>bm_bits = [b, 2] @ zeros 4094, bm_capacity = 10\<rparr>"

definition sample_ibm :: bitmap where
  "sample_ibm = \<lparr>bm_bits = [4] @ zeros 4095, bm_capacity = 16\<rparr>"

lemma sample_wf: "wf_bitmap (sample_bbm b)" "wf_bitmap sample_ibm"
  by (simp_all add: wf_bitmap_def sample_bbm_def sample_ibm_def)

lemma sample_block_set: "is_set (sample_bbm b) 6 = Ok (bit b 6)"
proof -
  have "unat (6 :: u64) \<in> used (sample_bbm b) \<longleftrightarrow> bit b 6"
    by (simp add: sample_bbm_def used_def bm_bit_def)
  then show ?thesis
    using is_set_ok [OF sample_wf(1), of 6] by (simp add: sample_bbm_def)
qed

lemma sample_slot_set: "s < 16 \<Longrightarrow> is_set sample_ibm s = Ok (s = 2)"
proof -
  assume "s < 16"
  then have s: "unat s < 16"
    by (simp add: word_less_nat_alt)
  have four: "bit (4 :: u8) n \<longleftrightarrow> n = 2" for n
    using bit_exp_u8 [of 2 n] by simp
  have "bm_bit sample_ibm (unat s) \<longleftrightarrow> unat s = 2"
  proof (cases "unat s < 8")
    case True
    then show ?thesis
      using four [of "unat s"] by (simp add: bm_bit_def sample_ibm_def)
  next
    case False
    then have "unat s div 8 = 1"
      using s by auto
    then show ?thesis
      using False by (simp add: bm_bit_def sample_ibm_def zeros_def)
  qed
  moreover have "unat s = 2 \<longleftrightarrow> s = 2"
    by (simp add: word_unat_eq_iff)
  ultimately show ?thesis
    using s \<open>s < 16\<close> by (subst is_set_ok [OF sample_wf(2)]) (simp_all add: used_def sample_ibm_def)
qed

lemma sample_read_superblocks:
  "read_superblock_at mem_ops (sample_device b) PRIMARY_SUPERBLOCK_BLOCK = Ok sample_sb"
  "read_superblock_at mem_ops (sample_device b) 5 = sb_decode_block (zeros 4096)"
  "read_superblock_at mem_ops (sample_device b) 9 = sb_decode_block (zeros 4096)"
  using sb_roundtrip [OF sample_sb_sel] sample_blocks
  by (simp_all add: read_superblock_at_def umul_def BLOCK_SIZE_def PRIMARY_SUPERBLOCK_BLOCK_def sample_read [unfolded BLOCK_SIZE_def])

lemma sample_regions:
  "read_region mem_ops (sample_device b) 2 1 = Ok (bm_bits (sample_bbm b))" "read_region mem_ops (sample_device b) 3 1 = Ok (bm_bits sample_ibm)"
  using sample_blocks
  by (simp_all add: read_region_def umul_def BLOCK_SIZE_def sample_read [unfolded BLOCK_SIZE_def] sample_bbm_def sample_ibm_def)

lemma sample_record: "slot_record mem_ops (sample_device b) sample_geometry 2 = Ok (Some sample_inode)"
proof -
  have "inode_record_location sample_geometry 2 = Ok (4, 512)"
    by (simp add: inode_record_location_def sample_geometry_def uadd_def INODES_PER_BLOCK_def BLOCK_SIZE_def INODE_SIZE_def)
  moreover have "mem_read_at (sample_device b) 16384 4096 = Ok (cut 16384 4096 (sample_image b))"
    using sample_read [of 16384] by (simp add: BLOCK_SIZE_def dvd_eq_mod_eq_0)
  moreover have "inode_decode (crc_seal 252 (inode_body sample_inode)) = Ok sample_inode"
    by (rule inode_roundtrip) (simp add: sample_inode_def)
  ultimately show ?thesis
    using sample_blocks(4) by (simp add: slot_record_def umul_def BLOCK_SIZE_def cut_res_def INODE_RECORD_SIZE_def sample_length kept_def)
qed

text \<open>A walk over slots that are not in use.\<close>

lemma walk_unused: "\<forall>s \<in> set slots. is_set ibm s = Ok False \<Longrightarrow> rfor (check_slot ops d geom bbm ibm) slots w = Ok w"
  by (induction slots) (simp_all add: check_slot_def)

lemma sample_slot:
  assumes "fk_inodes_checked r = 0" "fk_extents_checked r = 0" "fk_blocks_referenced r = 0"
  shows "\<exists>w'. check_slot mem_ops (sample_device b) sample_geometry (sample_bbm b) sample_ibm 2 \<lparr>wk_report = r, wk_owners = (\<lambda>_. None)\<rparr> = Ok w'
    \<and> fk_issues (wk_report w') = fk_issues r @ (if bit b 6 then [] else [extent_issue 2 6])"
proof -
  have "is_data_block sample_geometry 6"
    by (simp add: is_data_block_def sample_geometry_def)
  moreover have "range64 0 (ucast (1 :: u32)) = [0]"
    by (simp add: range64_def)
  moreover have "slot_extents mem_ops (sample_device b) sample_inode = Ok (Some (i_extents sample_inode))"
    by (simp add: slot_extents_def sample_inode_def inode_unused_def)
  ultimately show ?thesis
    using assms sample_slot_set [of 2] sample_block_set [of b] sample_record [of b]
    by (simp add: check_slot_def check_inode_def check_attr_def wk_count_def uadd_def)
      (simp add: sample_inode_def inode_unused_def check_extent_def check_extent_block_def wk_count_def uadd_def
        wk_issue_def add_issue_if_def add_issue_def wk_claim_def Let_def extent_issue_def)
qed

lemma sample_counters: "\<exists>r'. check_counters sample_sb sample_geometry (sample_bbm b) sample_ibm r = Ok r'
   \<and> fk_inodes_checked r' = fk_inodes_checked r \<and> fk_extents_checked r' = fk_extents_checked r
   \<and> fk_blocks_referenced r' = fk_blocks_referenced r
   \<and> (\<forall>i \<in> set (fk_issues r'). fi_severity i = Error \<longrightarrow> i \<in> set (fk_issues r))"
proof -
  obtain n where n: "count_allocated (sample_bbm b) 5 10 = Ok n" "unat n \<le> 5"
    using count_allocated_card [OF sample_wf(1) [of b], of 10 5] by (auto simp: sample_bbm_def)
  have "used sample_ibm \<subseteq> {..<16}"
    by (auto simp: used_def sample_ibm_def)
  then have "card (used sample_ibm) \<le> 16"
    using card_mono [of "{..<16}" "used sample_ibm"] by simp
  then have "(of_nat (card (used sample_ibm)) :: u64) \<le> 16"
    by (simp add: word_le_nat_alt unat_of_nat_ok)
  moreover have "n \<le> 5"
    using n(2) by (simp add: word_le_nat_alt)
  ultimately show ?thesis
    using n(1) popcount_card [OF sample_wf(2)]
    by (simp add: check_counters_def sample_geometry_def usub_def Let_def add_issue_if_def add_issue_def)
qed

text \<open>The check reports no error but the missing bit of block 6.\<close>

lemma sample_check:
  "\<exists>rep. fsck_check mem_ops (sample_device b) = Ok rep \<and> (\<forall>i \<in> set (fk_issues rep). fi_severity i = Error \<longrightarrow> \<not> bit b 6 \<and> i = extent_issue 2 6)"
proof -
  have bad: "kept (sb_decode_block (zeros 4096)) = Ok None"
    using blank_superblock sb_decode_no_panic by (cases "sb_decode_block (zeros 4096)") (auto simp: kept_def)
  define r0 where "r0 = check_copies sample_sb None None fsck_report_default"
  have r0: "\<forall>i \<in> set (fk_issues r0). fi_severity i \<noteq> Error" "fk_inodes_checked r0 = 0" "fk_extents_checked r0 = 0" "fk_blocks_referenced r0 = 0"
    by (simp_all add: r0_def check_copies_def check_copy_def add_issue_def fsck_report_default_def)
  obtain r1 where r1: "check_counters sample_sb sample_geometry (sample_bbm b) sample_ibm r0 = Ok r1"
      "fk_inodes_checked r1 = 0" "fk_extents_checked r1 = 0" "fk_blocks_referenced r1 = 0"
      "\<forall>i \<in> set (fk_issues r1). fi_severity i \<noteq> Error"
    using sample_counters [of b r0] r0 by auto
  obtain w where w: "check_slot mem_ops (sample_device b) sample_geometry (sample_bbm b) sample_ibm 2 \<lparr>wk_report = r1, wk_owners = (\<lambda>_. None)\<rparr> = Ok w"
      "fk_issues (wk_report w) = fk_issues r1 @ (if bit b 6 then [] else [extent_issue 2 6])"
    using sample_slot [OF r1(2-4)] by blast
  have slots: "range64 0 16 = [0, 1] @ [2] @ range64 3 16"
    by (simp add: range64_def upt_rec)
  have unused: "\<forall>s \<in> set [0, 1]. is_set sample_ibm s = Ok False" "\<forall>s \<in> set (range64 3 16). is_set sample_ibm s = Ok False"
    using sample_slot_set by (auto simp: set_range64)
  note skip = walk_unused [OF unused(1)] walk_unused [OF unused(2)]
  have walk: "rfor (check_slot mem_ops (sample_device b) sample_geometry (sample_bbm b) sample_ibm) (range64 0 16)
      \<lparr>wk_report = r1, wk_owners = (\<lambda>_. None)\<rparr> = Ok w"
    by (simp only: slots rfor_append skip rbind.simps rfor.simps(2) [of _ 2] w rfor.simps(1))
  have bitmaps: "bitmap_from_bytes (bm_bits (sample_bbm b)) 10 = Ok (sample_bbm b)" "bitmap_from_bytes (bm_bits sample_ibm) 16 = Ok sample_ibm"
    by (simp_all add: bitmap_from_bytes_def sample_bbm_def sample_ibm_def BLOCK_SIZE_def)
  have cap: "dev_capacity mem_ops (sample_device b) div BLOCK_SIZE = 10"
    by (simp add: dev_capacity_def sample_device_def BLOCK_SIZE_def)
  have geom: "g_block_bitmap_start sample_geometry = 2" "g_block_bitmap_blocks sample_geometry = 1" "g_inode_bitmap_start sample_geometry = 3"
    "g_inode_bitmap_blocks sample_geometry = 1" "g_total_blocks sample_geometry = 10" "g_inode_count sample_geometry = 16" "g_journal_blocks sample_geometry = 0"
    by (simp_all add: sample_geometry_def)
  define rep where "rep = add_issue Info ''ODF.SUMMARY.KINDS'' (dec64 (fk_inodes_checked (wk_report w)) @ '' inode(s) checked: '') (wk_report w)"
  have "check_volume mem_ops (sample_device b) sample_sb r0 = Ok rep"
    unfolding check_volume_def Let_def sample_sb_fields geom sample_regions rbind.simps bitmaps check_bitmap_crc_def
    by (simp add: add_issue_if_def r1(1) walk check_journal_def geom rep_def)
  moreover have "fsck_check mem_ops (sample_device b) = check_volume mem_ops (sample_device b) sample_sb r0"
    using bad by (simp add: fsck_check_def sample_read_superblocks cap usub_def kept_def choose_superblock_def r0_def)
  moreover have "\<forall>i \<in> set (fk_issues rep). fi_severity i = Error \<longrightarrow> \<not> bit b 6 \<and> i = extent_issue 2 6"
    using r1(5) w(2) by (auto simp: rep_def add_issue_def split: if_splits)
  ultimately show ?thesis
    by simp
qed

section \<open>The check and the pass on it\<close>



end
