(* ===== verification/Spec2Isabelle.thy ===== *)
theory Spec2Isabelle
  imports Bitmap Superblock Inode_Record Attr_Block Dir_Entry Xattr_Block Block_Group
    Fault_Injection Extent_Chain Journal_Safety Allocator_Props Refcount Multi_Group Fuse_Session Volume_Props Resize
    Block_Store_Remount Journaled_Props Hkdf Fsck_Props
begin

text \<open>
  CoreFS: the on-disk core of a copy-on-write file system, as definitions of HOL translated from the
  Rust sources and the properties that make them correct.

  \<^bold>\<open>The program.\<close>  \<open>corefs-core/src/storage/ondisk\<close> holds the on-disk format: a volume is a device of
  4096-byte blocks, laid out as a reserved block, a superblock, an allocation bitmap for blocks and
  one for inodes, an inode table, a journal and the data region; two more copies of the superblock
  are kept in the middle and in the last block.  \<open>layout.rs\<close> computes this plan, \<open>superblock.rs\<close>,
  \<open>inode.rs\<close>, \<open>attr_block.rs\<close>, \<open>dir_entry.rs\<close>, \<open>xattr.rs\<close>, \<open>block_group.rs\<close> and \<open>extent_tree.rs\<close> encode
  and decode its records, each sealed with the CRC32C of \<open>checksum.rs\<close>; \<open>bitmap.rs\<close>, \<open>allocator.rs\<close>,
  \<open>multi_group_allocator.rs\<close> and \<open>refcount.rs\<close> hand out blocks; \<open>journal.rs\<close> makes groups of writes
  atomic; \<open>volume.rs\<close> formats, saves and loads a volume; \<open>fsck.rs\<close> checks one and \<open>fsck_repair.rs\<close> repairs
  what the check reports.  All of them reach the disk through the
  trait of \<open>corefs-core/src/storage/block_device.rs\<close>; \<open>fault_injection.rs\<close> is a device that fails on
  purpose.  \<open>corefs-fuse-proto\<close> and \<open>corefs-fuse-adapter\<close> are the message types and the session loop
  between a kernel transport and the file system.  \<open>corefs-core/src/storage/block_store.rs\<close> keeps the
  contents of files as extents of blocks, on a memory device of its own or on a device of the caller.
  \<open>journaled.rs\<close> and \<open>journal_capture.rs\<close> save metadata through the journal, \<open>corefs-core/src/security\<close>
  holds the hash function, the key derivation and the keystore.

  \<^bold>\<open>Conventions\<close> (\<open>Prelude\<close>).  A Rust integer is a word of its width.  Arithmetic that the checked
  build traps is \<open>uadd\<close>, \<open>usub\<close>, \<open>umul\<close>, \<open>urem\<close>: its overflow is the outcome \<open>Panic\<close> of the type
  \<open>result\<close> beside \<open>Ok\<close> and \<open>Err\<close>; a slice out of range is \<open>Panic\<close> as well.  A function that mutates
  \<open>self\<close> or a device is a command \<open>'s \<Rightarrow> 'a result \<times> 's\<close>, composed by \<open>cbind\<close> and \<open>cthen\<close>, so the state
  a failing operation leaves behind is part of the model.  \<open>for\<close> loops are \<open>cfor\<close>/\<open>rfor\<close>; a loop with
  another exit is a function with a measure, usually the distance of a counter to its end; the session
  loop and the loop that rounds up a sector size may run forever and are \<open>partial_function (option)\<close>s.  Error messages keep the literal
  before the first formatted value.  A device is a record of operations \<open>device_ops\<close>, so every
  component is generic in it; the in-memory device is the instance the properties are stated on.

  \<^bold>\<open>The theories\<close>, in the order they build on each other:

  \<^item> \<open>Checksum\<close> (\<open>checksum.rs\<close>): the slicing-by-8 loop with its tables equals the bit-serial register;
    linearity gives the detection of short bursts.
  \<^item> \<open>Codec\<close>: copies into and out of blocks, arrays of fixed-size entries, the locale \<open>sealed_codec\<close>
    that gives a round trip to every sealed record; interpreted by the record theories.
  \<^item> \<open>Layout\<close> (\<open>layout.rs\<close>): the plan tiles the volume; inode slots lie inside the table.
  \<^item> \<open>Bitmap\<close> (\<open>bitmap.rs\<close>): the locale \<open>allocation_map\<close> states what marking and clearing promise;
    the bitmap and, in \<open>Allocator\<close>, the allocator's view of it are its instances.
  \<^item> \<open>Inode_Record\<close>, \<open>Superblock\<close>, \<open>Attr_Block\<close>, \<open>Dir_Entry\<close>, \<open>Xattr_Block\<close>, \<open>Block_Group\<close>, \<open>Utf8\<close>: the
    records, their round trips and the inputs they refuse.
  \<^item> \<open>Block_Device\<close> (\<open>block_device.rs\<close>): the trait, the memory device, and the contracts
    \<open>block_device\<close>, \<open>lossy_device\<close> and \<open>sector_device\<close> as locales; \<open>Fault_Injection\<close>: the faulty device,
    an instance of \<open>lossy_device\<close> when it loses power after \<open>n\<close> writes.
  \<^item> \<open>Extent_Chain\<close> (\<open>extent_tree.rs\<close>): the chain of index blocks; the fuel of the reader is the number
    of blocks it has not visited.
  \<^item> \<open>Journal_Record\<close>, \<open>Journal\<close> (\<open>journal.rs\<close>): records, transactions and replay.
    \<open>Journal_Log\<close> abstracts a journal to the list of its records and a volume to the writes applied to
    it, \<open>Journal_Refine\<close>, \<open>Journal_Commit\<close> and \<open>Journal_Replay\<close> show that append, commit and replay
    implement this; \<open>Journal_Recovery\<close> and \<open>Journal_Safety\<close> draw the conclusions.  Two models of a
    power loss are used.  \<open>power_cut\<close> (\<open>Fault_Injection\<close>) lets a prefix of the writes reach the disk, each one whole;
    the repeatable replay and the theorems of \<open>Journaled_Props\<close> are on it.  \<open>Journal_Cache\<close> is a device with a
    volatile write cache, an instance of \<open>sector_device\<close>: \<open>sync\<close> is its barrier, and after a power loss every
    sector of 512 bytes holds, independently of the others, what it held at the last completed sync or after any
    later write; the atomicity of a commit is on it, and rests on the syncs of the code.
  \<^item> \<open>Journaled\<close>, \<open>Journal_Capture\<close> (\<open>journaled.rs\<close>, \<open>journal_capture.rs\<close>): the save session, the recovery at
    mount, and the device that collects blocks for one transaction.  \<open>Journaled_Crash\<close> runs them on a
    device that loses power after any number of writes (the locale \<open>mortal_device\<close>, interpreted on the
    healthy memory device and on the one with a power cut), and shows that recovery may itself be
    interrupted any number of times; \<open>Journaled_Props\<close> states that a save is atomic and that the
    capturing device is a \<open>block_device\<close> over the overlaid bytes.
  \<^item> \<open>Allocator\<close>, \<open>Allocator_Spec\<close>, \<open>Allocator_Props\<close> (\<open>allocator.rs\<close>): the searches are sound and
    complete against the set of used blocks; a failing request gives everything back.
  \<^item> \<open>Multi_Group\<close> (\<open>multi_group_allocator.rs\<close>), \<open>Refcount\<close> (\<open>refcount.rs\<close>): block groups, and the
    reference counts behind copy on write.
  \<^item> \<open>Volume\<close>, \<open>Volume_Spec\<close>, \<open>Volume_Save\<close>, \<open>Volume_Load\<close>, \<open>Volume_Props\<close> (\<open>volume.rs\<close>): formatting, saving
    and loading.  The locale \<open>volume_device\<close> adds capacity and discard to \<open>sector_device\<close>; in it a
    save is the list of its writes, and loading reads them back.  \<open>Resize\<close> (\<open>resize.rs\<close>): growing a volume.
  \<^item> \<open>Fsck\<close> (\<open>fsck.rs\<close>): the check, as a walk that collects a report.  \<open>Fsck_Sound\<close> gives the meaning of a clean
    report, \<open>consistent_volume\<close>, and shows that the check is exact; \<open>Fsck_Cover\<close> shows which issues a report holds
    for each slot.  \<open>Decimal\<close> and \<open>Fsck_Repair\<close> (\<open>fsck_repair.rs\<close>): the repair pass, which parses numbers back out of
    the messages; \<open>Fsck_Repair_Props\<close> shows that its plan restores consistency, \<open>Fsck_Props\<close> runs both on a small volume.
  \<^item> \<open>Ordered_Map\<close>: \<open>BTreeMap\<close> as a sorted list of pairs, with the locale \<open>lookup_map\<close> of what a client needs.
    \<open>Block_Store\<close>, \<open>Block_Store_Ops\<close>, \<open>Block_Store_Maint\<close> (\<open>block_store.rs\<close>): the allocator of free extents,
    reads, writes and appends; writes of a range and the operations on a device of the caller; clones,
    the checksum table, the constructors and the compaction.  \<open>Block_Store_Space\<close> abstracts the free list to
    the set of available blocks (the locale \<open>space_pool\<close>), \<open>Block_Store_Files\<close> the store to the map
    \<open>files\<close> from inodes to bytes; \<open>Block_Store_Write\<close>, \<open>Block_Store_Append\<close>, \<open>Block_Store_Range\<close> and
    \<open>Block_Store_Patch\<close> show that full writes, appends, removals, range reads and writes inside a file act
    on that map; \<open>Block_Store_Props\<close> and \<open>Block_Store_Faults\<close> state the properties.  Several operations
    treat a record as one range of blocks; the theorems on them assume a file in one range.
    \<open>Block_Store_Split\<close> and \<open>Block_Store_Remount\<close> show what they do to a file of any well-formed store once an append
    has split it: a rewrite, a removal and a constructor that takes the saved records.
  \<^item> \<open>Sha256\<close>, \<open>Sha256_Props\<close>, \<open>Hkdf\<close> (\<open>security/sha256.rs\<close>, \<open>hkdf.rs\<close>, \<open>keystore.rs\<close>): the incremental hasher
    equals the one-shot definition of the standard over the same compression function, whose constants
    are checked on the published digest of \<open>abc\<close>; HMAC, HKDF and the keystore follow.  The AEAD cipher
    is a parameter, and the hypothesis \<open>aead_ok\<close> says that decryption undoes encryption.
  \<^item> \<open>Fuse_Proto\<close>, \<open>Fuse_Session\<close>: messages and the session loop, equal to the finite runs of an
    inductive step relation; the queue transport of the sources is the instance of its locale.

  \<^bold>\<open>Bounds.\<close>  Lengths of in-memory byte lists are assumed below \<open>2\<close> to the 64th power where the code narrows them
  to \<open>u64\<close> (a Rust \<open>Vec\<close> holds at most \<open>2\<close> to the 63rd power).  The theorems on writes to the block store assume a
  device below \<open>2\<close> to the 62nd power bytes (the 60th where two writes follow each other, as the device may double) and a write below 4 GiB, which the 32-bit lengths of an extent demand.  No fuel is used for a loop that ends by itself.

  \<^bold>\<open>Not modelled.\<close>  Serialisation by the \<open>serde\<close> and \<open>bincode\<close> crates and the ciphers and compressors of
  external crates (parameters where a modelled function calls them); the operating-system bridges,
  command lines, tools and reports, which call the core; tests and vendored crates.  Of the core itself the
  native and grouped layouts of the persisted state, the scrubber, tiering and the
  services are not modelled.  \<open>inspect\<close> of
  \<open>volume.rs\<close> only prints a superblock.  The manifest lists every part with its reason.
\<close>

end
